(* ===== verification/Prelude.thy ===== *)
theory Prelude
  imports Main "HOL-Library.Multiset"
begin

text \<open>
  What every component shares.  The first part models the functions of Go's standard library
  that the sources call on strings, slices, integers and instants:

    \<^item> a Go string is the list of its bytes; \<open>ToLower\<close> and \<open>TrimSpace\<close> are the ASCII branches of
      \<^verbatim>\<open>strings.ToLower\<close> and \<^verbatim>\<open>strings.TrimSpace\<close> (bytes above 127 are left as they are), which is
      what these functions do on identifiers, keys and rule names;
    \<^item> a Go \<^verbatim>\<open>map\<close> is an association list with distinct keys (\<open>map_of\<close>, \<^verbatim>\<open>AList.update\<close>); the order
      of the list is one possible order of a \<^verbatim>\<open>range\<close> over the map;
    \<^item> a \<^verbatim>\<open>time.Time\<close> is its number of nanoseconds since the Unix epoch; the zero instant is the
      first of January of year 1, as in Go; \<^verbatim>\<open>time.Since\<close> and \<^verbatim>\<open>Sub\<close> saturate at 64 bits;
    \<^item> \<open>wrap64\<close> is the wrap-around of a 64-bit signed addition.

  The second part is the library of generic lemmas the component proofs use.
\<close>

named_theorems go_defs "definitions of the modelled library functions, for evaluation"
named_theorems preserve "operations keep the invariant of their component"

section \<open>Bytes and strings\<close>

type_synonym gostring = string

definition byte_of :: "char \<Rightarrow> nat" where
  "byte_of c = of_char c"

definition is_upper :: "char \<Rightarrow> bool" where
  "is_upper c \<longleftrightarrow> 65 \<le> byte_of c \<and> byte_of c \<le> 90"

definition is_lower :: "char \<Rightarrow> bool" where
  "is_lower c \<longleftrightarrow> 97 \<le> byte_of c \<and> byte_of c \<le> 122"

definition is_digit :: "char \<Rightarrow> bool" where
  "is_digit c \<longleftrightarrow> 48 \<le> byte_of c \<and> byte_of c \<le> 57"

definition is_space :: "char \<Rightarrow> bool" where
  "is_space c \<longleftrightarrow> byte_of c \<in> {9, 10, 11, 12, 13, 32}"

definition lower_char :: "char \<Rightarrow> char" where
  "lower_char c = (if is_upper c then char_of (byte_of c + 32) else c)"

definition ToLower :: "string \<Rightarrow> string" where
  "ToLower s = map lower_char s"

definition TrimLeft :: "(char \<Rightarrow> bool) \<Rightarrow> string \<Rightarrow> string" where
  "TrimLeft p s = dropWhile p s"

definition TrimRight :: "(char \<Rightarrow> bool) \<Rightarrow> string \<Rightarrow> string" where
  "TrimRight p s = rev (dropWhile p (rev s))"

definition TrimSpace :: "string \<Rightarrow> string" where
  "TrimSpace s = TrimRight is_space (TrimLeft is_space s)"

definition EqualFold :: "string \<Rightarrow> string \<Rightarrow> bool" where
  "EqualFold s t \<longleftrightarrow> ToLower s = ToLower t"

definition HasPrefix :: "string \<Rightarrow> string \<Rightarrow> bool" where
  "HasPrefix s p \<longleftrightarrow> take (length p) s = p"

definition HasSuffix :: "string \<Rightarrow> string \<Rightarrow> bool" where
  "HasSuffix s p \<longleftrightarrow> length p \<le> length s \<and> drop (length s - length p) s = p"

definition TrimPrefix :: "string \<Rightarrow> string \<Rightarrow> string" where
  "TrimPrefix s p = (if HasPrefix s p then drop (length p) s else s)"

text \<open>\<^verbatim>\<open>strings.Index\<close>: the first position of a substring, \<open>None\<close> for -1.\<close>

fun Index :: "string \<Rightarrow> string \<Rightarrow> nat option" where
  "Index [] sub = (if sub = [] then Some 0 else None)"
| "Index (c # s) sub = (if HasPrefix (c # s) sub then Some 0 else map_option Suc (Index s sub))"

definition Contains :: "string \<Rightarrow> string \<Rightarrow> bool" where
  "Contains s sub \<longleftrightarrow> Index s sub \<noteq> None"

text \<open>The first position of one byte, and the two sides of it (\<^verbatim>\<open>strings.Cut\<close>).\<close>

fun IndexByte :: "string \<Rightarrow> char \<Rightarrow> nat option" where
  "IndexByte [] b = None"
| "IndexByte (c # s) b = (if c = b then Some 0 else map_option Suc (IndexByte s b))"

definition Cut :: "string \<Rightarrow> char \<Rightarrow> string \<times> string option" where
  "Cut s b = (case IndexByte s b of None \<Rightarrow> (s, None) | Some i \<Rightarrow> (take i s, Some (drop (Suc i) s)))"

text \<open>\<^verbatim>\<open>strings.SplitN\<close> with a one-byte separator.\<close>

fun SplitN :: "nat \<Rightarrow> string \<Rightarrow> char \<Rightarrow> string list" where
  "SplitN 0 s b = []"
| "SplitN (Suc 0) s b = [s]"
| "SplitN (Suc (Suc n)) s b =
     (case IndexByte s b of None \<Rightarrow> [s] | Some i \<Rightarrow> take i s # SplitN (Suc n) (drop (Suc i) s) b)"

definition ReplaceByte :: "char \<Rightarrow> string \<Rightarrow> string \<Rightarrow> string" where
  "ReplaceByte b t s = concat (map (\<lambda>c. if c = b then t else [c]) s)"

text \<open>\<^verbatim>\<open>strings.Join\<close>.\<close>

fun Join :: "string list \<Rightarrow> string \<Rightarrow> string" where
  "Join [] sep = []"
| "Join [w] sep = w"
| "Join (w # ws) sep = w @ sep @ Join ws sep"

text \<open>\<^verbatim>\<open>%d\<close> of a natural number and of an integer.\<close>

fun dec_nat :: "nat \<Rightarrow> string" where
  "dec_nat n = (if n < 10 then [char_of (48 + n)] else dec_nat (n div 10) @ [char_of (48 + n mod 10)])"

declare dec_nat.simps [simp del]

definition dec_int :: "int \<Rightarrow> string" where
  "dec_int i = (if i < 0 then ''-'' @ dec_nat (nat (- i)) else dec_nat (nat i))"

lemmas go_string_defs [go_defs] =
  byte_of_def is_upper_def is_lower_def is_digit_def is_space_def lower_char_def ToLower_def
  TrimLeft_def TrimRight_def TrimSpace_def EqualFold_def HasPrefix_def HasSuffix_def TrimPrefix_def
  Contains_def Cut_def ReplaceByte_def

subsection \<open>Lemmas on strings\<close>

lemma byte_of_inject [simp]: "byte_of c = byte_of d \<longleftrightarrow> c = d"
  by (simp add: byte_of_def)

lemma byte_of_bound: "byte_of c < 256"
  using nat_of_char_less_256 [of c] by (simp add: byte_of_def)

lemma byte_of_char_of [simp]: "n < 256 \<Longrightarrow> byte_of (char_of n) = n"
  by (simp add: byte_of_def take_bit_eq_mod of_char_of)

lemma byte_of_lower_char: "byte_of (lower_char c) = (if is_upper c then byte_of c + 32 else byte_of c)"
  by (simp add: lower_char_def is_upper_def)

lemma lower_char_not_upper [simp]: "\<not> is_upper (lower_char c)"
  using byte_of_lower_char [of c] by (auto simp: is_upper_def split: if_splits)

lemma lower_char_idem [simp]: "lower_char (lower_char c) = lower_char c"
  using lower_char_not_upper [of c] by (simp add: lower_char_def [of "lower_char c"])

lemma is_space_lower_char [simp]: "is_space (lower_char c) = is_space c"
  using byte_of_lower_char [of c] by (auto simp: is_space_def is_upper_def split: if_splits)

lemma ToLower_idem [simp]: "ToLower (ToLower s) = ToLower s"
  by (simp add: ToLower_def comp_def)

lemma ToLower_append [simp]: "ToLower (s @ t) = ToLower s @ ToLower t"
  by (simp add: ToLower_def)

lemma ToLower_Nil [simp]: "ToLower [] = []" "ToLower s = [] \<longleftrightarrow> s = []"
  by (simp_all add: ToLower_def)

lemma length_ToLower [simp]: "length (ToLower s) = length s"
  by (simp add: ToLower_def)

lemma TrimSpace_Nil [simp]: "TrimSpace [] = []"
  by (simp add: TrimSpace_def TrimLeft_def TrimRight_def)

lemma dropWhile_map_pred: "dropWhile p (map f s) = map f (dropWhile (\<lambda>x. p (f x)) s)"
  by (induction s) auto

lemma TrimSpace_ToLower: "TrimSpace (ToLower s) = ToLower (TrimSpace s)"
  by (simp add: TrimSpace_def TrimLeft_def TrimRight_def ToLower_def dropWhile_map_pred rev_map)

lemma dropWhile_hd: "dropWhile p s \<noteq> [] \<Longrightarrow> \<not> p (hd (dropWhile p s))"
  by (rule hd_dropWhile)

lemma TrimRight_last: "TrimRight p s \<noteq> [] \<Longrightarrow> \<not> p (last (TrimRight p s))"
  using dropWhile_hd [of p "rev s"] by (simp add: TrimRight_def last_rev)

lemma TrimRight_prefix: "\<exists>t. s = TrimRight p s @ t \<and> (\<forall>c \<in> set t. p c)"
proof -
  have "rev s = takeWhile p (rev s) @ dropWhile p (rev s)" by simp
  then have "s = rev (dropWhile p (rev s)) @ rev (takeWhile p (rev s))"
    by (metis rev_append rev_rev_ident)
  moreover have "\<forall>c \<in> set (rev (takeWhile p (rev s))). p c" by (auto dest: set_takeWhileD)
  ultimately show ?thesis unfolding TrimRight_def by blast
qed

lemma TrimRight_hd: "TrimRight p s \<noteq> [] \<Longrightarrow> hd (TrimRight p s) = hd s"
  using TrimRight_prefix [of s p] by (metis hd_append2)

lemma TrimLeft_id: "s = [] \<or> \<not> p (hd s) \<Longrightarrow> TrimLeft p s = s"
  by (cases s) (auto simp: TrimLeft_def)

lemma TrimRight_id: "s = [] \<or> \<not> p (last s) \<Longrightarrow> TrimRight p s = s"
  by (cases s rule: rev_cases) (auto simp: TrimRight_def)

text \<open>A string is trimmed when neither end is a space; \<open>TrimSpace\<close> produces such strings and
  leaves them alone.\<close>

definition trimmed :: "string \<Rightarrow> bool" where
  "trimmed s \<longleftrightarrow> s = [] \<or> (\<not> is_space (hd s) \<and> \<not> is_space (last s))"

lemma trimmed_TrimSpace [simp]: "trimmed (TrimSpace s)"
proof (cases "TrimSpace s = []")
  case False
  then have "TrimLeft is_space s \<noteq> []"
    by (auto simp: TrimSpace_def TrimRight_def)
  then have "\<not> is_space (hd (TrimLeft is_space s))"
    unfolding TrimLeft_def by (rule dropWhile_hd)
  moreover have "hd (TrimSpace s) = hd (TrimLeft is_space s)"
    using False unfolding TrimSpace_def by (rule TrimRight_hd)
  moreover have "\<not> is_space (last (TrimSpace s))"
    using False unfolding TrimSpace_def by (rule TrimRight_last)
  ultimately show ?thesis by (simp add: trimmed_def)
qed (simp add: trimmed_def)

lemma TrimSpace_id: "trimmed s \<Longrightarrow> TrimSpace s = s"
  by (auto simp: trimmed_def TrimSpace_def TrimLeft_id TrimRight_id)

lemma TrimSpace_idem [simp]: "TrimSpace (TrimSpace s) = TrimSpace s"
  by (simp add: TrimSpace_id)

lemma set_TrimSpace: "set (TrimSpace s) \<subseteq> set s"
  by (auto simp: TrimSpace_def TrimLeft_def TrimRight_def dest!: set_dropWhileD)

lemma length_TrimRight: "length (TrimRight p s) \<le> length s"
  using length_dropWhile_le [of p "rev s"] by (simp add: TrimRight_def)

lemma length_TrimSpace: "length (TrimSpace s) \<le> length s"
  using length_TrimRight [of is_space "TrimLeft is_space s"] length_dropWhile_le [of is_space s]
  by (simp add: TrimSpace_def TrimLeft_def)

lemma HasPrefix_append [simp]: "HasPrefix (p @ s) p"
  by (simp add: HasPrefix_def)

lemma HasPrefix_iff: "HasPrefix s p \<longleftrightarrow> (\<exists>t. s = p @ t)"
proof
  assume "HasPrefix s p"
  then have "s = p @ drop (length p) s"
    unfolding HasPrefix_def by (metis append_take_drop_id)
  then show "\<exists>t. s = p @ t" ..
qed auto

lemma IndexByte_None: "IndexByte s b = None \<longleftrightarrow> b \<notin> set s"
  by (induction s) auto

lemma IndexByte_append: "b \<notin> set s \<Longrightarrow> IndexByte (s @ b # t) b = Some (length s)"
  by (induction s) auto

lemma IndexByte_Some:
  "IndexByte s b = Some i \<Longrightarrow> i < length s \<and> s ! i = b \<and> b \<notin> set (take i s)"
  by (induction s arbitrary: i) (auto split: if_splits)

lemma Index_bound: "Index s sub = Some i \<Longrightarrow> i + length sub \<le> length s"
proof (induction s arbitrary: i)
  case (Cons c s)
  show ?case
  proof (cases "HasPrefix (c # s) sub")
    case True
    then have "length sub \<le> length (c # s)"
      unfolding HasPrefix_def by (metis length_take min.cobounded1)
    with True Cons.prems show ?thesis by simp
  next
    case False
    with Cons.prems obtain j where "Index s sub = Some j" "i = Suc j" by auto
    with Cons.IH show ?thesis by auto
  qed
qed (auto split: if_splits)

lemma dec_nat_nonempty [simp]: "dec_nat n \<noteq> []"
  by (subst dec_nat.simps) simp

section \<open>Integers and instants\<close>

definition wrap64 :: "int \<Rightarrow> int" where
  "wrap64 x = (x + 2 ^ 63) mod 2 ^ 64 - 2 ^ 63"

definition max_int64 :: int where "max_int64 = 2 ^ 63 - 1"
definition min_int64 :: int where "min_int64 = - (2 ^ 63)"

lemma wrap64_id: "min_int64 \<le> x \<Longrightarrow> x \<le> max_int64 \<Longrightarrow> wrap64 x = x"
  by (simp add: wrap64_def min_int64_def max_int64_def)

lemma wrap64_range: "min_int64 \<le> wrap64 x \<and> wrap64 x \<le> max_int64"
proof -
  have "(x + 2 ^ 63) mod 2 ^ 64 < (2 ^ 64 :: int)" "0 \<le> (x + 2 ^ 63) mod (2 ^ 64 :: int)" by simp_all
  then show ?thesis by (simp add: wrap64_def min_int64_def max_int64_def)
qed

type_synonym gtime = int      \<comment> \<open>nanoseconds since the Unix epoch\<close>
type_synonym duration = int   \<comment> \<open>nanoseconds\<close>

definition zero_time :: gtime where "zero_time = - 62135596800 * 1000000000"
definition IsZero :: "gtime \<Rightarrow> bool" where "IsZero t \<longleftrightarrow> t = zero_time"
definition Before :: "gtime \<Rightarrow> gtime \<Rightarrow> bool" where "Before a b \<longleftrightarrow> a < b"
definition TSub :: "gtime \<Rightarrow> gtime \<Rightarrow> duration" where
  "TSub a b = max min_int64 (min max_int64 (a - b))"
definition UnixMilli :: "gtime \<Rightarrow> int" where "UnixMilli t = t div 1000000"
definition time_UnixMilli :: "int \<Rightarrow> gtime" where "time_UnixMilli ms = ms * 1000000"

definition nsMillisecond :: int where "nsMillisecond = 1000000"
definition nsSecond :: int where "nsSecond = 1000000000"
definition nsHour :: int where "nsHour = 3600 * nsSecond"

lemmas go_time_defs [go_defs] =
  zero_time_def IsZero_def Before_def TSub_def UnixMilli_def time_UnixMilli_def
  nsMillisecond_def nsSecond_def nsHour_def max_int64_def min_int64_def wrap64_def

lemma IsZero_zero [simp]: "IsZero zero_time"
  by (simp add: IsZero_def)

lemma UnixMilli_time [simp]: "UnixMilli (time_UnixMilli ms) = ms"
  by (simp add: UnixMilli_def time_UnixMilli_def)

lemma TSub_bounded: "0 \<le> d \<Longrightarrow> d < max_int64 \<Longrightarrow> TSub a b \<le> d \<longleftrightarrow> a - b \<le> d"
  by (auto simp: TSub_def min_int64_def max_int64_def)

end
