(* ===== verification/Session.thy ===== *)
theory Session
  imports Prelude "HOL-Library.AList"
begin

text \<open>
  The durable session model: the messages of \<^verbatim>\<open>internal/core/provider/protocoltypes/types.go\<close>, the
  sessions and events of \<^verbatim>\<open>internal/core/session/types.go\<close>, the JSONL event log of
  \<^verbatim>\<open>pkg/session/events.go\<close> and the replay of a branch of it (\<^verbatim>\<open>pkg/session/tree.go\<close>).  Values are
  immutable here, so the deep copies of the source (\<^verbatim>\<open>cloneMessage\<close> and the functions it calls) are
  identities.  A slice that may be nil where that matters is an option.  Writing a value as JSON and
  reading it back keeps it, except for what the field tags drop: \<open>json_event\<close> is that projection
  (strings are valid UTF-8).
\<close>

section \<open>Messages\<close>

datatype jval = JNull | JBool bool | JNum int | JStr string | JArr "jval list" | JObj "(string \<times> jval) list"

record function_call =
  fn_name :: string
  fn_arguments :: string
  fn_signature :: string

record tool_call =
  tc_id :: string
  tc_type :: string
  tc_function :: "function_call option"
  tc_name :: string
  tc_arguments :: "(string \<times> jval) list option"
  tc_signature :: string
  tc_extra :: "string option option"     \<comment> \<open>\<^verbatim>\<open>ExtraContent\<close> and the signature in its \<^verbatim>\<open>Google\<close> part\<close>

record content_block =
  cb_type :: string
  cb_text :: string
  cb_cache_control :: "string option"

record message =
  role :: string
  content :: string
  media :: "string list option"
  reasoning :: string
  system_parts :: "content_block list option"
  tool_calls :: "tool_call list option"
  tool_call_id :: string

text \<open>\<^verbatim>\<open>omitempty\<close> on a slice: nil and empty are both left out, and come back as nil.\<close>

fun omit_empty :: "'a list option \<Rightarrow> 'a list option" where
  "omit_empty None = None"
| "omit_empty (Some xs) = (if xs = [] then None else Some xs)"

definition json_tool_call :: "tool_call \<Rightarrow> tool_call" where
  "json_tool_call c = c\<lparr>tc_name := [], tc_arguments := None, tc_signature := []\<rparr>"

definition json_message :: "message \<Rightarrow> message" where
  "json_message msg = msg\<lparr>media := omit_empty (media msg), system_parts := omit_empty (system_parts msg),
     tool_calls := map_option (map json_tool_call) (omit_empty (tool_calls msg))\<rparr>"

lemma omit_empty_idem [simp]: "omit_empty (omit_empty x) = omit_empty x"
  by (cases x) auto

lemma json_tool_call_idem [simp]: "json_tool_call (json_tool_call c) = json_tool_call c"
  by (simp add: json_tool_call_def)

lemma json_message_idem [simp]: "json_message (json_message msg) = json_message msg"
proof -
  have "map_option (map json_tool_call) (omit_empty (map_option (map json_tool_call) (omit_empty x)))
      = map_option (map json_tool_call) (omit_empty x)" for x
    by (cases x) (auto simp: comp_def)
  then show ?thesis by (simp add: json_message_def)
qed

section \<open>Sessions and events\<close>

record session =
  s_key :: string
  s_messages :: "message list"
  s_summary :: string
  s_compaction :: int
  s_flush_at :: gtime
  s_flush_count :: int
  s_created :: gtime
  s_updated :: gtime
  s_override :: string
  s_override_expires :: "int option"
  s_last_event :: string

datatype event_type =
    EventSessionMessage | EventSessionSummary | EventSessionCompactionInc
  | EventSessionMemoryFlush | EventSessionHistorySet | EventSessionHistoryTrunc
  | EventOther string

record session_event =
  ev_type :: event_type
  ev_id :: string
  ev_parent :: string
  ev_ts :: string
  ev_ts_ms :: int
  ev_key :: string
  ev_message :: "message option"
  ev_summary :: string
  ev_compaction :: int
  ev_flush_at :: gtime
  ev_flush_count :: int
  ev_keep_last :: int
  ev_history :: "message list option"

record session_meta =
  sm_key :: string
  sm_summary :: string
  sm_created :: gtime
  sm_updated :: gtime
  sm_last_event :: string
  sm_messages_count :: int
  sm_override :: string
  sm_override_expires :: "int option"

definition json_event :: "session_event \<Rightarrow> session_event" where
  "json_event ev = ev\<lparr>ev_message := map_option json_message (ev_message ev),
     ev_history := map_option (map json_message) (omit_empty (ev_history ev))\<rparr>"

lemma json_event_fields [simp]:
  "ev_type (json_event ev) = ev_type ev" "ev_id (json_event ev) = ev_id ev"
  "ev_parent (json_event ev) = ev_parent ev" "ev_ts_ms (json_event ev) = ev_ts_ms ev"
  "ev_summary (json_event ev) = ev_summary ev" "ev_compaction (json_event ev) = ev_compaction ev"
  "ev_flush_at (json_event ev) = ev_flush_at ev" "ev_flush_count (json_event ev) = ev_flush_count ev"
  "ev_keep_last (json_event ev) = ev_keep_last ev"
  "ev_message (json_event ev) = map_option json_message (ev_message ev)"
  "ev_history (json_event ev) = map_option (map json_message) (omit_empty (ev_history ev))"
  by (simp_all add: json_event_def)

lemma json_event_idem [simp]: "json_event (json_event ev) = json_event ev"
proof -
  have "map_option (map json_message) (omit_empty (map_option (map json_message) (omit_empty x)))
      = map_option (map json_message) (omit_empty x)" for x
    by (cases x) (auto simp: comp_def)
  then show ?thesis by (simp add: json_event_def option.map_comp comp_def)
qed

section \<open>The event log\<close>

text \<open>A log is a list of lines, each an event or garbage; the last line may lack its newline.\<close>

record log_file =
  lf_lines :: "session_event option list"
  lf_open :: bool

text \<open>What an append may come to: written and synced; the same, but the line is longer than the 32 MiB the reader
  takes, so that it is garbage to it; written, but the sync failed; nothing written; a proper part of the line
  written.  Only the first two are reported as a success.\<close>

datatype append_result = Appended | AppendedTooLong | AppendedNoSync | NotAppended | Torn

definition appendJSONLEvent :: "append_result \<Rightarrow> log_file option \<Rightarrow> session_event \<Rightarrow> log_file option \<times> bool" where
  "appendJSONLEvent out f ev =
     (let old = (case f of None \<Rightarrow> \<lparr>lf_lines = [], lf_open = False\<rparr> | Some g \<Rightarrow> g);
          line = (if lf_open old then [] else [Some (json_event ev)]);
          torn = (if lf_open old then [] else [None])
      in case out of
           Appended \<Rightarrow> (Some \<lparr>lf_lines = lf_lines old @ line, lf_open = False\<rparr>, True)
         | AppendedTooLong \<Rightarrow> (Some \<lparr>lf_lines = lf_lines old @ torn, lf_open = False\<rparr>, True)
         | AppendedNoSync \<Rightarrow> (Some \<lparr>lf_lines = lf_lines old @ line, lf_open = False\<rparr>, False)
         | NotAppended \<Rightarrow> (f, False)
         | Torn \<Rightarrow> (Some \<lparr>lf_lines = lf_lines old @ torn, lf_open = True\<rparr>, False))"

text \<open>Reading stops with an error at the first line that is not an event or longer than the buffer of the scanner, and
  at a missing file.  (A file that cannot be read to its end is a missing one here: the callers do the same.)\<close>

fun read_lines :: "session_event option list \<Rightarrow> session_event list \<times> bool" where
  "read_lines [] = ([], True)"
| "read_lines (None # ls) = ([], False)"
| "read_lines (Some ev # ls) = (case read_lines ls of (evs, ok) \<Rightarrow> (ev # evs, ok))"

definition readJSONLEvents :: "log_file option \<Rightarrow> session_event list option" where
  "readJSONLEvents f =
     (case f of
        None \<Rightarrow> None
      | Some g \<Rightarrow> (case read_lines (lf_lines g) of (evs, ok) \<Rightarrow> if ok then Some evs else None))"

section \<open>Branches\<close>

type_synonym event_index = "(string \<times> session_event) list"

text \<open>The index of the events by their trimmed ids (the last one of an id wins), the ids in order and
  the last id.\<close>

fun index_from :: "session_event list \<Rightarrow> event_index \<times> string list \<times> string \<Rightarrow> event_index \<times> string list \<times> string" where
  "index_from [] acc = acc"
| "index_from (ev # evs) (byID, ordered, tail_id) =
     (let i = TrimSpace (ev_id ev) in
      if i = [] then index_from evs (byID, ordered, tail_id)
      else index_from evs (AList.update i ev byID, ordered @ [i], i))"

definition indexEvents :: "session_event list \<Rightarrow> event_index \<times> string list \<times> string" where
  "indexEvents events = index_from events ([], [], [])"

definition resolveLeafID :: "string \<Rightarrow> event_index \<Rightarrow> string \<Rightarrow> string" where
  "resolveLeafID preferred byID fallback =
     (let p = TrimSpace preferred; f = TrimSpace fallback in
      if p \<noteq> [] \<and> map_of byID p \<noteq> None then p
      else if f \<noteq> [] \<and> map_of byID f \<noteq> None then f
      else [])"

function path_from :: "event_index \<Rightarrow> string \<Rightarrow> string list \<Rightarrow> string list" where
  "path_from byID cur visited =
     (if cur = [] \<or> cur \<in> set visited then []
      else cur # (case map_of byID cur of
                    None \<Rightarrow> []
                  | Some ev \<Rightarrow> path_from byID (TrimSpace (ev_parent ev)) (cur # visited)))"
  by pat_completeness auto
termination
proof (relation "measure (\<lambda>(byID, cur, visited). card (fst ` set byID - set visited))", goal_cases)
  case (2 byID cur visited ev)
  have "cur \<in> fst ` set byID" using 2(2) by (metis domI dom_map_of_conv_image_fst)
  then have "fst ` set byID - set (cur # visited) \<subset> fst ` set byID - set visited" using 2(1) by auto
  then show ?case by (simp add: psubset_card_mono)
qed simp

declare path_from.simps [simp del]

definition collectPathIDs :: "event_index \<Rightarrow> string \<Rightarrow> string list" where
  "collectPathIDs byID leafID = path_from byID (TrimSpace leafID) []"

section \<open>Replay\<close>

definition empty_session :: session where
  "empty_session = \<lparr>s_key = [], s_messages = [], s_summary = [], s_compaction = 0, s_flush_at = zero_time,
     s_flush_count = 0, s_created = zero_time, s_updated = zero_time, s_override = [],
     s_override_expires = None, s_last_event = []\<rparr>"

text \<open>The last \<open>n\<close> elements (\<^verbatim>\<open>xs[len(xs)-n:]\<close>).\<close>

definition last_n :: "nat \<Rightarrow> 'a list \<Rightarrow> 'a list" where
  "last_n n xs = drop (length xs - n) xs"

definition keep_last :: "int \<Rightarrow> 'a list \<Rightarrow> 'a list" where
  "keep_last k xs = (if k \<le> 0 then [] else if int (length xs) > k then last_n (nat k) xs else xs)"

definition apply_event :: "session_event \<Rightarrow> session \<Rightarrow> session" where
  "apply_event ev s =
     (let s1 =
        (case ev_type ev of
           EventSessionMessage \<Rightarrow>
             (case ev_message ev of None \<Rightarrow> s | Some msg \<Rightarrow> s\<lparr>s_messages := s_messages s @ [msg]\<rparr>)
         | EventSessionSummary \<Rightarrow> s\<lparr>s_summary := ev_summary ev\<rparr>
         | EventSessionHistorySet \<Rightarrow>
             (case ev_history ev of None \<Rightarrow> s | Some h \<Rightarrow> s\<lparr>s_messages := h\<rparr>)
         | EventSessionHistoryTrunc \<Rightarrow> s\<lparr>s_messages := keep_last (ev_keep_last ev) (s_messages s)\<rparr>
         | EventSessionCompactionInc \<Rightarrow>
             (if ev_compaction ev > s_compaction s then s\<lparr>s_compaction := ev_compaction ev\<rparr> else s)
         | EventSessionMemoryFlush \<Rightarrow>
             (let a = (if \<not> IsZero (ev_flush_at ev) then s\<lparr>s_flush_at := ev_flush_at ev\<rparr> else s)
              in if ev_flush_count ev \<noteq> 0 then a\<lparr>s_flush_count := ev_flush_count ev\<rparr> else a)
         | EventOther _ \<Rightarrow> s)
      in if TrimSpace (ev_id ev) \<noteq> [] then s1\<lparr>s_last_event := TrimSpace (ev_id ev)\<rparr> else s1)"

fun min_ts :: "session_event list \<Rightarrow> int \<Rightarrow> int" where
  "min_ts [] m = m"
| "min_ts (ev # evs) m =
     min_ts evs (if ev_ts_ms ev > 0 \<and> (m = 0 \<or> ev_ts_ms ev < m) then ev_ts_ms ev else m)"

fun max_ts :: "session_event list \<Rightarrow> int \<Rightarrow> int" where
  "max_ts [] m = m"
| "max_ts (ev # evs) m = max_ts evs (if ev_ts_ms ev > 0 \<and> ev_ts_ms ev > m then ev_ts_ms ev else m)"

definition path_events :: "event_index \<Rightarrow> string list \<Rightarrow> session_event list" where
  "path_events byID ids = List.map_filter (map_of byID) ids"

definition replay_path :: "session_event list \<Rightarrow> session" where
  "replay_path evs =
     (let s = fold apply_event evs empty_session; mn = min_ts evs 0; mx = max_ts evs 0;
          s1 = (if mn > 0 then s\<lparr>s_created := time_UnixMilli mn\<rparr> else s)
      in if mx > 0 then s1\<lparr>s_updated := time_UnixMilli mx\<rparr> else s1)"

definition replayEvents :: "session_event list \<Rightarrow> string \<Rightarrow> session \<times> string" where
  "replayEvents events leafID =
     (case indexEvents events of
        (byID, _, tail_id) \<Rightarrow>
          let effectiveLeaf = resolveLeafID leafID byID tail_id in
          if effectiveLeaf = [] then (empty_session, [])
          else
            let pathIDs = collectPathIDs byID effectiveLeaf in
            if pathIDs = [] then (empty_session, [])
            else (replay_path (path_events byID (rev pathIDs)), effectiveLeaf))"

section \<open>Lemmas: the path to the root\<close>

lemma path_from_stop: "cur = [] \<or> cur \<in> set visited \<Longrightarrow> path_from byID cur visited = []"
  by (subst path_from.simps) auto

lemma path_from_leaf:
  "cur \<noteq> [] \<Longrightarrow> cur \<notin> set visited \<Longrightarrow> map_of byID cur = None \<Longrightarrow> path_from byID cur visited = [cur]"
  by (subst path_from.simps) simp

lemma path_from_step:
  "cur \<noteq> [] \<Longrightarrow> cur \<notin> set visited \<Longrightarrow> map_of byID cur = Some ev \<Longrightarrow>
   path_from byID cur visited = cur # path_from byID (TrimSpace (ev_parent ev)) (cur # visited)"
  by (subst path_from.simps) simp

text \<open>The three cases of one step of the walk.\<close>

lemma path_from_cases:
  obtains (stop) "cur = [] \<or> cur \<in> set visited" "path_from byID cur visited = []"
  | (leaf) "cur \<noteq> []" "cur \<notin> set visited" "map_of byID cur = None" "path_from byID cur visited = [cur]"
  | (step) ev where "cur \<noteq> []" "cur \<notin> set visited" "map_of byID cur = Some ev"
      "path_from byID cur visited = cur # path_from byID (TrimSpace (ev_parent ev)) (cur # visited)"
  using path_from_stop path_from_leaf path_from_step by (metis option.exhaust)

lemma path_from_set: "set (path_from byID cur visited) \<inter> set visited = {}"
proof (induction byID cur visited rule: path_from.induct)
  case (1 byID cur visited)
  show ?case
  proof (cases rule: path_from_cases [of cur visited byID])
    case (step ev)
    with "1" [of ev] show ?thesis by auto
  qed simp_all
qed

lemma path_from_distinct: "distinct (path_from byID cur visited)"
proof (induction byID cur visited rule: path_from.induct)
  case (1 byID cur visited)
  show ?case
  proof (cases rule: path_from_cases [of cur visited byID])
    case (step ev)
    with "1" [of ev] path_from_set [of byID _ "cur # visited"] show ?thesis by auto
  qed simp_all
qed

lemma path_from_hd: "cur \<noteq> [] \<Longrightarrow> cur \<notin> set visited \<Longrightarrow>
  path_from byID cur visited \<noteq> [] \<and> hd (path_from byID cur visited) = cur"
  by (subst path_from.simps, subst (2) path_from.simps) simp

lemma path_from_link:
  "Suc i < length (path_from byID cur visited) \<Longrightarrow>
   \<exists>ev. map_of byID (path_from byID cur visited ! i) = Some ev \<and>
        path_from byID cur visited ! Suc i = TrimSpace (ev_parent ev)"
proof (induction byID cur visited arbitrary: i rule: path_from.induct)
  case (1 byID cur visited)
  show ?case
  proof (cases "cur = [] \<or> cur \<in> set visited \<or> map_of byID cur = None")
    case True
    then have "length (path_from byID cur visited) \<le> 1" by (subst path_from.simps) auto
    with "1.prems" show ?thesis by simp
  next
    case False
    then obtain ev where ev: "map_of byID cur = Some ev" and nv: "\<not> (cur = [] \<or> cur \<in> set visited)" by auto
    let ?p = "path_from byID (TrimSpace (ev_parent ev)) (cur # visited)"
    have p: "path_from byID cur visited = cur # ?p" using ev nv by (subst path_from.simps) simp
    show ?thesis
    proof (cases i)
      case 0
      with "1.prems" p have "?p \<noteq> []" by auto
      then have "hd ?p = TrimSpace (ev_parent ev)"
        by (subst (asm) path_from.simps, subst path_from.simps) (simp split: if_splits)
      with 0 p ev \<open>?p \<noteq> []\<close> show ?thesis by (simp add: hd_conv_nth)
    next
      case (Suc j)
      with "1.prems" p have "Suc j < length ?p" by simp
      from "1.IH" [OF nv ev this] Suc p show ?thesis by simp
    qed
  qed
qed

lemma path_from_end:
  assumes "path_from byID cur visited \<noteq> []"
  shows "let l = last (path_from byID cur visited) in
    map_of byID l = None \<or>
    (\<exists>ev. map_of byID l = Some ev \<and>
       (TrimSpace (ev_parent ev) = [] \<or> TrimSpace (ev_parent ev) \<in> set visited \<union> set (path_from byID cur visited)))"
  using assms
proof (induction byID cur visited rule: path_from.induct)
  case (1 byID cur visited)
  have nv: "\<not> (cur = [] \<or> cur \<in> set visited)" using "1.prems" by (subst (asm) path_from.simps) (auto split: if_splits)
  show ?case
  proof (cases "map_of byID cur")
    case None
    then have "path_from byID cur visited = [cur]" using nv by (subst path_from.simps) simp
    with None show ?thesis by simp
  next
    case (Some ev)
    let ?p = "path_from byID (TrimSpace (ev_parent ev)) (cur # visited)"
    have p: "path_from byID cur visited = cur # ?p" using Some nv by (subst path_from.simps) simp
    show ?thesis
    proof (cases "?p = []")
      case True
      then have "TrimSpace (ev_parent ev) = [] \<or> TrimSpace (ev_parent ev) \<in> set (cur # visited)"
        by (subst (asm) path_from.simps) (auto split: if_splits)
      with True p Some show ?thesis by auto
    next
      case False
      from "1.IH" [OF nv Some this] False p show ?thesis by (auto simp: Let_def)
    qed
  qed
qed

text \<open>
  The walk to the root always ends, on cyclic parents too, and gives the branch of the leaf: it
  begins at the leaf, no id comes twice, each id is the parent of the one before, and it stops only at
  an id without an event, at an event without a parent or at a parent already on the path.
\<close>

theorem collectPathIDs_branch:
  assumes "TrimSpace leaf \<noteq> []"
  shows "let p = collectPathIDs byID leaf in
    p \<noteq> [] \<and> hd p = TrimSpace leaf \<and> distinct p \<and>
    (\<forall>i. Suc i < length p \<longrightarrow> (\<exists>ev. map_of byID (p ! i) = Some ev \<and> p ! Suc i = TrimSpace (ev_parent ev))) \<and>
    (map_of byID (last p) = None \<or>
     (\<exists>ev. map_of byID (last p) = Some ev \<and>
        (TrimSpace (ev_parent ev) = [] \<or> TrimSpace (ev_parent ev) \<in> set p)))"
  using path_from_hd [of "TrimSpace leaf" "[]" byID] path_from_distinct [of byID "TrimSpace leaf" "[]"]
    path_from_link [of _ byID "TrimSpace leaf" "[]"] path_from_end [of byID "TrimSpace leaf" "[]"] assms
  by (simp add: collectPathIDs_def Let_def)

definition ex_event :: "string \<Rightarrow> string \<Rightarrow> session_event" where
  "ex_event i p = \<lparr>ev_type = EventSessionSummary, ev_id = i, ev_parent = p, ev_ts = [], ev_ts_ms = 1, ev_key = ''k'',
     ev_message = None, ev_summary = i, ev_compaction = 0, ev_flush_at = zero_time, ev_flush_count = 0,
     ev_keep_last = 0, ev_history = None\<rparr>"

theorem collectPathIDs_branch_witness:
  "hd (collectPathIDs [(''a'', ex_event ''a'' ''b''), (''b'', ex_event ''b'' ''a'')] ''a'') = ''a''"
proof -
  have "TrimSpace ''a'' = ''a''" by code_simp
  then show ?thesis
    using collectPathIDs_branch [of "''a''" "[(''a'', ex_event ''a'' ''b''), (''b'', ex_event ''b'' ''a'')]"]
    by (simp add: Let_def)
qed

section \<open>Lemmas: a log that grows\<close>

definition by_id :: "session_event list \<Rightarrow> event_index" where
  "by_id evs = fst (indexEvents evs)"

definition tail_of :: "session_event list \<Rightarrow> string" where
  "tail_of evs = snd (snd (indexEvents evs))"

lemma index_from_append: "index_from (xs @ ys) acc = index_from ys (index_from xs acc)"
  by (induction xs acc rule: index_from.induct) (auto simp: Let_def)

lemma by_id_Nil [simp]: "by_id [] = []" "tail_of [] = []"
  by (simp_all add: by_id_def tail_of_def indexEvents_def)

lemma by_id_snoc:
  "TrimSpace (ev_id ev) \<noteq> [] \<Longrightarrow>
   by_id (evs @ [ev]) = AList.update (TrimSpace (ev_id ev)) ev (by_id evs) \<and>
   tail_of (evs @ [ev]) = TrimSpace (ev_id ev)"
  by (cases "index_from evs ([], [], [])") (simp add: by_id_def tail_of_def indexEvents_def index_from_append Let_def)

lemma by_id_snoc_blank:
  "TrimSpace (ev_id ev) = [] \<Longrightarrow> by_id (evs @ [ev]) = by_id evs \<and> tail_of (evs @ [ev]) = tail_of evs"
  by (cases "index_from evs ([], [], [])") (simp add: by_id_def tail_of_def indexEvents_def index_from_append Let_def)

lemma map_of_by_id_snoc:
  "TrimSpace (ev_id ev) \<noteq> [] \<Longrightarrow> map_of (by_id (evs @ [ev])) = (map_of (by_id evs))(TrimSpace (ev_id ev) \<mapsto> ev)"
  by (simp add: by_id_snoc AList.update_conv')

lemma by_id_events: "map_of (by_id evs) i = Some ev \<Longrightarrow> ev \<in> set evs \<and> TrimSpace (ev_id ev) = i"
proof (induction evs rule: rev_induct)
  case (snoc x evs)
  then show ?case
    by (cases "TrimSpace (ev_id x) = []") (auto simp: map_of_by_id_snoc by_id_snoc_blank split: if_splits)
qed simp

lemma by_id_complete: "ev \<in> set evs \<Longrightarrow> TrimSpace (ev_id ev) \<noteq> [] \<Longrightarrow> map_of (by_id evs) (TrimSpace (ev_id ev)) \<noteq> None"
proof (induction evs rule: rev_induct)
  case (snoc x evs)
  then show ?case
    by (cases "TrimSpace (ev_id x) = []") (auto simp: map_of_by_id_snoc by_id_snoc_blank)
qed simp

text \<open>An id is fresh for a log when no event of it has that id or names it as its parent.\<close>

definition fresh_id :: "string \<Rightarrow> session_event list \<Rightarrow> bool" where
  "fresh_id x evs \<longleftrightarrow> x \<noteq> [] \<and> trimmed x \<and>
     (\<forall>e \<in> set evs. TrimSpace (ev_id e) \<noteq> x \<and> TrimSpace (ev_parent e) \<noteq> x)"

lemma path_from_mono:
  assumes "\<And>i. i \<noteq> x \<Longrightarrow> map_of b' i = map_of b i"
    and "\<And>i ev. map_of b i = Some ev \<Longrightarrow> TrimSpace (ev_parent ev) \<noteq> x"
    and "set v' - {x} = set v - {x}" "cur \<noteq> x"
  shows "path_from b' cur v' = path_from b cur v"
  using assms
proof (induction b cur v arbitrary: v' rule: path_from.induct)
  case (1 b cur v)
  have v: "cur \<in> set v' \<longleftrightarrow> cur \<in> set v" using "1.prems"(3,4) by auto
  show ?case
  proof (cases rule: path_from_cases [of cur v b])
    case (step ev)
    have "path_from b' (TrimSpace (ev_parent ev)) (cur # v') = path_from b (TrimSpace (ev_parent ev)) (cur # v)"
    proof (rule "1.IH")
      show "\<not> (cur = [] \<or> cur \<in> set v)" using step by simp
      show "set (cur # v') - {x} = set (cur # v) - {x}" using "1.prems"(3) by auto
      show "TrimSpace (ev_parent ev) \<noteq> x" using "1.prems"(2) step by blast
    qed (use step "1.prems" in auto)
    moreover have "map_of b' cur = Some ev" using "1.prems"(1,4) step by simp
    ultimately show ?thesis using step v path_from_step [of cur v' b' ev] by simp
  next
    case leaf
    with "1.prems"(1,4) v show ?thesis by (simp add: path_from_leaf)
  qed (use v in \<open>auto simp: path_from_stop\<close>)
qed

text \<open>The branch of a leaf, oldest event first, and the state it leaves.\<close>

definition branch :: "session_event list \<Rightarrow> string \<Rightarrow> session_event list" where
  "branch evs leaf = path_events (by_id evs) (rev (collectPathIDs (by_id evs) leaf))"

definition branch_state :: "session_event list \<Rightarrow> string \<Rightarrow> session" where
  "branch_state evs leaf = fold apply_event (branch evs leaf) empty_session"

lemma branch_blank: "TrimSpace leaf = [] \<Longrightarrow> branch evs leaf = []"
  by (simp add: branch_def collectPathIDs_def path_from_stop path_events_def List.map_filter_simps)

lemma fresh_by_id:
  assumes "fresh_id x evs"
  shows "map_of (by_id evs) x = None"
    and "\<And>i ev. map_of (by_id evs) i = Some ev \<Longrightarrow> TrimSpace (ev_parent ev) \<noteq> x"
proof -
  show "map_of (by_id evs) x = None"
  proof (rule ccontr)
    assume "map_of (by_id evs) x \<noteq> None"
    then obtain ev where "map_of (by_id evs) x = Some ev" by blast
    with by_id_events [OF this] assms show False unfolding fresh_id_def by blast
  qed
  show "TrimSpace (ev_parent ev) \<noteq> x" if "map_of (by_id evs) i = Some ev" for i ev
    using by_id_events [OF that] assms by (simp add: fresh_id_def)
qed

lemma path_events_cong:
  "(\<And>i. i \<in> set ids \<Longrightarrow> map_of b' i = map_of b i) \<Longrightarrow> path_events b' ids = path_events b ids"
  by (induction ids) (auto simp: path_events_def List.map_filter_simps split: option.splits)

lemma path_not_fresh:
  assumes "fresh_id x evs" "TrimSpace leaf \<noteq> x"
  shows "x \<notin> set (collectPathIDs (by_id evs) leaf)"
proof -
  have "x \<notin> set (path_from b cur v)"
    if "\<And>i ev. map_of b i = Some ev \<Longrightarrow> TrimSpace (ev_parent ev) \<noteq> x" "cur \<noteq> x" for b cur v
    using that
  proof (induction b cur v rule: path_from.induct)
    case (1 b cur v)
    show ?case
    proof (cases rule: path_from_cases [of cur v b])
      case (step ev)
      with "1.IH" [of ev] "1.prems" show ?thesis by auto
    qed (use "1.prems" in simp_all)
  qed
  then show ?thesis using fresh_by_id(2) [OF assms(1)] assms(2) by (simp add: collectPathIDs_def)
qed

lemma branch_old:
  assumes "fresh_id (ev_id ev) evs" "TrimSpace leaf \<noteq> ev_id ev"
  shows "branch (evs @ [ev]) leaf = branch evs leaf"
proof -
  have x: "TrimSpace (ev_id ev) = ev_id ev" "ev_id ev \<noteq> []"
    using assms(1) by (simp_all add: fresh_id_def TrimSpace_id)
  have m: "map_of (by_id (evs @ [ev])) i = map_of (by_id evs) i" if "i \<noteq> ev_id ev" for i
    using that x by (simp add: map_of_by_id_snoc)
  have "collectPathIDs (by_id (evs @ [ev])) leaf = collectPathIDs (by_id evs) leaf"
    unfolding collectPathIDs_def
    using m fresh_by_id(2) [OF assms(1)] assms(2) by (intro path_from_mono [of "ev_id ev"]) auto
  moreover have "path_events (by_id (evs @ [ev])) (rev (collectPathIDs (by_id evs) leaf))
      = path_events (by_id evs) (rev (collectPathIDs (by_id evs) leaf))"
    using path_not_fresh [OF assms] by (intro path_events_cong m) auto
  ultimately show ?thesis by (simp add: branch_def)
qed

lemma branch_snoc:
  assumes "fresh_id (ev_id ev) evs" "TrimSpace (ev_parent ev) \<noteq> ev_id ev"
  shows "branch (evs @ [ev]) (ev_id ev) = branch evs (ev_parent ev) @ [ev]"
proof -
  let ?x = "ev_id ev" and ?b = "by_id (evs @ [ev])"
  have x: "TrimSpace ?x = ?x" "?x \<noteq> []"
    using assms(1) by (simp_all add: fresh_id_def TrimSpace_id)
  have m: "map_of ?b = (map_of (by_id evs))(?x \<mapsto> ev)" using x by (simp add: map_of_by_id_snoc)
  have "path_from ?b (TrimSpace (ev_parent ev)) [?x] = path_from (by_id evs) (TrimSpace (ev_parent ev)) []"
    using m fresh_by_id(2) [OF assms(1)] assms(2) by (intro path_from_mono [of ?x]) auto
  then have "collectPathIDs ?b ?x = ?x # collectPathIDs (by_id evs) (ev_parent ev)"
    using x m by (simp add: collectPathIDs_def path_from_step [of ?x "[]" ?b ev])
  moreover have "path_events ?b (rev (collectPathIDs (by_id evs) (ev_parent ev)))
      = path_events (by_id evs) (rev (collectPathIDs (by_id evs) (ev_parent ev)))"
    using path_not_fresh [OF assms] m by (intro path_events_cong) auto
  moreover have "path_events ?b (ids @ [?x]) = path_events ?b ids @ [ev]" for ids
    using m by (induction ids) (auto simp: path_events_def List.map_filter_simps split: option.splits)
  ultimately show ?thesis by (simp add: branch_def)
qed

section \<open>Lemmas: replay\<close>

text \<open>What a replay determines of a session.\<close>

definition core :: "session \<Rightarrow> message list \<times> string \<times> int \<times> gtime \<times> int" where
  "core s = (s_messages s, s_summary s, s_compaction s, s_flush_at s, s_flush_count s)"

lemma core_replay_path: "core (replay_path evs) = core (fold apply_event evs empty_session)"
  by (simp add: replay_path_def Let_def core_def)

lemma replayEvents_branch:
  assumes "map_of (by_id evs) (TrimSpace leaf) \<noteq> None" "TrimSpace leaf \<noteq> []"
  shows "replayEvents evs leaf = (replay_path (branch evs leaf), TrimSpace leaf)"
proof -
  obtain b ids t where i: "indexEvents evs = (b, ids, t)" by (metis prod.exhaust)
  then have b: "b = by_id evs" by (simp add: by_id_def)
  have "collectPathIDs b (TrimSpace leaf) \<noteq> []"
    using path_from_hd [of "TrimSpace leaf" "[]" b] assms(2) by (simp add: collectPathIDs_def)
  moreover have "resolveLeafID leaf b t = TrimSpace leaf" using assms b by (simp add: resolveLeafID_def Let_def)
  ultimately show ?thesis
    using assms(2) b by (simp add: replayEvents_def i Let_def branch_def collectPathIDs_def)
qed

lemma core_apply_event:
  "core s = core t \<Longrightarrow> core (apply_event ev s) = core (apply_event ev t)"
  by (auto simp: core_def apply_event_def Let_def split: event_type.splits option.splits)

text \<open>A log holds events as they are read back, so a replay yields messages as they are read back.\<close>

lemma fold_apply_json:
  assumes "\<forall>e \<in> set evs. json_event e = e" "map json_message (s_messages s) = s_messages s"
  shows "map json_message (s_messages (fold apply_event evs s)) = s_messages (fold apply_event evs s)"
  using assms
proof (induction evs arbitrary: s)
  case (Cons e evs)
  have e: "json_event e = e" using Cons.prems by simp
  have msg: "ev_message e = Some msg \<Longrightarrow> json_message msg = msg" for msg
    using arg_cong [OF e, of ev_message] by auto
  have hist: "ev_history e = Some h \<Longrightarrow> map json_message h = h" for h
    using arg_cong [OF e, of ev_history] by (cases h) auto
  have "map json_message (s_messages (apply_event e s)) = s_messages (apply_event e s)"
    using Cons.prems(2) msg hist
    by (auto simp: apply_event_def Let_def keep_last_def last_n_def drop_map [symmetric] split: event_type.splits option.splits)
  with Cons show ?case by simp
qed simp

lemma branch_subset: "set (branch evs leaf) \<subseteq> set evs"
  using by_id_events [of evs] by (auto simp: branch_def path_events_def List.map_filter_def)

lemma branch_state_json:
  "\<forall>e \<in> set evs. json_event e = e \<Longrightarrow>
   map json_message (s_messages (branch_state evs leaf)) = s_messages (branch_state evs leaf)"
  unfolding branch_state_def
  using branch_subset [of evs leaf] by (intro fold_apply_json) (auto simp: empty_session_def)

end
