(* ===== verification/MessageSplit.thy ===== *)
theory MessageSplit
  imports Prelude "HOL-Library.Sublist"
begin

text \<open>
  Cutting text down to size: \<^verbatim>\<open>pkg/utils/message.go\<close> (\<^verbatim>\<open>SplitMessage\<close> and its helpers; the
  channel manager has a variant of its own, \<open>ChannelSplit\<close>) and the truncation functions of
  \<^verbatim>\<open>pkg/utils/string.go\<close>.  Positions are integers, -1 for "not found", as in the source.  The loop of
  \<^verbatim>\<open>SplitMessage\<close> may run forever, so it takes fuel: \<open>None\<close> is "still running".  For the truncation
  functions a string is the list of its runes, for the splitter the list of its bytes.
\<close>

section \<open>The helpers of the splitter\<close>

fun scan_down :: "(char \<Rightarrow> bool) \<Rightarrow> string \<Rightarrow> nat \<Rightarrow> nat \<Rightarrow> int" where
  "scan_down p s lo 0 = -1"
| "scan_down p s lo (Suc i) = (if i < lo then -1 else if p (s ! i) then int i else scan_down p s lo i)"

definition findLastNewline :: "string \<Rightarrow> nat \<Rightarrow> int" where
  "findLastNewline s searchWindow =
     scan_down (\<lambda>c. c = CHR 0x0A) s (length s - searchWindow) (length s)"

definition findLastSpace :: "string \<Rightarrow> nat \<Rightarrow> int" where
  "findLastSpace s searchWindow =
     scan_down (\<lambda>c. c = CHR '' '' \<or> c = CHR 0x09) s (length s - searchWindow) (length s)"

definition fence :: string where "fence = ''```''"

fun fence_scan :: "string \<Rightarrow> int \<Rightarrow> bool \<Rightarrow> int \<Rightarrow> int" where
  "fence_scan (a # b # c # r) i inCodeBlock lastOpenIdx =
     (if a = CHR ''`'' \<and> b = CHR ''`'' \<and> c = CHR ''`''
      then fence_scan r (i + 3) (\<not> inCodeBlock) (if \<not> inCodeBlock then i else lastOpenIdx)
      else fence_scan (b # c # r) (i + 1) inCodeBlock lastOpenIdx)"
| "fence_scan _ i inCodeBlock lastOpenIdx = (if inCodeBlock then lastOpenIdx else -1)"

definition findLastUnclosedCodeBlock :: "string \<Rightarrow> int" where
  "findLastUnclosedCodeBlock text = fence_scan text 0 False (-1)"

definition findNextClosingCodeBlock :: "string \<Rightarrow> int \<Rightarrow> int" where
  "findNextClosingCodeBlock text startIdx =
     (case Index (drop (nat startIdx) text) fence of
        Some k \<Rightarrow> startIdx + int k + 3
      | None \<Rightarrow> -1)"

text \<open>\<^verbatim>\<open>utf8.RuneStart\<close>: every byte that is not a continuation byte.\<close>

definition rune_start :: "char \<Rightarrow> bool" where
  "rune_start c \<longleftrightarrow> \<not> (128 \<le> byte_of c \<and> byte_of c < 192)"

fun clamp_down :: "string \<Rightarrow> nat \<Rightarrow> nat" where
  "clamp_down s 0 = 0"
| "clamp_down s (Suc i) = (if rune_start (s ! Suc i) then Suc i else clamp_down s i)"

definition clampToUTF8Boundary :: "string \<Rightarrow> int \<Rightarrow> int" where
  "clampToUTF8Boundary s idx =
     (if idx \<le> 0 then 0
      else if idx \<ge> int (length s) then int (length s)
      else int (clamp_down s (nat idx)))"

section \<open>The loop\<close>

definition codeBlockBuffer :: "int \<Rightarrow> int" where
  "codeBlockBuffer maxLen =
     (let b = maxLen div 10; b = (if b < 50 then 50 else b)
      in if b > maxLen div 2 then maxLen div 2 else b)"

definition effectiveLimit :: "int \<Rightarrow> int" where
  "effectiveLimit maxLen =
     (let e = maxLen - codeBlockBuffer maxLen in if e < maxLen div 2 then maxLen div 2 else e)"

definition natural_end :: "int \<Rightarrow> string \<Rightarrow> int" where
  "natural_end maxLen content =
     (let lim = take (nat (effectiveLimit maxLen)) content;
          e1 = findLastNewline lim 200;
          e2 = (if e1 \<le> 0 then findLastSpace lim 100 else e1)
      in if e2 \<le> 0 then effectiveLimit maxLen else e2)"

definition plain_cut :: "int \<Rightarrow> string \<Rightarrow> int \<Rightarrow> string \<times> string" where
  "plain_cut maxLen content e =
     (let msgEnd = (if e \<le> 0 then effectiveLimit maxLen else e);
          k = nat (clampToUTF8Boundary content msgEnd)
      in (take k content, TrimSpace (drop k content)))"

definition trim_cutset :: "char \<Rightarrow> bool" where
  "trim_cutset c \<longleftrightarrow> c = CHR '' '' \<or> c = CHR 0x09 \<or> c = CHR 0x0A \<or> c = CHR 0x0D"

definition fence_cut :: "string \<Rightarrow> string \<Rightarrow> int \<Rightarrow> string \<times> string" where
  "fence_cut content header e =
     (let k = nat (clampToUTF8Boundary content e)
      in (TrimRight trim_cutset (take k content) @ [CHR 0x0A] @ fence,
          TrimSpace (header @ [CHR 0x0A] @ drop k content)))"

definition header_end :: "string \<Rightarrow> int \<Rightarrow> int" where
  "header_end content unclosedIdx =
     (case IndexByte (drop (nat unclosedIdx) content) CHR 0x0A of
        None \<Rightarrow> unclosedIdx + 3
      | Some k \<Rightarrow> int k + unclosedIdx)"

definition fence_header :: "string \<Rightarrow> int \<Rightarrow> string" where
  "fence_header content unclosedIdx =
     TrimSpace (take (nat (header_end content unclosedIdx - unclosedIdx)) (drop (nat unclosedIdx) content))"

text \<open>The cut inside an unclosed block: extend to the closing fence, cut inside the block and close it,
  cut before the block, or (the last resort) cut inside it all the same.\<close>

definition before_fence :: "string \<Rightarrow> int \<Rightarrow> int" where
  "before_fence content unclosedIdx =
     (let before = take (nat unclosedIdx) content; n1 = findLastNewline before 200
      in if n1 \<le> 0 then findLastSpace before 100 else n1)"

definition inner_end :: "int \<Rightarrow> string \<Rightarrow> int \<Rightarrow> int" where
  "inner_end maxLen content headerEnd =
     (let innerLimit = maxLen - 5; betterEnd = findLastNewline (take (nat innerLimit) content) 200
      in if betterEnd > headerEnd then betterEnd else innerLimit)"

definition open_block_cut :: "int \<Rightarrow> string \<Rightarrow> int \<Rightarrow> int \<Rightarrow> string \<times> string" where
  "open_block_cut maxLen content msgEnd unclosedIdx =
     (let closingIdx = findNextClosingCodeBlock content msgEnd;
          headerEnd = header_end content unclosedIdx;
          header = fence_header content unclosedIdx;
          newEnd = before_fence content unclosedIdx
      in if closingIdx > 0 \<and> closingIdx \<le> maxLen then plain_cut maxLen content closingIdx
         else if msgEnd > headerEnd + 20 then
           fence_cut content header (inner_end maxLen content headerEnd)
         else if newEnd > 0 then plain_cut maxLen content newEnd
         else if unclosedIdx > 20 then plain_cut maxLen content unclosedIdx
         else fence_cut content header (maxLen - 5))"

text \<open>One turn of the loop on a content longer than \<open>maxLen\<close>: the message it emits and the content
  it leaves.\<close>

definition split_step :: "int \<Rightarrow> string \<Rightarrow> string \<times> string" where
  "split_step maxLen content =
     (let msgEnd = natural_end maxLen content;
          unclosedIdx = findLastUnclosedCodeBlock (take (nat msgEnd) content)
      in if unclosedIdx \<ge> 0 \<and> int (length content) > msgEnd
         then open_block_cut maxLen content msgEnd unclosedIdx
         else plain_cut maxLen content msgEnd)"

fun split_loop :: "nat \<Rightarrow> int \<Rightarrow> string \<Rightarrow> string list option" where
  "split_loop 0 maxLen content = (if content = [] then Some [] else None)"
| "split_loop (Suc fuel) maxLen content =
     (if content = [] then Some []
      else if int (length content) \<le> maxLen then Some [content]
      else case split_step maxLen content of
             (m, rest) \<Rightarrow> map_option ((#) m) (split_loop fuel maxLen rest))"

definition SplitMessage :: "nat \<Rightarrow> string \<Rightarrow> int \<Rightarrow> string list option" where
  "SplitMessage fuel content maxLen =
     (if maxLen \<le> 0 then (if content = [] then Some [] else Some [content])
      else split_loop fuel maxLen content)"

section \<open>Truncation\<close>

definition Truncate :: "string \<Rightarrow> int \<Rightarrow> string" where
  "Truncate s maxLen =
     (if maxLen \<le> 0 then []
      else if int (length s) \<le> maxLen then s
      else if maxLen \<le> 3 then take (nat maxLen) s
      else take (nat (maxLen - 3)) s @ ''...'')"

definition defaultHeadTailMarker :: string where
  "defaultHeadTailMarker = [CHR 0x0A] @ ''... (truncated) ...'' @ [CHR 0x0A]"

text \<open>The tail asked for: a third of the total, at least \<open>tailMin\<close> and at least one rune.\<close>

definition tail_budget :: "int \<Rightarrow> int \<Rightarrow> int" where
  "tail_budget maxLen tailMin0 =
     (let tailMin = (if tailMin0 < 0 then 0 else tailMin0);
          t1 = maxLen div 3;
          t2 = (if t1 < tailMin then tailMin else t1)
      in if t2 < 1 then 1 else t2)"

definition TruncateHeadTailWithMarker :: "string \<Rightarrow> int \<Rightarrow> string \<Rightarrow> int \<Rightarrow> string" where
  "TruncateHeadTailWithMarker s maxLen marker tailMin =
     (if maxLen \<le> 0 then []
      else if int (length s) \<le> maxLen then s
      else
        let markerRunes = (if marker = [] then defaultHeadTailMarker else marker);
            ml = int (length markerRunes) in
        if maxLen \<le> ml + 3 then Truncate s maxLen
        else
          let maxTail = maxLen - ml - 1 in
          if maxTail < 1 then Truncate s maxLen
          else
            let tb = tail_budget maxLen tailMin;
                tailLen = (if tb > maxTail then maxTail else tb);
                headLen = maxLen - ml - tailLen in
            if headLen < 1 then Truncate s maxLen
            else take (nat headLen) s @ markerRunes @ drop (length s - nat tailLen) s)"

definition TruncateHeadTail :: "string \<Rightarrow> int \<Rightarrow> int \<Rightarrow> string" where
  "TruncateHeadTail s maxLen tailMin = TruncateHeadTailWithMarker s maxLen defaultHeadTailMarker tailMin"

section \<open>Lemmas: positions\<close>

lemma scan_down_bounds: "scan_down p s lo n = r \<Longrightarrow> r = -1 \<or> (int lo \<le> r \<and> r < int n \<and> p (s ! nat r))"
  by (induction n) (auto split: if_splits)

lemma scan_down_none: "(\<forall>i < n. \<not> p (s ! i)) \<Longrightarrow> scan_down p s lo n = -1"
  by (induction n) auto

lemma findLast_bounds:
  "findLastNewline s w < int (length s) \<or> findLastNewline s w = -1"
  "findLastSpace s w < int (length s) \<or> findLastSpace s w = -1"
  using scan_down_bounds [OF refl] unfolding findLastNewline_def findLastSpace_def by blast+

lemma findLast_upper:
  "findLastNewline s w \<le> int (length s)" "findLastSpace s w \<le> int (length s)"
  using findLast_bounds [of s w] by auto

lemma findLast_take:
  assumes "0 \<le> u"
  shows "findLastNewline (take (nat u) c) w \<le> u" "findLastSpace (take (nat u) c) w \<le> u"
proof -
  have "int (length (take (nat u) c)) \<le> u" using assms by (auto simp: min_def le_nat_iff)
  then show "findLastNewline (take (nat u) c) w \<le> u" "findLastSpace (take (nat u) c) w \<le> u"
    using findLast_upper [of "take (nat u) c" w] by linarith+
qed

lemma clamp_down_le: "clamp_down s i \<le> i"
  by (induction i) auto

lemma clamp_le: "0 \<le> e \<Longrightarrow> clampToUTF8Boundary s e \<le> e"
  using clamp_down_le [of s "nat e"] by (auto simp: clampToUTF8Boundary_def)

lemma clamp_nonneg: "0 \<le> clampToUTF8Boundary s e"
  by (simp add: clampToUTF8Boundary_def)

lemma effectiveLimit_bounds: "0 < n \<Longrightarrow> 0 < effectiveLimit n \<and> effectiveLimit n \<le> n"
  by (auto simp: effectiveLimit_def codeBlockBuffer_def Let_def)

lemma effectiveLimit_small: "0 < n \<Longrightarrow> n \<le> 4 \<Longrightarrow> effectiveLimit n \<le> 2"
  by (auto simp: effectiveLimit_def codeBlockBuffer_def Let_def)

lemma effectiveLimit_half: "0 < n \<Longrightarrow> n div 2 \<le> effectiveLimit n"
  by (auto simp: effectiveLimit_def codeBlockBuffer_def Let_def)

lemma natural_end_bounds: "0 < n \<Longrightarrow> 0 < natural_end n c \<and> natural_end n c \<le> effectiveLimit n"
  using effectiveLimit_bounds [of n] findLast_take [of "effectiveLimit n" c]
  by (auto simp: natural_end_def Let_def)

lemma fence_scan_bound:
  "fence_scan t i b l \<noteq> -1 \<Longrightarrow>
   (b \<and> fence_scan t i b l = l) \<or> (i \<le> fence_scan t i b l \<and> fence_scan t i b l + 3 \<le> i + int (length t))"
  by (induction t i b l rule: fence_scan.induct) (auto split: if_splits)

lemma unclosed_bound:
  "0 \<le> findLastUnclosedCodeBlock t \<Longrightarrow> findLastUnclosedCodeBlock t + 3 \<le> int (length t)"
  using fence_scan_bound [of t 0 False "-1"] by (simp add: findLastUnclosedCodeBlock_def)

lemma unclosed_needs_room: "0 < n \<Longrightarrow> 0 \<le> findLastUnclosedCodeBlock (take (nat (natural_end n c)) c) \<Longrightarrow> 5 \<le> n"
  using unclosed_bound [of "take (nat (natural_end n c)) c"] natural_end_bounds [of n c]
    effectiveLimit_small [of n] by (cases "n \<le> 4") auto

section \<open>Chunks respect the limit\<close>

lemma plain_cut_length: "0 < n \<Longrightarrow> e \<le> n \<Longrightarrow> int (length (fst (plain_cut n c e))) \<le> n"
proof -
  assume n: "0 < n" and e: "e \<le> n"
  let ?e = "if e \<le> 0 then effectiveLimit n else e"
  have "clampToUTF8Boundary c ?e \<le> ?e" using effectiveLimit_bounds [OF n] by (intro clamp_le) auto
  then show ?thesis
    using effectiveLimit_bounds [OF n] e clamp_nonneg [of c ?e]
    unfolding plain_cut_def Let_def by (auto split: if_splits)
qed

lemma fence_cut_length: "5 \<le> n \<Longrightarrow> e \<le> n - 5 \<Longrightarrow> int (length (fst (fence_cut c h e))) \<le> n"
proof -
  assume n: "5 \<le> n" and e: "e \<le> n - 5"
  have "clampToUTF8Boundary c e \<le> max 0 e"
    using clamp_le [of e c] by (cases "0 \<le> e") (auto simp: clampToUTF8Boundary_def)
  moreover have "length (TrimRight trim_cutset (take k c)) \<le> k" for k
    using length_TrimRight [of trim_cutset "take k c"] by simp
  moreover have "length (take (nat (clampToUTF8Boundary c e)) c) \<le> nat (clampToUTF8Boundary c e)" by simp
  ultimately have "int (length (TrimRight trim_cutset (take (nat (clampToUTF8Boundary c e)) c))) \<le> max 0 e"
    using clamp_nonneg [of c e] order_trans nat_le_iff by (metis of_nat_le_iff int_nat_eq)
  then show ?thesis using n e by (simp add: fence_cut_def Let_def fence_def)
qed

lemma inner_end_le: "5 \<le> n \<Longrightarrow> inner_end n c h \<le> n - 5"
  using findLast_take(1) [of "n - 5" c 200] by (auto simp: inner_end_def Let_def)

lemma before_fence_le: "0 \<le> u \<Longrightarrow> before_fence c u \<le> u"
  using findLast_take [of u c] by (auto simp: before_fence_def Let_def)

lemma open_block_cut_length:
  assumes "5 \<le> n" "0 \<le> u" "u \<le> n"
  shows "int (length (fst (open_block_cut n c e u))) \<le> n"
proof -
  have "before_fence c u \<le> n" using before_fence_le [of u c] assms by simp
  then show ?thesis
    using assms unfolding open_block_cut_def Let_def
    by (simp add: plain_cut_length fence_cut_length inner_end_le)
qed

lemma split_step_length:
  assumes n: "0 < n" shows "int (length (fst (split_step n c))) \<le> n"
proof -
  let ?e = "natural_end n c"
  let ?u = "findLastUnclosedCodeBlock (take (nat ?e) c)"
  have e: "?e \<le> n" using natural_end_bounds [OF n, of c] effectiveLimit_bounds [OF n] by simp
  have "0 \<le> ?u \<Longrightarrow> 5 \<le> n" by (rule unclosed_needs_room [OF n])
  moreover have "0 \<le> ?u \<Longrightarrow> ?u \<le> ?e"
    using unclosed_bound [of "take (nat ?e) c"] natural_end_bounds [OF n, of c]
    by (auto simp: min_def split: if_splits)
  ultimately show ?thesis
    using e by (auto simp: split_step_def Let_def intro!: open_block_cut_length plain_cut_length n)
qed

text \<open>
  Every message \<^verbatim>\<open>SplitMessage\<close> returns has at most \<open>maxLen\<close> bytes, code blocks and their injected
  closing fences included.
\<close>

theorem SplitMessage_chunks_bounded:
  assumes "0 < maxLen" and "SplitMessage fuel content maxLen = Some msgs"
  shows "\<forall>m \<in> set msgs. int (length m) \<le> maxLen"
proof -
  have "split_loop fuel maxLen content = Some msgs" using assms by (simp add: SplitMessage_def)
  then show ?thesis
  proof (induction fuel arbitrary: content msgs)
    case 0
    then show ?case by (simp split: if_splits)
  next
    case (Suc fuel)
    show ?case
    proof (cases "content = [] \<or> int (length content) \<le> maxLen")
      case True
      with Suc.prems show ?thesis by (auto split: if_splits)
    next
      case False
      obtain m rest where step: "split_step maxLen content = (m, rest)" by fastforce
      with False Suc.prems obtain ms where "split_loop fuel maxLen rest = Some ms" "msgs = m # ms"
        by auto
      with Suc.IH split_step_length [OF assms(1), of content] step show ?thesis by simp
    qed
  qed
qed

theorem SplitMessage_chunks_bounded_witness:
  "SplitMessage 5 ''ab cd ef'' 4 = Some [''ab'', ''cd'', ''ef''] \<and>
   list_all (\<lambda>m. int (length m) \<le> 4) [''ab'', ''cd'', ''ef'']"
proof -
  have e: "SplitMessage 5 ''ab cd ef'' 4 = Some [''ab'', ''cd'', ''ef'']" by code_simp
  show ?thesis using SplitMessage_chunks_bounded [OF _ e] e by (simp add: list_all_iff)
qed

section \<open>Text without code fences is cut completely\<close>

text \<open>In valid UTF-8 no four consecutive bytes are continuation bytes.\<close>

definition short_runs :: "string \<Rightarrow> bool" where
  "short_runs c \<longleftrightarrow> (\<forall>ys. sublist ys c \<longrightarrow> length ys = 4 \<longrightarrow> (\<exists>b \<in> set ys. rune_start b))"

definition visible :: "string \<Rightarrow> string" where
  "visible s = filter (\<lambda>c. \<not> is_space c) s"

lemma visible_append [simp]: "visible (s @ t) = visible s @ visible t"
  by (simp add: visible_def)

lemma visible_dropWhile: "visible (dropWhile is_space s) = visible s"
  by (induction s) (auto simp: visible_def)

lemma visible_TrimSpace [simp]: "visible (TrimSpace s) = visible s"
proof -
  have "visible (rev (dropWhile is_space (rev t))) = visible t" for t
    using visible_dropWhile [of "rev t"] unfolding visible_def
    by (metis rev_filter rev_rev_ident)
  then show ?thesis by (simp add: TrimSpace_def TrimRight_def TrimLeft_def visible_dropWhile)
qed

lemma sublist_TrimSpace: "sublist (TrimSpace s) s"
proof -
  have "sublist (TrimLeft is_space s) s"
    unfolding TrimLeft_def by (metis sublist_appendI append_Nil2 takeWhile_dropWhile_id)
  moreover have "sublist (TrimRight is_space t) t" for t
    using TrimRight_prefix [of t is_space] by (metis sublist_append_rightI)
  ultimately show ?thesis unfolding TrimSpace_def by (metis sublist_order.order_trans)
qed

lemma sublist_drop_TrimSpace: "sublist (TrimSpace (drop k s)) s"
  using sublist_TrimSpace sublist_drop sublist_order.order_trans by blast

lemma short_runs_sublist: "short_runs s \<Longrightarrow> sublist t s \<Longrightarrow> short_runs t"
  unfolding short_runs_def using sublist_order.order_trans by blast

lemma short_runs_ascii: "(\<forall>b \<in> set s. rune_start b) \<Longrightarrow> short_runs s"
  unfolding short_runs_def
proof (intro allI impI)
  fix ys assume a: "\<forall>b \<in> set s. rune_start b" and ys: "sublist ys s" "length (ys :: string) = 4"
  then obtain y where "y \<in> set ys" by (cases ys) auto
  with a ys show "\<exists>b \<in> set ys. rune_start b" using set_mono_sublist by blast
qed

lemma clamp_down_pos: "0 < j \<Longrightarrow> j \<le> i \<Longrightarrow> rune_start (s ! j) \<Longrightarrow> 0 < clamp_down s i"
  by (induction i) (auto simp: le_Suc_eq)

lemma clamp_pos:
  assumes "short_runs c" "0 < e" "int (length c) > e" "rune_start (c ! nat e) \<or> 4 \<le> e"
  shows "0 < clampToUTF8Boundary c e"
proof -
  have "\<exists>j. 0 < j \<and> j \<le> nat e \<and> rune_start (c ! j)"
  proof (cases "rune_start (c ! nat e)")
    case True
    with assms(2) show ?thesis by (intro exI [of _ "nat e"]) simp
  next
    case False
    with assms have e4: "4 \<le> e" by blast
    let ?ys = "take 4 (drop 1 c)"
    have "length ?ys = 4" using e4 assms(3) by simp
    moreover have "sublist ?ys c" by (metis sublist_drop sublist_order.order_trans sublist_take)
    ultimately obtain b where "b \<in> set ?ys" "rune_start b" using assms(1) unfolding short_runs_def by blast
    then obtain i where "i < 4" "rune_start (c ! Suc i)"
      by (auto simp: in_set_conv_nth)
    with e4 show ?thesis by (intro exI [of _ "Suc i"]) (auto simp: le_nat_iff)
  qed
  then show ?thesis using clamp_down_pos assms by (auto simp: clampToUTF8Boundary_def)
qed

lemma fence_scan_plain: "CHR ''`'' \<notin> set t \<Longrightarrow> fence_scan t i False l = -1"
  by (induction t i False l rule: fence_scan.induct) auto

lemma findLast_rune_start:
  "0 < findLastNewline s w \<Longrightarrow> rune_start (s ! nat (findLastNewline s w))"
  "0 < findLastSpace s w \<Longrightarrow> rune_start (s ! nat (findLastSpace s w))"
  unfolding findLastNewline_def findLastSpace_def
  using scan_down_bounds [OF refl, of "\<lambda>c. c = CHR 0x0A" s "length s - w" "length s"]
    scan_down_bounds [OF refl, of "\<lambda>c. c = CHR '' '' \<or> c = CHR 0x09" s "length s - w" "length s"]
  by (auto simp: rune_start_def byte_of_def)

lemma natural_end_rune:
  assumes "0 < n" "int (length c) > n"
  shows "rune_start (c ! nat (natural_end n c)) \<or> natural_end n c = effectiveLimit n"
proof -
  let ?l = "take (nat (effectiveLimit n)) c"
  have l: "int (length ?l) \<le> effectiveLimit n" using effectiveLimit_bounds [of n] assms by (auto simp: min_def)
  have "0 < findLastNewline ?l w \<Longrightarrow> rune_start (c ! nat (findLastNewline ?l w))" for w
    using findLast_rune_start(1) [of ?l w] findLast_bounds(1) [of ?l w] l by auto
  moreover have "0 < findLastSpace ?l w \<Longrightarrow> rune_start (c ! nat (findLastSpace ?l w))" for w
    using findLast_rune_start(2) [of ?l w] findLast_bounds(2) [of ?l w] l by auto
  ultimately show ?thesis by (auto simp: natural_end_def Let_def)
qed

lemma split_step_plain:
  assumes "8 \<le> n" "CHR ''`'' \<notin> set c" "short_runs c" "int (length c) > n"
  obtains k where "0 < k" "split_step n c = (take k c, TrimSpace (drop k c))"
proof -
  let ?e = "natural_end n c"
  have "findLastUnclosedCodeBlock (take (nat ?e) c) = -1"
    unfolding findLastUnclosedCodeBlock_def
    using assms(2) by (intro fence_scan_plain) (auto dest: in_set_takeD)
  moreover have e: "0 < ?e" "?e < int (length c)"
    using natural_end_bounds [of n c] effectiveLimit_bounds [of n] assms by simp_all
  moreover have "0 < clampToUTF8Boundary c ?e"
    using natural_end_rune [of n c] effectiveLimit_half [of n] assms e by (intro clamp_pos) auto
  ultimately show thesis
    by (intro that [of "nat (clampToUTF8Boundary c ?e)"])
      (simp_all add: split_step_def plain_cut_def Let_def)
qed

lemma split_loop_plain:
  assumes "8 \<le> n" "CHR ''`'' \<notin> set c" "short_runs c" "length c \<le> fuel"
  shows "\<exists>ms. split_loop fuel n c = Some ms \<and> visible (concat ms) = visible c"
  using assms(2-4)
proof (induction fuel arbitrary: c)
  case 0
  then show ?case by (simp add: visible_def)
next
  case (Suc fuel)
  show ?case
  proof (cases "c = [] \<or> int (length c) \<le> n")
    case True
    then show ?thesis by (auto simp: visible_def)
  next
    case False
    obtain k where k: "0 < k" "split_step n c = (take k c, TrimSpace (drop k c))"
      by (rule split_step_plain [OF assms(1) Suc.prems(1,2)]) (use False in auto)
    have "length (TrimSpace (drop k c)) \<le> fuel"
      using length_TrimSpace [of "drop k c"] k(1) Suc.prems(3) by simp
    moreover have "short_runs (TrimSpace (drop k c))"
      using Suc.prems(2) sublist_drop_TrimSpace by (rule short_runs_sublist)
    moreover have "CHR ''`'' \<notin> set (TrimSpace (drop k c))"
      using Suc.prems(1) set_TrimSpace [of "drop k c"] by (auto dest: in_set_dropD)
    ultimately obtain ms where ms: "split_loop fuel n (TrimSpace (drop k c)) = Some ms"
      "visible (concat ms) = visible (TrimSpace (drop k c))"
      using Suc.IH by blast
    have "visible (take k c) @ visible (drop k c) = visible c"
      by (metis append_take_drop_id visible_append)
    with False k ms show ?thesis by simp
  qed
qed

text \<open>
  On a text without backquotes (and without runs of four continuation bytes, which valid UTF-8
  does not have) \<^verbatim>\<open>SplitMessage\<close> returns for every limit of at least eight bytes, after at most as many
  turns as the text has bytes, and its messages put together are the text up to white space:
  nothing visible is lost, repeated or moved.
\<close>

theorem SplitMessage_plain_complete:
  assumes "8 \<le> maxLen" and "CHR ''`'' \<notin> set content" and "short_runs content"
  shows "\<exists>msgs. SplitMessage (length content) content maxLen = Some msgs
    \<and> visible (concat msgs) = visible content"
  using split_loop_plain [OF assms order_refl] assms(1) by (simp add: SplitMessage_def)

theorem SplitMessage_plain_complete_witness:
  "\<exists>msgs. SplitMessage (length ''The quick brown fox jumps'') ''The quick brown fox jumps'' 8 = Some msgs
    \<and> visible (concat msgs) = visible ''The quick brown fox jumps''"
proof (rule SplitMessage_plain_complete)
  show "short_runs ''The quick brown fox jumps''"
    by (rule short_runs_ascii) (simp add: rune_start_def byte_of_def)
qed simp_all

section \<open>A fence line longer than the limit makes the splitter loop\<close>

text \<open>A byte of a long code line: ASCII, not a backquote, not white space.\<close>

definition code_byte :: "char \<Rightarrow> bool" where
  "code_byte b \<longleftrightarrow> byte_of b < 128 \<and> b \<noteq> CHR ''`'' \<and> \<not> is_space b"

lemma code_byte_facts:
  "code_byte b \<Longrightarrow> rune_start b" "code_byte b \<Longrightarrow> b \<noteq> CHR 0x0A" "code_byte b \<Longrightarrow> b \<noteq> CHR 0x09"
  "code_byte b \<Longrightarrow> b \<noteq> CHR '' ''" "code_byte b \<Longrightarrow> b \<noteq> CHR ''`''"
  by (auto simp: code_byte_def rune_start_def is_space_def byte_of_def)

lemma fence_bytes:
  "b \<in> set fence \<Longrightarrow> b = CHR ''`''" "length fence = 3" "rune_start (CHR ''`'')" "\<not> is_space (CHR ''`'')"
  by (auto simp: fence_def rune_start_def is_space_def byte_of_def)

lemma fence_scan_inside: "CHR ''`'' \<notin> set t \<Longrightarrow> fence_scan t i True l = l"
  by (induction t i True l rule: fence_scan.induct) auto

lemma Index_no_backquote:
  "CHR ''`'' \<notin> set t \<Longrightarrow> Index (t @ z) fence = map_option (\<lambda>k. length t + k) (Index z fence)"
proof (induction t)
  case Nil
  show ?case by (cases "Index z fence") auto
next
  case (Cons a t)
  have "\<not> HasPrefix ((a # t) @ z) fence" using Cons.prems by (auto simp: HasPrefix_def fence_def)
  with Cons show ?case by (cases "Index z fence") auto
qed

definition long_fence_line :: "int \<Rightarrow> string \<Rightarrow> bool" where
  "long_fence_line n x \<longleftrightarrow> (\<forall>b \<in> set x. code_byte b) \<and> 5 \<le> n \<and> n \<le> int (length x) + 3"

lemma line_byte: "long_fence_line n x \<Longrightarrow> b \<in> set (fence @ x) \<Longrightarrow> b = CHR ''`'' \<or> code_byte b"
  using fence_bytes(1) by (auto simp: long_fence_line_def)

lemma line_facts:
  assumes "long_fence_line n x" "b \<in> set (fence @ x)"
  shows "rune_start b" "\<not> is_space b" "b \<noteq> CHR 0x0A" "b \<noteq> CHR 0x09" "b \<noteq> CHR '' ''"
  using line_byte [OF assms] code_byte_facts [of b] fence_bytes(3,4)
  by (auto simp: code_byte_def)

lemma findLast_absent:
  "CHR 0x0A \<notin> set s \<Longrightarrow> findLastNewline s w = -1"
  "CHR '' '' \<notin> set s \<Longrightarrow> CHR 0x09 \<notin> set s \<Longrightarrow> findLastSpace s w = -1"
  unfolding findLastNewline_def findLastSpace_def
  by (rule scan_down_none, metis nth_mem)+

lemma TrimSpace_keep_head:
  assumes "h \<noteq> []" "\<forall>b \<in> set h. \<not> is_space b" "\<exists>b \<in> set t. \<not> is_space b"
  shows "TrimSpace (h @ c # t) = h @ c # TrimRight is_space t"
proof -
  have "dropWhile is_space (rev t @ c # rev h) = dropWhile is_space (rev t) @ c # rev h"
    using assms(3) by (metis dropWhile_append1 set_rev)
  moreover have "TrimLeft is_space (h @ c # t) = h @ c # t"
    using assms(1,2) by (intro TrimLeft_id) (cases h, auto)
  ultimately show ?thesis by (simp add: TrimSpace_def TrimRight_def)
qed

lemma line_step:
  assumes l: "long_fence_line n x"
  shows "\<exists>z'. snd (split_step n (fence @ x @ CHR 0x0A # z)) = fence @ x @ CHR 0x0A # z'"
proof -
  let ?c = "fence @ x @ CHR 0x0A # z"
  let ?e = "natural_end n ?c"
  have n5: "5 \<le> n" and len: "n \<le> int (length (fence @ x))"
    using l by (simp_all add: long_fence_line_def fence_bytes)
  have pre: "take k ?c = take k (fence @ x)" if "int k \<le> n" for k
    using that len by simp
  have eff: "3 \<le> effectiveLimit n" "effectiveLimit n \<le> n"
    using n5 effectiveLimit_bounds [of n] by (auto simp: effectiveLimit_def codeBlockBuffer_def Let_def)
  have no: "CHR 0x0A \<notin> set (take k (fence @ x))" "CHR '' '' \<notin> set (take k (fence @ x))"
    "CHR 0x09 \<notin> set (take k (fence @ x))" for k
    using line_facts(3-5) [OF l] by (metis in_set_takeD)+
  have e: "?e = effectiveLimit n"
    using eff findLast_absent(1) [OF no(1)] findLast_absent(2) [OF no(2) no(3)]
    by (simp add: natural_end_def Let_def pre del: take_append)
  have "take (nat ?e) ?c = fence @ take (nat (effectiveLimit n) - 3) x"
    using eff e len by (simp add: pre fence_bytes)
  moreover have "CHR ''`'' \<notin> set (take m x)" for m
    using l code_byte_facts(5) by (auto simp: long_fence_line_def dest: in_set_takeD)
  ultimately have u: "findLastUnclosedCodeBlock (take (nat ?e) ?c) = 0"
    by (simp add: findLastUnclosedCodeBlock_def fence_def fence_scan_inside)
  have "CHR ''`'' \<notin> set (drop m x)" for m
    using l code_byte_facts(5) by (auto simp: long_fence_line_def dest: in_set_dropD)
  moreover have "drop (nat ?e) ?c = drop (nat ?e - 3) x @ CHR 0x0A # z"
    using eff e len by (simp add: fence_bytes)
  ultimately have "\<not> (0 < findNextClosingCodeBlock ?c ?e \<and> findNextClosingCodeBlock ?c ?e \<le> n)"
    using Index_no_backquote [of "drop (nat ?e - 3) x" "CHR 0x0A # z"] len eff e
    by (auto simp: findNextClosingCodeBlock_def fence_bytes split: option.splits)
  moreover have h: "header_end ?c 0 = int (length (fence @ x))"
  proof -
    have "CHR 0x0A \<notin> set (fence @ x)" using line_facts(3) [OF l] by blast
    from IndexByte_append [OF this, of z] show ?thesis by (simp add: header_end_def)
  qed
  moreover have "trimmed (fence @ x)"
    using line_facts(2) [OF l] by (metis hd_in_set last_in_set trimmed_def)
  then have hd: "fence_header ?c 0 = fence @ x"
    using h by (simp add: fence_header_def TrimSpace_id)
  moreover have "before_fence ?c 0 = -1"
    by (simp add: before_fence_def Let_def findLastNewline_def findLastSpace_def)
  moreover have "\<not> ?e > int (length (fence @ x)) + 20" using e eff len by linarith
  ultimately have "open_block_cut n ?c ?e 0 = fence_cut ?c (fence @ x) (n - 5)"
    unfolding open_block_cut_def Let_def by (simp only: h hd if_False) simp
  moreover have "split_step n ?c = open_block_cut n ?c ?e 0"
    unfolding split_step_def Let_def u using e eff len by simp
  ultimately have step: "split_step n ?c = fence_cut ?c (fence @ x) (n - 5)" by (rule trans [rotated])
  define k where "k = nat (clampToUTF8Boundary ?c (n - 5))"
  have "int k \<le> n - 5" using clamp_le [of "n - 5" ?c] n5 clamp_nonneg by (simp add: k_def)
  then have k: "k < length (fence @ x)" using len by linarith
  have "snd (split_step n ?c) = TrimSpace ((fence @ x) @ CHR 0x0A # drop k (fence @ x) @ CHR 0x0A # z)"
    using step k by (simp add: fence_cut_def Let_def k_def)
  also have "\<dots> = (fence @ x) @ CHR 0x0A # TrimRight is_space (drop k (fence @ x) @ CHR 0x0A # z)"
  proof (rule TrimSpace_keep_head)
    have "(fence @ x) ! k \<in> set (drop k (fence @ x))" using k by (metis Cons_nth_drop_Suc list.set_intros(1))
    moreover have "\<not> is_space ((fence @ x) ! k)" using k line_facts(2) [OF l] nth_mem by blast
    ultimately show "\<exists>b \<in> set (drop k (fence @ x) @ CHR 0x0A # z). \<not> is_space b" by (metis Un_iff set_append)
  qed (use line_facts(2) [OF l] in \<open>auto simp: fence_def\<close>)
  finally show ?thesis by simp
qed

lemma long_line_loops: "long_fence_line n x \<Longrightarrow> split_loop fuel n (fence @ x @ CHR 0x0A # z) = None"
proof (induction fuel arbitrary: z)
  case (Suc fuel)
  let ?c = "fence @ x @ CHR 0x0A # z"
  obtain z' where z': "snd (split_step n ?c) = fence @ x @ CHR 0x0A # z'" using line_step Suc.prems by blast
  have "n < int (length ?c)" using Suc.prems by (simp add: long_fence_line_def fence_bytes)
  with z' Suc show ?case by (cases "split_step n ?c") simp
qed simp

text \<open>
  A fenced block whose first line (the fence and what follows it, without white space) is at
  least as long as the limit makes \<^verbatim>\<open>SplitMessage\<close> run forever: no number of turns is enough, whatever
  follows the line.  The last-resort branch puts the whole header line back in front of a rest from
  which it has cut at most \<open>maxLen - 5\<close> bytes, so the content never gets shorter.
\<close>

theorem SplitMessage_long_fence_line_diverges:
  assumes "5 \<le> maxLen" and "maxLen \<le> int (length line) + 3" and "\<forall>b \<in> set line. code_byte b"
  shows "SplitMessage fuel (''```'' @ line @ [CHR 0x0A] @ rest) maxLen = None"
  using long_line_loops [of maxLen line fuel rest] assms
  by (simp add: SplitMessage_def long_fence_line_def fence_def)

theorem SplitMessage_long_fence_line_diverges_witness:
  "SplitMessage 1000 (''```'' @ ''YWJjZGVmZ2hp'' @ [CHR 0x0A] @ ''``` done'') 12 = None"
  by (rule SplitMessage_long_fence_line_diverges)
    (simp_all add: code_byte_def byte_of_def is_space_def)

section \<open>Truncation keeps both ends\<close>

lemma tail_budget_bounds: "1 \<le> tail_budget n m" "m \<le> tail_budget n m"
  by (auto simp: tail_budget_def Let_def)

lemma marker_shape:
  assumes "0 < maxLen" "int (length s) > maxLen" "marker \<noteq> []" "maxLen > int (length marker) + 3"
    and t: "t = min (tail_budget maxLen m) (maxLen - int (length marker) - 1)"
  shows "TruncateHeadTailWithMarker s maxLen marker m
    = take (nat (maxLen - int (length marker) - t)) s @ marker @ drop (length s - nat t) s"
proof -
  have "(if tail_budget maxLen m > maxLen - int (length marker) - 1 then maxLen - int (length marker) - 1
         else tail_budget maxLen m) = t" by (simp add: t)
  moreover have "\<not> maxLen - int (length marker) - t < 1" by (simp add: t)
  ultimately show ?thesis
    using assms(1-4) unfolding TruncateHeadTailWithMarker_def Let_def t by (simp add: min_def)
qed

text \<open>
  A text longer than the limit, cut by \<^verbatim>\<open>TruncateHeadTail\<close> with room for the marker, comes out with
  exactly \<open>maxLen\<close> runes: a nonempty prefix of the text, the marker, and a nonempty suffix of it, the
  suffix at least as long as asked when the limit allows it.
\<close>

theorem TruncateHeadTail_shape:
  assumes "int (length s) > maxLen" and "maxLen > int (length defaultHeadTailMarker) + 3"
  shows "\<exists>h t. 0 < h \<and> 0 < t
    \<and> TruncateHeadTail s maxLen tailMin = take h s @ defaultHeadTailMarker @ drop (length s - t) s
    \<and> int h + int (length defaultHeadTailMarker) + int t = maxLen
    \<and> min tailMin (maxLen - int (length defaultHeadTailMarker) - 1) \<le> int t"
proof -
  let ?ml = "int (length defaultHeadTailMarker)"
  define t where "t = min (tail_budget maxLen tailMin) (maxLen - ?ml - 1)"
  have t: "1 \<le> t" "t \<le> maxLen - ?ml - 1" "min tailMin (maxLen - ?ml - 1) \<le> t"
    using tail_budget_bounds [of maxLen tailMin] tail_budget_bounds(2) [of tailMin maxLen] assms(2)
    by (auto simp: t_def)
  have "TruncateHeadTail s maxLen tailMin
    = take (nat (maxLen - ?ml - t)) s @ defaultHeadTailMarker @ drop (length s - nat t) s"
    unfolding TruncateHeadTail_def
    by (rule marker_shape [OF _ assms(1) _ assms(2) t_def]) (use assms in \<open>simp_all add: defaultHeadTailMarker_def\<close>)
  then show ?thesis
    using t by (intro exI [of _ "nat (maxLen - ?ml - t)"] exI [of _ "nat t"]) simp
qed

theorem TruncateHeadTail_shape_witness:
  "\<exists>h t. 0 < h \<and> 0 < t
    \<and> TruncateHeadTail (replicate 40 CHR ''a'') 30 4
      = take h (replicate 40 CHR ''a'') @ defaultHeadTailMarker @ drop (length (replicate 40 CHR ''a'') - t) (replicate 40 CHR ''a'')
    \<and> int h + int (length defaultHeadTailMarker) + int t = 30
    \<and> min 4 (30 - int (length defaultHeadTailMarker) - 1) \<le> int t"
  by (rule TruncateHeadTail_shape) (simp_all add: defaultHeadTailMarker_def)

end
