(* ===== verification/Transcript.thy ===== *)
theory Transcript
  imports Complex_Main Session MessageSplit "HOL-Library.Sublist"
begin

text \<open>
  What a provider gets to see of a session: \<^verbatim>\<open>pkg/agent/context.go\<close> from the token estimate
  (\<^verbatim>\<open>estimateMessageTokens\<close>) over the repair of tool turns (\<^verbatim>\<open>sanitizeHistoryForProvider\<close>) and the
  pruning of old messages (\<^verbatim>\<open>pruneHistoryForContext\<close>, \<^verbatim>\<open>compactOldChitChat\<close>) to the assembly of a
  request (\<^verbatim>\<open>BuildMessagesForSession\<close>).  The texts of the static prompt, the dynamic context, the memory and
  the retrieved memory come from files, the clock and the search index; they are arguments here.

  Token counts and lengths are \<open>int\<close>.  A \<^verbatim>\<open>float64\<close> is the rational number it denotes: \<open>fl64\<close> rounds to 53
  significant bits, to nearest and ties to even (no subnormal or infinite value can arise from the sizes
  that are divided here).
\<close>

section \<open>Floating point\<close>

fun bit_count :: "nat \<Rightarrow> nat" where
  "bit_count n = (if n = 0 then 0 else 1 + bit_count (n div 2))"

declare bit_count.simps [simp del]

definition round_even :: "rat \<Rightarrow> int" where
  "round_even y =
     (let f = \<lfloor>y\<rfloor>; r = y - of_int f in
      if r < 1/2 then f else if r > 1/2 then f + 1 else if even f then f else f + 1)"

definition pow2 :: "int \<Rightarrow> rat" where
  "pow2 e = (if e \<ge> 0 then 2 ^ nat e else 1 / 2 ^ nat (- e))"

definition fl64 :: "rat \<Rightarrow> rat" where
  "fl64 x =
     (if x = 0 then 0
      else case quotient_of \<bar>x\<bar> of (n, d) \<Rightarrow>
        let s0 = 52 - (int (bit_count (nat n)) - int (bit_count (nat d)));
            s = (if \<bar>x\<bar> * pow2 s0 < 2 ^ 52 then s0 + 1 else s0);
            v = of_int (round_even (\<bar>x\<bar> * pow2 s)) / pow2 s
        in if x < 0 then - v else v)"

text \<open>\<^verbatim>\<open>float64(a) / float64(b)\<close>.\<close>

definition fdiv64 :: "int \<Rightarrow> int \<Rightarrow> rat" where
  "fdiv64 a b = fl64 (fl64 (of_int a) / fl64 (of_int b))"

section \<open>Runes and tokens\<close>

definition byte_in :: "nat \<Rightarrow> nat \<Rightarrow> char \<Rightarrow> bool" where
  "byte_in lo hi c \<longleftrightarrow> lo \<le> byte_of c \<and> byte_of c \<le> hi"

text \<open>The number of bytes of the first rune: 2 to 4 for a well-formed encoding, 1 for anything else.\<close>

fun rune_width :: "string \<Rightarrow> nat" where
  "rune_width [] = 0"
| "rune_width (c # r) =
     (let b = byte_of c in
      if b < 0x80 \<or> b < 0xC2 \<or> b > 0xF4 then 1
      else
        let n = (if b < 0xE0 then 2 else if b < 0xF0 then 3 else 4);
            lo = (if b = 0xE0 then 0xA0 else if b = 0xF0 then 0x90 else 0x80);
            hi = (if b = 0xED then 0x9F else if b = 0xF4 then 0x8F else 0xBF)
        in if n - 1 \<le> length r \<and> byte_in lo hi (hd r) \<and> list_all (byte_in 0x80 0xBF) (take (n - 2) (tl r))
           then n else 1)"

function RuneCountInString :: "string \<Rightarrow> nat" where
  "RuneCountInString [] = 0"
| "RuneCountInString (c # r) = 1 + RuneCountInString (drop (rune_width (c # r) - 1) r)"
  by pat_completeness auto
termination by (relation "measure length") auto

definition calls :: "message \<Rightarrow> tool_call list" where
  "calls msg = (case tool_calls msg of None \<Rightarrow> [] | Some cs \<Rightarrow> cs)"

definition call_chars :: "tool_call \<Rightarrow> nat" where
  "call_chars tc = RuneCountInString (tc_name tc) +
     (case tc_function tc of None \<Rightarrow> 0
      | Some f \<Rightarrow> RuneCountInString (fn_name f) + RuneCountInString (fn_arguments f))"

definition estimateMessageTokens :: "message \<Rightarrow> int" where
  "estimateMessageTokens msg =
     (let chars = RuneCountInString (content msg) + sum_list (map call_chars (calls msg)) in
      if chars = 0 then 0 else int (chars * 2 div 5))"

definition estimateTotalTokens :: "string \<Rightarrow> message list \<Rightarrow> int" where
  "estimateTotalTokens systemPrompt messages =
     int (RuneCountInString systemPrompt * 2 div 5) + sum_list (map estimateMessageTokens messages)"

section \<open>Tool turns\<close>

definition placeholder :: "string \<Rightarrow> message" where
  "placeholder i = \<lparr>role = ''tool'',
     content = ''[tool result missing in transcript; synthesized placeholder for provider compatibility]'',
     media = None, reasoning = [], system_parts = None, tool_calls = None, tool_call_id = i\<rparr>"

text \<open>The state of the loop: what was kept, and the ids still to be answered (a nil map is \<open>None\<close>) with
  the order of their calls.\<close>

record san_state =
  ss_kept :: "message list"
  ss_pending :: "(string list \<times> string list) option"

definition flushPendingToolCalls :: "san_state \<Rightarrow> san_state" where
  "flushPendingToolCalls st =
     (case ss_pending st of
        None \<Rightarrow> st
      | Some (pend, order) \<Rightarrow>
          st\<lparr>ss_kept := ss_kept st @ map placeholder (filter (\<lambda>i. i \<in> set pend) order), ss_pending := None\<rparr>)"

fun call_ids :: "tool_call list \<Rightarrow> string list \<Rightarrow> string list" where
  "call_ids [] seen = []"
| "call_ids (tc # tcs) seen =
     (if tc_id tc \<noteq> [] \<and> tc_id tc \<notin> set seen then tc_id tc # call_ids tcs (tc_id tc # seen)
      else call_ids tcs seen)"

definition pending_ids :: "message \<Rightarrow> string list" where
  "pending_ids msg = call_ids (calls msg) []"

definition keep :: "message \<Rightarrow> san_state \<Rightarrow> san_state" where
  "keep msg st = st\<lparr>ss_kept := ss_kept st @ [msg]\<rparr>"

definition sanitize_step :: "message \<Rightarrow> san_state \<Rightarrow> san_state" where
  "sanitize_step msg st =
     (if role msg = ''system'' then st
      else if role msg = ''tool'' then
        (case ss_pending st of
           None \<Rightarrow> st
         | Some (pend, order) \<Rightarrow>
             if pend \<noteq> [] then
               (if tool_call_id msg = [] then st
                else if tool_call_id msg \<notin> set pend then st
                else (keep msg st)\<lparr>ss_pending := Some (removeAll (tool_call_id msg) pend, order)\<rparr>)
             else keep msg st)
      else if role msg = ''assistant'' then
        (let st1 = flushPendingToolCalls st in
         if calls msg \<noteq> [] then
           (if ss_kept st1 = [] then st1
            else if role (last (ss_kept st1)) \<noteq> ''user'' \<and> role (last (ss_kept st1)) \<noteq> ''tool'' then st1
            else (keep msg st1)\<lparr>ss_pending := Some (pending_ids msg, pending_ids msg)\<rparr>)
         else keep msg st1)
      else keep msg (flushPendingToolCalls st))"

definition sanitizeHistoryForProvider :: "message list \<Rightarrow> message list" where
  "sanitizeHistoryForProvider history =
     (if history = [] then history
      else ss_kept (flushPendingToolCalls (fold sanitize_step history \<lparr>ss_kept = [], ss_pending = None\<rparr>)))"

section \<open>Pruning\<close>

record context_settings =
  cs_window :: int
  cs_pruning_mode :: string
  cs_chit_chat :: bool
  cs_soft_chars :: int
  cs_hard_chars :: int
  cs_trigger :: rat

text \<open>The part of \<^verbatim>\<open>SetRuntimeSettings\<close> that fills in the pruning defaults.\<close>

definition SetRuntimeSettings :: "context_settings \<Rightarrow> context_settings" where
  "SetRuntimeSettings st =
     st\<lparr>cs_pruning_mode := (if cs_pruning_mode st = [] then ''tools_only'' else cs_pruning_mode st),
        cs_soft_chars := (if cs_soft_chars st \<le> 0 then 2000 else cs_soft_chars st),
        cs_hard_chars := (if cs_hard_chars st \<le> 0 then 350 else cs_hard_chars st),
        cs_trigger := (if cs_trigger st \<le> 0 \<or> cs_trigger st \<ge> 1 then fl64 (8/10) else cs_trigger st)\<rparr>"

definition condensed_marker :: string where
  "condensed_marker = [CHR 0x0A] @ ''...'' @ [CHR 0x0A] @ ''[tool result condensed for context stability]''
     @ [CHR 0x0A] @ ''...'' @ [CHR 0x0A]"

definition omitted_text :: string where
  "omitted_text = ''[tool result omitted for context stability; details preserved in session history]''"

definition soften :: "context_settings \<Rightarrow> message \<Rightarrow> message" where
  "soften st msg =
     (if cs_pruning_mode st = ''tools_only'' \<and> role msg = ''tool'' \<and> cs_soft_chars st > 0
         \<and> int (length (content msg)) > cs_soft_chars st then
        let raw = content msg;
            head0 = nat (cs_soft_chars st * 7 div 10);
            tail0 = nat (cs_soft_chars st * 2 div 10);
            hd_len = (if head0 + tail0 > length raw then length raw else head0);
            tl_len = (if head0 + tail0 > length raw then 0 else tail0)
        in msg\<lparr>content := take hd_len raw @ condensed_marker @ drop (length raw - tl_len) raw\<rparr>
      else msg)"

text \<open>The acknowledgements; the last three are the UTF-8 bytes of the Chinese words for okay, received
  and thanks.\<close>

definition acknowledgements :: "string list" where
  "acknowledgements = [''ok'', ''okay'', ''thanks'', ''thank you'', ''got it'', ''roger'', ''understood'',
     [CHR 0xE5, CHR 0xA5, CHR 0xBD, CHR 0xE7, CHR 0x9A, CHR 0x84],
     [CHR 0xE6, CHR 0x94, CHR 0xB6, CHR 0xE5, CHR 0x88, CHR 0xB0],
     [CHR 0xE8, CHR 0xB0, CHR 0xA2, CHR 0xE8, CHR 0xB0, CHR 0xA2]]"

definition isLowSignal :: "message \<Rightarrow> bool" where
  "isLowSignal msg =
     (if role msg \<noteq> ''user'' \<and> role msg \<noteq> ''assistant'' then False
      else if calls msg \<noteq> [] \<or> tool_call_id msg \<noteq> [] then False
      else
        let t = ToLower (TrimSpace (content msg)) in
        if t = [] \<or> length t > 40 then False else t \<in> set acknowledgements)"

definition history_note :: "nat \<Rightarrow> message" where
  "history_note n = \<lparr>role = ''assistant'',
     content = ''[History note: '' @ dec_nat n @ '' brief acknowledgements condensed]'',
     media = None, reasoning = [], system_parts = None, tool_calls = None, tool_call_id = []\<rparr>"

text \<open>The loop of \<^verbatim>\<open>compactOldChitChat\<close> on the messages before the cutoff.\<close>

function condense_runs :: "message list \<Rightarrow> message list" where
  "condense_runs [] = []"
| "condense_runs (msg # ms) =
     (if \<not> isLowSignal msg then msg # condense_runs ms
      else
        let runLen = length (takeWhile isLowSignal (msg # ms)) in
        (if runLen \<ge> 2 then history_note runLen else msg) # condense_runs (dropWhile isLowSignal ms))"
  by pat_completeness auto
termination by (relation "measure length") (auto simp: less_Suc_eq_le intro: length_dropWhile_le)

definition compactOldChitChat :: "message list \<Rightarrow> int \<Rightarrow> message list" where
  "compactOldChitChat history cutoff =
     (if history = [] \<or> cutoff \<le> 0 then history
      else condense_runs (take (nat cutoff) history) @ drop (nat cutoff) history)"

definition load_ratio :: "context_settings \<Rightarrow> string \<Rightarrow> message list \<Rightarrow> rat" where
  "load_ratio st systemPrompt history = fdiv64 (estimateTotalTokens systemPrompt history) (cs_window st)"

text \<open>The second pass replaces old tool results one by one until the estimate is below the trigger.\<close>

fun hard_pass :: "context_settings \<Rightarrow> string \<Rightarrow> nat list \<Rightarrow> message list \<Rightarrow> message list" where
  "hard_pass st systemPrompt [] pruned = pruned"
| "hard_pass st systemPrompt (i # is) pruned =
     (if load_ratio st systemPrompt pruned < cs_trigger st then pruned
      else if role (pruned ! i) \<noteq> ''tool'' \<or> int (length (content (pruned ! i))) \<le> cs_hard_chars st
      then hard_pass st systemPrompt is pruned
      else hard_pass st systemPrompt is (pruned[i := (pruned ! i)\<lparr>content := omitted_text\<rparr>]))"

definition pruneHistoryForContext :: "context_settings \<Rightarrow> message list \<Rightarrow> string \<Rightarrow> message list" where
  "pruneHistoryForContext st history systemPrompt =
     (if history = [] \<or> cs_pruning_mode st = ''off'' \<or> cs_window st \<le> 0 then history
      else if load_ratio st systemPrompt history < cs_trigger st then history
      else
        let cutoff = int (length history) - 8 in
        if cutoff \<le> 0 then history
        else
          let pruned0 = map (soften st) (take (nat cutoff) history) @ drop (nat cutoff) history;
              pruned = (if cs_chit_chat st then compactOldChitChat pruned0 cutoff else pruned0)
          in if load_ratio st systemPrompt pruned < cs_trigger st \<or> cs_hard_chars st \<le> 0 then pruned
             else hard_pass st systemPrompt [0..<min (nat cutoff) (length pruned)] pruned)"

section \<open>The request\<close>

definition buildContextSummarySection :: "string \<Rightarrow> string" where
  "buildContextSummarySection summary =
     (if TrimSpace summary = [] then []
      else ''CONTEXT_SUMMARY: The following is an approximate summary of prior conversation '' @
           ''for reference only. It may be incomplete or outdated - always defer to explicit instructions.'' @
           [CHR 0x0A, CHR 0x0A] @ summary)"

definition buildMemoryContextSection :: "string option \<Rightarrow> string" where
  "buildMemoryContextSection memoryContext =
     (case memoryContext of
        None \<Rightarrow> []
      | Some c \<Rightarrow> if TrimSpace c = [] then [] else ''# Memory'' @ [CHR 0x0A, CHR 0x0A] @ c)"

definition appendPromptSection :: "string \<times> string option \<Rightarrow> content_block list \<Rightarrow> content_block list" where
  "appendPromptSection sec blocks =
     (if TrimSpace (fst sec) = [] then blocks
      else blocks @ [\<lparr>cb_type = ''text'', cb_text = fst sec, cb_cache_control = snd sec\<rparr>])"

definition section_separator :: string where
  "section_separator = [CHR 0x0A, CHR 0x0A] @ ''---'' @ [CHR 0x0A, CHR 0x0A]"

definition buildUserInputMessage :: "string \<Rightarrow> string list \<Rightarrow> message" where
  "buildUserInputMessage currentMessage med = \<lparr>role = ''user'', content = currentMessage,
     media = (if med = [] then None else Some med), reasoning = [], system_parts = None, tool_calls = None,
     tool_call_id = []\<rparr>"

record prompt_parts =
  pp_static :: string
  pp_dynamic :: string
  pp_memory :: "string option"   \<comment> \<open>\<open>None\<close>: no memory store\<close>
  pp_retrieved :: string

definition prompt_blocks :: "prompt_parts \<Rightarrow> string \<Rightarrow> content_block list" where
  "prompt_blocks pp summary = fold appendPromptSection
     [(pp_static pp, Some ''ephemeral''), (pp_dynamic pp, None), (buildContextSummarySection summary, None),
      (buildMemoryContextSection (pp_memory pp), None), (pp_retrieved pp, None)] []"

definition system_prompt :: "prompt_parts \<Rightarrow> string \<Rightarrow> string" where
  "system_prompt pp summary = Join (map cb_text (prompt_blocks pp summary)) section_separator"

definition BuildMessagesForSession :: "context_settings \<Rightarrow> prompt_parts \<Rightarrow> message list \<Rightarrow> string \<Rightarrow> string
    \<Rightarrow> string list \<Rightarrow> message list" where
  "BuildMessagesForSession st pp history0 summary currentMessage med =
     (let fullSystemPrompt = system_prompt pp summary;
          h1 = sanitizeHistoryForProvider history0;
          h2 = pruneHistoryForContext st h1 fullSystemPrompt;
          h3 = sanitizeHistoryForProvider h2;
          sys = \<lparr>role = ''system'', content = fullSystemPrompt, media = None, reasoning = [],
                 system_parts = Some (prompt_blocks pp summary), tool_calls = None, tool_call_id = []\<rparr>
      in [sys] @ h3 @ (if TrimSpace currentMessage \<noteq> [] then [buildUserInputMessage currentMessage med] else []))"

text \<open>\<^verbatim>\<open>AddToolResult\<close> and \<^verbatim>\<open>AddAssistantMessage\<close>, which drops the calls it is given.\<close>

definition AddToolResult :: "message list \<Rightarrow> string \<Rightarrow> string \<Rightarrow> string \<Rightarrow> message list" where
  "AddToolResult messages toolCallID toolName result = messages @ [\<lparr>role = ''tool'', content = result,
     media = None, reasoning = [], system_parts = None, tool_calls = None, tool_call_id = toolCallID\<rparr>]"

definition AddAssistantMessage :: "message list \<Rightarrow> string \<Rightarrow> (string \<times> jval) list list \<Rightarrow> message list" where
  "AddAssistantMessage messages cont toolCalls = messages @ [\<lparr>role = ''assistant'', content = cont,
     media = None, reasoning = [], system_parts = None, tool_calls = None, tool_call_id = []\<rparr>]"

section \<open>The grammar of a provider request\<close>

definition is_tool :: "message \<Rightarrow> bool" where "is_tool msg \<longleftrightarrow> role msg = ''tool''"
definition is_tool_turn :: "message \<Rightarrow> bool" where
  "is_tool_turn msg \<longleftrightarrow> role msg = ''assistant'' \<and> calls msg \<noteq> []"

abbreviation result_ids :: "message list \<Rightarrow> string list" where
  "result_ids rs \<equiv> map tool_call_id rs"

text \<open>What a provider accepts: messages of the user and the assistant, and tool turns.  A tool turn follows a user
  message or a tool result; its calls have ids that are there and differ, and directly after it every call is
  answered exactly once, with no result besides.\<close>

definition good_ids :: "string list \<Rightarrow> bool" where
  "good_ids is \<longleftrightarrow> distinct is \<and> [] \<notin> set is"

abbreviation ids_called :: "message \<Rightarrow> string list" where
  "ids_called msg \<equiv> map tc_id (calls msg)"

definition speaks :: "message \<Rightarrow> bool" where
  "speaks msg \<longleftrightarrow> role msg = ''user'' \<or> role msg = ''assistant'' \<and> calls msg = []"

inductive accepted :: "message list \<Rightarrow> bool" where
  nothing: "accepted []"
| said: "accepted h \<Longrightarrow> speaks msg \<Longrightarrow> accepted (h @ [msg])"
| turn: "accepted h \<Longrightarrow> h \<noteq> [] \<Longrightarrow> role (last h) = ''user'' \<or> is_tool (last h) \<Longrightarrow> is_tool_turn a
    \<Longrightarrow> good_ids (ids_called a) \<Longrightarrow> list_all is_tool answers
    \<Longrightarrow> mset (result_ids answers) = mset (ids_called a) \<Longrightarrow> accepted (h @ a # answers)"

text \<open>A history is tidy when the ids of each turn are there and differ and no tool result comes after the last
  call of its turn has been answered.  Results may be missing, repeated, unknown or anywhere else before that, and
  turns may be interrupted: that is what the repair takes care of.  The first argument are the ids not yet answered.\<close>

fun tidy :: "string list option \<Rightarrow> message list \<Rightarrow> bool" where
  "tidy op [] \<longleftrightarrow> True"
| "tidy op (msg # ms) \<longleftrightarrow>
     (if role msg = ''system'' then tidy op ms
      else if is_tool msg then op \<noteq> Some [] \<and> tidy (map_option (removeAll (tool_call_id msg)) op) ms
      else if is_tool_turn msg then good_ids (ids_called msg) \<and> tidy (Some (ids_called msg)) ms
      else speaks msg \<and> tidy None ms)"

text \<open>The ids left open at the end of a history.\<close>

fun after :: "string list option \<Rightarrow> message list \<Rightarrow> string list option" where
  "after op [] = op"
| "after op (msg # ms) =
     (if role msg = ''system'' then after op ms
      else if is_tool msg then after (map_option (removeAll (tool_call_id msg)) op) ms
      else if is_tool_turn msg then after (Some (ids_called msg)) ms
      else after None ms)"

text \<open>What the repair leaves as it is.  It is not quite what a provider accepts: once the calls of a turn are
  answered the code no longer looks at the ids of results, and so keeps the ones that nobody asked for.\<close>

inductive repaired :: "message list \<Rightarrow> bool" where
  nothing: "repaired []"
| plain: "repaired h \<Longrightarrow> role msg \<noteq> ''system'' \<Longrightarrow> \<not> is_tool msg \<Longrightarrow> \<not> is_tool_turn msg \<Longrightarrow> repaired (h @ [msg])"
| turn: "repaired h \<Longrightarrow> h \<noteq> [] \<Longrightarrow> role (last h) = ''user'' \<or> is_tool (last h) \<Longrightarrow> is_tool_turn a
    \<Longrightarrow> list_all is_tool (answers @ extra) \<Longrightarrow> distinct (result_ids answers)
    \<Longrightarrow> set (result_ids answers) = set (pending_ids a) \<Longrightarrow> repaired (h @ a # answers @ extra)"

lemma call_ids_props: "distinct (call_ids tcs seen) \<and> [] \<notin> set (call_ids tcs seen) \<and> set (call_ids tcs seen) \<inter> set seen = {}"
  by (induction tcs seen rule: call_ids.induct) auto

lemma pending_ids_props [simp]: "distinct (pending_ids a)" "[] \<notin> set (pending_ids a)"
  using call_ids_props[of "calls a" "[]"] by (auto simp: pending_ids_def)

lemma placeholder_tool [simp]: "role (placeholder i) = ''tool''" "tool_call_id (placeholder i) = i" "is_tool (placeholder i)"
  by (simp_all add: placeholder_def is_tool_def)

lemma keep_simps [simp]: "ss_kept (keep msg st) = ss_kept st @ [msg]" "ss_pending (keep msg st) = ss_pending st"
  by (simp_all add: keep_def)

lemma flush_pending [simp]: "ss_pending (flushPendingToolCalls st) = None"
  by (cases "ss_pending st") (auto simp: flushPendingToolCalls_def)

text \<open>The state in the middle of a tool turn.\<close>

definition open_turn :: "message list \<Rightarrow> string list \<Rightarrow> string list \<Rightarrow> bool" where
  "open_turn k pend order \<longleftrightarrow> (\<exists>h a answers extra. k = h @ a # answers @ extra \<and> repaired h \<and> h \<noteq> []
     \<and> (role (last h) = ''user'' \<or> is_tool (last h)) \<and> is_tool_turn a \<and> order = pending_ids a
     \<and> list_all is_tool (answers @ extra) \<and> distinct (result_ids answers)
     \<and> set (result_ids answers) \<union> set pend = set order \<and> set (result_ids answers) \<inter> set pend = {}
     \<and> (pend \<noteq> [] \<longrightarrow> extra = []))"

definition san_inv :: "san_state \<Rightarrow> bool" where
  "san_inv st \<longleftrightarrow> (case ss_pending st of None \<Rightarrow> repaired (ss_kept st) | Some (p, ord) \<Rightarrow> open_turn (ss_kept st) p ord)"

lemma open_turn_flush:
  assumes "open_turn k pend order"
  shows "repaired (k @ map placeholder (filter (\<lambda>i. i \<in> set pend) order))"
proof -
  let ?q = "map placeholder (filter (\<lambda>i. i \<in> set pend) order)"
  obtain h a answers extra where s: "k = h @ a # answers @ extra" "repaired h" "h \<noteq> []"
      "role (last h) = ''user'' \<or> is_tool (last h)" "is_tool_turn a" "order = pending_ids a"
      "list_all is_tool (answers @ extra)" "distinct (result_ids answers)"
      "set (result_ids answers) \<union> set pend = set order" "set (result_ids answers) \<inter> set pend = {}"
      "pend \<noteq> [] \<longrightarrow> extra = []"
    using assms unfolding open_turn_def by blast
  have ids: "result_ids ?q = filter (\<lambda>i. i \<in> set pend) order" by (simp add: comp_def)
  show ?thesis
  proof (cases "pend = []")
    case True
    then have "set (result_ids answers) = set (pending_ids a)" using s by simp
    then have "repaired (h @ a # answers @ extra)" using s by (blast intro: repaired.turn)
    then show ?thesis using True s by simp
  next
    case False
    have t: "list_all is_tool ((answers @ ?q) @ [])" using s by (auto simp: list_all_iff)
    have d: "distinct (result_ids (answers @ ?q))" using s by (auto simp: comp_def)
    have e: "set (result_ids (answers @ ?q)) = set (pending_ids a)" using s by (auto simp: comp_def)
    show ?thesis using repaired.turn[OF s(2-5) t d e] s(1,11) False by simp
  qed
qed

lemma san_inv_flush: "san_inv st \<Longrightarrow> repaired (ss_kept (flushPendingToolCalls st))"
  by (cases "ss_pending st") (auto simp: san_inv_def flushPendingToolCalls_def dest: open_turn_flush)

lemma open_turn_answer:
  assumes "open_turn k pend order" "is_tool msg" "tool_call_id msg \<in> set pend"
  shows "open_turn (k @ [msg]) (removeAll (tool_call_id msg) pend) order"
proof -
  obtain h a answers where s: "k = h @ a # answers" "repaired h" "h \<noteq> []"
      "role (last h) = ''user'' \<or> is_tool (last h)" "is_tool_turn a" "order = pending_ids a"
      "list_all is_tool answers" "distinct (result_ids answers)"
      "set (result_ids answers) \<union> set pend = set order" "set (result_ids answers) \<inter> set pend = {}"
    using assms(1,3) unfolding open_turn_def by fastforce
  show ?thesis unfolding open_turn_def
    by (rule exI[of _ h], rule exI[of _ a], rule exI[of _ "answers @ [msg]"], rule exI[of _ "[]"])
       (use s assms(2,3) in auto)
qed

lemma open_turn_extra: "open_turn k [] order \<Longrightarrow> is_tool msg \<Longrightarrow> open_turn (k @ [msg]) [] order"
  unfolding open_turn_def by (elim exE conjE) (rule exI, rule exI, rule exI, rule_tac x = "extra @ [msg]" in exI, auto)

lemma open_turn_start:
  "repaired k \<Longrightarrow> k \<noteq> [] \<Longrightarrow> role (last k) = ''user'' \<or> is_tool (last k) \<Longrightarrow> is_tool_turn a
   \<Longrightarrow> open_turn (k @ [a]) (pending_ids a) (pending_ids a)"
  unfolding open_turn_def
  by (rule exI[of _ k], rule exI[of _ a], rule exI[of _ "[]"], rule exI[of _ "[]"]) simp

lemma sanitize_step_inv [preserve]:
  assumes "san_inv st" shows "san_inv (sanitize_step msg st)"
proof -
  have f: "repaired (ss_kept (flushPendingToolCalls st))" by (rule san_inv_flush[OF assms])
  consider "role msg = ''system''" | "role msg = ''tool''" | "is_tool_turn msg"
    | "role msg \<noteq> ''system''" "\<not> is_tool msg" "\<not> is_tool_turn msg"
    by (auto simp: is_tool_def)
  then show ?thesis
  proof cases
    case 1 then show ?thesis using assms by (simp add: sanitize_step_def)
  next
    case 2 then show ?thesis using assms open_turn_answer[of "ss_kept st" _ _ msg] open_turn_extra[of "ss_kept st" _ msg]
      by (auto simp: sanitize_step_def san_inv_def is_tool_def split: option.splits)
  next
    case 3 then show ?thesis using f open_turn_start[OF f, of msg]
      by (auto simp: sanitize_step_def san_inv_def is_tool_def is_tool_turn_def Let_def)
  next
    case 4
    then have "repaired (ss_kept (flushPendingToolCalls st) @ [msg])" using f by (blast intro: repaired.plain)
    then show ?thesis using 4 by (auto simp: sanitize_step_def san_inv_def is_tool_def is_tool_turn_def Let_def)
  qed
qed

abbreviation (input) "san_start \<equiv> \<lparr>ss_kept = [], ss_pending = None\<rparr>"

lemma san_fold_inv: "san_inv st \<Longrightarrow> san_inv (fold sanitize_step h st)"
  by (induction h arbitrary: st) (auto intro: sanitize_step_inv)

lemma sanitize_repaired: "repaired (sanitizeHistoryForProvider h)"
  using san_inv_flush[OF san_fold_inv[of san_start h]]
  by (auto simp: sanitizeHistoryForProvider_def san_inv_def intro: repaired.nothing)

lemma fold_answers:
  "set pend = set (result_ids as) \<Longrightarrow> distinct (result_ids as) \<Longrightarrow> list_all is_tool as \<Longrightarrow> [] \<notin> set (result_ids as)
   \<Longrightarrow> fold sanitize_step as \<lparr>ss_kept = k, ss_pending = Some (pend, order)\<rparr>
     = \<lparr>ss_kept = k @ as, ss_pending = Some ([], order)\<rparr>"
proof (induction as arbitrary: pend k)
  case (Cons r as)
  have ne: "pend \<noteq> []" using Cons.prems(1) by auto
  have "set (removeAll (tool_call_id r) pend) = set (result_ids as)" using Cons.prems(1,2) by auto
  with Cons.IH[OF this, of "k @ [r]"] Cons.prems ne show ?case
    by (auto simp: sanitize_step_def is_tool_def keep_def)
qed simp

lemma fold_extras:
  "list_all is_tool ex \<Longrightarrow> fold sanitize_step ex \<lparr>ss_kept = k, ss_pending = Some ([], order)\<rparr>
     = \<lparr>ss_kept = k @ ex, ss_pending = Some ([], order)\<rparr>"
  by (induction ex arbitrary: k) (auto simp: sanitize_step_def is_tool_def keep_def)

lemma flush_closed: "ss_pending st = None \<or> ss_pending st = Some ([], ord) \<Longrightarrow> flushPendingToolCalls st = st\<lparr>ss_pending := None\<rparr>"
  by (cases st) (auto simp: flushPendingToolCalls_def)

lemma repaired_run:
  "repaired h \<Longrightarrow> \<exists>p. fold sanitize_step h san_start = \<lparr>ss_kept = h, ss_pending = p\<rparr> \<and> (p = None \<or> (\<exists>ord. p = Some ([], ord)))"
proof (induction rule: repaired.induct)
  case nothing then show ?case by simp
next
  case (plain h msg)
  then show ?case by (auto simp: sanitize_step_def is_tool_def is_tool_turn_def flush_closed keep_def Let_def)
next
  case (turn h a answers extra)
  then obtain p where p: "fold sanitize_step h san_start = \<lparr>ss_kept = h, ss_pending = p\<rparr>"
      "p = None \<or> (\<exists>ord. p = Some ([], ord))" by blast
  have "sanitize_step a \<lparr>ss_kept = h, ss_pending = p\<rparr> = \<lparr>ss_kept = h @ [a], ss_pending = Some (pending_ids a, pending_ids a)\<rparr>"
    using p(2) turn.hyps by (auto simp: sanitize_step_def is_tool_def is_tool_turn_def flush_closed keep_def Let_def)
  moreover have "fold sanitize_step answers \<lparr>ss_kept = h @ [a], ss_pending = Some (pending_ids a, pending_ids a)\<rparr>
      = \<lparr>ss_kept = (h @ [a]) @ answers, ss_pending = Some ([], pending_ids a)\<rparr>"
    by (rule fold_answers) (use turn.hyps in \<open>auto simp del: set_map\<close>)
  moreover have "list_all is_tool extra" using turn.hyps by simp
  ultimately show ?case using p(1) fold_extras[of extra "(h @ [a]) @ answers" "pending_ids a"] by simp
qed

lemma repaired_fixed: "repaired h \<Longrightarrow> sanitizeHistoryForProvider h = h"
  using repaired_run[of h] by (auto simp: sanitizeHistoryForProvider_def flush_closed)

definition says :: "message \<Rightarrow> bool" where
  "says msg \<longleftrightarrow> role msg \<noteq> ''system'' \<and> \<not> is_tool msg \<and> \<not> is_tool_turn msg"

lemma flush_kept:
  "\<exists>is. ss_kept (flushPendingToolCalls st) = ss_kept st @ map placeholder is"
proof (cases "ss_pending st")
  case None then show ?thesis by (intro exI[of _ "[]"]) (simp add: flushPendingToolCalls_def)
next
  case (Some po) then show ?thesis by (cases po) (auto simp: flushPendingToolCalls_def)
qed

lemma filter_placeholders [simp]: "filter says (map placeholder is) = []"
  by (induction "is") (simp_all add: says_def)

lemma flush_says [simp]: "filter says (ss_kept (flushPendingToolCalls st)) = filter says (ss_kept st)"
  using flush_kept[of st] by auto

lemma sanitize_step_says_msg: "says msg \<Longrightarrow> sanitize_step msg st = keep msg (flushPendingToolCalls st)"
  by (auto simp: sanitize_step_def says_def is_tool_def is_tool_turn_def Let_def)

lemma sanitize_step_kept:
  "\<exists>is ms. ss_kept (sanitize_step msg st) = ss_kept st @ map placeholder is @ ms \<and> (ms = [] \<or> ms = [msg])"
proof -
  have "ss_kept (sanitize_step msg st) \<in> {ss_kept st, ss_kept st @ [msg], ss_kept (flushPendingToolCalls st),
      ss_kept (flushPendingToolCalls st) @ [msg]}"
    by (simp add: sanitize_step_def Let_def split: option.splits)
  then consider "ss_kept (sanitize_step msg st) = ss_kept st" | "ss_kept (sanitize_step msg st) = ss_kept st @ [msg]"
    | "ss_kept (sanitize_step msg st) = ss_kept (flushPendingToolCalls st)"
    | "ss_kept (sanitize_step msg st) = ss_kept (flushPendingToolCalls st) @ [msg]"
    by blast
  then show ?thesis
  proof cases
    case 1 then show ?thesis by (intro exI[of _ "[]"]) simp
  next
    case 2 then show ?thesis by (intro exI[of _ "[]"] exI[of _ "[msg]"]) simp
  next
    case 3
    obtain "is" where "ss_kept (flushPendingToolCalls st) = ss_kept st @ map placeholder is" using flush_kept by blast
    with 3 show ?thesis by (intro exI[of _ "is"] exI[of _ "[]"]) simp
  next
    case 4
    obtain "is" where "ss_kept (flushPendingToolCalls st) = ss_kept st @ map placeholder is" using flush_kept by blast
    with 4 show ?thesis by (intro exI[of _ "is"] exI[of _ "[msg]"]) simp
  qed
qed

lemma sanitize_step_says: "filter says (ss_kept (sanitize_step msg st)) = filter says (ss_kept st) @ filter says [msg]"
proof (cases "says msg")
  case True then show ?thesis by (simp add: sanitize_step_says_msg)
next
  case False then show ?thesis using sanitize_step_kept[of msg st] by auto
qed

lemma san_fold_says: "filter says (ss_kept (fold sanitize_step h st)) = filter says (ss_kept st) @ filter says h"
  by (induction h arbitrary: st) (auto simp: sanitize_step_says)

definition real :: "message \<Rightarrow> bool" where "real msg \<longleftrightarrow> (\<forall>i\<in>{tool_call_id msg}. msg \<noteq> placeholder i)"

lemma filter_real_placeholders [simp]: "filter real (map placeholder is) = []"
  by (induction "is") (simp_all add: real_def)

lemma flush_real [simp]: "filter real (ss_kept (flushPendingToolCalls st)) = filter real (ss_kept st)"
  using flush_kept[of st] by auto

lemma sanitize_step_real: "subseq (filter real (ss_kept (sanitize_step msg st))) (filter real (ss_kept st) @ [msg])"
  using sanitize_step_kept[of msg st] by auto

lemma san_fold_real: "subseq (filter real (ss_kept (fold sanitize_step h st))) (filter real (ss_kept st) @ h)"
proof (induction h arbitrary: st)
  case (Cons msg h)
  have "subseq (filter real (ss_kept (sanitize_step msg st)) @ h) ((filter real (ss_kept st) @ [msg]) @ h)"
    by (simp add: sanitize_step_real del: append_assoc)
  with Cons[of "sanitize_step msg st"] show ?case by (auto intro: subseq_order.order_trans)
qed simp

section \<open>Lemmas: pruning\<close>

definition same_shape :: "message \<Rightarrow> message \<Rightarrow> bool" where
  "same_shape a b \<longleftrightarrow> b\<lparr>content := content a\<rparr> = a"

lemma same_shape_refl [simp]: "same_shape a a" by (simp add: same_shape_def)

lemma same_shape_content [simp]: "same_shape a (a\<lparr>content := c\<rparr>)" by (simp add: same_shape_def)

lemma same_shapeD: "same_shape a b \<Longrightarrow> role b = role a \<and> tool_calls b = tool_calls a \<and> tool_call_id b = tool_call_id a"
  by (cases a, cases b) (simp add: same_shape_def)

text \<open>What the grammar looks at.\<close>

definition alike :: "message \<Rightarrow> message \<Rightarrow> bool" where
  "alike a b \<longleftrightarrow> role b = role a \<and> tool_calls b = tool_calls a \<and> tool_call_id b = tool_call_id a"

lemma same_shape_alike: "same_shape a b \<Longrightarrow> alike a b"
  using same_shapeD by (simp add: alike_def)

lemma alike_facts:
  assumes "alike a b"
  shows "role b = role a" "is_tool b = is_tool a" "is_tool_turn b = is_tool_turn a" "pending_ids b = pending_ids a"
    "tool_call_id b = tool_call_id a"
  using assms by (simp_all add: alike_def is_tool_def is_tool_turn_def pending_ids_def calls_def)

lemmas same_shape_facts = alike_facts [OF same_shape_alike]

lemma alikes_facts:
  "list_all2 alike xs ys \<Longrightarrow> list_all is_tool ys = list_all is_tool xs \<and> result_ids ys = result_ids xs"
  by (induction rule: list_all2_induct) (auto simp: alike_facts)

lemma alikes_last: "list_all2 alike xs ys \<Longrightarrow> xs \<noteq> [] \<Longrightarrow> alike (last xs) (last ys)"
  by (metis last_conv_nth length_0_conv length_greater_0_conv diff_less list_all2_lengthD list_all2_nthD zero_less_one)

lemma repaired_alike: "repaired h \<Longrightarrow> list_all2 alike h h' \<Longrightarrow> repaired h'"
proof (induction arbitrary: h' rule: repaired.induct)
  case nothing then show ?case by (simp add: repaired.nothing)
next
  case (plain h msg)
  then obtain k m where "h' = k @ [m]" "list_all2 alike h k" "alike msg m"
    by (auto simp: list_all2_append1 list_all2_Cons1)
  then show ?case using plain by (auto intro!: repaired.plain simp: alike_facts)
next
  case (turn h a answers extra)
  then obtain k b as ex where s: "h' = k @ b # as @ ex" "list_all2 alike h k" "alike a b"
      "list_all2 alike answers as" "list_all2 alike extra ex"
    by (auto simp: list_all2_append1 list_all2_Cons1)
  note f = alikes_facts[OF s(4)] alikes_facts[OF s(5)] alike_facts[OF s(3)]
    alike_facts[OF alikes_last[OF s(2) turn.hyps(2)]]
  have "repaired (k @ b # as @ ex)"
    by (rule repaired.turn[OF turn.IH[OF s(2)]]) (use turn.hyps f s(2) in auto)
  then show ?case using s(1) by simp
qed

lemma shapes_alike: "list_all2 same_shape xs ys \<Longrightarrow> list_all2 alike xs ys"
  by (auto elim: list_all2_mono intro: same_shape_alike)

lemma repaired_shape: "repaired h \<Longrightarrow> list_all2 same_shape h h' \<Longrightarrow> repaired h'"
  using repaired_alike shapes_alike by blast

lemma same_shape_trans: "same_shape a b \<Longrightarrow> same_shape b c \<Longrightarrow> same_shape a c"
  by (cases a, cases b, cases c) (simp add: same_shape_def)

lemma shapes_trans: "list_all2 same_shape xs ys \<Longrightarrow> list_all2 same_shape ys zs \<Longrightarrow> list_all2 same_shape xs zs"
  by (rule list_all2_trans[of same_shape same_shape same_shape]) (auto intro: same_shape_trans)

lemma soften_shape [simp]: "same_shape m (soften st m)"
  by (simp add: soften_def Let_def)

lemma soften_not_tool [simp]: "\<not> is_tool m \<Longrightarrow> soften st m = m"
  by (simp add: soften_def is_tool_def)

lemma hard_pass_length [simp]: "length (hard_pass st sp is p) = length p"
  by (induction "is" arbitrary: p) auto

lemma hard_pass_same:
  "i \<notin> set is \<or> (i < length p \<and> \<not> is_tool (p ! i)) \<Longrightarrow> hard_pass st sp is p ! i = p ! i"
proof (induction "is" arbitrary: p)
  case (Cons a "is")
  have "hard_pass st sp is (p[a := (p ! a)\<lparr>content := omitted_text\<rparr>]) ! i = p ! i" if "is_tool (p ! a)"
  proof (cases "a = i")
    case True
    then show ?thesis using that Cons.prems Cons.IH[of "p[a := (p ! a)\<lparr>content := omitted_text\<rparr>]"]
      by (auto simp: is_tool_def)
  next
    case False
    then show ?thesis using Cons.prems Cons.IH[of "p[a := (p ! a)\<lparr>content := omitted_text\<rparr>]"] by auto
  qed
  then show ?case using Cons by (auto simp: is_tool_def)
qed simp

lemma hard_pass_shape: "list_all2 same_shape p (hard_pass st sp is p)"
proof (induction "is" arbitrary: p)
  case (Cons i "is")
  have "list_all2 same_shape p (hard_pass st sp is (p[i := (p ! i)\<lparr>content := c\<rparr>]))" for c
  proof -
    have "list_all2 same_shape (p[i := (p ! i)\<lparr>content := c\<rparr>]) (hard_pass st sp is (p[i := (p ! i)\<lparr>content := c\<rparr>]))"
      by (rule Cons)
    moreover have "list_all2 same_shape p (p[i := (p ! i)\<lparr>content := c\<rparr>])"
      by (simp add: list_all2_conv_all_nth) (metis nth_list_update_eq nth_list_update_neq same_shape_content same_shape_refl)
    ultimately show ?thesis by (blast intro: shapes_trans)
  qed
  then show ?case using Cons by (auto simp: list_all2_conv_all_nth)
qed (simp add: list_all2_conv_all_nth)

definition shortened :: "context_settings \<Rightarrow> message \<Rightarrow> bool" where
  "shortened st m \<longleftrightarrow> is_tool m \<longrightarrow> int (length (content m)) \<le> cs_hard_chars st \<or> content m = omitted_text"

lemma shortened_stays: "i < length p \<Longrightarrow> shortened st (p ! i) \<Longrightarrow> shortened st (hard_pass st sp is p ! i)"
proof (induction "is" arbitrary: p)
  case (Cons a "is")
  have "shortened st (p[a := (p ! a)\<lparr>content := omitted_text\<rparr>] ! i)"
    using Cons.prems by (cases "a = i") (simp_all add: shortened_def)
  then have "shortened st (hard_pass st sp is (p[a := (p ! a)\<lparr>content := omitted_text\<rparr>]) ! i)"
    using Cons.prems by (intro Cons.IH) simp_all
  then show ?case using Cons by simp
qed simp

lemma hard_pass_effect:
  "load_ratio st sp (hard_pass st sp is p) < cs_trigger st
   \<or> list_all (\<lambda>i. i < length p \<longrightarrow> shortened st (hard_pass st sp is p ! i)) is"
proof (induction "is" arbitrary: p)
  case (Cons i "is")
  let ?q = "p[i := (p ! i)\<lparr>content := omitted_text\<rparr>]"
  show ?case
  proof (cases "load_ratio st sp p < cs_trigger st")
    case False
    show ?thesis
    proof (cases "role (p ! i) \<noteq> ''tool'' \<or> int (length (content (p ! i))) \<le> cs_hard_chars st")
      case True
      then have "i < length p \<Longrightarrow> shortened st (hard_pass st sp is p ! i)"
        by (intro shortened_stays) (auto simp: shortened_def is_tool_def)
      then show ?thesis using Cons[of p] True False by auto
    next
      case long: False
      have "i < length p \<Longrightarrow> shortened st (hard_pass st sp is ?q ! i)"
        by (intro shortened_stays) (auto simp: shortened_def)
      then show ?thesis using Cons[of ?q] long False by auto
    qed
  qed simp
qed simp

definition keeps_shape :: "message list \<Rightarrow> message list \<Rightarrow> bool" where
  "keeps_shape h h' \<longleftrightarrow> list_all2 same_shape h h' \<and> drop (length h - 8) h' = drop (length h - 8) h
     \<and> list_all2 (\<lambda>a b. is_tool a \<or> b = a) h h'"

lemma keeps_shape_refl [simp]: "keeps_shape h h"
  by (simp add: keeps_shape_def list_all2_same)

lemma keeps_shape_soft:
  assumes "8 < length h"
  shows "keeps_shape h (map (soften st) (take (length h - 8) h) @ drop (length h - 8) h)"
proof -
  have "list_all2 Q h (map (soften st) (take (length h - 8) h) @ drop (length h - 8) h)"
    if "\<And>a. Q a (soften st a)" "\<And>a. Q a a" for Q
  proof -
    have "list_all2 Q (take (length h - 8) h @ drop (length h - 8) h) (map (soften st) (take (length h - 8) h) @ drop (length h - 8) h)"
      using that by (intro list_all2_appendI) (simp_all add: list_all2_conv_all_nth)
    then show ?thesis by simp
  qed
  note two = this
  have "list_all2 (\<lambda>a b. is_tool a \<or> b = a) h (map (soften st) (take (length h - 8) h) @ drop (length h - 8) h)"
    by (rule two) (use soften_not_tool in blast)+
  moreover have "list_all2 same_shape h (map (soften st) (take (length h - 8) h) @ drop (length h - 8) h)"
    by (rule two) auto
  ultimately show ?thesis using assms by (simp add: keeps_shape_def)
qed

lemma keeps_shape_hard:
  assumes "keeps_shape h p" "list_all (\<lambda>i. i < length h - 8) is"
  shows "keeps_shape h (hard_pass st sp is p)"
proof -
  have len: "length p = length h" using assms(1) by (auto simp: keeps_shape_def dest: list_all2_lengthD)
  have "drop (length h - 8) (hard_pass st sp is p) = drop (length h - 8) p"
    using assms(2) len by (intro nth_equalityI) (auto simp: list_all_iff intro!: hard_pass_same)
  moreover have "list_all2 (\<lambda>a b. is_tool a \<or> b = a) h (hard_pass st sp is p)"
  proof (rule list_all2_all_nthI)
    fix i assume i: "i < length h"
    have "is_tool (h ! i) \<or> p ! i = h ! i" using assms(1) i by (auto simp: keeps_shape_def dest: list_all2_nthD)
    then show "is_tool (h ! i) \<or> hard_pass st sp is p ! i = h ! i"
      using hard_pass_same[of i "is" p st sp] i len by (cases "is_tool (h ! i)") auto
  qed (simp add: len)
  moreover have "list_all2 same_shape h (hard_pass st sp is p)"
    using assms(1) hard_pass_shape[of p st sp "is"] by (auto simp: keeps_shape_def intro: shapes_trans)
  ultimately show ?thesis using assms(1) by (simp add: keeps_shape_def)
qed

lemma prune_keeps_shape: "\<not> cs_chit_chat st \<Longrightarrow> keeps_shape h (pruneHistoryForContext st h sp)"
  by (auto simp: pruneHistoryForContext_def Let_def nat_diff_distrib' list_all_iff
        intro!: keeps_shape_soft keeps_shape_hard)

lemma shortened_all: "list_all (\<lambda>i. i < n \<longrightarrow> shortened st (out ! i)) [0..<min m n] \<Longrightarrow> n = length out \<Longrightarrow> list_all (shortened st) (take m out)"
  by (simp add: list_all_length)

lemma hard_pass_prefix:
  "load_ratio st sp (hard_pass st sp [0..<min m (length p)] p) < cs_trigger st
   \<or> list_all (shortened st) (take m (hard_pass st sp [0..<min m (length p)] p))"
  using hard_pass_effect[of st sp "[0..<min m (length p)]" p]
    shortened_all[of "length p" st "hard_pass st sp [0..<min m (length p)] p" m] by auto

lemma prune_effect:
  assumes "cs_pruning_mode st \<noteq> ''off''" "0 < cs_window st" "0 < cs_hard_chars st" "8 < length h"
  shows "load_ratio st sp (pruneHistoryForContext st h sp) < cs_trigger st
    \<or> list_all (shortened st) (take (length h - 8) (pruneHistoryForContext st h sp))"
proof (cases "load_ratio st sp h < cs_trigger st")
  case True
  then show ?thesis using assms by (auto simp: pruneHistoryForContext_def)
next
  case False
  let ?p0 = "map (soften st) (take (length h - 8) h) @ drop (length h - 8) h"
  let ?p = "if cs_chit_chat st then compactOldChitChat ?p0 (int (length h) - 8) else ?p0"
  have n: "nat (int (length h) - 8) = length h - 8" "\<not> int (length h) - 8 \<le> 0" using assms(4) by auto
  have "pruneHistoryForContext st h sp = (if load_ratio st sp ?p < cs_trigger st \<or> cs_hard_chars st \<le> 0 then ?p
      else hard_pass st sp [0..<min (length h - 8) (length ?p)] ?p)"
    unfolding pruneHistoryForContext_def Let_def using assms False n by auto
  then show ?thesis using assms(3) hard_pass_prefix[of st sp "length h - 8" ?p]
    by (cases "load_ratio st sp ?p < cs_trigger st") auto
qed

section \<open>Lemmas: acknowledgements\<close>

lemma low_not_tool: "isLowSignal m \<Longrightarrow> \<not> is_tool m \<and> \<not> is_tool_turn m"
  by (auto simp: isLowSignal_def is_tool_def is_tool_turn_def split: if_splits)

lemma condense_runs_id: "list_all (\<lambda>m. \<not> isLowSignal m) xs \<Longrightarrow> condense_runs xs = xs"
  by (induction xs) auto

lemma condense_runs_run:
  assumes "list_all isLowSignal acks" "2 \<le> length acks" "xs = [] \<or> \<not> isLowSignal (hd xs)"
  shows "condense_runs (acks @ xs) = history_note (length acks) # condense_runs xs"
proof -
  obtain m ms where a: "acks = m # ms" using assms(2) by (cases acks) auto
  have t: "takeWhile isLowSignal xs = []" "dropWhile isLowSignal xs = xs"
    using assms(3) by (cases xs; simp)+
  have "takeWhile isLowSignal (acks @ xs) = acks" "dropWhile isLowSignal (ms @ xs) = xs"
    using assms(1) t a by (simp_all add: list_all_iff)
  then show ?thesis using a assms by (simp add: Let_def)
qed

lemma last_dropWhile: "\<not> P (last xs) \<Longrightarrow> xs \<noteq> [] \<Longrightarrow> dropWhile P xs \<noteq> [] \<and> last (dropWhile P xs) = last xs"
  by (induction xs) (auto split: if_splits)

lemma condense_runs_append:
  "xs = [] \<or> \<not> isLowSignal (last xs) \<Longrightarrow> condense_runs (xs @ ys) = condense_runs xs @ condense_runs ys"
proof (induction xs rule: condense_runs.induct)
  case (2 m ms)
  show ?case
  proof (cases "isLowSignal m")
    case False
    then show ?thesis using 2 by (auto split: if_splits)
  next
    case True
    then have ms: "ms \<noteq> []" "\<not> isLowSignal (last ms)" using 2(3) by (auto split: if_splits)
    then have d: "dropWhile isLowSignal ms \<noteq> []" "last (dropWhile isLowSignal ms) = last ms"
      using last_dropWhile by blast+
    then have e: "\<exists>x\<in>set ms. \<not> isLowSignal x" by (metis ms last_in_set)
    have "takeWhile isLowSignal (ms @ ys) = takeWhile isLowSignal ms" "dropWhile isLowSignal (ms @ ys) = dropWhile isLowSignal ms @ ys"
      using e by (auto simp: takeWhile_append1 dropWhile_append1)
    then show ?thesis using 2(2)[OF _ refl] True d ms by (simp add: Let_def)
  qed
qed simp

lemma compact_split:
  assumes "list_all (\<lambda>m. \<not> isLowSignal m) xs" "list_all isLowSignal acks" "2 \<le> length acks"
    "pre = [] \<or> \<not> isLowSignal (last pre)" "xs \<noteq> []" "length (pre @ acks) \<le> c"
  shows "compactOldChitChat (pre @ acks @ xs @ rest) (int c) =
     condense_runs pre @ history_note (length acks) # xs @ compactOldChitChat rest (int c - int (length (pre @ acks @ xs)))"
proof -
  let ?k = "c - length (pre @ acks)"
  have hd: "\<not> isLowSignal (hd xs)" using assms(1,5) by (cases xs) auto
  have "take c (pre @ acks @ xs @ rest) = pre @ acks @ take ?k (xs @ rest)"
    "drop c (pre @ acks @ xs @ rest) = drop ?k (xs @ rest)" using assms(6) by auto
  then have l: "compactOldChitChat (pre @ acks @ xs @ rest) (int c)
      = condense_runs pre @ history_note (length acks) # condense_runs (take ?k (xs @ rest)) @ drop ?k (xs @ rest)"
    using assms condense_runs_run[OF assms(2,3), of "take ?k (xs @ rest)"] hd
    by (auto simp: compactOldChitChat_def condense_runs_append hd_append)
  have "condense_runs (take ?k (xs @ rest)) @ drop ?k (xs @ rest)
      = xs @ compactOldChitChat rest (int c - int (length (pre @ acks @ xs)))"
  proof (cases "?k \<le> length xs")
    case True
    then have "condense_runs (take ?k (xs @ rest)) = take ?k xs"
      using assms(1) by (auto intro!: condense_runs_id simp: list_all_length)
    moreover have "int c - int (length (pre @ acks @ xs)) \<le> 0" using True by simp
    ultimately show ?thesis using True by (simp add: compactOldChitChat_def flip: append_assoc)
  next
    case False
    have "condense_runs (xs @ take (?k - length xs) rest) = xs @ condense_runs (take (?k - length xs) rest)"
      using assms(1,5) condense_runs_append[of xs] condense_runs_id[of xs] by (auto simp: list_all_iff)
    moreover have "nat (int c - int (length (pre @ acks @ xs))) = ?k - length xs"
      "\<not> int c - int (length (pre @ acks @ xs)) \<le> 0" using False by auto
    ultimately show ?thesis using False by (auto simp: compactOldChitChat_def)
  qed
  then show ?thesis using l by simp
qed

lemma history_note_facts [simp]: "role (history_note n) = ''assistant''" "calls (history_note n) = []"
  by (simp_all add: history_note_def calls_def)

lemma orphans_dropped:
  "list_all is_tool rs \<Longrightarrow> ss_pending st = None \<Longrightarrow> fold sanitize_step rs st = st"
  by (induction rs) (auto simp: sanitize_step_def is_tool_def)

lemma turn_after_note_dropped:
  assumes "is_tool_turn a" "list_all is_tool rs"
  shows "sanitizeHistoryForProvider (xs @ history_note n # a # rs @ rest) = sanitizeHistoryForProvider (xs @ history_note n # rest)"
proof -
  define st where "st = sanitize_step (history_note n) (fold sanitize_step xs san_start)"
  have st: "ss_pending st = None" "ss_kept st \<noteq> []" "role (last (ss_kept st)) = ''assistant''"
    by (simp_all add: st_def sanitize_step_def)
  have "sanitize_step a st = st"
    using assms(1) st by (cases st) (simp add: sanitize_step_def is_tool_turn_def flushPendingToolCalls_def)
  then show ?thesis using orphans_dropped[OF assms(2) st(1)]
    by (simp add: sanitizeHistoryForProvider_def flip: st_def)
qed

lemma turn_not_low: "is_tool_turn a \<Longrightarrow> list_all is_tool rs \<Longrightarrow> list_all (\<lambda>m. \<not> isLowSignal m) (a # rs)"
  by (auto simp: list_all_iff dest: low_not_tool)

lemma upt_four: "4 \<le> m \<Longrightarrow> [0..<m] = 0 # 1 # 2 # 3 # [4..<m]"
  by (simp add: upt_conv_Cons eval_nat_numeral)

lemma build_messages_eq:
  "BuildMessagesForSession st pp h summary msg med =
     \<lparr>role = ''system'', content = system_prompt pp summary, media = None, reasoning = [],
        system_parts = Some (prompt_blocks pp summary), tool_calls = None, tool_call_id = []\<rparr>
     # sanitizeHistoryForProvider (pruneHistoryForContext st (sanitizeHistoryForProvider h) (system_prompt pp summary))
     @ (if TrimSpace msg \<noteq> [] then [buildUserInputMessage msg med] else [])"
  by (simp add: BuildMessagesForSession_def Let_def)

lemma repaired_no_system: "repaired h \<Longrightarrow> \<forall>m\<in>set h. role m \<noteq> ''system''"
  by (induction rule: repaired.induct) (auto simp: is_tool_turn_def is_tool_def list_all_iff)

lemma user_message_plain: "role (buildUserInputMessage msg med) = ''user''" "\<not> is_tool (buildUserInputMessage msg med)"
    "\<not> is_tool_turn (buildUserInputMessage msg med)"
  by (simp_all add: buildUserInputMessage_def is_tool_def is_tool_turn_def)

section \<open>Lemmas: tidy histories\<close>

lemma speaks_facts: "speaks msg \<Longrightarrow> role msg \<noteq> ''system'' \<and> \<not> is_tool msg \<and> \<not> is_tool_turn msg"
  by (auto simp: speaks_def is_tool_def is_tool_turn_def)

lemma tidy_append: "tidy op (xs @ ys) \<longleftrightarrow> tidy op xs \<and> tidy (after op xs) ys"
  by (induction xs arbitrary: op) auto

lemma after_append: "after op (xs @ ys) = after (after op xs) ys"
  by (induction xs arbitrary: op) auto

lemma tidy_later: "tidy op ms \<Longrightarrow> tidy None ms"
  by (induction ms arbitrary: op) (auto split: if_splits)

lemma tidy_suffix: "tidy op (xs @ ys) \<Longrightarrow> tidy None ys"
  using tidy_later by (auto simp: tidy_append)

lemma tidy_answers:
  "list_all is_tool as \<Longrightarrow> distinct (result_ids as) \<Longrightarrow> set (result_ids as) = set p \<Longrightarrow> tidy (Some p) as \<and> after (Some p) as = Some []"
proof (induction as arbitrary: p)
  case (Cons r as)
  have "tool_call_id r \<notin> set (result_ids as)" "insert (tool_call_id r) (set (result_ids as)) = set p" using Cons.prems by simp_all
  then have "set (result_ids as) = set (removeAll (tool_call_id r) p)" "p \<noteq> []"
    by (metis Diff_insert_absorb set_removeAll, metis insert_not_empty list.set(1))
  with Cons show ?case by (auto simp: is_tool_def)
qed simp

lemma good_call_ids: "good_ids (map tc_id tcs) \<Longrightarrow> set (map tc_id tcs) \<inter> set seen = {} \<Longrightarrow> call_ids tcs seen = map tc_id tcs"
  by (induction tcs arbitrary: seen) (auto simp: good_ids_def)

lemma good_pending: "good_ids (ids_called a) \<Longrightarrow> pending_ids a = ids_called a"
  by (simp add: pending_ids_def good_call_ids)

lemma mset_ids: "good_ids xs \<Longrightarrow> mset ys = mset xs \<Longrightarrow> distinct ys \<and> set ys = set xs"
  by (metis good_ids_def mset_eq_imp_distinct_iff mset_eq_setD)

lemma accepted_repaired: "accepted h \<Longrightarrow> repaired h"
proof (induction rule: accepted.induct)
  case (turn h a answers)
  then show ?case using repaired.turn [of h a answers "[]"] mset_ids[OF turn.hyps(5,7)] by (simp add: good_pending)
qed (auto intro: repaired.intros dest: speaks_facts)

lemma accepted_tidy: "accepted h \<Longrightarrow> tidy None h \<and> (after None h = None \<or> after None h = Some [])"
proof (induction rule: accepted.induct)
  case (said h msg) then show ?case using speaks_facts[of msg] by (auto simp: tidy_append after_append)
next
  case (turn h a answers)
  then have "tidy (Some (ids_called a)) answers \<and> after (Some (ids_called a)) answers = Some []"
    using mset_ids by (intro tidy_answers) blast+
  then show ?case using turn by (auto simp: tidy_append after_append is_tool_turn_def is_tool_def)
qed simp

definition strict_open :: "message list \<Rightarrow> string list \<Rightarrow> string list \<Rightarrow> bool" where
  "strict_open k p order \<longleftrightarrow> (\<exists>h a answers. k = h @ a # answers \<and> accepted h \<and> h \<noteq> []
     \<and> (role (last h) = ''user'' \<or> is_tool (last h)) \<and> is_tool_turn a \<and> good_ids (ids_called a) \<and> order = ids_called a
     \<and> list_all is_tool answers \<and> mset (result_ids answers) + mset p = mset order)"

definition strict_inv :: "san_state \<Rightarrow> string list option \<Rightarrow> bool" where
  "strict_inv st op \<longleftrightarrow> (case ss_pending st of None \<Rightarrow> accepted (ss_kept st) | Some (p, ord) \<Rightarrow> op = Some p \<and> strict_open (ss_kept st) p ord)"

lemma strict_open_ids: "strict_open k p order \<Longrightarrow> good_ids order \<and> distinct p \<and> set p \<subseteq> set order \<and> [] \<notin> set p"
proof -
  assume "strict_open k p order"
  then obtain a answers where g: "good_ids order" "mset (result_ids answers @ p) = mset order" unfolding strict_open_def by auto
  with mset_ids[OF g] show ?thesis by (auto simp: good_ids_def)
qed

lemma strict_open_flush:
  assumes "strict_open k p order"
  shows "accepted (k @ map placeholder (filter (\<lambda>i. i \<in> set p) order))"
proof -
  let ?q = "map placeholder (filter (\<lambda>i. i \<in> set p) order)"
  obtain h a answers where s: "k = h @ a # answers" "accepted h" "h \<noteq> []"
     "role (last h) = ''user'' \<or> is_tool (last h)" "is_tool_turn a" "good_ids (ids_called a)" "order = ids_called a"
     "list_all is_tool answers" "mset (result_ids answers) + mset p = mset order"
    using assms unfolding strict_open_def by blast
  have d: "distinct order" "distinct p" "set p \<subseteq> set order"
    using strict_open_ids[OF assms] by (auto simp: good_ids_def)
  have "mset (filter (\<lambda>i. i \<in> set p) order) = mset p"
    by (subst set_eq_iff_mset_eq_distinct[symmetric]) (use d in auto)
  then have m: "mset (result_ids (answers @ ?q)) = mset (ids_called a)" using s(7,9) by (simp add: comp_def)
  have t: "list_all is_tool (answers @ ?q)" using s(8) by (auto simp: list_all_iff)
  show ?thesis using accepted.turn[OF s(2-6) t m] s(1) by simp
qed

lemma strict_flush: "strict_inv st op \<Longrightarrow> accepted (ss_kept (flushPendingToolCalls st))"
  by (auto simp: strict_inv_def flushPendingToolCalls_def dest: strict_open_flush split: option.splits)

lemma strict_open_answer:
  assumes "strict_open k p order" "is_tool msg" "tool_call_id msg \<in> set p"
  shows "strict_open (k @ [msg]) (removeAll (tool_call_id msg) p) order"
proof -
  obtain h a answers where s: "k = h @ a # answers" "accepted h" "h \<noteq> []"
     "role (last h) = ''user'' \<or> is_tool (last h)" "is_tool_turn a" "good_ids (ids_called a)" "order = ids_called a"
     "list_all is_tool answers" "mset (result_ids answers) + mset p = mset order"
    using assms unfolding strict_open_def by blast
  have "distinct p" using strict_open_ids[OF assms(1)] by simp
  then have "mset p = add_mset (tool_call_id msg) (mset (removeAll (tool_call_id msg) p))"
    using assms(3) by (metis distinct_remove1_removeAll insert_DiffM mset_remove1 set_mset_mset)
  then have "mset (result_ids (answers @ [msg])) + mset (removeAll (tool_call_id msg) p) = mset order"
    using s(9) by simp
  moreover have "list_all is_tool (answers @ [msg])" using s(8) assms(2) by simp
  moreover have "k @ [msg] = h @ a # (answers @ [msg])" using s(1) by simp
  ultimately show ?thesis unfolding strict_open_def using s(2-7) by blast
qed

lemma strict_open_start:
  "accepted k \<Longrightarrow> k \<noteq> [] \<Longrightarrow> role (last k) = ''user'' \<or> is_tool (last k) \<Longrightarrow> is_tool_turn a \<Longrightarrow> good_ids (ids_called a)
   \<Longrightarrow> strict_open (k @ [a]) (ids_called a) (ids_called a)"
  unfolding strict_open_def by (rule exI[of _ k], rule exI[of _ a], rule exI[of _ "[]"]) simp

lemma strict_step:
  assumes "strict_inv st op" "tidy op (msg # ms)"
  shows "strict_inv (sanitize_step msg st) (after op [msg]) \<and> tidy (after op [msg]) ms"
proof -
  have f: "accepted (ss_kept (flushPendingToolCalls st))" by (rule strict_flush[OF assms(1)])
  consider "role msg = ''system''" | "is_tool msg" "role msg = ''tool''" | "is_tool_turn msg" "role msg = ''assistant''" "\<not> is_tool msg"
    | "role msg \<noteq> ''system''" "\<not> is_tool msg" "\<not> is_tool_turn msg"
    by (auto simp: is_tool_def is_tool_turn_def)
  then show ?thesis
  proof cases
    case 1 then show ?thesis using assms by (simp add: sanitize_step_def)
  next
    case 2
    show ?thesis
    proof (cases "ss_pending st")
      case None then show ?thesis using assms 2 by (simp add: sanitize_step_def strict_inv_def)
    next
      case (Some po)
      obtain p ord where po: "po = (p, ord)" by force
      have o: "op = Some p" "strict_open (ss_kept st) p ord" using assms(1) Some po by (auto simp: strict_inv_def)
      have g: "[] \<notin> set p" "p \<noteq> []" using strict_open_ids[OF o(2)] assms(2) 2 o(1) by auto
      show ?thesis
        using assms Some po o g 2 strict_open_answer[OF o(2), of msg]
        by (auto simp: sanitize_step_def strict_inv_def)
    qed
  next
    case 3
    then have "good_ids (ids_called msg)" using assms(2) by simp
    then show ?thesis using 3 f strict_open_start[OF f, of msg] assms(2) good_pending[of msg]
      by (auto simp: sanitize_step_def strict_inv_def is_tool_def is_tool_turn_def Let_def)
  next
    case 4
    then have "accepted (ss_kept (flushPendingToolCalls st) @ [msg])" using f assms(2) by (auto intro: accepted.said)
    then show ?thesis using 4 assms(2) by (auto simp: sanitize_step_def strict_inv_def is_tool_def is_tool_turn_def Let_def)
  qed
qed

lemma strict_fold: "strict_inv st op \<Longrightarrow> tidy op h \<Longrightarrow> strict_inv (fold sanitize_step h st) (after op h)"
proof (induction h arbitrary: st op)
  case (Cons msg h)
  have "after op (msg # h) = after (after op [msg]) h" by simp
  with strict_step[OF Cons.prems] Cons.IH show ?case by simp
qed simp

lemma sanitize_accepts: "tidy None h \<Longrightarrow> accepted (sanitizeHistoryForProvider h)"
  using strict_flush[OF strict_fold[of "\<lparr>ss_kept = [], ss_pending = None\<rparr>" None h]]
  by (auto simp: sanitizeHistoryForProvider_def strict_inv_def intro: accepted.nothing)

lemma alike_ids: "alike a b \<Longrightarrow> ids_called b = ids_called a" "alike a b \<Longrightarrow> speaks b = speaks a"
  by (simp_all add: alike_def calls_def speaks_def)

lemma tidy_alike: "list_all2 alike h h' \<Longrightarrow> tidy op h' = tidy op h"
  by (induction arbitrary: op rule: list_all2_induct) (auto simp: alike_facts alike_ids)

lemma accepted_alike: "accepted h \<Longrightarrow> list_all2 alike h h' \<Longrightarrow> accepted h'"
  by (metis accepted_tidy accepted_repaired sanitize_accepts tidy_alike repaired_alike repaired_fixed)

lemma low_speaks: "isLowSignal m \<Longrightarrow> speaks m"
  by (auto simp: isLowSignal_def speaks_def split: if_splits)

lemma tidy_run: "list_all isLowSignal xs \<Longrightarrow> xs \<noteq> [] \<Longrightarrow> tidy op (xs @ ys) = tidy None ys"
proof (induction xs arbitrary: op)
  case (Cons m xs)
  then show ?case using low_speaks[of m] speaks_facts[of m] by (cases xs) auto
qed simp

lemma history_note_speaks: "speaks (history_note n)"
  by (simp add: speaks_def)

lemma tidy_said: "speaks m \<Longrightarrow> tidy op (m # ms) = tidy None ms"
  using speaks_facts by auto

lemma tidy_condense: "tidy op (condense_runs xs @ ys) = tidy op (xs @ ys)"
proof (induction xs arbitrary: op rule: condense_runs.induct)
  case (2 m ms)
  show ?case
  proof (cases "isLowSignal m")
    case False then show ?thesis using 2(1) by simp
  next
    case True
    have "list_all isLowSignal (m # takeWhile isLowSignal ms)" using True by (auto simp: list_all_iff dest: set_takeWhileD)
    then have "tidy op ((m # takeWhile isLowSignal ms) @ dropWhile isLowSignal ms @ ys) = tidy None (dropWhile isLowSignal ms @ ys)"
      by (rule tidy_run) simp
    moreover have "(m # takeWhile isLowSignal ms) @ dropWhile isLowSignal ms @ ys = (m # ms) @ ys"
      by (metis append_Cons append_assoc takeWhile_dropWhile_id)
    ultimately have l: "tidy op ((m # ms) @ ys) = tidy None (dropWhile isLowSignal ms @ ys)" by metis
    have "tidy None (condense_runs (dropWhile isLowSignal ms) @ ys) = tidy None (dropWhile isLowSignal ms @ ys)"
      using 2(2) True by blast
    then show ?thesis unfolding l using True low_speaks[OF True] tidy_said history_note_speaks by (simp add: Let_def del: tidy.simps)
  qed
qed simp

lemma tidy_compact: "tidy op (compactOldChitChat h c) = tidy op h"
  using tidy_condense[of op "take (nat c) h" "drop (nat c) h"] by (simp add: compactOldChitChat_def)

lemma tidy_soft: "tidy op (map (soften st) xs @ ys) = tidy op (xs @ ys)"
  by (rule tidy_alike) (auto intro!: list_all2_appendI same_shape_alike simp: list_all2_map2 list_all2_same)

lemma tidy_hard: "tidy op (hard_pass st sp is p) = tidy op p"
  using tidy_alike shapes_alike hard_pass_shape by blast

lemma tidy_prune: "tidy op (pruneHistoryForContext st h sp) = tidy op h"
  by (auto simp: pruneHistoryForContext_def Let_def tidy_compact tidy_soft tidy_hard)

lemma request_history_accepted:
  "tidy None h \<Longrightarrow> accepted (sanitizeHistoryForProvider (pruneHistoryForContext st (sanitizeHistoryForProvider h) sp))"
  by (intro sanitize_accepts) (simp add: tidy_prune accepted_tidy sanitize_accepts)

lemma last_turn_unique:
  assumes "xs @ a # ts = ys @ b # us" "\<not> is_tool a" "\<not> is_tool b" "list_all is_tool ts" "list_all is_tool us"
  shows "xs = ys \<and> a = b \<and> ts = us"
proof -
  have "takeWhile is_tool (rev zs @ c # ws) = rev zs" if "list_all is_tool zs" "\<not> is_tool c" for zs c ws
    using that by (subst takeWhile_append2) (auto simp: list_all_iff)
  moreover have "rev ts @ a # rev xs = rev us @ b # rev ys" using arg_cong[OF assms(1), of rev] by simp
  ultimately have "rev ts = rev us" using assms by metis
  then show ?thesis using assms(1) by simp
qed

lemma turn_not_tool: "is_tool_turn a \<Longrightarrow> \<not> is_tool a"
  by (auto simp: is_tool_turn_def is_tool_def)

lemma repaired_surplus:
  assumes "repaired (h @ a # answers)" "is_tool_turn a" "list_all is_tool answers" "list_all is_tool surplus"
  shows "repaired (h @ a # answers @ surplus)"
  using assms(1)
proof cases
  case nothing then show ?thesis by simp
next
  case (plain k msg)
  then have "h @ a # answers = k @ [msg]" by simp
  then have "a = msg \<or> msg \<in> set answers" by (cases answers rule: rev_cases) auto
  then show ?thesis using plain assms(2,3) by (auto simp: list_all_iff)
next
  case (turn k b as ex)
  then have "h = k" "a = b" "answers = as @ ex"
    using last_turn_unique[of h a answers k b "as @ ex"] assms(2,3) turn_not_tool by blast+
  then show ?thesis using turn assms(4) repaired.turn[of k b as "ex @ surplus"] by simp
qed

lemma after_tools: "list_all is_tool rs \<Longrightarrow> \<exists>q. after (Some p) rs = Some q"
  by (induction rs arbitrary: p) (auto simp: is_tool_def)

lemma answered_turn:
  assumes "accepted (h @ a # answers)" "is_tool_turn a" "list_all is_tool answers"
  shows "after None (h @ a # answers) = Some []"
proof -
  have "after None (h @ a # answers) = after (Some (ids_called a)) answers"
    using assms(2) turn_not_tool[OF assms(2)] by (auto simp: after_append is_tool_turn_def)
  then show ?thesis using after_tools[OF assms(3), of "ids_called a"] accepted_tidy[OF assms(1)] by auto
qed

section \<open>Properties\<close>

text \<open>
  C7: The repair gives a transcript a provider accepts: every call has exactly one result, directly after it,
  and there is no other result.  It is a projection, leaves exactly the accepted histories alone, drops
  nothing that was said, and adds nothing but placeholders for missing results.  This is for histories in which
  the ids of a turn are there and differ and no tool result comes after its turn has been answered.
\<close>

theorem sanitize_accepted:
  assumes "tidy None h"
  shows "accepted (sanitizeHistoryForProvider h) \<and> (accepted h = (sanitizeHistoryForProvider h = h))
    \<and> sanitizeHistoryForProvider (sanitizeHistoryForProvider h) = sanitizeHistoryForProvider h
    \<and> filter says (sanitizeHistoryForProvider h) = filter says h
    \<and> subseq (filter real (sanitizeHistoryForProvider h)) h"
proof -
  have a: "accepted (sanitizeHistoryForProvider h)" by (rule sanitize_accepts[OF assms])
  then show ?thesis
    using accepted_repaired repaired_fixed sanitize_repaired[of h] san_fold_says[of h san_start] san_fold_real[of h san_start]
    by (auto simp: sanitizeHistoryForProvider_def) metis+
qed

text \<open>
  The repair drops nothing that was said: the messages that are neither system messages nor part
  of a tool turn all stay, in order, and whatever it adds is a placeholder for a missing result.
\<close>

theorem sanitize_keeps_conversation:
  "filter says (sanitizeHistoryForProvider h) = filter says h \<and>
   subseq (filter real (sanitizeHistoryForProvider h)) h"
  using san_fold_says[of h san_start] san_fold_real[of h san_start]
  by (simp add: sanitizeHistoryForProvider_def)

text \<open>
  Every request a session makes begins with its one system message and continues with a
  transcript a provider accepts (when the stored history is tidy), whatever is pruned.
\<close>

theorem request_wellformed:
  assumes "tidy None h"
  shows "role (hd (BuildMessagesForSession st pp h summary msg med)) = ''system'' \<and>
   content (hd (BuildMessagesForSession st pp h summary msg med)) = system_prompt pp summary \<and>
   accepted (tl (BuildMessagesForSession st pp h summary msg med)) \<and>
   list_all (\<lambda>m. role m \<noteq> ''system'') (tl (BuildMessagesForSession st pp h summary msg med)) \<and>
   (if TrimSpace msg = [] then True
    else last (BuildMessagesForSession st pp h summary msg med) = buildUserInputMessage msg med)"
proof -
  let ?s = "sanitizeHistoryForProvider (pruneHistoryForContext st (sanitizeHistoryForProvider h) (system_prompt pp summary))"
  have "accepted ?s" by (rule request_history_accepted[OF assms])
  then have t: "accepted (?s @ (if TrimSpace msg \<noteq> [] then [buildUserInputMessage msg med] else []))"
    using accepted.said[of ?s] user_message_plain by (auto simp: speaks_def)
  then show ?thesis using repaired_no_system[OF accepted_repaired[OF t]] by (simp add: build_messages_eq list_all_iff)
qed

text \<open>
  Once every call of a turn is answered the code takes any further tool result for an answer: a duplicate or
  an orphan at that place is not dropped, and the request is one that providers refuse.
\<close>

theorem surplus_results_kept:
  assumes "accepted (h @ a # answers)" "is_tool_turn a" "list_all is_tool answers" "list_all is_tool surplus" "surplus \<noteq> []"
  shows "sanitizeHistoryForProvider (h @ a # answers @ surplus) = h @ a # answers @ surplus
    \<and> \<not> accepted (h @ a # answers @ surplus)"
proof -
  have o: "after None (h @ a # answers) = Some []" using answered_turn[OF assms(1-3)] .
  have "\<not> tidy None ((h @ a # answers) @ surplus)"
    unfolding tidy_append o using assms(4,5) by (cases surplus) (auto simp: is_tool_def)
  then have "\<not> accepted ((h @ a # answers) @ surplus)" using accepted_tidy by blast
  moreover have "sanitizeHistoryForProvider ((h @ a # answers) @ surplus) = (h @ a # answers) @ surplus"
    using repaired_fixed[OF repaired_surplus[OF accepted_repaired[OF assms(1)] assms(2-4)]] by simp
  ultimately show ?thesis by simp
qed

text \<open>
  Without the condensation of acknowledgements, pruning keeps every message at its place and
  changes only the text of tool results before the last eight messages; tool turns stay intact.
\<close>

theorem pruning_keeps_turns:
  assumes "\<not> cs_chit_chat st"
  shows "list_all2 same_shape h (pruneHistoryForContext st h sp) \<and>
    list_all2 (\<lambda>a b. is_tool a \<or> b = a) h (pruneHistoryForContext st h sp) \<and>
    drop (length h - 8) (pruneHistoryForContext st h sp) = drop (length h - 8) h \<and>
    (repaired h \<longrightarrow> repaired (pruneHistoryForContext st h sp))"
  using prune_keeps_shape[OF assms, of h sp] repaired_shape by (auto simp: keeps_shape_def)

definition ex_say :: "string \<Rightarrow> string \<Rightarrow> message" where
  "ex_say r c = \<lparr>role = r, content = c, media = None, reasoning = [], system_parts = None, tool_calls = None,
     tool_call_id = []\<rparr>"

definition ex_calls :: "string list \<Rightarrow> message" where
  "ex_calls is = (ex_say ''assistant'' [])\<lparr>tool_calls := Some (map (\<lambda>i. \<lparr>tc_id = i, tc_type = ''function'',
     tc_function = None, tc_name = ''exec'', tc_arguments = None, tc_signature = [], tc_extra = None\<rparr>) is)\<rparr>"

definition ex_result :: "string \<Rightarrow> string \<Rightarrow> message" where
  "ex_result i c = (ex_say ''tool'' c)\<lparr>tool_call_id := i\<rparr>"

definition ex_settings :: "bool \<Rightarrow> context_settings" where
  "ex_settings chit = \<lparr>cs_window = 10, cs_pruning_mode = ''tools_only'', cs_chit_chat = chit, cs_soft_chars = 2000,
     cs_hard_chars = 1, cs_trigger = 1/10\<rparr>"

definition ex_history :: "message list" where
  "ex_history = [ex_say ''user'' ''go'', ex_calls [''1''], ex_result ''1'' ''done''] @ replicate 8 (ex_say ''user'' ''next'')"

text \<open>A result nobody asked for, a turn of which one call is answered, and an interruption.\<close>

definition ex_broken :: "message list" where
  "ex_broken = [ex_result ''0'' ''lost'', ex_say ''user'' ''go'', ex_calls [''1'', ''2''], ex_result ''2'' ''done'',
     ex_result ''2'' ''again'', ex_say ''user'' ''next'']"

lemmas ex_defs = ex_say_def ex_calls_def ex_result_def ex_settings_def ex_history_def

theorem sanitize_accepted_witness:
  "accepted (sanitizeHistoryForProvider ex_broken) \<and> sanitizeHistoryForProvider ex_broken =
     [ex_say ''user'' ''go'', ex_calls [''1'', ''2''], ex_result ''2'' ''done'', placeholder ''1'', ex_say ''user'' ''next'']"
proof -
  have "tidy None ex_broken" "sanitizeHistoryForProvider ex_broken =
     [ex_say ''user'' ''go'', ex_calls [''1'', ''2''], ex_result ''2'' ''done'', placeholder ''1'', ex_say ''user'' ''next'']"
    by code_simp+
  with sanitize_accepted[of ex_broken] show ?thesis by simp
qed

theorem request_wellformed_witness:
  "accepted (tl (BuildMessagesForSession (ex_settings True) pp ex_broken summary ''and now'' []))"
proof -
  have "tidy None ex_broken" by code_simp
  then show ?thesis by (simp add: request_wellformed)
qed

theorem surplus_results_kept_witness:
  "sanitizeHistoryForProvider [ex_say ''user'' ''go'', ex_calls [''1''], ex_result ''1'' ''done'', ex_result ''1'' ''again'']
     = [ex_say ''user'' ''go'', ex_calls [''1''], ex_result ''1'' ''done'', ex_result ''1'' ''again'']"
proof -
  have "accepted (([] @ [ex_say ''user'' ''go'']) @ ex_calls [''1''] # [ex_result ''1'' ''done''])"
    by (rule accepted.turn, rule accepted.said[OF accepted.nothing])
      (simp_all add: ex_defs speaks_def is_tool_turn_def is_tool_def calls_def good_ids_def)
  then show ?thesis
    using surplus_results_kept[of "[ex_say ''user'' ''go'']" "ex_calls [''1'']" "[ex_result ''1'' ''done'']" "[ex_result ''1'' ''again'']"]
    by (simp add: ex_defs is_tool_turn_def is_tool_def calls_def)
qed

theorem pruning_keeps_turns_witness:
  "list_all2 same_shape ex_history (pruneHistoryForContext (ex_settings False) ex_history []) \<and>
   drop (length ex_history - 8) (pruneHistoryForContext (ex_settings False) ex_history []) = drop (length ex_history - 8) ex_history"
  using pruning_keeps_turns[of "ex_settings False" ex_history "[]"] by (simp add: ex_settings_def)

text \<open>
  A pruned history either fits below the trigger or has no long tool result left in its first
  messages, those before the protected tail.
\<close>

theorem pruning_exhausts:
  assumes "cs_pruning_mode st \<noteq> ''off''" "0 < cs_window st" "0 < cs_hard_chars st" "8 < length h"
  shows "load_ratio st sp (pruneHistoryForContext st h sp) < cs_trigger st \<or>
    list_all (shortened st) (take (length h - 8) (pruneHistoryForContext st h sp))"
  by (rule prune_effect[OF assms])

theorem pruning_exhausts_witness:
  "load_ratio (ex_settings True) [] (pruneHistoryForContext (ex_settings True) ex_history []) < 1/10 \<or>
   list_all (shortened (ex_settings True)) (take 3 (pruneHistoryForContext (ex_settings True) ex_history []))"
  using pruning_exhausts[of "ex_settings True" ex_history "[]"] by (simp add: ex_defs)

text \<open>
  The condensation of two or more acknowledgements in front of a tool turn makes the repair drop
  the whole turn, its calls and its results: the note stands as an assistant message before it.
\<close>

theorem condensation_drops_tool_turn:
  assumes "is_tool_turn a" "list_all is_tool rs" "list_all isLowSignal acks" "2 \<le> length acks"
    "pre = [] \<or> \<not> isLowSignal (last pre)" "length (pre @ acks) \<le> c"
  shows "sanitizeHistoryForProvider (compactOldChitChat (pre @ acks @ (a # rs) @ rest) (int c)) =
    sanitizeHistoryForProvider (condense_runs pre @ history_note (length acks) #
      compactOldChitChat rest (int c - int (length (pre @ acks @ (a # rs)))))"
  using compact_split[OF turn_not_low[OF assms(1,2)] assms(3-5) _ assms(6), of rest]
    turn_after_note_dropped[OF assms(1,2), of "condense_runs pre" "length acks"]
  by simp

lemma ex_low [simp]: "isLowSignal (ex_say ''assistant'' ''Got it'')" "isLowSignal (ex_say ''user'' ''ok'')"
    "isLowSignal (ex_say ''assistant'' ''ok'')" "isLowSignal (ex_say ''user'' ''thanks'')"
    "\<not> isLowSignal (ex_say ''user'' ''run it'')"
  by code_simp+

lemma ex_kinds [simp]: "is_tool_turn (ex_calls [''1''])" "is_tool (ex_result ''1'' c)" "\<not> is_tool (ex_calls is)"
    "\<not> is_tool (ex_say ''user'' c)"
  by (simp_all add: ex_defs is_tool_turn_def is_tool_def calls_def)

theorem condensation_drops_tool_turn_witness:
  "sanitizeHistoryForProvider (compactOldChitChat ([ex_say ''user'' ''run it''] @ [ex_say ''assistant'' ''Got it'', ex_say ''user'' ''ok'']
       @ (ex_calls [''1''] # [ex_result ''1'' ''done'']) @ [ex_say ''assistant'' ''It works'']) (int 3))
   = [ex_say ''user'' ''run it'', history_note 2, ex_say ''assistant'' ''It works'']"
proof -
  have "sanitizeHistoryForProvider (condense_runs [ex_say ''user'' ''run it''] @ history_note 2 #
      compactOldChitChat [ex_say ''assistant'' ''It works''] (int 3 - int 5))
    = [ex_say ''user'' ''run it'', history_note 2, ex_say ''assistant'' ''It works'']" by code_simp
  then show ?thesis
    using condensation_drops_tool_turn[of "ex_calls [''1'']" "[ex_result ''1'' ''done'']"
        "[ex_say ''assistant'' ''Got it'', ex_say ''user'' ''ok'']" "[ex_say ''user'' ''run it'']" 3 "[ex_say ''assistant'' ''It works'']"]
    by (simp add: numeral_2_eq_2 numeral_3_eq_3)
qed

text \<open>
  The second pass of pruning counts positions after the condensation has moved them: a tool
  result among the last eight messages, which pruning means to keep, is omitted.
\<close>

theorem recent_result_omitted:
  assumes "cs_pruning_mode st \<noteq> ''off''" "0 < cs_window st" "0 < cs_hard_chars st" "cs_chit_chat st"
    "list_all isLowSignal acks" "4 \<le> length acks" "length (q # a # r # later) = 8"
    "\<not> isLowSignal q" "\<not> is_tool q" "\<not> is_tool a" "is_tool r" "cs_hard_chars st < int (length (content r))"
    "cs_trigger st \<le> load_ratio st sp (acks @ q # a # r # later)"
    "cs_trigger st \<le> load_ratio st sp (history_note (length acks) # q # a # r # later)"
  shows "pruneHistoryForContext st (acks @ q # a # r # later) sp ! 3 = r\<lparr>content := omitted_text\<rparr>"
proof -
  let ?h = "acks @ q # a # r # later" and ?p = "history_note (length acks) # q # a # r # later"
  have c: "nat (int (length ?h) - 8) = length acks" "\<not> int (length ?h) - 8 \<le> 0" "int (length ?h) - 8 = int (length acks)"
    using assms(6,7) by auto
  have s: "map (soften st) acks = acks" using assms(5) by (intro map_idI soften_not_tool) (auto simp: list_all_iff dest: low_not_tool)
  have "compactOldChitChat ?h (int (length acks)) = ?p"
  proof -
    have "condense_runs acks = [history_note (length acks)]" using condense_runs_run[of acks "[]"] assms(5,6) by simp
    moreover have "acks \<noteq> []" using assms(6) by auto
    ultimately show ?thesis by (simp add: compactOldChitChat_def)
  qed
  then have "pruneHistoryForContext st ?h sp = hard_pass st sp [0..<min (length acks) (length ?p)] ?p"
    unfolding pruneHistoryForContext_def Let_def using assms(1-4,13,14) c s by auto
  moreover have "[0..<min (length acks) (length ?p)] = 0 # 1 # 2 # 3 # [4..<min (length acks) (length ?p)]"
    using assms(6,7) by (intro upt_four) simp
  moreover have "hard_pass st sp (0 # 1 # 2 # 3 # is) ?p ! 3 = r\<lparr>content := omitted_text\<rparr>"
    if "3 \<notin> set is" for "is"
    using assms(9-14) hard_pass_same[of 3 "is" "?p[3 := r\<lparr>content := omitted_text\<rparr>]" st sp] that
    by (simp add: is_tool_def not_less)
  ultimately show ?thesis by simp
qed

definition ex_acks :: "message list" where
  "ex_acks = [ex_say ''user'' ''ok'', ex_say ''assistant'' ''ok'', ex_say ''user'' ''thanks'', ex_say ''assistant'' ''ok'']"

theorem recent_result_omitted_witness:
  "pruneHistoryForContext (ex_settings True) (ex_acks @ ex_say ''user'' ''go on'' # ex_calls [''1''] # ex_result ''1'' ''done''
      # replicate 5 (ex_say ''user'' ''next'')) [] ! 3 = (ex_result ''1'' ''done'')\<lparr>content := omitted_text\<rparr>"
proof -
  let ?tail = "ex_say ''user'' ''go on'' # ex_calls [''1''] # ex_result ''1'' ''done'' # replicate 5 (ex_say ''user'' ''next'')"
  have t: "cs_trigger (ex_settings True) \<le> load_ratio (ex_settings True) [] (ex_acks @ ?tail)"
    "cs_trigger (ex_settings True) \<le> load_ratio (ex_settings True) [] (history_note (length ex_acks) # ?tail)"
    "\<not> isLowSignal (ex_say ''user'' ''go on'')" by code_simp+
  show ?thesis
    by (rule recent_result_omitted) (use t in \<open>simp_all add: ex_acks_def\<close>, simp_all add: ex_defs)
qed

end
