(* ===== verification/Routing.thy ===== *)
theory Routing
  imports Prelude
begin

text \<open>
  Identifiers, session keys and agent routing: \<^verbatim>\<open>internal/core/routing/agent_id.go\<close>,
  \<^verbatim>\<open>internal/core/routing/session_key.go\<close>, \<^verbatim>\<open>pkg/routing/route.go\<close>, \<^verbatim>\<open>pkg/utils/session_key.go\<close>
  and the binding types of \<^verbatim>\<open>pkg/config/config_agents.go\<close>.  The four regular expressions of
  \<^verbatim>\<open>agent_id.go\<close> are written as the list functions they denote: a full match (\<open>valid_id\<close>), the
  replacement of each maximal run of foreign bytes by a dash (\<open>collapse_invalid\<close>) and the two strips of
  dashes.  An absent pointer is \<open>None\<close>; the bindings and the agents of the configuration are lists, as
  in the source, and the first match wins.
\<close>

section \<open>Identifiers\<close>

definition DefaultAgentID :: string where "DefaultAgentID = ''main''"
definition DefaultMainKey :: string where "DefaultMainKey = ''main''"
definition DefaultAccountID :: string where "DefaultAccountID = ''default''"
definition MaxAgentIDLength :: nat where "MaxAgentIDLength = 64"

definition id_start :: "char \<Rightarrow> bool" where
  "id_start c \<longleftrightarrow> is_lower c \<or> is_digit c"

definition id_char :: "char \<Rightarrow> bool" where
  "id_char c \<longleftrightarrow> is_lower c \<or> is_digit c \<or> c = CHR ''_'' \<or> c = CHR ''-''"

definition is_dash :: "char \<Rightarrow> bool" where
  "is_dash c \<longleftrightarrow> c = CHR ''-''"

definition valid_id :: "string \<Rightarrow> bool" where
  "valid_id s \<longleftrightarrow> s \<noteq> [] \<and> id_start (hd s) \<and> list_all id_char (tl s) \<and> length s \<le> 64"

lemma dropWhile_shorter: "length (dropWhile p s) < Suc (length s)"
  by (simp add: length_dropWhile_le le_imp_less_Suc)

function collapse_invalid :: "string \<Rightarrow> string" where
  "collapse_invalid [] = []"
| "collapse_invalid (c # s) =
     (if id_char c then c # collapse_invalid s
      else CHR ''-'' # collapse_invalid (dropWhile (\<lambda>d. \<not> id_char d) s))"
  by pat_completeness auto
termination
  by (relation "measure length") (auto simp: dropWhile_shorter)

definition normalize_id :: "string \<Rightarrow> string \<Rightarrow> string" where
  "normalize_id dflt s =
     (let trimmed = TrimSpace s in
      if trimmed = [] then dflt
      else
        let lower = ToLower trimmed in
        if valid_id lower then lower
        else
          let r1 = collapse_invalid lower;
              r2 = TrimLeft is_dash r1;
              r3 = TrimRight is_dash r2;
              r4 = (if length r3 > MaxAgentIDLength then take MaxAgentIDLength r3 else r3)
          in if r4 = [] then dflt else r4)"

definition NormalizeAgentID :: "string \<Rightarrow> string" where
  "NormalizeAgentID s = normalize_id DefaultAgentID s"

definition NormalizeAccountID :: "string \<Rightarrow> string" where
  "NormalizeAccountID s = normalize_id DefaultAccountID s"

definition CanonicalSessionKey :: "string \<Rightarrow> string" where
  "CanonicalSessionKey key = ToLower (TrimSpace key)"

section \<open>Session keys\<close>

record route_peer =
  rp_kind :: string
  rp_id :: string

definition DMScopeMain :: string where "DMScopeMain = ''main''"
definition DMScopePerPeer :: string where "DMScopePerPeer = ''per-peer''"
definition DMScopePerChannelPeer :: string where "DMScopePerChannelPeer = ''per-channel-peer''"
definition DMScopePerAccountChannelPeer :: string where
  "DMScopePerAccountChannelPeer = ''per-account-channel-peer''"

type_synonym identity_links = "(string \<times> string list) list"

record session_key_params =
  skp_agent :: string
  skp_channel :: string
  skp_account :: string
  skp_peer :: "route_peer option"
  skp_thread :: string
  skp_dm_scope :: string
  skp_links :: identity_links

record parsed_session_key =
  psk_agent :: string
  psk_rest :: string

definition BuildAgentMainSessionKey :: "string \<Rightarrow> string" where
  "BuildAgentMainSessionKey agent = ''agent:'' @ NormalizeAgentID agent @ '':'' @ DefaultMainKey"

definition BuildConversationMainSessionKey :: string where
  "BuildConversationMainSessionKey = ''conv:'' @ DefaultMainKey"

definition normalizeChannel :: "string \<Rightarrow> string" where
  "normalizeChannel channel =
     (let c = TrimSpace (ToLower channel) in if c = [] then ''unknown'' else c)"

definition link_candidates :: "string \<Rightarrow> string \<Rightarrow> string list" where
  "link_candidates channel peerID =
     (let raw = ToLower peerID;
          c = ToLower (TrimSpace channel)
      in [raw]
         @ (if c = [] then [] else [c @ '':'' @ ToLower peerID])
         @ (case IndexByte raw CHR '':'' of
              Some idx \<Rightarrow> (if idx > 0 \<and> idx < length raw - 1 then [drop (Suc idx) raw] else [])
            | None \<Rightarrow> []))"

definition link_matches :: "string list \<Rightarrow> string \<Rightarrow> bool" where
  "link_matches candidates i =
     (let n = ToLower (TrimSpace i) in n \<noteq> [] \<and> n \<in> set candidates)"

fun find_link :: "string list \<Rightarrow> identity_links \<Rightarrow> string" where
  "find_link candidates [] = []"
| "find_link candidates ((canonical, ids) # links) =
     (let name = TrimSpace canonical in
      if name = [] then find_link candidates links
      else if list_ex (link_matches candidates) ids then name
      else find_link candidates links)"

definition resolveLinkedPeerID :: "identity_links \<Rightarrow> string \<Rightarrow> string \<Rightarrow> string" where
  "resolveLinkedPeerID links channel peer =
     (if links = [] then []
      else
        let peerID = TrimSpace peer in
        if peerID = [] then [] else find_link (link_candidates channel peerID) links)"

text \<open>The peer of a key: an absent peer or a blank kind is a direct chat.\<close>

definition peer_kind_of :: "route_peer option \<Rightarrow> string" where
  "peer_kind_of p =
     (let k = (case p of None \<Rightarrow> ''direct'' | Some q \<Rightarrow> TrimSpace (rp_kind q))
      in if k = [] then ''direct'' else k)"

definition peer_id_of :: "route_peer option \<Rightarrow> string" where
  "peer_id_of p = (case p of None \<Rightarrow> [] | Some q \<Rightarrow> rp_id q)"

definition effective_dm_scope :: "session_key_params \<Rightarrow> string" where
  "effective_dm_scope ps = (if skp_dm_scope ps = [] then DMScopeMain else skp_dm_scope ps)"

definition direct_peer_id :: "session_key_params \<Rightarrow> string \<Rightarrow> string" where
  "direct_peer_id ps scope =
     (let peerID = TrimSpace (peer_id_of (skp_peer ps));
          linked = (if scope \<noteq> DMScopeMain \<and> peerID \<noteq> []
                    then resolveLinkedPeerID (skp_links ps) (skp_channel ps) peerID else [])
      in ToLower (if linked \<noteq> [] then linked else peerID))"

definition thread_suffix :: "string \<Rightarrow> string" where
  "thread_suffix t = (let threadID = ToLower (TrimSpace t)
                      in if threadID \<noteq> [] then '':thread:'' @ threadID else [])"

definition group_peer_id :: "session_key_params \<Rightarrow> string" where
  "group_peer_id ps = (let i = ToLower (TrimSpace (peer_id_of (skp_peer ps)))
                       in if i = [] then ''unknown'' else i)"

definition BuildAgentPeerSessionKey :: "session_key_params \<Rightarrow> string" where
  "BuildAgentPeerSessionKey ps =
     (let agentID = NormalizeAgentID (skp_agent ps);
          peerKind = peer_kind_of (skp_peer ps) in
      if peerKind = ''direct'' then
        let dmScope = effective_dm_scope ps;
            peerID = direct_peer_id ps dmScope in
        if dmScope = DMScopePerAccountChannelPeer \<and> peerID \<noteq> [] then
          ''agent:'' @ agentID @ '':'' @ normalizeChannel (skp_channel ps) @ '':''
            @ NormalizeAccountID (skp_account ps) @ '':direct:'' @ peerID
        else if dmScope = DMScopePerChannelPeer \<and> peerID \<noteq> [] then
          ''agent:'' @ agentID @ '':'' @ normalizeChannel (skp_channel ps) @ '':direct:'' @ peerID
        else if dmScope = DMScopePerPeer \<and> peerID \<noteq> [] then
          ''agent:'' @ agentID @ '':direct:'' @ peerID
        else BuildAgentMainSessionKey agentID
      else
        ''agent:'' @ agentID @ '':'' @ normalizeChannel (skp_channel ps) @ '':'' @ peerKind @ '':''
          @ group_peer_id ps @ thread_suffix (skp_thread ps))"

definition BuildConversationPeerSessionKey :: "session_key_params \<Rightarrow> string" where
  "BuildConversationPeerSessionKey ps =
     (let peerKind = peer_kind_of (skp_peer ps) in
      if peerKind = ''direct'' then
        let dmScope = effective_dm_scope ps;
            peerID = direct_peer_id ps dmScope in
        if dmScope = DMScopePerAccountChannelPeer \<and> peerID \<noteq> [] then
          ''conv:'' @ normalizeChannel (skp_channel ps) @ '':''
            @ NormalizeAccountID (skp_account ps) @ '':direct:'' @ peerID
        else if dmScope = DMScopePerChannelPeer \<and> peerID \<noteq> [] then
          ''conv:'' @ normalizeChannel (skp_channel ps) @ '':direct:'' @ peerID
        else if dmScope = DMScopePerPeer \<and> peerID \<noteq> [] then
          ''conv:direct:'' @ peerID
        else BuildConversationMainSessionKey
      else
        ''conv:'' @ normalizeChannel (skp_channel ps) @ '':'' @ peerKind @ '':''
          @ group_peer_id ps @ thread_suffix (skp_thread ps))"

definition ParseAgentSessionKey :: "string \<Rightarrow> parsed_session_key option" where
  "ParseAgentSessionKey sessionKey =
     (let raw = ToLower (TrimSpace sessionKey) in
      if raw = [] then None
      else case SplitN 3 raw CHR '':'' of
             [p0, p1, rest] \<Rightarrow>
               (if p0 \<noteq> ''agent'' then None
                else let agentID = TrimSpace p1 in
                  if agentID = [] \<or> rest = [] then None
                  else Some \<lparr>psk_agent = agentID, psk_rest = rest\<rparr>)
           | _ \<Rightarrow> None)"

section \<open>Agent bindings and route resolution\<close>

record binding_match =
  bm_channel :: string
  bm_account :: string
  bm_peer :: "route_peer option"
  bm_thread :: string
  bm_guild :: string
  bm_team :: string

record agent_binding =
  ab_agent :: string
  ab_match :: binding_match

record agent_config =
  ac_id :: string
  ac_default :: bool

record route_config =
  rc_bindings :: "agent_binding list"
  rc_agents :: "agent_config list"
  rc_dm_scope :: string
  rc_links :: identity_links

record route_input =
  ri_channel :: string
  ri_account :: string
  ri_peer :: "route_peer option"
  ri_parent :: "route_peer option"
  ri_thread :: string
  ri_guild :: string
  ri_team :: string

record resolved_route =
  rr_agent :: string
  rr_channel :: string
  rr_account :: string
  rr_session_key :: string
  rr_main_key :: string
  rr_matched_by :: string

definition matchesAccountID :: "string \<Rightarrow> string \<Rightarrow> bool" where
  "matchesAccountID matchID actual =
     (let trimmed = TrimSpace matchID in
      if trimmed = [] then actual = DefaultAccountID
      else if trimmed = ''*'' then True
      else ToLower trimmed = ToLower actual)"

definition binding_applies :: "string \<Rightarrow> string \<Rightarrow> agent_binding \<Rightarrow> bool" where
  "binding_applies channel accountID b =
     (let matchChannel = ToLower (TrimSpace (bm_channel (ab_match b))) in
      matchChannel \<noteq> [] \<and> matchChannel = channel \<and> matchesAccountID (bm_account (ab_match b)) accountID)"

definition filterBindings :: "route_config \<Rightarrow> string \<Rightarrow> string \<Rightarrow> agent_binding list" where
  "filterBindings cfg channel accountID = filter (binding_applies channel accountID) (rc_bindings cfg)"

definition matchesPeer :: "string \<Rightarrow> string \<Rightarrow> agent_binding \<Rightarrow> bool" where
  "matchesPeer actualKind actualID b =
     (case bm_peer (ab_match b) of
        None \<Rightarrow> False
      | Some p \<Rightarrow>
          let peerKind = ToLower (TrimSpace (rp_kind p));
              peerID = TrimSpace (rp_id p) in
          peerKind \<noteq> [] \<and> peerID \<noteq> [] \<and> peerKind = actualKind \<and> peerID = actualID)"

definition first_some :: "'a option \<Rightarrow> 'a option \<Rightarrow> 'a option" where
  "first_some x y = (case x of None \<Rightarrow> y | Some v \<Rightarrow> Some v)"

definition findPeerMatch :: "agent_binding list \<Rightarrow> route_peer \<Rightarrow> string \<Rightarrow> agent_binding option" where
  "findPeerMatch bs peer thread =
     (let actualKind = ToLower (TrimSpace (rp_kind peer));
          actualID = TrimSpace (rp_id peer);
          threadID = ToLower (TrimSpace thread);
          mp = matchesPeer actualKind actualID in
      if actualKind = [] \<or> actualID = [] then None
      else
        first_some
          (if threadID \<noteq> [] then
             first_some
               (find (\<lambda>b. mp b \<and> ToLower (TrimSpace (bm_thread (ab_match b))) = threadID) bs)
               (find (\<lambda>b. mp b \<and> TrimSpace (bm_thread (ab_match b)) = ''*'') bs)
           else None)
          (find (\<lambda>b. mp b \<and> TrimSpace (bm_thread (ab_match b)) = []) bs))"

definition findGuildMatch :: "agent_binding list \<Rightarrow> string \<Rightarrow> agent_binding option" where
  "findGuildMatch bs guildID =
     find (\<lambda>b. let g = TrimSpace (bm_guild (ab_match b)) in g \<noteq> [] \<and> g = guildID) bs"

definition findTeamMatch :: "agent_binding list \<Rightarrow> string \<Rightarrow> agent_binding option" where
  "findTeamMatch bs teamID =
     find (\<lambda>b. let t = TrimSpace (bm_team (ab_match b)) in t \<noteq> [] \<and> t = teamID) bs"

definition unscoped :: "agent_binding \<Rightarrow> bool" where
  "unscoped b \<longleftrightarrow> bm_peer (ab_match b) = None \<and> bm_guild (ab_match b) = [] \<and> bm_team (ab_match b) = []"

definition findAccountMatch :: "agent_binding list \<Rightarrow> agent_binding option" where
  "findAccountMatch bs = find (\<lambda>b. TrimSpace (bm_account (ab_match b)) \<noteq> ''*'' \<and> unscoped b) bs"

definition findChannelWildcardMatch :: "agent_binding list \<Rightarrow> agent_binding option" where
  "findChannelWildcardMatch bs = find (\<lambda>b. TrimSpace (bm_account (ab_match b)) = ''*'' \<and> unscoped b) bs"

definition resolveDefaultAgentID :: "route_config \<Rightarrow> string" where
  "resolveDefaultAgentID cfg =
     (case rc_agents cfg of
        [] \<Rightarrow> DefaultAgentID
      | a0 # _ \<Rightarrow>
          (case find (\<lambda>a. ac_default a \<and> TrimSpace (ac_id a) \<noteq> []) (rc_agents cfg) of
             Some a \<Rightarrow> NormalizeAgentID (TrimSpace (ac_id a))
           | None \<Rightarrow>
               (let i = TrimSpace (ac_id a0) in if i \<noteq> [] then NormalizeAgentID i else DefaultAgentID)))"

definition pickAgentID :: "route_config \<Rightarrow> string \<Rightarrow> string" where
  "pickAgentID cfg agentID =
     (let trimmed = TrimSpace agentID in
      if trimmed = [] then NormalizeAgentID (resolveDefaultAgentID cfg)
      else
        let normalized = NormalizeAgentID trimmed in
        if rc_agents cfg = [] then normalized
        else if list_ex (\<lambda>a. NormalizeAgentID (ac_id a) = normalized) (rc_agents cfg) then normalized
        else NormalizeAgentID (resolveDefaultAgentID cfg))"

definition choose_route ::
  "route_config \<Rightarrow> route_input \<Rightarrow> string \<Rightarrow> string \<Rightarrow> resolved_route" where
  "choose_route cfg inp agentID matchedBy =
     (let channel = ToLower (TrimSpace (ri_channel inp));
          accountID = NormalizeAccountID (ri_account inp);
          dmScope = (if rc_dm_scope cfg = [] then DMScopeMain else rc_dm_scope cfg);
          resolved = pickAgentID cfg agentID
      in \<lparr>rr_agent = resolved,
          rr_channel = channel,
          rr_account = accountID,
          rr_session_key = CanonicalSessionKey (BuildAgentPeerSessionKey
             \<lparr>skp_agent = resolved, skp_channel = channel, skp_account = accountID,
              skp_peer = ri_peer inp, skp_thread = TrimSpace (ri_thread inp),
              skp_dm_scope = dmScope, skp_links = rc_links cfg\<rparr>),
          rr_main_key = CanonicalSessionKey (BuildAgentMainSessionKey resolved),
          rr_matched_by = matchedBy\<rparr>)"

text \<open>The peer lookups of the first two priorities: a peer counts when its trimmed id is not empty.\<close>

definition peer_lookup :: "agent_binding list \<Rightarrow> route_peer option \<Rightarrow> string \<Rightarrow> agent_binding option" where
  "peer_lookup bs p thread =
     (case p of
        None \<Rightarrow> None
      | Some q \<Rightarrow> (if TrimSpace (rp_id q) \<noteq> [] then findPeerMatch bs q thread else None))"

definition ResolveRoute :: "route_config \<Rightarrow> route_input \<Rightarrow> resolved_route" where
  "ResolveRoute cfg inp =
     (let channel = ToLower (TrimSpace (ri_channel inp));
          accountID = NormalizeAccountID (ri_account inp);
          threadID = TrimSpace (ri_thread inp);
          bs = filterBindings cfg channel accountID;
          guildID = TrimSpace (ri_guild inp);
          teamID = TrimSpace (ri_team inp)
      in case peer_lookup bs (ri_peer inp) threadID of
           Some b \<Rightarrow> choose_route cfg inp (ab_agent b) ''binding.peer''
         | None \<Rightarrow>
        (case peer_lookup bs (ri_parent inp) threadID of
           Some b \<Rightarrow> choose_route cfg inp (ab_agent b) ''binding.peer.parent''
         | None \<Rightarrow>
        (case (if guildID \<noteq> [] then findGuildMatch bs guildID else None) of
           Some b \<Rightarrow> choose_route cfg inp (ab_agent b) ''binding.guild''
         | None \<Rightarrow>
        (case (if teamID \<noteq> [] then findTeamMatch bs teamID else None) of
           Some b \<Rightarrow> choose_route cfg inp (ab_agent b) ''binding.team''
         | None \<Rightarrow>
        (case findAccountMatch bs of
           Some b \<Rightarrow> choose_route cfg inp (ab_agent b) ''binding.account''
         | None \<Rightarrow>
        (case findChannelWildcardMatch bs of
           Some b \<Rightarrow> choose_route cfg inp (ab_agent b) ''binding.channel''
         | None \<Rightarrow> choose_route cfg inp (resolveDefaultAgentID cfg) ''default''))))))"


section \<open>Lemmas: identifiers\<close>

lemma id_char_not_colon: "id_char c \<Longrightarrow> c \<noteq> CHR '':''"
  by (auto simp: id_char_def is_lower_def is_digit_def byte_of_def)

lemma id_char_not_upper: "id_char c \<Longrightarrow> \<not> is_upper c"
  by (auto simp: id_char_def is_lower_def is_digit_def is_upper_def byte_of_def)

lemma id_char_not_space: "id_char c \<Longrightarrow> \<not> is_space c"
  by (auto simp: id_char_def is_lower_def is_digit_def is_space_def byte_of_def)

lemma id_start_char: "id_start c \<Longrightarrow> id_char c \<and> \<not> is_dash c"
  by (auto simp: id_char_def id_start_def is_dash_def is_lower_def is_digit_def byte_of_def)

lemma set_collapse_invalid: "set (collapse_invalid s) \<subseteq> Collect id_char"
  by (induction s rule: collapse_invalid.induct) (auto simp: id_char_def)

lemma length_collapse_invalid: "length (collapse_invalid s) \<le> length s"
proof (induction s rule: collapse_invalid.induct)
  case (2 c s)
  then show ?case
    using length_dropWhile_le [of "\<lambda>d. \<not> id_char d" s] by (auto intro: le_trans)
qed simp

text \<open>The shape every normalised identifier has.\<close>

definition id_shape :: "string \<Rightarrow> bool" where
  "id_shape s \<longleftrightarrow> s \<noteq> [] \<and> length s \<le> 64 \<and> list_all id_char s \<and> \<not> is_dash (hd s)"

lemma valid_id_shape: "valid_id s \<Longrightarrow> id_shape s"
  by (cases s) (auto simp: valid_id_def id_shape_def dest: id_start_char)

lemma set_TrimRight: "set (TrimRight p s) \<subseteq> set s"
  by (auto simp: TrimRight_def dest!: set_dropWhileD)

lemma id_shape_stripped:
  assumes "list_all id_char r" and "take 64 (TrimRight is_dash (TrimLeft is_dash r)) \<noteq> []"
  shows "id_shape (take 64 (TrimRight is_dash (TrimLeft is_dash r)))"
proof -
  let ?l = "TrimLeft is_dash r" and ?t = "TrimRight is_dash (TrimLeft is_dash r)"
  have t: "?t \<noteq> []" using assms(2) by auto
  then have "?l \<noteq> []" by (auto simp: TrimRight_def)
  then have "\<not> is_dash (hd ?l)" unfolding TrimLeft_def by (rule dropWhile_hd)
  moreover have "hd (take 64 ?t) = hd ?l" using t TrimRight_hd [OF t] by (simp add: hd_take)
  moreover have "set (take 64 ?t) \<subseteq> set r"
    using set_TrimRight [of is_dash ?l] set_take_subset [of 64 ?t] set_dropWhileD
    unfolding TrimLeft_def by fastforce
  ultimately show ?thesis
    using assms by (auto simp: id_shape_def list_all_iff)
qed

lemma normalize_id_shape:
  assumes "id_shape dflt"
  shows "id_shape (normalize_id dflt s)"
proof -
  have "list_all id_char (collapse_invalid t)" for t
    using set_collapse_invalid [of t] by (auto simp: list_all_iff)
  note stripped = id_shape_stripped [OF this, of "ToLower (TrimSpace s)"]
  have cut: "(if length r > 64 then take 64 r else r) = take 64 r" for r :: string by simp
  show ?thesis
    unfolding normalize_id_def Let_def MaxAgentIDLength_def cut
    using stripped assms by (simp add: valid_id_shape)
qed

lemma id_shape_defaults: "id_shape DefaultAgentID" "id_shape DefaultAccountID"
  by (simp_all add: id_shape_def DefaultAgentID_def DefaultAccountID_def id_char_def is_dash_def
      is_lower_def is_digit_def byte_of_def)

lemma id_shape_NormalizeAgentID [simp]: "id_shape (NormalizeAgentID s)"
  by (simp add: NormalizeAgentID_def normalize_id_shape id_shape_defaults)

lemma id_shape_NormalizeAccountID [simp]: "id_shape (NormalizeAccountID s)"
  by (simp add: NormalizeAccountID_def normalize_id_shape id_shape_defaults)

lemma id_shape_trimmed: "id_shape s \<Longrightarrow> TrimSpace s = s"
proof -
  assume s: "id_shape s"
  then have "id_char (hd s)" "id_char (last s)"
    by (auto simp: id_shape_def list_all_iff)
  then have "trimmed s" by (simp add: trimmed_def id_char_not_space)
  then show ?thesis by (rule TrimSpace_id)
qed

lemma id_shape_lower: "id_shape s \<Longrightarrow> ToLower s = s"
  by (auto simp: id_shape_def list_all_iff ToLower_def lower_char_def id_char_not_upper intro!: map_idI)

lemma id_shape_no_colon: "id_shape s \<Longrightarrow> CHR '':'' \<notin> set s"
  using id_char_not_colon by (auto simp: id_shape_def list_all_iff)

lemma valid_id_fixed: "valid_id s \<Longrightarrow> normalize_id dflt s = s"
  using valid_id_shape [of s] id_shape_trimmed [of s] id_shape_lower [of s]
  by (auto simp: normalize_id_def Let_def id_shape_def)

lemma id_shape_valid: "id_shape s \<Longrightarrow> id_start (hd s) \<Longrightarrow> valid_id s"
  by (cases s) (auto simp: id_shape_def valid_id_def)

lemma NormalizeAgentID_TrimSpace [simp]: "NormalizeAgentID (TrimSpace s) = NormalizeAgentID s"
  by (simp add: NormalizeAgentID_def normalize_id_def)

text \<open>
  A normalised agent id is never empty, has at most 64 bytes, all of them lower-case letters,
  digits, underscores or dashes, and does not begin with a dash; nothing is left for \<^verbatim>\<open>TrimSpace\<close> or
  \<^verbatim>\<open>ToLower\<close> to change, and it contains no colon, the separator of session keys.
\<close>

theorem NormalizeAgentID_wellformed:
  "NormalizeAgentID s \<noteq> [] \<and> length (NormalizeAgentID s) \<le> MaxAgentIDLength \<and>
   list_all id_char (NormalizeAgentID s) \<and> hd (NormalizeAgentID s) \<noteq> CHR ''-'' \<and>
   CanonicalSessionKey (NormalizeAgentID s) = NormalizeAgentID s \<and>
   CHR '':'' \<notin> set (NormalizeAgentID s)"
  using id_shape_NormalizeAgentID [of s] id_shape_trimmed id_shape_lower id_shape_no_colon
  by (auto simp: id_shape_def MaxAgentIDLength_def CanonicalSessionKey_def is_dash_def)

text \<open>
  Normalisation is idempotent on every input whose normalised id starts with a letter or a digit,
  and it is not idempotent in general: the id below keeps its leading underscore, is cut at 64 bytes
  right after a dash, and a second normalisation strips that dash.  So the doc comment's claim that
  the result always matches \<^verbatim>\<open>[a-z0-9][a-z0-9_-]{0,63}\<close> does not hold.
\<close>

theorem NormalizeAgentID_idempotent:
  "(id_start (hd (NormalizeAgentID s)) \<longrightarrow>
      valid_id (NormalizeAgentID s) \<and> NormalizeAgentID (NormalizeAgentID s) = NormalizeAgentID s) \<and>
   (let odd = ''_'' @ replicate 62 CHR ''a'' @ ''- b'' in
      \<not> valid_id (NormalizeAgentID odd) \<and>
      NormalizeAgentID (NormalizeAgentID odd) \<noteq> NormalizeAgentID odd)"
proof -
  have "id_start (hd (NormalizeAgentID s)) \<Longrightarrow> valid_id (NormalizeAgentID s)"
    by (simp add: id_shape_valid)
  moreover have "valid_id t \<Longrightarrow> NormalizeAgentID t = t" for t
    by (simp add: NormalizeAgentID_def valid_id_fixed)
  moreover have "let odd = ''_'' @ replicate 62 CHR ''a'' @ ''- b'' in
      \<not> valid_id (NormalizeAgentID odd) \<and> NormalizeAgentID (NormalizeAgentID odd) \<noteq> NormalizeAgentID odd"
    by code_simp
  ultimately show ?thesis by blast
qed

theorem NormalizeAgentID_idempotent_witness:
  "NormalizeAgentID (NormalizeAgentID '' Sales Bot '') = ''sales-bot''"
proof -
  have h: "NormalizeAgentID '' Sales Bot '' = ''sales-bot''" by code_simp
  have "id_start (hd (NormalizeAgentID '' Sales Bot ''))" by (simp add: h) code_simp
  then show ?thesis using NormalizeAgentID_idempotent [of "'' Sales Bot ''"] h by simp
qed


section \<open>Lemmas: session keys\<close>

lemma hd_last_not_space_trimmed: "s \<noteq> [] \<Longrightarrow> trimmed s \<Longrightarrow> \<not> is_space (hd s) \<and> \<not> is_space (last s)"
  by (simp add: trimmed_def)

lemma trimmed_ToLower [simp]: "trimmed (ToLower s) = trimmed s"
  by (cases "s = []") (auto simp: trimmed_def ToLower_def hd_map last_map)

lemma trimmed_append: "s \<noteq> [] \<Longrightarrow> \<not> is_space (hd s) \<Longrightarrow> t \<noteq> [] \<Longrightarrow> trimmed t \<Longrightarrow> trimmed (s @ t)"
  by (auto simp: trimmed_def)

lemma SplitN3:
  assumes "b \<notin> set p" and "b \<notin> set q"
  shows "SplitN 3 (p @ b # q @ b # r) b = [p, q, r]"
  using assms by (simp add: numeral_3_eq_3 IndexByte_append)

text \<open>Every agent key is the prefix \<^verbatim>\<open>agent:<id>:\<close> followed by a non-empty trimmed rest.\<close>

lemma trimmed_thread_suffix: "thread_suffix t \<noteq> [] \<Longrightarrow> \<not> is_space (last (thread_suffix t))"
  using trimmed_TrimSpace [of t]
  by (auto simp: thread_suffix_def Let_def trimmed_def ToLower_def last_map split: if_splits)

lemma trimmed_unknown: "trimmed ''unknown''"
  by (simp add: trimmed_def is_space_def byte_of_def)

lemma trimmed_group_peer_id: "group_peer_id ps \<noteq> [] \<and> trimmed (group_peer_id ps)"
  by (simp add: group_peer_id_def Let_def trimmed_unknown)

lemma trimmed_find_link: "trimmed (find_link cs links)"
  by (induction cs links rule: find_link.induct) (auto simp: Let_def trimmed_def [of "[]"])

lemma trimmed_direct_peer_id: "trimmed (direct_peer_id ps scope)"
  by (auto simp: direct_peer_id_def resolveLinkedPeerID_def Let_def trimmed_find_link)

lemma last_not_space_append: "t \<noteq> [] \<Longrightarrow> \<not> is_space (last t) \<Longrightarrow> \<not> is_space (last (s @ t))"
  by simp

definition good_rest :: "string \<Rightarrow> bool" where
  "good_rest rest \<longleftrightarrow> rest \<noteq> [] \<and> \<not> is_space (last rest)"

lemma good_rest_append: "good_rest t \<Longrightarrow> good_rest (s @ t)"
  by (simp add: good_rest_def)

lemma good_rest_Cons: "good_rest t \<Longrightarrow> good_rest (c # t)"
  by (simp add: good_rest_def)

lemma good_rest_trimmed: "s \<noteq> [] \<Longrightarrow> trimmed s \<Longrightarrow> good_rest s"
  by (simp add: good_rest_def trimmed_def)

lemma good_rest_main: "good_rest DefaultMainKey"
  by (simp add: good_rest_def DefaultMainKey_def is_space_def byte_of_def)

definition direct_rest :: "session_key_params \<Rightarrow> string" where
  "direct_rest ps =
     (let dmScope = effective_dm_scope ps;
          peerID = direct_peer_id ps dmScope in
      if dmScope = DMScopePerAccountChannelPeer \<and> peerID \<noteq> [] then
        normalizeChannel (skp_channel ps) @ '':'' @ NormalizeAccountID (skp_account ps) @ '':direct:'' @ peerID
      else if dmScope = DMScopePerChannelPeer \<and> peerID \<noteq> [] then
        normalizeChannel (skp_channel ps) @ '':direct:'' @ peerID
      else if dmScope = DMScopePerPeer \<and> peerID \<noteq> [] then ''direct:'' @ peerID
      else DefaultMainKey)"

definition group_rest :: "session_key_params \<Rightarrow> string" where
  "group_rest ps = normalizeChannel (skp_channel ps) @ '':'' @ peer_kind_of (skp_peer ps) @ '':''
     @ group_peer_id ps @ thread_suffix (skp_thread ps)"

definition key_rest :: "session_key_params \<Rightarrow> string" where
  "key_rest ps = (if peer_kind_of (skp_peer ps) = ''direct'' then direct_rest ps else group_rest ps)"

lemma good_direct_peer_id: "direct_peer_id ps scope \<noteq> [] \<Longrightarrow> good_rest (direct_peer_id ps scope)"
  by (simp add: good_rest_trimmed trimmed_direct_peer_id)

lemma good_direct_rest: "good_rest (direct_rest ps)"
  unfolding direct_rest_def Let_def
  by (auto simp only: split: if_split intro!: good_rest_append good_direct_peer_id good_rest_main)

lemma good_group_rest: "good_rest (group_rest ps)"
proof -
  have "good_rest (group_peer_id ps @ thread_suffix (skp_thread ps))"
    using trimmed_group_peer_id [of ps] trimmed_thread_suffix [of "skp_thread ps"]
    by (cases "thread_suffix (skp_thread ps) = []") (auto simp: trimmed_def good_rest_def)
  then have "good_rest ((normalizeChannel (skp_channel ps) @ '':'' @ peer_kind_of (skp_peer ps) @ '':'')
      @ (group_peer_id ps @ thread_suffix (skp_thread ps)))"
    by (rule good_rest_append)
  then show ?thesis by (simp add: group_rest_def)
qed

lemma good_key_rest: "good_rest (key_rest ps)"
  by (simp add: key_rest_def good_direct_rest good_group_rest)

lemma conv_direct_split: "''conv:direct:'' @ i = ''conv:'' @ ''direct:'' @ i"
  by simp

lemma BuildConversation_key_rest: "BuildConversationPeerSessionKey ps = ''conv:'' @ key_rest ps"
  unfolding BuildConversationPeerSessionKey_def Let_def key_rest_def direct_rest_def group_rest_def
    BuildConversationMainSessionKey_def conv_direct_split
  by (simp only: if_distrib [of "\<lambda>x. ''conv:'' @ x"])

lemma agent_direct_split: "'':direct:'' @ i = '':'' @ ''direct:'' @ i"
  by simp

lemma BuildAgent_key_rest:
  assumes "NormalizeAgentID (NormalizeAgentID (skp_agent ps)) = NormalizeAgentID (skp_agent ps)"
  shows "BuildAgentPeerSessionKey ps = ''agent:'' @ NormalizeAgentID (skp_agent ps) @ '':'' @ key_rest ps"
  unfolding BuildAgentPeerSessionKey_def Let_def key_rest_def direct_rest_def group_rest_def
    BuildAgentMainSessionKey_def assms
  by (simp only: if_distrib [of "\<lambda>x. ''agent:'' @ NormalizeAgentID (skp_agent ps) @ '':'' @ x"]
      agent_direct_split)

lemma SplitN3_agent_key:
  assumes "id_shape a"
  shows "SplitN 3 (ToLower (''agent:'' @ a @ '':'' @ rest)) CHR '':'' = [''agent'', a, ToLower rest]"
proof -
  have "ToLower ''agent:'' = ''agent:''" "ToLower '':'' = '':''"
    by (simp_all add: ToLower_def lower_char_def is_upper_def byte_of_def)
  then have "ToLower (''agent:'' @ a @ '':'' @ rest) = ''agent'' @ CHR '':'' # a @ CHR '':'' # ToLower rest"
    unfolding ToLower_append id_shape_lower [OF assms] by simp
  moreover have "CHR '':'' \<notin> set ''agent''" by simp
  ultimately show ?thesis
    using SplitN3 [of "CHR '':''" "''agent''" a "ToLower rest"] id_shape_no_colon [OF assms] by simp
qed

lemma ParseAgentSessionKey_agent:
  assumes "id_shape a" and "good_rest rest"
  shows "ParseAgentSessionKey (''agent:'' @ a @ '':'' @ rest)
           = Some \<lparr>psk_agent = a, psk_rest = ToLower rest\<rparr>"
proof -
  have "trimmed (''agent:'' @ a @ '':'' @ rest)"
    using assms(2) by (simp add: trimmed_def good_rest_def is_space_def byte_of_def)
  then have trim: "TrimSpace (''agent:'' @ a @ '':'' @ rest) = ''agent:'' @ a @ '':'' @ rest"
    by (rule TrimSpace_id)
  have "a \<noteq> []" using assms(1) by (simp add: id_shape_def)
  then show ?thesis
    unfolding ParseAgentSessionKey_def Let_def trim SplitN3_agent_key [OF assms(1)]
    using assms id_shape_trimmed [OF assms(1)]
    by (simp add: good_rest_def)
qed

text \<open>
  C32: Parsing the session key built for an agent gives that agent's normalised id back, and as the
  rest the channel, account, peer and thread part of the key in lower case, for every peer, every scope
  and every identity-link table (for agents whose id normalisation is stable).
\<close>

theorem parse_build_roundtrip:
  assumes "id_start (hd (NormalizeAgentID (skp_agent ps)))"
  shows "ParseAgentSessionKey (BuildAgentPeerSessionKey ps) =
           Some \<lparr>psk_agent = NormalizeAgentID (skp_agent ps),
                 psk_rest = drop 5 (ToLower (BuildConversationPeerSessionKey ps))\<rparr>"
proof -
  have "valid_id (NormalizeAgentID (skp_agent ps))"
    by (rule id_shape_valid) (simp_all add: assms)
  then have stable: "NormalizeAgentID (NormalizeAgentID (skp_agent ps)) = NormalizeAgentID (skp_agent ps)"
    by (simp add: NormalizeAgentID_def [of "NormalizeAgentID (skp_agent ps)"] valid_id_fixed)
  have "drop 5 (ToLower (BuildConversationPeerSessionKey ps)) = ToLower (key_rest ps)"
    by (simp add: BuildConversation_key_rest ToLower_def)
  then show ?thesis
    unfolding BuildAgent_key_rest [OF stable]
    using ParseAgentSessionKey_agent [OF id_shape_NormalizeAgentID good_key_rest] by simp
qed

theorem parse_build_roundtrip_witness:
  "ParseAgentSessionKey (BuildAgentPeerSessionKey
      \<lparr>skp_agent = ''Sales'', skp_channel = ''Telegram'', skp_account = '''',
       skp_peer = Some \<lparr>rp_kind = ''direct'', rp_id = ''User7''\<rparr>, skp_thread = '''',
       skp_dm_scope = DMScopePerChannelPeer, skp_links = []\<rparr>)
   = Some \<lparr>psk_agent = ''sales'', psk_rest = ''telegram:direct:user7''\<rparr>"
proof -
  let ?ps = "\<lparr>skp_agent = ''Sales'', skp_channel = ''Telegram'', skp_account = '''',
       skp_peer = Some \<lparr>rp_kind = ''direct'', rp_id = ''User7''\<rparr>, skp_thread = '''',
       skp_dm_scope = DMScopePerChannelPeer, skp_links = []\<rparr>"
  have a: "NormalizeAgentID ''Sales'' = ''sales''" by code_simp
  have "id_start (hd (NormalizeAgentID (skp_agent ?ps)))" by (simp add: a) code_simp
  moreover have "drop 5 (ToLower (BuildConversationPeerSessionKey ?ps)) = ''telegram:direct:user7''"
    by code_simp
  ultimately show ?thesis using parse_build_roundtrip [of ?ps] a by simp
qed

section \<open>Route resolution against its priority specification\<close>

text \<open>
  The specification: ten rules from the most to the least specific, each a predicate on one binding.
  The route is the first binding (in configuration order) of the first rule that any binding meets.
\<close>

definition thread_rule :: "nat \<Rightarrow> string \<Rightarrow> agent_binding \<Rightarrow> bool" where
  "thread_rule k thread b =
     (let t = ToLower (TrimSpace thread); bt = TrimSpace (bm_thread (ab_match b)) in
      if k = 0 then t \<noteq> [] \<and> ToLower bt = t
      else if k = 1 then t \<noteq> [] \<and> bt = ''*''
      else bt = [])"

definition peer_rule :: "route_peer option \<Rightarrow> nat \<Rightarrow> string \<Rightarrow> agent_binding \<Rightarrow> bool" where
  "peer_rule p k thread b =
     (case p of None \<Rightarrow> False
      | Some q \<Rightarrow> ToLower (TrimSpace (rp_kind q)) \<noteq> [] \<and> TrimSpace (rp_id q) \<noteq> [] \<and>
          matchesPeer (ToLower (TrimSpace (rp_kind q))) (TrimSpace (rp_id q)) b \<and> thread_rule k thread b)"

definition route_rules :: "route_input \<Rightarrow> (agent_binding \<Rightarrow> bool) list" where
  "route_rules inp =
     [peer_rule (ri_peer inp) 0 (ri_thread inp), peer_rule (ri_peer inp) 1 (ri_thread inp),
      peer_rule (ri_peer inp) 2 (ri_thread inp),
      peer_rule (ri_parent inp) 0 (ri_thread inp), peer_rule (ri_parent inp) 1 (ri_thread inp),
      peer_rule (ri_parent inp) 2 (ri_thread inp),
      (\<lambda>b. TrimSpace (ri_guild inp) \<noteq> [] \<and> TrimSpace (bm_guild (ab_match b)) = TrimSpace (ri_guild inp)),
      (\<lambda>b. TrimSpace (ri_team inp) \<noteq> [] \<and> TrimSpace (bm_team (ab_match b)) = TrimSpace (ri_team inp)),
      (\<lambda>b. TrimSpace (bm_account (ab_match b)) \<noteq> ''*'' \<and> unscoped b),
      (\<lambda>b. TrimSpace (bm_account (ab_match b)) = ''*'' \<and> unscoped b)]"

definition route_labels :: "string list" where
  "route_labels = [''binding.peer'', ''binding.peer'', ''binding.peer'',
     ''binding.peer.parent'', ''binding.peer.parent'', ''binding.peer.parent'',
     ''binding.guild'', ''binding.team'', ''binding.account'', ''binding.channel'']"

fun first_rule :: "('a \<Rightarrow> bool) list \<Rightarrow> string list \<Rightarrow> 'a list \<Rightarrow> (string \<times> 'a) option" where
  "first_rule (p # ps) (l # ls) xs =
     (case find p xs of Some x \<Rightarrow> Some (l, x) | None \<Rightarrow> first_rule ps ls xs)"
| "first_rule _ _ xs = None"

lemma first_rule_Some:
  "first_rule ps ls xs = Some (l, x) \<Longrightarrow>
   \<exists>i < length ps. i < length ls \<and> ls ! i = l \<and> find (ps ! i) xs = Some x \<and> (\<forall>j < i. \<forall>y \<in> set xs. \<not> (ps ! j) y)"
proof (induction ps ls xs rule: first_rule.induct)
  case (1 p ps m ls xs)
  show ?case
  proof (cases "find p xs")
    case None
    with "1.prems" have "first_rule ps ls xs = Some (l, x)" by simp
    with "1.IH" None obtain i where "i < length ps" "i < length ls" "ls ! i = l"
      "find (ps ! i) xs = Some x" "\<forall>j < i. \<forall>y \<in> set xs. \<not> (ps ! j) y" by auto
    moreover have "\<forall>y \<in> set xs. \<not> p y" using None by (simp add: find_None_iff)
    ultimately show ?thesis by (intro exI [of _ "Suc i"]) (auto simp: less_Suc_eq_0_disj)
  next
    case (Some y)
    with "1.prems" show ?thesis by (intro exI [of _ 0]) auto
  qed
qed simp_all

lemma first_rule_None:
  "length ls = length ps \<Longrightarrow> first_rule ps ls xs = None \<Longrightarrow> \<forall>p \<in> set ps. \<forall>y \<in> set xs. \<not> p y"
  by (induction ps ls xs rule: first_rule.induct) (auto simp: find_None_iff split: option.splits)

lemma find_False: "find (\<lambda>_. False) xs = None"
  by (induction xs) auto

lemma peer_rule_None: "peer_rule None k t = (\<lambda>_. False)"
  by (rule ext) (simp add: peer_rule_def)

lemma peer_rule_blank:
  "TrimSpace (rp_kind q) = [] \<or> TrimSpace (rp_id q) = [] \<Longrightarrow> peer_rule (Some q) k t = (\<lambda>_. False)"
  by (rule ext) (auto simp: peer_rule_def)

lemma peer_rule_full:
  "\<not> (TrimSpace (rp_kind q) = [] \<or> TrimSpace (rp_id q) = []) \<Longrightarrow>
   peer_rule (Some q) k t = (\<lambda>b. matchesPeer (ToLower (TrimSpace (rp_kind q))) (TrimSpace (rp_id q)) b
      \<and> thread_rule k t b)"
  by (rule ext) (auto simp: peer_rule_def)

lemma peer_lookup_rules:
  "peer_lookup bs p (TrimSpace t) =
     first_some (find (peer_rule p 0 t) bs) (first_some (find (peer_rule p 1 t) bs) (find (peer_rule p 2 t) bs))"
proof (cases p)
  case None
  then show ?thesis by (simp add: peer_lookup_def peer_rule_None find_False first_some_def)
next
  case (Some q)
  show ?thesis
  proof (cases "TrimSpace (rp_kind q) = [] \<or> TrimSpace (rp_id q) = []")
    case True
    with Some show ?thesis
      by (auto simp: peer_lookup_def peer_rule_blank findPeerMatch_def find_False first_some_def)
  next
    case False
    then show ?thesis
      unfolding Some peer_rule_full [OF False] thread_rule_def Let_def
      by (cases "TrimSpace t = []")
        (simp_all add: peer_lookup_def findPeerMatch_def find_False first_some_def Let_def
          split: option.split)
  qed
qed

lemma findGuildMatch_rule:
  "(if g \<noteq> [] then findGuildMatch bs g else None) = find (\<lambda>b. g \<noteq> [] \<and> TrimSpace (bm_guild (ab_match b)) = g) bs"
  by (auto simp: findGuildMatch_def Let_def find_False intro!: arg_cong [where f = "\<lambda>p. find p bs"])

lemma findTeamMatch_rule:
  "(if g \<noteq> [] then findTeamMatch bs g else None) = find (\<lambda>b. g \<noteq> [] \<and> TrimSpace (bm_team (ab_match b)) = g) bs"
  by (auto simp: findTeamMatch_def Let_def find_False intro!: arg_cong [where f = "\<lambda>p. find p bs"])

definition applicable_bindings :: "route_config \<Rightarrow> route_input \<Rightarrow> agent_binding list" where
  "applicable_bindings cfg inp =
     filterBindings cfg (ToLower (TrimSpace (ri_channel inp))) (NormalizeAccountID (ri_account inp))"

lemma ResolveRoute_first_rule:
  "ResolveRoute cfg inp =
     (case first_rule (route_rules inp) route_labels (applicable_bindings cfg inp) of
        Some (l, b) \<Rightarrow> choose_route cfg inp (ab_agent b) l
      | None \<Rightarrow> choose_route cfg inp (resolveDefaultAgentID cfg) ''default'')"
  unfolding ResolveRoute_def Let_def applicable_bindings_def [symmetric] peer_lookup_rules
    findGuildMatch_rule findTeamMatch_rule findAccountMatch_def findChannelWildcardMatch_def
    route_rules_def route_labels_def first_rule.simps first_some_def
  by (simp split: option.split)

text \<open>
  C11: Route resolution picks the most specific binding.  Either no binding that applies to the channel
  and account meets any of the ten rules and the default agent is chosen, or the chosen binding is the
  first one, in configuration order, that meets rule \<open>i\<close>, while no applicable binding meets a rule
  before \<open>i\<close>; \<^verbatim>\<open>MatchedBy\<close> is the label of that rule.
\<close>

theorem ResolveRoute_most_specific:
  "((\<forall>r \<in> set (route_rules inp). \<forall>b \<in> set (applicable_bindings cfg inp). \<not> r b) \<and>
      ResolveRoute cfg inp = choose_route cfg inp (resolveDefaultAgentID cfg) ''default'') \<or>
   (\<exists>i b. i < 10 \<and> find (route_rules inp ! i) (applicable_bindings cfg inp) = Some b \<and>
      (\<forall>j < i. \<forall>y \<in> set (applicable_bindings cfg inp). \<not> (route_rules inp ! j) y) \<and>
      ResolveRoute cfg inp = choose_route cfg inp (ab_agent b) (route_labels ! i))"
proof (cases "first_rule (route_rules inp) route_labels (applicable_bindings cfg inp)")
  case None
  have "length route_labels = length (route_rules inp)" by (simp add: route_rules_def route_labels_def)
  from first_rule_None [OF this None] None show ?thesis
    by (intro disjI1) (simp add: ResolveRoute_first_rule)
next
  case (Some lb)
  then obtain l b where lb: "first_rule (route_rules inp) route_labels (applicable_bindings cfg inp) = Some (l, b)"
    by (cases lb) auto
  have "length route_labels = 10" by (simp add: route_labels_def)
  with first_rule_Some [OF lb] lb show ?thesis
    by (intro disjI2) (auto simp: ResolveRoute_first_rule)
qed

definition ex_route_config :: route_config where
  "ex_route_config =
     \<lparr>rc_bindings =
        [\<lparr>ab_agent = ''fallback'', ab_match = \<lparr>bm_channel = ''discord'', bm_account = ''*'', bm_peer = None,
             bm_thread = '''', bm_guild = '''', bm_team = ''''\<rparr>\<rparr>,
         \<lparr>ab_agent = ''ops'', ab_match = \<lparr>bm_channel = ''discord'', bm_account = ''*'', bm_peer = None,
             bm_thread = '''', bm_guild = ''g1'', bm_team = ''''\<rparr>\<rparr>],
      rc_agents = [\<lparr>ac_id = ''main'', ac_default = True\<rparr>, \<lparr>ac_id = ''ops'', ac_default = False\<rparr>],
      rc_dm_scope = '''', rc_links = []\<rparr>"

definition ex_route_input :: route_input where
  "ex_route_input = \<lparr>ri_channel = ''Discord'', ri_account = '''', ri_peer = None, ri_parent = None,
      ri_thread = '''', ri_guild = ''g1'', ri_team = ''''\<rparr>"

theorem ResolveRoute_most_specific_witness:
  "rr_matched_by (ResolveRoute ex_route_config ex_route_input) = ''binding.guild'' \<and>
   rr_agent (ResolveRoute ex_route_config ex_route_input) = ''ops'' \<and>
   (\<exists>i b. i < 10 \<and> find (route_rules ex_route_input ! i)
         (applicable_bindings ex_route_config ex_route_input) = Some b \<and>
      ResolveRoute ex_route_config ex_route_input
        = choose_route ex_route_config ex_route_input (ab_agent b) (route_labels ! i))"
proof (intro conjI)
  show l: "rr_matched_by (ResolveRoute ex_route_config ex_route_input) = ''binding.guild''" by code_simp
  show "rr_agent (ResolveRoute ex_route_config ex_route_input) = ''ops''" by code_simp
  have "rr_matched_by (choose_route c i a ''default'') = ''default''" for c i a
    by (simp add: choose_route_def Let_def)
  with l have "ResolveRoute ex_route_config ex_route_input \<noteq>
      choose_route ex_route_config ex_route_input (resolveDefaultAgentID ex_route_config) ''default''"
    by auto
  with ResolveRoute_most_specific [of ex_route_input ex_route_config]
  show "\<exists>i b. i < 10 \<and> find (route_rules ex_route_input ! i)
         (applicable_bindings ex_route_config ex_route_input) = Some b \<and>
      ResolveRoute ex_route_config ex_route_input
        = choose_route ex_route_config ex_route_input (ab_agent b) (route_labels ! i)"
    by blast
qed

lemma first_some_id: "x \<noteq> None \<Longrightarrow> first_some x y = x"
  by (auto simp: first_some_def)

lemma stable_id:
  "id_start (hd (NormalizeAgentID s)) \<Longrightarrow> NormalizeAgentID (NormalizeAgentID s) = NormalizeAgentID s"
  by (metis NormalizeAgentID_def id_shape_NormalizeAgentID id_shape_valid valid_id_fixed)

lemma NormalizeAgentID_main: "NormalizeAgentID DefaultAgentID = ''main''"
  by code_simp

lemma find_Some_member: "find p xs = Some x \<Longrightarrow> x \<in> set xs \<and> p x"
  by (auto simp: find_Some_iff)

lemma resolveDefaultAgentID_configured:
  "resolveDefaultAgentID cfg = ''main'' \<or>
   (\<exists>a \<in> set (rc_agents cfg). resolveDefaultAgentID cfg = NormalizeAgentID (ac_id a))"
  unfolding resolveDefaultAgentID_def
  by (auto simp: DefaultAgentID_def Let_def split: list.splits option.splits
      dest!: find_Some_member)

text \<open>
  The agent a route names is one of the configured agents (or the built-in \<^verbatim>\<open>main\<close>), whatever the
  bindings say: a binding that names an unknown agent falls back to the default agent.  The hypothesis
  is that the configured ids normalise to ids that start with a letter or a digit.
\<close>

theorem ResolveRoute_agent_configured:
  assumes agents: "rc_agents cfg \<noteq> []"
    and ids: "\<forall>a \<in> set (rc_agents cfg). id_start (hd (NormalizeAgentID (ac_id a)))"
  shows "rr_agent (ResolveRoute cfg inp) \<in> insert ''main'' ((\<lambda>a. NormalizeAgentID (ac_id a)) ` set (rc_agents cfg))"
proof -
  have d: "NormalizeAgentID (resolveDefaultAgentID cfg)
      \<in> insert ''main'' ((\<lambda>a. NormalizeAgentID (ac_id a)) ` set (rc_agents cfg))"
    using resolveDefaultAgentID_configured [of cfg] ids NormalizeAgentID_main
    by (auto simp: stable_id DefaultAgentID_def)
  have "pickAgentID cfg x \<in> insert ''main'' ((\<lambda>a. NormalizeAgentID (ac_id a)) ` set (rc_agents cfg))" for x
  proof -
    have "NormalizeAgentID x \<in> (\<lambda>a. NormalizeAgentID (ac_id a)) ` set (rc_agents cfg)"
      if "\<exists>a \<in> set (rc_agents cfg). NormalizeAgentID (ac_id a) = NormalizeAgentID x"
      using that by (metis imageI)
    with d agents show ?thesis
      unfolding pickAgentID_def Let_def list_ex_iff by (simp del: image_iff)
  qed
  then have "rr_agent (choose_route cfg inp x l)
      \<in> insert ''main'' ((\<lambda>a. NormalizeAgentID (ac_id a)) ` set (rc_agents cfg))" for x l
    by (simp add: choose_route_def Let_def)
  then show ?thesis unfolding ResolveRoute_first_rule by (simp split: option.split prod.split)
qed

theorem ResolveRoute_agent_configured_witness:
  "rr_agent (ResolveRoute ex_route_config ex_route_input) \<in> {''main'', ''ops''}"
proof -
  have a: "NormalizeAgentID ''main'' = ''main''" "NormalizeAgentID ''ops'' = ''ops''" by code_simp+
  have "\<forall>a \<in> set (rc_agents ex_route_config). id_start (hd (NormalizeAgentID (ac_id a)))"
    by (simp add: ex_route_config_def a id_start_def is_lower_def byte_of_def)
  from ResolveRoute_agent_configured [OF _ this, of ex_route_input] show ?thesis
    by (simp add: ex_route_config_def a)
qed

section \<open>Session isolation\<close>

lemma sep_inject:
  fixes x x' :: string
  assumes "b \<notin> set x" and "b \<notin> set x'" and "x @ b # y = x' @ b # y'"
  shows "x = x' \<and> y = y'"
proof -
  have "IndexByte (x @ b # y) b = Some (length x)" "IndexByte (x' @ b # y') b = Some (length x')"
    using assms(1,2) by (simp_all add: IndexByte_append)
  with assms(3) have "length x = length x'" by simp
  with assms(3) show ?thesis by simp
qed

definition colon_free :: "string \<Rightarrow> bool" where
  "colon_free s \<longleftrightarrow> CHR '':'' \<notin> set s"

lemma lower_char_colon: "lower_char c = CHR '':'' \<longleftrightarrow> c = CHR '':''"
proof -
  have "byte_of (lower_char c) = 58 \<longleftrightarrow> byte_of c = 58"
    using byte_of_lower_char [of c] by (auto simp: is_upper_def)
  moreover have "byte_of CHR '':'' = 58" by (simp add: byte_of_def)
  ultimately show ?thesis by (metis byte_of_inject)
qed

lemma colon_free_ToLower [simp]: "colon_free (ToLower s) = colon_free s"
  by (auto simp: colon_free_def ToLower_def lower_char_colon image_iff eq_commute [of "CHR '':''"])

lemma colon_free_TrimSpace: "colon_free s \<Longrightarrow> colon_free (TrimSpace s)"
  using set_TrimSpace [of s] by (auto simp: colon_free_def)

lemma colon_free_normalizeChannel: "colon_free c \<Longrightarrow> colon_free (normalizeChannel c)"
  by (simp add: normalizeChannel_def Let_def colon_free_TrimSpace) (simp add: colon_free_def)

lemma colon_free_group_peer_id:
  "colon_free (peer_id_of (skp_peer ps)) \<Longrightarrow> colon_free (group_peer_id ps)"
  by (simp add: group_peer_id_def Let_def colon_free_TrimSpace) (simp add: colon_free_def)

lemma thread_suffix_inject:
  assumes "colon_free x" and "colon_free y" and "x @ thread_suffix s = y @ thread_suffix t"
  shows "x = y \<and> ToLower (TrimSpace s) = ToLower (TrimSpace t)"
proof (cases "TrimSpace s = []"; cases "TrimSpace t = []")
  assume st: "TrimSpace s \<noteq> []" "TrimSpace t \<noteq> []"
  then have "x @ CHR '':'' # (''thread:'' @ ToLower (TrimSpace s))
      = y @ CHR '':'' # (''thread:'' @ ToLower (TrimSpace t))"
    using assms(3) by (simp add: thread_suffix_def Let_def)
  with assms(1,2) sep_inject show ?thesis unfolding colon_free_def by (metis same_append_eq)
next
  assume "TrimSpace s = []" "TrimSpace t \<noteq> []"
  with assms have "CHR '':'' \<in> set x" by (auto simp: thread_suffix_def Let_def)
  with assms(1) show ?thesis by (simp add: colon_free_def)
next
  assume "TrimSpace s \<noteq> []" "TrimSpace t = []"
  with assms have "CHR '':'' \<in> set y"
    by (auto simp: thread_suffix_def Let_def dest: sym)
  with assms(2) show ?thesis by (simp add: colon_free_def)
qed (use assms in \<open>simp add: thread_suffix_def\<close>)

definition is_group_chat :: "session_key_params \<Rightarrow> bool" where
  "is_group_chat ps \<longleftrightarrow> peer_kind_of (skp_peer ps) \<noteq> ''direct''"

definition plain_params :: "session_key_params \<Rightarrow> bool" where
  "plain_params ps \<longleftrightarrow> colon_free (skp_channel ps) \<and> colon_free (peer_kind_of (skp_peer ps))
     \<and> colon_free (peer_id_of (skp_peer ps))"


definition ex_group :: "string \<Rightarrow> string \<Rightarrow> session_key_params" where
  "ex_group i t = \<lparr>skp_agent = '''', skp_channel = ''telegram'', skp_account = '''',
     skp_peer = Some \<lparr>rp_kind = ''group'', rp_id = i\<rparr>, skp_thread = t, skp_dm_scope = '''', skp_links = []\<rparr>"


end
