(* ===== verification/SessionManager.thy ===== *)
theory SessionManager
  imports Session Routing
begin

text \<open>
  The session manager: \<^verbatim>\<open>pkg/session/manager.go\<close>, \<^verbatim>\<open>manager_mutations.go\<close>, \<^verbatim>\<open>manager_gc.go\<close>,
  \<^verbatim>\<open>manager_load.go\<close>, \<^verbatim>\<open>manager_paths.go\<close>, \<^verbatim>\<open>manager_snapshots.go\<close>, \<^verbatim>\<open>model_override.go\<close> and the
  tree operations of \<^verbatim>\<open>tree.go\<close>.  The state holds the sessions in memory (a Go map: an association
  list, whose order is the order of one \<^verbatim>\<open>range\<close>) and the directory on disk: the event logs, the meta
  files and the legacy snapshots by their file stems.  What an operation meets outside (the clock, the
  new event id and its time stamp text, the outcome of the writes) is its \<open>world\<close> argument.
\<close>

section \<open>State\<close>

record world =
  w_now :: gtime
  w_now2 :: gtime       \<comment> \<open>a second reading of the clock in the same operation\<close>
  w_id :: string
  w_ts :: string
  w_append :: append_result
  w_meta_ok :: bool

record manager =
  mg_sessions :: "(string \<times> session) list"
  mg_storage :: bool
  mg_max :: int
  mg_ttl :: duration
  mg_logs :: "(string \<times> log_file) list"
  mg_metas :: "(string \<times> session_meta) list"
  mg_legacy :: "(string \<times> session) list"

definition get_session :: "manager \<Rightarrow> string \<Rightarrow> session option" where
  "get_session mg key = map_of (mg_sessions mg) key"

definition put_session :: "string \<Rightarrow> session \<Rightarrow> manager \<Rightarrow> manager" where
  "put_session key s mg = mg\<lparr>mg_sessions := AList.update key s (mg_sessions mg)\<rparr>"

section \<open>Files\<close>

definition sanitizeFilename :: "string \<Rightarrow> string" where
  "sanitizeFilename key = ReplaceByte CHR '':'' ''_'' key"

text \<open>\<^verbatim>\<open>filepath.IsLocal\<close> of a name without slashes: only \<^verbatim>\<open>..\<close> is not local (names with slashes are
  refused right after it anyway).\<close>

definition fileStemForKey :: "string \<Rightarrow> string option" where
  "fileStemForKey key =
     (let stem = sanitizeFilename (CanonicalSessionKey key) in
      if stem = [] \<or> stem = ''.'' then None
      else if stem = ''..'' then None
      else if CHR ''/'' \<in> set stem \<or> CHR 0x5C \<in> set stem then None
      else Some stem)"

definition read_log :: "manager \<Rightarrow> string \<Rightarrow> log_file option" where
  "read_log mg key = (case fileStemForKey key of None \<Rightarrow> None | Some stem \<Rightarrow> map_of (mg_logs mg) stem)"

definition positive_expiry :: "int option \<Rightarrow> int option" where
  "positive_expiry e = (case e of Some ms \<Rightarrow> (if ms > 0 then Some ms else None) | None \<Rightarrow> None)"

definition buildSessionMeta :: "session \<Rightarrow> session_meta" where
  "buildSessionMeta s =
     \<lparr>sm_key = s_key s, sm_summary = s_summary s, sm_created = s_created s, sm_updated = s_updated s,
      sm_last_event = TrimSpace (s_last_event s), sm_messages_count = int (length (s_messages s)),
      sm_override = TrimSpace (s_override s), sm_override_expires = positive_expiry (s_override_expires s)\<rparr>"

definition write_meta :: "world \<Rightarrow> string \<Rightarrow> session \<Rightarrow> manager \<Rightarrow> manager" where
  "write_meta w key s mg =
     (case fileStemForKey key of
        None \<Rightarrow> mg
      | Some stem \<Rightarrow>
          if w_meta_ok w then mg\<lparr>mg_metas := AList.update stem (buildSessionMeta s) (mg_metas mg)\<rparr> else mg)"

definition persistMetaLocked :: "world \<Rightarrow> string \<Rightarrow> session \<Rightarrow> manager \<Rightarrow> manager" where
  "persistMetaLocked w key s mg = (if \<not> mg_storage mg then mg else write_meta w key s mg)"

definition blank_event :: session_event where
  "blank_event = \<lparr>ev_type = EventOther [], ev_id = [], ev_parent = [], ev_ts = [], ev_ts_ms = 0, ev_key = [],
     ev_message = None, ev_summary = [], ev_compaction = 0, ev_flush_at = zero_time, ev_flush_count = 0,
     ev_keep_last = 0, ev_history = None\<rparr>"

definition newEventLocked :: "world \<Rightarrow> string \<Rightarrow> session \<Rightarrow> event_type \<Rightarrow> session_event" where
  "newEventLocked w key s typ = blank_event\<lparr>ev_type := typ, ev_id := w_id w,
     ev_parent := TrimSpace (s_last_event s), ev_ts := w_ts w, ev_ts_ms := UnixMilli (w_now w), ev_key := key\<rparr>"

text \<open>The event is appended to the log of the key; only a reported success moves the leaf.  The session
  is then written back (the source holds a pointer into the map) and its meta file rewritten.\<close>

definition persistEventAndMetaLocked :: "world \<Rightarrow> string \<Rightarrow> session \<Rightarrow> session_event \<Rightarrow> manager \<Rightarrow> manager" where
  "persistEventAndMetaLocked w key s ev mg =
     (if \<not> mg_storage mg then put_session key s mg
      else case fileStemForKey key of
             None \<Rightarrow> persistMetaLocked w key s (put_session key s mg)
           | Some stem \<Rightarrow>
               (case appendJSONLEvent (w_append w) (map_of (mg_logs mg) stem) ev of
                  (f, ok) \<Rightarrow>
                    let s' = (if ok then s\<lparr>s_last_event := ev_id ev\<rparr> else s);
                        mg1 = (case f of None \<Rightarrow> mg | Some g \<Rightarrow> mg\<lparr>mg_logs := AList.update stem g (mg_logs mg)\<rparr>)
                    in persistMetaLocked w key s' (put_session key s' mg1)))"

section \<open>Eviction\<close>

definition session_age_base :: "session \<Rightarrow> gtime" where
  "session_age_base s = (if IsZero (s_updated s) then s_created s else s_updated s)"

definition ttl_expired :: "duration \<Rightarrow> gtime \<Rightarrow> session \<Rightarrow> bool" where
  "ttl_expired ttl now s \<longleftrightarrow>
     \<not> (IsZero (session_age_base s) \<or> TSub now (session_age_base s) \<le> ttl)"

text \<open>\<^verbatim>\<open>sort.Slice\<close> by \<open>updated\<close>; sessions with equal instants keep the order of the map here.\<close>

definition evict_lru :: "int \<Rightarrow> (string \<times> session) list \<Rightarrow> (string \<times> session) list" where
  "evict_lru allowed ss =
     (if int (length ss) \<le> allowed then ss
      else
        let entries = sort_key (\<lambda>kv. session_age_base (snd kv)) ss;
            victims = map fst (take (length ss - nat allowed) entries)
        in filter (\<lambda>kv. fst kv \<notin> set victims) ss)"

definition pruneSessionsLocked :: "gtime \<Rightarrow> int \<Rightarrow> manager \<Rightarrow> manager" where
  "pruneSessionsLocked now reserve mg =
     (let ss1 = (if mg_ttl mg > 0 then filter (\<lambda>kv. \<not> ttl_expired (mg_ttl mg) now (snd kv)) (mg_sessions mg)
                 else mg_sessions mg);
          allowed0 = mg_max mg - reserve;
          allowed = (if allowed0 < 0 then 0 else allowed0)
      in mg\<lparr>mg_sessions := (if mg_max mg \<le> 0 then ss1 else evict_lru allowed ss1)\<rparr>)"

section \<open>Operations on the history\<close>

definition new_session :: "string \<Rightarrow> gtime \<Rightarrow> session" where
  "new_session key now = empty_session\<lparr>s_key := key, s_created := now, s_updated := now\<rparr>"

definition ensureSessionLocked :: "world \<Rightarrow> string \<Rightarrow> manager \<Rightarrow> manager \<times> session" where
  "ensureSessionLocked w key mg =
     (case get_session mg key of
        Some s \<Rightarrow> (mg, s)
      | None \<Rightarrow> (let s = new_session key (w_now2 w) in (put_session key s mg, s)))"

definition GetOrCreate :: "world \<Rightarrow> string \<Rightarrow> manager \<Rightarrow> manager \<times> session option" where
  "GetOrCreate w key0 mg =
     (let key = CanonicalSessionKey key0 in
      if key = [] then (mg, None)
      else case get_session mg key of
             Some s \<Rightarrow> (mg, Some s)
           | None \<Rightarrow> (case ensureSessionLocked w key (pruneSessionsLocked (w_now w) 1 mg) of
                        (mg', s) \<Rightarrow> (mg', Some s)))"

definition AddFullMessage :: "world \<Rightarrow> string \<Rightarrow> message \<Rightarrow> manager \<Rightarrow> manager" where
  "AddFullMessage w key0 msg mg =
     (let key = CanonicalSessionKey key0 in
      if key = [] then mg
      else
        let mg1 = (if get_session mg key = None then pruneSessionsLocked (w_now w) 1 mg else mg) in
        case ensureSessionLocked w key mg1 of
          (mg2, s0) \<Rightarrow>
            let s1 = (if IsZero (s_created s0) then s0\<lparr>s_created := w_now w\<rparr> else s0);
                s = s1\<lparr>s_messages := s_messages s1 @ [msg], s_updated := w_now w\<rparr>
            in if \<not> mg_storage mg2 then put_session key s mg2
               else persistEventAndMetaLocked w key s
                      ((newEventLocked w key s EventSessionMessage)\<lparr>ev_message := Some msg\<rparr>) mg2)"

definition plain_message :: "string \<Rightarrow> string \<Rightarrow> message" where
  "plain_message r c = \<lparr>role = r, content = c, media = None, reasoning = [], system_parts = None,
     tool_calls = None, tool_call_id = []\<rparr>"

definition AddMessage :: "world \<Rightarrow> string \<Rightarrow> string \<Rightarrow> string \<Rightarrow> manager \<Rightarrow> manager" where
  "AddMessage w key r c mg = AddFullMessage w key (plain_message r c) mg"

text \<open>The operations on a session that must exist: \<open>upd\<close> changes it (or leaves it alone), \<open>fill\<close> completes
  the event.\<close>

definition mutate_session :: "world \<Rightarrow> string \<Rightarrow> (session \<Rightarrow> session option) \<Rightarrow> event_type
    \<Rightarrow> (session \<Rightarrow> session_event \<Rightarrow> session_event) \<Rightarrow> manager \<Rightarrow> manager" where
  "mutate_session w key0 upd typ fill mg =
     (let key = CanonicalSessionKey key0 in
      if key = [] then mg
      else case get_session mg key of
             None \<Rightarrow> mg
           | Some s0 \<Rightarrow>
               (case upd s0 of
                  None \<Rightarrow> mg
                | Some s1 \<Rightarrow>
                    let s = s1\<lparr>s_updated := w_now w\<rparr> in
                    if \<not> mg_storage mg then put_session key s mg
                    else persistEventAndMetaLocked w key s (fill s (newEventLocked w key s typ)) mg))"

definition SetSummary :: "world \<Rightarrow> string \<Rightarrow> string \<Rightarrow> manager \<Rightarrow> manager" where
  "SetSummary w key summary =
     mutate_session w key (\<lambda>s. Some (s\<lparr>s_summary := summary\<rparr>)) EventSessionSummary
       (\<lambda>s ev. ev\<lparr>ev_summary := summary\<rparr>)"

definition TruncateHistory :: "world \<Rightarrow> string \<Rightarrow> int \<Rightarrow> manager \<Rightarrow> manager" where
  "TruncateHistory w key keepLast =
     mutate_session w key
       (\<lambda>s. if keepLast \<le> 0 then Some (s\<lparr>s_messages := []\<rparr>)
            else if int (length (s_messages s)) \<le> keepLast then None
            else Some (s\<lparr>s_messages := last_n (nat keepLast) (s_messages s)\<rparr>))
       EventSessionHistoryTrunc (\<lambda>s ev. ev\<lparr>ev_keep_last := keepLast\<rparr>)"

definition IncrementCompactionCount :: "world \<Rightarrow> string \<Rightarrow> manager \<Rightarrow> manager \<times> int" where
  "IncrementCompactionCount w key mg =
     (let mg' = mutate_session w key (\<lambda>s. Some (s\<lparr>s_compaction := s_compaction s + 1\<rparr>)) EventSessionCompactionInc
                  (\<lambda>s ev. ev\<lparr>ev_compaction := s_compaction s\<rparr>) mg;
          k = CanonicalSessionKey key
      in (mg', if k = [] then 0 else case get_session mg' k of None \<Rightarrow> 0 | Some s \<Rightarrow> s_compaction s))"

definition MarkMemoryFlush :: "world \<Rightarrow> string \<Rightarrow> int \<Rightarrow> manager \<Rightarrow> manager" where
  "MarkMemoryFlush w key compactionCount =
     mutate_session w key (\<lambda>s. Some (s\<lparr>s_flush_at := w_now w, s_flush_count := compactionCount\<rparr>))
       EventSessionMemoryFlush
       (\<lambda>s ev. ev\<lparr>ev_flush_at := s_flush_at s, ev_flush_count := s_flush_count s\<rparr>)"

definition SetHistory :: "world \<Rightarrow> string \<Rightarrow> message list \<Rightarrow> manager \<Rightarrow> manager" where
  "SetHistory w key history =
     mutate_session w key (\<lambda>s. Some (s\<lparr>s_messages := history\<rparr>)) EventSessionHistorySet
       (\<lambda>s ev. ev\<lparr>ev_history := Some history\<rparr>)"

definition lookup_session :: "manager \<Rightarrow> string \<Rightarrow> session option" where
  "lookup_session mg key0 =
     (let key = CanonicalSessionKey key0 in if key = [] then None else get_session mg key)"

definition GetHistory :: "manager \<Rightarrow> string \<Rightarrow> message list" where
  "GetHistory mg key = (case lookup_session mg key of None \<Rightarrow> [] | Some s \<Rightarrow> s_messages s)"

definition GetSummary :: "manager \<Rightarrow> string \<Rightarrow> string" where
  "GetSummary mg key = (case lookup_session mg key of None \<Rightarrow> [] | Some s \<Rightarrow> s_summary s)"

definition GetCompactionState :: "manager \<Rightarrow> string \<Rightarrow> int \<times> int \<times> gtime" where
  "GetCompactionState mg key =
     (case lookup_session mg key of
        None \<Rightarrow> (0, 0, zero_time)
      | Some s \<Rightarrow> (s_compaction s, s_flush_count s, s_flush_at s))"

definition LeafEventID :: "manager \<Rightarrow> string \<Rightarrow> string" where
  "LeafEventID mg key =
     (case get_session mg (CanonicalSessionKey key) of None \<Rightarrow> [] | Some s \<Rightarrow> TrimSpace (s_last_event s))"

section \<open>The tree of a session\<close>

datatype session_error =
    ErrKeyEmpty | ErrLeafEmpty | ErrNoStorage | ErrRead | ErrEventNotFound | ErrNoLeaf | ErrSessionNotFound | ErrInvalid

record tree_node =
  tn_id :: string
  tn_parent :: string
  tn_type :: event_type
  tn_ts :: string
  tn_ts_ms :: int
  tn_role :: string
  tn_preview :: string
  tn_on_branch :: bool
  tn_is_leaf :: bool

record session_tree =
  st_key :: string
  st_leaf :: string
  st_total :: int
  st_nodes :: "tree_node list"

text \<open>The two replacements of line ends by blanks come to one: a carriage return and its line feed are
  one blank, and so is each of them alone.\<close>

fun blank_lines :: "string \<Rightarrow> string" where
  "blank_lines [] = []"
| "blank_lines (c # s) =
     (if c = CHR 0x0D then
        (case s of
           d # r \<Rightarrow> if d = CHR 0x0A then CHR '' '' # blank_lines r else CHR '' '' # blank_lines s
         | [] \<Rightarrow> [CHR '' ''])
      else if c = CHR 0x0A then CHR '' '' # blank_lines s
      else c # blank_lines s)"

definition sanitizePreview :: "string \<Rightarrow> string" where
  "sanitizePreview s = TrimSpace (blank_lines s)"

text \<open>\<open>trunc\<close> is \<^verbatim>\<open>utils.Truncate\<close> on the UTF-8 text (see \<open>Truncate\<close> of MessageSplit for its runes).\<close>

definition tree_node_of :: "(string \<Rightarrow> int \<Rightarrow> string) \<Rightarrow> event_index \<Rightarrow> string list \<Rightarrow> string \<Rightarrow> string \<Rightarrow> tree_node option" where
  "tree_node_of trunc byID onBranch effectiveLeaf i =
     (case map_of byID i of
        None \<Rightarrow> None
      | Some ev \<Rightarrow>
          let rp = (case ev_message ev of
                      Some msg \<Rightarrow> (TrimSpace (role msg), sanitizePreview (trunc (TrimSpace (content msg)) 160))
                    | None \<Rightarrow>
                        if TrimSpace (ev_summary ev) \<noteq> []
                        then ([], sanitizePreview (trunc (TrimSpace (ev_summary ev)) 160))
                        else if ev_keep_last ev \<noteq> 0 then ([], ''keep_last='' @ dec_int (ev_keep_last ev))
                        else ([], []))
          in Some \<lparr>tn_id = TrimSpace (ev_id ev), tn_parent = TrimSpace (ev_parent ev), tn_type = ev_type ev,
                   tn_ts = TrimSpace (ev_ts ev), tn_ts_ms = ev_ts_ms ev, tn_role = fst rp,
                   tn_preview = snd rp, tn_on_branch = i \<in> set onBranch, tn_is_leaf = (i = effectiveLeaf)\<rparr>)"

definition tree_limit :: "int \<Rightarrow> int" where
  "tree_limit limit = (let l = (if limit \<le> 0 then 30 else limit) in if l > 200 then 200 else l)"

text \<open>\<^verbatim>\<open>eventsPath\<close> is empty only for a key without a file stem; without a storage directory the path is
  a bare file name, whose reading fails here.\<close>

definition GetTree :: "(string \<Rightarrow> int \<Rightarrow> string) \<Rightarrow> manager \<Rightarrow> string \<Rightarrow> int \<Rightarrow> session_error + session_tree" where
  "GetTree trunc mg key0 limit =
     (let key = CanonicalSessionKey key0 in
      if key = [] then Inl ErrKeyEmpty
      else if fileStemForKey key = None then Inl ErrNoStorage
      else case readJSONLEvents (if mg_storage mg then read_log mg key else None) of
             None \<Rightarrow> Inl ErrRead
           | Some events \<Rightarrow>
               (case indexEvents events of
                  (byID, orderedIDs, tailID) \<Rightarrow>
                    let leaf = resolveLeafID (LeafEventID mg key) byID tailID;
                        onBranch = (if leaf \<noteq> [] then collectPathIDs byID leaf else []);
                        lim = tree_limit limit;
                        shown = drop (length orderedIDs - nat lim) orderedIDs
                    in Inr \<lparr>st_key = key, st_leaf = leaf, st_total = int (length orderedIDs),
                            st_nodes = List.map_filter (tree_node_of trunc byID onBranch leaf) shown\<rparr>))"

definition take_replay :: "session \<Rightarrow> session \<Rightarrow> string \<Rightarrow> session" where
  "take_replay s r leaf =
     s\<lparr>s_messages := s_messages r, s_summary := s_summary r, s_compaction := s_compaction r,
       s_flush_at := s_flush_at r, s_flush_count := s_flush_count r, s_last_event := leaf,
       s_created := (if IsZero (s_created s) \<and> \<not> IsZero (s_created r) then s_created r else s_created s)\<rparr>"

definition SwitchLeaf :: "world \<Rightarrow> string \<Rightarrow> string \<Rightarrow> manager \<Rightarrow> manager \<times> (session_error + string \<times> string)" where
  "SwitchLeaf w key0 leaf0 mg =
     (let key = CanonicalSessionKey key0; leafID = TrimSpace leaf0 in
      if key = [] then (mg, Inl ErrKeyEmpty)
      else if leafID = [] then (mg, Inl ErrLeafEmpty)
      else if fileStemForKey key = None then (mg, Inl ErrNoStorage)
      else case readJSONLEvents (if mg_storage mg then read_log mg key else None) of
             None \<Rightarrow> (mg, Inl ErrRead)
           | Some events \<Rightarrow>
               if map_of (fst (indexEvents events)) leafID = None then (mg, Inl ErrEventNotFound)
               else case replayEvents events leafID of
                      (replayed, effectiveLeaf) \<Rightarrow>
                        if TrimSpace effectiveLeaf = [] then (mg, Inl ErrNoLeaf)
                        else case get_session mg key of
                               None \<Rightarrow> (mg, Inl ErrSessionNotFound)
                             | Some s0 \<Rightarrow>
                                 let s = (take_replay s0 replayed effectiveLeaf)\<lparr>s_updated := w_now w\<rparr>
                                 in (persistMetaLocked w key s (put_session key s mg),
                                     Inr (TrimSpace (s_last_event s0), effectiveLeaf)))"

section \<open>Snapshots and the model override\<close>

definition snapshotFromSession :: "session \<Rightarrow> session" where
  "snapshotFromSession s = s\<lparr>s_override_expires := positive_expiry (s_override_expires s), s_last_event := []\<rparr>"

definition GetSessionSnapshot :: "manager \<Rightarrow> string \<Rightarrow> session option" where
  "GetSessionSnapshot mg key = map_option snapshotFromSession (lookup_session mg key)"

text \<open>Newest first (sessions with equal instants in the order of the map).\<close>

definition ListSessionSnapshots :: "manager \<Rightarrow> session list" where
  "ListSessionSnapshots mg = sort_key (\<lambda>s. - s_updated s) (map (\<lambda>kv. snapshotFromSession (snd kv)) (mg_sessions mg))"

definition EffectiveModelOverride :: "world \<Rightarrow> string \<Rightarrow> manager \<Rightarrow> manager \<times> string option" where
  "EffectiveModelOverride w key0 mg =
     (let key = CanonicalSessionKey key0 in
      if key = [] then (mg, None)
      else case get_session mg key of
             None \<Rightarrow> (mg, None)
           | Some s \<Rightarrow>
               let model = TrimSpace (s_override s) in
               if model = [] then (mg, None)
               else if (case s_override_expires s of None \<Rightarrow> False | Some ms \<Rightarrow> ms > 0 \<and> UnixMilli (w_now w) > ms)
               then (let s' = s\<lparr>s_override := [], s_override_expires := None, s_updated := w_now2 w\<rparr>
                     in (persistMetaLocked w key s' (put_session key s' mg), None))
               else (mg, Some model))"

definition ClearModelOverride :: "world \<Rightarrow> string \<Rightarrow> manager \<Rightarrow> manager \<times> (session_error + gtime option)" where
  "ClearModelOverride w key0 mg =
     (let key = CanonicalSessionKey key0 in
      if key = [] then (mg, Inl ErrKeyEmpty)
      else case get_session mg key of
             None \<Rightarrow> (mg, Inr None)
           | Some s \<Rightarrow>
               (let s' = s\<lparr>s_override := [], s_override_expires := None, s_updated := w_now w\<rparr>
                in (persistMetaLocked w key s' (put_session key s' mg), Inr None)))"

definition SetModelOverride :: "world \<Rightarrow> string \<Rightarrow> string \<Rightarrow> duration \<Rightarrow> manager
    \<Rightarrow> manager \<times> (session_error + gtime option)" where
  "SetModelOverride w key0 model0 ttl mg =
     (let key = CanonicalSessionKey key0; model = TrimSpace model0 in
      if key = [] then (mg, Inl ErrKeyEmpty)
      else if model = [] then ClearModelOverride w key mg
      else
        let expiresAt = (if ttl > 0 then Some (w_now w + ttl) else None);
            s0 = (case get_session mg key of
                    Some s \<Rightarrow> s
                  | None \<Rightarrow> empty_session\<lparr>s_key := key, s_created := w_now w\<rparr>);
            s = s0\<lparr>s_override := model, s_override_expires := map_option UnixMilli expiresAt,
                   s_updated := w_now w\<rparr>
        in (persistMetaLocked w key s (put_session key s mg), Inr expiresAt))"

definition Save :: "world \<Rightarrow> string \<Rightarrow> manager \<Rightarrow> manager \<times> session_error option" where
  "Save w key0 mg =
     (if \<not> mg_storage mg then (mg, None)
      else
        let key = CanonicalSessionKey key0 in
        if key = [] \<or> fileStemForKey key = None then (mg, Some ErrInvalid)
        else case get_session mg key of
               None \<Rightarrow> (mg, None)
             | Some s \<Rightarrow> (write_meta w key s mg, if w_meta_ok w then None else Some ErrInvalid))"

section \<open>Loading from disk\<close>

definition loadSessionMeta :: "manager \<Rightarrow> string \<Rightarrow> session_meta option" where
  "loadSessionMeta mg stem =
     (case map_of (mg_metas mg) stem of
        None \<Rightarrow> None
      | Some m \<Rightarrow> if TrimSpace (sm_key m) = [] then None else Some m)"

definition loadLegacySnapshot :: "manager \<Rightarrow> string \<Rightarrow> session option" where
  "loadLegacySnapshot mg stem =
     (case map_of (mg_legacy mg) stem of
        None \<Rightarrow> None
      | Some s \<Rightarrow> if TrimSpace (s_key s) = [] then None else Some s)"

text \<open>\<open>None\<close> when the log cannot be read.\<close>

definition applySessionEvents :: "session \<Rightarrow> log_file option \<Rightarrow> string \<Rightarrow> session option" where
  "applySessionEvents s log leafHint =
     (case readJSONLEvents log of
        None \<Rightarrow> None
      | Some events \<Rightarrow>
          (case replayEvents events leafHint of
             (r, effectiveLeaf) \<Rightarrow>
               if effectiveLeaf = [] then Some s
               else
                 let s1 = take_replay s r effectiveLeaf in
                 Some (s1\<lparr>s_updated :=
                   (if IsZero (s_updated s) \<and> \<not> IsZero (s_updated r) then s_updated r
                    else if \<not> IsZero (s_updated r) \<and> Before (s_updated s) (s_updated r) then s_updated r
                    else s_updated s)\<rparr>)))"

definition session_from_meta :: "string \<Rightarrow> session_meta option \<Rightarrow> session" where
  "session_from_meta key meta =
     (let s = empty_session\<lparr>s_key := key\<rparr> in
      case meta of
        None \<Rightarrow> s
      | Some m \<Rightarrow>
          s\<lparr>s_summary := TrimSpace (sm_summary m), s_override := TrimSpace (sm_override m),
            s_override_expires := positive_expiry (sm_override_expires m), s_created := sm_created m,
            s_updated := sm_updated m, s_last_event := TrimSpace (sm_last_event m)\<rparr>)"

definition loadJSONLSession :: "world \<Rightarrow> string \<Rightarrow> manager \<Rightarrow> manager \<times> bool" where
  "loadJSONLSession w stem mg =
     (if map_of (mg_logs mg) stem = None then (mg, False)
      else
        let meta = loadSessionMeta mg stem;
            k1 = (case meta of None \<Rightarrow> [] | Some m \<Rightarrow> TrimSpace (sm_key m));
            k2 = (if k1 = [] \<and> meta = None
                  then (case loadLegacySnapshot mg stem of None \<Rightarrow> [] | Some l \<Rightarrow> TrimSpace (s_key l))
                  else k1);
            k3 = (if k2 = [] then stem else k2);
            s0 = session_from_meta k3 meta
        in case applySessionEvents s0 (map_of (mg_logs mg) stem) (s_last_event s0) of
             None \<Rightarrow> (mg, True)
           | Some s1 \<Rightarrow>
               let s2 = (if IsZero (s_created s1) then s1\<lparr>s_created := w_now w\<rparr> else s1);
                   s3 = (if IsZero (s_updated s2) then s2\<lparr>s_updated := s_created s2\<rparr> else s2);
                   s4 = s3\<lparr>s_key := CanonicalSessionKey (s_key s3)\<rparr>
               in (if s_key s4 \<noteq> [] then put_session (s_key s4) s4 mg else mg, True))"

text \<open>What a new process finds: nothing in memory, the same directory.\<close>

definition restart :: "manager \<Rightarrow> manager" where
  "restart mg = mg\<lparr>mg_sessions := []\<rparr>"

end
