(* ===== verification/SessionReplay.thy ===== *)
theory SessionReplay
  imports SessionManager
begin

text \<open>
  Memory and disk of the session manager.  A session is \<open>consistent\<close> with its log when replaying the
  branch of its leaf gives the session and the meta file names that leaf; every operation whose writes
  succeed keeps it so, hence a restart finds what the running process shows.  The exceptions have
  theorems of their own: an emptied history, a meta file that lags behind, a torn line, and a session
  that was evicted from memory.
\<close>

section \<open>Consistency of memory and log\<close>

definition clean_log :: "log_file option \<Rightarrow> session_event list \<Rightarrow> bool" where
  "clean_log f evs \<longleftrightarrow> f = Some \<lparr>lf_lines = map Some evs, lf_open = False\<rparr> \<or> (f = None \<and> evs = [])"

lemma read_lines_Some: "read_lines (map Some evs) = (evs, True)"
  by (induction evs) auto

lemma clean_log_read: "clean_log (Some f) evs \<Longrightarrow> readJSONLEvents (Some f) = Some evs"
  by (auto simp: clean_log_def readJSONLEvents_def read_lines_Some)

lemma clean_log_append:
  "clean_log f evs \<Longrightarrow> appendJSONLEvent Appended f ev
     = (Some \<lparr>lf_lines = map Some (evs @ [json_event ev]), lf_open = False\<rparr>, True)"
  by (auto simp: clean_log_def appendJSONLEvent_def)

text \<open>The core of a session as it would come back from disk.\<close>

definition json_core :: "session \<Rightarrow> message list \<times> string \<times> int \<times> gtime \<times> int" where
  "json_core s = core (s\<lparr>s_messages := map json_message (s_messages s)\<rparr>)"

definition meta_points_at :: "session_meta option \<Rightarrow> string \<Rightarrow> string \<Rightarrow> bool" where
  "meta_points_at m key leaf \<longleftrightarrow> (case m of None \<Rightarrow> False | Some d \<Rightarrow> sm_key d = key \<and> sm_last_event d = leaf)"

text \<open>Memory and disk agree on a session: the log is clean, the leaf is an event of it (or both are
  empty), replaying the branch of the leaf gives the session, and the meta file names that leaf.\<close>

definition consistent :: "string \<Rightarrow> string \<Rightarrow> session_event list \<Rightarrow> session \<Rightarrow> manager \<Rightarrow> bool" where
  "consistent key stem evs s mg \<longleftrightarrow>
     mg_storage mg \<and> key \<noteq> [] \<and> CanonicalSessionKey key = key \<and> fileStemForKey key = Some stem \<and>
     get_session mg key = Some s \<and> s_key s = key \<and> TrimSpace (s_last_event s) = s_last_event s \<and>
     clean_log (map_of (mg_logs mg) stem) evs \<and> (\<forall>e \<in> set evs. json_event e = e) \<and>
     (if s_last_event s = [] then evs = []
      else map_of (by_id evs) (s_last_event s) \<noteq> None \<and>
           meta_points_at (map_of (mg_metas mg) stem) key (s_last_event s)) \<and>
     json_core s = core (branch_state evs (s_last_event s))"

lemma get_put_session [simp]: "get_session (put_session k s mg) k' = (if k' = k then Some s else get_session mg k')"
  by (simp add: get_session_def put_session_def AList.update_conv')

lemma put_session_other [simp]:
  "mg_logs (put_session k s mg) = mg_logs mg" "mg_metas (put_session k s mg) = mg_metas mg"
  "mg_storage (put_session k s mg) = mg_storage mg" "mg_legacy (put_session k s mg) = mg_legacy mg"
  "mg_max (put_session k s mg) = mg_max mg" "mg_ttl (put_session k s mg) = mg_ttl mg"
  by (simp_all add: put_session_def)

text \<open>What a successful append and meta write do to memory and disk.\<close>

lemma persist_ok:
  assumes "consistent key stem evs s0 mg" and "w_append w = Appended" and "w_meta_ok w"
    and "s_key s = key" and "ev_id ev \<noteq> []" and "trimmed (ev_id ev)"
  shows "let mg' = persistEventAndMetaLocked w key s ev mg; s' = s\<lparr>s_last_event := ev_id ev\<rparr> in
    mg_storage mg' \<and> get_session mg' key = Some s' \<and>
    map_of (mg_logs mg') stem = Some \<lparr>lf_lines = map Some (evs @ [json_event ev]), lf_open = False\<rparr> \<and>
    map_of (mg_metas mg') stem = Some (buildSessionMeta s')"
proof -
  have c: "mg_storage mg" "fileStemForKey key = Some stem" "clean_log (map_of (mg_logs mg) stem) evs"
    using assms(1) by (simp_all add: consistent_def)
  show ?thesis
    using c(1,2) assms(2,3) clean_log_append [OF c(3), of ev]
    by (simp add: persistEventAndMetaLocked_def persistMetaLocked_def write_meta_def Let_def AList.update_conv'
        get_session_def put_session_def)
qed

lemma consistent_after_append:
  assumes c: "consistent key stem evs s0 mg" and w: "w_append w = Appended" "w_meta_ok w"
    and s: "s_key s = key" "s_last_event s = s_last_event s0"
    and ev: "fresh_id (ev_id ev) evs" "ev_parent ev = s_last_event s0"
    and sem: "\<And>t. core t = json_core s0 \<Longrightarrow> core (apply_event (json_event ev) t) = json_core s"
  shows "consistent key stem (evs @ [json_event ev]) (s\<lparr>s_last_event := ev_id ev\<rparr>)
    (persistEventAndMetaLocked w key s ev mg)"
proof -
  have x: "ev_id ev \<noteq> []" "trimmed (ev_id ev)" using ev(1) by (simp_all add: fresh_id_def)
  have leaf: "TrimSpace (s_last_event s0) = s_last_event s0" using c by (simp add: consistent_def)
  have "s_last_event s0 \<noteq> ev_id ev"
  proof
    assume e: "s_last_event s0 = ev_id ev"
    with x c have "map_of (by_id evs) (ev_id ev) \<noteq> None" by (auto simp: consistent_def split: if_splits)
    with fresh_by_id(1) [OF ev(1)] show False by simp
  qed
  then have b: "branch (evs @ [json_event ev]) (ev_id ev) = branch evs (s_last_event s0) @ [json_event ev]"
    using branch_snoc [of "json_event ev" evs] ev leaf by simp
  have "core (branch_state evs (s_last_event s0)) = json_core s0" using c by (simp add: consistent_def)
  from sem [OF this] have st: "core (branch_state (evs @ [json_event ev]) (ev_id ev)) = json_core s"
    by (simp add: branch_state_def b)
  have "map_of (by_id (evs @ [json_event ev])) (ev_id ev) \<noteq> None"
    using by_id_complete [of "json_event ev" "evs @ [json_event ev]"] x by (simp add: TrimSpace_id)
  with persist_ok [OF c w s(1) x] st x s c show ?thesis
    by (simp add: consistent_def Let_def clean_log_def meta_points_at_def buildSessionMeta_def TrimSpace_id
        json_core_def core_def)
qed

section \<open>Every operation keeps memory and log consistent\<close>

datatype store_op =
    OpAdd message | OpSummary string | OpTruncate int | OpCompact | OpFlush int
  | OpHistory "message list" | OpSwitch string

fun run_op :: "world \<Rightarrow> string \<Rightarrow> store_op \<Rightarrow> manager \<Rightarrow> manager" where
  "run_op w key (OpAdd msg) mg = AddFullMessage w key msg mg"
| "run_op w key (OpSummary t) mg = SetSummary w key t mg"
| "run_op w key (OpTruncate k) mg = TruncateHistory w key k mg"
| "run_op w key OpCompact mg = fst (IncrementCompactionCount w key mg)"
| "run_op w key (OpFlush n) mg = MarkMemoryFlush w key n mg"
| "run_op w key (OpHistory h) mg = SetHistory w key h mg"
| "run_op w key (OpSwitch l) mg = fst (SwitchLeaf w key l mg)"

text \<open>The two operations whose event says nothing: an empty history and a flush count of zero.\<close>

fun durable_op :: "store_op \<Rightarrow> bool" where
  "durable_op (OpHistory h) \<longleftrightarrow> h \<noteq> []"
| "durable_op (OpFlush n) \<longleftrightarrow> n \<noteq> 0"
| "durable_op _ \<longleftrightarrow> True"

definition good_world :: "world \<Rightarrow> session_event list \<Rightarrow> bool" where
  "good_world w evs \<longleftrightarrow> w_append w = Appended \<and> w_meta_ok w \<and> fresh_id (w_id w) evs \<and> \<not> IsZero (w_now w)"

lemma newEvent_fields [simp]:
  "ev_id (newEventLocked w key s typ) = w_id w" "ev_parent (newEventLocked w key s typ) = TrimSpace (s_last_event s)"
  "ev_type (newEventLocked w key s typ) = typ" "ev_message (newEventLocked w key s typ) = None"
  "ev_history (newEventLocked w key s typ) = None"
  by (simp_all add: newEventLocked_def blank_event_def)

text \<open>An operation adds at most one event, with the fresh id of its world.\<close>

definition ext_ok :: "world \<Rightarrow> session_event list \<Rightarrow> bool" where
  "ext_ok w ext \<longleftrightarrow> ext = [] \<or> (\<exists>e. ext = [e] \<and> ev_id e = w_id w)"

lemma ext_ok_simps [simp]: "ext_ok w []" "ext_ok w [e] \<longleftrightarrow> ev_id e = w_id w"
  by (simp_all add: ext_ok_def)

lemma mutate_consistent:
  assumes c: "consistent key stem evs s0 mg" and w: "good_world w evs"
    and upd: "\<And>s1. upd s0 = Some s1 \<Longrightarrow> s_key s1 = key \<and> s_last_event s1 = s_last_event s0"
    and fill: "\<And>s e. ev_id (fill s e) = ev_id e \<and> ev_parent (fill s e) = ev_parent e"
    and sem: "\<And>s1 t. upd s0 = Some s1 \<Longrightarrow> core t = json_core s0 \<Longrightarrow>
      core (apply_event (json_event (fill (s1\<lparr>s_updated := w_now w\<rparr>)
        (newEventLocked w key (s1\<lparr>s_updated := w_now w\<rparr>) typ))) t) = json_core s1"
  shows "\<exists>ext s. ext_ok w ext \<and> consistent key stem (evs @ ext) s (mutate_session w key upd typ fill mg)"
proof (cases "upd s0")
  case None
  with c have "mutate_session w key upd typ fill mg = mg" by (simp add: mutate_session_def consistent_def)
  with c show ?thesis by (intro exI [of _ "[]"]) auto
next
  case (Some s1)
  let ?s = "s1\<lparr>s_updated := w_now w\<rparr>"
  let ?ev = "fill ?s (newEventLocked w key ?s typ)"
  have m: "mutate_session w key upd typ fill mg = persistEventAndMetaLocked w key ?s ?ev mg"
    using c Some by (simp add: mutate_session_def consistent_def Let_def)
  have "consistent key stem (evs @ [json_event ?ev]) (?s\<lparr>s_last_event := ev_id ?ev\<rparr>)
      (persistEventAndMetaLocked w key ?s ?ev mg)"
  proof (rule consistent_after_append [OF c])
    show "w_append w = Appended" "w_meta_ok w" "fresh_id (ev_id ?ev) evs" using w fill by (simp_all add: good_world_def)
    show "s_key ?s = key" "s_last_event ?s = s_last_event s0" using upd [OF Some] by simp_all
    show "ev_parent ?ev = s_last_event s0" using fill upd [OF Some] c by (simp add: consistent_def)
    show "core (apply_event (json_event ?ev) t) = json_core ?s" if "core t = json_core s0" for t
      using sem [OF Some that] by (simp add: json_core_def core_def)
  qed
  then show ?thesis unfolding m using fill by (intro exI [of _ "[json_event ?ev]"]) auto
qed

lemma keep_last_map: "keep_last k (map f xs) = map f (keep_last k xs)"
  by (simp add: keep_last_def last_n_def drop_map)

lemma core_eqD: "core t = json_core s \<Longrightarrow>
  s_messages t = map json_message (s_messages s) \<and> s_summary t = s_summary s \<and> s_compaction t = s_compaction s
  \<and> s_flush_at t = s_flush_at s \<and> s_flush_count t = s_flush_count s"
  by (simp add: json_core_def core_def)

lemma core_last_event [simp]: "core (s\<lparr>s_last_event := i\<rparr>) = core s"
  by (simp add: core_def)

lemma core_apply:
  "core (apply_event ev s) = core (case ev_type ev of
           EventSessionMessage \<Rightarrow>
             (case ev_message ev of None \<Rightarrow> s | Some msg \<Rightarrow> s\<lparr>s_messages := s_messages s @ [msg]\<rparr>)
         | EventSessionSummary \<Rightarrow> s\<lparr>s_summary := ev_summary ev\<rparr>
         | EventSessionHistorySet \<Rightarrow>
             (case ev_history ev of None \<Rightarrow> s | Some h \<Rightarrow> s\<lparr>s_messages := h\<rparr>)
         | EventSessionHistoryTrunc \<Rightarrow> s\<lparr>s_messages := keep_last (ev_keep_last ev) (s_messages s)\<rparr>
         | EventSessionCompactionInc \<Rightarrow>
             (if ev_compaction ev > s_compaction s then s\<lparr>s_compaction := ev_compaction ev\<rparr> else s)
         | EventSessionMemoryFlush \<Rightarrow>
             (let a = (if \<not> IsZero (ev_flush_at ev) then s\<lparr>s_flush_at := ev_flush_at ev\<rparr> else s)
              in if ev_flush_count ev \<noteq> 0 then a\<lparr>s_flush_count := ev_flush_count ev\<rparr> else a)
         | EventOther _ \<Rightarrow> s)"
  unfolding apply_event_def Let_def by simp

lemma add_consistent:
  assumes c: "consistent key stem evs s0 mg" and w: "good_world w evs"
  shows "\<exists>ext s. ext_ok w ext \<and> consistent key stem (evs @ ext) s (AddFullMessage w key msg mg)"
proof -
  let ?s1 = "if IsZero (s_created s0) then s0\<lparr>s_created := w_now w\<rparr> else s0"
  let ?s = "?s1\<lparr>s_messages := s_messages ?s1 @ [msg], s_updated := w_now w\<rparr>"
  let ?ev = "(newEventLocked w key ?s EventSessionMessage)\<lparr>ev_message := Some msg\<rparr>"
  have m: "AddFullMessage w key msg mg = persistEventAndMetaLocked w key ?s ?ev mg"
    using c unfolding AddFullMessage_def Let_def by (simp add: consistent_def ensureSessionLocked_def)
  have "consistent key stem (evs @ [json_event ?ev]) (?s\<lparr>s_last_event := ev_id ?ev\<rparr>)
      (persistEventAndMetaLocked w key ?s ?ev mg)"
  proof (rule consistent_after_append [OF c])
    show "w_append w = Appended" "w_meta_ok w" "fresh_id (ev_id ?ev) evs" using w by (simp_all add: good_world_def)
    show "s_key ?s = key" "s_last_event ?s = s_last_event s0" "ev_parent ?ev = s_last_event s0"
      using c by (simp_all add: consistent_def)
    show "core (apply_event (json_event ?ev) t) = json_core ?s" if "core t = json_core s0" for t
      using core_eqD [OF that] unfolding core_apply by (simp add: json_core_def core_def)
  qed
  then show ?thesis unfolding m by (intro exI [of _ "[json_event ?ev]"]) auto
qed

lemma switch_consistent:
  assumes c: "consistent key stem evs s0 mg" and w: "good_world w evs"
    and l: "map_of (by_id evs) (TrimSpace l) \<noteq> None" "TrimSpace l \<noteq> []"
  shows "\<exists>s. consistent key stem evs s (fst (SwitchLeaf w key l mg)) \<and> s_last_event s = TrimSpace l \<and>
    snd (SwitchLeaf w key l mg) = Inr (s_last_event s0, TrimSpace l)"
proof -
  have cl: "clean_log (map_of (mg_logs mg) stem) evs" "fileStemForKey key = Some stem" "mg_storage mg"
    "get_session mg key = Some s0" "CanonicalSessionKey key = key" "key \<noteq> []"
    "TrimSpace (s_last_event s0) = s_last_event s0" "s_key s0 = key"
    using c by (simp_all add: consistent_def)
  have "evs \<noteq> []" using l(1) by auto
  then obtain f where f: "map_of (mg_logs mg) stem = Some f" using cl(1) by (auto simp: clean_log_def)
  have r: "readJSONLEvents (read_log mg key) = Some evs"
    using clean_log_read cl(1,2) f by (simp add: read_log_def)
  let ?s = "(take_replay s0 (replay_path (branch evs (TrimSpace l))) (TrimSpace l))\<lparr>s_updated := w_now w\<rparr>"
  have "replayEvents evs (TrimSpace l) = (replay_path (branch evs (TrimSpace l)), TrimSpace l)"
    using replayEvents_branch [of evs "TrimSpace l"] l by simp
  then have sw: "SwitchLeaf w key l mg = (persistMetaLocked w key ?s (put_session key ?s mg),
      Inr (s_last_event s0, TrimSpace l))"
    using l r cl by (simp add: SwitchLeaf_def Let_def by_id_def)
  have core: "core ?s = core (branch_state evs (TrimSpace l))"
    using core_replay_path [of "branch evs (TrimSpace l)"] by (simp add: take_replay_def core_def branch_state_def)
  have "json_core ?s = core (branch_state evs (TrimSpace l))"
    using core branch_state_json [of evs "TrimSpace l"] c by (simp add: json_core_def core_def consistent_def)
  then have "consistent key stem evs ?s (persistMetaLocked w key ?s (put_session key ?s mg))"
    using c w l cl
    by (simp add: consistent_def persistMetaLocked_def write_meta_def good_world_def meta_points_at_def
        buildSessionMeta_def AList.update_conv' get_session_def put_session_def take_replay_def)
  then show ?thesis using sw by (auto simp: take_replay_def intro!: exI [of _ ?s])
qed

lemma switch_error:
  assumes c: "consistent key stem evs s0 mg" and l: "map_of (by_id evs) (TrimSpace l) = None \<or> TrimSpace l = []"
  shows "fst (SwitchLeaf w key l mg) = mg"
proof -
  have cl: "fileStemForKey key = Some stem" "mg_storage mg" "CanonicalSessionKey key = key"
    "clean_log (map_of (mg_logs mg) stem) evs"
    using c by (simp_all add: consistent_def)
  have "readJSONLEvents (read_log mg key) = None \<or> readJSONLEvents (read_log mg key) = Some evs"
    using clean_log_read [of _ evs] cl by (cases "map_of (mg_logs mg) stem") (auto simp: read_log_def readJSONLEvents_def)
  then show ?thesis using l cl by (auto simp: SwitchLeaf_def Let_def by_id_def)
qed

lemma run_op_consistent:
  assumes c: "consistent key stem evs s0 mg" and w: "good_world w evs" and d: "durable_op op"
  shows "\<exists>ext s. ext_ok w ext \<and> consistent key stem (evs @ ext) s (run_op w key op mg)"
proof -
  have key: "s_key s0 = key" using c by (simp add: consistent_def)
  show ?thesis
  proof (cases op)
    case (OpAdd msg)
    then show ?thesis using add_consistent [OF c w] by simp
  next
    case (OpSummary t)
    show ?thesis unfolding OpSummary run_op.simps SetSummary_def
    proof (rule mutate_consistent [OF c w])
      fix s1 u assume u: "Some (s0\<lparr>s_summary := t\<rparr>) = Some s1" and c': "core u = json_core s0"
      from u have s1: "s1 = s0\<lparr>s_summary := t\<rparr>" by simp
      show "core (apply_event (json_event ((newEventLocked w key (s1\<lparr>s_updated := w_now w\<rparr>) EventSessionSummary)
          \<lparr>ev_summary := t\<rparr>)) u) = json_core s1"
        unfolding core_apply using core_eqD [OF c'] by (simp add: s1 json_core_def core_def)
    qed (use key in auto)
  next
    case (OpTruncate k)
    show ?thesis unfolding OpTruncate run_op.simps TruncateHistory_def
    proof (rule mutate_consistent [OF c w])
      fix s1 t assume u: "(if k \<le> 0 then Some (s0\<lparr>s_messages := []\<rparr>)
            else if int (length (s_messages s0)) \<le> k then None
            else Some (s0\<lparr>s_messages := last_n (nat k) (s_messages s0)\<rparr>)) = Some s1" and t: "core t = json_core s0"
      from u have s1: "s1 = s0\<lparr>s_messages := keep_last k (s_messages s0)\<rparr>"
        by (auto simp: keep_last_def split: if_splits)
      show "core (apply_event (json_event ((newEventLocked w key (s1\<lparr>s_updated := w_now w\<rparr>)
          EventSessionHistoryTrunc)\<lparr>ev_keep_last := k\<rparr>)) t) = json_core s1"
        unfolding core_apply using core_eqD [OF t] by (simp add: s1 json_core_def core_def keep_last_map)
    qed (use key in \<open>auto split: if_splits\<close>)
  next
    case OpCompact
    have "\<exists>ext s. ext_ok w ext \<and> consistent key stem (evs @ ext) s (mutate_session w key (\<lambda>s. Some (s\<lparr>s_compaction := s_compaction s + 1\<rparr>))
        EventSessionCompactionInc (\<lambda>s ev. ev\<lparr>ev_compaction := s_compaction s\<rparr>) mg)"
    proof (rule mutate_consistent [OF c w])
      fix s1 t assume u: "Some (s0\<lparr>s_compaction := s_compaction s0 + 1\<rparr>) = Some s1" and t: "core t = json_core s0"
      from u have s1: "s1 = s0\<lparr>s_compaction := s_compaction s0 + 1\<rparr>" by simp
      show "core (apply_event (json_event ((newEventLocked w key (s1\<lparr>s_updated := w_now w\<rparr>) EventSessionCompactionInc)
          \<lparr>ev_compaction := s_compaction (s1\<lparr>s_updated := w_now w\<rparr>)\<rparr>)) t) = json_core s1"
        unfolding core_apply using core_eqD [OF t] by (simp add: s1 json_core_def core_def)
    qed (use key in auto)
    then show ?thesis unfolding OpCompact run_op.simps IncrementCompactionCount_def Let_def by simp
  next
    case (OpFlush n)
    have n: "n \<noteq> 0" "\<not> IsZero (w_now w)" using d w OpFlush by (simp_all add: good_world_def)
    show ?thesis unfolding OpFlush run_op.simps MarkMemoryFlush_def
    proof (rule mutate_consistent [OF c w])
      fix s1 t assume u: "Some (s0\<lparr>s_flush_at := w_now w, s_flush_count := n\<rparr>) = Some s1" and t: "core t = json_core s0"
      from u have s1: "s1 = s0\<lparr>s_flush_at := w_now w, s_flush_count := n\<rparr>" by simp
      show "core (apply_event (json_event ((newEventLocked w key (s1\<lparr>s_updated := w_now w\<rparr>) EventSessionMemoryFlush)
          \<lparr>ev_flush_at := s_flush_at (s1\<lparr>s_updated := w_now w\<rparr>),
           ev_flush_count := s_flush_count (s1\<lparr>s_updated := w_now w\<rparr>)\<rparr>)) t) = json_core s1"
        unfolding core_apply using core_eqD [OF t] n by (simp add: s1 json_core_def core_def Let_def)
    qed (use key in auto)
  next
    case (OpHistory h)
    have h: "h \<noteq> []" using d OpHistory by simp
    show ?thesis unfolding OpHistory run_op.simps SetHistory_def
    proof (rule mutate_consistent [OF c w])
      fix s1 t assume u: "Some (s0\<lparr>s_messages := h\<rparr>) = Some s1" and t: "core t = json_core s0"
      from u have s1: "s1 = s0\<lparr>s_messages := h\<rparr>" by simp
      show "core (apply_event (json_event ((newEventLocked w key (s1\<lparr>s_updated := w_now w\<rparr>) EventSessionHistorySet)
          \<lparr>ev_history := Some h\<rparr>)) t) = json_core s1"
        unfolding core_apply using core_eqD [OF t] h by (simp add: s1 json_core_def core_def)
    qed (use key in auto)
  next
    case (OpSwitch l)
    show ?thesis
    proof (cases "map_of (by_id evs) (TrimSpace l) = None \<or> TrimSpace l = []")
      case True
      have "run_op w key op mg = mg" using switch_error [OF c True] OpSwitch by simp
      then show ?thesis using c by (intro exI [of _ "[]"]) auto
    next
      case False
      have "\<exists>s. consistent key stem evs s (fst (SwitchLeaf w key l mg))"
        using switch_consistent [OF c w] False by blast
      then show ?thesis unfolding OpSwitch run_op.simps by (intro exI [of _ "[]"]) auto
    qed
  qed
qed

definition run_ops :: "string \<Rightarrow> (world \<times> store_op) list \<Rightarrow> manager \<Rightarrow> manager" where
  "run_ops key ops mg = fold (\<lambda>(w, op) g. run_op w key op g) ops mg"

definition log_of :: "string \<Rightarrow> manager \<Rightarrow> session_event list" where
  "log_of stem mg = (case map_of (mg_logs mg) stem of None \<Rightarrow> [] | Some f \<Rightarrow> List.map_filter id (lf_lines f))"

fun good_run :: "string \<Rightarrow> string \<Rightarrow> (world \<times> store_op) list \<Rightarrow> manager \<Rightarrow> bool" where
  "good_run key stem [] mg \<longleftrightarrow> True"
| "good_run key stem ((w, op) # ops) mg \<longleftrightarrow>
     good_world w (log_of stem mg) \<and> durable_op op \<and> good_run key stem ops (run_op w key op mg)"

lemma clean_log_of: "consistent key stem evs s mg \<Longrightarrow> log_of stem mg = evs"
proof -
  have "List.map_filter id (map Some xs) = xs" for xs :: "session_event list"
    by (induction xs) (simp_all add: List.map_filter_simps)
  then show "consistent key stem evs s mg \<Longrightarrow> log_of stem mg = evs"
    by (auto simp: consistent_def clean_log_def log_of_def)
qed

lemma run_ops_consistent:
  "consistent key stem evs s mg \<Longrightarrow> good_run key stem ops mg \<Longrightarrow>
   \<exists>ext s'. consistent key stem (evs @ ext) s' (run_ops key ops mg)"
proof (induction ops arbitrary: evs s mg)
  case Nil
  then show ?case by (metis append_Nil2 fold_simps(1) id_apply run_ops_def)
next
  case (Cons x ops)
  obtain w op where x: "x = (w, op)" by force
  with Cons.prems clean_log_of have "good_world w evs" "durable_op op" by auto
  from run_op_consistent [OF Cons.prems(1) this] obtain ext s1 where
    "consistent key stem (evs @ ext) s1 (run_op w key op mg)" by blast
  from Cons.IH [OF this] Cons.prems(2) x obtain ext' s' where
    "consistent key stem ((evs @ ext) @ ext') s' (run_ops key ops (run_op w key op mg))" by auto
  then show ?case by (auto simp: x run_ops_def)
qed

section \<open>What a restart finds\<close>

definition reload :: "world \<Rightarrow> string \<Rightarrow> manager \<Rightarrow> manager" where
  "reload w stem mg = fst (loadJSONLSession w stem (restart mg))"

lemma canonical_TrimSpace: "CanonicalSessionKey key = key \<Longrightarrow> TrimSpace key = key"
  unfolding CanonicalSessionKey_def by (metis TrimSpace_ToLower TrimSpace_idem)

lemma load_core:
  assumes key: "key \<noteq> []" "CanonicalSessionKey key = key"
    and log: "map_of (mg_logs mg) stem = Some f" "clean_log (Some f) evs"
    and leaf: "leaf \<noteq> []" "TrimSpace leaf = leaf" "map_of (by_id evs) leaf \<noteq> None"
    and meta: "meta_points_at (map_of (mg_metas mg) stem) key leaf"
  shows "\<exists>s'. loadJSONLSession w stem mg = (put_session key s' mg, True) \<and> core s' = core (branch_state evs leaf) \<and>
    s_last_event s' = leaf"
proof -
  obtain m where m: "map_of (mg_metas mg) stem = Some m" "sm_key m = key" "sm_last_event m = leaf"
    using meta by (auto simp: meta_points_at_def split: option.splits)
  have tk: "TrimSpace key = key" by (rule canonical_TrimSpace [OF key(2)])
  have lm: "loadSessionMeta mg stem = Some m" using m key(1) tk by (simp add: loadSessionMeta_def)
  have rp: "replayEvents evs leaf = (replay_path (branch evs leaf), leaf)"
    using replayEvents_branch [of evs leaf] leaf by simp
  let ?s0 = "session_from_meta key (Some m)"
  have s0: "s_last_event ?s0 = leaf" "s_key ?s0 = key" using m leaf(2) by (simp_all add: session_from_meta_def)
  obtain s1 where s1: "applySessionEvents ?s0 (Some f) leaf = Some s1" "core s1 = core (branch_state evs leaf)"
    "s_last_event s1 = leaf" "s_key s1 = key"
    using clean_log_read [OF log(2)] rp leaf(1) s0 core_replay_path [of "branch evs leaf"]
    by (simp add: applySessionEvents_def take_replay_def core_def branch_state_def Let_def)
  let ?s2 = "if IsZero (s_created s1) then s1\<lparr>s_created := w_now w\<rparr> else s1"
  let ?s3 = "if IsZero (s_updated ?s2) then ?s2\<lparr>s_updated := s_created ?s2\<rparr> else ?s2"
  let ?s4 = "?s3\<lparr>s_key := CanonicalSessionKey (s_key ?s3)\<rparr>"
  have k3: "s_key ?s3 = key" using s1(4) by simp
  have "loadJSONLSession w stem mg = (put_session key ?s4 mg, True)"
    using lm log(1) m tk key s0 s1(1) k3 unfolding loadJSONLSession_def Let_def by simp
  moreover have "core ?s4 = core (branch_state evs leaf)" "s_last_event ?s4 = leaf"
    using s1 by (simp_all add: core_def)
  ultimately show ?thesis by blast
qed

lemma reload_core:
  assumes "key \<noteq> []" "CanonicalSessionKey key = key" "map_of (mg_logs mg) stem = Some f" "clean_log (Some f) evs"
    "leaf \<noteq> []" "TrimSpace leaf = leaf" "map_of (by_id evs) leaf \<noteq> None" "meta_points_at (map_of (mg_metas mg) stem) key leaf"
  shows "\<exists>s'. get_session (reload w stem mg) key = Some s' \<and> core s' = core (branch_state evs leaf) \<and> s_last_event s' = leaf"
  using load_core [of key "restart mg" stem f evs leaf w] assms by (auto simp: reload_def restart_def)

text \<open>What the reading operations show of a session.\<close>

definition shown :: "manager \<Rightarrow> string \<Rightarrow> message list \<times> string \<times> (int \<times> int \<times> gtime) \<times> string" where
  "shown mg key = (map json_message (GetHistory mg key), GetSummary mg key, GetCompactionState mg key, LeafEventID mg key)"

lemma shown_core:
  assumes "key \<noteq> []" "CanonicalSessionKey key = key" "get_session mg key = Some s" "get_session mg' key = Some s'"
    and "core s' = json_core s" "s_last_event s' = s_last_event s"
  shows "shown mg' key = shown mg key" "GetHistory mg' key = map json_message (GetHistory mg key)"
  using assms core_eqD [OF assms(5)]
  by (simp_all add: shown_def GetHistory_def GetSummary_def GetCompactionState_def LeafEventID_def lookup_session_def
      comp_def)

lemma shown_json_core:
  assumes "key \<noteq> []" "CanonicalSessionKey key = key" "get_session mg key = Some s" "get_session mg' key = Some s'"
    and "json_core s' = json_core s" "s_last_event s' = s_last_event s"
  shows "shown mg' key = shown mg key"
  using assms by (simp add: shown_def GetHistory_def GetSummary_def GetCompactionState_def LeafEventID_def
      lookup_session_def json_core_def core_def)

lemma consistent_reload:
  assumes "consistent key stem evs s mg" "evs \<noteq> []"
  shows "\<exists>s'. get_session (reload w stem mg) key = Some s' \<and> core s' = json_core s \<and> s_last_event s' = s_last_event s"
proof -
  obtain f where "map_of (mg_logs mg) stem = Some f" using assms by (auto simp: consistent_def clean_log_def)
  with assms show ?thesis
    using reload_core [of key mg stem f evs "s_last_event s" w] by (auto simp: consistent_def split: if_splits)
qed

text \<open>A session that \<^verbatim>\<open>GetOrCreate\<close> makes where there is none on disk is consistent.\<close>

definition new_key :: "manager \<Rightarrow> string \<Rightarrow> string \<Rightarrow> bool" where
  "new_key mg key stem \<longleftrightarrow> mg_storage mg \<and> key \<noteq> [] \<and> CanonicalSessionKey key = key \<and>
     fileStemForKey key = Some stem \<and> get_session mg key = None \<and> map_of (mg_logs mg) stem = None"

lemma map_of_filter_None: "map_of ss k = None \<Longrightarrow> map_of (filter P ss) k = None"
  by (induction ss) (auto split: if_splits)

lemma prune_get: "get_session mg key = None \<Longrightarrow> get_session (pruneSessionsLocked now r mg) key = None"
  by (simp add: get_session_def pruneSessionsLocked_def Let_def evict_lru_def map_of_filter_None)

lemma prune_other [simp]:
  "mg_logs (pruneSessionsLocked now r mg) = mg_logs mg" "mg_metas (pruneSessionsLocked now r mg) = mg_metas mg"
  "mg_storage (pruneSessionsLocked now r mg) = mg_storage mg"
  by (simp_all add: pruneSessionsLocked_def Let_def)

lemma new_consistent:
  assumes "new_key mg key stem"
  shows "consistent key stem [] (new_session key (w_now2 w)) (fst (GetOrCreate w key mg))"
  using assms prune_get [of mg key "w_now w" 1]
  by (simp add: new_key_def GetOrCreate_def ensureSessionLocked_def Let_def consistent_def new_session_def
      clean_log_def json_core_def core_def branch_state_def branch_blank empty_session_def)

text \<open>
  C4: Whatever is done to a session survives a restart.  After a new session and any sequence of
  messages, summaries, truncations, compactions, flush marks, history replacements and leaf switches
  whose appends and meta writes succeed (with fresh event ids, and leaving out an empty history and a flush
  count of zero), a new process that loads the log shows the same history (up to the fields JSON
  drops), summary, compaction state and leaf as the running one, as soon as there is an event at all.
\<close>

theorem session_survives_restart:
  assumes "new_key mg0 key stem" and "mg = run_ops key ops (fst (GetOrCreate w0 key mg0))"
    and "good_run key stem ops (fst (GetOrCreate w0 key mg0))" and "log_of stem mg \<noteq> []"
  shows "shown (reload w stem mg) key = shown mg key"
proof -
  obtain ext s where c: "consistent key stem ([] @ ext) s mg"
    using run_ops_consistent [OF new_consistent [OF assms(1)] assms(3)] assms(2) by blast
  have "[] @ ext \<noteq> []" using clean_log_of [OF c] assms(4) by simp
  from consistent_reload [OF c this, of w] obtain s' where
    "get_session (reload w stem mg) key = Some s'" "core s' = json_core s" "s_last_event s' = s_last_event s"
    by blast
  then show ?thesis using c by (intro shown_core(1) [of key mg s _ s']) (simp_all add: consistent_def)
qed

definition ex_manager :: manager where
  "ex_manager = \<lparr>mg_sessions = [], mg_storage = True, mg_max = 0, mg_ttl = 0, mg_logs = [], mg_metas = [], mg_legacy = []\<rparr>"

definition ex_world :: "string \<Rightarrow> world" where
  "ex_world i = \<lparr>w_now = 1000, w_now2 = 1000, w_id = i, w_ts = [], w_append = Appended, w_meta_ok = True\<rparr>"

definition ex_ops :: "(world \<times> store_op) list" where
  "ex_ops = [(ex_world ''e1'', OpAdd (plain_message ''user'' ''hi'')), (ex_world ''e2'', OpSummary ''s''),
     (ex_world ''e3'', OpSwitch ''e1''), (ex_world ''e4'', OpAdd (plain_message ''user'' ''again''))]"

theorem session_survives_restart_witness:
  "let mg = run_ops ''conv:main'' ex_ops (fst (GetOrCreate (ex_world []) ''conv:main'' ex_manager)) in
     shown (reload (ex_world []) ''conv_main'' mg) ''conv:main'' = shown mg ''conv:main''"
proof -
  have n: "new_key ex_manager ''conv:main'' ''conv_main''" by code_simp
  have g: "good_run ''conv:main'' ''conv_main'' ex_ops (fst (GetOrCreate (ex_world []) ''conv:main'' ex_manager))"
    by code_simp
  have l: "log_of ''conv_main'' (run_ops ''conv:main'' ex_ops (fst (GetOrCreate (ex_world []) ''conv:main'' ex_manager))) \<noteq> []"
    by code_simp
  show ?thesis unfolding Let_def by (rule session_survives_restart [OF n refl g l])
qed

section \<open>Branches\<close>

lemma consistent_branch_ext:
  "consistent key stem evs s mg \<Longrightarrow> good_run key stem ops mg \<Longrightarrow> map_of (by_id evs) l \<noteq> None \<Longrightarrow> TrimSpace l = l \<Longrightarrow>
   \<exists>evs' s'. consistent key stem evs' s' (run_ops key ops mg) \<and> branch_state evs' l = branch_state evs l \<and>
     map_of (by_id evs') l \<noteq> None"
proof (induction ops arbitrary: evs s mg)
  case Nil
  then show ?case by (auto simp: run_ops_def)
next
  case (Cons x ops)
  obtain w op where x: "x = (w, op)" by force
  have gw: "good_world w evs" and d: "durable_op op" using Cons.prems(1,2) x clean_log_of by auto
  from run_op_consistent [OF Cons.prems(1) gw d] obtain ext s1 where
    ext: "ext_ok w ext" and c: "consistent key stem (evs @ ext) s1 (run_op w key op mg)" by blast
  have fr: "fresh_id (w_id w) evs" using gw by (simp add: good_world_def)
  then have l: "l \<noteq> w_id w" using fresh_by_id(1) [OF fr] Cons.prems(3) by auto
  have b: "branch_state (evs @ ext) l = branch_state evs l"
    using ext fr l Cons.prems(4) branch_old [of _ evs l] by (auto simp: ext_ok_def branch_state_def)
  have "map_of (by_id (evs @ ext)) l \<noteq> None"
    using ext fr Cons.prems(3) by (auto simp: ext_ok_def map_of_by_id_snoc fresh_id_def TrimSpace_id)
  from Cons.IH [OF c _ this Cons.prems(4)] Cons.prems(2) x b show ?case
    by (simp add: run_ops_def)
qed

text \<open>
  Leaving a branch loses nothing.  After switching a consistent session to another leaf of its log
  and doing anything that keeps it consistent there, switching back to the old leaf brings the old
  history (as JSON keeps it), summary and compaction state back.
\<close>

theorem SwitchLeaf_roundtrip:
  assumes "consistent key stem evs s mg" and "s_last_event s \<noteq> []"
    and "map_of (by_id evs) (TrimSpace leaf) \<noteq> None" and "TrimSpace leaf \<noteq> []"
    and "good_world w evs"
    and "mg' = run_ops key ops (fst (SwitchLeaf w key leaf mg))"
    and "good_run key stem ops (fst (SwitchLeaf w key leaf mg))" and "good_world w' (log_of stem mg')"
  shows "shown (fst (SwitchLeaf w' key (LeafEventID mg key) mg')) key = shown mg key"
proof -
  obtain s1 where c1: "consistent key stem evs s1 (fst (SwitchLeaf w key leaf mg))"
    using switch_consistent [OF assms(1,5,3,4)] by blast
  let ?old = "s_last_event s"
  have old: "map_of (by_id evs) ?old \<noteq> None" "TrimSpace ?old = ?old" "LeafEventID mg key = ?old"
    "json_core s = core (branch_state evs ?old)"
    using assms(1,2) by (auto simp: consistent_def LeafEventID_def split: if_splits)
  from consistent_branch_ext [OF c1 assms(7) old(1,2)] assms(6) obtain evs' s' where
    c2: "consistent key stem evs' s' mg'" and b: "branch_state evs' ?old = branch_state evs ?old"
    and i: "map_of (by_id evs') ?old \<noteq> None" by blast
  have "good_world w' evs'" using assms(8) clean_log_of [OF c2] by simp
  from switch_consistent [OF c2 this, of ?old] i old(2) assms(2) obtain s'' where
    c3: "consistent key stem evs' s'' (fst (SwitchLeaf w' key ?old mg'))" and l: "s_last_event s'' = ?old" by auto
  have "json_core s'' = json_core s" using c3 l b old(4) by (simp add: consistent_def)
  then show ?thesis
    using shown_json_core [of key mg s "fst (SwitchLeaf w' key ?old mg')" s''] c3 assms(1) l old(3)
    by (simp add: consistent_def)
qed

definition ex_mg :: manager where
  "ex_mg = run_ops ''conv:main'' ex_ops (fst (GetOrCreate (ex_world []) ''conv:main'' ex_manager))"

lemma ex_mg_consistent: "\<exists>s. consistent ''conv:main'' ''conv_main'' (log_of ''conv_main'' ex_mg) s ex_mg"
proof -
  have n: "new_key ex_manager ''conv:main'' ''conv_main''" by code_simp
  have g: "good_run ''conv:main'' ''conv_main'' ex_ops (fst (GetOrCreate (ex_world []) ''conv:main'' ex_manager))"
    by code_simp
  from run_ops_consistent [OF new_consistent [OF n] g] obtain ext s where
    c: "consistent ''conv:main'' ''conv_main'' ([] @ ext) s ex_mg" unfolding ex_mg_def by blast
  then show ?thesis using clean_log_of [OF c] by auto
qed

theorem SwitchLeaf_roundtrip_witness:
  "\<exists>mg'. shown (fst (SwitchLeaf (ex_world ''e9'') ''conv:main'' (LeafEventID ex_mg ''conv:main'') mg')) ''conv:main''
     = shown ex_mg ''conv:main''"
proof -
  obtain s where c: "consistent ''conv:main'' ''conv_main'' (log_of ''conv_main'' ex_mg) s ex_mg"
    using ex_mg_consistent by blast
  have ne: "log_of ''conv_main'' ex_mg \<noteq> []" by code_simp
  have l: "s_last_event s \<noteq> []" using c ne by (auto simp: consistent_def)
  have i: "map_of (by_id (log_of ''conv_main'' ex_mg)) (TrimSpace ''e2'') \<noteq> None" "TrimSpace ''e2'' \<noteq> []" by code_simp+
  have w: "good_world (ex_world ''e5'') (log_of ''conv_main'' ex_mg)" by code_simp
  have w': "good_world (ex_world ''e9'') (log_of ''conv_main''
      (run_ops ''conv:main'' [] (fst (SwitchLeaf (ex_world ''e5'') ''conv:main'' ''e2'' ex_mg))))" by code_simp
  from SwitchLeaf_roundtrip [OF c l i w refl _ w'] show ?thesis by auto
qed

section \<open>What does not survive\<close>

lemma branch_after:
  assumes "consistent key stem evs s mg" "fresh_id (ev_id ev) evs" "ev_parent ev = s_last_event s"
  shows "branch_state (evs @ [json_event ev]) (ev_id ev) = apply_event (json_event ev) (branch_state evs (s_last_event s))"
proof -
  have "s_last_event s \<noteq> ev_id ev"
  proof
    assume e: "s_last_event s = ev_id ev"
    with assms(1,2) have "map_of (by_id evs) (ev_id ev) \<noteq> None" by (auto simp: consistent_def fresh_id_def split: if_splits)
    with fresh_by_id(1) [OF assms(2)] show False by simp
  qed
  then show ?thesis
    using branch_snoc [of "json_event ev" evs] assms by (simp add: branch_state_def consistent_def)
qed

text \<open>
  An emptied history comes back.  \<^verbatim>\<open>SetHistory\<close> with an empty list empties the history in memory, but
  its event carries the empty list in a field marked \<^verbatim>\<open>omitempty\<close>: it is not written, the replay leaves
  the messages alone, and after a restart the session has its old history again.
\<close>

theorem SetHistory_empty_not_durable:
  assumes "consistent key stem evs s mg" and "good_world w evs"
  shows "GetHistory (SetHistory w key [] mg) key = [] \<and>
    GetHistory (reload w' stem (SetHistory w key [] mg)) key = map json_message (GetHistory mg key)"
proof -
  let ?s = "s\<lparr>s_messages := [], s_updated := w_now w\<rparr>"
  let ?ev = "(newEventLocked w key ?s EventSessionHistorySet)\<lparr>ev_history := Some []\<rparr>"
  let ?mg = "persistEventAndMetaLocked w key ?s ?ev mg"
  have cs: "key \<noteq> []" "CanonicalSessionKey key = key" "get_session mg key = Some s" "mg_storage mg" "s_key s = key"
    "TrimSpace (s_last_event s) = s_last_event s" "json_core s = core (branch_state evs (s_last_event s))"
    using assms(1) by (simp_all add: consistent_def)
  have w: "w_append w = Appended" "w_meta_ok w" "fresh_id (w_id w) evs" "w_id w \<noteq> []" "trimmed (w_id w)"
    using assms(2) by (simp_all add: good_world_def fresh_id_def)
  have m: "SetHistory w key [] mg = ?mg" using cs by (simp add: SetHistory_def mutate_session_def Let_def)
  have p: "mg_storage ?mg" "get_session ?mg key = Some (?s\<lparr>s_last_event := w_id w\<rparr>)"
    "map_of (mg_logs ?mg) stem = Some \<lparr>lf_lines = map Some (evs @ [json_event ?ev]), lf_open = False\<rparr>"
    "map_of (mg_metas ?mg) stem = Some (buildSessionMeta (?s\<lparr>s_last_event := w_id w\<rparr>))"
    using persist_ok [OF assms(1) w(1,2), of ?s ?ev] cs w by (simp_all add: Let_def)
  have "core (branch_state (evs @ [json_event ?ev]) (w_id w)) = json_core s"
    using branch_after [OF assms(1), of ?ev] w cs by (simp add: core_apply)
  moreover have "\<exists>s'. get_session (reload w' stem ?mg) key = Some s' \<and>
      core s' = core (branch_state (evs @ [json_event ?ev]) (w_id w)) \<and> s_last_event s' = w_id w"
    using p w cs by_id_complete [of "json_event ?ev" "evs @ [json_event ?ev]"]
    by (intro reload_core) (simp_all add: clean_log_def TrimSpace_id meta_points_at_def buildSessionMeta_def)
  ultimately obtain s' where s': "get_session (reload w' stem ?mg) key = Some s'" "core s' = json_core s" by auto
  show ?thesis
    using m p(2) s' cs core_eqD [OF s'(2)] by (simp add: GetHistory_def lookup_session_def)
qed

theorem SetHistory_empty_not_durable_witness:
  "GetHistory (SetHistory (ex_world ''e5'') ''conv:main'' [] ex_mg) ''conv:main'' = [] \<and>
   GetHistory (reload (ex_world []) ''conv_main'' (SetHistory (ex_world ''e5'') ''conv:main'' [] ex_mg)) ''conv:main''
     = [plain_message ''user'' ''hi'', plain_message ''user'' ''again'']"
proof -
  obtain s where c: "consistent ''conv:main'' ''conv_main'' (log_of ''conv_main'' ex_mg) s ex_mg"
    using ex_mg_consistent by blast
  have w: "good_world (ex_world ''e5'') (log_of ''conv_main'' ex_mg)" by code_simp
  have h: "map json_message (GetHistory ex_mg ''conv:main'') = [plain_message ''user'' ''hi'', plain_message ''user'' ''again'']"
    by code_simp
  from SetHistory_empty_not_durable [OF c w, of "ex_world []"] h show ?thesis by simp
qed

text \<open>
  The meta file decides which event is the leaf.  When a message is appended to the log but the meta
  file that should name its event is not written any more (the write fails, or the process stops
  between the two), the running process has the message and the log has its event, but a restart takes the
  leaf from the old meta file and shows the session without it.
\<close>

theorem stale_meta_hides_last_event:
  assumes "consistent key stem evs s mg" and "s_last_event s \<noteq> []"
    and "w_append w = Appended" and "fresh_id (w_id w) evs" and "\<not> w_meta_ok w"
  shows "GetHistory (AddFullMessage w key msg mg) key = GetHistory mg key @ [msg] \<and>
    (\<exists>ev \<in> set (log_of stem (AddFullMessage w key msg mg)). ev_message ev = Some (json_message msg)) \<and>
    GetHistory (reload w' stem (AddFullMessage w key msg mg)) key = map json_message (GetHistory mg key)"
proof -
  let ?s1 = "if IsZero (s_created s) then s\<lparr>s_created := w_now w\<rparr> else s"
  let ?s = "?s1\<lparr>s_messages := s_messages ?s1 @ [msg], s_updated := w_now w\<rparr>"
  let ?ev = "(newEventLocked w key ?s EventSessionMessage)\<lparr>ev_message := Some msg\<rparr>"
  let ?mg = "persistEventAndMetaLocked w key ?s ?ev mg"
  have cs: "key \<noteq> []" "CanonicalSessionKey key = key" "get_session mg key = Some s" "mg_storage mg"
    "fileStemForKey key = Some stem" "clean_log (map_of (mg_logs mg) stem) evs"
    "TrimSpace (s_last_event s) = s_last_event s" "json_core s = core (branch_state evs (s_last_event s))"
    "map_of (by_id evs) (s_last_event s) \<noteq> None" "meta_points_at (map_of (mg_metas mg) stem) key (s_last_event s)"
    using assms(1,2) by (auto simp: consistent_def)
  have m: "AddFullMessage w key msg mg = ?mg"
    using cs unfolding AddFullMessage_def Let_def by (simp add: ensureSessionLocked_def)
  have p: "get_session ?mg key = Some (?s\<lparr>s_last_event := w_id w\<rparr>)"
    "map_of (mg_logs ?mg) stem = Some \<lparr>lf_lines = map Some (evs @ [json_event ?ev]), lf_open = False\<rparr>"
    "map_of (mg_metas ?mg) stem = map_of (mg_metas mg) stem"
    using cs assms(3,5) clean_log_append [OF cs(6), of ?ev]
    by (simp_all add: persistEventAndMetaLocked_def persistMetaLocked_def write_meta_def Let_def AList.update_conv'
        get_session_def put_session_def)
  have fr: "fresh_id (ev_id (json_event ?ev)) evs" "TrimSpace (s_last_event s) \<noteq> ev_id (json_event ?ev)"
    using assms(4) cs(7,9) fresh_by_id(1) [OF assms(4)] by auto
  have b: "branch_state (evs @ [json_event ?ev]) (s_last_event s) = branch_state evs (s_last_event s)"
    using branch_old [OF fr] by (simp add: branch_state_def)
  have "map_of (by_id (evs @ [json_event ?ev])) (s_last_event s) \<noteq> None"
    using cs(9) assms(4) by (simp add: map_of_by_id_snoc fresh_id_def TrimSpace_id)
  then obtain s' where s': "get_session (reload w' stem ?mg) key = Some s'" "core s' = json_core s"
    using reload_core [OF cs(1,2) p(2) _ assms(2) cs(7), of "evs @ [json_event ?ev]"] p(3) cs(8,10) b
    by (auto simp: clean_log_def)
  have "json_event ?ev \<in> set (log_of stem ?mg)"
    using p(2) by (simp add: log_of_def List.map_filter_def)
  then show ?thesis
    using m p(1) s' cs(1-3) core_eqD [OF s'(2)]
    by (auto simp: GetHistory_def lookup_session_def intro!: bexI [of _ "json_event ?ev"])
qed

theorem stale_meta_hides_last_event_witness:
  "GetHistory (reload (ex_world []) ''conv_main''
     (AddFullMessage ((ex_world ''e5'')\<lparr>w_meta_ok := False\<rparr>) ''conv:main'' (plain_message ''user'' ''lost'') ex_mg)) ''conv:main''
   = [plain_message ''user'' ''hi'', plain_message ''user'' ''again'']"
proof -
  obtain s where c: "consistent ''conv:main'' ''conv_main'' (log_of ''conv_main'' ex_mg) s ex_mg"
    using ex_mg_consistent by blast
  have "log_of ''conv_main'' ex_mg \<noteq> []" by code_simp
  then have l: "s_last_event s \<noteq> []" using c by (auto simp: consistent_def)
  have f: "fresh_id ''e5'' (log_of ''conv_main'' ex_mg)" by code_simp
  have h: "map json_message (GetHistory ex_mg ''conv:main'') = [plain_message ''user'' ''hi'', plain_message ''user'' ''again'']"
    by code_simp
  show ?thesis
    using stale_meta_hides_last_event [OF c l, of "(ex_world ''e5'')\<lparr>w_meta_ok := False\<rparr>" "plain_message ''user'' ''lost''" "ex_world []"]
      f h by (simp add: ex_world_def)
qed

text \<open>A log with a line that is not an event stays one, whatever is appended to it.\<close>

definition broken_log :: "string \<Rightarrow> manager \<Rightarrow> bool" where
  "broken_log stem mg \<longleftrightarrow> (\<exists>f. map_of (mg_logs mg) stem = Some f \<and> None \<in> set (lf_lines f))"

lemma append_broken:
  "None \<in> set (lf_lines f) \<Longrightarrow> appendJSONLEvent out (Some f) ev = (g, ok) \<Longrightarrow> \<exists>f'. g = Some f' \<and> None \<in> set (lf_lines f')"
  by (cases out) (auto simp: appendJSONLEvent_def Let_def)

lemma meta_broken [preserve]:
  "broken_log stem mg \<Longrightarrow> broken_log stem (persistMetaLocked w key s mg)"
  by (simp add: broken_log_def persistMetaLocked_def write_meta_def split: option.splits)

lemma put_broken [preserve]: "broken_log stem mg \<Longrightarrow> broken_log stem (put_session key s mg)"
  by (simp add: broken_log_def)

lemma prune_broken [preserve]: "broken_log stem mg \<Longrightarrow> broken_log stem (pruneSessionsLocked now r mg)"
  by (simp add: broken_log_def)

lemma persist_broken [preserve]:
  assumes "broken_log stem mg" shows "broken_log stem (persistEventAndMetaLocked w key s ev mg)"
proof (cases "mg_storage mg \<and> fileStemForKey key \<noteq> None")
  case True
  then obtain st where st: "fileStemForKey key = Some st" by auto
  obtain g ok where a: "appendJSONLEvent (w_append w) (map_of (mg_logs mg) st) ev = (g, ok)" by force
  have "broken_log stem (case g of None \<Rightarrow> mg | Some x \<Rightarrow> mg\<lparr>mg_logs := AList.update st x (mg_logs mg)\<rparr>)"
    using assms a append_broken [of _ "w_append w" ev g ok]
    by (auto simp: broken_log_def AList.update_conv' split: option.splits)
  with True st a show ?thesis by (simp add: persistEventAndMetaLocked_def Let_def preserve)
qed (use assms in \<open>auto simp: persistEventAndMetaLocked_def preserve\<close>)

lemma ensure_broken [preserve]: "broken_log stem mg \<Longrightarrow> broken_log stem (fst (ensureSessionLocked w key mg))"
  by (simp add: ensureSessionLocked_def Let_def put_broken split: option.splits)

lemma mutate_broken [preserve]: "broken_log stem mg \<Longrightarrow> broken_log stem (mutate_session w key upd typ fill mg)"
  by (simp add: mutate_session_def Let_def preserve split: option.splits)

lemma add_broken [preserve]: "broken_log stem mg \<Longrightarrow> broken_log stem (AddFullMessage w key msg mg)"
  by (simp add: AddFullMessage_def Let_def case_prod_beta preserve)

lemma switch_broken [preserve]: "broken_log stem mg \<Longrightarrow> broken_log stem (fst (SwitchLeaf w key leaf mg))"
  by (simp add: SwitchLeaf_def Let_def preserve split: option.splits prod.splits)

lemma run_op_broken: "broken_log stem mg \<Longrightarrow> broken_log stem (run_op w key op mg)"
  by (cases op) (simp_all add: SetSummary_def TruncateHistory_def IncrementCompactionCount_def MarkMemoryFlush_def
      SetHistory_def Let_def preserve)

lemma read_lines_broken: "None \<in> set ls \<Longrightarrow> snd (read_lines ls) = False"
  by (induction ls rule: read_lines.induct) (auto split: prod.splits)

text \<open>
  A torn line costs the session.  Once a log has a line that is not an event (an append that was cut
  short leaves one), no operation on any session repairs it, with any outcome of its writes; and from
  then on a restart does not load the session of that log at all, however many events it holds.
\<close>

theorem torn_log_is_never_loaded:
  assumes "broken_log stem mg"
  shows "let mg' = fold (\<lambda>(w, key, op) g. run_op w key op g) ops mg in
    loadJSONLSession w stem (restart mg') = (restart mg', True) \<and> get_session (reload w stem mg') key = None"
proof -
  define mg' where "mg' = fold (\<lambda>(w, key, op) g. run_op w key op g) ops mg"
  have "broken_log stem mg'"
    unfolding mg'_def using assms
    by (induction ops arbitrary: mg) (auto simp: run_op_broken)
  then obtain f where f: "map_of (mg_logs mg') stem = Some f" "None \<in> set (lf_lines f)" by (auto simp: broken_log_def)
  have "readJSONLEvents (Some f) = None"
    using read_lines_broken [OF f(2)] by (cases "read_lines (lf_lines f)") (simp add: readJSONLEvents_def)
  then have "loadJSONLSession w stem (restart mg') = (restart mg', True)"
    using f(1) by (simp add: loadJSONLSession_def applySessionEvents_def Let_def restart_def)
  then show ?thesis by (simp add: mg'_def [symmetric] Let_def reload_def restart_def get_session_def)
qed

theorem torn_log_is_never_loaded_witness:
  "get_session (reload (ex_world []) ''conv_main'' (run_op (ex_world ''e7'') ''conv:main'' (OpSummary ''t'')
     (run_op ((ex_world ''e6'')\<lparr>w_append := Torn\<rparr>) ''conv:main'' (OpSummary ''s'') ex_mg))) ''conv:main'' = None"
proof -
  let ?mg = "run_op ((ex_world ''e6'')\<lparr>w_append := Torn\<rparr>) ''conv:main'' (OpSummary ''s'') ex_mg"
  have "(case map_of (mg_logs ?mg) ''conv_main'' of Some f \<Rightarrow> last (lf_lines f) = None \<and> lf_lines f \<noteq> [] | None \<Rightarrow> False)"
    by code_simp
  then have "broken_log ''conv_main'' ?mg" by (auto simp: broken_log_def split: option.splits) (metis last_in_set)
  from torn_log_is_never_loaded [OF this, of "[(ex_world ''e7'', ''conv:main'', OpSummary ''t'')]"] show ?thesis
    by (simp add: Let_def)
qed

end
