(* ===== verification/SessionLimits.thy ===== *)
theory SessionLimits
  imports SessionReplay
begin

text \<open>
  The bounds of the session manager: eviction by age and by number (\<^verbatim>\<open>manager_gc.go\<close>), what an eviction
  costs, the expiry of the model override (\<^verbatim>\<open>model_override.go\<close>) and the file names of the sessions
  (\<^verbatim>\<open>manager_paths.go\<close>).
\<close>

section \<open>Eviction\<close>

definition live_sessions :: "gtime \<Rightarrow> manager \<Rightarrow> (string \<times> session) list" where
  "live_sessions now mg =
     (if mg_ttl mg > 0 then filter (\<lambda>kv. \<not> ttl_expired (mg_ttl mg) now (snd kv)) (mg_sessions mg) else mg_sessions mg)"

lemma prune_sessions:
  "mg_sessions (pruneSessionsLocked now reserve mg) =
     (if mg_max mg \<le> 0 then live_sessions now mg else evict_lru (max 0 (mg_max mg - reserve)) (live_sessions now mg))"
  by (auto simp: pruneSessionsLocked_def Let_def live_sessions_def max_def)

lemma distinct_live: "distinct (map fst (mg_sessions mg)) \<Longrightarrow> distinct (map fst (live_sessions now mg))"
  by (auto simp: live_sessions_def intro: distinct_map_filter)

lemma filter_notin_take:
  assumes "distinct (map fst ss)" "mset es = mset ss" "n \<le> length ss"
  shows "mset (filter (\<lambda>kv. fst kv \<notin> set (map fst (take n es))) ss) = mset (drop n es)"
proof -
  have d: "distinct (map fst es)" using assms(1,2) by (metis mset_eq_imp_distinct_iff mset_map)
  have parts: "es = take n es @ drop n es" by simp
  have dj: "set (map fst (take n es)) \<inter> set (map fst (drop n es)) = {}"
    using d by (metis distinct_append map_append parts)
  let ?F = "filter (\<lambda>kv. fst kv \<notin> set (map fst (take n es)))"
  have "?F (take n es) = []" by (auto simp: filter_empty_conv)
  moreover have "?F (drop n es) = drop n es"
    using dj by (intro filter_True) auto
  moreover have "?F es = ?F (take n es) @ ?F (drop n es)" by (subst parts) (rule filter_append)
  ultimately have "?F es = drop n es" by simp
  moreover have "mset (?F ss) = mset (?F es)" using assms(2) by simp
  ultimately show ?thesis by simp
qed

lemma evict_lru_spec:
  assumes "distinct (map fst ss)" "0 \<le> allowed"
  shows "int (length (evict_lru allowed ss)) = min allowed (int (length ss))"
    and "kv \<in> set ss - set (evict_lru allowed ss) \<Longrightarrow> kv' \<in> set (evict_lru allowed ss) \<Longrightarrow>
      session_age_base (snd kv) \<le> session_age_base (snd kv')"
    and "set (evict_lru allowed ss) \<subseteq> set ss"
proof -
  let ?f = "\<lambda>kv :: string \<times> session. session_age_base (snd kv)"
  let ?es = "sort_key ?f ss" and ?n = "length ss - nat allowed"
  show "set (evict_lru allowed ss) \<subseteq> set ss" by (auto simp: evict_lru_def Let_def)
  have m: "int (length ss) > allowed \<Longrightarrow> mset (evict_lru allowed ss) = mset (drop ?n ?es)"
    using filter_notin_take [OF assms(1), of ?es ?n] by (simp add: evict_lru_def Let_def)
  show "int (length (evict_lru allowed ss)) = min allowed (int (length ss))"
  proof (cases "int (length ss) \<le> allowed")
    case False
    then have "length (evict_lru allowed ss) = length ss - ?n"
      using m by (metis length_drop length_sort not_le size_mset)
    with False assms(2) show ?thesis by simp
  qed (simp add: evict_lru_def)
  show "?f kv \<le> ?f kv'" if kv: "kv \<in> set ss - set (evict_lru allowed ss)" "kv' \<in> set (evict_lru allowed ss)"
  proof -
    have big: "int (length ss) > allowed" using kv by (auto simp: evict_lru_def split: if_splits)
    have s: "set (evict_lru allowed ss) = set (drop ?n ?es)" using m [OF big] by (metis set_mset_mset)
    have "kv \<in> set ?es" using kv by simp
    then have "kv \<in> set (take ?n ?es)" using kv s by (metis Diff_iff Un_iff append_take_drop_id set_append)
    moreover have "kv' \<in> set (drop ?n ?es)" using kv s by simp
    moreover have "sorted (map ?f (take ?n ?es) @ map ?f (drop ?n ?es))"
      by (simp flip: map_append)
    ultimately show ?thesis by (auto simp: sorted_append)
  qed
qed

text \<open>
  An eviction keeps what it must.  It only removes sessions; with a time to live, none that remains is
  older than that; with a limit, what remains fits under it (less the places reserved) with room to
  spare only if nothing was evicted for the number; and a session that is evicted for the number was
  updated no later than any that remains.
\<close>

theorem prune_evicts_least_recent:
  fixes mg :: manager and now :: gtime and reserve :: int
  defines "old \<equiv> set (mg_sessions mg)"
    and "new \<equiv> set (mg_sessions (pruneSessionsLocked now reserve mg))"
  assumes "distinct (map fst (mg_sessions mg))"
  shows "new \<subseteq> old \<and>
    (mg_ttl mg > 0 \<longrightarrow> (\<forall>kv \<in> new. \<not> ttl_expired (mg_ttl mg) now (snd kv))) \<and>
    (mg_max mg > 0 \<longrightarrow> int (length (mg_sessions (pruneSessionsLocked now reserve mg)))
        = min (max 0 (mg_max mg - reserve)) (int (length (live_sessions now mg)))) \<and>
    (\<forall>kv \<in> old - new. mg_ttl mg > 0 \<and> ttl_expired (mg_ttl mg) now (snd kv) \<or>
       mg_max mg > 0 \<and> (\<forall>kv' \<in> new. session_age_base (snd kv) \<le> session_age_base (snd kv')))"
proof -
  note d = distinct_live [OF assms(3), of now]
  let ?a = "max 0 (mg_max mg - reserve)"
  have live: "set (live_sessions now mg) \<subseteq> old" "\<And>kv. kv \<in> set (live_sessions now mg) \<Longrightarrow> mg_ttl mg > 0 \<Longrightarrow>
      \<not> ttl_expired (mg_ttl mg) now (snd kv)"
    "\<And>kv. kv \<in> old \<Longrightarrow> kv \<notin> set (live_sessions now mg) \<Longrightarrow> mg_ttl mg > 0 \<and> ttl_expired (mg_ttl mg) now (snd kv)"
    by (auto simp: live_sessions_def old_def split: if_splits)
  show ?thesis
  proof (cases "mg_max mg \<le> 0")
    case True
    then have "new = set (live_sessions now mg)" by (simp add: new_def prune_sessions)
    with live True show ?thesis by auto
  next
    case False
    then have n: "mg_sessions (pruneSessionsLocked now reserve mg) = evict_lru ?a (live_sessions now mg)"
      by (simp add: prune_sessions)
    have sub: "new \<subseteq> set (live_sessions now mg)" using evict_lru_spec(3) [OF d, of ?a] n by (simp add: new_def)
    have lru: "session_age_base (snd kv) \<le> session_age_base (snd kv')"
      if "kv \<in> set (live_sessions now mg) - new" "kv' \<in> new" for kv kv'
      using evict_lru_spec(2) [OF d, of ?a kv kv'] n that by (simp add: new_def)
    have gone: "mg_ttl mg > 0 \<and> ttl_expired (mg_ttl mg) now (snd kv) \<or>
        mg_max mg > 0 \<and> (\<forall>kv' \<in> new. session_age_base (snd kv) \<le> session_age_base (snd kv'))"
      if "kv \<in> old - new" for kv
      using that live(3) [of kv] lru [of kv] False by (cases "kv \<in> set (live_sessions now mg)") auto
    have size: "int (length (mg_sessions (pruneSessionsLocked now reserve mg))) = min ?a (int (length (live_sessions now mg)))"
      using evict_lru_spec(1) [OF d, of ?a] n by simp
    have young: "\<forall>kv \<in> new. \<not> ttl_expired (mg_ttl mg) now (snd kv)" if "mg_ttl mg > 0"
      using that sub live(2) by blast
    show ?thesis
      using sub live(1) young size gone by blast
  qed
qed

definition aged :: "string \<Rightarrow> gtime \<Rightarrow> string \<times> session" where
  "aged k t = (k, new_session k t)"

theorem prune_evicts_least_recent_witness:
  "map fst (mg_sessions (pruneSessionsLocked 50 1
     (ex_manager\<lparr>mg_sessions := [aged ''a'' 10, aged ''b'' 30, aged ''c'' 20], mg_max := 2\<rparr>))) = [''b''] \<and>
   int (length (mg_sessions (pruneSessionsLocked 50 1
     (ex_manager\<lparr>mg_sessions := [aged ''a'' 10, aged ''b'' 30, aged ''c'' 20], mg_max := 2\<rparr>)))) = 1"
proof -
  let ?mg = "ex_manager\<lparr>mg_sessions := [aged ''a'' 10, aged ''b'' 30, aged ''c'' 20], mg_max := 2\<rparr>"
  have d: "distinct (map fst (mg_sessions ?mg))" by code_simp
  have l: "length (live_sessions 50 ?mg) = 3" by code_simp
  have "map fst (mg_sessions (pruneSessionsLocked 50 1 ?mg)) = [''b'']" by code_simp
  then show ?thesis using prune_evicts_least_recent [OF d, of 50 1] l by (simp add: ex_manager_def)
qed

section \<open>The limit as an invariant\<close>

definition within_limit :: "manager \<Rightarrow> bool" where
  "within_limit mg \<longleftrightarrow> distinct (map fst (mg_sessions mg)) \<and>
     (mg_max mg > 0 \<longrightarrow> int (length (mg_sessions mg)) \<le> mg_max mg)"

lemma length_update:
  "length (AList.update k v xs) = (if k \<in> fst ` set xs then length xs else Suc (length xs))"
  by (induction xs) auto

lemma get_session_None: "get_session mg key = None \<longleftrightarrow> key \<notin> fst ` set (mg_sessions mg)"
  by (simp add: get_session_def map_of_eq_None_iff)

lemma within_put_old:
  "within_limit mg \<Longrightarrow> get_session mg key \<noteq> None \<Longrightarrow> within_limit (put_session key s mg)"
  unfolding get_session_None by (simp add: within_limit_def put_session_def length_update distinct_update)

lemma within_meta [simp]: "within_limit (persistMetaLocked w key s mg) = within_limit mg"
  by (auto simp: within_limit_def persistMetaLocked_def write_meta_def split: option.splits)

lemma get_session_logs [simp]: "get_session (mg\<lparr>mg_logs := l\<rparr>) key = get_session mg key"
  by (simp add: get_session_def)

lemma within_logs [simp]: "within_limit (mg\<lparr>mg_logs := l\<rparr>) = within_limit mg"
  by (simp add: within_limit_def)

lemma within_persist:
  "within_limit mg \<Longrightarrow> get_session mg key \<noteq> None \<Longrightarrow> within_limit (persistEventAndMetaLocked w key s ev mg)"
  by (auto simp: persistEventAndMetaLocked_def Let_def within_put_old split: option.splits prod.splits)

lemma within_prune_ensure:
  assumes "within_limit mg" "get_session mg key = None"
  shows "within_limit (fst (ensureSessionLocked w key (pruneSessionsLocked now 1 mg)))"
proof -
  let ?p = "pruneSessionsLocked now 1 mg"
  have g: "get_session ?p key = None" using prune_get [OF assms(2)] .
  have d: "distinct (map fst (live_sessions now mg))"
    using assms(1) distinct_live by (simp add: within_limit_def)
  have dp: "distinct (map fst (mg_sessions ?p))"
    using d by (auto simp: prune_sessions evict_lru_def Let_def intro: distinct_map_filter)
  have "mg_max mg > 0 \<Longrightarrow> int (length (mg_sessions ?p)) \<le> mg_max mg - 1"
    using evict_lru_spec(1) [OF d, of "max 0 (mg_max mg - 1)"] by (simp add: prune_sessions)
  moreover have "mg_max ?p = mg_max mg" by (simp add: pruneSessionsLocked_def Let_def)
  moreover have "key \<notin> fst ` set (mg_sessions ?p)" using g get_session_None by blast
  ultimately show ?thesis
    using g dp by (auto simp: ensureSessionLocked_def Let_def within_limit_def put_session_def length_update distinct_update)
qed

lemma ensure_get: "get_session (fst (ensureSessionLocked w key mg)) key \<noteq> None"
  by (auto simp: ensureSessionLocked_def Let_def split: option.splits)

lemma within_GetOrCreate: "within_limit mg \<Longrightarrow> within_limit (fst (GetOrCreate w key mg))"
  using within_prune_ensure [of mg "CanonicalSessionKey key" w "w_now w"]
  by (auto simp: GetOrCreate_def Let_def split: option.splits prod.splits)

lemma within_Add:
  assumes "within_limit mg" shows "within_limit (AddFullMessage w key msg mg)"
proof -
  let ?k = "CanonicalSessionKey key"
  let ?m = "if get_session mg ?k = None then pruneSessionsLocked (w_now w) 1 mg else mg"
  have "within_limit (fst (ensureSessionLocked w ?k ?m))"
    using assms within_prune_ensure [of mg ?k w "w_now w"] by (auto simp: ensureSessionLocked_def split: option.splits)
  then show ?thesis
    using ensure_get [of w ?k ?m] assms
    by (simp add: AddFullMessage_def Let_def case_prod_beta within_put_old within_persist)
qed

lemma within_mutate: "within_limit mg \<Longrightarrow> within_limit (mutate_session w key upd typ fill mg)"
  by (simp add: mutate_session_def Let_def within_put_old within_persist split: option.splits)

lemma within_run_op: "within_limit mg \<Longrightarrow> within_limit (run_op w key op mg)"
  by (cases op) (auto simp: within_Add within_mutate SetSummary_def TruncateHistory_def IncrementCompactionCount_def
      MarkMemoryFlush_def SetHistory_def SwitchLeaf_def Let_def within_put_old split: option.splits prod.splits)

text \<open>What can be done to any session, without the model override.\<close>

datatype manager_op = MOpen string | MOp string store_op

fun manager_step :: "world \<times> manager_op \<Rightarrow> manager \<Rightarrow> manager" where
  "manager_step (w, MOpen key) mg = fst (GetOrCreate w key mg)"
| "manager_step (w, MOp key op) mg = run_op w key op mg"

lemma within_step: "within_limit mg \<Longrightarrow> within_limit (manager_step x mg)"
  by (cases "(x, mg)" rule: manager_step.cases) (simp_all add: within_GetOrCreate within_run_op)

text \<open>
  C22: The number of sessions in memory never exceeds the configured limit, through any sequence of
  openings and history operations on any keys, whatever their writes come to.
\<close>

theorem session_limit_invariant:
  assumes "within_limit mg"
  shows "within_limit (fold manager_step ops mg)"
  using assms by (induction ops arbitrary: mg) (simp_all add: within_step)

theorem session_limit_invariant_witness:
  "within_limit (fold manager_step [(ex_world [], MOpen ''conv:a''), (ex_world ''e1'', MOp ''conv:b'' (OpAdd (plain_message ''user'' ''x'')))]
     (ex_manager\<lparr>mg_max := 1\<rparr>))"
  by (rule session_limit_invariant) (simp add: within_limit_def ex_manager_def)

section \<open>The model override\<close>

lemma get_persist_meta [simp]: "get_session (persistMetaLocked w key s mg) k = get_session mg k"
  by (auto simp: persistMetaLocked_def write_meta_def get_session_def split: option.splits)

lemma lookup_persist:
  "\<exists>e. lookup_session (persistEventAndMetaLocked w key s ev mg) k
     = (if CanonicalSessionKey k = key \<and> key \<noteq> [] then Some (s\<lparr>s_last_event := e\<rparr>) else lookup_session mg k)"
proof -
  have "s\<lparr>s_last_event := s_last_event s\<rparr> = s" by simp
  then show ?thesis
    by (auto simp: persistEventAndMetaLocked_def lookup_session_def Let_def split: option.splits prod.splits
        intro: exI [where x = "s_last_event s"])
qed

lemma lookup_put:
  "lookup_session (put_session key s mg) k = (if CanonicalSessionKey k = key \<and> key \<noteq> [] then Some s else lookup_session mg k)"
  by (auto simp: lookup_session_def Let_def)

lemma sessions_persist_meta [simp]: "mg_sessions (persistMetaLocked w key s mg) = mg_sessions mg"
  by (auto simp: persistMetaLocked_def write_meta_def split: option.splits)

lemma CanonicalSessionKey_idem [simp]: "CanonicalSessionKey (CanonicalSessionKey k) = CanonicalSessionKey k"
  by (simp add: CanonicalSessionKey_def TrimSpace_ToLower)

text \<open>
  A model override lasts exactly as long as it was given.  After it is set, the session has the
  (trimmed) model until the millisecond in which its time to live ends is over, and no model from then on, also
  when the clock is asked again earlier; without a time to live it has the model at any time.  Setting
  it is not bounded by the session limit: for an unknown key it adds a session and evicts none.
\<close>

theorem model_override_lifetime:
  assumes "CanonicalSessionKey key \<noteq> []" and "TrimSpace model \<noteq> []" and "0 \<le> w_now w"
    and "mg1 = fst (SetModelOverride w key model ttl mg)"
  shows "snd (EffectiveModelOverride w1 key mg1)
      = (if ttl > 0 \<and> UnixMilli (w_now w + ttl) > 0 \<and> UnixMilli (w_now w1) > UnixMilli (w_now w + ttl)
         then None else Some (TrimSpace model)) \<and>
    (snd (EffectiveModelOverride w1 key mg1) = None \<longrightarrow>
       snd (EffectiveModelOverride w2 key (fst (EffectiveModelOverride w1 key mg1))) = None) \<and>
    (get_session mg (CanonicalSessionKey key) = None \<longrightarrow>
       length (mg_sessions mg1) = Suc (length (mg_sessions mg)))"
proof -
  let ?k = "CanonicalSessionKey key"
  obtain s where s: "get_session mg1 ?k = Some s" "s_override s = TrimSpace model"
    "s_override_expires s = (if ttl > 0 then Some (UnixMilli (w_now w + ttl)) else None)"
    using assms by (simp add: SetModelOverride_def Let_def)
  have "get_session mg ?k = None \<Longrightarrow> length (mg_sessions mg1) = Suc (length (mg_sessions mg))"
    using assms(1,2,4) by (simp add: get_session_None SetModelOverride_def Let_def put_session_def length_update)
  then show ?thesis
    using s assms(1,2) by (auto simp: EffectiveModelOverride_def Let_def)
qed

theorem model_override_lifetime_witness:
  "let mg1 = fst (SetModelOverride (ex_world []) ''conv:a'' '' gpt '' (60 * nsSecond) ex_manager) in
     snd (EffectiveModelOverride (ex_world []) ''conv:a'' mg1) = Some ''gpt'' \<and>
     snd (EffectiveModelOverride ((ex_world [])\<lparr>w_now := 61 * nsSecond\<rparr>) ''conv:a'' mg1) = None"
proof -
  have h: "CanonicalSessionKey ''conv:a'' \<noteq> []" "TrimSpace '' gpt '' \<noteq> []" "TrimSpace '' gpt '' = ''gpt''" by code_simp+
  have "snd (EffectiveModelOverride (ex_world []) ''conv:a'' (fst (SetModelOverride (ex_world []) ''conv:a'' '' gpt '' (60 * nsSecond) ex_manager)))
      = Some ''gpt''"
    using model_override_lifetime [OF h(1,2) _ refl, of "ex_world []" "ex_world []" "60 * nsSecond"] h(3)
    by (simp add: ex_world_def UnixMilli_def nsSecond_def)
  moreover have "snd (EffectiveModelOverride ((ex_world [])\<lparr>w_now := 61 * nsSecond\<rparr>) ''conv:a''
      (fst (SetModelOverride (ex_world []) ''conv:a'' '' gpt '' (60 * nsSecond) ex_manager))) = None"
    using model_override_lifetime [OF h(1,2) _ refl, of "ex_world []" "(ex_world [])\<lparr>w_now := 61 * nsSecond\<rparr>" "60 * nsSecond"]
    by (simp add: ex_world_def UnixMilli_def nsSecond_def)
  ultimately show ?thesis by simp
qed

section \<open>What an eviction costs\<close>

text \<open>
  A session that has left memory starts over.  When a key whose log holds events is not in memory
  (its session was evicted), the next message does not continue that log: the session then has this
  message as its whole history, its event has no parent, and a restart shows this one message too,
  although all the old events are still in the log.
\<close>

theorem evicted_session_starts_over:
  assumes "mg_storage mg" and "key \<noteq> []" and "CanonicalSessionKey key = key" and "fileStemForKey key = Some stem"
    and "get_session mg key = None" and "clean_log (map_of (mg_logs mg) stem) evs" and "good_world w evs"
  shows "GetHistory (AddFullMessage w key msg mg) key = [msg] \<and>
    GetHistory (reload w' stem (AddFullMessage w key msg mg)) key = [json_message msg] \<and>
    (\<exists>ev. log_of stem (AddFullMessage w key msg mg) = evs @ [ev] \<and> ev_parent ev = [])"
proof -
  let ?mg1 = "put_session key (new_session key (w_now2 w)) (pruneSessionsLocked (w_now w) 1 mg)"
  let ?s0 = "new_session key (w_now2 w)"
  let ?s1 = "if IsZero (s_created ?s0) then ?s0\<lparr>s_created := w_now w\<rparr> else ?s0"
  let ?s = "?s1\<lparr>s_messages := s_messages ?s1 @ [msg], s_updated := w_now w\<rparr>"
  let ?ev = "(newEventLocked w key ?s EventSessionMessage)\<lparr>ev_message := Some msg\<rparr>"
  let ?mg = "persistEventAndMetaLocked w key ?s ?ev ?mg1"
  have m: "AddFullMessage w key msg mg = ?mg"
    using assms(1-3,5) prune_get [OF assms(5)] unfolding AddFullMessage_def Let_def
    by (simp add: ensureSessionLocked_def Let_def)
  have w: "w_append w = Appended" "w_meta_ok w" "fresh_id (w_id w) evs" "w_id w \<noteq> []" "TrimSpace (w_id w) = w_id w"
    using assms(7) by (simp_all add: good_world_def fresh_id_def TrimSpace_id)
  have last0: "s_last_event ?s = []" "s_key ?s = key" "s_messages ?s = [msg]"
    by (simp_all add: new_session_def empty_session_def)
  have p: "get_session ?mg key = Some (?s\<lparr>s_last_event := w_id w\<rparr>)"
    "map_of (mg_logs ?mg) stem = Some \<lparr>lf_lines = map Some (evs @ [json_event ?ev]), lf_open = False\<rparr>"
    "map_of (mg_metas ?mg) stem = Some (buildSessionMeta (?s\<lparr>s_last_event := w_id w\<rparr>))"
    using assms(1,4,6) w clean_log_append [OF assms(6), of ?ev]
    by (simp_all add: persistEventAndMetaLocked_def persistMetaLocked_def write_meta_def Let_def AList.update_conv'
        get_session_def put_session_def)
  have "branch (evs @ [json_event ?ev]) (ev_id (json_event ?ev)) = branch evs (ev_parent (json_event ?ev)) @ [json_event ?ev]"
    by (rule branch_snoc) (use w last0 in simp_all)
  then have b: "branch_state (evs @ [json_event ?ev]) (w_id w) = apply_event (json_event ?ev) empty_session"
    using last0 by (simp add: branch_state_def branch_blank)
  have i: "map_of (by_id (evs @ [json_event ?ev])) (w_id w) \<noteq> None"
    using by_id_complete [of "json_event ?ev" "evs @ [json_event ?ev]"] w by simp
  have mp: "meta_points_at (map_of (mg_metas ?mg) stem) key (w_id w)"
    using p(3) last0 w by (simp add: meta_points_at_def buildSessionMeta_def)
  from reload_core [OF assms(2,3) p(2) _ w(4,5) i mp, of w'] b obtain s' where
    s': "get_session (reload w' stem ?mg) key = Some s'" "core s' = core (apply_event (json_event ?ev) empty_session)"
    by (auto simp: clean_log_def)
  have "s_messages s' = [json_message msg]"
    using s'(2) unfolding core_apply by (simp add: core_def empty_session_def)
  moreover have "log_of stem ?mg = evs @ [json_event ?ev]"
  proof -
    have "List.map_filter id (map Some xs) = xs" for xs :: "session_event list"
      by (induction xs) (simp_all add: List.map_filter_simps)
    from this [of "evs @ [json_event ?ev]"] p(2) show ?thesis by (simp add: log_of_def)
  qed
  moreover have "ev_parent (json_event ?ev) = []" using last0 by simp
  ultimately show ?thesis
    unfolding m using p(1) s'(1) last0(3) assms(2,3) by (simp add: GetHistory_def lookup_session_def)
qed

theorem evicted_session_starts_over_witness:
  "GetHistory (AddFullMessage (ex_world ''e5'') ''conv:main'' (plain_message ''user'' ''new'') (restart ex_mg)) ''conv:main''
     = [plain_message ''user'' ''new'']"
proof -
  obtain s where c: "consistent ''conv:main'' ''conv_main'' (log_of ''conv_main'' ex_mg) s ex_mg"
    using ex_mg_consistent by blast
  have w: "good_world (ex_world ''e5'') (log_of ''conv_main'' ex_mg)" by code_simp
  have "clean_log (map_of (mg_logs (restart ex_mg)) ''conv_main'') (log_of ''conv_main'' ex_mg)"
    "mg_storage (restart ex_mg)" "fileStemForKey ''conv:main'' = Some ''conv_main''" "CanonicalSessionKey ''conv:main'' = ''conv:main''"
    "get_session (restart ex_mg) ''conv:main'' = None"
    using c by (simp_all add: consistent_def restart_def get_session_def)
  then show ?thesis
    using evicted_session_starts_over [of "restart ex_mg" "''conv:main''" "''conv_main''" "log_of ''conv_main'' ex_mg"] w
    by simp
qed

section \<open>File names\<close>

lemma ReplaceByte_inject:
  "d \<notin> set s \<Longrightarrow> d \<notin> set t \<Longrightarrow> c \<noteq> d \<Longrightarrow> ReplaceByte c [d] s = ReplaceByte c [d] t \<longleftrightarrow> s = t"
proof (induction s arbitrary: t)
  case Nil
  then show ?case by (cases t) (auto simp: ReplaceByte_def)
next
  case (Cons x s)
  then show ?case by (cases t) (auto simp: ReplaceByte_def split: if_splits)
qed

text \<open>
  Distinct keys have distinct files, unless one of them has an underscore: the colons of a key become
  underscores in its file name, so two keys without underscores share a file only if they are the same
  key, but two different group chats whose keys differ (a chat named like a thread, and that thread of
  another chat) write into one and the same event log.
\<close>

theorem session_files:
  "(CHR ''_'' \<notin> set (CanonicalSessionKey k1) \<and> CHR ''_'' \<notin> set (CanonicalSessionKey k2) \<and>
    fileStemForKey k1 \<noteq> None \<and> fileStemForKey k1 = fileStemForKey k2 \<longrightarrow>
      CanonicalSessionKey k1 = CanonicalSessionKey k2) \<and>
   (let p = ex_group ''c1_thread_9'' []; q = ex_group ''c1'' ''9'' in
      is_group_chat p \<and> is_group_chat q \<and> plain_params p \<and> plain_params q \<and>
      BuildConversationPeerSessionKey p \<noteq> BuildConversationPeerSessionKey q \<and>
      fileStemForKey (BuildConversationPeerSessionKey p) = fileStemForKey (BuildConversationPeerSessionKey q) \<and>
      fileStemForKey (BuildConversationPeerSessionKey p) \<noteq> None)"
proof -
  have stem: "fileStemForKey k = Some st \<Longrightarrow> ReplaceByte CHR '':'' ''_'' (CanonicalSessionKey k) = st" for k st
    by (auto simp: fileStemForKey_def sanitizeFilename_def Let_def split: if_splits)
  have ne: "CHR '':'' \<noteq> CHR ''_''" by simp
  have 1: "CHR ''_'' \<notin> set (CanonicalSessionKey k1) \<and> CHR ''_'' \<notin> set (CanonicalSessionKey k2) \<and>
    fileStemForKey k1 \<noteq> None \<and> fileStemForKey k1 = fileStemForKey k2 \<longrightarrow>
      CanonicalSessionKey k1 = CanonicalSessionKey k2"
    (is "?p \<longrightarrow> ?q")
  proof
    assume p: ?p
    then obtain st where "fileStemForKey k1 = Some st" "fileStemForKey k2 = Some st" by (cases "fileStemForKey k2") auto
    then have "ReplaceByte CHR '':'' ''_'' (CanonicalSessionKey k1) = ReplaceByte CHR '':'' ''_'' (CanonicalSessionKey k2)"
      using stem by simp
    then show ?q using ReplaceByte_inject [OF _ _ ne] p by blast
  qed
  have g: "is_group_chat (ex_group i th)" for i th
    by (simp add: is_group_chat_def ex_group_def peer_kind_of_def go_defs)
  have "plain_params (ex_group ''c1_thread_9'' [])" "plain_params (ex_group ''c1'' ''9'')"
    by (simp_all add: plain_params_def ex_group_def peer_kind_of_def peer_id_of_def colon_free_def go_defs)
  moreover have "BuildConversationPeerSessionKey (ex_group ''c1_thread_9'' []) \<noteq> BuildConversationPeerSessionKey (ex_group ''c1'' ''9'')"
    by code_simp
  moreover have "fileStemForKey (BuildConversationPeerSessionKey (ex_group ''c1_thread_9'' []))
      = fileStemForKey (BuildConversationPeerSessionKey (ex_group ''c1'' ''9''))" by code_simp
  moreover have "fileStemForKey (BuildConversationPeerSessionKey (ex_group ''c1'' ''9'')) \<noteq> None" by code_simp
  ultimately show ?thesis using 1 g by (simp add: Let_def)
qed

theorem session_files_witness: "CanonicalSessionKey '' Conv:A '' = CanonicalSessionKey ''conv:a''"
proof -
  have "CHR ''_'' \<notin> set (CanonicalSessionKey '' Conv:A '')" "CHR ''_'' \<notin> set (CanonicalSessionKey ''conv:a'')"
    "fileStemForKey '' Conv:A '' \<noteq> None" "fileStemForKey '' Conv:A '' = fileStemForKey ''conv:a''" by code_simp+
  with session_files [of "'' Conv:A ''" "''conv:a''"] show ?thesis by blast
qed

end
