(* ===== verification/Compaction.thy ===== *)
theory Compaction
  imports Transcript SessionLimits
begin

text \<open>
  Keeping a session within its context window: \<^verbatim>\<open>pkg/agent/loop_compaction.go\<close>.  A compaction asks the
  provider for a summary of the older messages and replaces them by it; before it, durable facts are
  flushed to the memory.  The provider is the argument \<open>chat\<close>: the reply (or the error) to the n-th
  question of a job.  While a job waits for the provider the conversation goes on; what it does to the
  session manager in the meantime is the argument \<open>meanwhile\<close>.  The clock, the new event ids and the outcome of
  the writes are one \<open>world\<close> per operation of the session manager.
\<close>

section \<open>Settings\<close>

record compaction_agent =
  ca_id :: string
  ca_window :: int
  ca_mode :: string
  ca_reserve :: int
  ca_keep_recent :: int
  ca_share :: rat
  ca_flush_enabled :: bool
  ca_flush_soft :: int

type_synonym llm = "nat \<Rightarrow> string \<Rightarrow> string + string"   \<comment> \<open>\<open>Inl\<close> an error, \<open>Inr\<close> the content\<close>

definition newline :: string where "newline = [CHR 0x0A]"

text \<open>Go's integer division and the conversion of a float to an integer truncate toward zero.\<close>

definition go_quot :: "int \<Rightarrow> int \<Rightarrow> int" where
  "go_quot a b = sgn a * sgn b * (\<bar>a\<bar> div \<bar>b\<bar>)"

definition go_trunc :: "rat \<Rightarrow> int" where
  "go_trunc q = (if q < 0 then - \<lfloor>- q\<rfloor> else \<lfloor>q\<rfloor>)"

definition normalizeCompactionMode :: "string \<Rightarrow> string" where
  "normalizeCompactionMode mode =
     (let m = ToLower (TrimSpace mode) in
      if m = [] \<or> m = ''safeguard'' then ''safeguard''
      else if m = ''off'' \<or> m = ''none'' \<or> m = ''disabled'' then ''off''
      else if m = ''legacy'' then ''legacy''
      else ''safeguard'')"

definition isCompactionModeEnabled :: "string \<Rightarrow> bool" where
  "isCompactionModeEnabled mode \<longleftrightarrow> normalizeCompactionMode mode \<noteq> ''off''"

datatype ThinkingLevel = ThinkingOff | ThinkingLow | ThinkingMedium | ThinkingHigh | ThinkingXHigh | ThinkingAdaptive

definition parseThinkingLevel :: "string \<Rightarrow> ThinkingLevel" where
  "parseThinkingLevel level =
     (let l = ToLower (TrimSpace level) in
      if l = ''adaptive'' then ThinkingAdaptive else if l = ''low'' then ThinkingLow
      else if l = ''medium'' then ThinkingMedium else if l = ''high'' then ThinkingHigh
      else if l = ''xhigh'' then ThinkingXHigh else ThinkingOff)"

definition estimateTokens :: "message list \<Rightarrow> int" where
  "estimateTokens messages = estimateTotalTokens [] messages"

definition is_chat :: "message \<Rightarrow> bool" where
  "is_chat msg \<longleftrightarrow> role msg = ''user'' \<or> role msg = ''assistant''"

section \<open>Summaries\<close>

definition transcript_lines :: "message list \<Rightarrow> string" where
  "transcript_lines batch = concat (map (\<lambda>m. role m @ '': '' @ content m @ newline) batch)"

definition summarizeBatch :: "llm \<Rightarrow> nat \<Rightarrow> message list \<Rightarrow> string \<Rightarrow> string + string" where
  "summarizeBatch chat n batch existingSummary =
     chat n (''Provide a concise summary of this conversation segment, preserving core context and key points.'' @ newline
       @ (if existingSummary \<noteq> [] then ''Existing context: '' @ existingSummary @ newline else [])
       @ newline @ ''CONVERSATION:'' @ newline @ transcript_lines batch)"

definition summary_format :: string where
  "summary_format = ''Summarize this conversation segment for future continuity.'' @ newline
     @ ''Output EXACTLY in this format (keep each section to 1-3 bullet points):'' @ newline @ newline
     @ ''## Intent'' @ newline @ ''- <what the user wants to achieve>'' @ newline @ newline
     @ ''## Decisions'' @ newline @ ''- <key decisions made during the conversation>'' @ newline @ newline
     @ ''## Tool Results'' @ newline @ ''- <important tool outputs with key data points>'' @ newline @ newline
     @ ''## Pending Actions'' @ newline @ ''- <what still needs to be done>'' @ newline @ newline
     @ ''## Constraints'' @ newline @ ''- <any limitations or requirements discovered>'' @ newline @ newline
     @ ''Keep total output under 300 words. Prioritize actionable information over conversational details.'' @ newline
     @ ''Omit empty sections. Do NOT include greetings, pleasantries, or meta-commentary.'' @ newline"

definition summarizeBatchStructured :: "llm \<Rightarrow> nat \<Rightarrow> message list \<Rightarrow> string \<Rightarrow> string + string" where
  "summarizeBatchStructured chat n batch existingSummary =
     map_sum id TrimSpace (chat n (summary_format
       @ (if existingSummary \<noteq> [] then newline @ ''Existing summary:'' @ newline @ existingSummary @ newline else [])
       @ newline @ ''Conversation:'' @ newline @ transcript_lines batch))"

definition splitMessagesByTokenBudget :: "message list \<Rightarrow> int \<Rightarrow> message list list" where
  "splitMessagesByTokenBudget messages maxTokens =
     (if messages = [] \<or> maxTokens \<le> 0 then []
      else case fold (\<lambda>msg (chunks, current, currentTokens).
               let msgTokens = estimateTokens [msg] in
               if current \<noteq> [] \<and> currentTokens + msgTokens > maxTokens
               then (chunks @ [current], [msg], msgTokens)
               else (chunks, current @ [msg], currentTokens + msgTokens)) messages ([], [], 0)
           of (chunks, current, _) \<Rightarrow> if current \<noteq> [] then chunks @ [current] else chunks)"

text \<open>\<^verbatim>\<open>[]rune(s)\<close>, each rune as its bytes; a byte that is no encoding becomes U+FFFD.\<close>

function runes :: "string \<Rightarrow> string list" where
  "runes [] = []"
| "runes (c # r) =
     (let w = rune_width (c # r) in
      (if w = 1 \<and> byte_of c \<ge> 0x80 then [CHR 0xEF, CHR 0xBF, CHR 0xBD] else take w (c # r))
      # runes (drop (w - 1) r))"
  by pat_completeness auto
termination by (relation "measure length") auto

definition tool_marker :: string where
  "tool_marker = newline @ ''...'' @ newline @ ''[tool result condensed]'' @ newline @ ''...'' @ newline"

text \<open>\<^verbatim>\<open>utils.TruncateHeadTailWithMarker\<close> at a maximum of 1100 runes with a tail of at least 300.\<close>

definition truncate_tool_result :: "string \<Rightarrow> string" where
  "truncate_tool_result s =
     (let rs = runes s; tailLen = nat (tail_budget 1100 300); headLen = 1100 - length tool_marker - tailLen in
      if length rs \<le> 1100 then s
      else concat (take headLen rs) @ tool_marker @ concat (drop (length rs - tailLen) rs))"

definition safe_message :: "message \<Rightarrow> message option" where
  "safe_message msg =
     (if role msg \<noteq> ''user'' \<and> role msg \<noteq> ''assistant'' \<and> role msg \<noteq> ''tool'' then None
      else
        let c = TrimSpace (content msg) in
        if c = [] then None
        else Some (msg\<lparr>content := (if role msg = ''tool'' \<and> length c > 1200 then truncate_tool_result c else c)\<rparr>))"

fun summarize_chunks :: "llm \<Rightarrow> nat \<Rightarrow> message list list \<Rightarrow> string \<Rightarrow> string + string" where
  "summarize_chunks chat n [] summary = Inr summary"
| "summarize_chunks chat n (chunk # chunks) summary =
     (case summarizeBatchStructured chat n chunk summary of
        Inl err \<Rightarrow> Inl err
      | Inr next \<Rightarrow> summarize_chunks chat (Suc n) chunks (TrimSpace next))"

definition max_chunk_tokens :: "compaction_agent \<Rightarrow> int" where
  "max_chunk_tokens a =
     (let t = go_trunc (fl64 (fl64 (of_int (ca_window a)) * fl64 (35/100))) - 1024 in if t < 512 then 512 else t)"

definition generateCompactionSummary :: "compaction_agent \<Rightarrow> llm \<Rightarrow> message list \<Rightarrow> string \<Rightarrow> string + string" where
  "generateCompactionSummary a chat history existingSummary =
     (let safeMessages = List.map_filter safe_message history in
      if safeMessages = [] then Inr (TrimSpace existingSummary)
      else summarize_chunks chat 0 (splitMessagesByTokenBudget safeMessages (max_chunk_tokens a)) (TrimSpace existingSummary))"

section \<open>The legacy compaction\<close>

definition oversized_note :: string where
  "oversized_note = newline @ ''[Note: Some oversized messages were omitted from this summary for efficiency.]''"

definition err_empty :: "string + string \<Rightarrow> string" where
  "err_empty r = (case r of Inl _ \<Rightarrow> [] | Inr s \<Rightarrow> s)"

definition legacy_summary :: "compaction_agent \<Rightarrow> llm \<Rightarrow> message list \<Rightarrow> string \<Rightarrow> string" where
  "legacy_summary a chat toSummarize summary =
     (let maxMessageTokens = go_quot (ca_window a) 2;
          fits = (\<lambda>m. \<not> int (length (content m)) div 2 > maxMessageTokens);
          validMessages = filter (\<lambda>m. is_chat m \<and> fits m) toSummarize;
          omitted = (\<exists>m \<in> set toSummarize. is_chat m \<and> \<not> fits m)
      in if validMessages = [] then []
         else
           let final =
             (if length validMessages > 10 then
                let mid = length validMessages div 2;
                    s1 = err_empty (summarizeBatch chat 0 (take mid validMessages) []);
                    s2 = err_empty (summarizeBatch chat 1 (drop mid validMessages) [])
                in case chat 2 (''Merge these two conversation summaries into one cohesive summary:'' @ newline @ newline
                          @ ''1: '' @ s1 @ newline @ newline @ ''2: '' @ s2) of
                     Inr merged \<Rightarrow> merged
                   | Inl _ \<Rightarrow> s1 @ '' '' @ s2
              else err_empty (summarizeBatch chat 0 validMessages summary))
           in if omitted \<and> final \<noteq> [] then final @ oversized_note else final)"

definition summarizeSession :: "compaction_agent \<Rightarrow> llm \<Rightarrow> (manager \<Rightarrow> manager) \<Rightarrow> (nat \<Rightarrow> world) \<Rightarrow> string \<Rightarrow> manager \<Rightarrow> manager" where
  "summarizeSession a chat meanwhile ws key mg =
     (let history = GetHistory mg key; summary = GetSummary mg key in
      if length history \<le> 4 then mg
      else
        let final = legacy_summary a chat (take (length history - 4) history) summary;
            mg1 = meanwhile mg
        in if final = [] then mg1
           else fst (Save (ws 2) key (TruncateHistory (ws 1) key 4 (SetSummary (ws 0) key final mg1))))"

section \<open>The compaction with safeguard\<close>

text \<open>From the newest message back: the first position where the messages from there on reach the budget.\<close>

fun keep_scan :: "message list \<Rightarrow> int \<Rightarrow> nat \<Rightarrow> int \<Rightarrow> nat \<Rightarrow> nat" where
  "keep_scan history budget 0 acc dflt = dflt"
| "keep_scan history budget (Suc i) acc dflt =
     (let acc' = acc + estimateTokens [history ! Suc i] in
      if acc' \<ge> budget then Suc i else keep_scan history budget i acc' dflt)"

definition keep_budget :: "compaction_agent \<Rightarrow> int" where
  "keep_budget a = (if ca_keep_recent a \<le> 0 then max 1024 (go_quot (ca_window a) 4) else ca_keep_recent a)"

definition keep_start :: "compaction_agent \<Rightarrow> message list \<Rightarrow> nat" where
  "keep_start a history =
     (let dflt = (if length history - 4 < 1 then 1 else length history - 4)
      in keep_scan history (keep_budget a) (length history - 1) 0 dflt)"

definition needs_compaction :: "compaction_agent \<Rightarrow> message list \<Rightarrow> bool" where
  "needs_compaction a history \<longleftrightarrow>
     (let b = go_trunc (fl64 (fl64 (of_int (ca_window a)) * ca_share a));
          historyBudget = (if b \<le> 0 then go_quot (ca_window a) 2 else b)
      in \<not> length history \<le> 6 \<and> \<not> (estimateTokens history \<le> historyBudget \<and> length history < 24))"

definition refresh_note :: string where
  "refresh_note = newline @ newline @ ''[Post-compaction refresh: Re-check AGENTS.md and MEMORY.md before continuing.]''"

definition compactWithSafeguard :: "compaction_agent \<Rightarrow> llm \<Rightarrow> (manager \<Rightarrow> manager) \<Rightarrow> (nat \<Rightarrow> world) \<Rightarrow> string \<Rightarrow> manager
    \<Rightarrow> manager \<times> (string + bool)" where
  "compactWithSafeguard a chat meanwhile ws key mg =
     (if normalizeCompactionMode (ca_mode a) = ''off'' then (mg, Inr False)
      else if normalizeCompactionMode (ca_mode a) = ''legacy'' then
        (let mg1 = summarizeSession a chat meanwhile ws key mg in
         if length (GetHistory mg1 key) < length (GetHistory mg key)
            \<or> TrimSpace (GetSummary mg1 key) \<noteq> TrimSpace (GetSummary mg key)
         then (fst (Save (ws 4) key (fst (IncrementCompactionCount (ws 3) key mg1))), Inr True)
         else (mg1, Inr False))
      else
        let history = sanitizeHistoryForProvider (GetHistory mg key) in
        if \<not> needs_compaction a history then (mg, Inr False)
        else
          let keepStart = keep_start a history in
          if keepStart = 0 \<or> keepStart \<ge> length history then (mg, Inr False)
          else
            let summary = generateCompactionSummary a chat (take keepStart history) (GetSummary mg key);
                mg1 = meanwhile mg
            in case summary of
                 Inl err \<Rightarrow> (mg1, Inl err)
               | Inr t \<Rightarrow>
                   if TrimSpace t = [] then (mg1, Inl ''compaction summary unavailable'')
                   else (fst (Save (ws 3) key (fst (IncrementCompactionCount (ws 2) key
                          (SetHistory (ws 1) key (drop keepStart history)
                            (SetSummary (ws 0) key (TrimSpace t @ refresh_note) mg1))))), Inr True))"

section \<open>The memory flush\<close>

fun recent_chat :: "message list \<Rightarrow> message list \<Rightarrow> message list" where
  "recent_chat [] recent = recent"
| "recent_chat (msg # older) recent =
     (if length recent < 12 then
        (if \<not> is_chat msg \<or> TrimSpace (content msg) = [] then recent_chat older recent
         else recent_chat older (msg # recent))
      else recent)"

definition flush_prompt :: "message list \<Rightarrow> string" where
  "flush_prompt recent =
     ''Extract durable memory from this chat '' @ [CHR 0xE2, CHR 0x80, CHR 0x94] @ '' facts worth remembering long-term.'' @ newline
     @ ''Return concise markdown bullets under these headings only:'' @ newline
     @ ''## Profile'' @ newline @ ''## Long-term Facts'' @ newline @ ''## Active Goals'' @ newline @ ''## Constraints'' @ newline
     @ ''## Open Threads'' @ newline @ ''## Deprecated/Resolved'' @ newline @ newline
     @ ''Rules:'' @ newline
     @ ''- Only extract information that would be useful in FUTURE conversations.'' @ newline
     @ ''- Skip transient details (greetings, acknowledgements, single-use commands).'' @ newline
     @ ''- Each bullet should be self-contained and understandable without context.'' @ newline
     @ ''- Omit sections with nothing to report.'' @ newline
     @ newline @ ''CHAT:'' @ newline @ transcript_lines recent"

text \<open>What is handed to the memory, if anything, and the error.  \<open>organize\<close> is \<^verbatim>\<open>OrganizeWriteback\<close> of the
  memory store: its error, if any.\<close>

definition flushMemorySnapshot :: "llm \<Rightarrow> (string \<Rightarrow> string option) \<Rightarrow> message list \<Rightarrow> string option \<times> string option" where
  "flushMemorySnapshot chat organize history =
     (if history = [] then (None, None)
      else
        let recent = recent_chat (rev history) [] in
        if recent = [] then (None, None)
        else case chat 0 (flush_prompt recent) of
               Inl err \<Rightarrow> (None, Some err)
             | Inr c \<Rightarrow>
                 if TrimSpace c = [] then (None, Some ''empty memory flush response'')
                 else (Some c, organize c))"

definition flush_trigger :: "compaction_agent \<Rightarrow> int" where
  "flush_trigger a =
     (let t = ca_window a - ca_reserve a - ca_flush_soft a in
      if t < go_quot (ca_window a) 3 then go_quot (ca_window a) 3 else t)"

definition maybeFlushMemoryBeforeCompaction :: "compaction_agent \<Rightarrow> llm \<Rightarrow> (string \<Rightarrow> string option) \<Rightarrow> (manager \<Rightarrow> manager)
    \<Rightarrow> (nat \<Rightarrow> world) \<Rightarrow> string \<Rightarrow> int \<Rightarrow> manager \<Rightarrow> manager \<times> string option \<times> (string + bool)" where
  "maybeFlushMemoryBeforeCompaction a chat organize meanwhile ws key tokenEstimate mg =
     (if \<not> isCompactionModeEnabled (ca_mode a) then (mg, None, Inr False)
      else if \<not> ca_flush_enabled a \<or> key = [] then (mg, None, Inr False)
      else if tokenEstimate < flush_trigger a then (mg, None, Inr False)
      else case GetCompactionState mg key of
             (compactionCount, flushedAtCount, _) \<Rightarrow>
               if flushedAtCount = compactionCount then (mg, None, Inr False)
               else case flushMemorySnapshot chat organize (GetHistory mg key) of
                      (written, Some err) \<Rightarrow> (meanwhile mg, written, Inl err)
                    | (written, None) \<Rightarrow>
                        (fst (Save (ws 1) key (MarkMemoryFlush (ws 0) key compactionCount (meanwhile mg))), written, Inr True))"

section \<open>The background job\<close>

definition summary_due :: "compaction_agent \<Rightarrow> message list \<Rightarrow> bool" where
  "summary_due a history \<longleftrightarrow> length history > 100 \<or> estimateTokens history > go_quot (ca_window a * 75) 100"

text \<open>\<^verbatim>\<open>maybeSummarize\<close> claims the key of the session in the map of busy keys; a job runs only for the caller
  that did, and gives the key back at its end.\<close>

definition summarize_key :: "compaction_agent \<Rightarrow> string \<Rightarrow> string" where
  "summarize_key a key = ca_id a @ '':'' @ key"

definition maybeSummarize :: "compaction_agent \<Rightarrow> string \<Rightarrow> manager \<Rightarrow> string list \<Rightarrow> string list \<times> bool" where
  "maybeSummarize a key mg summarizing =
     (if summary_due a (GetHistory mg key) \<and> summarize_key a key \<notin> set summarizing
      then (summarize_key a key # summarizing, True) else (summarizing, False))"

definition summarize_done :: "compaction_agent \<Rightarrow> string \<Rightarrow> string list \<Rightarrow> string list" where
  "summarize_done a key summarizing = removeAll (summarize_key a key) summarizing"

text \<open>The job itself: the flush (whose error is only logged), then the compaction.  The estimate is the one
  of the moment the job was started.\<close>

definition summarize_job :: "compaction_agent \<Rightarrow> llm \<Rightarrow> llm \<Rightarrow> (string \<Rightarrow> string option) \<Rightarrow> (manager \<Rightarrow> manager) \<Rightarrow> (manager \<Rightarrow> manager)
    \<Rightarrow> (nat \<Rightarrow> world) \<Rightarrow> (nat \<Rightarrow> world) \<Rightarrow> string \<Rightarrow> int \<Rightarrow> manager \<Rightarrow> manager \<times> (string + bool)" where
  "summarize_job a chat1 chat2 organize meanwhile1 meanwhile2 ws1 ws2 key tokenEstimate mg =
     compactWithSafeguard a chat2 meanwhile2 ws2 key
       (fst (maybeFlushMemoryBeforeCompaction a chat1 organize meanwhile1 ws1 key tokenEstimate mg))"

section \<open>The emergency compression\<close>

definition compression_note :: "nat \<Rightarrow> string" where
  "compression_note dropped = newline @ newline @ ''[System Note: Emergency compression dropped '' @ dec_nat dropped
     @ '' oldest messages due to context limit]''"

definition forceCompression :: "(nat \<Rightarrow> world) \<Rightarrow> string \<Rightarrow> manager \<Rightarrow> manager" where
  "forceCompression ws key mg =
     (let history = GetHistory mg key in
      if length history \<le> 4 then mg
      else
        let conversation = butlast (tl history) in
        if conversation = [] then mg
        else
          let mid = length conversation div 2;
              first = hd history;
              newHistory = [first\<lparr>content := content first @ compression_note mid\<rparr>] @ drop mid conversation @ [last history]
          in fst (Save (ws 1) key (SetHistory (ws 0) key newHistory mg)))"

section \<open>What a compaction needs of the session store\<close>

text \<open>The history, the summary, the number of compactions and the number at the last flush of a key.\<close>

type_synonym session_view = "message list \<times> string \<times> int \<times> int"

locale compaction_store =
  fixes view :: "'s \<Rightarrow> string \<Rightarrow> session_view option"
    and set_summary :: "'w \<Rightarrow> string \<Rightarrow> string \<Rightarrow> 's \<Rightarrow> 's"
    and set_history :: "'w \<Rightarrow> string \<Rightarrow> message list \<Rightarrow> 's \<Rightarrow> 's"
    and truncate :: "'w \<Rightarrow> string \<Rightarrow> int \<Rightarrow> 's \<Rightarrow> 's"
    and count_up :: "'w \<Rightarrow> string \<Rightarrow> 's \<Rightarrow> 's"
    and mark_flush :: "'w \<Rightarrow> string \<Rightarrow> int \<Rightarrow> 's \<Rightarrow> 's"
    and save :: "'w \<Rightarrow> string \<Rightarrow> 's \<Rightarrow> 's"
    and apart :: "string \<Rightarrow> string \<Rightarrow> bool"
  assumes set_summary: "view s k = Some (h, t, c, f) \<Longrightarrow> view (set_summary w k t' s) k = Some (h, t', c, f)"
    and set_history: "view s k = Some (h, t, c, f) \<Longrightarrow> view (set_history w k h' s) k = Some (h', t, c, f)"
    and truncate: "view s k = Some (h, t, c, f) \<Longrightarrow> view (truncate w k n s) k = Some (keep_last n h, t, c, f)"
    and count_up: "view s k = Some (h, t, c, f) \<Longrightarrow> view (count_up w k s) k = Some (h, t, c + 1, f)"
    and mark_flush: "view s k = Some (h, t, c, f) \<Longrightarrow> view (mark_flush w k n s) k = Some (h, t, c, n)"
    and save [simp]: "view (save w k s) k' = view s k'"
    and frames [simp]: "apart k k' \<Longrightarrow> view (set_summary w k t' s) k' = view s k'"
      "apart k k' \<Longrightarrow> view (set_history w k h' s) k' = view s k'"
      "apart k k' \<Longrightarrow> view (truncate w k n s) k' = view s k'"
      "apart k k' \<Longrightarrow> view (count_up w k s) k' = view s k'"
      "apart k k' \<Longrightarrow> view (mark_flush w k n s) k' = view s k'"
begin

lemma compacted:
  assumes "view s k = Some (h, t, c, f)"
  shows "view (save w4 k (count_up w3 k (set_history w2 k h' (set_summary w1 k t' s)))) k = Some (h', t', c + 1, f)"
  using count_up[OF set_history[OF set_summary[OF assms]]] by simp

lemma summarized:
  assumes "view s k = Some (h, t, c, f)"
  shows "view (save w3 k (truncate w2 k n (set_summary w1 k t' s))) k = Some (keep_last n h, t', c, f)"
  using truncate[OF set_summary[OF assms]] by simp

lemma counted: "view s k = Some (h, t, c, f) \<Longrightarrow> view (save w2 k (count_up w1 k s)) k = Some (h, t, c + 1, f)"
  using count_up by simp

lemma flushed: "view s k = Some (h, t, c, f) \<Longrightarrow> view (save w2 k (mark_flush w1 k n s)) k = Some (h, t, c, n)"
  using mark_flush by simp

lemma elsewhere:
  assumes "apart k k'"
  shows "view (save w4 k (count_up w3 k (set_history w2 k h' (set_summary w1 k t' s)))) k' = view s k'"
    "view (save w3 k (truncate w2 k n (set_summary w1 k t' s))) k' = view s k'"
    "view (save w2 k (mark_flush w1 k n s)) k' = view s k'"
  using assms by simp_all

end

definition session_view :: "manager \<Rightarrow> string \<Rightarrow> session_view option" where
  "session_view mg key = map_option (\<lambda>s. (s_messages s, s_summary s, s_compaction s, s_flush_count s)) (lookup_session mg key)"

lemma view_mutate:
  "lookup_session mg k = Some s \<Longrightarrow> \<exists>e. lookup_session (mutate_session w k upd typ fill mg) k
     = Some (case upd s of None \<Rightarrow> s | Some s1 \<Rightarrow> s1\<lparr>s_updated := w_now w, s_last_event := e\<rparr>)"
proof -
  assume a: "lookup_session mg k = Some s"
  then have k: "CanonicalSessionKey k \<noteq> []" "get_session mg (CanonicalSessionKey k) = Some s"
    by (auto simp: lookup_session_def Let_def split: if_splits)
  show ?thesis
  proof (cases "upd s")
    case None then show ?thesis using a k by (simp add: mutate_session_def Let_def)
  next
    case (Some s1)
    let ?s = "s1\<lparr>s_updated := w_now w\<rparr>"
    have self: "?s = s1\<lparr>s_updated := w_now w, s_last_event := s_last_event s1\<rparr>" by simp
    show ?thesis
    proof (cases "mg_storage mg")
      case True
      then show ?thesis using Some k lookup_persist[of w "CanonicalSessionKey k" ?s _ mg k]
        by (auto simp: mutate_session_def Let_def)
    next
      case False
      then have "lookup_session (mutate_session w k upd typ fill mg) k = Some ?s"
        using Some k by (simp add: mutate_session_def Let_def lookup_put)
      then show ?thesis using Some self by (metis option.simps(5))
    qed
  qed
qed

lemma view_of_mutate:
  "lookup_session mg k = Some s \<Longrightarrow> session_view (mutate_session w k upd typ fill mg) k
     = map_option (\<lambda>s. (s_messages s, s_summary s, s_compaction s, s_flush_count s)) (Some (case upd s of None \<Rightarrow> s | Some s1 \<Rightarrow> s1))"
  using view_mutate[of mg k s w upd "typ" fill] by (auto simp: session_view_def split: option.splits)

lemma view_mutate_other:
  assumes "CanonicalSessionKey k \<noteq> CanonicalSessionKey k'"
  shows "session_view (mutate_session w k upd typ fill mg) k' = session_view mg k'"
proof -
  have "lookup_session (persistEventAndMetaLocked w (CanonicalSessionKey k) s ev mg) k' = lookup_session mg k'" for s ev
    using lookup_persist[of w "CanonicalSessionKey k" s ev mg k'] assms by auto
  then show ?thesis using assms
    by (auto simp: session_view_def mutate_session_def Let_def lookup_put split: option.splits)
qed

lemma view_Save [simp]: "session_view (fst (Save w k mg)) k' = session_view mg k'"
  by (auto simp: session_view_def Save_def write_meta_def lookup_session_def get_session_def Let_def split: option.splits)

interpretation port: compaction_store session_view SetSummary SetHistory TruncateHistory
    "\<lambda>w k mg. fst (IncrementCompactionCount w k mg)" MarkMemoryFlush "\<lambda>w k mg. fst (Save w k mg)"
    "\<lambda>k k'. CanonicalSessionKey k \<noteq> CanonicalSessionKey k'"
proof unfold_locales
  fix mg k h t c f w n h' t'
  assume "session_view mg k = Some (h, t, c, f)"
  then obtain s where s: "lookup_session mg k = Some s" "s_messages s = h" "s_summary s = t" "s_compaction s = c" "s_flush_count s = f"
    by (auto simp: session_view_def)
  note view = view_of_mutate[OF s(1)] s(2-5)
  show "session_view (SetSummary w k t' mg) k = Some (h, t', c, f)" by (simp add: SetSummary_def view)
  show "session_view (SetHistory w k h' mg) k = Some (h', t, c, f)" by (simp add: SetHistory_def view)
  show "session_view (MarkMemoryFlush w k n mg) k = Some (h, t, c, n)" by (simp add: MarkMemoryFlush_def view)
  show "session_view (fst (IncrementCompactionCount w k mg)) k = Some (h, t, c + 1, f)"
    by (simp add: IncrementCompactionCount_def Let_def view)
  show "session_view (TruncateHistory w k n mg) k = Some (keep_last n h, t, c, f)"
    by (simp add: TruncateHistory_def view keep_last_def)
qed (simp_all add: SetSummary_def SetHistory_def TruncateHistory_def MarkMemoryFlush_def IncrementCompactionCount_def
      Let_def view_mutate_other)

lemma view_reads:
  "session_view mg k = Some (h, t, c, f) \<Longrightarrow> GetHistory mg k = h \<and> GetSummary mg k = t"
  "session_view mg k = Some (h, t, c, f) \<Longrightarrow> \<exists>a. GetCompactionState mg k = (c, f, a)"
  by (auto simp: session_view_def GetHistory_def GetSummary_def GetCompactionState_def)

section \<open>Lemmas: budgets\<close>

lemma estimateTokens_sum: "estimateTokens ms = sum_list (map estimateMessageTokens ms)"
  by (simp add: estimateTokens_def estimateTotalTokens_def)

lemma estimateTokens_simps [simp]: "estimateTokens [] = 0" "estimateTokens (m # ms) = estimateMessageTokens m + estimateTokens ms"
  "estimateTokens (xs @ ys) = estimateTokens xs + estimateTokens ys"
  by (simp_all add: estimateTokens_sum)

lemma keep_budget_pos: "0 < keep_budget a"
  by (simp add: keep_budget_def less_max_iff_disj)

lemma keep_scan_spec:
  assumes "i < length h" "acc = estimateTokens (drop (Suc i) h)" "acc < budget"
  shows "(0 < keep_scan h budget i acc d \<and> keep_scan h budget i acc d \<le> i \<and>
      budget \<le> estimateTokens (drop (keep_scan h budget i acc d) h) \<and>
      estimateTokens (drop (Suc (keep_scan h budget i acc d)) h) < budget)
    \<or> (keep_scan h budget i acc d = d \<and> estimateTokens (drop 1 h) < budget)"
  using assms
proof (induction i arbitrary: acc)
  case (Suc i)
  have split: "drop (Suc i) h = h ! Suc i # drop (Suc (Suc i)) h" using Suc.prems(1) by (simp add: Cons_nth_drop_Suc)
  show ?case
  proof (cases "acc + estimateMessageTokens (h ! Suc i) \<ge> budget")
    case True then show ?thesis using Suc.prems split by (simp add: Let_def)
  next
    case False
    then have "keep_scan h budget (Suc i) acc d = keep_scan h budget i (acc + estimateMessageTokens (h ! Suc i)) d"
      by (simp add: Let_def)
    moreover have "acc + estimateMessageTokens (h ! Suc i) = estimateTokens (drop (Suc i) h)" using Suc.prems split by simp
    ultimately show ?thesis using Suc.IH[of "acc + estimateMessageTokens (h ! Suc i)"] Suc.prems(1) False by auto
  qed
qed simp

lemma keep_start_cases:
  assumes "6 < length h"
  shows "0 < keep_start a h \<and> keep_start a h < length h \<and>
    (keep_budget a \<le> estimateTokens (drop (keep_start a h) h) \<and> estimateTokens (drop (Suc (keep_start a h)) h) < keep_budget a
     \<or> keep_start a h = length h - 4 \<and> estimateTokens (drop 1 h) < keep_budget a)"
proof -
  have "length h - 1 < length h" using assms by auto
  moreover have "\<And>r. r \<le> length h - Suc 0 \<Longrightarrow> r < length h" using assms by linarith
  ultimately show ?thesis using keep_scan_spec[of "length h - 1" h 0 "keep_budget a" "length h - 4"] assms keep_budget_pos[of a]
    by (auto simp: keep_start_def Let_def)
qed

definition chunk_ok :: "int \<Rightarrow> message list \<Rightarrow> bool" where
  "chunk_ok maxTokens chunk \<longleftrightarrow> length chunk = 1 \<or> estimateTokens chunk \<le> maxTokens"

definition seam_full :: "int \<Rightarrow> message list \<Rightarrow> message list \<Rightarrow> bool" where
  "seam_full maxTokens c d \<longleftrightarrow> maxTokens < estimateTokens c + estimateTokens [hd d]"

text \<open>The invariant of the splitting loop.\<close>

fun chunk_inv :: "int \<Rightarrow> message list \<Rightarrow> message list list \<times> message list \<times> int \<Rightarrow> bool" where
  "chunk_inv b done (chunks, current, n) \<longleftrightarrow> concat chunks @ current = done \<and> n = estimateTokens current
     \<and> list_all (\<lambda>c. c \<noteq> [] \<and> chunk_ok b c) chunks \<and> (current = [] \<longrightarrow> chunks = []) \<and> (current \<noteq> [] \<longrightarrow> chunk_ok b current)
     \<and> successively (seam_full b) (chunks @ (if current = [] then [] else [current]))"

abbreviation chunk_step :: "int \<Rightarrow> message \<Rightarrow> message list list \<times> message list \<times> int \<Rightarrow> message list list \<times> message list \<times> int" where
  "chunk_step b msg \<equiv> (\<lambda>(chunks, current, currentTokens).
     let msgTokens = estimateTokens [msg] in
     if current \<noteq> [] \<and> currentTokens + msgTokens > b then (chunks @ [current], [msg], msgTokens)
     else (chunks, current @ [msg], currentTokens + msgTokens))"

lemma chunk_step_inv:
  assumes "chunk_inv b done st"
  shows "chunk_inv b (done @ [msg]) (chunk_step b msg st)"
proof -
  obtain chunks cur n where st: "st = (chunks, cur, n)" by (cases st)
  show ?thesis
  proof (cases "cur = []")
    case True then show ?thesis using assms st by (auto simp: chunk_ok_def Let_def)
  next
    case False
    then show ?thesis using assms st
      by (auto simp: chunk_ok_def seam_full_def Let_def successively_append_iff hd_append)
  qed
qed

lemma chunk_fold_inv: "chunk_inv b done st \<Longrightarrow> chunk_inv b (done @ ms) (fold (chunk_step b) ms st)"
proof (induction ms arbitrary: "done" st)
  case (Cons m ms)
  from Cons.IH[OF chunk_step_inv[OF Cons.prems, of m]] show ?case by simp
qed simp

lemma split_chunks:
  assumes "0 < b"
  shows "concat (splitMessagesByTokenBudget ms b) = ms \<and> list_all (\<lambda>c. c \<noteq> [] \<and> chunk_ok b c) (splitMessagesByTokenBudget ms b)
    \<and> successively (seam_full b) (splitMessagesByTokenBudget ms b)"
proof (cases "ms = []")
  case False
  obtain chunks cur n where f: "fold (chunk_step b) ms ([], [], 0) = (chunks, cur, n)" by (cases "fold (chunk_step b) ms ([], [], 0)")
  have "chunk_inv b ([] @ ms) (chunks, cur, n)" unfolding f[symmetric] by (rule chunk_fold_inv) simp
  then show ?thesis using f False assms by (auto simp: splitMessagesByTokenBudget_def)
qed (simp add: splitMessagesByTokenBudget_def)

section \<open>Lemmas: the outcome of a compaction\<close>

lemma needs_long: "needs_compaction a h \<Longrightarrow> 6 < length h"
  by (simp add: needs_compaction_def Let_def)

lemma needs_start: "needs_compaction a h \<Longrightarrow> 0 < keep_start a h \<and> keep_start a h < length h"
  using keep_start_cases[OF needs_long] by simp

abbreviation (input) compacted_state :: "(nat \<Rightarrow> world) \<Rightarrow> string \<Rightarrow> string \<Rightarrow> message list \<Rightarrow> manager \<Rightarrow> manager" where
  "compacted_state ws key t kept mg \<equiv> fst (Save (ws 3) key (fst (IncrementCompactionCount (ws 2) key
     (SetHistory (ws 1) key kept (SetSummary (ws 0) key (TrimSpace t @ refresh_note) mg)))))"

lemma safeguard_cases:
  assumes "normalizeCompactionMode (ca_mode a) = ''safeguard''"
    and h_def: "h = sanitizeHistoryForProvider (GetHistory mg key)"
  obtains "\<not> needs_compaction a h" "compactWithSafeguard a chat meanwhile ws key mg = (mg, Inr False)"
  | e where "compactWithSafeguard a chat meanwhile ws key mg = (meanwhile mg, Inl e)"
  | t where "needs_compaction a h" "generateCompactionSummary a chat (take (keep_start a h) h) (GetSummary mg key) = Inr t"
      "TrimSpace t \<noteq> []" "compactWithSafeguard a chat meanwhile ws key mg
        = (compacted_state ws key t (drop (keep_start a h) h) (meanwhile mg), Inr True)"
proof (cases "needs_compaction a h")
  case False
  then show thesis using that(1) assms by (simp add: compactWithSafeguard_def Let_def)
next
  case need: True
  note eq = compactWithSafeguard_def[of a chat meanwhile ws key mg, folded h_def]
  show thesis
  proof (cases "generateCompactionSummary a chat (take (keep_start a h) h) (GetSummary mg key)")
    case (Inl e)
    then show thesis using that(2) need needs_start[OF need] assms(1) by (simp add: eq Let_def)
  next
    case (Inr t)
    then show thesis using that(2,3) need needs_start[OF need] assms(1)
      by (cases "TrimSpace t = []") (simp_all add: eq Let_def)
  qed
qed

lemma safeguard_succeeds:
  assumes "normalizeCompactionMode (ca_mode a) = ''safeguard''"
    and h_def: "h = sanitizeHistoryForProvider (GetHistory mg key)"
    and "needs_compaction a h" "generateCompactionSummary a chat (take (keep_start a h) h) (GetSummary mg key) = Inr t" "TrimSpace t \<noteq> []"
  shows "\<exists>mg'. compactWithSafeguard a chat meanwhile ws key mg = (mg', Inr True)"
  using assms(1,3-5) needs_start[OF assms(3)]
  by (simp add: compactWithSafeguard_def[of a chat meanwhile ws key mg, folded h_def] Let_def)

definition compaction_ops :: "(nat \<Rightarrow> world) \<Rightarrow> string \<Rightarrow> message list \<Rightarrow> (world \<times> store_op) list" where
  "compaction_ops ws t kept = [(ws 0, OpSummary (TrimSpace t @ refresh_note)), (ws 1, OpHistory kept), (ws 2, OpCompact)]"

lemma compacted_ops: "compacted_state ws key t kept mg = fst (Save (ws 3) key (run_ops key (compaction_ops ws t kept) mg))"
  by (simp add: compaction_ops_def run_ops_def)

lemma Save_consistent: "consistent key stem evs s mg \<Longrightarrow> w_meta_ok w \<Longrightarrow> consistent key stem evs s (fst (Save w key mg))"
  by (auto simp: consistent_def Save_def write_meta_def Let_def meta_points_at_def buildSessionMeta_def AList.update_conv'
      get_session_def)

lemma view_add:
  assumes "CanonicalSessionKey key \<noteq> []"
  shows "session_view (AddFullMessage w key msg mg) key
    = (case session_view mg key of None \<Rightarrow> Some ([msg], [], 0, 0) | Some (h, t, c, f) \<Rightarrow> Some (h @ [msg], t, c, f))"
proof -
  have p: "session_view (persistEventAndMetaLocked w (CanonicalSessionKey key) s ev g) key
      = Some (s_messages s, s_summary s, s_compaction s, s_flush_count s)" for s ev g
    using lookup_persist[of w "CanonicalSessionKey key" s ev g key] assms by (auto simp: session_view_def)
  have q: "session_view (put_session (CanonicalSessionKey key) s g) key
      = Some (s_messages s, s_summary s, s_compaction s, s_flush_count s)" for s g
    using assms by (simp add: session_view_def lookup_put)
  have v: "session_view mg key = map_option (\<lambda>s. (s_messages s, s_summary s, s_compaction s, s_flush_count s))
      (get_session mg (CanonicalSessionKey key))"
    using assms by (simp add: session_view_def lookup_session_def)
  show ?thesis
  proof (cases "get_session mg (CanonicalSessionKey key)")
    case (Some s)
    then show ?thesis using assms
      by (simp add: v AddFullMessage_def ensureSessionLocked_def Let_def p q)
  next
    case None
    then have "get_session (pruneSessionsLocked (w_now w) 1 mg) (CanonicalSessionKey key) = None" by (rule prune_get)
    then show ?thesis using None assms
      by (simp add: v AddFullMessage_def ensureSessionLocked_def Let_def p q new_session_def empty_session_def)
  qed
qed

lemma count_up_event:
  assumes "consistent key stem evs s mg" "good_world w evs"
  shows "\<exists>s'. get_session (fst (IncrementCompactionCount w key mg)) key = Some s' \<and> s_last_event s' \<noteq> []"
proof -
  have c: "mg_storage mg" "key \<noteq> []" "CanonicalSessionKey key = key" "get_session mg key = Some s" "s_key s = key"
    using assms(1) by (simp_all add: consistent_def)
  have w: "w_append w = Appended" "w_meta_ok w" "w_id w \<noteq> []" "trimmed (w_id w)"
    using assms(2) by (simp_all add: good_world_def fresh_id_def)
  let ?s = "s\<lparr>s_compaction := s_compaction s + 1, s_updated := w_now w\<rparr>"
  have "s_key ?s = key" using c by simp
  from persist_ok[OF assms(1) w(1,2) this, of "(newEventLocked w key ?s EventSessionCompactionInc)\<lparr>ev_compaction := s_compaction s + 1\<rparr>"]
  show ?thesis using c w by (simp add: IncrementCompactionCount_def mutate_session_def Let_def)
qed

lemma compacted_events:
  assumes "consistent key stem evs s mg" "good_run key stem (compaction_ops ws t kept) mg"
  shows "\<exists>evs' s'. evs' \<noteq> [] \<and> consistent key stem evs' s' (run_ops key (compaction_ops ws t kept) mg)"
proof -
  let ?ops = "[(ws 0, OpSummary (TrimSpace t @ refresh_note)), (ws 1, OpHistory kept)]"
  let ?m = "run_ops key ?ops mg"
  have split: "run_ops key (compaction_ops ws t kept) mg = fst (IncrementCompactionCount (ws 2) key ?m)"
    by (simp add: compaction_ops_def run_ops_def)
  have g: "good_run key stem ?ops mg" "good_world (ws 2) (log_of stem ?m)"
    using assms(2) by (simp_all add: compaction_ops_def run_ops_def)
  obtain e1 s1 where c1: "consistent key stem (evs @ e1) s1 ?m" using run_ops_consistent[OF assms(1) g(1)] by blast
  obtain e2 s2 where c2: "consistent key stem (evs @ e2) s2 (run_ops key (compaction_ops ws t kept) mg)"
    using run_ops_consistent[OF assms] by blast
  have "good_world (ws 2) (evs @ e1)" using g(2) clean_log_of[OF c1] by simp
  from count_up_event[OF c1 this] c2 have "s_last_event s2 \<noteq> []" by (auto simp: split consistent_def)
  then have "evs @ e2 \<noteq> []" using c2 by (auto simp: consistent_def by_id_def indexEvents_def split: if_splits)
  then show ?thesis using c2 by blast
qed

lemma view_key: "session_view mg key = Some x \<Longrightarrow> CanonicalSessionKey key \<noteq> []"
  by (auto simp: session_view_def lookup_session_def Let_def split: if_splits)

lemma view_add_fold:
  "session_view mg key = Some (h, t, c, f) \<Longrightarrow>
   session_view (fold (\<lambda>(w, m). AddFullMessage w key m) late mg) key = Some (h @ map snd late, t, c, f)"
proof (induction late arbitrary: mg h)
  case (Cons x late)
  obtain w m where x: "x = (w, m)" by force
  have "session_view (AddFullMessage w key m mg) key = Some (h @ [m], t, c, f)"
    by (simp add: view_add[OF view_key[OF Cons.prems]] Cons.prems)
  from Cons.IH[OF this] show ?case by (simp add: x)
qed simp

definition never_compacted :: "manager \<Rightarrow> string \<Rightarrow> bool" where
  "never_compacted mg key \<longleftrightarrow> (case session_view mg key of None \<Rightarrow> True | Some (h, t, c, f) \<Rightarrow> c = 0 \<and> f = 0)"

lemma never_compacted_add [preserve]:
  "CanonicalSessionKey key \<noteq> [] \<Longrightarrow> never_compacted mg key \<Longrightarrow> never_compacted (AddFullMessage w key msg mg) key"
  by (auto simp: never_compacted_def view_add split: option.splits)

lemma never_compacted_fold:
  "CanonicalSessionKey key \<noteq> [] \<Longrightarrow> never_compacted mg key \<Longrightarrow>
   never_compacted (fold (\<lambda>(w, m). AddFullMessage w key m) ms mg) key"
  by (induction ms arbitrary: mg) (auto simp: never_compacted_add)

lemma never_compacted_counts: "never_compacted mg key \<Longrightarrow> \<exists>a. GetCompactionState mg key = (0, 0, a)"
  by (auto simp: never_compacted_def session_view_def GetCompactionState_def split: option.splits)

lemma no_flush:
  assumes "GetCompactionState mg key = (c, c, t)"
  shows "maybeFlushMemoryBeforeCompaction a chat organize meanwhile ws key tokens mg = (mg, None, Inr False)"
  using assms by (simp add: maybeFlushMemoryBeforeCompaction_def)

lemma safeguard_success:
  assumes "normalizeCompactionMode (ca_mode a) = ''safeguard''"
    and "compactWithSafeguard a chat meanwhile ws key mg = (mg', Inr True)"
    and "h = sanitizeHistoryForProvider (GetHistory mg key)"
  obtains t where "needs_compaction a h" "generateCompactionSummary a chat (take (keep_start a h) h) (GetSummary mg key) = Inr t"
      "TrimSpace t \<noteq> []" "mg' = compacted_state ws key t (drop (keep_start a h) h) (meanwhile mg)"
  using assms(1,3)
proof (cases rule: safeguard_cases[where chat = chat and meanwhile = meanwhile and ws = ws])
  case (3 t)
  then show thesis using assms(2) that by simp
qed (use assms in simp_all)

section \<open>Properties\<close>

definition ex_agent :: "string \<Rightarrow> compaction_agent" where
  "ex_agent mode = \<lparr>ca_id = ''main'', ca_window = 100, ca_mode = mode, ca_reserve = 0, ca_keep_recent = 10, ca_share = 1/100,
     ca_flush_enabled = True, ca_flush_soft = 0\<rparr>"

definition ex_llm :: llm where "ex_llm n prompt = Inr ''summary''"

definition ex_store :: "bool \<Rightarrow> message list \<Rightarrow> manager" where
  "ex_store storage h = ex_manager\<lparr>mg_storage := storage,
     mg_sessions := [(''conv:main'', (new_session ''conv:main'' 1000)\<lparr>s_messages := h\<rparr>)]\<rparr>"

definition ex_turn :: "message list" where
  "ex_turn = [ex_say ''user'' ''list the files'', ex_calls [''1''], ex_result ''1'' ''there are many long names here'']"

definition ex_talk :: "message list" where
  "ex_talk = concat (replicate 3 [ex_say ''user'' ''how is it going'', ex_say ''assistant'' ''all is well''])"

definition ex_long :: "message list" where "ex_long = ex_talk @ ex_turn"

definition ex_worlds :: "nat \<Rightarrow> world" where "ex_worlds n = ex_world (''w'' @ dec_nat n)"

text \<open>
  A compaction keeps a suffix of the repaired history, never all of it: the shortest one that
  reaches the budget for recent messages, or the last four messages when everything after the first stays
  below the budget.
\<close>

theorem compaction_keeps_budget:
  assumes "needs_compaction a h"
  shows "0 < keep_start a h \<and> keep_start a h < length h \<and>
    (keep_budget a \<le> estimateTokens (drop (keep_start a h) h) \<and> estimateTokens (drop (Suc (keep_start a h)) h) < keep_budget a
     \<or> keep_start a h = length h - 4 \<and> estimateTokens (drop 1 h) < keep_budget a)"
  by (rule keep_start_cases[OF needs_long[OF assms]])

theorem compaction_keeps_budget_witness:
  "0 < keep_start (ex_agent []) ex_long \<and> keep_start (ex_agent []) ex_long < 9"
proof -
  have "needs_compaction (ex_agent []) ex_long" "length ex_long = 9" by code_simp+
  then show ?thesis using compaction_keeps_budget[of "ex_agent []" "ex_long"] by simp
qed

text \<open>
  The chunks that are summarised one after the other are the messages in order, none is empty,
  each fits the token budget or is a single message, and no message could have joined the chunk before.
\<close>

theorem chunks_partition:
  assumes "0 < b"
  shows "concat (splitMessagesByTokenBudget ms b) = ms \<and> list_all (\<lambda>c. c \<noteq> [] \<and> chunk_ok b c) (splitMessagesByTokenBudget ms b)
    \<and> successively (seam_full b) (splitMessagesByTokenBudget ms b)"
  by (rule split_chunks[OF assms])

theorem chunks_partition_witness:
  "concat (splitMessagesByTokenBudget ex_talk 10) = ex_talk \<and> successively (seam_full 10) (splitMessagesByTokenBudget ex_talk 10)"
  using chunks_partition[of 10 ex_talk] by simp

text \<open>
  C10: A compaction with safeguard does one of three things to the session, whatever the provider
  answers: it leaves everything as it is, it fails and leaves everything as the conversation has made it in
  the meantime, or it stores the summary of the older messages, keeps the recent ones and counts itself.
\<close>

theorem compaction_outcome:
  assumes "normalizeCompactionMode (ca_mode a) = ''safeguard''"
    and "session_view (meanwhile mg) key = Some (h', t', c, f)"
    and "compactWithSafeguard a chat meanwhile ws key mg = (mg', r)"
    and "h = sanitizeHistoryForProvider (GetHistory mg key)"
  shows "case r of
      Inr False \<Rightarrow> mg' = mg \<and> \<not> needs_compaction a h
    | Inl _ \<Rightarrow> mg' = meanwhile mg
    | Inr True \<Rightarrow> \<exists>t. generateCompactionSummary a chat (take (keep_start a h) h) (GetSummary mg key) = Inr t \<and> TrimSpace t \<noteq> []
        \<and> session_view mg' key = Some (drop (keep_start a h) h, TrimSpace t @ refresh_note, c + 1, f)
        \<and> (\<forall>k'. CanonicalSessionKey key \<noteq> CanonicalSessionKey k' \<longrightarrow> session_view mg' k' = session_view (meanwhile mg) k')"
  using assms(1,4)
proof (cases rule: safeguard_cases[where chat = chat and meanwhile = meanwhile and ws = ws])
  case (3 t)
  then have m: "mg' = compacted_state ws key t (drop (keep_start a h) h) (meanwhile mg)" "r = Inr True"
    using assms(3) by simp_all
  have "session_view mg' key = Some (drop (keep_start a h) h, TrimSpace t @ refresh_note, c + 1, f)"
    unfolding m(1) by (rule port.compacted[OF assms(2)])
  moreover have "session_view mg' k' = session_view (meanwhile mg) k'"
    if "CanonicalSessionKey key \<noteq> CanonicalSessionKey k'" for k'
    unfolding m(1) by (rule port.elsewhere(1)[OF that])
  ultimately show ?thesis using 3(2,3) m(2) by simp
qed (use assms(3) in auto)

lemma ex_summary: "List.map_filter safe_message h \<noteq> [] \<Longrightarrow> generateCompactionSummary a ex_llm h t = Inr ''summary''"
proof -
  have trim: "TrimSpace ''summary'' = ''summary''" by code_simp
  have many: "cs \<noteq> [] \<Longrightarrow> summarize_chunks ex_llm n cs u = Inr ''summary''" for cs n u
  proof (induction cs arbitrary: n u)
    case (Cons c cs)
    then show ?case by (cases "cs = []") (simp_all add: summarizeBatchStructured_def ex_llm_def trim)
  qed simp
  have "0 < max_chunk_tokens a" by (simp add: max_chunk_tokens_def Let_def)
  then have "concat (splitMessagesByTokenBudget ms (max_chunk_tokens a)) = ms" for ms using split_chunks by blast
  then have "ms \<noteq> [] \<Longrightarrow> splitMessagesByTokenBudget ms (max_chunk_tokens a) \<noteq> []" for ms by (metis concat.simps(1))
  then show "List.map_filter safe_message h \<noteq> [] \<Longrightarrow> generateCompactionSummary a ex_llm h t = Inr ''summary''"
    by (simp add: generateCompactionSummary_def Let_def many)
qed

lemma ex_facts:
  "session_view (ex_store False ex_long) ''conv:main'' = Some (ex_long, [], 0, 0)"
  "normalizeCompactionMode (ca_mode (ex_agent [])) = ''safeguard''"
  "sanitizeHistoryForProvider (GetHistory (ex_store False ex_long) ''conv:main'') = ex_long"
  "needs_compaction (ex_agent []) ex_long"
  "drop (keep_start (ex_agent []) ex_long) ex_long = [ex_result ''1'' ''there are many long names here'']"
  "List.map_filter safe_message (take (keep_start (ex_agent []) ex_long) ex_long) \<noteq> []"
  "TrimSpace ''summary'' \<noteq> []"
  by code_simp+

lemma ex_compacts:
  "\<exists>mg'. compactWithSafeguard (ex_agent []) ex_llm meanwhile ws ''conv:main'' (ex_store False ex_long) = (mg', Inr True)"
  using safeguard_succeeds[OF ex_facts(2) ex_facts(3)[symmetric] ex_facts(4) ex_summary[OF ex_facts(6)] ex_facts(7)] by blast

lemma ex_compacts_fst:
  "compactWithSafeguard (ex_agent []) ex_llm meanwhile ws ''conv:main'' (ex_store False ex_long)
   = (fst (compactWithSafeguard (ex_agent []) ex_llm meanwhile ws ''conv:main'' (ex_store False ex_long)), Inr True)"
  using ex_compacts[of meanwhile ws] by auto

theorem compaction_outcome_witness:
  "\<exists>t. session_view (fst (compactWithSafeguard (ex_agent []) ex_llm id ex_worlds ''conv:main'' (ex_store False ex_long))) ''conv:main''
     = Some (drop (keep_start (ex_agent []) ex_long) ex_long, t, 1, 0)"
  using compaction_outcome[OF ex_facts(2) _ ex_compacts_fst[of id ex_worlds] ex_facts(3)[symmetric], of ex_long "[]" 0 0] ex_facts(1)
  by auto

text \<open>
  C36: A message that arrives while the provider writes the summary is lost: the compaction writes back
  the suffix of the history it read before.
\<close>

theorem concurrent_message_lost:
  assumes "normalizeCompactionMode (ca_mode a) = ''safeguard''"
    and "session_view mg key = Some (h, t, c, f)"
    and "compactWithSafeguard a chat (AddFullMessage w key msg) ws key mg = (mg', Inr True)"
  shows "GetHistory (AddFullMessage w key msg mg) key = h @ [msg] \<and>
    GetHistory mg' key = drop (keep_start a (sanitizeHistoryForProvider h)) (sanitizeHistoryForProvider h)"
proof -
  note k = view_key[OF assms(2)]
  have v: "session_view (AddFullMessage w key msg mg) key = Some (h @ [msg], t, c, f)" by (simp add: view_add[OF k] assms(2))
  have h: "GetHistory mg key = h" using view_reads(1)[OF assms(2)] by simp
  from safeguard_success[OF assms(1,3) refl] obtain u where
    u: "mg' = compacted_state ws key u (drop (keep_start a (sanitizeHistoryForProvider h)) (sanitizeHistoryForProvider h)) (AddFullMessage w key msg mg)"
    unfolding h by blast
  show ?thesis unfolding u using view_reads(1)[OF v] view_reads(1)[OF port.compacted[OF v]] by simp
qed

theorem concurrent_message_lost_witness:
  "let mg = ex_store False ex_long;
       late = AddFullMessage (ex_world ''late'') ''conv:main'' (ex_say ''user'' ''stop!'') in
     GetHistory (late mg) ''conv:main'' = ex_long @ [ex_say ''user'' ''stop!''] \<and>
     GetHistory (fst (compactWithSafeguard (ex_agent []) ex_llm late ex_worlds ''conv:main'' mg)) ''conv:main''
       = [ex_result ''1'' ''there are many long names here'']"
proof -
  show ?thesis unfolding Let_def using concurrent_message_lost[OF ex_facts(2,1) ex_compacts_fst] ex_facts(3,5)
      view_reads(1)[OF ex_facts(1)] by simp
qed

text \<open>
  The kept suffix may begin with the results of a tool turn whose calls were summarised away.  The
  next request drops these results, and the summary was written without them.
\<close>

theorem compaction_orphans_results:
  assumes "normalizeCompactionMode (ca_mode a) = ''safeguard''"
    and "session_view (meanwhile mg) key = Some (h', t', c, f)"
    and "compactWithSafeguard a chat meanwhile ws key mg = (mg', Inr True)"
    and "h = sanitizeHistoryForProvider (GetHistory mg key)"
    and "drop (keep_start a h) h = rs @ rest" and "list_all is_tool rs"
  shows "sanitizeHistoryForProvider (GetHistory mg' key) = sanitizeHistoryForProvider rest"
proof -
  from safeguard_success[OF assms(1,3,4)] obtain u where
    u: "mg' = compacted_state ws key u (drop (keep_start a h) h) (meanwhile mg)" by blast
  have "GetHistory mg' key = rs @ rest" unfolding u assms(5) using view_reads(1)[OF port.compacted[OF assms(2)]] by simp
  then show ?thesis using orphans_dropped[OF assms(6), of san_start]
    by (simp add: sanitizeHistoryForProvider_def flushPendingToolCalls_def)
qed

theorem compaction_orphans_results_witness:
  "sanitizeHistoryForProvider (GetHistory (fst (compactWithSafeguard (ex_agent []) ex_llm id ex_worlds ''conv:main''
     (ex_store False ex_long))) ''conv:main'') = []"
proof -
  have "drop (keep_start (ex_agent []) ex_long) ex_long
      = [ex_result ''1'' ''there are many long names here''] @ []" by (simp add: ex_facts(5))
  from compaction_orphans_results[OF ex_facts(2) _ ex_compacts_fst ex_facts(3)[symmetric] this] ex_facts(1)
  show ?thesis by (simp add: sanitizeHistoryForProvider_def)
qed

text \<open>
  The legacy compaction truncates to the last four messages after it has asked the provider: with
  four or more messages in the meantime, the four it kept out of the summary are gone as well.
\<close>

theorem legacy_truncates_unsummarised:
  assumes "session_view mg key = Some (h, t, c, f)" "4 < length h"
    and "legacy_summary a chat (take (length h - 4) h) t = final" "final \<noteq> []" "4 \<le> length late"
  shows "GetHistory (summarizeSession a chat (fold (\<lambda>(w, m). AddFullMessage w key m) late) ws key mg) key
    = last_n 4 (map snd late)"
proof -
  have v: "session_view (fold (\<lambda>(w, m). AddFullMessage w key m) late mg) key = Some (h @ map snd late, t, c, f)"
    by (rule view_add_fold[OF assms(1)])
  have "summarizeSession a chat (fold (\<lambda>(w, m). AddFullMessage w key m) late) ws key mg
    = fst (Save (ws 2) key (TruncateHistory (ws 1) key 4 (SetSummary (ws 0) key final (fold (\<lambda>(w, m). AddFullMessage w key m) late mg))))"
    using assms view_reads(1)[OF assms(1)] by (simp add: summarizeSession_def Let_def)
  then have "GetHistory (summarizeSession a chat (fold (\<lambda>(w, m). AddFullMessage w key m) late) ws key mg) key
      = keep_last 4 (h @ map snd late)"
    using view_reads(1)[OF port.summarized[OF v]] by simp
  then show ?thesis using assms(2,5) by (simp add: keep_last_def last_n_def)
qed

theorem legacy_truncates_unsummarised_witness:
  "GetHistory (summarizeSession (ex_agent ''legacy'') ex_llm
      (fold (\<lambda>(w, m). AddFullMessage w ''conv:main'' m) (replicate 4 (ex_world ''n'', ex_say ''user'' ''new''))) ex_worlds ''conv:main''
      (ex_store False ex_long)) ''conv:main'' = replicate 4 (ex_say ''user'' ''new'')"
proof -
  have l: "4 < length ex_long" "4 \<le> length (replicate 4 (ex_world ''n'', ex_say ''user'' ''new''))"
    "legacy_summary (ex_agent ''legacy'') ex_llm (take (length ex_long - 4) ex_long) [] = ''summary''"
    by code_simp+
  show ?thesis using legacy_truncates_unsummarised[OF ex_facts(1) l(1,3) _ l(2)] by (simp add: last_n_def)
qed

text \<open>
  A compaction is durable: when its writes succeed, a process that restarts right after it shows
  the same compacted session.
\<close>

theorem compaction_survives_restart:
  assumes "normalizeCompactionMode (ca_mode a) = ''safeguard''"
    and "compactWithSafeguard a chat meanwhile ws key mg = (mg', Inr True)"
    and "h = sanitizeHistoryForProvider (GetHistory mg key)"
    and "generateCompactionSummary a chat (take (keep_start a h) h) (GetSummary mg key) = Inr t"
    and "new_key mg0 key stem" "meanwhile mg = run_ops key ops (fst (GetOrCreate w0 key mg0))"
    and "good_run key stem ops (fst (GetOrCreate w0 key mg0))"
    and "good_run key stem (compaction_ops ws t (drop (keep_start a h) h)) (meanwhile mg)" "w_meta_ok (ws 3)"
  shows "shown (reload w stem mg') key = shown mg' key"
proof -
  let ?ops = "compaction_ops ws t (drop (keep_start a h) h)"
  from safeguard_success[OF assms(1-3)] assms(4) have m: "mg' = fst (Save (ws 3) key (run_ops key ?ops (meanwhile mg)))"
    unfolding compacted_ops by (metis sum.inject(2))
  obtain ext s where c: "consistent key stem ([] @ ext) s (meanwhile mg)"
    using run_ops_consistent[OF new_consistent[OF assms(5)] assms(7)] assms(6) by metis
  obtain evs s' where c': "evs \<noteq> []" "consistent key stem evs s' (run_ops key ?ops (meanwhile mg))"
    using compacted_events[OF c assms(8)] by blast
  have c2: "consistent key stem evs s' mg'" unfolding m by (rule Save_consistent[OF c'(2) assms(9)])
  from consistent_reload[OF c2 c'(1), of w] obtain s2 where
    "get_session (reload w stem mg') key = Some s2" "core s2 = json_core s'" "s_last_event s2 = s_last_event s'" by blast
  then show ?thesis using c2 by (intro shown_core(1)[of key mg' s' _ s2]) (simp_all add: consistent_def)
qed

definition ex_adds :: "(world \<times> store_op) list" where
  "ex_adds = map (\<lambda>(i, m). (ex_world (''a'' @ dec_nat i), OpAdd m)) (enumerate 0 ex_long)"

definition ex_durable :: manager where
  "ex_durable = run_ops ''conv:main'' ex_adds (fst (GetOrCreate (ex_world []) ''conv:main'' ex_manager))"

lemma ex_durable_facts:
  "sanitizeHistoryForProvider (GetHistory ex_durable ''conv:main'') = ex_long"
  "new_key ex_manager ''conv:main'' ''conv_main''"
  "good_run ''conv:main'' ''conv_main'' ex_adds (fst (GetOrCreate (ex_world []) ''conv:main'' ex_manager))"
  "good_run ''conv:main'' ''conv_main'' (compaction_ops ex_worlds ''summary'' (drop (keep_start (ex_agent []) ex_long) ex_long)) ex_durable"
  "w_meta_ok (ex_worlds 3)"
  by code_simp+

theorem compaction_survives_restart_witness:
  "let mg' = fst (compactWithSafeguard (ex_agent []) ex_llm id ex_worlds ''conv:main'' ex_durable) in
     shown (reload (ex_world []) ''conv_main'' mg') ''conv:main'' = shown mg' ''conv:main''"
proof -
  note gen = ex_summary[OF ex_facts(6), of "ex_agent []" "GetSummary ex_durable ''conv:main''"]
  obtain mg' where c: "compactWithSafeguard (ex_agent []) ex_llm id ex_worlds ''conv:main'' ex_durable = (mg', Inr True)"
    using safeguard_succeeds[OF ex_facts(2) ex_durable_facts(1)[symmetric] ex_facts(4) gen ex_facts(7)] by blast
  have "shown (reload (ex_world []) ''conv_main'' mg') ''conv:main'' = shown mg' ''conv:main''"
    by (rule compaction_survives_restart[OF ex_facts(2) c ex_durable_facts(1)[symmetric] gen ex_durable_facts(2) _ ex_durable_facts(3)
          _ ex_durable_facts(5)])
       (simp_all add: ex_durable_facts(4), simp add: ex_durable_def)
  then show ?thesis by (simp add: c)
qed

text \<open>
  The memory is flushed at most once per compaction, and not before the first one: both counts
  start at zero, so whatever the first compaction of a session summarises never reaches the memory.
\<close>

theorem no_flush_before_first_compaction:
  assumes "lookup_session mg key = None" "CanonicalSessionKey key \<noteq> []"
    and "mg1 = fold (\<lambda>(w, m). AddFullMessage w key m) ms mg"
  shows "maybeFlushMemoryBeforeCompaction a chat organize meanwhile ws key tokens mg1 = (mg1, None, Inr False)"
proof -
  have "never_compacted mg key" using assms(1) by (simp add: never_compacted_def session_view_def)
  then show ?thesis using never_compacted_counts never_compacted_fold[OF assms(2)] no_flush assms(3) by metis
qed

theorem no_flush_before_first_compaction_witness:
  "let mg = fold (\<lambda>(w, m). AddFullMessage w ''conv:main'' m) [(ex_world ''a'', ex_say ''user'' ''my name is Ann'')] ex_manager in
     maybeFlushMemoryBeforeCompaction (ex_agent []) ex_llm (\<lambda>_. None) id ex_worlds ''conv:main'' 1000000 mg = (mg, None, Inr False)"
proof -
  have "lookup_session ex_manager ''conv:main'' = None" "CanonicalSessionKey ''conv:main'' \<noteq> []" by code_simp+
  from no_flush_before_first_compaction[OF this refl, where ms = "[(ex_world ''a'', ex_say ''user'' ''my name is Ann'')]"]
  show ?thesis by (simp add: Let_def)
qed

theorem flush_once_per_compaction:
  assumes "session_view mg key = Some (h, t, c, f)" "session_view (meanwhile mg) key = Some (h', t', c', f')"
    and "maybeFlushMemoryBeforeCompaction a chat organize meanwhile ws key tokens mg = (mg', written, r)"
    and "c' = c"
  shows "(written \<noteq> None \<longrightarrow> f \<noteq> c) \<and>
    (r = Inr True \<longrightarrow> session_view mg' key = Some (h', t', c, c) \<and>
       maybeFlushMemoryBeforeCompaction a chat' organize' meanwhile' ws' key tokens' mg' = (mg', None, Inr False))"
proof -
  obtain x where g: "GetCompactionState mg key = (c, f, x)" using view_reads(2)[OF assms(1)] by blast
  note eq = assms(3)[unfolded maybeFlushMemoryBeforeCompaction_def g]
  have "r = Inr True \<Longrightarrow> mg' = fst (Save (ws 1) key (MarkMemoryFlush (ws 0) key c (meanwhile mg)))"
    using eq by (auto split: if_splits prod.splits option.splits)
  moreover have "session_view (fst (Save (ws 1) key (MarkMemoryFlush (ws 0) key c (meanwhile mg)))) key = Some (h', t', c', c)"
    by (rule port.flushed[OF assms(2)])
  moreover have "written \<noteq> None \<longrightarrow> f \<noteq> c" using eq by (auto split: if_splits)
  ultimately show ?thesis using assms(4) view_reads(2) no_flush by blast
qed

definition ex_compacted :: manager where
  "ex_compacted = fst (IncrementCompactionCount (ex_world ''i'') ''conv:main'' (ex_store False ex_talk))"

theorem flush_once_per_compaction_witness:
  "let mg' = fst (maybeFlushMemoryBeforeCompaction (ex_agent []) ex_llm (\<lambda>_. None) id ex_worlds ''conv:main'' 1000 ex_compacted) in
     session_view mg' ''conv:main'' = Some (ex_talk, [], 1, 1) \<and>
     maybeFlushMemoryBeforeCompaction (ex_agent []) ex_llm (\<lambda>_. None) id ex_worlds ''conv:main'' 2000 mg' = (mg', None, Inr False)"
proof -
  let ?f = "maybeFlushMemoryBeforeCompaction (ex_agent []) ex_llm (\<lambda>_. None) id ex_worlds ''conv:main'' 1000 ex_compacted"
  have v: "session_view ex_compacted ''conv:main'' = Some (ex_talk, [], 1, 0)"
    "session_view (id ex_compacted) ''conv:main'' = Some (ex_talk, [], 1, 0)" by code_simp+
  have "snd ?f = (Some ''summary'', Inr True)" by code_simp
  then have f: "?f = (fst ?f, Some ''summary'', Inr True)" by (metis prod.collapse)
  show ?thesis unfolding Let_def using flush_once_per_compaction[OF v f refl] by simp
qed

end
