(* ===== verification/Cooldown.thy ===== *)
theory Cooldown
  imports Prelude
begin

text \<open>
  The cooldown tracker of the provider fallback chain: \<^verbatim>\<open>pkg/providers/cooldown.go\<close> and the failover
  reasons of \<^verbatim>\<open>pkg/providers/types.go\<close>.  The tracker is a map from provider names to entries; the
  instant \<^verbatim>\<open>nowFunc\<close> returns is an argument of every operation that reads the clock.  Powers are those
  of the integers: the floating-point powers of the source are exact on the small exponents it allows.
  The locale \<open>cooldown_port\<close> is the contract the fallback chain relies on; its interpretation on the
  tracker is at the end.
\<close>

section \<open>State\<close>

datatype failover_reason =
    FailoverAuth | FailoverRateLimit | FailoverBilling | FailoverTimeout
  | FailoverFormat | FailoverOverloaded | FailoverUnknown

fun reason_text :: "failover_reason \<Rightarrow> string" where
  "reason_text FailoverAuth = ''auth''"
| "reason_text FailoverRateLimit = ''rate_limit''"
| "reason_text FailoverBilling = ''billing''"
| "reason_text FailoverTimeout = ''timeout''"
| "reason_text FailoverFormat = ''format''"
| "reason_text FailoverOverloaded = ''overloaded''"
| "reason_text FailoverUnknown = ''unknown''"

text \<open>\<open>failureCounts\<close> is total: a Go map answers zero for an absent key.  The empty reason is \<open>None\<close>.\<close>

record cooldown_entry =
  errorCount :: int
  failureCounts :: "failover_reason \<Rightarrow> int"
  cooldownEnd :: gtime
  disabledUntil :: gtime
  disabledReason :: "failover_reason option"
  lastFailure :: gtime

record cooldown_tracker =
  entries :: "string \<rightharpoonup> cooldown_entry"
  failureWindow :: duration

definition defaultFailureWindow :: duration where "defaultFailureWindow = 24 * nsHour"

definition NewCooldownTracker :: cooldown_tracker where
  "NewCooldownTracker = \<lparr>entries = Map.empty, failureWindow = defaultFailureWindow\<rparr>"

definition fresh_entry :: cooldown_entry where
  "fresh_entry = \<lparr>errorCount = 0, failureCounts = (\<lambda>_. 0), cooldownEnd = zero_time,
     disabledUntil = zero_time, disabledReason = None, lastFailure = zero_time\<rparr>"

section \<open>Backoff\<close>

definition calculateStandardCooldown :: "int \<Rightarrow> duration" where
  "calculateStandardCooldown n0 =
     (let n = max 1 n0; e = min (n - 1) 3; ms = 60000 * 5 ^ nat e
      in min 3600000 ms * nsMillisecond)"

definition calculateBillingCooldown :: "int \<Rightarrow> duration" where
  "calculateBillingCooldown n0 =
     (let baseMs = 5 * 60 * 60 * 1000; maxMs = 24 * 60 * 60 * 1000;
          n = max 1 n0; e = min (n - 1) 10
      in min maxMs (baseMs * 2 ^ nat e) * nsMillisecond)"

section \<open>Operations\<close>

definition getOrCreate :: "cooldown_tracker \<Rightarrow> string \<Rightarrow> cooldown_entry" where
  "getOrCreate ct provider = (case entries ct provider of None \<Rightarrow> fresh_entry | Some e \<Rightarrow> e)"

definition fail_entry :: "duration \<Rightarrow> cooldown_entry \<Rightarrow> failover_reason \<Rightarrow> gtime \<Rightarrow> cooldown_entry" where
  "fail_entry window e0 reason now =
     (let e1 = (if \<not> IsZero (lastFailure e0) \<and> TSub now (lastFailure e0) > window
                then e0\<lparr>errorCount := 0, failureCounts := (\<lambda>_. 0)\<rparr> else e0);
          e2 = e1\<lparr>errorCount := errorCount e1 + 1,
                  failureCounts := (failureCounts e1)(reason := failureCounts e1 reason + 1),
                  lastFailure := now\<rparr>
      in if reason = FailoverBilling
         then e2\<lparr>disabledUntil := now + calculateBillingCooldown (failureCounts e2 FailoverBilling),
                 disabledReason := Some FailoverBilling\<rparr>
         else e2\<lparr>cooldownEnd := now + calculateStandardCooldown (errorCount e2)\<rparr>)"

definition MarkFailure :: "cooldown_tracker \<Rightarrow> string \<Rightarrow> failover_reason \<Rightarrow> gtime \<Rightarrow> cooldown_tracker" where
  "MarkFailure ct provider reason now =
     ct\<lparr>entries := (entries ct)(provider \<mapsto> fail_entry (failureWindow ct) (getOrCreate ct provider) reason now)\<rparr>"

definition MarkSuccess :: "cooldown_tracker \<Rightarrow> string \<Rightarrow> cooldown_tracker" where
  "MarkSuccess ct provider =
     (case entries ct provider of
        None \<Rightarrow> ct
      | Some e \<Rightarrow> ct\<lparr>entries := (entries ct)(provider \<mapsto>
          e\<lparr>errorCount := 0, failureCounts := (\<lambda>_. 0), cooldownEnd := zero_time,
            disabledUntil := zero_time, disabledReason := None\<rparr>)\<rparr>)"

definition billing_blocked :: "cooldown_entry \<Rightarrow> gtime \<Rightarrow> bool" where
  "billing_blocked e now \<longleftrightarrow> \<not> IsZero (disabledUntil e) \<and> Before now (disabledUntil e)"

definition standard_blocked :: "cooldown_entry \<Rightarrow> gtime \<Rightarrow> bool" where
  "standard_blocked e now \<longleftrightarrow> \<not> IsZero (cooldownEnd e) \<and> Before now (cooldownEnd e)"

definition IsAvailable :: "cooldown_tracker \<Rightarrow> string \<Rightarrow> gtime \<Rightarrow> bool" where
  "IsAvailable ct provider now =
     (case entries ct provider of
        None \<Rightarrow> True
      | Some e \<Rightarrow> \<not> billing_blocked e now \<and> \<not> standard_blocked e now)"

definition unavailabilityReason :: "cooldown_tracker \<Rightarrow> string \<Rightarrow> gtime \<Rightarrow> failover_reason option" where
  "unavailabilityReason ct provider now =
     (case entries ct provider of
        None \<Rightarrow> None
      | Some e \<Rightarrow>
          if billing_blocked e now then
            (case disabledReason e of Some r \<Rightarrow> Some r | None \<Rightarrow> Some FailoverBilling)
          else if standard_blocked e now then Some FailoverRateLimit
          else None)"

text \<open>\<^verbatim>\<open>Duration.Round(time.Second)\<close> of a non-negative duration (halves round up) and the \<^verbatim>\<open>String\<close> of a
  whole number of seconds.\<close>

definition round_to :: "duration \<Rightarrow> duration \<Rightarrow> duration" where
  "round_to d m = (let r = d mod m in if r + r < m then d - r else min max_int64 (d + m - r))"

definition seconds_text :: "duration \<Rightarrow> string" where
  "seconds_text d =
     (let s = d div nsSecond; h = s div 3600; mi = (s div 60) mod 60; sec = s mod 60
      in if h > 0 then dec_int h @ ''h'' @ dec_int mi @ ''m'' @ dec_int sec @ ''s''
         else if mi > 0 then dec_int mi @ ''m'' @ dec_int sec @ ''s''
         else dec_int sec @ ''s'')"

definition unavailabilityDetail :: "cooldown_tracker \<Rightarrow> string \<Rightarrow> gtime \<Rightarrow> string" where
  "unavailabilityDetail ct provider now =
     (case entries ct provider of
        None \<Rightarrow> []
      | Some e \<Rightarrow>
          if billing_blocked e now then
            ''provider '' @ provider @ '' in billing cooldown (''
              @ seconds_text (round_to (TSub (disabledUntil e) now) nsSecond) @ '' remaining)''
          else if standard_blocked e now then
            ''provider '' @ provider @ '' in cooldown (''
              @ seconds_text (round_to (TSub (cooldownEnd e) now) nsSecond) @ '' remaining)''
          else [])"

definition CooldownRemaining :: "cooldown_tracker \<Rightarrow> string \<Rightarrow> gtime \<Rightarrow> duration" where
  "CooldownRemaining ct provider now =
     (case entries ct provider of
        None \<Rightarrow> 0
      | Some e \<Rightarrow>
          let r1 = (if billing_blocked e now then max 0 (TSub (disabledUntil e) now) else 0)
          in if standard_blocked e now then max r1 (TSub (cooldownEnd e) now) else r1)"

definition ErrorCount :: "cooldown_tracker \<Rightarrow> string \<Rightarrow> int" where
  "ErrorCount ct provider = (case entries ct provider of None \<Rightarrow> 0 | Some e \<Rightarrow> errorCount e)"

definition FailureCount :: "cooldown_tracker \<Rightarrow> string \<Rightarrow> failover_reason \<Rightarrow> int" where
  "FailureCount ct provider reason =
     (case entries ct provider of None \<Rightarrow> 0 | Some e \<Rightarrow> failureCounts e reason)"

section \<open>The backoff tables\<close>

lemma std_table:
  "calculateStandardCooldown n =
     (if n \<le> 1 then 60 else if n = 2 then 300 else if n = 3 then 1500 else 3600) * nsSecond"
proof -
  consider "n \<le> 1" | "n = 2" | "n = 3" | "4 \<le> n" by linarith
  then show ?thesis
    by cases (simp_all add: calculateStandardCooldown_def Let_def nsMillisecond_def nsSecond_def)
qed

lemma bill_table:
  "calculateBillingCooldown n =
     (if n \<le> 1 then 5 else if n = 2 then 10 else if n = 3 then 20 else 24) * nsHour"
proof -
  have big: "min 86400000 (18000000 * 2 ^ k) = (86400000 :: int)" if "3 \<le> k" for k :: nat
    using power_increasing [of 3 k "2 :: int"] that by simp
  consider "n \<le> 1" | "n = 2" | "n = 3" | "4 \<le> n" by linarith
  then show ?thesis
  proof cases
    case 4
    then have "3 \<le> nat (min (max 1 n - 1) 10)" by simp
    from big [OF this] 4 show ?thesis
      by (simp add: calculateBillingCooldown_def Let_def nsMillisecond_def nsSecond_def nsHour_def)
  qed (simp_all add: calculateBillingCooldown_def Let_def nsMillisecond_def nsSecond_def nsHour_def)
qed

lemma std_bounds: "60 * nsSecond \<le> calculateStandardCooldown n" "calculateStandardCooldown n \<le> 3600 * nsSecond"
  by (simp_all add: std_table nsSecond_def)

lemma bill_bounds: "5 * nsHour \<le> calculateBillingCooldown n" "calculateBillingCooldown n \<le> 24 * nsHour"
  by (simp_all add: bill_table nsHour_def nsSecond_def)

section \<open>Availability\<close>

lemma positive_not_zero: "0 \<le> t \<Longrightarrow> \<not> IsZero t"
  by (simp add: IsZero_def zero_time_def)

lemma blocked_until:
  "billing_blocked e now \<Longrightarrow> now \<le> t \<Longrightarrow> billing_blocked e t \<longleftrightarrow> t < disabledUntil e"
  "standard_blocked e now \<Longrightarrow> now \<le> t \<Longrightarrow> standard_blocked e t \<longleftrightarrow> t < cooldownEnd e"
  by (simp_all add: billing_blocked_def standard_blocked_def Before_def)

lemma blocked_later:
  "billing_blocked e t \<Longrightarrow> now \<le> t \<Longrightarrow> billing_blocked e now"
  "standard_blocked e t \<Longrightarrow> now \<le> t \<Longrightarrow> standard_blocked e now"
  by (simp_all add: billing_blocked_def standard_blocked_def Before_def)

lemma TSub_small: "TSub a b < max_int64 \<Longrightarrow> b < a \<Longrightarrow> TSub a b = a - b"
  by (auto simp: TSub_def max_int64_def min_int64_def max_def min_def split: if_splits)

lemma blocked_pos:
  "billing_blocked e now \<Longrightarrow> 0 < TSub (disabledUntil e) now"
  "standard_blocked e now \<Longrightarrow> 0 < TSub (cooldownEnd e) now"
  by (auto simp: billing_blocked_def standard_blocked_def Before_def TSub_def max_int64_def min_int64_def)

lemma remaining_cases:
  assumes "entries ct p = Some e" and "CooldownRemaining ct p now < max_int64"
  shows "CooldownRemaining ct p now =
     max (if billing_blocked e now then disabledUntil e - now else 0)
         (if standard_blocked e now then cooldownEnd e - now else 0)"
proof -
  have "billing_blocked e now \<Longrightarrow> TSub (disabledUntil e) now = disabledUntil e - now"
    using assms by (intro TSub_small) (auto simp: CooldownRemaining_def billing_blocked_def Before_def Let_def split: if_splits)
  moreover have "standard_blocked e now \<Longrightarrow> TSub (cooldownEnd e) now = cooldownEnd e - now"
    using assms by (intro TSub_small) (auto simp: CooldownRemaining_def standard_blocked_def Before_def Let_def split: if_splits)
  ultimately show ?thesis
    using assms blocked_pos [of e now] by (auto simp: CooldownRemaining_def)
qed

text \<open>
  The queries of the tracker agree.  At any instant the provider is available exactly when no
  cooldown remains, exactly when there is no reason and no detail text for its being unavailable; and
  the remaining time is exact: until it has passed the provider stays unavailable, and from then on it
  is available (if no failure intervenes, and unless the remaining time is the saturated maximum).
\<close>

theorem CooldownRemaining_exact:
  assumes "CooldownRemaining ct provider now < max_int64" and "now \<le> t"
  shows "(IsAvailable ct provider now \<longleftrightarrow> CooldownRemaining ct provider now = 0) \<and>
    (IsAvailable ct provider now \<longleftrightarrow> unavailabilityReason ct provider now = None) \<and>
    (IsAvailable ct provider now \<longleftrightarrow> unavailabilityDetail ct provider now = []) \<and>
    (IsAvailable ct provider t \<longleftrightarrow> now + CooldownRemaining ct provider now \<le> t)"
proof (cases "entries ct provider")
  case None
  then show ?thesis
    using assms by (simp add: IsAvailable_def CooldownRemaining_def unavailabilityReason_def unavailabilityDetail_def)
next
  case (Some e)
  have r: "CooldownRemaining ct provider now =
     max (if billing_blocked e now then disabledUntil e - now else 0)
         (if standard_blocked e now then cooldownEnd e - now else 0)"
    by (rule remaining_cases [OF Some assms(1)])
  have pos: "billing_blocked e now \<Longrightarrow> now < disabledUntil e" "standard_blocked e now \<Longrightarrow> now < cooldownEnd e"
    by (simp_all add: billing_blocked_def standard_blocked_def Before_def)
  have "IsAvailable ct provider t \<longleftrightarrow> now + CooldownRemaining ct provider now \<le> t"
    using Some assms(2) blocked_until [of e now t] blocked_later [of e t now] pos
    by (cases "billing_blocked e now"; cases "standard_blocked e now") (auto simp: IsAvailable_def r)
  moreover have "IsAvailable ct provider now \<longleftrightarrow> CooldownRemaining ct provider now = 0"
    using Some pos by (auto simp: IsAvailable_def r)
  ultimately show ?thesis
    using Some by (auto simp: IsAvailable_def unavailabilityReason_def unavailabilityDetail_def split: option.splits)
qed

theorem CooldownRemaining_exact_witness:
  "let ct = MarkFailure NewCooldownTracker ''openai'' FailoverTimeout 0 in
     \<not> IsAvailable ct ''openai'' (30 * nsSecond) \<and> IsAvailable ct ''openai'' (60 * nsSecond)"
proof -
  let ?ct = "MarkFailure NewCooldownTracker ''openai'' FailoverTimeout 0"
  have r: "CooldownRemaining ?ct ''openai'' (30 * nsSecond) = 30 * nsSecond" by code_simp
  have "CooldownRemaining ?ct ''openai'' (30 * nsSecond) < max_int64"
    unfolding r by (simp add: max_int64_def nsSecond_def)
  from CooldownRemaining_exact [OF this, of "60 * nsSecond"] r show ?thesis
    by (simp add: nsSecond_def)
qed

section \<open>A run of failures\<close>

definition failure_run :: "cooldown_tracker \<Rightarrow> string \<Rightarrow> (gtime \<times> failover_reason) list \<Rightarrow> cooldown_tracker" where
  "failure_run ct p fs = fold (\<lambda>(t, r) c. MarkFailure c p r t) fs ct"

text \<open>No two successive failures are further apart than the window.\<close>

fun within_window :: "duration \<Rightarrow> gtime list \<Rightarrow> bool" where
  "within_window w (a # b # ts) \<longleftrightarrow> TSub b a \<le> w \<and> within_window w (b # ts)"
| "within_window w _ \<longleftrightarrow> True"

text \<open>When the two blocks end that a run of failures (newest first) leaves.\<close>

fun standard_end :: "(gtime \<times> failover_reason) list \<Rightarrow> gtime option" where
  "standard_end [] = None"
| "standard_end ((t, r) # fs) =
     (if r = FailoverBilling then standard_end fs
      else Some (t + calculateStandardCooldown (int (length fs) + 1)))"

fun billing_end :: "(gtime \<times> failover_reason) list \<Rightarrow> gtime option" where
  "billing_end [] = None"
| "billing_end ((t, r) # fs) =
     (if r = FailoverBilling
      then Some (t + calculateBillingCooldown (int (count_list (map snd fs) FailoverBilling) + 1))
      else billing_end fs)"

definition clear :: "cooldown_tracker \<Rightarrow> string \<Rightarrow> bool" where
  "clear ct p \<longleftrightarrow> (case entries ct p of None \<Rightarrow> True | Some e \<Rightarrow>
     errorCount e = 0 \<and> failureCounts e = (\<lambda>_. 0) \<and> cooldownEnd e = zero_time \<and> disabledUntil e = zero_time)"

lemma clear_MarkSuccess: "clear (MarkSuccess ct p) p"
  by (auto simp: clear_def MarkSuccess_def split: option.splits)

lemma failure_run_snoc: "failure_run ct p (fs @ [(t, r)]) = MarkFailure (failure_run ct p fs) p r t"
  by (simp add: failure_run_def)

lemma failureWindow_run [simp]: "failureWindow (failure_run ct p fs) = failureWindow ct"
  by (induction fs rule: rev_induct) (auto simp: failure_run_snoc MarkFailure_def failure_run_def)

lemma within_window_snoc:
  "within_window w (ts @ [a, b]) \<longleftrightarrow> within_window w (ts @ [a]) \<and> TSub b a \<le> w"
  by (induction w "ts" rule: within_window.induct) auto

definition run_entry :: "(gtime \<times> failover_reason) list \<Rightarrow> cooldown_entry \<Rightarrow> bool" where
  "run_entry fs e \<longleftrightarrow>
     errorCount e = int (length fs) \<and>
     failureCounts e = (\<lambda>r. int (count_list (map snd fs) r)) \<and>
     cooldownEnd e = (case standard_end (rev fs) of None \<Rightarrow> zero_time | Some t \<Rightarrow> t) \<and>
     disabledUntil e = (case billing_end (rev fs) of None \<Rightarrow> zero_time | Some t \<Rightarrow> t) \<and>
     lastFailure e = fst (last fs)"

lemma count_list_rev [simp]: "count_list (rev xs) x = count_list xs x"
  by (induction xs) auto

lemma failure_run_entry:
  assumes "clear ct p" "fs \<noteq> []" "within_window (failureWindow ct) (map fst fs)"
  shows "\<exists>e. entries (failure_run ct p fs) p = Some e \<and> run_entry fs e"
  using assms(2,3)
proof (induction fs rule: rev_induct)
  case (snoc x fs)
  obtain t r where x: "x = (t, r)" by force
  show ?case
  proof (cases "fs = []")
    case True
    with assms(1) x show ?thesis
      by (auto simp: failure_run_def MarkFailure_def fail_entry_def Let_def getOrCreate_def fresh_entry_def
          clear_def run_entry_def fun_eq_iff split: option.splits)
  next
    case False
    then obtain gs t' r' where fs: "fs = gs @ [(t', r')]" by (metis rev_exhaust surj_pair)
    have w: "within_window (failureWindow ct) (map fst fs)" "TSub t t' \<le> failureWindow ct"
      using snoc.prems(2) within_window_snoc [of _ "map fst gs" t' t] by (simp_all add: fs x)
    from snoc.IH [OF False w(1)] obtain e where
      e: "entries (failure_run ct p fs) p = Some e" "run_entry fs e" by blast
    have "lastFailure e = t'" using e(2) by (simp add: run_entry_def fs)
    with w(2) e(2) have "run_entry (fs @ [x]) (fail_entry (failureWindow ct) e r t)"
      by (auto simp: fail_entry_def Let_def run_entry_def x fun_eq_iff rev_map [symmetric])
    then show ?thesis using e(1) x by (simp add: failure_run_snoc MarkFailure_def getOrCreate_def)
  qed
qed simp

lemma cooldowns_nonneg [simp]: "0 \<le> calculateStandardCooldown n" "0 \<le> calculateBillingCooldown n"
  by (simp_all add: std_table bill_table nsHour_def nsSecond_def)

lemma standard_end_positive: "\<forall>x \<in> set fs. 0 \<le> fst x \<Longrightarrow> standard_end fs = Some t \<Longrightarrow> 0 \<le> t"
  by (induction fs rule: standard_end.induct) (auto split: if_splits)

lemma billing_end_positive: "\<forall>x \<in> set fs. 0 \<le> fst x \<Longrightarrow> billing_end fs = Some t \<Longrightarrow> 0 \<le> t"
  by (induction fs rule: billing_end.induct) (auto split: if_splits)

text \<open>
  What a run of failures does to a provider whose counters are clear (it is new, or its last call
  succeeded), when no two of them are further apart than the failure window: the counters are the number
  of failures, in all and of each reason; and the provider is available again exactly when both blocks
  are over: the standard one, counted from the last failure that is not a billing failure with the
  backoff of the number of all failures up to it, and the billing one, counted from the last billing
  failure with the backoff of the number of billing failures.
\<close>

theorem failure_run_schedule:
  assumes "clear ct provider" and "fs \<noteq> []" and "within_window (failureWindow ct) (map fst fs)"
    and "\<forall>x \<in> set fs. 0 \<le> fst x"
  shows "ErrorCount (failure_run ct provider fs) provider = int (length fs) \<and>
    FailureCount (failure_run ct provider fs) provider r = int (count_list (map snd fs) r) \<and>
    (IsAvailable (failure_run ct provider fs) provider now \<longleftrightarrow>
       (case standard_end (rev fs) of None \<Rightarrow> True | Some t \<Rightarrow> t \<le> now) \<and>
       (case billing_end (rev fs) of None \<Rightarrow> True | Some t \<Rightarrow> t \<le> now))"
proof -
  obtain e where e: "entries (failure_run ct provider fs) provider = Some e" "run_entry fs e"
    using failure_run_entry [OF assms(1-3)] by blast
  have pos: "standard_end (rev fs) = Some t \<Longrightarrow> \<not> IsZero t" "billing_end (rev fs) = Some t \<Longrightarrow> \<not> IsZero t" for t
    using standard_end_positive [of "rev fs" t] billing_end_positive [of "rev fs" t] assms(4) positive_not_zero by auto
  show ?thesis
    using e pos
    by (auto simp: ErrorCount_def FailureCount_def IsAvailable_def run_entry_def billing_blocked_def
        standard_blocked_def Before_def split: option.splits)
qed

theorem failure_run_schedule_witness:
  "ErrorCount (failure_run NewCooldownTracker ''openai''
      [(0, FailoverTimeout), (100, FailoverBilling), (200, FailoverTimeout)]) ''openai'' = 3"
  using failure_run_schedule [of NewCooldownTracker "''openai''"
      "[(0, FailoverTimeout), (100, FailoverBilling), (200, FailoverTimeout)]" FailoverBilling 0]
  by (simp add: clear_def NewCooldownTracker_def TSub_def defaultFailureWindow_def nsHour_def nsSecond_def
      max_int64_def min_int64_def)

section \<open>The contract of the tracker\<close>

text \<open>What one attempt of the fallback chain does to the tracker.\<close>

datatype cooldown_op = OpFailure string failover_reason gtime | OpSuccess string

fun op_provider :: "cooldown_op \<Rightarrow> string" where
  "op_provider (OpFailure p r n) = p"
| "op_provider (OpSuccess p) = p"

locale cooldown_port =
  fixes avail :: "'s \<Rightarrow> string \<Rightarrow> gtime \<Rightarrow> bool"
    and fail :: "'s \<Rightarrow> string \<Rightarrow> failover_reason \<Rightarrow> gtime \<Rightarrow> 's"
    and succ :: "'s \<Rightarrow> string \<Rightarrow> 's"
  assumes succ_avail: "avail (succ s p) p t"
    and fail_unavail: "0 \<le> n \<Longrightarrow> t < n + 60 * nsSecond \<Longrightarrow> \<not> avail (fail s p r n) p t"
    and succ_other: "q \<noteq> p \<Longrightarrow> avail (succ s p) q t \<longleftrightarrow> avail s q t"
    and fail_other: "q \<noteq> p \<Longrightarrow> avail (fail s p r n) q t \<longleftrightarrow> avail s q t"
begin

fun apply_op :: "cooldown_op \<Rightarrow> 's \<Rightarrow> 's" where
  "apply_op (OpFailure p r n) s = fail s p r n"
| "apply_op (OpSuccess p) s = succ s p"

lemma apply_op_other: "q \<noteq> op_provider x \<Longrightarrow> avail (apply_op x s) q t \<longleftrightarrow> avail s q t"
  by (cases x) (simp_all add: succ_other fail_other)

lemma ops_other: "q \<notin> op_provider ` set ops \<Longrightarrow> avail (fold apply_op ops s) q t \<longleftrightarrow> avail s q t"
  by (induction ops arbitrary: s) (auto simp: apply_op_other)

lemma last_success:
  "p \<notin> op_provider ` set ops \<Longrightarrow> avail (fold apply_op (pre @ OpSuccess p # ops) s) p t"
  by (simp add: ops_other succ_avail)

lemma last_failure:
  "p \<notin> op_provider ` set ops \<Longrightarrow> 0 \<le> n \<Longrightarrow> t < n + 60 * nsSecond \<Longrightarrow>
   \<not> avail (fold apply_op (pre @ OpFailure p r n # ops) s) p t"
  by (simp add: ops_other fail_unavail)

lemma failures_block:
  assumes "\<exists>x \<in> set ops. op_provider x = p"
    and "\<forall>x \<in> set ops. op_provider x = p \<longrightarrow> (\<exists>r m. x = OpFailure p r m \<and> n \<le> m)"
    and "0 \<le> n" "t < n + 60 * nsSecond"
  shows "\<not> avail (fold apply_op ops s) p t"
proof -
  obtain pre x post where ops: "ops = pre @ x # post" "op_provider x = p" "\<forall>y \<in> set post. op_provider y \<noteq> p"
    using split_list_last_propE [of ops "\<lambda>x. op_provider x = p"] assms(1) by blast
  then obtain r m where x: "x = OpFailure p r m" "n \<le> m" using assms(2) by auto
  show ?thesis
    unfolding ops(1) x(1) using ops(3) x(2) assms(3,4) by (intro last_failure) auto
qed

end

lemma fail_entry_blocked:
  assumes "0 \<le> n" "t < n + 60 * nsSecond"
  shows "billing_blocked (fail_entry w e r n) t \<or> standard_blocked (fail_entry w e r n) t"
proof -
  have "\<not> IsZero (n + calculateStandardCooldown k)" "\<not> IsZero (n + calculateBillingCooldown k)" for k
    using assms(1) by (simp_all add: positive_not_zero)
  moreover have "t < n + calculateStandardCooldown k" "t < n + calculateBillingCooldown k" for k
    using assms(2) std_bounds(1) [of k] bill_bounds(1) [of k] by (simp_all add: nsHour_def nsSecond_def)
  ultimately show ?thesis
    by (simp add: fail_entry_def Let_def billing_blocked_def standard_blocked_def Before_def)
qed

interpretation tracker: cooldown_port IsAvailable MarkFailure MarkSuccess
proof
  fix s p t r q :: _ and n :: gtime
  show "IsAvailable (MarkSuccess s p) p t"
    by (auto simp: IsAvailable_def MarkSuccess_def billing_blocked_def standard_blocked_def split: option.splits)
  show "\<not> IsAvailable (MarkFailure s p r n) p t" if "0 \<le> n" "t < n + 60 * nsSecond"
    using fail_entry_blocked [OF that] by (simp add: IsAvailable_def MarkFailure_def)
  show "IsAvailable (MarkSuccess s p) q t \<longleftrightarrow> IsAvailable s q t" if "q \<noteq> p"
    using that by (auto simp: IsAvailable_def MarkSuccess_def split: option.splits)
  show "IsAvailable (MarkFailure s p r n) q t \<longleftrightarrow> IsAvailable s q t" if "q \<noteq> p"
    using that by (auto simp: IsAvailable_def MarkFailure_def split: option.splits)
qed

end
