(* ===== verification/Classify.thy ===== *)
theory Classify
  imports Cooldown
begin

text \<open>
  Model references and error classification: \<^verbatim>\<open>pkg/providers/model_ref.go\<close> and
  \<^verbatim>\<open>pkg/providers/error_classifier.go\<close>.  The regular expressions of the classifier are data of a small
  matcher: \<open>ends r s i\<close> lists, in the order of preference of Go's leftmost-first semantics, the
  positions at which a match of \<open>r\<close> that starts at \<open>i\<close> may end.  Only classes of single bytes are
  repeated in these expressions, so repetition is a constructor of its own and every function is
  structurally recursive.  Case folding is that of ASCII.
\<close>

section \<open>Regular expressions\<close>

datatype re =
    Cls "char \<Rightarrow> bool"        \<comment> \<open>one byte of a class\<close>
  | Many "char \<Rightarrow> bool"       \<comment> \<open>a greedy \<^verbatim>\<open>*\<close> over a class\<close>
  | Opt "char \<Rightarrow> bool"        \<comment> \<open>a greedy \<^verbatim>\<open>?\<close> over a class\<close>
  | WordB                      \<comment> \<open>\<^verbatim>\<open>\b\<close>\<close>
  | Cat re re

fun run_length :: "(char \<Rightarrow> bool) \<Rightarrow> string \<Rightarrow> nat" where
  "run_length p [] = 0"
| "run_length p (c # s) = (if p c then Suc (run_length p s) else 0)"

definition word_char :: "char \<Rightarrow> bool" where
  "word_char c \<longleftrightarrow> is_lower c \<or> is_upper c \<or> is_digit c \<or> c = CHR ''_''"

definition word_at :: "string \<Rightarrow> nat \<Rightarrow> bool" where
  "word_at s i \<longleftrightarrow> i < length s \<and> word_char (s ! i)"

definition word_boundary :: "string \<Rightarrow> nat \<Rightarrow> bool" where
  "word_boundary s i \<longleftrightarrow> (0 < i \<and> word_at s (i - 1)) \<noteq> word_at s i"

fun ends :: "re \<Rightarrow> string \<Rightarrow> nat \<Rightarrow> nat list" where
  "ends (Cls p) s i = (if i < length s \<and> p (s ! i) then [Suc i] else [])"
| "ends (Many p) s i = rev [i ..< Suc (i + run_length p (drop i s))]"
| "ends (Opt p) s i = (if i < length s \<and> p (s ! i) then [Suc i, i] else [i])"
| "ends WordB s i = (if word_boundary s i then [i] else [])"
| "ends (Cat a b) s i = concat (map (ends b s) (ends a s i))"

text \<open>The leftmost match, as its start and its end.\<close>

fun first_match :: "re \<Rightarrow> string \<Rightarrow> nat list \<Rightarrow> (nat \<times> nat) option" where
  "first_match r s [] = None"
| "first_match r s (i # is) = (case ends r s i of [] \<Rightarrow> first_match r s is | e # _ \<Rightarrow> Some (i, e))"

definition find_match :: "re \<Rightarrow> string \<Rightarrow> (nat \<times> nat) option" where
  "find_match r s = first_match r s [0 ..< Suc (length s)]"

definition MatchString :: "re \<Rightarrow> string \<Rightarrow> bool" where
  "MatchString r s \<longleftrightarrow> find_match r s \<noteq> None"

definition chr_ci :: "char \<Rightarrow> re" where "chr_ci c = Cls (\<lambda>d. lower_char d = c)"
definition one_of :: "string \<Rightarrow> char \<Rightarrow> bool" where "one_of cs c \<longleftrightarrow> c \<in> set cs"
definition any_char :: "char \<Rightarrow> bool" where "any_char c \<longleftrightarrow> c \<noteq> CHR 0x0A"
definition re_space :: "char \<Rightarrow> bool" where "re_space c \<longleftrightarrow> is_space c \<and> byte_of c \<noteq> 11"

fun cat :: "re list \<Rightarrow> re" where
  "cat [] = Many (\<lambda>_. False)"
| "cat [r] = r"
| "cat (r # rs) = Cat r (cat rs)"

definition lit :: "string \<Rightarrow> re" where "lit w = cat (map chr_ci w)"
definition some_of :: "(char \<Rightarrow> bool) \<Rightarrow> re" where "some_of p = Cat (Cls p) (Many p)"

definition three_digits :: "(char \<Rightarrow> bool) \<Rightarrow> re" where
  "three_digits p = Cat (Cls p) (Cat (Cls is_digit) (Cls is_digit))"

section \<open>The patterns\<close>

datatype error_pattern = Substr string | Rxp re

text \<open>The group of each pattern for a status is a run of three digits; only \<^verbatim>\<open>\b\<close> may follow it.\<close>

definition httpStatusPatterns :: "re list" where
  "httpStatusPatterns =
     [cat [cat (map (\<lambda>c. Cls ((=) c)) ''status''),
           some_of (\<lambda>c. c = CHR '':'' \<or> re_space c), three_digits is_digit],
      cat [cat (map (\<lambda>c. Cls ((=) c)) ''http''), some_of (\<lambda>c. c = CHR ''/'' \<or> re_space c),
           Many is_digit, Opt ((=) CHR ''.''), Many is_digit, some_of re_space, three_digits is_digit],
      cat [WordB, Cat (three_digits (one_of ''345'')) WordB]]"

definition rateLimitPatterns :: "error_pattern list" where
  "rateLimitPatterns =
     [Rxp (cat [lit ''rate'', Cls (one_of ''_ ''), lit ''limit'']),
      Substr ''too many requests'',
      Substr ''429'',
      Substr ''exceeded your current quota'',
      Rxp (cat [lit ''exceeded'', Many any_char, lit ''quota'']),
      Rxp (lit ''resource has been exhausted''),
      Rxp (cat [lit ''resource'', Many any_char, lit ''exhausted'']),
      Substr ''resource_exhausted'',
      Substr ''quota exceeded'',
      Substr ''usage limit'']"

definition overloadedPatterns :: "error_pattern list" where
  "overloadedPatterns =
     [Rxp (lit ''overloaded_error''),
      Rxp (cat [lit ([CHR 0x22] @ ''type'' @ [CHR 0x22]), Many re_space, lit '':'', Many re_space,
                lit ([CHR 0x22] @ ''overloaded_error'' @ [CHR 0x22])]),
      Substr ''overloaded'']"

definition timeoutPatterns :: "error_pattern list" where
  "timeoutPatterns =
     [Substr ''timeout'', Substr ''timed out'', Substr ''deadline exceeded'',
      Substr ''context deadline exceeded'']"

definition billingPatterns :: "error_pattern list" where
  "billingPatterns =
     [Rxp (cat [WordB, lit ''402'', WordB]),
      Substr ''payment required'', Substr ''insufficient credits'', Substr ''credit balance'',
      Substr ''plans & billing'', Substr ''insufficient balance'', Substr ''daily output token limit'',
      Substr ''spend limit'', Substr ''billing cooldown'']"

definition authPatterns :: "error_pattern list" where
  "authPatterns =
     [Rxp (cat [lit ''invalid'', Opt (one_of ''_ ''), lit ''api'', Opt (one_of ''_ ''), lit ''key'']),
      Substr ''incorrect api key'', Substr ''invalid token'', Substr ''authentication'',
      Substr ''re-authenticate'', Substr ''oauth token refresh failed'', Substr ''unauthorized'',
      Substr ''forbidden'', Substr ''access denied'', Substr ''expired'', Substr ''token has expired'',
      Rxp (cat [WordB, lit ''401'', WordB]),
      Rxp (cat [WordB, lit ''403'', WordB]),
      Substr ''no credentials found'', Substr ''no api key found'']"

definition formatPatterns :: "error_pattern list" where
  "formatPatterns =
     [Substr ''string should match pattern'', Substr ''tool_use.id'', Substr ''tool_use_id'',
      Substr ''messages.1.content.1.tool_use.id'', Substr ''invalid request format'']"

definition imageDimensionPatterns :: "error_pattern list" where
  "imageDimensionPatterns = [Rxp (lit ''image dimensions exceed max'')]"

definition imageSizePatterns :: "error_pattern list" where
  "imageSizePatterns = [Rxp (cat [lit ''image exceeds'', Many any_char, lit ''mb''])]"

fun matches_pattern :: "string \<Rightarrow> error_pattern \<Rightarrow> bool" where
  "matches_pattern msg (Rxp r) = MatchString r msg"
| "matches_pattern msg (Substr w) = (w \<noteq> [] \<and> Contains msg w)"

definition matchesAny :: "string \<Rightarrow> error_pattern list \<Rightarrow> bool" where
  "matchesAny msg ps = list_ex (matches_pattern msg) ps"

definition IsImageDimensionError :: "string \<Rightarrow> bool" where
  "IsImageDimensionError msg = matchesAny msg imageDimensionPatterns"

definition IsImageSizeError :: "string \<Rightarrow> bool" where
  "IsImageSizeError msg = matchesAny msg imageSizePatterns"

section \<open>Classification\<close>

text \<open>An error is one of the two sentinels of \<^verbatim>\<open>context\<close> or another error with its text.\<close>

datatype go_error = Canceled | DeadlineExceeded | OtherError string

fun error_text :: "go_error \<Rightarrow> string" where
  "error_text Canceled = ''context canceled''"
| "error_text DeadlineExceeded = ''context deadline exceeded''"
| "error_text (OtherError s) = s"

record failover_error =
  fe_reason :: failover_reason
  fe_provider :: string
  fe_model :: string
  fe_status :: int
  fe_wrapped :: go_error

definition IsRetriable :: "failover_error \<Rightarrow> bool" where
  "IsRetriable e \<longleftrightarrow> fe_reason e \<noteq> FailoverFormat"

text \<open>\<^verbatim>\<open>strings.Fields\<close>.\<close>

fun fields_from :: "string \<Rightarrow> string \<Rightarrow> string list" where
  "fields_from w [] = (if w = [] then [] else [rev w])"
| "fields_from w (c # s) =
     (if is_space c then (if w = [] then fields_from [] s else rev w # fields_from [] s)
      else fields_from (c # w) s)"

definition Fields :: "string \<Rightarrow> string list" where "Fields s = fields_from [] s"

definition normalizeProviderErrorMessage :: "go_error \<Rightarrow> string" where
  "normalizeProviderErrorMessage e = Join (Fields (ToLower (TrimSpace (error_text e)))) '' ''"

definition parseDigits :: "string \<Rightarrow> int" where
  "parseDigits s = foldl (\<lambda>n c. if is_digit c then n * 10 + (int (byte_of c) - 48) else n) 0 s"

text \<open>The submatch: the three bytes that end where the match ends.\<close>

fun extract_with :: "re list \<Rightarrow> string \<Rightarrow> int" where
  "extract_with [] msg = 0"
| "extract_with (r # rs) msg =
     (case find_match r msg of
        Some (i, e) \<Rightarrow> parseDigits (take 3 (drop (e - 3) msg))
      | None \<Rightarrow> extract_with rs msg)"

definition extractHTTPStatus :: "string \<Rightarrow> int" where
  "extractHTTPStatus msg = extract_with httpStatusPatterns msg"

definition transientStatusCodes :: "int list" where
  "transientStatusCodes = [500, 502, 503, 521, 522, 523, 524, 529]"

definition classifyByStatus :: "int \<Rightarrow> failover_reason option" where
  "classifyByStatus status =
     (if status = 401 \<or> status = 403 then Some FailoverAuth
      else if status = 402 then Some FailoverBilling
      else if status = 408 then Some FailoverTimeout
      else if status = 429 then Some FailoverRateLimit
      else if status = 400 then Some FailoverFormat
      else if status \<in> set transientStatusCodes then Some FailoverTimeout
      else None)"

definition classifyByMessage :: "string \<Rightarrow> failover_reason option" where
  "classifyByMessage msg =
     (if matchesAny msg rateLimitPatterns then Some FailoverRateLimit
      else if matchesAny msg overloadedPatterns then Some FailoverRateLimit
      else if matchesAny msg billingPatterns then Some FailoverBilling
      else if matchesAny msg timeoutPatterns then Some FailoverTimeout
      else if matchesAny msg authPatterns then Some FailoverAuth
      else if matchesAny msg formatPatterns then Some FailoverFormat
      else None)"

definition mk_failover :: "failover_reason \<Rightarrow> string \<Rightarrow> string \<Rightarrow> int \<Rightarrow> go_error \<Rightarrow> failover_error" where
  "mk_failover r provider model status err =
     \<lparr>fe_reason = r, fe_provider = provider, fe_model = model, fe_status = status, fe_wrapped = err\<rparr>"

definition ClassifyError :: "go_error \<Rightarrow> string \<Rightarrow> string \<Rightarrow> failover_error option" where
  "ClassifyError err provider model =
     (if err = Canceled then None
      else if err = DeadlineExceeded then Some (mk_failover FailoverTimeout provider model 0 err)
      else
        let msg = normalizeProviderErrorMessage err in
        if IsImageDimensionError msg \<or> IsImageSizeError msg
        then Some (mk_failover FailoverFormat provider model 0 err)
        else
          let status = extractHTTPStatus msg;
              byStatus = (if status > 0 then classifyByStatus status else None) in
          case byStatus of
            Some r \<Rightarrow> Some (mk_failover r provider model status err)
          | None \<Rightarrow>
             (case classifyByMessage msg of
                Some r \<Rightarrow> Some (mk_failover r provider model 0 err)
              | None \<Rightarrow> None))"

section \<open>Model references\<close>

record model_ref =
  mr_provider :: string
  mr_model :: string

text \<open>The two \<^verbatim>\<open>switch\<close> statements as tables: an absent name is the default case.\<close>

definition switch_name :: "(string \<times> string) list \<Rightarrow> string \<Rightarrow> string" where
  "switch_name tbl p = (case map_of tbl p of Some q \<Rightarrow> q | None \<Rightarrow> p)"

definition provider_aliases :: "(string \<times> string) list" where
  "provider_aliases =
     [(''z.ai'', ''zai''), (''z-ai'', ''zai''), (''opencode-zen'', ''opencode''), (''qwen'', ''qwen-portal''),
      (''kimi-code'', ''kimi-coding''), (''gpt'', ''openai''), (''claude'', ''anthropic''),
      (''glm'', ''zhipu''), (''google'', ''gemini'')]"

definition protocol_names :: "(string \<times> string) list" where
  "protocol_names =
     [([], ''openai''), (''openai'', ''openai''), (''zai'', ''zhipu''), (''zhipu'', ''zhipu''),
      (''qwen-portal'', ''qwen''), (''github-copilot'', ''github-copilot''),
      (''github_copilot'', ''github-copilot''), (''copilot'', ''github-copilot''),
      (''claude-cli'', ''claude-cli''), (''claudecli'', ''claude-cli''),
      (''codex-cli'', ''codex-cli''), (''codexcli'', ''codex-cli'')]"

definition NormalizeProvider :: "string \<Rightarrow> string" where
  "NormalizeProvider provider = switch_name provider_aliases (ToLower (TrimSpace provider))"

definition CanonicalProtocol :: "string \<Rightarrow> string" where
  "CanonicalProtocol provider = switch_name protocol_names (NormalizeProvider provider)"

definition EnsureProtocol :: "string \<Rightarrow> string" where
  "EnsureProtocol model0 =
     (let model = TrimSpace model0 in
      if model = [] then model
      else case Cut model CHR ''/'' of
             (_, None) \<Rightarrow> ''openai/'' @ model
           | (protocol, Some modelID) \<Rightarrow> CanonicalProtocol protocol @ ''/'' @ TrimSpace modelID)"

definition ModelKey :: "string \<Rightarrow> string \<Rightarrow> string" where
  "ModelKey provider model = NormalizeProvider provider @ ''/'' @ ToLower (TrimSpace model)"

definition ParseModelRef :: "string \<Rightarrow> string \<Rightarrow> model_ref option" where
  "ParseModelRef raw0 defaultProvider =
     (let raw = TrimSpace raw0;
          bare = \<lparr>mr_provider = NormalizeProvider defaultProvider, mr_model = raw\<rparr> in
      if raw = [] then None
      else case IndexByte raw CHR ''/'' of
             None \<Rightarrow> Some bare
           | Some idx \<Rightarrow>
               if idx > 0 then
                 let model = TrimSpace (drop (Suc idx) raw) in
                 if model = [] then None
                 else Some \<lparr>mr_provider = NormalizeProvider (take idx raw), mr_model = model\<rparr>
               else Some bare)"

section \<open>Normal forms of model references\<close>

lemma lower_trim_idem [simp]: "ToLower (TrimSpace (ToLower (TrimSpace s))) = ToLower (TrimSpace s)"
  by (simp add: TrimSpace_ToLower)

lemma switch_name_cases:
  "(map_of tbl p = None \<and> switch_name tbl p = p) \<or> switch_name tbl p \<in> snd ` set tbl"
  by (cases "map_of tbl p") (auto simp: switch_name_def dest!: map_of_SomeD intro: rev_image_eqI)

lemma NormalizeProvider_alias:
  "NormalizeProvider p = ToLower (TrimSpace p) \<or> NormalizeProvider p \<in> snd ` set provider_aliases"
  using switch_name_cases unfolding NormalizeProvider_def by blast

lemma NormalizeProvider_fixed: "q \<in> snd ` set provider_aliases \<Longrightarrow> NormalizeProvider q = q"
proof -
  have "list_all (\<lambda>q. NormalizeProvider (snd q) = snd q) provider_aliases" by code_simp
  then show "q \<in> snd ` set provider_aliases \<Longrightarrow> NormalizeProvider q = q" by (auto simp: list_all_iff)
qed

lemma NormalizeProvider_idem: "NormalizeProvider (NormalizeProvider p) = NormalizeProvider p"
  using NormalizeProvider_alias [of p]
proof
  assume e: "NormalizeProvider p = ToLower (TrimSpace p)"
  have "NormalizeProvider (ToLower (TrimSpace p)) = NormalizeProvider p" by (simp add: NormalizeProvider_def)
  then show ?thesis using e by simp
qed (rule NormalizeProvider_fixed)

lemma CanonicalProtocol_cases:
  "CanonicalProtocol p \<in> snd ` set protocol_names \<or>
   (CanonicalProtocol p = NormalizeProvider p \<and> NormalizeProvider p \<noteq> [])"
proof -
  have "map_of protocol_names [] \<noteq> None" by (simp add: protocol_names_def)
  then show ?thesis
    using switch_name_cases [of protocol_names "NormalizeProvider p"] unfolding CanonicalProtocol_def by metis
qed

lemma protocol_names_fixed: "q \<in> snd ` set protocol_names \<Longrightarrow> CanonicalProtocol q = q"
proof -
  have "list_all (\<lambda>q. CanonicalProtocol (snd q) = snd q) protocol_names" by code_simp
  then show "q \<in> snd ` set protocol_names \<Longrightarrow> CanonicalProtocol q = q" by (auto simp: list_all_iff)
qed

lemma CanonicalProtocol_idem: "CanonicalProtocol (CanonicalProtocol p) = CanonicalProtocol p"
  using CanonicalProtocol_cases [of p]
proof
  assume e: "CanonicalProtocol p = NormalizeProvider p \<and> NormalizeProvider p \<noteq> []"
  have "CanonicalProtocol (NormalizeProvider p) = CanonicalProtocol p"
    by (simp add: CanonicalProtocol_def NormalizeProvider_idem)
  with e show ?thesis by simp
qed (rule protocol_names_fixed)

lemma trimmed_hd: "trimmed s \<Longrightarrow> s \<noteq> [] \<Longrightarrow> \<not> is_space (hd s)"
  by (simp add: trimmed_def)

lemma trimmed_lower_trim: "trimmed (ToLower (TrimSpace s))"
  using trimmed_TrimSpace [of "ToLower s"] by (simp add: TrimSpace_ToLower)

lemma fixed_head:
  assumes "q \<in> snd ` (set provider_aliases \<union> set protocol_names)"
  shows "q \<noteq> [] \<and> \<not> is_space (hd q) \<and> CHR ''/'' \<notin> set q"
proof -
  have "list_all (\<lambda>q. snd q \<noteq> [] \<and> \<not> is_space (hd (snd q)) \<and> CHR ''/'' \<notin> set (snd q)) (provider_aliases @ protocol_names)"
    by code_simp
  with assms show ?thesis by (auto simp: list_all_iff)
qed

lemma lower_char_slash: "lower_char c = CHR ''/'' \<longleftrightarrow> c = CHR ''/''"
proof -
  have "byte_of (lower_char c) = byte_of (CHR ''/'') \<longleftrightarrow> c = CHR ''/''"
    unfolding byte_of_lower_char byte_of_inject [symmetric] by (simp add: is_upper_def byte_of_def)
  then show ?thesis by simp
qed

lemma slash_lower_trim: "CHR ''/'' \<notin> set p \<Longrightarrow> CHR ''/'' \<notin> set (ToLower (TrimSpace p))"
  using set_TrimSpace [of p] by (auto simp: ToLower_def lower_char_slash image_iff eq_commute [of "CHR ''/''"])

lemma CanonicalProtocol_head:
  assumes "CHR ''/'' \<notin> set p"
  shows "CanonicalProtocol p \<noteq> [] \<and> \<not> is_space (hd (CanonicalProtocol p)) \<and> CHR ''/'' \<notin> set (CanonicalProtocol p)"
proof -
  consider "CanonicalProtocol p = ToLower (TrimSpace p)" "CanonicalProtocol p \<noteq> []"
    | "CanonicalProtocol p \<in> snd ` (set provider_aliases \<union> set protocol_names)"
    using CanonicalProtocol_cases [of p] NormalizeProvider_alias [of p] by (metis UnCI image_Un)
  then show ?thesis
    by cases (use trimmed_lower_trim [of p] trimmed_hd slash_lower_trim [OF assms] fixed_head in auto)
qed

lemma EnsureProtocol_fixed:
  assumes "CanonicalProtocol p = p" "p \<noteq> []" "\<not> is_space (hd p)" "CHR ''/'' \<notin> set p" "trimmed x"
  shows "EnsureProtocol (p @ ''/'' @ x) = p @ ''/'' @ x"
proof -
  have "trimmed (p @ ''/'' @ x)"
    using assms(2,3,5) by (cases "x = []") (auto simp: trimmed_def is_space_def byte_of_def)
  then have t: "TrimSpace (p @ ''/'' @ x) = p @ ''/'' @ x" by (rule TrimSpace_id)
  have "IndexByte (p @ ''/'' @ x) CHR ''/'' = Some (length p)"
    using IndexByte_append [OF assms(4), of x] by simp
  then have "Cut (p @ ''/'' @ x) CHR ''/'' = (p, Some x)" by (simp add: Cut_def)
  with t assms show ?thesis by (simp add: EnsureProtocol_def TrimSpace_id)
qed

lemma Cut_before: "Cut s b = (p, r) \<Longrightarrow> b \<notin> set p"
  using IndexByte_Some [of s b] by (auto simp: Cut_def IndexByte_None split: option.splits)

lemma EnsureProtocol_idem: "EnsureProtocol (EnsureProtocol m) = EnsureProtocol m"
proof (cases "TrimSpace m = []")
  case True
  then show ?thesis by (simp add: EnsureProtocol_def)
next
  case False
  obtain p r where c: "Cut (TrimSpace m) CHR ''/'' = (p, r)" by force
  show ?thesis
  proof (cases r)
    case None
    then have "EnsureProtocol m = ''openai'' @ ''/'' @ TrimSpace m" using False c by (simp add: EnsureProtocol_def)
    moreover have "CanonicalProtocol ''openai'' = ''openai''" by code_simp
    ultimately show ?thesis
      using EnsureProtocol_fixed [of "''openai''" "TrimSpace m"] by (simp add: is_space_def byte_of_def)
  next
    case (Some x)
    then have e: "EnsureProtocol m = CanonicalProtocol p @ ''/'' @ TrimSpace x"
      using False c by (simp add: EnsureProtocol_def)
    have "CHR ''/'' \<notin> set p" by (rule Cut_before [OF c])
    then show ?thesis
      unfolding e using CanonicalProtocol_head CanonicalProtocol_idem
      by (intro EnsureProtocol_fixed) auto
  qed
qed

text \<open>
  The normal forms of model references are stable: a provider name, a protocol name and a
  protocol-prefixed model, once normalised, are left alone by a second normalisation; and the key by
  which candidates are told apart does not change when provider and model are normalised first.
\<close>

theorem model_names_idempotent:
  "NormalizeProvider (NormalizeProvider p) = NormalizeProvider p \<and>
   CanonicalProtocol (CanonicalProtocol p) = CanonicalProtocol p \<and>
   EnsureProtocol (EnsureProtocol m) = EnsureProtocol m \<and>
   ModelKey (NormalizeProvider p) (ToLower (TrimSpace m)) = ModelKey p m"
  by (simp add: NormalizeProvider_idem CanonicalProtocol_idem EnsureProtocol_idem ModelKey_def)

section \<open>Soundness of the classification\<close>

lemma Contains_middle: "Contains (p @ w @ q) w"
proof (induction p)
  case Nil
  have "HasPrefix (w @ q) w" by simp
  then show ?case by (cases "w @ q") (auto simp: Contains_def)
next
  case (Cons c p)
  then show ?case by (auto simp: Contains_def)
qed

lemma Contains_slice: "k + n \<le> length s \<Longrightarrow> Contains s (take n (drop k s))"
  using Contains_middle [of "take k s" "take n (drop k s)" "drop n (drop k s)"]
  by (simp del: drop_drop)

lemma first_match_Some: "first_match r s is = Some (i, e) \<Longrightarrow> e \<in> set (ends r s i)"
  by (induction "is") (auto split: list.splits)

lemma find_match_Some: "find_match r s = Some (i, e) \<Longrightarrow> e \<in> set (ends r s i)"
  unfolding find_match_def by (rule first_match_Some)

definition digits_before :: "string \<Rightarrow> nat \<Rightarrow> bool" where
  "digits_before s e \<longleftrightarrow> 3 \<le> e \<and> e \<le> length s \<and> list_all is_digit (take 3 (drop (e - 3) s))"

lemma three_digits_end:
  assumes "e \<in> set (ends (three_digits p) s i)" "\<And>c. p c \<Longrightarrow> is_digit c"
  shows "digits_before s e"
proof -
  from assms(1) have e: "e = i + 3" "i + 2 < length s" "p (s ! i)" "is_digit (s ! (i + 1))" "is_digit (s ! (i + 2))"
    by (auto simp: three_digits_def numeral_2_eq_2 numeral_3_eq_3 split: if_splits)
  have "take 3 (drop i s) = [s ! i, s ! (i + 1), s ! (i + 2)]"
    using e(2) by (simp add: take_Suc_conv_app_nth numeral_2_eq_2 numeral_3_eq_3)
  with e assms(2) show ?thesis by (simp add: digits_before_def)
qed

lemma cat_last: "e \<in> set (ends (cat (rs @ [x])) s i) \<Longrightarrow> \<exists>j. e \<in> set (ends x s j)"
proof (induction rs arbitrary: i)
  case (Cons r rs)
  have "cat ((r # rs) @ [x]) = Cat r (cat (rs @ [x]))" by (cases rs) auto
  with Cons show ?case by auto
qed auto

lemma status_pattern_end:
  assumes "r \<in> set httpStatusPatterns" "e \<in> set (ends r s i)"
  shows "digits_before s e"
proof -
  have c: "one_of ''345'' c \<Longrightarrow> is_digit c" for c by (auto simp: one_of_def is_digit_def byte_of_def)
  have last3: "digits_before s e" if "e \<in> set (ends (cat (rs @ [three_digits is_digit])) s i)" for rs
    using cat_last [OF that] three_digits_end by blast
  have wb: "digits_before s e" if "e \<in> set (ends (cat ([WordB] @ [Cat (three_digits (one_of ''345'')) WordB])) s i)"
  proof -
    from cat_last [OF that] obtain j where "e \<in> set (ends (three_digits (one_of ''345'')) s j)"
      by (auto simp del: three_digits_def split: if_splits)
    then show ?thesis using three_digits_end c by blast
  qed
  have shape: "\<exists>rs. cat [a, b, t] = cat (rs @ [t])" "\<exists>rs. cat [a, b, c, d, x, y, t] = cat (rs @ [t])"
    for a b c d x y t
    by (rule exI [of _ "[a, b]"], simp, rule exI [of _ "[a, b, c, d, x, y]"], simp)
  from assms(1) have "(\<exists>rs. r = cat (rs @ [three_digits is_digit]))
      \<or> r = cat ([WordB] @ [Cat (three_digits (one_of ''345'')) WordB])"
    unfolding httpStatusPatterns_def list.set insert_iff empty_iff
    by - (elim disjE FalseE, hypsubst, rule disjI1, rule shape(1), hypsubst, rule disjI1, rule shape(2),
        hypsubst, rule disjI2, simp only: append_Cons append_Nil)
  then show ?thesis using assms(2) last3 wb by blast
qed

lemma extract_with_digits:
  assumes "extract_with rs msg > 0" "set rs \<subseteq> set httpStatusPatterns"
  shows "\<exists>d. length d = 3 \<and> list_all is_digit d \<and> Contains msg d \<and> parseDigits d = extract_with rs msg"
  using assms
proof (induction rs)
  case (Cons r rs)
  show ?case
  proof (cases "find_match r msg")
    case None
    with Cons show ?thesis by simp
  next
    case (Some ie)
    then obtain i e where "find_match r msg = Some (i, e)" by force
    moreover from this have "digits_before msg e" using Cons.prems(2) status_pattern_end [OF _ find_match_Some] by auto
    ultimately show ?thesis
      using Contains_slice [of "e - 3" 3 msg]
      by (intro exI [of _ "take 3 (drop (e - 3) msg)"]) (auto simp: digits_before_def)
  qed
qed simp

text \<open>
  What a classification says of the error.  It carries the provider, the model and the error it was
  asked about; a user's cancellation is never classified; the reason is one of five (an overloaded
  provider counts as rate limited, and there is no unknown reason); and a status is only reported when
  the normalised message contains it as three digits, and then the reason is the one of that status.
\<close>

theorem ClassifyError_sound:
  assumes "ClassifyError err provider model = Some f"
  shows "err \<noteq> Canceled \<and> fe_provider f = provider \<and> fe_model f = model \<and> fe_wrapped f = err \<and>
    fe_reason f \<in> {FailoverAuth, FailoverRateLimit, FailoverBilling, FailoverTimeout, FailoverFormat} \<and>
    (fe_status f \<noteq> 0 \<longrightarrow>
       classifyByStatus (fe_status f) = Some (fe_reason f) \<and>
       (\<exists>d. length d = 3 \<and> list_all is_digit d \<and> Contains (normalizeProviderErrorMessage err) d \<and>
            parseDigits d = fe_status f))"
proof -
  let ?msg = "normalizeProviderErrorMessage err"
  define R where "R = {FailoverAuth, FailoverRateLimit, FailoverBilling, FailoverTimeout, FailoverFormat}"
  have s: "classifyByStatus st = Some r \<Longrightarrow> r \<in> R" for st r
    by (auto simp: classifyByStatus_def R_def split: if_splits)
  have t: "classifyByMessage m = Some r \<Longrightarrow> r \<in> R" for m r
    by (auto simp: classifyByMessage_def R_def split: if_splits)
  have f: "FailoverTimeout \<in> R" "FailoverFormat \<in> R" by (simp_all add: R_def)
  have d: "0 < extractHTTPStatus ?msg \<Longrightarrow> \<exists>d. length d = 3 \<and> list_all is_digit d \<and> Contains ?msg d \<and>
      parseDigits d = extractHTTPStatus ?msg"
    using extract_with_digits [of httpStatusPatterns ?msg] by (simp add: extractHTTPStatus_def)
  from assms show ?thesis
    unfolding R_def [symmetric]
    using s t d f by (auto simp: ClassifyError_def Let_def mk_failover_def split: if_splits option.splits)
qed

theorem ClassifyError_sound_witness:
  "classifyByStatus 503 = Some FailoverTimeout"
proof -
  have "ClassifyError (OtherError ''status: 503'') ''p'' ''m''
      = Some (mk_failover FailoverTimeout ''p'' ''m'' 503 (OtherError ''status: 503''))" by code_simp
  from ClassifyError_sound [OF this] show ?thesis by (simp add: mk_failover_def)
qed

end
