(* ===== verification/Fallback.thy ===== *)
theory Fallback
  imports Classify "HOL-Library.Sublist"
begin

text \<open>
  The fallback chain over models and providers: \<^verbatim>\<open>pkg/providers/fallback.go\<close>.  The outside world of one
  iteration of the loop (the clock, the state of the context, what the provider call returned and how
  long it took) is a record \<open>turn\<close>; a run of the chain gets one turn for each candidate.  The attempt
  that is appended just before an aborting return is not part of what is returned, so it has no
  counterpart here.
\<close>

section \<open>Candidates\<close>

record fallback_candidate =
  fc_provider :: string
  fc_model :: string

record model_config =
  mc_primary :: string
  mc_fallbacks :: "string list"

definition candidate_key :: "fallback_candidate \<Rightarrow> string" where
  "candidate_key c = ModelKey (fc_provider c) (fc_model c)"

definition resolve_ref :: "string \<Rightarrow> (string \<Rightarrow> string option) option \<Rightarrow> string \<Rightarrow> fallback_candidate option" where
  "resolve_ref defaultProvider lookup raw =
     (let candidateRaw = TrimSpace raw;
          candidateRaw = (case lookup of
                            None \<Rightarrow> candidateRaw
                          | Some f \<Rightarrow> (case f candidateRaw of Some resolved \<Rightarrow> resolved | None \<Rightarrow> candidateRaw))
      in map_option (\<lambda>r. \<lparr>fc_provider = mr_provider r, fc_model = mr_model r\<rparr>)
           (ParseModelRef candidateRaw defaultProvider))"

fun addCandidate :: "fallback_candidate option \<Rightarrow> string list \<times> fallback_candidate list
    \<Rightarrow> string list \<times> fallback_candidate list" where
  "addCandidate None (seen, candidates) = (seen, candidates)"
| "addCandidate (Some c) (seen, candidates) =
     (if candidate_key c \<in> set seen then (seen, candidates)
      else (candidate_key c # seen, candidates @ [c]))"

definition ResolveCandidatesWithLookup ::
  "model_config \<Rightarrow> string \<Rightarrow> (string \<Rightarrow> string option) option \<Rightarrow> fallback_candidate list" where
  "ResolveCandidatesWithLookup cfg defaultProvider lookup =
     snd (fold (\<lambda>raw. addCandidate (resolve_ref defaultProvider lookup raw))
            (mc_primary cfg # mc_fallbacks cfg) ([], []))"

definition ResolveCandidates :: "model_config \<Rightarrow> string \<Rightarrow> fallback_candidate list" where
  "ResolveCandidates cfg defaultProvider = ResolveCandidatesWithLookup cfg defaultProvider None"

section \<open>Running the chain\<close>

datatype attempt_error = DetailError string | RawError go_error | Failover failover_error

record fallback_attempt =
  fa_provider :: string
  fa_model :: string
  fa_error :: attempt_error
  fa_reason :: "failover_reason option"
  fa_duration :: duration
  fa_skipped :: bool

record 'r fallback_result =
  fr_response :: 'r
  fr_provider :: string
  fr_model :: string
  fr_attempts :: "fallback_attempt list"

datatype fallback_error =
    NoCandidates
  | ChainCanceled
  | Unclassified string string go_error
  | NonRetriable failover_error
  | Exhausted "fallback_attempt list"

record 'r turn =
  tn_canceled_before :: bool
  tn_now_check :: gtime
  tn_now_reason :: gtime
  tn_now_detail :: gtime
  tn_now_remaining :: gtime
  tn_outcome :: "go_error + 'r"
  tn_elapsed :: duration
  tn_canceled_after :: bool
  tn_now_fail :: gtime

datatype 'r chain_step =
    StepSkip fallback_attempt
  | StepFail cooldown_tracker fallback_attempt
  | StepDone cooldown_tracker 'r
  | StepStop fallback_error

definition skipped_attempt :: "cooldown_tracker \<Rightarrow> fallback_candidate \<Rightarrow> 'r turn \<Rightarrow> fallback_attempt" where
  "skipped_attempt ct c t =
     (let p = fc_provider c;
          reason = (case unavailabilityReason ct p (tn_now_reason t) of
                      None \<Rightarrow> FailoverRateLimit | Some r \<Rightarrow> r);
          detail = unavailabilityDetail ct p (tn_now_detail t);
          detail = (if detail = []
                    then ''provider '' @ p @ '' in cooldown (''
                      @ seconds_text (round_to (CooldownRemaining ct p (tn_now_remaining t)) nsSecond)
                      @ '' remaining)''
                    else detail)
      in \<lparr>fa_provider = p, fa_model = fc_model c, fa_error = DetailError detail,
          fa_reason = Some reason, fa_duration = 0, fa_skipped = True\<rparr>)"

definition exec_step :: "cooldown_tracker \<Rightarrow> fallback_candidate \<Rightarrow> 'r turn \<Rightarrow> 'r chain_step" where
  "exec_step ct c t =
     (let p = fc_provider c; m = fc_model c in
      if tn_canceled_before t then StepStop ChainCanceled
      else if \<not> IsAvailable ct p (tn_now_check t) then StepSkip (skipped_attempt ct c t)
      else case tn_outcome t of
             Inr resp \<Rightarrow> StepDone (MarkSuccess ct p) resp
           | Inl err \<Rightarrow>
               if tn_canceled_after t then StepStop ChainCanceled
               else case ClassifyError err p m of
                      None \<Rightarrow> StepStop (Unclassified p m err)
                    | Some f \<Rightarrow>
                        if \<not> IsRetriable f then StepStop (NonRetriable f)
                        else StepFail (MarkFailure ct p (fe_reason f) (tn_now_fail t))
                               \<lparr>fa_provider = p, fa_model = m, fa_error = Failover f,
                                fa_reason = Some (fe_reason f), fa_duration = tn_elapsed t,
                                fa_skipped = False\<rparr>)"

fun execute_from :: "cooldown_tracker \<Rightarrow> fallback_candidate list \<Rightarrow> (nat \<Rightarrow> 'r turn) \<Rightarrow> nat
    \<Rightarrow> fallback_attempt list \<Rightarrow> cooldown_tracker \<times> (fallback_error + 'r fallback_result)" where
  "execute_from ct [] turns i attempts = (ct, Inl (Exhausted attempts))"
| "execute_from ct (c # cs) turns i attempts =
     (case exec_step ct c (turns i) of
        StepSkip a \<Rightarrow> execute_from ct cs turns (Suc i) (attempts @ [a])
      | StepFail ct' a \<Rightarrow>
          (if cs = [] then (ct', Inl (Exhausted (attempts @ [a])))
           else execute_from ct' cs turns (Suc i) (attempts @ [a]))
      | StepDone ct' resp \<Rightarrow>
          (ct', Inr \<lparr>fr_response = resp, fr_provider = fc_provider c, fr_model = fc_model c,
                      fr_attempts = attempts\<rparr>)
      | StepStop e \<Rightarrow> (ct, Inl e))"

definition Execute :: "cooldown_tracker \<Rightarrow> fallback_candidate list \<Rightarrow> (nat \<Rightarrow> 'r turn)
    \<Rightarrow> cooldown_tracker \<times> (fallback_error + 'r fallback_result)" where
  "Execute ct candidates turns =
     (if candidates = [] then (ct, Inl NoCandidates) else execute_from ct candidates turns 0 [])"

text \<open>The chain for images: no cooldown is read or written.\<close>

fun execute_image_from :: "fallback_candidate list \<Rightarrow> (nat \<Rightarrow> 'r turn) \<Rightarrow> nat
    \<Rightarrow> fallback_attempt list \<Rightarrow> fallback_error + 'r fallback_result" where
  "execute_image_from [] turns i attempts = Inl (Exhausted attempts)"
| "execute_image_from (c # cs) turns i attempts =
     (let t = turns i; p = fc_provider c; m = fc_model c in
      if tn_canceled_before t then Inl ChainCanceled
      else case tn_outcome t of
             Inr resp \<Rightarrow> Inr \<lparr>fr_response = resp, fr_provider = p, fr_model = m, fr_attempts = attempts\<rparr>
           | Inl err \<Rightarrow>
               if tn_canceled_after t then Inl ChainCanceled
               else
                 let errMsg = ToLower (error_text err) in
                 if IsImageDimensionError errMsg \<or> IsImageSizeError errMsg
                 then Inl (NonRetriable (mk_failover FailoverFormat p m 0 err))
                 else
                   let a = \<lparr>fa_provider = p, fa_model = m, fa_error = RawError err, fa_reason = None,
                            fa_duration = tn_elapsed t, fa_skipped = False\<rparr> in
                   if cs = [] then Inl (Exhausted (attempts @ [a]))
                   else execute_image_from cs turns (Suc i) (attempts @ [a]))"

definition ExecuteImage :: "fallback_candidate list \<Rightarrow> (nat \<Rightarrow> 'r turn) \<Rightarrow> fallback_error + 'r fallback_result" where
  "ExecuteImage candidates turns =
     (if candidates = [] then Inl NoCandidates else execute_image_from candidates turns 0 [])"

section \<open>Candidates are resolved once, in order\<close>

definition configured_refs :: "model_config \<Rightarrow> string \<Rightarrow> (string \<Rightarrow> string option) option \<Rightarrow> fallback_candidate list" where
  "configured_refs cfg dp lookup = List.map_filter (resolve_ref dp lookup) (mc_primary cfg # mc_fallbacks cfg)"

lemma fold_addCandidate:
  assumes "fold (\<lambda>raw. addCandidate (f raw)) raws (map candidate_key (rev cs), cs) = (seen', cs')"
    and "distinct (map candidate_key cs)"
  shows "distinct (map candidate_key cs') \<and>
    set (map candidate_key cs') = set (map candidate_key (cs @ List.map_filter f raws)) \<and>
    (\<exists>d. cs' = cs @ d \<and> subseq d (List.map_filter f raws))"
  using assms
proof (induction raws arbitrary: cs)
  case (Cons raw raws)
  show ?case
  proof (cases "f raw")
    case None
    with Cons show ?thesis by (simp add: List.map_filter_simps)
  next
    case (Some c)
    show ?thesis
    proof (cases "candidate_key c \<in> candidate_key ` set cs")
      case True
      with Cons Some have "distinct (map candidate_key cs') \<and>
        set (map candidate_key cs') = set (map candidate_key (cs @ List.map_filter f raws)) \<and>
        (\<exists>d. cs' = cs @ d \<and> subseq d (List.map_filter f raws))"
        by simp
      with True Some show ?thesis by (auto simp: List.map_filter_simps)
    next
      case False
      with Cons.prems Some
      have "fold (\<lambda>raw. addCandidate (f raw)) raws (map candidate_key (rev (cs @ [c])), cs @ [c]) = (seen', cs')"
        "distinct (map candidate_key (cs @ [c]))" by auto
      from Cons.IH [OF this] Some show ?thesis by (auto simp: List.map_filter_simps)
    qed
  qed
qed (auto simp: List.map_filter_simps)

text \<open>
  The candidates of a run are the configured model references in their order, the primary one first,
  without those whose key has come before: no key appears twice, no configured key is missing, and
  nothing is added.
\<close>

theorem ResolveCandidates_dedup:
  "distinct (map candidate_key (ResolveCandidatesWithLookup cfg dp lookup)) \<and>
   set (map candidate_key (ResolveCandidatesWithLookup cfg dp lookup))
     = set (map candidate_key (configured_refs cfg dp lookup)) \<and>
   subseq (ResolveCandidatesWithLookup cfg dp lookup) (configured_refs cfg dp lookup)"
proof -
  define raws where "raws = mc_primary cfg # mc_fallbacks cfg"
  obtain seen' cs' where f: "fold (\<lambda>raw. addCandidate (resolve_ref dp lookup raw)) raws ([], []) = (seen', cs')"
    by force
  have "distinct (map candidate_key cs') \<and>
      set (map candidate_key cs') = set (map candidate_key (List.map_filter (resolve_ref dp lookup) raws)) \<and>
      subseq cs' (List.map_filter (resolve_ref dp lookup) raws)"
    using fold_addCandidate [of "resolve_ref dp lookup" raws "[]" seen' cs'] f by simp
  then show ?thesis
    unfolding ResolveCandidatesWithLookup_def configured_refs_def raws_def [symmetric] f by simp
qed

section \<open>What a run of the chain does\<close>

text \<open>The operations on the tracker behind a list of attempts that began at turn \<open>i\<close>.\<close>

fun attempt_ops :: "fallback_attempt list \<Rightarrow> (nat \<Rightarrow> 'r turn) \<Rightarrow> nat \<Rightarrow> cooldown_op list" where
  "attempt_ops [] turns i = []"
| "attempt_ops (a # as) turns i =
     (if fa_skipped a then []
      else [OpFailure (fa_provider a) (the (fa_reason a)) (tn_now_fail (turns i))])
     @ attempt_ops as turns (Suc i)"

text \<open>What one attempt says of its candidate: skipped exactly when the provider was unavailable, and
  otherwise a classified error that another model may not have.\<close>

definition attempt_ok :: "cooldown_tracker \<Rightarrow> fallback_candidate \<Rightarrow> 'r turn \<Rightarrow> fallback_attempt \<Rightarrow> bool" where
  "attempt_ok ct c t a \<longleftrightarrow>
     fa_provider a = fc_provider c \<and> fa_model a = fc_model c \<and>
     (fa_skipped a \<longleftrightarrow> \<not> IsAvailable ct (fc_provider c) (tn_now_check t)) \<and>
     (\<not> fa_skipped a \<longrightarrow> (\<exists>err f. tn_outcome t = Inl err \<and>
        ClassifyError err (fc_provider c) (fc_model c) = Some f \<and> IsRetriable f \<and>
        fa_error a = Failover f \<and> fa_reason a = Some (fe_reason f)))"

text \<open>The attempts of a run, from turn \<open>i\<close> and tracker \<open>ct\<close> on.\<close>

fun attempts_ok :: "cooldown_tracker \<Rightarrow> fallback_candidate list \<Rightarrow> (nat \<Rightarrow> 'r turn) \<Rightarrow> nat
    \<Rightarrow> fallback_attempt list \<Rightarrow> bool" where
  "attempts_ok ct cs turns i [] \<longleftrightarrow> True"
| "attempts_ok ct [] turns i (a # as) \<longleftrightarrow> False"
| "attempts_ok ct (c # cs) turns i (a # as) \<longleftrightarrow>
     attempt_ok ct c (turns i) a \<and>
     attempts_ok (fold tracker.apply_op (attempt_ops [a] turns i) ct) cs turns (Suc i) as"

lemma skipped_attempt_fields [simp]:
  "fa_skipped (skipped_attempt ct c t)" "fa_provider (skipped_attempt ct c t) = fc_provider c"
  "fa_model (skipped_attempt ct c t) = fc_model c"
  by (simp_all add: skipped_attempt_def Let_def)

lemma step_skip:
  "exec_step ct c t = StepSkip a \<Longrightarrow> attempt_ok ct c t a \<and> fa_skipped a"
  by (auto simp: exec_step_def Let_def attempt_ok_def split: if_splits sum.splits option.splits)

lemma step_fail:
  "exec_step ct c t = StepFail ct' a \<Longrightarrow>
   attempt_ok ct c t a \<and> \<not> fa_skipped a \<and>
   ct' = MarkFailure ct (fa_provider a) (the (fa_reason a)) (tn_now_fail t)"
  by (auto simp: exec_step_def Let_def attempt_ok_def split: if_splits sum.splits option.splits)

lemma step_done:
  "exec_step ct c t = StepDone ct' r \<Longrightarrow>
   tn_outcome t = Inr r \<and> IsAvailable ct (fc_provider c) (tn_now_check t) \<and> ct' = MarkSuccess ct (fc_provider c)"
  by (auto simp: exec_step_def Let_def split: if_splits sum.splits option.splits)

lemma execute_from_done:
  assumes "execute_from ct cs turns i att = (ct', Inr r)"
  shows "\<exists>new c. fr_attempts r = att @ new \<and> length new < length cs \<and>
    c = cs ! length new \<and> fr_provider r = fc_provider c \<and> fr_model r = fc_model c \<and>
    tn_outcome (turns (i + length new)) = Inr (fr_response r) \<and>
    attempts_ok ct cs turns i new \<and>
    IsAvailable (fold tracker.apply_op (attempt_ops new turns i) ct) (fc_provider c) (tn_now_check (turns (i + length new))) \<and>
    ct' = fold tracker.apply_op (attempt_ops new turns i @ [OpSuccess (fc_provider c)]) ct"
  using assms
proof (induction ct cs turns i att rule: execute_from.induct)
  case (2 ct c cs turns i att)
  show ?case
  proof (cases "exec_step ct c (turns i)")
    case (StepSkip a)
    with "2.prems" have "execute_from ct cs turns (Suc i) (att @ [a]) = (ct', Inr r)" by simp
    from "2.IH"(1) [OF StepSkip this] obtain new where
      "fr_attempts r = (att @ [a]) @ new" "length new < length cs" and
      rest: "fr_provider r = fc_provider (cs ! length new)" "fr_model r = fc_model (cs ! length new)"
        "tn_outcome (turns (Suc i + length new)) = Inr (fr_response r)"
        "attempts_ok ct cs turns (Suc i) new"
        "IsAvailable (fold tracker.apply_op (attempt_ops new turns (Suc i)) ct) (fc_provider (cs ! length new))
           (tn_now_check (turns (Suc i + length new)))"
        "ct' = fold tracker.apply_op (attempt_ops new turns (Suc i) @ [OpSuccess (fc_provider (cs ! length new))]) ct"
      by blast
    with step_skip [OF StepSkip] show ?thesis
      by (intro exI [of _ "a # new"] exI [of _ "cs ! length new"]) simp
  next
    case (StepFail ct1 a)
    with "2.prems" have ne: "cs \<noteq> []" and "execute_from ct1 cs turns (Suc i) (att @ [a]) = (ct', Inr r)"
      by (auto split: if_splits)
    from "2.IH"(2) [OF StepFail ne this(2)] obtain new where
      "fr_attempts r = (att @ [a]) @ new" "length new < length cs" and
      rest: "fr_provider r = fc_provider (cs ! length new)" "fr_model r = fc_model (cs ! length new)"
        "tn_outcome (turns (Suc i + length new)) = Inr (fr_response r)"
        "attempts_ok ct1 cs turns (Suc i) new"
        "IsAvailable (fold tracker.apply_op (attempt_ops new turns (Suc i)) ct1) (fc_provider (cs ! length new))
           (tn_now_check (turns (Suc i + length new)))"
        "ct' = fold tracker.apply_op (attempt_ops new turns (Suc i) @ [OpSuccess (fc_provider (cs ! length new))]) ct1"
      by blast
    with step_fail [OF StepFail] show ?thesis
      by (intro exI [of _ "a # new"] exI [of _ "cs ! length new"]) simp
  next
    case (StepDone ct1 resp)
    with "2.prems" step_done [OF StepDone] show ?thesis
      by (intro exI [of _ "[]"] exI [of _ c]) auto
  qed (use "2.prems" in simp)
qed simp

lemma execute_from_exhausted:
  assumes "execute_from ct cs turns i att = (ct', Inl (Exhausted all))"
  shows "\<exists>new. all = att @ new \<and> length new = length cs \<and> attempts_ok ct cs turns i new \<and>
    ct' = fold tracker.apply_op (attempt_ops new turns i) ct"
  using assms
proof (induction ct cs turns i att rule: execute_from.induct)
  case (2 ct c cs turns i att)
  show ?case
  proof (cases "exec_step ct c (turns i)")
    case (StepSkip a)
    with "2.prems" have "execute_from ct cs turns (Suc i) (att @ [a]) = (ct', Inl (Exhausted all))" by simp
    from "2.IH"(1) [OF StepSkip this] obtain new where
      "all = (att @ [a]) @ new" "length new = length cs" "attempts_ok ct cs turns (Suc i) new"
      "ct' = fold tracker.apply_op (attempt_ops new turns (Suc i)) ct" by blast
    with step_skip [OF StepSkip] show ?thesis by (intro exI [of _ "a # new"]) simp
  next
    case (StepFail ct1 a)
    note f = step_fail [OF StepFail]
    show ?thesis
    proof (cases "cs = []")
      case True
      with "2.prems" StepFail f show ?thesis by (intro exI [of _ "[a]"]) simp
    next
      case False
      with "2.prems" StepFail have "execute_from ct1 cs turns (Suc i) (att @ [a]) = (ct', Inl (Exhausted all))" by simp
      from "2.IH"(2) [OF StepFail False this] obtain new where
        "all = (att @ [a]) @ new" "length new = length cs" "attempts_ok ct1 cs turns (Suc i) new"
        "ct' = fold tracker.apply_op (attempt_ops new turns (Suc i)) ct1" by blast
      with f show ?thesis by (intro exI [of _ "a # new"]) simp
    qed
  next
    case (StepStop e)
    with "2.prems" show ?thesis by (auto simp: exec_step_def Let_def split: if_splits sum.splits option.splits)
  qed (use "2.prems" in simp)
qed simp

lemma attempts_ok_nth:
  "attempts_ok ct cs turns i as \<Longrightarrow> k < length as \<Longrightarrow>
   k < length cs \<and>
   attempt_ok (fold tracker.apply_op (attempt_ops (take k as) turns i) ct) (cs ! k) (turns (i + k)) (as ! k)"
proof (induction as arbitrary: ct cs i k)
  case (Cons a as)
  then obtain c cs' where cs: "cs = c # cs'" by (cases cs) auto
  show ?case
  proof (cases k)
    case 0
    with Cons.prems cs show ?thesis by simp
  next
    case (Suc l)
    with Cons.prems cs have "attempts_ok (fold tracker.apply_op (attempt_ops [a] turns i) ct) cs' turns (Suc i) as"
      "l < length as" by simp_all
    from Cons.IH [OF this] Suc cs show ?thesis by simp
  qed
qed simp

lemma set_attempt_ops:
  "set (attempt_ops as turns i) =
   {OpFailure (fa_provider (as ! j)) (the (fa_reason (as ! j))) (tn_now_fail (turns (i + j))) | j.
      j < length as \<and> \<not> fa_skipped (as ! j)}"
proof (induction as arbitrary: i)
  case (Cons a as)
  have e: "{f j | j. j < Suc n \<and> P j} = (if P 0 then {f 0} else {}) \<union> {f (Suc j) | j. j < n \<and> P (Suc j)}"
    for f :: "nat \<Rightarrow> cooldown_op" and n P
  proof -
    have "(\<exists>j. x = f j \<and> j < Suc n \<and> P j) \<longleftrightarrow> (x = f 0 \<and> P 0) \<or> (\<exists>j. x = f (Suc j) \<and> j < n \<and> P (Suc j))" for x
      by (metis Suc_less_eq not0_implies_Suc zero_less_Suc)
    then show ?thesis by auto
  qed
  have "set (attempt_ops (a # as) turns i) =
    (if \<not> fa_skipped a then {OpFailure (fa_provider a) (the (fa_reason a)) (tn_now_fail (turns i))} else {})
    \<union> set (attempt_ops as turns (Suc i))" by simp
  then show ?case unfolding Cons.IH length_Cons e by simp
qed simp

lemma attempt_ops_append:
  "attempt_ops (as @ bs) turns i = attempt_ops as turns i @ attempt_ops bs turns (i + length as)"
  by (induction as arbitrary: i) simp_all

text \<open>The attempts a run gives back, if it gives any back.\<close>

fun returned_attempts :: "fallback_error + 'r fallback_result \<Rightarrow> fallback_attempt list option" where
  "returned_attempts (Inr r) = Some (fr_attempts r)"
| "returned_attempts (Inl (Exhausted att)) = Some att"
| "returned_attempts (Inl e) = None"

lemma Execute_attempts:
  assumes "Execute ct cs turns = (ct', res)" "returned_attempts res = Some att"
  shows "attempts_ok ct cs turns 0 att"
proof -
  have ne: "cs \<noteq> []" using assms by (auto simp: Execute_def)
  then have run: "execute_from ct cs turns 0 [] = (ct', res)" using assms(1) by (simp add: Execute_def)
  show ?thesis
    using assms(2) run execute_from_done [of ct cs turns 0 "[]" ct'] execute_from_exhausted [of ct cs turns 0 "[]" ct']
    by (cases res rule: returned_attempts.cases) auto
qed

text \<open>A concrete run: two models of one provider and one of another; the first call fails with status
  503 at time 0, the last one answers.\<close>

definition ex_turn :: "gtime \<Rightarrow> go_error + string \<Rightarrow> string turn" where
  "ex_turn t out = \<lparr>tn_canceled_before = False, tn_now_check = t, tn_now_reason = t, tn_now_detail = t,
     tn_now_remaining = t, tn_outcome = out, tn_elapsed = 5, tn_canceled_after = False, tn_now_fail = t\<rparr>"

definition ex_turns :: "nat \<Rightarrow> string turn" where
  "ex_turns i = ex_turn (int i * nsSecond) (if i = 0 then Inl (OtherError ''status: 503'') else Inr ''hello'')"

definition ex_candidates :: "fallback_candidate list" where
  "ex_candidates = [\<lparr>fc_provider = ''openai'', fc_model = ''gpt-a''\<rparr>, \<lparr>fc_provider = ''openai'', fc_model = ''gpt-b''\<rparr>,
     \<lparr>fc_provider = ''zhipu'', fc_model = ''glm''\<rparr>]"

lemma ex_first_step:
  "exec_step NewCooldownTracker (ex_candidates ! 0) (ex_turns 0) =
   StepFail (MarkFailure NewCooldownTracker ''openai'' FailoverTimeout 0)
     \<lparr>fa_provider = ''openai'', fa_model = ''gpt-a'',
      fa_error = Failover (mk_failover FailoverTimeout ''openai'' ''gpt-a'' 503 (OtherError ''status: 503'')),
      fa_reason = Some FailoverTimeout, fa_duration = 5, fa_skipped = False\<rparr>"
proof -
  have "ClassifyError (OtherError ''status: 503'') ''openai'' ''gpt-a''
    = Some (mk_failover FailoverTimeout ''openai'' ''gpt-a'' 503 (OtherError ''status: 503''))" by code_simp
  then show ?thesis
    by (simp add: exec_step_def Let_def ex_candidates_def ex_turns_def ex_turn_def IsAvailable_def NewCooldownTracker_def
        IsRetriable_def mk_failover_def)
qed

lemma ex_run_attempts:
  "\<exists>r. snd (Execute NewCooldownTracker ex_candidates ex_turns) = Inr r \<and> fr_provider r = ''zhipu'' \<and>
     map fa_skipped (fr_attempts r) = [False, True] \<and> map fa_provider (fr_attempts r) = [''openai'', ''openai'']"
proof -
  let ?ct = "MarkFailure NewCooldownTracker ''openai'' FailoverTimeout 0"
  have a: "\<not> IsAvailable ?ct ''openai'' nsSecond" "IsAvailable ?ct ''zhipu'' (2 * nsSecond)" by code_simp+
  have s1: "exec_step ?ct \<lparr>fc_provider = ''openai'', fc_model = ''gpt-b''\<rparr> (ex_turns (Suc 0))
    = StepSkip (skipped_attempt ?ct \<lparr>fc_provider = ''openai'', fc_model = ''gpt-b''\<rparr> (ex_turns (Suc 0)))"
    using a by (simp add: exec_step_def Let_def ex_turns_def ex_turn_def)
  have s2: "exec_step ?ct \<lparr>fc_provider = ''zhipu'', fc_model = ''glm''\<rparr> (ex_turns (Suc (Suc 0)))
    = StepDone (MarkSuccess ?ct ''zhipu'') ''hello''"
    using a by (simp add: exec_step_def Let_def ex_turns_def ex_turn_def)
  have s0: "exec_step NewCooldownTracker \<lparr>fc_provider = ''openai'', fc_model = ''gpt-a''\<rparr> (ex_turns 0) =
     StepFail ?ct \<lparr>fa_provider = ''openai'', fa_model = ''gpt-a'',
      fa_error = Failover (mk_failover FailoverTimeout ''openai'' ''gpt-a'' 503 (OtherError ''status: 503'')),
      fa_reason = Some FailoverTimeout, fa_duration = 5, fa_skipped = False\<rparr>"
    using ex_first_step by (simp add: ex_candidates_def)
  show ?thesis
    by (simp add: Execute_def ex_candidates_def s0 s1 s2)
qed

text \<open>
  When a run succeeds, the answer is the one of the first candidate that was neither skipped nor
  failed: every candidate before it has an attempt of its own, in order, that says why it was passed
  over (unavailable at that moment, or a classified error that is not a format error); the candidate
  that answered was available; and afterwards its provider is available at all times.
\<close>

theorem Execute_success:
  assumes "Execute ct candidates turns = (ct', Inr r)"
  shows "let k = length (fr_attempts r) in
    k < length candidates \<and>
    fr_provider r = fc_provider (candidates ! k) \<and> fr_model r = fc_model (candidates ! k) \<and>
    tn_outcome (turns k) = Inr (fr_response r) \<and>
    attempts_ok ct candidates turns 0 (fr_attempts r) \<and>
    IsAvailable (fold tracker.apply_op (attempt_ops (fr_attempts r) turns 0) ct)
      (fr_provider r) (tn_now_check (turns k)) \<and>
    IsAvailable ct' (fr_provider r) now"
proof -
  have "execute_from ct candidates turns 0 [] = (ct', Inr r)"
    using assms by (auto simp: Execute_def split: if_splits)
  from execute_from_done [OF this] show ?thesis
    by (auto simp: Let_def tracker.succ_avail)
qed

theorem Execute_success_witness:
  "\<exists>ct'. IsAvailable ct' ''zhipu'' 7"
proof -
  obtain ct' r where run: "Execute NewCooldownTracker ex_candidates ex_turns = (ct', Inr r)"
    and z: "fr_provider r = ''zhipu''"
    using ex_run_attempts by (metis prod.collapse)
  from Execute_success [OF run, of 7] z show ?thesis by (auto simp: Let_def)
qed

text \<open>
  When a run gives up because every candidate failed, it tried or skipped every one of them, in
  order, each with the attempt that says why; and the tracker is the old one after the failures of the
  attempts that were not skipped.
\<close>

theorem Execute_exhausted:
  assumes "Execute ct candidates turns = (ct', Inl (Exhausted att))"
  shows "length att = length candidates \<and> attempts_ok ct candidates turns 0 att \<and>
    ct' = fold tracker.apply_op (attempt_ops att turns 0) ct"
proof -
  have "execute_from ct candidates turns 0 [] = (ct', Inl (Exhausted att))"
    using assms by (auto simp: Execute_def split: if_splits)
  from execute_from_exhausted [OF this] show ?thesis by simp
qed

theorem Execute_exhausted_witness:
  "\<exists>ct' att. Execute NewCooldownTracker (take 1 ex_candidates) ex_turns = (ct', Inl (Exhausted att)) \<and> length att = 1"
proof -
  have "\<exists>ct' att. Execute NewCooldownTracker (take 1 ex_candidates) ex_turns = (ct', Inl (Exhausted att))"
    using ex_first_step by (simp add: Execute_def ex_candidates_def)
  then obtain ct' att where run: "Execute NewCooldownTracker (take 1 ex_candidates) ex_turns = (ct', Inl (Exhausted att))"
    by blast
  from Execute_exhausted [OF run] run show ?thesis by (auto simp: ex_candidates_def)
qed

lemma execute_from_stops:
  "execute_from ct cs turns i att = (ct', res) \<Longrightarrow> (\<forall>as. res \<noteq> Inl (Exhausted as)) \<Longrightarrow>
   execute_from ct (cs @ others) turns i att = (ct', res)"
  by (induction ct cs turns i att rule: execute_from.induct) (auto split: chain_step.splits if_splits)

text \<open>
  A run that ends with an answer, a cancellation, an unclassified error or an error that is not
  retriable ends there: further candidates behind the list are never looked at, and the tracker is the
  same as without them.
\<close>

theorem Execute_stops:
  assumes "Execute ct candidates turns = (ct', res)"
    and "res \<noteq> Inl NoCandidates" and "\<And>att. res \<noteq> Inl (Exhausted att)"
  shows "Execute ct (candidates @ others) turns = (ct', res)"
  using assms execute_from_stops [of ct candidates turns 0 "[]" ct' res others]
  by (auto simp: Execute_def split: if_splits)

theorem Execute_stops_witness:
  "\<exists>ct' r. Execute NewCooldownTracker (ex_candidates @ ex_candidates) ex_turns = (ct', Inr r)"
proof -
  obtain ct' r where run: "Execute NewCooldownTracker ex_candidates ex_turns = (ct', Inr r)"
    using ex_run_attempts by (metis prod.collapse)
  from Execute_stops [OF run] show ?thesis by auto
qed

text \<open>
  C21: Within a run a provider that has just failed is rested: once an attempt at a provider has
  failed, every later candidate of the same provider that comes up within a minute is skipped (the
  clock does not go backwards between the failures).
\<close>

theorem failed_provider_is_rested:
  assumes "Execute ct candidates turns = (ct', res)" and "returned_attempts res = Some att"
    and "j < k" and "k < length att" and "\<not> fa_skipped (att ! j)"
    and "fa_provider (att ! k) = fa_provider (att ! j)"
    and "tn_now_check (turns k) < tn_now_fail (turns j) + 60 * nsSecond"
    and clock: "\<And>a b. a \<le> b \<Longrightarrow> tn_now_fail (turns a) \<le> tn_now_fail (turns b)" "0 \<le> tn_now_fail (turns 0)"
  shows "fa_skipped (att ! k)"
proof -
  note ok = Execute_attempts [OF assms(1,2)]
  let ?p = "fa_provider (att ! j)"
  let ?late = "attempt_ops (drop j (take k att)) turns j"
  let ?s = "fold tracker.apply_op (attempt_ops (take j att) turns 0) ct"
  have parts: "take k att = take j att @ drop j (take k att)" using assms(3) by (metis append_take_drop_id min.absorb1 less_imp_le take_take)
  have ops: "attempt_ops (take k att) turns 0 = attempt_ops (take j att) turns 0 @ ?late"
    by (subst parts, subst attempt_ops_append) (use assms(3,4) in simp)
  have mem: "OpFailure ?p (the (fa_reason (att ! j))) (tn_now_fail (turns j)) \<in> set ?late"
    unfolding set_attempt_ops using assms(3-5) by (auto intro!: exI [of _ 0])
  have late: "\<forall>x \<in> set ?late. op_provider x = ?p \<longrightarrow> (\<exists>r m. x = OpFailure ?p r m \<and> tn_now_fail (turns j) \<le> m)"
    unfolding set_attempt_ops using clock(1) by auto
  have "0 \<le> tn_now_fail (turns j)" using clock(1) [of 0 j] clock(2) by simp
  then have "\<not> IsAvailable (fold tracker.apply_op ?late ?s) ?p (tn_now_check (turns k))"
    using mem late assms(7) by (intro tracker.failures_block) (auto intro!: bexI [OF _ mem])
  moreover have "attempt_ok (fold tracker.apply_op (attempt_ops (take k att) turns 0) ct) (candidates ! k) (turns k) (att ! k)"
    using attempts_ok_nth [OF ok assms(4)] by simp
  ultimately show ?thesis
    using assms(6) by (simp add: attempt_ok_def ops)
qed

theorem failed_provider_is_rested_witness:
  "\<exists>ct' r. Execute NewCooldownTracker ex_candidates ex_turns = (ct', Inr r) \<and> fa_skipped (fr_attempts r ! 1)"
proof -
  obtain ct' r where run: "Execute NewCooldownTracker ex_candidates ex_turns = (ct', Inr r)"
    and l: "map fa_skipped (fr_attempts r) = [False, True]" "map fa_provider (fr_attempts r) = [''openai'', ''openai'']"
    using ex_run_attempts by (metis prod.collapse)
  obtain a b where ab: "fr_attempts r = [a, b]" using l(1) by (auto simp: map_eq_Cons_conv)
  have "fa_skipped (fr_attempts r ! 1)"
    by (rule failed_provider_is_rested [OF run, of _ 0])
      (use l ab in \<open>auto simp: ex_turns_def ex_turn_def nsSecond_def\<close>)
  with run show ?thesis by blast
qed

end
