(* ===== verification/ModelDowngrade.thy ===== *)
theory ModelDowngrade
  imports SessionLimits Fallback
begin

text \<open>
  The automatic change of a session's model: \<^verbatim>\<open>pkg/agent/loop_model_downgrade.go\<close>.  Each trigger (an
  answer that came from a fallback, a context that was too long) counts towards a streak of its session;
  the trigger that reaches the threshold sets a model override of the session for a while.  The worlds
  \<open>w1\<close> and \<open>w2\<close> are those of the two operations of the session manager.  The audit record and the trace
  of a change are not modelled.
\<close>

record downgrade_state =
  dn_target :: string
  dn_streak :: int
  dn_last :: gtime

record downgrade_policy =
  dp_enabled :: bool
  dp_threshold :: int
  dp_window :: int       \<comment> \<open>minutes\<close>
  dp_ttl :: int          \<comment> \<open>minutes\<close>

type_synonym downgrade_map = "(string \<times> downgrade_state) list"

definition fresh_streak :: downgrade_state where
  "fresh_streak = \<lparr>dn_target = [], dn_streak = 0, dn_last = zero_time\<rparr>"

fun pickFirstDifferentModel :: "string \<Rightarrow> fallback_candidate list \<Rightarrow> string" where
  "pickFirstDifferentModel cur [] = []"
| "pickFirstDifferentModel cur (c # cs) =
     (let m = TrimSpace (fc_model c) in
      if m = [] then pickFirstDifferentModel cur cs
      else if TrimSpace cur = [] \<or> \<not> EqualFold m (TrimSpace cur) then m
      else pickFirstDifferentModel cur cs)"

definition clearModelAutoDowngradeState :: "string \<Rightarrow> downgrade_map \<Rightarrow> downgrade_map" where
  "clearModelAutoDowngradeState key0 sts =
     (let key = CanonicalSessionKey key0 in if key = [] then sts else AList.delete key sts)"

definition positive_or :: "int \<Rightarrow> int \<Rightarrow> int" where
  "positive_or d v = (if v \<le> 0 then d else v)"

definition minutes :: "int \<Rightarrow> duration" where
  "minutes n = wrap64 (n * (60 * nsSecond))"

definition downgrade_threshold :: "downgrade_policy \<Rightarrow> int" where
  "downgrade_threshold pol = positive_or 2 (dp_threshold pol)"

definition downgrade_window :: "downgrade_policy \<Rightarrow> duration" where
  "downgrade_window pol = minutes (positive_or 15 (dp_window pol))"

definition downgrade_ttl :: "downgrade_policy \<Rightarrow> duration" where
  "downgrade_ttl pol = minutes (positive_or 60 (dp_ttl pol))"

definition next_streak :: "duration \<Rightarrow> gtime \<Rightarrow> string \<Rightarrow> downgrade_state \<Rightarrow> downgrade_state" where
  "next_streak window now target st =
     (let st1 = (if \<not> IsZero (dn_last st) \<and> window < TSub now (dn_last st) then fresh_streak else st);
          st2 = (if dn_target st1 \<noteq> [] \<and> \<not> EqualFold (TrimSpace (dn_target st1)) target then fresh_streak else st1)
      in \<lparr>dn_target = target, dn_streak = dn_streak st2 + 1, dn_last = now\<rparr>)"

definition maybeAutoDowngradeSessionModel ::
  "downgrade_policy \<Rightarrow> gtime \<Rightarrow> world \<Rightarrow> world \<Rightarrow> string \<Rightarrow> string \<Rightarrow> string \<Rightarrow> manager \<times> downgrade_map
     \<Rightarrow> (manager \<times> downgrade_map) \<times> bool" where
  "maybeAutoDowngradeSessionModel pol now w1 w2 key0 from0 target0 ms =
     (let mg = fst ms; sts = snd ms;
          key = CanonicalSessionKey key0; target = TrimSpace target0; from = TrimSpace from0 in
      if key = [] then (ms, False)
      else if target = [] \<or> EqualFold target from then (ms, False)
      else if \<not> dp_enabled pol then (ms, False)
      else case EffectiveModelOverride w1 key mg of
             (mg1, Some _) \<Rightarrow> ((mg1, sts), False)
           | (mg1, None) \<Rightarrow>
               let st = next_streak (downgrade_window pol) now target
                          (case map_of sts key of Some s \<Rightarrow> s | None \<Rightarrow> fresh_streak) in
               if dn_streak st < downgrade_threshold pol then ((mg1, AList.update key st sts), False)
               else (case SetModelOverride w2 key target (downgrade_ttl pol) mg1 of
                       (mg2, Inl _) \<Rightarrow> ((mg2, AList.delete key sts), False)
                     | (mg2, Inr _) \<Rightarrow> ((mg2, AList.delete key sts), True)))"

section \<open>Lemmas\<close>

lemma EqualFold_refl [simp]: "EqualFold s s"
  by (simp add: EqualFold_def)

text \<open>A session without an override, whatever its other fields.\<close>

definition no_override :: "string \<Rightarrow> manager \<Rightarrow> bool" where
  "no_override key mg \<longleftrightarrow>
     (case get_session mg (CanonicalSessionKey key) of None \<Rightarrow> True | Some s \<Rightarrow> TrimSpace (s_override s) = [])"

lemma no_override_effective: "no_override key mg \<Longrightarrow> EffectiveModelOverride w (CanonicalSessionKey key) mg = (mg, None)"
  by (auto simp: no_override_def EffectiveModelOverride_def Let_def split: option.splits)

lemma SetModelOverride_ok:
  "CanonicalSessionKey key \<noteq> [] \<Longrightarrow> TrimSpace model \<noteq> [] \<Longrightarrow> \<exists>mg' e. SetModelOverride w key model ttl mg = (mg', Inr e)"
  by (simp add: SetModelOverride_def Let_def)

lemma SetModelOverride_session:
  assumes "key \<noteq> []" "CanonicalSessionKey key = key" "TrimSpace model = model" "model \<noteq> []"
  shows "\<exists>s. get_session (fst (SetModelOverride w key model ttl mg)) key = Some s \<and> s_override s = model
    \<and> s_override_expires s = (if ttl > 0 then Some (UnixMilli (w_now w + ttl)) else None)"
  using assms by (simp add: SetModelOverride_def Let_def)

text \<open>Triggers of one session towards the same model, at the given times.\<close>

fun trigger_all ::
  "downgrade_policy \<Rightarrow> world \<Rightarrow> string \<Rightarrow> string \<Rightarrow> string \<Rightarrow> gtime list \<Rightarrow> manager \<times> downgrade_map
     \<Rightarrow> (manager \<times> downgrade_map) \<times> bool list" where
  "trigger_all pol w key from target [] ms = (ms, [])"
| "trigger_all pol w key from target (t # ts) ms =
     (case maybeAutoDowngradeSessionModel pol t w w key from target ms of
        (ms', b) \<Rightarrow> (case trigger_all pol w key from target ts ms' of (ms'', bs) \<Rightarrow> (ms'', b # bs)))"

text \<open>Each trigger follows the one before it within the window.\<close>

fun within_window :: "duration \<Rightarrow> gtime \<Rightarrow> gtime list \<Rightarrow> bool" where
  "within_window win l [] \<longleftrightarrow> True"
| "within_window win l (t # ts) \<longleftrightarrow> (TSub t l \<le> win \<or> IsZero l) \<and> within_window win t ts"

definition counting :: "downgrade_map \<Rightarrow> string \<Rightarrow> string \<Rightarrow> int \<Rightarrow> gtime \<Rightarrow> bool" where
  "counting sts key target k l \<longleftrightarrow>
     (let st = (case map_of sts (CanonicalSessionKey key) of Some s \<Rightarrow> s | None \<Rightarrow> fresh_streak) in
      dn_streak st = k \<and> (k = 0 \<and> st = fresh_streak \<or> dn_target st = TrimSpace target \<and> dn_last st = l))"

lemma next_streak_counts:
  assumes "dn_streak st = k" "k = 0 \<and> st = fresh_streak \<or> dn_target st = TrimSpace target \<and> dn_last st = l"
    "TSub t l \<le> win \<or> IsZero l"
  shows "next_streak win t (TrimSpace target) st = \<lparr>dn_target = TrimSpace target, dn_streak = k + 1, dn_last = t\<rparr>"
  using assms by (auto simp: next_streak_def Let_def fresh_streak_def IsZero_def)

lemma trigger_counts:
  assumes "counting sts key target k l" "TSub t l \<le> downgrade_window pol \<or> IsZero l" "no_override key mg"
    "CanonicalSessionKey key \<noteq> []" "TrimSpace target \<noteq> []" "\<not> EqualFold (TrimSpace target) (TrimSpace from)" "dp_enabled pol"
  shows "maybeAutoDowngradeSessionModel pol t w1 w2 key from target (mg, sts) =
    (if k + 1 < downgrade_threshold pol
     then ((mg, AList.update (CanonicalSessionKey key) \<lparr>dn_target = TrimSpace target, dn_streak = k + 1, dn_last = t\<rparr> sts), False)
     else ((fst (SetModelOverride w2 (CanonicalSessionKey key) (TrimSpace target) (downgrade_ttl pol) mg),
            AList.delete (CanonicalSessionKey key) sts), True))"
proof -
  let ?key = "CanonicalSessionKey key" and ?t = "TrimSpace target"
  obtain mg' e where set: "SetModelOverride w2 ?key ?t (downgrade_ttl pol) mg = (mg', Inr e)"
    using SetModelOverride_ok [of ?key ?t w2 "downgrade_ttl pol" mg] assms(4,5) by auto
  define st where "st = (case map_of sts ?key of Some s \<Rightarrow> s | None \<Rightarrow> fresh_streak)"
  have "next_streak (downgrade_window pol) t ?t st = \<lparr>dn_target = ?t, dn_streak = k + 1, dn_last = t\<rparr>"
    using assms(1,2) by (intro next_streak_counts) (auto simp: counting_def Let_def st_def)
  then show ?thesis
    using assms(3-7) set no_override_effective [OF assms(3)]
    by (simp add: maybeAutoDowngradeSessionModel_def Let_def st_def)
qed

lemma counting_update:
  "counting (AList.update (CanonicalSessionKey key) \<lparr>dn_target = TrimSpace target, dn_streak = k, dn_last = l\<rparr> sts) key target k l"
  by (simp add: counting_def update_conv')

lemma triggers_count:
  assumes "counting sts key target k l" "within_window (downgrade_window pol) l ts" "no_override key mg"
    "CanonicalSessionKey key \<noteq> []" "TrimSpace target \<noteq> []" "\<not> EqualFold (TrimSpace target) (TrimSpace from)" "dp_enabled pol"
    and "k + int (length ts) = downgrade_threshold pol" "ts \<noteq> []"
  shows "\<exists>sts'. trigger_all pol w key from target ts (mg, sts) =
    ((fst (SetModelOverride w (CanonicalSessionKey key) (TrimSpace target) (downgrade_ttl pol) mg), sts'),
     replicate (length ts - 1) False @ [True]) \<and> map_of sts' (CanonicalSessionKey key) = None"
  using assms(1,2,8,9)
proof (induction ts arbitrary: k l sts)
  case (Cons t ts)
  note step = trigger_counts [OF Cons.prems(1) _ assms(3-7), of t w w]
  show ?case
  proof (cases "ts = []")
    case True
    with Cons.prems step show ?thesis by (simp add: delete_conv')
  next
    case False
    let ?sts = "AList.update (CanonicalSessionKey key) \<lparr>dn_target = TrimSpace target, dn_streak = k + 1, dn_last = t\<rparr> sts"
    have "0 < length ts" using False by simp
    moreover have sum: "k + 1 + int (length ts) = downgrade_threshold pol" using Cons.prems(3) by simp
    ultimately have "k + 1 < downgrade_threshold pol" by linarith
    then have "maybeAutoDowngradeSessionModel pol t w w key from target (mg, sts) = ((mg, ?sts), False)"
      using step Cons.prems by simp
    moreover obtain sts' where "trigger_all pol w key from target ts (mg, ?sts) =
        ((fst (SetModelOverride w (CanonicalSessionKey key) (TrimSpace target) (downgrade_ttl pol) mg), sts'),
         replicate (length ts - 1) False @ [True])" "map_of sts' (CanonicalSessionKey key) = None"
      using Cons.IH [of ?sts "k + 1" t] Cons.prems(2) sum False counting_update by auto
    ultimately show ?thesis using False by (cases ts) (auto simp: replicate_append_same)
  qed
qed simp

section \<open>Properties\<close>

text \<open>
  A session whose runs keep falling back to the same model changes to it exactly at the trigger that
  reaches the threshold, when each trigger came within the window of the one before: the session then
  has that model, and its streak starts over.
\<close>

theorem downgrade_at_threshold:
  assumes "dp_enabled pol" and "CanonicalSessionKey key \<noteq> []" and "TrimSpace target \<noteq> []"
    and "\<not> EqualFold (TrimSpace target) (TrimSpace from)"
    and "no_override key mg" and "map_of sts (CanonicalSessionKey key) = None"
    and "int (length ts) = downgrade_threshold pol" and "within_window (downgrade_window pol) zero_time ts"
    and "trigger_all pol w key from target ts (mg, sts) = ((mg', sts'), answers)"
    and "0 \<le> w_now w" and "UnixMilli (w_now w1) \<le> UnixMilli (w_now w + downgrade_ttl pol) \<or> downgrade_ttl pol \<le> 0"
  shows "answers = replicate (length ts - 1) False @ [True]
    \<and> map_of sts' (CanonicalSessionKey key) = None
    \<and> snd (EffectiveModelOverride w1 key mg') = Some (TrimSpace target)"
proof -
  have "0 < downgrade_threshold pol" by (simp add: downgrade_threshold_def positive_or_def)
  with assms(7) have "ts \<noteq> []" by auto
  moreover have "counting sts key target 0 zero_time" using assms(6) by (simp add: counting_def fresh_streak_def)
  ultimately have "mg' = fst (SetModelOverride w (CanonicalSessionKey key) (TrimSpace target) (downgrade_ttl pol) mg)"
    and "answers = replicate (length ts - 1) False @ [True]" "map_of sts' (CanonicalSessionKey key) = None"
    using triggers_count [of sts key target 0 zero_time pol ts mg "from" w] assms by auto
  moreover have "snd (EffectiveModelOverride w1 key mg') = Some (TrimSpace target)"
  proof -
    obtain s where "get_session mg' (CanonicalSessionKey key) = Some s" "s_override s = TrimSpace target"
      "s_override_expires s = (if downgrade_ttl pol > 0 then Some (UnixMilli (w_now w + downgrade_ttl pol)) else None)"
      using calculation(1) assms(2,3)
        SetModelOverride_session [of "CanonicalSessionKey key" "TrimSpace target" w "downgrade_ttl pol" mg] by auto
    with assms(2,3,11) show ?thesis by (auto simp: EffectiveModelOverride_def Let_def)
  qed
  ultimately show ?thesis by blast
qed

definition example_triggers :: "(manager \<times> downgrade_map) \<times> bool list" where
  "example_triggers = trigger_all \<lparr>dp_enabled = True, dp_threshold = 0, dp_window = 0, dp_ttl = 0\<rparr> (ex_world []) ''conv:a''
     ''gpt'' ''backup'' [nsSecond, 60 * nsSecond] (ex_manager, [])"

theorem downgrade_at_threshold_witness:
  "snd example_triggers = [False, True]
   \<and> snd (EffectiveModelOverride (ex_world []) ''conv:a'' (fst (fst example_triggers))) = Some ''backup''"
proof -
  let ?pol = "\<lparr>dp_enabled = True, dp_threshold = 0, dp_window = 0, dp_ttl = 0\<rparr>"
  have h: "dp_enabled ?pol" "CanonicalSessionKey ''conv:a'' \<noteq> []" "TrimSpace ''backup'' \<noteq> []" "TrimSpace ''backup'' = ''backup''"
    "\<not> EqualFold (TrimSpace ''backup'') (TrimSpace ''gpt'')" "no_override ''conv:a'' ex_manager"
    "map_of ([] :: downgrade_map) (CanonicalSessionKey ''conv:a'') = None" "0 \<le> w_now (ex_world [])"
    "int (length [nsSecond, 60 * nsSecond]) = downgrade_threshold ?pol"
    "within_window (downgrade_window ?pol) zero_time [nsSecond, 60 * nsSecond]"
    "UnixMilli (w_now (ex_world [])) \<le> UnixMilli (w_now (ex_world []) + downgrade_ttl ?pol) \<or> downgrade_ttl ?pol \<le> 0"
    by code_simp+
  have "trigger_all ?pol (ex_world []) ''conv:a'' ''gpt'' ''backup'' [nsSecond, 60 * nsSecond] (ex_manager, [])
    = ((fst (fst example_triggers), snd (fst example_triggers)), snd example_triggers)"
    by (simp add: example_triggers_def)
  from downgrade_at_threshold [OF h(1,2,3,5,6,7,9,10) this h(8,11)] h(4) show ?thesis by simp
qed

end
