(* ===== verification/HistoryStore.thy ===== *)
theory HistoryStore
  imports Session
begin

text \<open>
  The contract the two stores of conversation histories share: the agent sees a store only through the
  history of a key and the three operations that change it (append a message, replace the history,
  keep its last messages).  \<^verbatim>\<open>pkg/session\<close> and \<^verbatim>\<open>pkg/memory\<close> both implement it (\<^verbatim>\<open>internal/core/session\<close> and
  \<^verbatim>\<open>pkg/memory/store.go\<close> state it as Go interfaces); the interpretations are in the theories
  JsonlStore and SessionStore.  Histories are compared up to what JSON keeps of a message.
\<close>

datatype hist_op = HAdd message | HSet "message list" | HTrunc int

fun spec_op :: "hist_op \<Rightarrow> message list \<Rightarrow> message list" where
  "spec_op (HAdd msg) h = h @ [json_message msg]"
| "spec_op (HSet msgs) h = map json_message msgs"
| "spec_op (HTrunc k) h = keep_last k h"

lemma length_keep_last: "int (length (keep_last k h)) = (if k \<le> 0 then 0 else min k (int (length h)))"
  by (auto simp: keep_last_def last_n_def)

lemma keep_last_json: "keep_last k (map json_message h) = map json_message (keep_last k h)"
  by (auto simp: keep_last_def last_n_def drop_map)

locale history_store =
  fixes hist :: "'s \<Rightarrow> string \<Rightarrow> message list"
    and change :: "'w \<Rightarrow> string \<Rightarrow> hist_op \<Rightarrow> 's \<Rightarrow> 's"
    and ready :: "'s \<Rightarrow> string \<Rightarrow> bool"
    and fits :: "'w \<Rightarrow> hist_op \<Rightarrow> bool"
    and apart :: "string \<Rightarrow> string \<Rightarrow> bool"
  assumes change_ready: "ready s k \<Longrightarrow> fits w op \<Longrightarrow> ready (change w k op s) k"
    and change_hist: "ready s k \<Longrightarrow> fits w op \<Longrightarrow>
      map json_message (hist (change w k op s) k) = spec_op op (map json_message (hist s k))"
    and frame_ready: "ready s k \<Longrightarrow> ready s k' \<Longrightarrow> apart k k' \<Longrightarrow> fits w op \<Longrightarrow> ready (change w k' op s) k"
    and frame_hist: "ready s k \<Longrightarrow> ready s k' \<Longrightarrow> apart k k' \<Longrightarrow> fits w op \<Longrightarrow> hist (change w k' op s) k = hist s k"
begin

definition run :: "('w \<times> string \<times> hist_op) list \<Rightarrow> 's \<Rightarrow> 's" where
  "run ops s = fold (\<lambda>(w, k, op). change w k op) ops s"

definition on_keys :: "string set \<Rightarrow> ('w \<times> string \<times> hist_op) list \<Rightarrow> bool" where
  "on_keys K ops \<longleftrightarrow> (\<forall>(w, k, op) \<in> set ops. k \<in> K \<and> fits w op)"

definition keys_ready :: "string set \<Rightarrow> 's \<Rightarrow> bool" where
  "keys_ready K s \<longleftrightarrow> (\<forall>k \<in> K. ready s k) \<and> (\<forall>k \<in> K. \<forall>k' \<in> K. k \<noteq> k' \<longrightarrow> apart k k')"

lemma keys_ready_change:
  assumes "keys_ready K s" "k \<in> K" "fits w op"
  shows "keys_ready K (change w k op s)"
proof -
  have r: "ready s k" "\<And>j. j \<in> K \<Longrightarrow> ready s j" "\<And>i j. i \<in> K \<Longrightarrow> j \<in> K \<Longrightarrow> i \<noteq> j \<Longrightarrow> apart i j"
    using assms(1,2) by (auto simp: keys_ready_def)
  have "ready (change w k op s) j" if "j \<in> K" for j
    using that r assms(2,3) change_ready [of s k w op] frame_ready [of s j k w op] by (cases "j = k") simp_all
  with r(3) show ?thesis by (simp add: keys_ready_def)
qed

text \<open>Whatever the store is made of, the history of a key after a run is what the operations on that key
  make of it.\<close>

lemma run_hist:
  assumes "keys_ready K s" "on_keys K ops" "k \<in> K"
  shows "map json_message (hist (run ops s) k)
    = fold spec_op (map (\<lambda>(w, k', op). op) (filter (\<lambda>(w, k', op). k' = k) ops)) (map json_message (hist s k))"
  using assms
proof (induction ops arbitrary: s)
  case (Cons x ops)
  obtain w k' op where x: "x = (w, k', op)" by (cases x)
  have in_K: "k' \<in> K" "fits w op" "on_keys K ops" using Cons.prems(2) by (auto simp: on_keys_def x)
  have next_state: "keys_ready K (change w k' op s)" using keys_ready_change [OF Cons.prems(1) in_K(1,2)] .
  have r: "ready s k" "ready s k'" using Cons.prems(1,3) in_K by (auto simp: keys_ready_def)
  have other: "hist (change w k' op s) k = hist s k" if "k' \<noteq> k"
    using frame_hist [OF r _ in_K(2)] Cons.prems(1,3) in_K(1) that by (auto simp: keys_ready_def)
  have same: "map json_message (hist (change w k op s) k) = spec_op op (map json_message (hist s k))" if "k' = k"
    using change_hist r in_K(2) by blast
  have "map json_message (hist (run (x # ops) s) k)
      = fold spec_op (map (\<lambda>(w, k', op). op) (filter (\<lambda>(w, k', op). k' = k) ops)) (map json_message (hist (change w k' op s) k))"
    using Cons.IH [OF next_state in_K(3) Cons.prems(3)] by (simp add: run_def x)
  then show ?case using other same by (cases "k' = k") (simp_all add: x)
qed (simp add: run_def)

lemma run_ready: "keys_ready K s \<Longrightarrow> on_keys K ops \<Longrightarrow> keys_ready K (run ops s)"
proof (induction ops arbitrary: s)
  case (Cons x ops)
  then show ?case
    using keys_ready_change by (cases x) (auto simp: run_def on_keys_def)
qed (simp add: run_def)

lemma truncated_bound:
  assumes "ready s k" "fits w (HTrunc n)"
  shows "int (length (hist (change w k (HTrunc n) s) k)) = (if n \<le> 0 then 0 else min n (int (length (hist s k))))"
proof -
  have "length (hist (change w k (HTrunc n) s) k) = length (keep_last n (map json_message (hist s k)))"
    using change_hist [OF assms] by (metis length_map spec_op.simps(3))
  then show ?thesis by (simp add: length_keep_last)
qed

end

end
