(* ===== verification/JsonlStore.thy ===== *)
theory JsonlStore
  imports HistoryStore
begin

text \<open>
  The append-only store of \<^verbatim>\<open>pkg/memory/jsonl.go\<close>: per key one file of lines, each one message, and one
  meta file with the summary and the number of lines that are logically removed.  A line carries its
  length, because reading a file fails at a line of \<open>maxLineSize\<close> bytes; \<open>enc\<close> gives the length of the
  JSON text of a message.  What an operation meets outside is its \<open>jworld\<close> argument.
\<close>

section \<open>State\<close>

text \<open>A line is a message or garbage; the last line of a file may lack its newline.\<close>

record jline =
  jl_msg :: "message option"
  jl_len :: int

record jfile =
  jf_lines :: "jline list"
  jf_open :: bool

record jmeta =
  jm_key :: string
  jm_summary :: string
  jm_skip :: int
  jm_count :: int
  jm_created :: gtime
  jm_updated :: gtime

text \<open>A meta file that cannot be decoded is \<open>None\<close>.\<close>

record jstore =
  js_files :: "(string \<times> jfile) list"
  js_metas :: "(string \<times> jmeta option) list"

record jworld =
  jw_now :: gtime
  jw_read_meta :: bool
  jw_open :: bool
  jw_scan :: bool
  jw_short :: "int option"  \<comment> \<open>the write fails after this number of bytes\<close>
  jw_sync :: bool
  jw_close :: bool
  jw_write_meta :: bool
  jw_rewrite :: bool

datatype jerror = EReadMeta | EDecodeMeta | EOpen | EScan | EAppend | ESync | EClose | EWriteMeta | ERewrite

definition maxLineSize :: int where
  "maxLineSize = 10 * 1024 * 1024"

definition sanitizeKey :: "string \<Rightarrow> string" where
  "sanitizeKey key = ReplaceByte CHR '':'' ''_'' key"

definition jfile_at :: "jstore \<Rightarrow> string \<Rightarrow> jfile option" where
  "jfile_at s key = map_of (js_files s) (sanitizeKey key)"

definition put_jfile :: "string \<Rightarrow> jfile \<Rightarrow> jstore \<Rightarrow> jstore" where
  "put_jfile key f s = s\<lparr>js_files := AList.update (sanitizeKey key) f (js_files s)\<rparr>"

section \<open>Meta files\<close>

definition zero_meta :: "string \<Rightarrow> jmeta" where
  "zero_meta key = \<lparr>jm_key = key, jm_summary = [], jm_skip = 0, jm_count = 0, jm_created = zero_time, jm_updated = zero_time\<rparr>"

definition readMeta :: "jworld \<Rightarrow> string \<Rightarrow> jstore \<Rightarrow> jerror + jmeta" where
  "readMeta w key s =
     (case map_of (js_metas s) (sanitizeKey key) of
        None \<Rightarrow> Inr (zero_meta key)
      | Some m \<Rightarrow>
          if \<not> jw_read_meta w then Inl EReadMeta
          else (case m of None \<Rightarrow> Inl EDecodeMeta | Some meta \<Rightarrow> Inr meta))"

definition writeMeta :: "jworld \<Rightarrow> string \<Rightarrow> jmeta \<Rightarrow> jstore \<Rightarrow> jstore \<times> jerror option" where
  "writeMeta w key meta s =
     (if jw_write_meta w then (s\<lparr>js_metas := AList.update (sanitizeKey key) (Some meta) (js_metas s)\<rparr>, None)
      else (s, Some EWriteMeta))"

section \<open>Lines\<close>

text \<open>Appending \<open>n\<close> of the \<open>len + 1\<close> bytes of a line (its newline is the last one): onto an open line they make
  garbage of it, because no text that goes on after a prefix of a JSON object with another object is
  one.\<close>

definition append_bytes :: "message \<Rightarrow> int \<Rightarrow> int \<Rightarrow> jfile \<Rightarrow> jfile" where
  "append_bytes msg len n f =
     (if n \<le> 0 then f
      else if jf_open f \<and> jf_lines f \<noteq> [] then
        \<lparr>jf_lines = butlast (jf_lines f) @ [\<lparr>jl_msg = None, jl_len = jl_len (last (jf_lines f)) + min n len\<rparr>],
         jf_open = (n \<le> len)\<rparr>
      else
        \<lparr>jf_lines = jf_lines f @ [\<lparr>jl_msg = (if n \<ge> len then Some (json_message msg) else None), jl_len = min n len\<rparr>],
         jf_open = (n \<le> len)\<rparr>)"

fun read_jlines :: "int \<Rightarrow> int \<Rightarrow> jline list \<Rightarrow> message list \<times> bool" where
  "read_jlines skip lineNum [] = ([], True)"
| "read_jlines skip lineNum (l # ls) =
     (if jl_len l \<ge> maxLineSize then ([], False)
      else if jl_len l \<le> 0 then read_jlines skip lineNum ls
      else if lineNum + 1 \<le> skip then read_jlines skip (lineNum + 1) ls
      else case jl_msg l of
             None \<Rightarrow> read_jlines skip (lineNum + 1) ls
           | Some msg \<Rightarrow> (case read_jlines skip (lineNum + 1) ls of (msgs, ok) \<Rightarrow> (msg # msgs, ok)))"

definition readMessages :: "jworld \<Rightarrow> jfile option \<Rightarrow> int \<Rightarrow> jerror + message list" where
  "readMessages w f skip =
     (case f of
        None \<Rightarrow> Inr []
      | Some g \<Rightarrow>
          if \<not> jw_open w then Inl EOpen
          else (case read_jlines skip 0 (jf_lines g) of
                  (msgs, ok) \<Rightarrow> if jw_scan w \<and> ok then Inr msgs else Inl EScan))"

fun count_jlines :: "jline list \<Rightarrow> int \<times> bool" where
  "count_jlines [] = (0, True)"
| "count_jlines (l # ls) =
     (if jl_len l \<ge> maxLineSize then (0, False)
      else case count_jlines ls of (n, ok) \<Rightarrow> (if jl_len l > 0 then n + 1 else n, ok))"

definition countLines :: "jworld \<Rightarrow> jfile option \<Rightarrow> jerror + int" where
  "countLines w f =
     (case f of
        None \<Rightarrow> Inr 0
      | Some g \<Rightarrow>
          if \<not> jw_open w then Inl EOpen
          else (case count_jlines (jf_lines g) of (n, ok) \<Rightarrow> if jw_scan w \<and> ok then Inr n else Inl EScan))"

definition rewriteJSONL :: "(message \<Rightarrow> int) \<Rightarrow> jworld \<Rightarrow> string \<Rightarrow> message list \<Rightarrow> jstore \<Rightarrow> jstore \<times> jerror option" where
  "rewriteJSONL enc w key msgs s =
     (if jw_rewrite w
      then (put_jfile key \<lparr>jf_lines = map (\<lambda>msg. \<lparr>jl_msg = Some (json_message msg), jl_len = enc msg\<rparr>) msgs,
                           jf_open = False\<rparr> s, None)
      else (s, Some ERewrite))"

section \<open>Operations\<close>

definition addMsg :: "(message \<Rightarrow> int) \<Rightarrow> jworld \<Rightarrow> string \<Rightarrow> message \<Rightarrow> jstore \<Rightarrow> jstore \<times> jerror option" where
  "addMsg enc w key msg s =
     (if \<not> jw_open w then (s, Some EOpen)
      else
        let f = (case jfile_at s key of None \<Rightarrow> \<lparr>jf_lines = [], jf_open = False\<rparr> | Some g \<Rightarrow> g) in
        case jw_short w of
          Some n \<Rightarrow> (put_jfile key (append_bytes msg (enc msg) (min n (enc msg)) f) s, Some EAppend)
        | None \<Rightarrow>
            let s1 = put_jfile key (append_bytes msg (enc msg) (enc msg + 1) f) s in
            if \<not> jw_sync w then (s1, Some ESync)
            else if \<not> jw_close w then (s1, Some EClose)
            else case readMeta w key s1 of
                   Inl e \<Rightarrow> (s1, Some e)
                 | Inr m \<Rightarrow>
                     let m1 = (if jm_count m = 0 \<and> IsZero (jm_created m) then m\<lparr>jm_created := jw_now w\<rparr> else m)
                     in writeMeta w key (m1\<lparr>jm_count := jm_count m1 + 1, jm_updated := jw_now w\<rparr>) s1)"

definition jsonl_AddMessage where
  "jsonl_AddMessage enc w key r c s =
     addMsg enc w key \<lparr>role = r, content = c, media = None, reasoning = [], system_parts = None,
       tool_calls = None, tool_call_id = []\<rparr> s"

definition jsonl_GetHistory :: "jworld \<Rightarrow> string \<Rightarrow> jstore \<Rightarrow> jerror + message list" where
  "jsonl_GetHistory w key s =
     (case readMeta w key s of Inl e \<Rightarrow> Inl e | Inr m \<Rightarrow> readMessages w (jfile_at s key) (jm_skip m))"

definition jsonl_GetSummary :: "jworld \<Rightarrow> string \<Rightarrow> jstore \<Rightarrow> jerror + string" where
  "jsonl_GetSummary w key s = (case readMeta w key s of Inl e \<Rightarrow> Inl e | Inr m \<Rightarrow> Inr (jm_summary m))"

definition jsonl_SetSummary :: "jworld \<Rightarrow> string \<Rightarrow> string \<Rightarrow> jstore \<Rightarrow> jstore \<times> jerror option" where
  "jsonl_SetSummary w key summary s =
     (case readMeta w key s of
        Inl e \<Rightarrow> (s, Some e)
      | Inr m \<Rightarrow>
          let m1 = (if IsZero (jm_created m) then m\<lparr>jm_created := jw_now w\<rparr> else m)
          in writeMeta w key (m1\<lparr>jm_summary := summary, jm_updated := jw_now w\<rparr>) s)"

definition jsonl_TruncateHistory :: "jworld \<Rightarrow> string \<Rightarrow> int \<Rightarrow> jstore \<Rightarrow> jstore \<times> jerror option" where
  "jsonl_TruncateHistory w key keepLast s =
     (case readMeta w key s of
        Inl e \<Rightarrow> (s, Some e)
      | Inr m \<Rightarrow>
          (case countLines w (jfile_at s key) of
             Inl e \<Rightarrow> (s, Some e)
           | Inr n \<Rightarrow>
               let skip = (if keepLast \<le> 0 then n
                           else if keepLast < n - jm_skip m then n - keepLast else jm_skip m)
               in writeMeta w key (m\<lparr>jm_count := n, jm_skip := skip, jm_updated := jw_now w\<rparr>) s))"

definition jsonl_SetHistory :: "(message \<Rightarrow> int) \<Rightarrow> jworld \<Rightarrow> string \<Rightarrow> message list \<Rightarrow> jstore \<Rightarrow> jstore \<times> jerror option" where
  "jsonl_SetHistory enc w key history s =
     (case readMeta w key s of
        Inl e \<Rightarrow> (s, Some e)
      | Inr m \<Rightarrow>
          let m1 = (if IsZero (jm_created m) then m\<lparr>jm_created := jw_now w\<rparr> else m);
              m2 = m1\<lparr>jm_skip := 0, jm_count := int (length history), jm_updated := jw_now w\<rparr>
          in case writeMeta w key m2 s of
               (s1, Some e) \<Rightarrow> (s1, Some e)
             | (s1, None) \<Rightarrow> rewriteJSONL enc w key history s1)"

definition Compact :: "(message \<Rightarrow> int) \<Rightarrow> jworld \<Rightarrow> string \<Rightarrow> jstore \<Rightarrow> jstore \<times> jerror option" where
  "Compact enc w key s =
     (case readMeta w key s of
        Inl e \<Rightarrow> (s, Some e)
      | Inr m \<Rightarrow>
          if jm_skip m = 0 then (s, None)
          else case readMessages w (jfile_at s key) (jm_skip m) of
                 Inl e \<Rightarrow> (s, Some e)
               | Inr active \<Rightarrow>
                   (case writeMeta w key (m\<lparr>jm_skip := 0, jm_count := int (length active), jm_updated := jw_now w\<rparr>) s of
                      (s1, Some e) \<Rightarrow> (s1, Some e)
                    | (s1, None) \<Rightarrow> rewriteJSONL enc w key active s1))"

section \<open>What a clean store shows\<close>

definition calm :: "jworld \<Rightarrow> bool" where
  "calm w \<longleftrightarrow> jw_read_meta w \<and> jw_open w \<and> jw_scan w \<and> jw_short w = None \<and> jw_sync w \<and> jw_close w \<and>
     jw_write_meta w \<and> jw_rewrite w"

definition quiet :: jworld where
  "quiet = \<lparr>jw_now = 0, jw_read_meta = True, jw_open = True, jw_scan = True, jw_short = None, jw_sync = True,
     jw_close = True, jw_write_meta = True, jw_rewrite = True\<rparr>"

definition short_line :: "(message \<Rightarrow> int) \<Rightarrow> message \<Rightarrow> bool" where
  "short_line enc msg \<longleftrightarrow> 0 < enc msg \<and> enc msg < maxLineSize \<and> 0 < enc (json_message msg) \<and> enc (json_message msg) < maxLineSize"

definition line_ok :: "(message \<Rightarrow> int) \<Rightarrow> jline \<Rightarrow> bool" where
  "line_ok enc l \<longleftrightarrow> 0 < jl_len l \<and> jl_len l < maxLineSize \<and>
     (case jl_msg l of None \<Rightarrow> False | Some m \<Rightarrow> json_message m = m \<and> short_line enc m)"

definition lines_at :: "jstore \<Rightarrow> string \<Rightarrow> jline list" where
  "lines_at s key = (case jfile_at s key of None \<Rightarrow> [] | Some f \<Rightarrow> jf_lines f)"

definition store_ok :: "(message \<Rightarrow> int) \<Rightarrow> jstore \<Rightarrow> string \<Rightarrow> bool" where
  "store_ok enc s key \<longleftrightarrow>
     (case readMeta quiet key s of
        Inl _ \<Rightarrow> False
      | Inr m \<Rightarrow> 0 \<le> jm_skip m \<and> jm_skip m \<le> int (length (lines_at s key))) \<and>
     (case jfile_at s key of None \<Rightarrow> True | Some f \<Rightarrow> \<not> jf_open f) \<and> list_all (line_ok enc) (lines_at s key)"

definition jsonl_view :: "jstore \<Rightarrow> string \<Rightarrow> (message list \<times> string) option" where
  "jsonl_view s key =
     (case (jsonl_GetHistory quiet key s, jsonl_GetSummary quiet key s) of
        (Inr h, Inr sm) \<Rightarrow> Some (h, sm)
      | _ \<Rightarrow> None)"

lemma read_clean:
  "list_all (line_ok enc) ls \<Longrightarrow> read_jlines skip n ls = (drop (nat (skip - n)) (map (the \<circ> jl_msg) ls), True)"
proof (induction ls arbitrary: n)
  case (Cons l ls)
  have l: "\<not> maxLineSize \<le> jl_len l" "\<not> jl_len l \<le> 0" "\<exists>m. jl_msg l = Some m"
    using Cons.prems by (auto simp: line_ok_def split: option.splits)
  have "nat (skip - n) = (if n + 1 \<le> skip then Suc (nat (skip - (n + 1))) else 0)"
    by (auto simp: Suc_nat_eq_nat_zadd1)
  then show ?case using Cons l by (auto simp: not_le)
qed simp

lemma count_clean: "list_all (line_ok enc) ls \<Longrightarrow> count_jlines ls = (int (length ls), True)"
  by (induction ls) (auto simp: line_ok_def)

lemma calm_readMeta: "calm w \<Longrightarrow> readMeta w key s = readMeta quiet key s"
  by (auto simp: readMeta_def calm_def quiet_def split: option.splits)

lemma calm_quiet [simp]: "calm quiet"
  by (simp add: calm_def quiet_def)

lemma readMessages_clean:
  assumes "calm w" "list_all (line_ok enc) (lines_at s key)"
  shows "readMessages w (jfile_at s key) skip = Inr (drop (nat skip) (map (the \<circ> jl_msg) (lines_at s key)))"
proof (cases "jfile_at s key")
  case None
  then show ?thesis by (simp add: readMessages_def lines_at_def)
next
  case (Some f)
  then have "read_jlines skip 0 (jf_lines f) = (drop (nat skip) (map (the \<circ> jl_msg) (jf_lines f)), True)"
    using read_clean [of enc "jf_lines f" skip 0] assms(2) by (simp add: lines_at_def)
  with Some assms(1) show ?thesis by (simp add: readMessages_def lines_at_def calm_def)
qed

lemma countLines_clean:
  "calm w \<Longrightarrow> list_all (line_ok enc) (lines_at s key) \<Longrightarrow> countLines w (jfile_at s key) = Inr (int (length (lines_at s key)))"
  by (auto simp: countLines_def lines_at_def count_clean calm_def split: option.splits)

text \<open>A clean store in terms of its meta data and lines.\<close>

lemma store_okE:
  assumes "store_ok enc s key"
  obtains m where "\<And>w. calm w \<Longrightarrow> readMeta w key s = Inr m" "0 \<le> jm_skip m"
    "jm_skip m \<le> int (length (lines_at s key))" "list_all (line_ok enc) (lines_at s key)"
    "jsonl_view s key = Some (drop (nat (jm_skip m)) (map (the \<circ> jl_msg) (lines_at s key)), jm_summary m)"
proof -
  obtain m where m: "readMeta quiet key s = Inr m" "0 \<le> jm_skip m" "jm_skip m \<le> int (length (lines_at s key))"
    using assms by (auto simp: store_ok_def split: sum.splits)
  have l: "list_all (line_ok enc) (lines_at s key)" using assms by (simp add: store_ok_def)
  then have "jsonl_view s key = Some (drop (nat (jm_skip m)) (map (the \<circ> jl_msg) (lines_at s key)), jm_summary m)"
    using m readMessages_clean [of quiet enc s key] by (simp add: jsonl_view_def jsonl_GetHistory_def jsonl_GetSummary_def)
  with that m l calm_readMeta show thesis by metis
qed

lemma store_ok_view:
  assumes "store_ok enc s key"
  shows "\<exists>m :: jmeta. list_all (line_ok enc) (lines_at s key) \<and>
    jsonl_view s key = Some (drop (nat (jm_skip m)) (map (the \<circ> jl_msg) (lines_at s key)), jm_summary m)"
  using assms by (rule store_okE) blast

lemma store_okI:
  assumes "readMeta quiet key s = Inr m" "0 \<le> jm_skip m" "jm_skip m \<le> int (length (lines_at s key))"
    "list_all (line_ok enc) (lines_at s key)" "\<And>f. jfile_at s key = Some f \<Longrightarrow> \<not> jf_open f"
  shows "store_ok enc s key"
    and "jsonl_view s key = Some (drop (nat (jm_skip m)) (map (the \<circ> jl_msg) (lines_at s key)), jm_summary m)"
proof -
  show "store_ok enc s key" using assms by (auto simp: store_ok_def split: option.splits)
  show "jsonl_view s key = Some (drop (nat (jm_skip m)) (map (the \<circ> jl_msg) (lines_at s key)), jm_summary m)"
    using assms(1,4) readMessages_clean [of quiet enc s key]
    by (simp add: jsonl_view_def jsonl_GetHistory_def jsonl_GetSummary_def)
qed

lemma jfile_put [simp]:
  "jfile_at (put_jfile key f s) key' = (if sanitizeKey key' = sanitizeKey key then Some f else jfile_at s key')"
  "jfile_at (s\<lparr>js_metas := x\<rparr>) key' = jfile_at s key'"
  by (simp_all add: jfile_at_def put_jfile_def AList.update_conv')

lemma readMeta_put [simp]:
  "readMeta w key' (put_jfile key f s) = readMeta w key' s"
  by (simp add: readMeta_def put_jfile_def)

lemma readMeta_write:
  "readMeta w key (s\<lparr>js_metas := AList.update (sanitizeKey key) (Some m) (js_metas s)\<rparr>)
     = (if jw_read_meta w then Inr m else Inl EReadMeta)"
  by (simp add: readMeta_def AList.update_conv')

lemma readMeta_other:
  "sanitizeKey key' \<noteq> sanitizeKey key \<Longrightarrow>
     readMeta w key' (s\<lparr>js_metas := AList.update (sanitizeKey key) m (js_metas s)\<rparr>) = readMeta w key' s"
  by (simp add: readMeta_def AList.update_conv')

section \<open>Refinement of the abstract history\<close>

datatype jsonl_op = JAdd message | JSet "message list" | JTrunc int | JSummary string | JCompact

fun jsonl_step :: "(message \<Rightarrow> int) \<Rightarrow> jworld \<Rightarrow> string \<Rightarrow> jsonl_op \<Rightarrow> jstore \<Rightarrow> jstore \<times> jerror option" where
  "jsonl_step enc w key (JAdd msg) s = addMsg enc w key msg s"
| "jsonl_step enc w key (JSet msgs) s = jsonl_SetHistory enc w key msgs s"
| "jsonl_step enc w key (JTrunc k) s = jsonl_TruncateHistory w key k s"
| "jsonl_step enc w key (JSummary t) s = jsonl_SetSummary w key t s"
| "jsonl_step enc w key JCompact s = Compact enc w key s"

fun jsonl_spec :: "jsonl_op \<Rightarrow> message list \<times> string \<Rightarrow> message list \<times> string" where
  "jsonl_spec (JAdd msg) (h, t) = (h @ [json_message msg], t)"
| "jsonl_spec (JSet msgs) (h, t) = (map json_message msgs, t)"
| "jsonl_spec (JTrunc k) (h, t) = (keep_last k h, t)"
| "jsonl_spec (JSummary t') (h, t) = (h, t')"
| "jsonl_spec JCompact (h, t) = (h, t)"

fun op_fits :: "(message \<Rightarrow> int) \<Rightarrow> jsonl_op \<Rightarrow> bool" where
  "op_fits enc (JAdd msg) = short_line enc msg"
| "op_fits enc (JSet msgs) = list_all (short_line enc) msgs"
| "op_fits enc _ = True"

definition keeps :: "(message \<Rightarrow> int) \<Rightarrow> jsonl_op \<Rightarrow> string \<Rightarrow> jstore \<Rightarrow> jstore \<times> jerror option \<Rightarrow> bool" where
  "keeps enc op key s r \<longleftrightarrow> snd r = None \<and> store_ok enc (fst r) key \<and>
     jsonl_view (fst r) key = map_option (jsonl_spec op) (jsonl_view s key)"

lemma keepsI:
  assumes "snd r = None" "readMeta quiet key (fst r) = Inr m" "0 \<le> jm_skip m"
    "jm_skip m \<le> int (length (lines_at (fst r) key))" "list_all (line_ok enc) (lines_at (fst r) key)"
    "\<And>f. jfile_at (fst r) key = Some f \<Longrightarrow> \<not> jf_open f"
    "map_option (jsonl_spec op) (jsonl_view s key)
       = Some (drop (nat (jm_skip m)) (map (the \<circ> jl_msg) (lines_at (fst r) key)), jm_summary m)"
  shows "keeps enc op key s r"
  using store_okI [OF assms(2-6)] assms(1) unfolding keeps_def assms(7) by blast

lemma json_short: "short_line enc msg \<Longrightarrow> short_line enc (json_message msg)"
  by (simp add: short_line_def)

lemma lines_put [simp]: "lines_at (put_jfile key f s) key = jf_lines f" "lines_at (s\<lparr>js_metas := x\<rparr>) key' = lines_at s key'"
  by (simp_all add: lines_at_def)

lemma read_quiet [simp]: "jw_read_meta quiet"
  by (simp add: quiet_def)

lemma store_ok_closed: "store_ok enc s key \<Longrightarrow> jfile_at s key = Some f \<Longrightarrow> \<not> jf_open f"
  by (simp add: store_ok_def)

lemma keeps_write:
  assumes "store_ok enc s key" "calm w" "0 \<le> jm_skip m" "jm_skip m \<le> int (length (lines_at s key))"
    "map_option (jsonl_spec op) (jsonl_view s key)
       = Some (drop (nat (jm_skip m)) (map (the \<circ> jl_msg) (lines_at s key)), jm_summary m)"
  shows "keeps enc op key s (writeMeta w key m s)"
  using assms store_ok_closed [OF assms(1)]
  by (intro keepsI [where m = m]) (auto simp: writeMeta_def calm_def readMeta_write elim: store_okE)

lemma append_one:
  "\<not> jf_open f \<Longrightarrow> 0 \<le> enc msg \<Longrightarrow> append_bytes msg (enc msg) (enc msg + 1) f
     = \<lparr>jf_lines = jf_lines f @ [\<lparr>jl_msg = Some (json_message msg), jl_len = enc msg\<rparr>], jf_open = False\<rparr>"
  by (simp add: append_bytes_def)

lemma add_keeps:
  assumes "store_ok enc s key" "calm w" "short_line enc msg"
  shows "keeps enc (JAdd msg) key s (addMsg enc w key msg s)"
proof -
  from store_okE [OF assms(1)] obtain m where m: "\<And>w. calm w \<Longrightarrow> readMeta w key s = Inr m" "0 \<le> jm_skip m"
    "jm_skip m \<le> int (length (lines_at s key))" "list_all (line_ok enc) (lines_at s key)"
    "jsonl_view s key = Some (drop (nat (jm_skip m)) (map (the \<circ> jl_msg) (lines_at s key)), jm_summary m)" by blast
  let ?l = "\<lparr>jl_msg = Some (json_message msg), jl_len = enc msg\<rparr>"
  let ?f = "\<lparr>jf_lines = lines_at s key @ [?l], jf_open = False\<rparr>"
  obtain m' where a: "addMsg enc w key msg s = writeMeta w key m' (put_jfile key ?f s)"
    "jm_skip m' = jm_skip m" "jm_summary m' = jm_summary m"
    using assms(2) m(1) [OF assms(2)] append_one [of _ enc msg] assms(3) store_ok_closed [OF assms(1)]
    by (cases "jfile_at s key") (fastforce simp: addMsg_def calm_def lines_at_def short_line_def Let_def)+
  show ?thesis
    unfolding a(1) using assms(2,3) m a(2,3) json_short [OF assms(3)]
    by (intro keepsI [where m = m']) (auto simp: writeMeta_def calm_def readMeta_write line_ok_def short_line_def)
qed

lemma rewrite_keeps:
  assumes "calm w" "list_all (short_line enc) msgs" "jm_skip m = 0"
    "map_option (jsonl_spec op) (jsonl_view s key) = Some (map json_message msgs, jm_summary m)"
  shows "keeps enc op key s (case writeMeta w key m s of (s1, Some e) \<Rightarrow> (s1, Some e) | (s1, None) \<Rightarrow> rewriteJSONL enc w key msgs s1)"
  using assms json_short
  by (intro keepsI [where m = m])
     (auto simp: writeMeta_def calm_def readMeta_write rewriteJSONL_def list_all_iff line_ok_def short_line_def comp_def)

lemma step_keeps:
  assumes "store_ok enc s key" "calm w" "op_fits enc op"
  shows "keeps enc op key s (jsonl_step enc w key op s)"
proof -
  from store_okE [OF assms(1)] obtain m where m: "\<And>w. calm w \<Longrightarrow> readMeta w key s = Inr m" "0 \<le> jm_skip m"
    "jm_skip m \<le> int (length (lines_at s key))" "list_all (line_ok enc) (lines_at s key)"
    "jsonl_view s key = Some (drop (nat (jm_skip m)) (map (the \<circ> jl_msg) (lines_at s key)), jm_summary m)" by blast
  show ?thesis
  proof (cases op)
    case (JAdd msg)
    then show ?thesis using add_keeps assms by simp
  next
    case (JSet msgs)
    then show ?thesis
      using assms(3) m(1) [OF assms(2)] m(5)
      by (auto simp: jsonl_SetHistory_def Let_def intro!: rewrite_keeps [OF assms(2)])
  next
    case (JTrunc k)
    let ?n = "int (length (lines_at s key))"
    let ?skip = "if k \<le> 0 then ?n else if k < ?n - jm_skip m then ?n - k else jm_skip m"
    have "drop (nat ?skip) (map (the \<circ> jl_msg) (lines_at s key))
        = keep_last k (drop (nat (jm_skip m)) (map (the \<circ> jl_msg) (lines_at s key)))"
      using m(2,3) by (auto simp: keep_last_def last_n_def nat_diff_distrib nat_le_iff)
    then show ?thesis
      using JTrunc m(1) [OF assms(2)] m(2,3,5) countLines_clean [OF assms(2) m(4)]
      by (auto simp: jsonl_TruncateHistory_def Let_def intro!: keeps_write [OF assms(1,2)])
  next
    case (JSummary t)
    then show ?thesis
      using m(1) [OF assms(2)] m(2,3,5)
      by (auto simp: jsonl_SetSummary_def Let_def intro!: keeps_write [OF assms(1,2)])
  next
    case JCompact
    let ?h = "drop (nat (jm_skip m)) (map (the \<circ> jl_msg) (lines_at s key))"
    have h: "\<forall>x \<in> set ?h. json_message x = x \<and> short_line enc x"
      using m(4) by (auto simp: list_all_iff line_ok_def dest!: in_set_dropD split: option.splits)
    then have "map json_message ?h = ?h" by (simp add: map_idI)
    moreover have "list_all (short_line enc) ?h" using h by (simp add: list_all_iff)
    moreover have "keeps enc JCompact key s (s, None)"
      using assms(1) m(5) by (simp add: keeps_def)
    ultimately show ?thesis
      using JCompact m(1) [OF assms(2)] m(5) readMessages_clean [OF assms(2) m(4)]
      by (auto simp: Compact_def Let_def intro!: rewrite_keeps [OF assms(2)])
  qed
qed

lemma write_other:
  "sanitizeKey key' \<noteq> sanitizeKey key \<Longrightarrow> jfile_at (fst (writeMeta w key m s)) key' = jfile_at s key' \<and>
     readMeta w' key' (fst (writeMeta w key m s)) = readMeta w' key' s"
  by (simp add: writeMeta_def readMeta_other)

lemma rewrite_other:
  "sanitizeKey key' \<noteq> sanitizeKey key \<Longrightarrow> jfile_at (fst (rewriteJSONL enc w key msgs s)) key' = jfile_at s key' \<and>
     readMeta w' key' (fst (rewriteJSONL enc w key msgs s)) = readMeta w' key' s"
  by (simp add: rewriteJSONL_def)

lemma write_rewrite_other:
  assumes "sanitizeKey key' \<noteq> sanitizeKey key"
  shows "jfile_at (fst (case writeMeta w key m s of (s1, Some e) \<Rightarrow> (s1, Some e) | (s1, None) \<Rightarrow> rewriteJSONL enc w key msgs s1)) key'
      = jfile_at s key' \<and>
    readMeta w' key' (fst (case writeMeta w key m s of (s1, Some e) \<Rightarrow> (s1, Some e) | (s1, None) \<Rightarrow> rewriteJSONL enc w key msgs s1))
      = readMeta w' key' s"
  using write_other [OF assms, of w m s w'] rewrite_other [OF assms, of enc w msgs "fst (writeMeta w key m s)" w']
  by (cases "writeMeta w key m s"; cases "snd (writeMeta w key m s)") auto

text \<open>An operation on a key, with any outcome, leaves the files of every other stem alone.\<close>

lemma step_frame:
  assumes "sanitizeKey key' \<noteq> sanitizeKey key"
  shows "jfile_at (fst (jsonl_step enc w key op s)) key' = jfile_at s key' \<and>
    readMeta w' key' (fst (jsonl_step enc w key op s)) = readMeta w' key' s"
proof (cases op)
  case (JAdd msg)
  then show ?thesis
    using assms write_other [OF assms] by (auto simp: addMsg_def Let_def split: option.splits sum.splits)
qed (use write_other [OF assms] write_rewrite_other [OF assms] in
      \<open>auto simp: jsonl_SetHistory_def jsonl_TruncateHistory_def jsonl_SetSummary_def Compact_def Let_def split: sum.splits\<close>)

lemmas step_frame_eqs = step_frame [THEN conjunct1] step_frame [THEN conjunct2]

lemma frame_view:
  assumes "sanitizeKey key' \<noteq> sanitizeKey key"
  shows "store_ok enc (fst (jsonl_step enc w key op s)) key' = store_ok enc s key'"
    "jsonl_view (fst (jsonl_step enc w key op s)) key' = jsonl_view s key'"
proof -
  show "store_ok enc (fst (jsonl_step enc w key op s)) key' = store_ok enc s key'"
    by (simp only: store_ok_def lines_at_def step_frame_eqs [OF assms])
  show "jsonl_view (fst (jsonl_step enc w key op s)) key' = jsonl_view s key'"
    by (simp only: jsonl_view_def jsonl_GetHistory_def jsonl_GetSummary_def step_frame_eqs [OF assms])
qed

text \<open>
  C8: The store refines the abstract history.  On a clean store, an operation whose reads and writes
  succeed, with messages below the line limit, returns no error, leaves the store clean and does to the
  history and the summary of its key exactly what its specification does to a list and a text (add
  appends, set replaces, truncate keeps the last messages, compact changes nothing); the keys with another
  file are untouched.
\<close>

theorem jsonl_refines_history:
  assumes "store_ok enc s key" and "calm w" and "op_fits enc op"
    and "(s', e) = jsonl_step enc w key op s"
  shows "e = None \<and> store_ok enc s' key \<and>
    (\<exists>h t. jsonl_view s key = Some (h, t) \<and> jsonl_view s' key = Some (jsonl_spec op (h, t))) \<and>
    (sanitizeKey key' \<noteq> sanitizeKey key \<longrightarrow> store_ok enc s' key' = store_ok enc s key' \<and> jsonl_view s' key' = jsonl_view s key')"
proof -
  have r: "jsonl_step enc w key op s = (s', e)" using assms(4) by simp
  obtain h t where "jsonl_view s key = Some (h, t)" using store_okE [OF assms(1)] by blast
  then show ?thesis
    using step_keeps [OF assms(1-3)] frame_view [of key' key enc w op s] unfolding r keeps_def by simp
qed

definition ex_enc :: "message \<Rightarrow> int" where
  "ex_enc m = 60 + int (length (content m))"

definition ex_msg :: "string \<Rightarrow> message" where
  "ex_msg c = \<lparr>role = ''user'', content = c, media = None, reasoning = [], system_parts = None,
     tool_calls = None, tool_call_id = []\<rparr>"

definition ex_store :: jstore where
  "ex_store = fst (addMsg ex_enc quiet ''k:1'' (ex_msg ''b'') (fst (addMsg ex_enc quiet ''k:1'' (ex_msg ''a'')
     \<lparr>js_files = [], js_metas = []\<rparr>)))"

theorem jsonl_refines_history_witness:
  "jsonl_view (fst (jsonl_step ex_enc quiet ''k:1'' (JTrunc 1) ex_store)) ''k:1'' = Some ([ex_msg ''b''], [])"
proof -
  have "store_ok ex_enc ex_store ''k:1''" "jsonl_view ex_store ''k:1'' = Some ([ex_msg ''a'', ex_msg ''b''], [])" by code_simp+
  moreover have "(fst x, snd x) = x" for x :: "jstore \<times> jerror option" by simp
  moreover have "keep_last 1 [ex_msg ''a'', ex_msg ''b''] = [ex_msg ''b'']" by (simp add: keep_last_def last_n_def)
  ultimately show ?thesis
    using jsonl_refines_history [of ex_enc ex_store "''k:1''" quiet "JTrunc 1"
        "fst (jsonl_step ex_enc quiet ''k:1'' (JTrunc 1) ex_store)" "snd (jsonl_step ex_enc quiet ''k:1'' (JTrunc 1) ex_store)"]
    by (auto simp del: jsonl_step.simps)
qed

section \<open>Interrupted writes\<close>

lemma read_clean_garbage:
  assumes "list_all (line_ok enc) ls" "jl_msg g = None" "jl_len g < maxLineSize"
  shows "read_jlines skip n (ls @ [g]) = (drop (nat (skip - n)) (map (the \<circ> jl_msg) ls), True)"
  using assms(1)
proof (induction ls arbitrary: n)
  case (Cons l ls)
  have l: "\<not> maxLineSize \<le> jl_len l" "\<not> jl_len l \<le> 0" "\<exists>m. jl_msg l = Some m"
    using Cons.prems by (auto simp: line_ok_def split: option.splits)
  have "nat (skip - n) = (if n + 1 \<le> skip then Suc (nat (skip - (n + 1))) else 0)"
    by (auto simp: Suc_nat_eq_nat_zadd1)
  then show ?case using Cons l by (auto simp: not_le)
qed (use assms(2,3) in auto)

lemma add_short:
  assumes "store_ok enc s key" "jw_open w" "jw_short w = Some n" "0 < n" "0 < enc msg"
  obtains g where "addMsg enc w key msg s
      = (put_jfile key \<lparr>jf_lines = lines_at s key @ [g], jf_open = True\<rparr> s, Some EAppend)" "jl_len g = min n (enc msg)"
proof -
  let ?g = "\<lparr>jl_msg = (if min n (enc msg) \<ge> enc msg then Some (json_message msg) else None), jl_len = min n (enc msg)\<rparr>"
  have "addMsg enc w key msg s = (put_jfile key \<lparr>jf_lines = lines_at s key @ [?g], jf_open = True\<rparr> s, Some EAppend)"
    using assms(2-5) store_ok_closed [OF assms(1)]
    by (cases "jfile_at s key") (auto simp: addMsg_def append_bytes_def lines_at_def Let_def)
  then show thesis using that by simp
qed

text \<open>
  A message that the store has acknowledged can be lost.  When an append stops in the middle of a line
  (and reports it), the line stays without its newline; the next append writes onto it and
  succeeds, returns no error and counts the message, but the two together are one unreadable line: the
  history is what it was before both.
\<close>

theorem acknowledged_message_lost:
  assumes "store_ok enc s key" and "jw_open w1" and "jw_short w1 = Some n" and "0 < n"
    and "short_line enc m1" and "short_line enc m2" and "enc m1 + enc m2 < maxLineSize" and "calm w2"
    and "(s1, e1) = addMsg enc w1 key m1 s" and "(s2, e2) = addMsg enc w2 key m2 s1"
  shows "e1 = Some EAppend \<and> e2 = None \<and> jsonl_view s2 key = jsonl_view s key"
proof -
  have pos: "0 < enc m1" "0 < enc m2" using assms(5,6) by (simp_all add: short_line_def)
  from add_short [OF assms(1-4) pos(1)] assms(9) obtain g where
    s1: "s1 = put_jfile key \<lparr>jf_lines = lines_at s key @ [g], jf_open = True\<rparr> s" "e1 = Some EAppend"
    and g: "jl_len g = min n (enc m1)" by (metis prod.inject)
  from store_okE [OF assms(1)] obtain m where m: "\<And>w. calm w \<Longrightarrow> readMeta w key s = Inr m" "0 \<le> jm_skip m"
    "list_all (line_ok enc) (lines_at s key)"
    "jsonl_view s key = Some (drop (nat (jm_skip m)) (map (the \<circ> jl_msg) (lines_at s key)), jm_summary m)" by metis
  let ?g = "\<lparr>jl_msg = None, jl_len = min n (enc m1) + enc m2\<rparr>"
  let ?f = "\<lparr>jf_lines = lines_at s key @ [?g], jf_open = False\<rparr>"
  have "append_bytes m2 (enc m2) (enc m2 + 1) \<lparr>jf_lines = lines_at s key @ [g], jf_open = True\<rparr> = ?f"
    using pos(2) g by (simp add: append_bytes_def)
  then obtain m' where a: "addMsg enc w2 key m2 s1 = writeMeta w2 key m' (put_jfile key ?f s1)"
    "jm_skip m' = jm_skip m" "jm_summary m' = jm_summary m"
    using assms(8) m(1) [OF assms(8)] unfolding s1(1)
    by (fastforce simp: addMsg_def calm_def Let_def)
  have s2: "readMeta quiet key s2 = Inr m'" "jfile_at s2 key = Some ?f" "e2 = None"
    using a(1) assms(8,10) by (auto simp: writeMeta_def calm_def readMeta_write)
  have "min n (enc m1) + enc m2 < maxLineSize" using assms(7) by simp
  then have "read_jlines (jm_skip m) 0 (lines_at s key @ [?g])
      = (drop (nat (jm_skip m)) (map (the \<circ> jl_msg) (lines_at s key)), True)"
    using read_clean_garbage [OF m(3), of ?g "jm_skip m" 0] by simp
  then have "jsonl_view s2 key = jsonl_view s key"
    using s2 a(2,3) m(4) by (simp add: jsonl_view_def jsonl_GetHistory_def jsonl_GetSummary_def readMessages_def quiet_def)
  with s1(2) s2(3) show ?thesis by simp
qed

theorem acknowledged_message_lost_witness:
  "jsonl_view (fst (addMsg ex_enc quiet ''k:1'' (ex_msg ''d'') (fst (addMsg ex_enc (quiet\<lparr>jw_short := Some 9\<rparr>) ''k:1'' (ex_msg ''c'') ex_store)))) ''k:1''
     = Some ([ex_msg ''a'', ex_msg ''b''], [])"
proof -
  have s: "store_ok ex_enc ex_store ''k:1''" by code_simp
  have v: "jsonl_view ex_store ''k:1'' = Some ([ex_msg ''a'', ex_msg ''b''], [])" by code_simp
  have l: "short_line ex_enc (ex_msg ''c'')" "short_line ex_enc (ex_msg ''d'')"
    "ex_enc (ex_msg ''c'') + ex_enc (ex_msg ''d'') < maxLineSize"
    by (simp_all add: short_line_def ex_enc_def ex_msg_def json_message_def maxLineSize_def)
  have w: "jw_open (quiet\<lparr>jw_short := Some 9\<rparr>)" "jw_short (quiet\<lparr>jw_short := Some 9\<rparr>) = Some 9" by (simp_all add: quiet_def)
  show ?thesis
    using acknowledged_message_lost [OF s w _ l calm_quiet prod.collapse prod.collapse] v by simp
qed

text \<open>
  A compaction that stops between its two writes brings removed messages back for good.  The meta file
  then says that nothing is removed while the old lines are still there, so the history shows every
  line again; and because nothing is removed now, compacting again does nothing.
\<close>

theorem interrupted_compaction:
  assumes "store_ok enc s key" and "readMeta quiet key s = Inr m" and "jm_skip m > 0"
    and "calm (w\<lparr>jw_rewrite := True\<rparr>)" and "\<not> jw_rewrite w"
    and "(s', e) = Compact enc w key s"
  shows "e = Some ERewrite \<and>
    (let msgs = map (the \<circ> jl_msg) (lines_at s key) in
       \<exists>t. jsonl_view s key = Some (drop (nat (jm_skip m)) msgs, t) \<and> jsonl_view s' key = Some (msgs, t)) \<and>
    Compact enc quiet key s' = (s', None)"
proof -
  from store_okE [OF assms(1)] have m: "jm_skip m \<le> int (length (lines_at s key))" "list_all (line_ok enc) (lines_at s key)"
    "jsonl_view s key = Some (drop (nat (jm_skip m)) (map (the \<circ> jl_msg) (lines_at s key)), jm_summary m)"
    using assms(2) calm_quiet by (metis sum.inject(2))+
  have w: "jw_read_meta w" "jw_open w" "jw_scan w" "jw_write_meta w" using assms(4) by (simp_all add: calm_def)
  let ?all = "map (the \<circ> jl_msg) (lines_at s key)"
  let ?m = "m\<lparr>jm_skip := 0, jm_count := int (length (drop (nat (jm_skip m)) ?all)), jm_updated := jw_now w\<rparr>"
  let ?s = "s\<lparr>js_metas := AList.update (sanitizeKey key) (Some ?m) (js_metas s)\<rparr>"
  have r: "readMeta w key s = Inr m" using assms(2) w by (auto simp: readMeta_def quiet_def split: option.splits)
  have "readMessages w (jfile_at s key) (jm_skip m) = readMessages quiet (jfile_at s key) (jm_skip m)"
    using w by (simp add: readMessages_def quiet_def split: option.splits)
  then have "readMessages w (jfile_at s key) (jm_skip m) = Inr (drop (nat (jm_skip m)) ?all)"
    using readMessages_clean [OF calm_quiet m(2)] by simp
  then have c: "s' = ?s" "e = Some ERewrite"
    using assms(3,5,6) r w by (simp_all add: Compact_def Let_def writeMeta_def rewriteJSONL_def)
  have q: "readMeta quiet key ?s = Inr ?m" by (simp add: readMeta_write)
  have "jsonl_view ?s key = Some (?all, jm_summary m)"
    using readMessages_clean [OF calm_quiet m(2), of 0] q by (simp add: jsonl_view_def jsonl_GetHistory_def jsonl_GetSummary_def)
  moreover have "Compact enc quiet key ?s = (?s, None)" using q by (simp add: Compact_def)
  ultimately show ?thesis using c m(3) by simp
qed

theorem interrupted_compaction_witness:
  "jsonl_view (fst (Compact ex_enc (quiet\<lparr>jw_rewrite := False\<rparr>) ''k:1'' (fst (jsonl_TruncateHistory quiet ''k:1'' 1 ex_store)))) ''k:1''
     = Some ([ex_msg ''a'', ex_msg ''b''], [])"
proof -
  let ?s = "fst (jsonl_TruncateHistory quiet ''k:1'' 1 ex_store)"
  have s: "store_ok ex_enc ?s ''k:1''" by code_simp
  have r: "\<exists>m. readMeta quiet ''k:1'' ?s = Inr m \<and> jm_skip m = 1"
  proof -
    have "case readMeta quiet ''k:1'' ?s of Inl _ \<Rightarrow> False | Inr m \<Rightarrow> jm_skip m = 1" by code_simp
    then show ?thesis by (auto split: sum.splits)
  qed
  have v: "jsonl_view ?s ''k:1'' = Some ([ex_msg ''b''], [])" by code_simp
  have lines: "map (the \<circ> jl_msg) (lines_at ?s ''k:1'') = [ex_msg ''a'', ex_msg ''b'']" by code_simp
  from r obtain m where m: "readMeta quiet ''k:1'' ?s = Inr m" "jm_skip m > 0" by auto
  have w: "calm (quiet\<lparr>jw_rewrite := False, jw_rewrite := True\<rparr>)" "\<not> jw_rewrite (quiet\<lparr>jw_rewrite := False\<rparr>)"
    by (simp_all add: calm_def quiet_def)
  show ?thesis
    using interrupted_compaction [OF s m w prod.collapse] v lines by (simp add: Let_def)
qed

section \<open>The contract of a history store\<close>

fun jsonl_change :: "(message \<Rightarrow> int) \<Rightarrow> jworld \<Rightarrow> string \<Rightarrow> hist_op \<Rightarrow> jstore \<Rightarrow> jstore" where
  "jsonl_change enc w key (HAdd msg) s = fst (addMsg enc w key msg s)"
| "jsonl_change enc w key (HSet msgs) s = fst (jsonl_SetHistory enc w key msgs s)"
| "jsonl_change enc w key (HTrunc k) s = fst (jsonl_TruncateHistory w key k s)"

fun to_jsonl_op :: "hist_op \<Rightarrow> jsonl_op" where
  "to_jsonl_op (HAdd msg) = JAdd msg"
| "to_jsonl_op (HSet msgs) = JSet msgs"
| "to_jsonl_op (HTrunc k) = JTrunc k"

definition jsonl_hist :: "jstore \<Rightarrow> string \<Rightarrow> message list" where
  "jsonl_hist s key = (case jsonl_GetHistory quiet key s of Inl _ \<Rightarrow> [] | Inr h \<Rightarrow> h)"

lemma jsonl_change_step: "jsonl_change enc w key op s = fst (jsonl_step enc w key (to_jsonl_op op) s)"
  by (cases op) simp_all

lemma jsonl_hist_view: "jsonl_view s key = Some (h, t) \<Longrightarrow> jsonl_hist s key = h"
  by (auto simp: jsonl_view_def jsonl_hist_def split: sum.splits)

lemma store_ok_json:
  assumes "store_ok enc s key" "jsonl_view s key = Some (h, t)"
  shows "map json_message h = h"
proof -
  from store_ok_view [OF assms(1)] obtain m :: jmeta where m: "list_all (line_ok enc) (lines_at s key)"
    "jsonl_view s key = Some (drop (nat (jm_skip m)) (map (the \<circ> jl_msg) (lines_at s key)), jm_summary m)" by blast
  have "\<forall>x \<in> set (drop (nat (jm_skip m)) (map (the \<circ> jl_msg) (lines_at s key))). json_message x = x"
    using m(1) by (auto simp: list_all_iff line_ok_def dest!: in_set_dropD split: option.splits)
  then show ?thesis using m(2) assms(2) by (simp add: map_idI)
qed

lemma spec_to_jsonl: "jsonl_spec (to_jsonl_op op) (h, t) = (spec_op op h, t)"
  by (cases op) simp_all

lemma change_jsonl:
  assumes "store_ok enc s key" "calm w \<and> op_fits enc (to_jsonl_op op)"
  shows "store_ok enc (jsonl_change enc w key op s) key"
    "map json_message (jsonl_hist (jsonl_change enc w key op s) key) = spec_op op (map json_message (jsonl_hist s key))"
proof -
  obtain h t where v: "jsonl_view s key = Some (h, t)" using store_okE [OF assms(1)] by blast
  have k: "keeps enc (to_jsonl_op op) key s (jsonl_step enc w key (to_jsonl_op op) s)"
    using step_keeps assms by blast
  then show s': "store_ok enc (jsonl_change enc w key op s) key" by (simp add: jsonl_change_step keeps_def)
  have v': "jsonl_view (jsonl_change enc w key op s) key = Some (spec_op op h, t)"
    using k v by (simp add: jsonl_change_step keeps_def spec_to_jsonl)
  show "map json_message (jsonl_hist (jsonl_change enc w key op s) key) = spec_op op (map json_message (jsonl_hist s key))"
    using jsonl_hist_view [OF v] jsonl_hist_view [OF v'] store_ok_json [OF assms(1) v] store_ok_json [OF s' v'] by simp
qed

interpretation jsonl: history_store jsonl_hist "jsonl_change enc" "store_ok enc"
    "\<lambda>w op. calm w \<and> op_fits enc (to_jsonl_op op)" "\<lambda>k k'. sanitizeKey k \<noteq> sanitizeKey k'" for enc
proof unfold_locales
  show "jsonl_hist (jsonl_change enc w k' op s) k = jsonl_hist s k"
    if "sanitizeKey k \<noteq> sanitizeKey k'" for s k k' w op
    by (simp only: jsonl_change_step jsonl_hist_def jsonl_GetHistory_def step_frame_eqs [OF that])
  show "store_ok enc (jsonl_change enc w k' op s) k"
    if "store_ok enc s k" "sanitizeKey k \<noteq> sanitizeKey k'" for s k k' w op
    using frame_view(1) [OF that(2), of enc w "to_jsonl_op op" s] that(1) by (simp add: jsonl_change_step)
qed (use change_jsonl in blast)+

section \<open>Migration of the legacy files\<close>

text \<open>\<^verbatim>\<open>MigrateFromJSON\<close> walks a directory: an entry is its name, whether it is a directory, and its content
  when it can be read and parsed.  The outcome of the store and of the rename is the world of the entry.\<close>

record json_session =
  jn_key :: string
  jn_messages :: "message list"
  jn_summary :: string

record dir_entry =
  de_name :: string
  de_is_dir :: bool
  de_content :: "json_session option"

definition migrates :: "dir_entry \<Rightarrow> bool" where
  "migrates d \<longleftrightarrow> \<not> de_is_dir d \<and> HasSuffix (de_name d) ''.json'' \<and> \<not> HasSuffix (de_name d) ''.migrated''"

definition TrimSuffix :: "string \<Rightarrow> string \<Rightarrow> string" where
  "TrimSuffix s suf = (if HasSuffix s suf then take (length s - length suf) s else s)"

definition migrated_key :: "dir_entry \<Rightarrow> json_session \<Rightarrow> string" where
  "migrated_key d j = (if jn_key j = [] then TrimSuffix (de_name d) ''.json'' else jn_key j)"

text \<open>The result is the store, the directory afterwards, the number of migrated files and the error that
  stopped the walk, if any; \<open>ws\<close> has the world of the history, the world of the summary and the outcome of the
  rename of each entry.\<close>

fun MigrateFromJSON :: "(message \<Rightarrow> int) \<Rightarrow> (jworld \<times> jworld \<times> bool) list \<Rightarrow> dir_entry list \<Rightarrow> jstore
    \<Rightarrow> jstore \<times> dir_entry list \<times> int \<times> jerror option" where
  "MigrateFromJSON enc ((w1, w2, renamed) # ws) (d # ds) s =
     (if \<not> migrates d \<or> de_content d = None
      then (case MigrateFromJSON enc ws ds s of (s', ds', n, e) \<Rightarrow> (s', d # ds', n, e))
      else
        let j = the (de_content d); key = migrated_key d j in
        case jsonl_SetHistory enc w1 key (jn_messages j) s of
          (s1, Some e) \<Rightarrow> (s1, d # ds, 0, Some e)
        | (s1, None) \<Rightarrow>
            (case (if jn_summary j \<noteq> [] then jsonl_SetSummary w2 key (jn_summary j) s1 else (s1, None)) of
               (s2, Some e) \<Rightarrow> (s2, d # ds, 0, Some e)
             | (s2, None) \<Rightarrow>
                 let d' = (if renamed then d\<lparr>de_name := de_name d @ ''.migrated''\<rparr> else d) in
                 (case MigrateFromJSON enc ws ds s2 of (s', ds', n, e) \<Rightarrow> (s', d' # ds', n + 1, e))))"
| "MigrateFromJSON enc _ ds s = (s, ds, 0, None)"

definition pending :: "dir_entry \<Rightarrow> bool" where
  "pending d \<longleftrightarrow> migrates d \<and> de_content d \<noteq> None"

definition target :: "dir_entry \<Rightarrow> string" where
  "target d = migrated_key d (the (de_content d))"

definition take_over :: "dir_entry \<Rightarrow> message list \<times> string \<Rightarrow> message list \<times> string" where
  "take_over d v = (map json_message (jn_messages (the (de_content d))),
     if jn_summary (the (de_content d)) = [] then snd v else jn_summary (the (de_content d)))"

definition entry_fits :: "(message \<Rightarrow> int) \<Rightarrow> jstore \<Rightarrow> dir_entry \<Rightarrow> bool" where
  "entry_fits enc s d \<longleftrightarrow> (pending d \<longrightarrow> store_ok enc s (target d) \<and> list_all (short_line enc) (jn_messages (the (de_content d))))"

lemma same_stem:
  assumes "sanitizeKey k = sanitizeKey k'"
  shows "store_ok enc s k = store_ok enc s k'" "jsonl_view s k = jsonl_view s k'"
proof -
  have f: "jfile_at s k = jfile_at s k'" using assms by (simp add: jfile_at_def)
  have m: "readMeta quiet k s = Inr (zero_meta k) \<and> readMeta quiet k' s = Inr (zero_meta k') \<or> readMeta quiet k s = readMeta quiet k' s"
    using assms by (auto simp: readMeta_def split: option.splits)
  have l: "lines_at s k = lines_at s k'" using f by (simp add: lines_at_def)
  show "store_ok enc s k = store_ok enc s k'"
    using m unfolding store_ok_def f l by (auto simp: zero_meta_def)
  show "jsonl_view s k = jsonl_view s k'"
    using m unfolding jsonl_view_def jsonl_GetHistory_def jsonl_GetSummary_def f by (auto simp: zero_meta_def split: sum.splits)
qed

lemma migrate_one:
  assumes "store_ok enc s (target d)" "list_all (short_line enc) (jn_messages (the (de_content d)))" "calm w1" "calm w2"
    "r = jsonl_SetHistory enc w1 (target d) (jn_messages (the (de_content d))) s"
    "r' = (if jn_summary (the (de_content d)) \<noteq> [] then jsonl_SetSummary w2 (target d) (jn_summary (the (de_content d))) (fst r) else (fst r, None))"
  shows "snd r = None \<and> snd r' = None \<and> (\<forall>k. store_ok enc s k \<longrightarrow> store_ok enc (fst r') k \<and>
    jsonl_view (fst r') k = map_option (if sanitizeKey k = sanitizeKey (target d) then take_over d else id) (jsonl_view s k))"
proof -
  let ?j = "the (de_content d)" and ?t = "target d"
  have a: "keeps enc (JSet (jn_messages ?j)) ?t s r"
    using step_keeps [OF assms(1,3), of "JSet (jn_messages ?j)"] assms(2,5) by simp
  then have b: "keeps enc (JSummary (jn_summary ?j)) ?t (fst r) r'" if "jn_summary ?j \<noteq> []"
    using step_keeps [of enc "fst r" ?t w2 "JSummary (jn_summary ?j)"] assms(4,6) that by (simp add: keeps_def)
  have fr: "sanitizeKey k \<noteq> sanitizeKey ?t \<Longrightarrow> store_ok enc (fst r) k = store_ok enc s k \<and> jsonl_view (fst r) k = jsonl_view s k" for k
    using frame_view [of k ?t enc w1 "JSet (jn_messages ?j)" s] assms(5) by simp
  have fr': "sanitizeKey k \<noteq> sanitizeKey ?t \<Longrightarrow> store_ok enc (fst r') k = store_ok enc (fst r) k \<and> jsonl_view (fst r') k = jsonl_view (fst r) k" for k
    using frame_view [of k ?t enc w2 "JSummary (jn_summary ?j)" "fst r"] assms(6) by simp
  obtain h t where v: "jsonl_view s ?t = Some (h, t)" using store_ok_view [OF assms(1)] by blast
  have t: "snd r' = None \<and> store_ok enc (fst r') ?t \<and> jsonl_view (fst r') ?t = Some (take_over d (h, t))"
    using a b v assms(6) by (cases "jn_summary ?j = []") (auto simp: keeps_def take_over_def)
  have "store_ok enc (fst r') k \<and> jsonl_view (fst r') k
      = map_option (if sanitizeKey k = sanitizeKey ?t then take_over d else id) (jsonl_view s k)" if "store_ok enc s k" for k
  proof (cases "sanitizeKey k = sanitizeKey ?t")
    case True
    then show ?thesis using t v same_stem(1) [OF True, of enc "fst r'"] same_stem(2) [OF True] by simp
  next
    case False
    then show ?thesis using fr fr' that by (simp add: option.map_id option.map_ident)
  qed
  then show ?thesis using a t by (auto simp: keeps_def)
qed

text \<open>
  What the migration of the legacy files comes to.  When every store operation succeeds, it returns
  without an error and reports every readable legacy file, and each key then has the content of the
  files with its name taken over one after the other: the messages of the last one alone.  With the
  renames done, running it again finds nothing.  (The files are all those whose name ends in \<^verbatim>\<open>.json\<close>: the
  witness has a meta file of the session manager, which wipes the history of its key.)
\<close>

theorem migration_last_file_wins:
  assumes "length ws = length ds" and "list_all (\<lambda>(w1, w2, renamed). calm w1 \<and> calm w2 \<and> renamed) ws"
    and "list_all (entry_fits enc s) ds" and "store_ok enc s k"
    and "(s', ds', n, e) = MigrateFromJSON enc ws ds s"
  shows "e = None \<and> n = int (length (filter pending ds)) \<and> store_ok enc s' k \<and>
    jsonl_view s' k = map_option (fold take_over (filter (\<lambda>d. pending d \<and> sanitizeKey (target d) = sanitizeKey k) ds)) (jsonl_view s k) \<and>
    filter pending ds' = []"
  using assms
proof (induction ws ds arbitrary: s s' ds' n e rule: list_induct2)
  case Nil
  then show ?case by (auto simp: option.map_id option.map_ident)
next
  case (Cons x ws d ds)
  obtain w1 w2 rn where x: "x = (w1, w2, rn)" by (cases x)
  have w: "calm w1" "calm w2" rn "list_all (\<lambda>(w1, w2, renamed). calm w1 \<and> calm w2 \<and> renamed) ws"
    using Cons.prems(1) by (simp_all add: x)
  show ?case
  proof (cases "pending d")
    case False
    obtain s1 ds1 n1 e1 where r: "MigrateFromJSON enc ws ds s = (s1, ds1, n1, e1)" by (cases "MigrateFromJSON enc ws ds s")
    have "MigrateFromJSON enc (x # ws) (d # ds) s = (s1, d # ds1, n1, e1)"
      using False r by (auto simp: x pending_def)
    then show ?thesis
      using Cons.IH [OF w(4) _ _ r [symmetric]] Cons.prems(2-4) False by simp
  next
    case True
    let ?j = "the (de_content d)"
    define r1 where "r1 = jsonl_SetHistory enc w1 (target d) (jn_messages ?j) s"
    define r2 where "r2 = (if jn_summary ?j \<noteq> [] then jsonl_SetSummary w2 (target d) (jn_summary ?j) (fst r1) else (fst r1, None))"
    have fits: "store_ok enc s (target d)" "list_all (short_line enc) (jn_messages ?j)"
      using Cons.prems(2) True by (simp_all add: entry_fits_def)
    note one = migrate_one [OF fits w(1,2) r1_def r2_def]
    obtain s1 ds1 n1 e1 where r: "MigrateFromJSON enc ws ds (fst r2) = (s1, ds1, n1, e1)" by (cases "MigrateFromJSON enc ws ds (fst r2)")
    have c: "(\<not> migrates d \<or> de_content d = None) = False" using True by (auto simp: pending_def)
    have e1: "jsonl_SetHistory enc w1 (migrated_key d ?j) (jn_messages ?j) s = (fst r1, None)"
      using one unfolding r1_def target_def by (simp add: prod_eq_iff)
    have e2: "(if jn_summary ?j \<noteq> [] then jsonl_SetSummary w2 (migrated_key d ?j) (jn_summary ?j) (fst r1) else (fst r1, None))
        = (fst r2, None)"
      using one unfolding r2_def target_def by (simp add: prod_eq_iff)
    have m: "MigrateFromJSON enc (x # ws) (d # ds) s = (s1, d\<lparr>de_name := de_name d @ ''.migrated''\<rparr> # ds1, n1 + 1, e1)"
      unfolding x by (simp only: MigrateFromJSON.simps Let_def c e1 e2 r prod.case option.case w(3) if_False if_True)
    have "list_all (entry_fits enc (fst r2)) ds"
      using Cons.prems(2) one by (auto simp: list_all_iff entry_fits_def)
    moreover have "store_ok enc (fst r2) k" using one Cons.prems(3) by blast
    moreover have "\<not> pending (d\<lparr>de_name := de_name d @ ''.migrated''\<rparr>)"
      by (simp add: pending_def migrates_def HasSuffix_def)
    ultimately show ?thesis
      using Cons.IH [OF w(4) _ _ r [symmetric]] one Cons.prems(3,4) True m
      by (auto simp: option.map_comp comp_def option.map_id option.map_ident eq_commute)
  qed
qed

definition ex_files :: "dir_entry list" where
  "ex_files =
     [\<lparr>de_name = ''conv_main.json'', de_is_dir = False,
       de_content = Some \<lparr>jn_key = ''conv:main'', jn_messages = [ex_msg ''hi''], jn_summary = ''s''\<rparr>\<rparr>,
      \<lparr>de_name = ''conv_main.meta.json'', de_is_dir = False,
       de_content = Some \<lparr>jn_key = ''conv:main'', jn_messages = [], jn_summary = []\<rparr>\<rparr>,
      \<lparr>de_name = ''conv_main.jsonl'', de_is_dir = False, de_content = None\<rparr>]"

theorem migration_last_file_wins_witness:
  "let (s', ds', n, e) = MigrateFromJSON ex_enc (replicate 3 (quiet, quiet, True)) ex_files \<lparr>js_files = [], js_metas = []\<rparr> in
     n = 2 \<and> e = None \<and> jsonl_view s' ''conv:main'' = Some ([], ''s'')"
proof -
  let ?s = "\<lparr>js_files = [], js_metas = []\<rparr>"
  have f: "list_all (entry_fits ex_enc ?s) ex_files" "store_ok ex_enc ?s ''conv:main''" by code_simp+
  have v: "jsonl_view ?s ''conv:main'' = Some ([], [])" by code_simp
  have p: "filter pending ex_files = take 2 ex_files"
    "filter (\<lambda>d. pending d \<and> sanitizeKey (target d) = sanitizeKey ''conv:main'') ex_files = take 2 ex_files"
    "fold take_over (take 2 ex_files) ([], []) = ([], ''s'')" "length (take 2 ex_files) = 2" by code_simp+
  have l: "length (replicate 3 (quiet, quiet, True)) = length ex_files"
    "list_all (\<lambda>(w1, w2, renamed). calm w1 \<and> calm w2 \<and> renamed) (replicate 3 (quiet, quiet, True))"
    by (simp_all add: ex_files_def list_all_iff)
  obtain s' ds' n e where r: "MigrateFromJSON ex_enc (replicate 3 (quiet, quiet, True)) ex_files ?s = (s', ds', n, e)"
    by (cases "MigrateFromJSON ex_enc (replicate 3 (quiet, quiet, True)) ex_files ?s")
  show ?thesis
    using migration_last_file_wins [OF l f r [symmetric]] v unfolding r p by (simp add: p(3))
qed

end
