(* ===== verification/SessionStore.thy ===== *)
theory SessionStore
  imports SessionLimits JsonlStore
begin

text \<open>
  The session manager as a history store (the contract of HistoryStore): the sessions that are in memory,
  under any outcome of the writes, and what follows for the two stores together.
\<close>

fun session_change :: "world \<Rightarrow> string \<Rightarrow> hist_op \<Rightarrow> manager \<Rightarrow> manager" where
  "session_change w key (HAdd msg) mg = AddFullMessage w key msg mg"
| "session_change w key (HSet msgs) mg = SetHistory w key msgs mg"
| "session_change w key (HTrunc k) mg = TruncateHistory w key k mg"

definition has_session :: "manager \<Rightarrow> string \<Rightarrow> bool" where
  "has_session mg k \<longleftrightarrow> lookup_session mg k \<noteq> None"

text \<open>A change of one session, stored with or without its event, seen from any key.\<close>

lemma history_persist:
  "has_session (persistEventAndMetaLocked w key s ev mg) k \<longleftrightarrow> CanonicalSessionKey k = key \<and> key \<noteq> [] \<or> has_session mg k"
  "GetHistory (persistEventAndMetaLocked w key s ev mg) k
     = (if CanonicalSessionKey k = key \<and> key \<noteq> [] then s_messages s else GetHistory mg k)"
proof -
  obtain e where e: "lookup_session (persistEventAndMetaLocked w key s ev mg) k
     = (if CanonicalSessionKey k = key \<and> key \<noteq> [] then Some (s\<lparr>s_last_event := e\<rparr>) else lookup_session mg k)"
    using lookup_persist by blast
  show "has_session (persistEventAndMetaLocked w key s ev mg) k \<longleftrightarrow> CanonicalSessionKey k = key \<and> key \<noteq> [] \<or> has_session mg k"
    unfolding has_session_def e by auto
  show "GetHistory (persistEventAndMetaLocked w key s ev mg) k
     = (if CanonicalSessionKey k = key \<and> key \<noteq> [] then s_messages s else GetHistory mg k)"
    unfolding GetHistory_def e by simp
qed

lemma history_put:
  "has_session (put_session key s mg) k \<longleftrightarrow> CanonicalSessionKey k = key \<and> key \<noteq> [] \<or> has_session mg k"
  "GetHistory (put_session key s mg) k = (if CanonicalSessionKey k = key \<and> key \<noteq> [] then s_messages s else GetHistory mg k)"
  by (auto simp: GetHistory_def has_session_def lookup_put)

lemmas history_changes = history_persist history_put

lemma has_sessionE:
  assumes "has_session mg k"
  obtains s where "CanonicalSessionKey k \<noteq> []" "get_session mg (CanonicalSessionKey k) = Some s" "GetHistory mg k = s_messages s"
  using assms by (auto simp: has_session_def lookup_session_def GetHistory_def Let_def split: if_splits)

lemma change_session:
  assumes "has_session mg k"
  shows "has_session (session_change w k op mg) k'' \<longleftrightarrow> CanonicalSessionKey k'' = CanonicalSessionKey k \<or> has_session mg k''"
    and "CanonicalSessionKey k'' \<noteq> CanonicalSessionKey k \<Longrightarrow> GetHistory (session_change w k op mg) k'' = GetHistory mg k''"
    and "map json_message (GetHistory (session_change w k op mg) k) = spec_op op (map json_message (GetHistory mg k))"
proof -
  obtain s where s: "CanonicalSessionKey k \<noteq> []" "get_session mg (CanonicalSessionKey k) = Some s" "GetHistory mg k = s_messages s"
    using assms by (rule has_sessionE)
  have same: "has_session mg k''" if "CanonicalSessionKey k'' = CanonicalSessionKey k"
    using that s by (simp add: has_session_def lookup_session_def)
  show "has_session (session_change w k op mg) k'' \<longleftrightarrow> CanonicalSessionKey k'' = CanonicalSessionKey k \<or> has_session mg k''"
    using s same by (cases op) (auto simp: AddFullMessage_def SetHistory_def TruncateHistory_def mutate_session_def
      ensureSessionLocked_def Let_def history_changes)
  show "GetHistory (session_change w k op mg) k'' = GetHistory mg k''" if "CanonicalSessionKey k'' \<noteq> CanonicalSessionKey k"
    using s that by (cases op) (auto simp: AddFullMessage_def SetHistory_def TruncateHistory_def mutate_session_def
      ensureSessionLocked_def Let_def history_changes)
  show "map json_message (GetHistory (session_change w k op mg) k) = spec_op op (map json_message (GetHistory mg k))"
  proof (cases op)
    case (HTrunc n)
    then show ?thesis
      using s by (auto simp: TruncateHistory_def mutate_session_def Let_def history_changes keep_last_def last_n_def drop_map)
  qed (use s in \<open>simp_all add: AddFullMessage_def SetHistory_def mutate_session_def ensureSessionLocked_def Let_def history_changes\<close>)
qed

interpretation sessions: history_store GetHistory session_change has_session "\<lambda>w op. True"
    "\<lambda>k k'. CanonicalSessionKey k \<noteq> CanonicalSessionKey k'"
  by unfold_locales (use change_session in blast)+

section \<open>The two stores together\<close>

text \<open>
  C26: The agent can use either store.  On keys that the two stores tell apart, where both hold the same
  histories (as JSON keeps them), the same operations lead to the same histories, whatever the outcome of
  the session manager's writes, as long as the JSONL store's succeed and no message exceeds the line limit.
\<close>

theorem stores_agree:
  assumes "\<forall>k \<in> K. has_session mg k \<and> store_ok enc s k \<and> map json_message (GetHistory mg k) = map json_message (jsonl_hist s k)"
    and "\<forall>k \<in> K. \<forall>k' \<in> K. k \<noteq> k' \<longrightarrow> CanonicalSessionKey k \<noteq> CanonicalSessionKey k' \<and> sanitizeKey k \<noteq> sanitizeKey k'"
    and "\<forall>(w, w', k, op) \<in> set ops. k \<in> K \<and> calm w' \<and> op_fits enc (to_jsonl_op op)"
    and "k \<in> K"
  shows "map json_message (GetHistory (fold (\<lambda>(w, w', k, op). session_change w k op) ops mg) k)
    = map json_message (jsonl_hist (fold (\<lambda>(w, w', k, op). jsonl_change enc w' k op) ops s) k)"
proof -
  let ?a = "map (\<lambda>(w, w', k, op). (w, k, op)) ops" and ?b = "map (\<lambda>(w, w', k, op). (w', k, op)) ops"
  have run: "fold (\<lambda>(w, w', k, op). session_change w k op) ops mg = sessions.run ?a mg"
    "fold (\<lambda>(w, w', k, op). jsonl_change enc w' k op) ops s = jsonl.run enc ?b s"
    by (simp_all add: sessions.run_def jsonl.run_def fold_map comp_def split_def)
  have ready: "sessions.keys_ready K mg" "jsonl.keys_ready enc K s"
    using assms(1,2) by (simp_all add: sessions.keys_ready_def jsonl.keys_ready_def)
  have on: "sessions.on_keys K ?a" "jsonl.on_keys enc K ?b"
    using assms(3) by (auto simp: sessions.on_keys_def jsonl.on_keys_def)
  have "map (\<lambda>(w, k', op). op) (filter (\<lambda>(w, k', op). k' = k) ?a) = map (\<lambda>(w, k', op). op) (filter (\<lambda>(w, k', op). k' = k) ?b)"
    by (induction ops) auto
  then show ?thesis
    unfolding run sessions.run_hist [OF ready(1) on(1) assms(4)] jsonl.run_hist [OF ready(2) on(2) assms(4)]
    using assms(1,4) by simp
qed

theorem stores_agree_witness:
  "map json_message (GetHistory (fold (\<lambda>(w, w', k, op). session_change w k op)
      [(ex_world ''e9'', quiet, ''conv:main'', HSet []), (ex_world ''e10'', quiet, ''conv:main'', HAdd (ex_msg ''x''))] ex_mg) ''conv:main'')
   = map json_message (jsonl_hist (fold (\<lambda>(w, w', k, op). jsonl_change ex_enc w' k op)
      [(ex_world ''e9'', quiet, ''conv:main'', HSet []), (ex_world ''e10'', quiet, ''conv:main'', HAdd (ex_msg ''x''))]
      (fst (jsonl_SetHistory ex_enc quiet ''conv:main'' (GetHistory ex_mg ''conv:main'') \<lparr>js_files = [], js_metas = []\<rparr>))) ''conv:main'')"
proof -
  let ?s = "fst (jsonl_SetHistory ex_enc quiet ''conv:main'' (GetHistory ex_mg ''conv:main'') \<lparr>js_files = [], js_metas = []\<rparr>)"
  have "has_session ex_mg ''conv:main''" "store_ok ex_enc ?s ''conv:main''"
    "map json_message (GetHistory ex_mg ''conv:main'') = map json_message (jsonl_hist ?s ''conv:main'')" by code_simp+
  moreover have "short_line ex_enc (ex_msg ''x'')" by code_simp
  ultimately show ?thesis by (intro stores_agree [where K = "{''conv:main''}"]) simp_all
qed

end
