(* ===== verification/ToolPolicy.thy ===== *)
theory ToolPolicy
  imports Routing Session MessageSplit "HOL-Library.List_Lexorder" "HOL-Library.Product_Lexorder" "HOL-Library.Char_ord"
begin

text \<open>
  What surrounds the execution of one tool call: results and the registry of tools
  (\<^verbatim>\<open>pkg/tools/base.go\<close>, \<^verbatim>\<open>registry.go\<close>), the emergency stop and the tool policy
  (\<^verbatim>\<open>toolcall_policy.go\<close>), and the error template with its suggestions (\<^verbatim>\<open>toolcall_error.go\<close>).  A string is
  the list of its runes.  A tool is a record of its answers to the interfaces the registry asks for (an
  interface a tool does not implement is \<open>None\<close>); its execution is a function of the arguments, the values
  in its context and the state \<open>'w\<close> of everything outside.  The registry is the map from names to tools as
  an association list with distinct keys.
\<close>

section \<open>Results and tools\<close>

record tool_result =
  ForLLM :: string
  ForUser :: string
  Silent :: bool
  IsError :: bool
  Async :: bool
  Err :: "string option"
  Media :: "string list"

definition NewToolResult :: "string \<Rightarrow> tool_result" where
  "NewToolResult s = \<lparr>ForLLM = s, ForUser = [], Silent = False, IsError = False, Async = False, Err = None, Media = []\<rparr>"

definition ErrorResult :: "string \<Rightarrow> tool_result" where
  "ErrorResult msg = \<lparr>ForLLM = msg, ForUser = [], Silent = False, IsError = True, Async = False, Err = None, Media = []\<rparr>"

definition WithError :: "tool_result \<Rightarrow> string \<Rightarrow> tool_result" where
  "WithError tr err = tr\<lparr>Err := Some err\<rparr>"

text \<open>The values the executor puts into the context of a tool.\<close>

record exec_ctx =
  cx_channel :: string
  cx_chatID :: string
  cx_senderID :: string
  cx_sessionKey :: string
  cx_runID :: string
  cx_isResume :: bool
  cx_callback :: bool
  cx_timeoutMS :: "int option"

definition withExecutionContext :: "exec_ctx \<Rightarrow> string \<Rightarrow> string \<Rightarrow> string \<Rightarrow> exec_ctx" where
  "withExecutionContext ctx channel chatID senderID =
     (let c1 = (if TrimSpace channel \<noteq> [] then ctx\<lparr>cx_channel := TrimSpace channel\<rparr> else ctx);
          c2 = (if TrimSpace chatID \<noteq> [] then c1\<lparr>cx_chatID := TrimSpace chatID\<rparr> else c1)
      in (if TrimSpace senderID \<noteq> [] then c2\<lparr>cx_senderID := TrimSpace senderID\<rparr> else c2))"

definition withExecutionSessionKey :: "exec_ctx \<Rightarrow> string \<Rightarrow> exec_ctx" where
  "withExecutionSessionKey ctx key =
     (let k = CanonicalSessionKey key in if k \<noteq> [] then ctx\<lparr>cx_sessionKey := k\<rparr> else ctx)"

definition withExecutionRunID :: "exec_ctx \<Rightarrow> string \<Rightarrow> exec_ctx" where
  "withExecutionRunID ctx runID = (if TrimSpace runID \<noteq> [] then ctx\<lparr>cx_runID := TrimSpace runID\<rparr> else ctx)"

definition withExecutionIsResume :: "exec_ctx \<Rightarrow> bool \<Rightarrow> exec_ctx" where
  "withExecutionIsResume ctx isResume = (if isResume then ctx\<lparr>cx_isResume := True\<rparr> else ctx)"

type_synonym tool_args = "(string \<times> jval) list option"

record 'w tool =
  tl_name :: string
  tl_parameters :: tool_args
  tl_parallel_policy :: "string option"      \<comment> \<open>\<^verbatim>\<open>ParallelPolicyProvider\<close>\<close>
  tl_concurrent_safe :: "bool option"        \<comment> \<open>\<^verbatim>\<open>ConcurrentSafeTool\<close>\<close>
  tl_execute :: "exec_ctx \<Rightarrow> tool_args \<Rightarrow> 'w \<Rightarrow> tool_result option \<times> 'w"
  tl_execute_async :: "(exec_ctx \<Rightarrow> tool_args \<Rightarrow> 'w \<Rightarrow> tool_result option \<times> 'w) option"  \<comment> \<open>\<^verbatim>\<open>AsyncExecutor\<close>\<close>

type_synonym 'w tool_registry = "(string \<times> 'w tool) list"

section \<open>The registry\<close>

definition Register :: "'w tool \<Rightarrow> 'w tool_registry \<Rightarrow> 'w tool_registry" where
  "Register t r = AList.update (tl_name t) t r"

definition Unregister :: "string \<Rightarrow> 'w tool_registry \<Rightarrow> bool \<times> 'w tool_registry" where
  "Unregister name0 r =
     (let name = TrimSpace name0 in
      if name = [] then (False, r)
      else case map_of r name of None \<Rightarrow> (False, r) | Some _ \<Rightarrow> (True, AList.delete name r))"

definition UnregisterPrefix :: "string \<Rightarrow> 'w tool_registry \<Rightarrow> nat \<times> 'w tool_registry" where
  "UnregisterPrefix prefix0 r =
     (let prefix = TrimSpace prefix0 in
      if prefix = [] then (0, r)
      else (length (filter (\<lambda>kv. HasPrefix (fst kv) prefix) r), filter (\<lambda>kv. \<not> HasPrefix (fst kv) prefix) r))"

definition ToolParallelSerialOnly :: string where "ToolParallelSerialOnly = ''serial_only''"
definition ToolParallelReadOnly :: string where "ToolParallelReadOnly = ''parallel_read_only''"
definition ParallelToolsModeReadOnlyOnly :: string where "ParallelToolsModeReadOnlyOnly = ''read_only_only''"
definition ParallelToolsModeAll :: string where "ParallelToolsModeAll = ''all''"

definition ParallelPolicy :: "'w tool_registry \<Rightarrow> string \<Rightarrow> string" where
  "ParallelPolicy r name =
     (case map_of r name of None \<Rightarrow> ToolParallelSerialOnly
      | Some t \<Rightarrow> (case tl_parallel_policy t of None \<Rightarrow> ToolParallelSerialOnly
                   | Some p \<Rightarrow> if p = [] then ToolParallelSerialOnly else p))"

definition IsParallelInstanceSafe :: "'w tool_registry \<Rightarrow> string \<Rightarrow> bool" where
  "IsParallelInstanceSafe r name =
     (case map_of r name of None \<Rightarrow> False
      | Some t \<Rightarrow> (case tl_concurrent_safe t of Some b \<Rightarrow> b | None \<Rightarrow> True))"

definition CanRunToolCallInParallel :: "'w tool_registry \<Rightarrow> string \<Rightarrow> string \<Rightarrow> bool" where
  "CanRunToolCallInParallel r name mode =
     (if \<not> IsParallelInstanceSafe r name then False
      else let md = ToLower (TrimSpace mode) in
        if md = ParallelToolsModeAll then True
        else if md = [] \<or> md = ParallelToolsModeReadOnlyOnly then ParallelPolicy r name = ToolParallelReadOnly
        else False)"

text \<open>The order of strings is that of their bytes.\<close>

definition string_key :: "string \<Rightarrow> nat list" where
  "string_key s = map byte_of s"

definition sortedToolNames :: "'w tool_registry \<Rightarrow> string list" where
  "sortedToolNames r = sort_key string_key (map fst r)"

text \<open>\<^verbatim>\<open>%q\<close>: the quoted form of a string.\<close>

definition hex_digit :: "nat \<Rightarrow> char" where
  "hex_digit n = ''0123456789abcdef'' ! n"

definition hex2 :: "nat \<Rightarrow> string" where
  "hex2 n = [hex_digit (n div 16), hex_digit (n mod 16)]"

definition quote_char :: "char \<Rightarrow> string" where
  "quote_char c =
     (let n = byte_of c in
      if n = 34 \<or> n = 92 then [CHR 0x5C, c]
      else if n = 7 then [CHR 0x5C, CHR ''a''] else if n = 8 then [CHR 0x5C, CHR ''b'']
      else if n = 9 then [CHR 0x5C, CHR ''t''] else if n = 10 then [CHR 0x5C, CHR ''n'']
      else if n = 11 then [CHR 0x5C, CHR ''v''] else if n = 12 then [CHR 0x5C, CHR ''f'']
      else if n = 13 then [CHR 0x5C, CHR ''r'']
      else if n < 32 \<or> n = 127 then [CHR 0x5C, CHR ''x''] @ hex2 n
      else if 127 < n \<and> n \<le> 160 \<or> n = 173 then [CHR 0x5C] @ ''u00'' @ hex2 n
      else [c])"

definition Quote :: "string \<Rightarrow> string" where
  "Quote s = [CHR 0x22] @ concat (map quote_char s) @ [CHR 0x22]"

definition nil_result :: "string \<Rightarrow> tool_result" where
  "nil_result name =
     (let msg = ''tool '' @ Quote name @ '' returned nil result'' in WithError (ErrorResult msg) msg)"

definition ExecuteWithContext ::
  "'w tool_registry \<Rightarrow> exec_ctx \<Rightarrow> string \<Rightarrow> tool_args \<Rightarrow> string \<Rightarrow> string \<Rightarrow> string \<Rightarrow> bool \<Rightarrow> 'w \<Rightarrow> tool_result \<times> 'w" where
  "ExecuteWithContext r ctx0 name args channel chatID senderID callback w =
     (let ctx1 = withExecutionContext ctx0 channel chatID senderID;
          ctx = (if callback then ctx1\<lparr>cx_callback := True\<rparr> else ctx1) in
      case map_of r name of
        None \<Rightarrow> (WithError (ErrorResult (''tool '' @ Quote name @ '' not found'')) ''tool not found'', w)
      | Some t \<Rightarrow>
          (case (case tl_execute_async t of
                   Some f \<Rightarrow> if callback then f ctx args w else tl_execute t ctx args w
                 | None \<Rightarrow> tl_execute t ctx args w) of
             (None, w') \<Rightarrow> (nil_result name, w')
           | (Some res, w') \<Rightarrow> (res, w')))"

section \<open>The tool policy and the emergency stop\<close>

definition matchesToolRule :: "string \<Rightarrow> string list \<Rightarrow> string list \<Rightarrow> bool" where
  "matchesToolRule name exact pres \<longleftrightarrow>
     (let toolName = ToLower (TrimSpace name) in
      toolName \<noteq> []
      \<and> ((\<exists>n \<in> set exact. toolName = ToLower (TrimSpace n))
         \<or> (\<exists>p \<in> set pres. ToLower (TrimSpace p) \<noteq> [] \<and> HasPrefix toolName (ToLower (TrimSpace p)))))"

record confirm_config =
  cf_enabled :: bool
  cf_mode :: string
  cf_tools :: "string list"
  cf_prefixes :: "string list"

record tool_policy =
  tp_enabled :: bool
  tp_allow :: "string list"
  tp_allow_prefixes :: "string list"
  tp_deny :: "string list"
  tp_deny_prefixes :: "string list"
  tp_timeoutMS :: int
  tp_confirm :: confirm_config

definition confirmModeApplies :: "string \<Rightarrow> bool \<Rightarrow> bool" where
  "confirmModeApplies mode isResume =
     (let md = ToLower (TrimSpace mode) in
      if md = [] \<or> md = ''always'' then True
      else if md = ''resume_only'' then isResume
      else False)"

text \<open>The reason of a denial; \<open>None\<close> when the call may go on.\<close>

definition evaluateToolPolicy :: "string \<Rightarrow> tool_policy \<Rightarrow> bool \<Rightarrow> string option" where
  "evaluateToolPolicy toolName policy isResume =
     (if \<not> tp_enabled policy then None
      else if matchesToolRule toolName (tp_deny policy) (tp_deny_prefixes policy)
        then Some ''tool policy deny matched''
      else if (0 < length (tp_allow policy) \<or> 0 < length (tp_allow_prefixes policy))
          \<and> \<not> matchesToolRule toolName (tp_allow policy) (tp_allow_prefixes policy)
        then Some ''tool policy allowlist rejected this tool''
      else if cf_enabled (tp_confirm policy) \<and> confirmModeApplies (cf_mode (tp_confirm policy)) isResume
          \<and> matchesToolRule toolName (cf_tools (tp_confirm policy)) (cf_prefixes (tp_confirm policy))
        then Some ''tool policy confirmation required''
      else None)"

record estop_config =
  ec_enabled :: bool
  ec_fail_closed :: bool

record estop_state =
  es_kill_all :: bool
  es_network_kill :: bool
  es_frozen :: "string list"
  es_frozen_prefixes :: "string list"

text \<open>What reading \<^verbatim>\<open>estop.json\<close> gives: no such file, an error of the read or of its JSON, or a state.\<close>

datatype estop_file = NoEstopFile | BadEstopFile | EstopFile estop_state

definition loadEstopState :: "(string \<Rightarrow> estop_file) \<Rightarrow> string \<Rightarrow> unit + estop_state option" where
  "loadEstopState rd ws =
     (if TrimSpace ws = [] then Inr None
      else case rd (TrimSpace ws) of
             NoEstopFile \<Rightarrow> Inr None | BadEstopFile \<Rightarrow> Inl () | EstopFile st \<Rightarrow> Inr (Some st))"

definition isNetworkSensitiveTool :: "string \<Rightarrow> bool" where
  "isNetworkSensitiveTool toolName =
     matchesToolRule (ToLower (TrimSpace toolName)) [''web'', ''web_fetch'', ''message''] [''web_'', ''message'']"

definition evaluateEstop :: "(string \<Rightarrow> estop_file) \<Rightarrow> estop_config \<Rightarrow> string \<Rightarrow> string \<Rightarrow> string option" where
  "evaluateEstop rd cfg ws toolName =
     (if \<not> ec_enabled cfg then None
      else case loadEstopState rd ws of
        Inl _ \<Rightarrow> if ec_fail_closed cfg then Some ''estop state unreadable (fail_closed)'' else None
      | Inr None \<Rightarrow> None
      | Inr (Some st) \<Rightarrow>
          if es_kill_all st then Some ''estop kill_all is active''
          else if matchesToolRule toolName (es_frozen st) (es_frozen_prefixes st) then Some ''estop froze this tool''
          else if es_network_kill st \<and> isNetworkSensitiveTool toolName then Some ''estop network_kill is active''
          else None)"

definition formatToolExecutionDenied :: "string \<Rightarrow> string \<Rightarrow> string" where
  "formatToolExecutionDenied toolName0 reason0 =
     (let toolName = TrimSpace toolName0;
          reason = (if TrimSpace reason0 = [] then ''tool execution denied by runtime policy'' else TrimSpace reason0);
          advice = ''. Choose a different tool or ask for approval to change mode/policy.'' in
      if toolName = [] then ''TOOL_EXECUTION_DENIED: '' @ reason @ advice
      else ''TOOL_EXECUTION_DENIED: tool '' @ Quote toolName @ '' was blocked: '' @ reason @ advice)"

definition denied_result :: "string \<Rightarrow> string \<Rightarrow> tool_result" where
  "denied_result name reason = WithError (ErrorResult (formatToolExecutionDenied name reason)) reason"

section \<open>The error template\<close>

record error_template_options =
  et_enabled :: bool
  et_include_schema :: bool
  et_include_tools :: bool
  et_max_message :: int
  et_max_args :: int
  et_max_hints :: int
  et_max_tools :: int

record schema_summary =
  sm_required :: "string list"
  sm_keys :: "string list"

record error_template =
  em_tool :: string
  em_tool_call_id :: string
  em_iteration :: int
  em_message :: string
  em_args_preview :: string
  em_hints :: "string list"
  em_schema :: "schema_summary option"
  em_available :: "string list"
  em_suggested :: "string list"

text \<open>
  \<^verbatim>\<open>levenshteinDistance\<close>: \<open>lev_row\<close> fills the row of one rune of the first word from the row before it,
  \<open>left\<close> being the value just written.
\<close>

definition min3 :: "int \<Rightarrow> int \<Rightarrow> int \<Rightarrow> int" where
  "min3 a b c = (if a \<le> b \<and> a \<le> c then a else if b \<le> a \<and> b \<le> c then b else c)"

fun lev_row :: "char \<Rightarrow> string \<Rightarrow> int list \<Rightarrow> int \<Rightarrow> int list" where
  "lev_row x (y # ys) (p # q # ps) left =
     (let c = min3 (q + 1) (left + 1) (p + (if x \<noteq> y then 1 else 0)) in c # lev_row x ys (q # ps) c)"
| "lev_row x _ _ left = []"

fun lev_rows :: "string \<Rightarrow> string \<Rightarrow> int \<Rightarrow> int list \<Rightarrow> int list" where
  "lev_rows [] b i prev = prev"
| "lev_rows (x # xs) b i prev = lev_rows xs b (i + 1) (i # lev_row x b prev i)"

definition levenshteinDistance :: "string \<Rightarrow> string \<Rightarrow> int" where
  "levenshteinDistance a b =
     (if a = b then 0 else if a = [] then int (length b) else if b = [] then int (length a)
      else lev_rows a b 1 (map int [0..<Suc (length b)]) ! length b)"

definition suggest_score :: "string \<Rightarrow> string \<Rightarrow> int" where
  "suggest_score name cand =
     (let c = ToLower (TrimSpace cand); d = levenshteinDistance name c
      in if Contains c name \<or> Contains name c then d - 2 else d)"

definition suggestSimilarToolNames :: "string \<Rightarrow> string list \<Rightarrow> nat \<Rightarrow> string list" where
  "suggestSimilarToolNames name0 toolNames limit =
     (let name = ToLower (TrimSpace name0) in
      if name = [] \<or> limit = 0 \<or> toolNames = [] then []
      else take limit
        (sort_key (\<lambda>c. (suggest_score name c, string_key c))
          (filter (\<lambda>c. ToLower (TrimSpace c) \<noteq> []) toolNames)))"

definition tool_hint :: "string \<Rightarrow> string list" where
  "tool_hint name =
     (if name \<in> {''read_file'', ''list_dir''} then [''If a path fails, verify with list_dir on the parent directory first.'']
      else if name \<in> {''write_file'', ''edit_file'', ''append_file''} then
        [''Prefer read_file before write/edit, and keep edits minimal and precise.'']
      else if name = ''run_command'' then [''Keep commands non-interactive; if it needs files, prefer read_file/list_dir.'']
      else if name = ''web_search'' then [''Try a more specific query; if results are noisy, refine keywords.'']
      else if name = ''web_fetch'' then [''Fetch a single URL; avoid very large pages and consider narrower sources.'']
      else if name = ''cron'' then
        [''For one-time use at_seconds; for recurring use every_seconds or cron_expr (not both).'']
      else if name = ''sessions_list'' then [''Use sessions_list to discover valid session keys before querying history.'']
      else if name = ''sessions_history'' then [''If session not found, call sessions_list and retry with an existing key.'']
      else if name = ''skills_search'' then [''Search first; then install by exact skill name/version from the results.'']
      else if name = ''skills_install'' then
        [''If installation fails, verify registry config/network and retry with a smaller set.'']
      else [])"

definition buildToolErrorHints :: "string \<Rightarrow> bool \<Rightarrow> schema_summary option \<Rightarrow> string list \<Rightarrow> string list" where
  "buildToolErrorHints toolName toolExists schema suggested =
     (if \<not> toolExists then
        ''Tool not found. Check spelling and choose an available tool name.''
          # (if suggested \<noteq> [] then [''Try one of suggested_tools (closest match).''] else [])
      else
        (case schema of
           Some s \<Rightarrow> if sm_required s \<noteq> []
             then [''Ensure required arguments are present: '' @ Join (sm_required s) '', ''] else []
         | None \<Rightarrow> [])
        @ [''Double-check argument keys/types match the tool schema exactly.'']
        @ tool_hint (ToLower (TrimSpace toolName)))"

fun json_text :: "jval \<Rightarrow> string option" where
  "json_text (JStr s) = Some s"
| "json_text _ = None"

fun extractStringSlice :: "jval option \<Rightarrow> string list" where
  "extractStringSlice (Some (JArr vs)) =
     filter (\<lambda>s. s \<noteq> []) (map TrimSpace (List.map_filter json_text vs))"
| "extractStringSlice _ = []"

definition summarizeToolSchema :: "'w tool \<Rightarrow> schema_summary option" where
  "summarizeToolSchema t =
     (case tl_parameters t of None \<Rightarrow> None
      | Some params \<Rightarrow>
          let required = sort_key string_key (extractStringSlice (map_of params ''required''));
              keys = (case map_of params ''properties'' of
                        Some (JObj props) \<Rightarrow> sort_key string_key (map fst props)
                      | _ \<Rightarrow> []) in
          if required = [] \<and> keys = [] then None else Some \<lparr>sm_required = required, sm_keys = keys\<rparr>)"

text \<open>
  The encoder of \<^verbatim>\<open>encoding/json\<close>: \<open>html\<close> escapes the characters that would be markup, as \<^verbatim>\<open>json.Marshal\<close>
  does and \<^verbatim>\<open>marshalNoEscape\<close> does not.  The keys of a map are sorted.
\<close>

definition json_char :: "bool \<Rightarrow> char \<Rightarrow> string" where
  "json_char html c =
     (let n = byte_of c in
      if n = 34 \<or> n = 92 then [CHR 0x5C, c]
      else if n = 8 then [CHR 0x5C, CHR ''b''] else if n = 12 then [CHR 0x5C, CHR ''f'']
      else if n = 10 then [CHR 0x5C, CHR ''n''] else if n = 13 then [CHR 0x5C, CHR ''r'']
      else if n = 9 then [CHR 0x5C, CHR ''t'']
      else if n < 32 \<or> html \<and> (n = 60 \<or> n = 62 \<or> n = 38) then [CHR 0x5C] @ ''u00'' @ hex2 n
      else [c])"

definition json_string :: "bool \<Rightarrow> string \<Rightarrow> string" where
  "json_string html s = [CHR 0x22] @ concat (map (json_char html) s) @ [CHR 0x22]"

definition json_field :: "bool \<Rightarrow> string \<times> string \<Rightarrow> string" where
  "json_field html kv = json_string html (fst kv) @ '':'' @ snd kv"

definition json_object :: "bool \<Rightarrow> (string \<times> string) list \<Rightarrow> string" where
  "json_object html fs = ''{'' @ Join (map (json_field html) fs) '','' @ ''}''"

definition json_array :: "string list \<Rightarrow> string" where
  "json_array vs = ''['' @ Join vs '','' @ '']''"

lemma jval_item_size: "v \<in> set vs \<Longrightarrow> size v < Suc (size_list size vs)"
  by (induction vs) auto

lemma jval_field_size: "kv \<in> set kvs \<Longrightarrow> size (snd kv) < Suc (size_list (size_prod (\<lambda>_. 0) size) kvs)"
  by (induction kvs) auto

function json_value :: "bool \<Rightarrow> jval \<Rightarrow> string" where
  "json_value html JNull = ''null''"
| "json_value html (JBool b) = (if b then ''true'' else ''false'')"
| "json_value html (JNum i) = dec_int i"
| "json_value html (JStr s) = json_string html s"
| "json_value html (JArr vs) = json_array (map (json_value html) vs)"
| "json_value html (JObj kvs) =
     json_object html (sort_key (\<lambda>kv. string_key (fst kv)) (map (\<lambda>kv. (fst kv, json_value html (snd kv))) kvs))"
  by pat_completeness auto
termination
  by (relation "measure (\<lambda>(html, v). size v)") (auto intro: jval_field_size jval_item_size)

definition marshal_args :: "tool_args \<Rightarrow> string" where
  "marshal_args args = (case args of None \<Rightarrow> ''null'' | Some kvs \<Rightarrow> json_value True (JObj kvs))"

definition json_texts :: "string list \<Rightarrow> string" where
  "json_texts ws = json_array (map (json_string False) ws)"

definition encode_summary :: "schema_summary \<Rightarrow> string" where
  "encode_summary s = json_object False
     ((if sm_required s \<noteq> [] then [(''required'', json_texts (sm_required s))] else [])
      @ (if sm_keys s \<noteq> [] then [(''keys'', json_texts (sm_keys s))] else []))"

definition encode_template :: "error_template \<Rightarrow> string" where
  "encode_template e = json_object False
     ([(''kind'', json_string False ''tool_error''), (''version'', dec_int 1), (''tool'', json_string False (em_tool e))]
      @ (if em_tool_call_id e \<noteq> [] then [(''tool_call_id'', json_string False (em_tool_call_id e))] else [])
      @ (if em_iteration e \<noteq> 0 then [(''iteration'', dec_int (em_iteration e))] else [])
      @ [(''message'', json_string False (em_message e))]
      @ (if em_args_preview e \<noteq> [] then [(''args_preview'', json_string False (em_args_preview e))] else [])
      @ (if em_hints e \<noteq> [] then [(''hints'', json_texts (em_hints e))] else [])
      @ (case em_schema e of Some s \<Rightarrow> [(''tool_schema'', encode_summary s)] | None \<Rightarrow> [])
      @ (if em_available e \<noteq> [] then [(''available_tools'', json_texts (em_available e))] else [])
      @ (if em_suggested e \<noteq> [] then [(''suggested_tools'', json_texts (em_suggested e))] else []))"

definition kind_mark :: string where
  "kind_mark = json_string False ''kind'' @ '':'' @ json_string False ''tool_error''"

definition shouldSkipErrorTemplate :: "string \<Rightarrow> bool" where
  "shouldSkipErrorTemplate text = (let c = TrimSpace text in if c = [] then False else Contains c kind_mark)"

definition default_int :: "int \<Rightarrow> int \<Rightarrow> int" where
  "default_int d v = (if v \<le> 0 then d else v)"

definition error_message :: "tool_result \<Rightarrow> string" where
  "error_message res =
     (let m1 = TrimSpace (ForLLM res);
          m2 = (if m1 = [] then (case Err res of Some e \<Rightarrow> TrimSpace e | None \<Rightarrow> m1) else m1)
      in if m2 = [] then ''tool execution failed'' else m2)"

definition applyToolErrorTemplate ::
  "'w tool_registry option \<Rightarrow> error_template_options \<Rightarrow> int \<Rightarrow> string \<Rightarrow> string \<Rightarrow> string \<Rightarrow> tool_result \<Rightarrow> tool_result" where
  "applyToolErrorTemplate reg cfg iteration name callID argsJSON res =
     (if \<not> IsError res then res
      else if \<not> et_enabled cfg then res
      else if TrimSpace (ForUser res) \<noteq> [] \<and> \<not> Silent res then res
      else
        let tool = (case reg of None \<Rightarrow> None | Some r \<Rightarrow> map_of r name);
            missing = (reg \<noteq> None \<and> tool = None);
            names = (case reg of None \<Rightarrow> [] | Some r \<Rightarrow> sortedToolNames r);
            suggested = (if missing then suggestSimilarToolNames name names 5 else []);
            available = (if missing \<and> et_include_tools cfg
                         then take (nat (default_int 40 (et_max_tools cfg))) names else []);
            schema = (if et_include_schema cfg then Option.bind tool summarizeToolSchema else None);
            hints = buildToolErrorHints name (tool \<noteq> None) schema suggested
        in res\<lparr>ForLLM := encode_template
             \<lparr>em_tool = name, em_tool_call_id = callID, em_iteration = iteration,
              em_message = Truncate (error_message res) (default_int 900 (et_max_message cfg)),
              em_args_preview = Truncate argsJSON (default_int 220 (et_max_args cfg)),
              em_hints = take (nat (default_int 6 (et_max_hints cfg))) hints,
              em_schema = schema, em_available = available, em_suggested = suggested\<rparr>\<rparr>)"

text \<open>The cap on the size of a result.\<close>

definition result_tail :: "tool_result \<Rightarrow> int \<Rightarrow> int" where
  "result_tail res maxChars =
     (if IsError res then min 200 (max 20 (maxChars div 2)) else min 120 (max 20 (maxChars div 4)))"

definition truncateToolResult :: "tool_result \<Rightarrow> int \<Rightarrow> tool_result" where
  "truncateToolResult res maxChars =
     (if maxChars \<le> 0 then res
      else let cut = (\<lambda>s. if TrimSpace s \<noteq> [] then TruncateHeadTail s maxChars (result_tail res maxChars) else s)
           in res\<lparr>ForLLM := cut (ForLLM res), ForUser := cut (ForUser res)\<rparr>)"

section \<open>Lemmas: the edit distance\<close>

text \<open>The reference: the least number of insertions, deletions and replacements of one rune.\<close>

inductive edit1 :: "string \<Rightarrow> string \<Rightarrow> bool" where
  insert: "edit1 (u @ v) (u @ x # v)"
| delete: "edit1 (u @ x # v) (u @ v)"
| replace: "edit1 (u @ x # v) (u @ y # v)"

definition edit_distance :: "string \<Rightarrow> string \<Rightarrow> nat" where
  "edit_distance a b = (LEAST n. (edit1 ^^ n) a b)"

text \<open>In between, the recursion on both words from the left.\<close>

fun ed :: "string \<Rightarrow> string \<Rightarrow> nat" where
  "ed [] ys = length ys"
| "ed (x # xs) [] = Suc (length xs)"
| "ed (x # xs) (y # ys) =
     min (Suc (ed xs (y # ys))) (min (Suc (ed (x # xs) ys)) (ed xs ys + (if x = y then 0 else 1)))"

lemma ed_Nil2 [simp]: "ed xs [] = length xs"
  by (cases xs) auto

lemma ed_insert: "ed xs (y # ys) \<le> Suc (ed xs ys)"
  by (cases xs) (auto simp: min_def)

lemma ed_delete: "ed (x # xs) ys \<le> Suc (ed xs ys)"
  by (cases ys) (auto simp: min_def)

lemma ed_drop: "ed xs ys \<le> Suc (ed (x # xs) ys)"
proof (induction ys)
  case (Cons y ys)
  have "ed xs (y # ys) \<le> Suc (ed xs ys)" by (rule ed_insert)
  moreover have "ed xs (y # ys) \<le> Suc (Suc (ed (x # xs) ys))" using Cons ed_insert [of xs y ys] by linarith
  ultimately show ?case by (simp add: min_def)
qed simp

lemma ed_replace: "ed (x # xs) ys \<le> Suc (ed (y # xs) ys)"
proof (induction ys)
  case (Cons z ys)
  let ?e = "ed (x # xs) (z # ys)"
  have "?e \<le> Suc (ed xs (z # ys))" "?e \<le> Suc (ed (x # xs) ys)" "?e \<le> Suc (ed xs ys)" by auto
  with Cons have bounds: "?e \<le> Suc (Suc (ed xs (z # ys)))" "?e \<le> Suc (Suc (ed (y # xs) ys))"
    "?e \<le> Suc (ed xs ys + (if y = z then 0 else 1))" by linarith+
  show ?case unfolding ed.simps(3) [of y xs z ys] using bounds by (simp add: min_def del: ed.simps)
qed simp

lemma ed_cons:
  assumes "\<And>b. ed w' b \<le> Suc (ed w b)"
  shows "ed (a # w') b \<le> Suc (ed (a # w) b)"
proof (induction b)
  case Nil
  then show ?case using assms [of "[]"] by simp
next
  case (Cons y ys)
  then show ?case using assms [of ys] assms [of "y # ys"] by (auto simp: min_def)
qed

lemma ed_edit1: "edit1 a c \<Longrightarrow> ed a b \<le> Suc (ed c b)"
proof (induction rule: edit1.induct)
  case (insert u v x)
  show ?case by (induction u arbitrary: b) (auto simp del: ed.simps intro: ed_drop ed_cons)
next
  case (delete u x v)
  show ?case by (induction u arbitrary: b) (auto simp del: ed.simps intro: ed_delete ed_cons)
next
  case (replace u x v y)
  show ?case by (induction u arbitrary: b) (auto simp del: ed.simps intro: ed_replace ed_cons)
qed

lemma ed_lower: "(edit1 ^^ n) a b \<Longrightarrow> ed a b \<le> n"
proof (induction n arbitrary: a)
  case 0
  have "ed b b = 0" by (induction b) auto
  with 0 show ?case by simp
next
  case (Suc n)
  then obtain c where "edit1 a c" "(edit1 ^^ n) c b" by (metis relpowp_Suc_E2)
  with Suc.IH ed_edit1 show ?case by (meson Suc_le_mono order_trans)
qed

lemma edit1_Cons: "edit1 a b \<Longrightarrow> edit1 (x # a) (x # b)"
proof (induction rule: edit1.induct)
  case (insert u v y)
  show ?case using edit1.insert [of "x # u" v y] by simp
next
  case (delete u y v)
  show ?case using edit1.delete [of "x # u" y v] by simp
next
  case (replace u y v z)
  show ?case using edit1.replace [of "x # u" y v z] by simp
qed

lemma edits_Cons: "(edit1 ^^ n) a b \<Longrightarrow> (edit1 ^^ n) (x # a) (x # b)"
  by (induction n arbitrary: b) (auto dest: edit1_Cons)

lemma edit1_head: "edit1 (x # v) v" "edit1 v (x # v)" "edit1 (x # v) (y # v)"
  using edit1.delete [of "[]" x v] edit1.insert [of "[]" v x] edit1.replace [of "[]" x v y] by simp_all

lemma ed_reached: "(edit1 ^^ ed a b) a b"
proof (induction a b rule: ed.induct)
  case (1 ys)
  show ?case by (induction ys) (auto intro: edit1_head relpowp_Suc_I simp del: relpowp.simps(2))
next
  case (2 x xs)
  have "(edit1 ^^ length zs) zs []" for zs
    by (induction zs) (auto intro: edit1_head relpowp_Suc_I2 simp del: relpowp.simps(2))
  from this [of "x # xs"] show ?case by simp
next
  case (3 x xs y ys)
  have "(edit1 ^^ Suc (ed xs (y # ys))) (x # xs) (y # ys)"
    using 3(1) edit1_head by (meson relpowp_Suc_I2)
  moreover have "(edit1 ^^ Suc (ed (x # xs) ys)) (x # xs) (y # ys)"
    using edits_Cons [OF 3(2)] edit1_head by (meson relpowp_Suc_I2)
  moreover have "(edit1 ^^ (ed xs ys + (if x = y then 0 else 1))) (x # xs) (y # ys)"
    using edits_Cons [OF 3(3)] edit1_head(3) [of x xs y] relpowp_Suc_I2 [of edit1 "x # xs" "y # xs"] by simp
  ultimately show ?case by (simp add: min_def del: relpowp.simps)
qed

lemma edit_distance_ed: "edit_distance a b = ed a b"
  unfolding edit_distance_def by (rule Least_equality) (auto intro: ed_reached ed_lower)

text \<open>The rows of the table hold the distances of the prefixes.\<close>

definition ed_pre :: "string \<Rightarrow> string \<Rightarrow> nat \<Rightarrow> int" where
  "ed_pre a b j = int (ed (rev a) (rev (take j b)))"

lemma ed_pre_0: "ed_pre a b 0 = int (length a)"
  by (simp add: ed_pre_def)

lemma min3_min: "min3 a b c = min a (min b c)"
  by (simp add: min3_def min_def)

lemma ed_pre_Suc:
  "b = zs @ y # ys \<Longrightarrow> ed_pre (a @ [x]) b (Suc (length zs)) =
     min3 (ed_pre a b (Suc (length zs)) + 1) (ed_pre (a @ [x]) b (length zs) + 1)
          (ed_pre a b (length zs) + (if x \<noteq> y then 1 else 0))"
  by (auto simp: ed_pre_def min3_min min_def)

lemma lev_row_prefixes:
  assumes "b = zs @ ys"
  shows "lev_row x ys (map (ed_pre a b) [length zs..<Suc (length b)]) (ed_pre (a @ [x]) b (length zs))
       = map (ed_pre (a @ [x]) b) [Suc (length zs)..<Suc (length b)]"
  using assms
proof (induction ys arbitrary: zs)
  case (Cons y ys)
  have step: "[n..<Suc (length b)] = n # [Suc n..<Suc (length b)]" if "n \<le> length b" for n
    using that by (simp add: upt_rec)
  from Cons.prems have b: "b = (zs @ [y]) @ ys" and l: "length zs < length b" by simp_all
  from Cons.IH [OF b] show ?case
    by (simp add: step [of "length zs"] step [of "Suc (length zs)"] l Suc_leI less_imp_le
        ed_pre_Suc [OF Cons.prems] Let_def del: upt_Suc)
qed simp

lemma lev_rows_prefixes:
  "lev_rows xs b (int (Suc (length a))) (map (ed_pre a b) [0..<Suc (length b)])
     = map (ed_pre (a @ xs) b) [0..<Suc (length b)]"
proof (induction xs arbitrary: a)
  case (Cons x xs)
  have "int (Suc (length a)) # lev_row x b (map (ed_pre a b) [0..<Suc (length b)]) (int (Suc (length a)))
      = map (ed_pre (a @ [x]) b) [0..<Suc (length b)]"
    using lev_row_prefixes [of b "[]" b x a] by (simp add: ed_pre_0 upt_rec [of 0] del: upt_Suc)
  with Cons [of "a @ [x]"] show ?case by (simp del: upt_Suc)
qed simp

lemma edit1_rev: "edit1 a b \<Longrightarrow> edit1 (rev a) (rev b)"
proof (induction rule: edit1.induct)
  case (insert u v x)
  show ?case using edit1.insert [of "rev v" "rev u" x] by simp
next
  case (delete u x v)
  show ?case using edit1.delete [of "rev v" x "rev u"] by simp
next
  case (replace u x v y)
  show ?case using edit1.replace [of "rev v" x "rev u" y] by simp
qed

lemma edits_rev: "(edit1 ^^ n) a b \<Longrightarrow> (edit1 ^^ n) (rev a) (rev b)"
  by (induction n arbitrary: b) (auto dest: edit1_rev)

lemma edit_distance_rev: "edit_distance (rev a) (rev b) = edit_distance a b"
proof -
  have "(edit1 ^^ n) (rev a) (rev b) \<longleftrightarrow> (edit1 ^^ n) a b" for n
    using edits_rev [of n a b] edits_rev [of n "rev a" "rev b"] by auto
  then show ?thesis by (simp add: edit_distance_def)
qed

lemma ed_refl: "ed a a = 0"
  by (induction a) auto

section \<open>Lemmas: rules, cuts and templates\<close>

lemma Truncate_bound: "length (Truncate s m) \<le> nat m"
  by (auto simp: Truncate_def)

lemma tail_budget_pos: "0 < tail_budget m k"
  by (simp add: tail_budget_def Let_def)

lemma TruncateHeadTailWithMarker_bound:
  assumes "0 < m" "marker \<noteq> []"
  shows "length (TruncateHeadTailWithMarker s m marker k) \<le> nat m"
proof (cases "int (length s) \<le> m \<or> m \<le> int (length marker) + 3")
  case True
  then show ?thesis
    using Truncate_bound [of s m] assms by (auto simp: TruncateHeadTailWithMarker_def le_nat_iff)
next
  case False
  define t where "t = (if tail_budget m k > m - int (length marker) - 1 then m - int (length marker) - 1 else tail_budget m k)"
  have "0 < t" "t \<le> m - int (length marker) - 1"
    using False tail_budget_pos [of m k] by (auto simp: t_def)
  moreover from this False assms have "TruncateHeadTailWithMarker s m marker k
      = take (nat (m - int (length marker) - t)) s @ marker @ drop (length s - nat t) s"
    unfolding TruncateHeadTailWithMarker_def Let_def t_def by simp
  moreover from calculation(1,2) False have "int (length s - nat t) = int (length s) - t" by linarith
  ultimately show ?thesis using False by (simp add: le_nat_iff min_def)
qed

lemma TruncateHeadTail_bound: "0 < m \<Longrightarrow> length (TruncateHeadTail s m k) \<le> nat m"
  unfolding TruncateHeadTail_def
  by (rule TruncateHeadTailWithMarker_bound) (simp_all add: defaultHeadTailMarker_def)

lemma TruncateHeadTail_short [simp]: "0 < m \<Longrightarrow> int (length s) \<le> m \<Longrightarrow> TruncateHeadTail s m k = s"
  by (simp add: TruncateHeadTail_def TruncateHeadTailWithMarker_def)

lemma truncateToolResult_bound:
  assumes "0 < m" "TrimSpace (ForLLM res) \<noteq> []"
  shows "int (length (ForLLM (truncateToolResult res m))) \<le> m"
  using TruncateHeadTail_bound [OF assms(1), of "ForLLM res" "result_tail res m"] assms
  by (simp add: truncateToolResult_def Let_def le_nat_iff)

lemma truncateToolResult_fields [simp]:
  "IsError (truncateToolResult res m) = IsError res" "Err (truncateToolResult res m) = Err res"
  "Silent (truncateToolResult res m) = Silent res" "Async (truncateToolResult res m) = Async res"
  "Media (truncateToolResult res m) = Media res"
  by (simp_all add: truncateToolResult_def Let_def)

lemma result_tail_cong: "IsError a = IsError b \<Longrightarrow> result_tail a m = result_tail b m"
  by (simp add: result_tail_def)

text \<open>A cut result is short enough already: the second cut of the executor changes nothing.\<close>

lemma TruncateHeadTail_idem [simp]: "0 < m \<Longrightarrow> TruncateHeadTail (TruncateHeadTail s m k) m k' = TruncateHeadTail s m k"
  using TruncateHeadTail_bound [of m s k] by (simp add: le_nat_iff)

lemma truncateToolResult_twice [simp]: "truncateToolResult (truncateToolResult res m) m = truncateToolResult res m"
  by (simp add: truncateToolResult_def Let_def)

lemma Contains_append: "Contains (u @ p @ v) p"
proof -
  have "Index (u @ p @ v) p \<noteq> None"
  proof (induction u)
    case Nil
    have "HasPrefix (p @ v) p" by (rule HasPrefix_append)
    then show ?case by (cases "p @ v") (auto simp: HasPrefix_def)
  qed auto
  then show ?thesis by (simp add: Contains_def)
qed

lemma encode_template_prefix: "\<exists>rest. encode_template e = ''{'' @ kind_mark @ '','' @ rest @ ''}''"
  by (simp add: encode_template_def json_object_def json_field_def kind_mark_def)

lemma TrimSpace_braces: "TrimSpace (''{'' @ s @ ''}'') = ''{'' @ s @ ''}''"
  by (simp add: TrimSpace_def TrimLeft_def TrimRight_def is_space_def byte_of_def)

lemma template_is_marked: "shouldSkipErrorTemplate (encode_template e)"
proof -
  obtain rest where e: "encode_template e = ''{'' @ kind_mark @ '','' @ rest @ ''}''"
    using encode_template_prefix by blast
  then have "encode_template e = ''{'' @ (kind_mark @ '','' @ rest) @ ''}''" by simp
  then have "TrimSpace (encode_template e) = encode_template e" using TrimSpace_braces by metis
  with e Contains_append [of "''{''" kind_mark "'','' @ rest @ ''}''"] show ?thesis
    by (simp add: shouldSkipErrorTemplate_def)
qed

lemma matchesToolRule_cong:
  "ToLower (TrimSpace a) = ToLower (TrimSpace b) \<Longrightarrow> matchesToolRule a xs ps = matchesToolRule b xs ps"
  by (simp add: matchesToolRule_def)

section \<open>Properties\<close>

text \<open>
  The two-row table of \<^verbatim>\<open>levenshteinDistance\<close> computes the edit distance: the least number of
  insertions, deletions and replacements of one rune that lead from one word to the other.
\<close>

theorem levenshtein_is_edit_distance: "levenshteinDistance a b = int (edit_distance a b)"
proof -
  have start: "map int [0..<Suc (length b)] = map (ed_pre [] b) [0..<Suc (length b)]"
    by (rule map_cong) (auto simp: ed_pre_def)
  have "lev_rows a b 1 (map int [0..<Suc (length b)]) = map (ed_pre a b) [0..<Suc (length b)]"
    unfolding start using lev_rows_prefixes [of a b "[]"] by (simp del: upt_Suc)
  then have "lev_rows a b 1 (map int [0..<Suc (length b)]) ! length b = ed_pre a b (length b)"
    by (simp del: upt_Suc)
  also have "\<dots> = int (edit_distance a b)"
    by (simp add: ed_pre_def edit_distance_ed [symmetric] edit_distance_rev)
  finally show ?thesis
    by (simp add: levenshteinDistance_def edit_distance_ed ed_refl)
qed

end
