(* ===== verification/ToolExec.thy ===== *)
theory ToolExec
  imports ToolPolicy "HOL-Library.AList"
begin

text \<open>
  The execution of the tool calls of one model answer: \<^verbatim>\<open>pkg/tools/toolcall_executor.go\<close> and the built-in
  hook of \<^verbatim>\<open>toolcall_hooks.go\<close>.  One call goes through three phases: the hooks and the policy decide
  (\<open>decide\<close>), the tool runs (\<open>perform\<close>), the result is finished (\<open>complete\<close>).  The executor cuts the
  calls into segments, a serial call or a batch, and the goroutines of a batch interleave: \<open>tool_step\<close> takes
  a call from the channel of jobs, decides it, or performs it and stores its result, and other parts of the
  process may change the outside world at any moment.  The registry and the hooks stay as they are during
  one batch, hooks are functions of what they are given, and every call returns a result of its own.
  Performing a call, its after-hooks, its audit record and the storing of its result are one step: the hooks touch
  nothing shared, each call writes a slot of its own, and only the place of the audit record among those of other
  calls is fixed a little earlier than in the code.  Durations, logging and trace files are left out; the audit log
  is kept.
\<close>

section \<open>Hooks\<close>

record hook_meta =
  hm_workspace :: string
  hm_sessionKey :: string
  hm_runID :: string
  hm_channel :: string
  hm_chatID :: string
  hm_senderID :: string
  hm_iteration :: int
  hm_isResume :: bool
  hm_planMode :: bool

record hook_action =
  ha_hook :: string
  ha_stage :: string
  ha_decision :: string
  ha_reason :: string

record tool_hook =
  hk_name :: string
  hk_before :: "tool_call \<Rightarrow> hook_meta \<Rightarrow> tool_call \<times> tool_result option \<times> hook_action option"
  hk_after :: "tool_call \<Rightarrow> tool_result \<Rightarrow> hook_meta \<Rightarrow> tool_result option \<times> hook_action option"

definition note_action :: "tool_hook \<Rightarrow> string \<Rightarrow> hook_action option \<Rightarrow> hook_action list" where
  "note_action h stage act =
     (case act of None \<Rightarrow> []
      | Some a \<Rightarrow> [a\<lparr>ha_hook := TrimSpace (hk_name h),
                      ha_stage := (if TrimSpace (ha_stage a) = [] then stage else ha_stage a)\<rparr>])"

definition hook_renamed :: tool_result where
  "hook_renamed = ErrorResult ''tool hook attempted to change tool_call_id or tool name (unsupported)''"

fun run_before ::
  "hook_meta \<Rightarrow> string \<Rightarrow> string \<Rightarrow> tool_hook list \<Rightarrow> tool_call \<Rightarrow> tool_call \<times> tool_result option \<times> hook_action list" where
  "run_before meta callID name [] call = (call, None, [])"
| "run_before meta callID name (h # hs) call =
     (case hk_before h call meta of (updated, short, act) \<Rightarrow>
        if TrimSpace (tc_id updated) \<noteq> callID \<or> TrimSpace (tc_name updated) \<noteq> name
        then (call, Some hook_renamed, note_action h ''before'' act)
        else case short of
          Some res \<Rightarrow> (updated, Some res, note_action h ''before'' act)
        | None \<Rightarrow> (case run_before meta callID name hs updated of
            (call', res, acts) \<Rightarrow> (call', res, note_action h ''before'' act @ acts)))"

fun run_after ::
  "hook_meta \<Rightarrow> tool_call \<Rightarrow> tool_hook list \<Rightarrow> tool_result \<Rightarrow> tool_result \<times> hook_action list" where
  "run_after meta call [] res = (res, [])"
| "run_after meta call (h # hs) res =
     (case hk_after h call res meta of (updated, act) \<Rightarrow>
        (case run_after meta call hs (case updated of Some r \<Rightarrow> r | None \<Rightarrow> res) of
           (res', acts) \<Rightarrow> (res', note_action h ''after'' act @ acts)))"

section \<open>Options\<close>

record parallel_config =
  pc_enabled :: bool
  pc_max :: int
  pc_mode :: string
  pc_overrides :: "(string \<times> string) list"

record exec_options =
  eo_channel :: string
  eo_chatID :: string
  eo_senderID :: string
  eo_planMode :: bool
  eo_planTools :: "string list"
  eo_planPrefixes :: "string list"
  eo_workspace :: string
  eo_sessionKey :: string
  eo_runID :: string
  eo_isResume :: bool
  eo_policy :: tool_policy
  eo_estop :: estop_config
  eo_iteration :: int
  eo_parallel :: parallel_config
  eo_maxResultChars :: int
  eo_template :: error_template_options
  eo_callback :: "tool_call \<Rightarrow> bool"     \<comment> \<open>whether the call gets an async callback\<close>
  eo_hooks :: "tool_hook list"

definition call_meta :: "exec_options \<Rightarrow> hook_meta" where
  "call_meta opts =
     \<lparr>hm_workspace = TrimSpace (eo_workspace opts), hm_sessionKey = CanonicalSessionKey (eo_sessionKey opts),
      hm_runID = TrimSpace (eo_runID opts), hm_channel = TrimSpace (eo_channel opts),
      hm_chatID = TrimSpace (eo_chatID opts), hm_senderID = TrimSpace (eo_senderID opts),
      hm_iteration = eo_iteration opts, hm_isResume = eo_isResume opts, hm_planMode = eo_planMode opts\<rparr>"

definition exec_context :: "exec_options \<Rightarrow> exec_ctx \<Rightarrow> exec_ctx" where
  "exec_context opts ctx =
     withExecutionRunID (withExecutionSessionKey (withExecutionIsResume ctx (eo_isResume opts)) (eo_sessionKey opts))
       (eo_runID opts)"

section \<open>One call\<close>

record decision =
  dc_call :: tool_call
  dc_result :: "tool_result option"
  dc_decision :: string
  dc_reason :: string
  dc_actions :: "hook_action list"

definition policy_check :: "(string \<Rightarrow> estop_file) \<Rightarrow> exec_options \<Rightarrow> string \<Rightarrow> string option" where
  "policy_check rd opts name =
     (case evaluateEstop rd (eo_estop opts) (eo_workspace opts) name of
        Some reason \<Rightarrow> Some reason
      | None \<Rightarrow>
          if eo_planMode opts \<and> matchesToolRule name (eo_planTools opts) (eo_planPrefixes opts)
          then Some ''plan mode restricts this tool''
          else if tp_enabled (eo_policy opts) then evaluateToolPolicy name (eo_policy opts) (eo_isResume opts)
          else None)"

definition decide :: "(string \<Rightarrow> estop_file) \<Rightarrow> exec_options \<Rightarrow> tool_call \<Rightarrow> decision" where
  "decide rd opts tc =
     (case run_before (call_meta opts) (TrimSpace (tc_id tc)) (TrimSpace (tc_name tc)) (eo_hooks opts) tc of
        (call, Some res, acts) \<Rightarrow>
          \<lparr>dc_call = call, dc_result = Some res, dc_decision = ''hook'', dc_reason = ''hook short-circuit'',
           dc_actions = acts\<rparr>
      | (call, None, acts) \<Rightarrow>
          (case policy_check rd opts (tc_name call) of
             Some reason \<Rightarrow>
               \<lparr>dc_call = call, dc_result = Some (denied_result (tc_name call) reason), dc_decision = ''deny'',
                dc_reason = reason, dc_actions = acts\<rparr>
           | None \<Rightarrow> \<lparr>dc_call = call, dc_result = None, dc_decision = ''allow'', dc_reason = [], dc_actions = acts\<rparr>))"

definition policy_timeout :: "exec_options \<Rightarrow> decision \<Rightarrow> int" where
  "policy_timeout opts d =
     (if dc_result d = None \<and> tp_enabled (eo_policy opts) \<and> 0 < tp_timeoutMS (eo_policy opts)
      then tp_timeoutMS (eo_policy opts) else 0)"

definition perform ::
  "'w tool_registry option \<Rightarrow> exec_ctx \<Rightarrow> exec_options \<Rightarrow> decision \<Rightarrow> 'w \<Rightarrow> tool_result \<times> 'w" where
  "perform reg ctx0 opts d w =
     (case dc_result d of
        Some res \<Rightarrow> (res, w)
      | None \<Rightarrow>
          let ctx1 = exec_context opts ctx0;
              t = policy_timeout opts d;
              ctx = (if 0 < t then ctx1\<lparr>cx_timeoutMS := Some t\<rparr> else ctx1);
              call = dc_call d in
          case reg of
            Some r \<Rightarrow> ExecuteWithContext r ctx (tc_name call) (tc_arguments call)
                         (eo_channel opts) (eo_chatID opts) (eo_senderID opts) (eo_callback opts call) w
          | None \<Rightarrow> (ErrorResult ''No tools available'', w))"

definition complete ::
  "'w tool_registry option \<Rightarrow> exec_options \<Rightarrow> decision \<Rightarrow> tool_result \<Rightarrow> tool_result \<times> hook_action list" where
  "complete reg opts d res =
     (let call = dc_call d;
          r1 = (if IsError res \<and> et_enabled (eo_template opts) \<and> \<not> shouldSkipErrorTemplate (ForLLM res)
                then applyToolErrorTemplate reg (eo_template opts) (eo_iteration opts) (tc_name call) (tc_id call)
                       (marshal_args (tc_arguments call)) res
                else res) in
      case run_after (call_meta opts) call (eo_hooks opts) r1 of
        (r2, acts) \<Rightarrow>
          (if 0 < eo_maxResultChars opts
           then truncateToolResult (truncateToolResult r2 (eo_maxResultChars opts)) (eo_maxResultChars opts)
           else r2, acts))"

record audit_event =
  au_runID :: string
  au_sessionKey :: string
  au_tool :: string
  au_callID :: string
  au_decision :: string
  au_reason :: string
  au_timeoutMS :: int
  au_isError :: bool
  au_error :: string
  au_args :: string
  au_preview :: string

definition audit_of :: "exec_options \<Rightarrow> decision \<Rightarrow> tool_result \<Rightarrow> audit_event list" where
  "audit_of opts d res =
     (if TrimSpace (eo_workspace opts) = [] then []
      else
        let preview = Truncate (TrimSpace (ForLLM res)) 400;
            err1 = (case Err res of Some e \<Rightarrow> e | None \<Rightarrow> []);
            err = (if err1 = [] \<and> IsError res then preview else err1);
            call = dc_call d in
        [\<lparr>au_runID = TrimSpace (eo_runID opts), au_sessionKey = CanonicalSessionKey (eo_sessionKey opts),
          au_tool = TrimSpace (tc_name call), au_callID = TrimSpace (tc_id call),
          au_decision = TrimSpace (dc_decision d), au_reason = Truncate (TrimSpace (dc_reason d)) 400,
          au_timeoutMS = policy_timeout opts d, au_isError = IsError res,
          au_error = Truncate (TrimSpace err) 1200,
          au_args = Truncate (TrimSpace (Truncate (marshal_args (tc_arguments call)) 200)) 500,
          au_preview = preview\<rparr>])"

record tool_execution =
  te_call :: tool_call
  te_result :: tool_result

section \<open>The segments of a batch of calls\<close>

definition normalizeParallelMode :: "string \<Rightarrow> string" where
  "normalizeParallelMode mode =
     (let md = ToLower (TrimSpace mode) in
      if md = [] \<or> md = ParallelToolsModeReadOnlyOnly then ParallelToolsModeReadOnlyOnly
      else if md = ParallelToolsModeAll then ParallelToolsModeAll
      else [])"

definition getOverridePolicy :: "string \<Rightarrow> (string \<times> string) list \<Rightarrow> string option" where
  "getOverridePolicy toolName overrides =
     (if overrides = [] then None
      else case (case map_of overrides toolName of
                   Some raw \<Rightarrow> Some raw | None \<Rightarrow> map_of overrides (ToLower (TrimSpace toolName))) of
        None \<Rightarrow> None
      | Some raw \<Rightarrow>
          let p = ToLower (TrimSpace raw) in
          if p = ToolParallelSerialOnly then Some ToolParallelSerialOnly
          else if p = ToolParallelReadOnly then Some ToolParallelReadOnly
          else None)"

definition shouldParallelize :: "'w tool_registry option \<Rightarrow> parallel_config \<Rightarrow> tool_call \<Rightarrow> bool" where
  "shouldParallelize reg cfg tc =
     (case reg of None \<Rightarrow> False
      | Some r \<Rightarrow>
          if \<not> pc_enabled cfg then False
          else if pc_max cfg = 1 then False
          else if \<not> IsParallelInstanceSafe r (tc_name tc) then False
          else case getOverridePolicy (tc_name tc) (pc_overrides cfg) of
            Some p \<Rightarrow> p = ToolParallelReadOnly
          | None \<Rightarrow>
              let mode = normalizeParallelMode (pc_mode cfg) in
              if mode = ParallelToolsModeAll then True
              else if mode = ParallelToolsModeReadOnlyOnly
                then CanRunToolCallInParallel r (tc_name tc) ParallelToolsModeReadOnlyOnly
              else False)"

datatype segment = Serial nat | Batch "nat list"

fun segments :: "(tool_call \<Rightarrow> bool) \<Rightarrow> nat \<Rightarrow> tool_call list \<Rightarrow> nat list \<Rightarrow> segment list" where
  "segments par i [] batch = (if batch = [] then [] else [Batch batch])"
| "segments par i (tc # tcs) batch =
     (if par tc then segments par (Suc i) tcs (batch @ [i])
      else (if batch = [] then [] else [Batch batch]) @ Serial i # segments par (Suc i) tcs [])"

fun segment_jobs :: "segment \<Rightarrow> nat list" where
  "segment_jobs (Serial i) = [i]"
| "segment_jobs (Batch b) = b"

text \<open>How many goroutines work on a segment.\<close>

fun workers :: "parallel_config \<Rightarrow> segment \<Rightarrow> nat" where
  "workers cfg (Serial i) = 1"
| "workers cfg (Batch b) =
     (if pc_max cfg \<le> 0 \<or> int (length b) < pc_max cfg then length b else nat (pc_max cfg))"

section \<open>The run of a batch\<close>

record 'w tool_run =
  tr_segments :: "segment list"
  tr_jobs :: "nat list"
  tr_workers :: nat
  tr_running :: "(nat \<times> decision option) list"
  tr_results :: "tool_execution option list"
  tr_audit :: "audit_event list"
  tr_world :: 'w

record 'w tool_env =
  en_registry :: "'w tool_registry option"
  en_context :: exec_ctx
  en_options :: exec_options
  en_calls :: "tool_call list"
  en_estop :: "'w \<Rightarrow> string \<Rightarrow> estop_file"       \<comment> \<open>\<^verbatim>\<open>.x-claw/state/estop.json\<close> of a workspace\<close>

definition start_run :: "'w tool_env \<Rightarrow> 'w \<Rightarrow> 'w tool_run" where
  "start_run env w =
     \<lparr>tr_segments = segments (shouldParallelize (en_registry env) (eo_parallel (en_options env))) 0 (en_calls env) [],
      tr_jobs = [], tr_workers = 0, tr_running = [],
      tr_results = replicate (length (en_calls env)) None, tr_audit = [], tr_world = w\<rparr>"

definition finish_call :: "'w tool_env \<Rightarrow> nat \<Rightarrow> decision \<Rightarrow> 'w tool_run \<Rightarrow> 'w tool_run" where
  "finish_call env i d r =
     (case perform (en_registry env) (en_context env) (en_options env) d (tr_world r) of
        (res0, w') \<Rightarrow>
          let res = fst (complete (en_registry env) (en_options env) d res0) in
          r\<lparr>tr_running := AList.delete i (tr_running r),
            tr_results := (tr_results r)[i := Some \<lparr>te_call = dc_call d, te_result = res\<rparr>],
            tr_audit := tr_audit r @ audit_of (en_options env) d res,
            tr_world := w'\<rparr>)"

definition decide_call :: "'w tool_env \<Rightarrow> nat \<Rightarrow> 'w tool_run \<Rightarrow> decision" where
  "decide_call env i r = decide (en_estop env (tr_world r)) (en_options env) (en_calls env ! i)"

inductive tool_step :: "'w tool_env \<Rightarrow> ('w \<Rightarrow> 'w \<Rightarrow> bool) \<Rightarrow> 'w tool_run \<Rightarrow> 'w tool_run \<Rightarrow> bool" for env R where
  segment: "tr_jobs r = [] \<Longrightarrow> tr_running r = [] \<Longrightarrow> tr_segments r = s # ss \<Longrightarrow>
     tool_step env R r
       (r\<lparr>tr_segments := ss, tr_jobs := segment_jobs s, tr_workers := workers (eo_parallel (en_options env)) s\<rparr>)"
| job: "tr_jobs r = i # js \<Longrightarrow> length (tr_running r) < tr_workers r \<Longrightarrow>
     tool_step env R r (r\<lparr>tr_jobs := js, tr_running := tr_running r @ [(i, None)]\<rparr>)"
| check: "map_of (tr_running r) i = Some None \<Longrightarrow>
     tool_step env R r (r\<lparr>tr_running := AList.update i (Some (decide_call env i r)) (tr_running r)\<rparr>)"
| finish: "map_of (tr_running r) i = Some (Some d) \<Longrightarrow> tool_step env R r (finish_call env i d r)"
| outside: "R (tr_world r) w' \<Longrightarrow> tool_step env R r (r\<lparr>tr_world := w'\<rparr>)"

definition run_finished :: "'w tool_run \<Rightarrow> bool" where
  "run_finished r \<longleftrightarrow> tr_segments r = [] \<and> tr_jobs r = [] \<and> tr_running r = []"

text \<open>The same calls one after the other.  Agent runs (ToolLoop) execute their batches in this form; for parallel tools
  that only read it is what every interleaving comes to (\<open>schedule_independent\<close>).\<close>

definition runOne :: "'w tool_env \<Rightarrow> nat \<Rightarrow> 'w tool_run \<Rightarrow> 'w tool_run" where
  "runOne env i r = finish_call env i (decide_call env i r) r"

definition ExecuteToolCalls :: "'w tool_env \<Rightarrow> 'w \<Rightarrow> tool_execution option list \<times> audit_event list \<times> 'w" where
  "ExecuteToolCalls env w =
     (let r = fold (runOne env) [0..<length (en_calls env)] (start_run env w)
      in (tr_results r, tr_audit r, tr_world r))"

section \<open>The built-in hook\<close>

record redact_config =
  rd_enabled :: bool
  rd_llm :: bool
  rd_user :: bool
  rd_jsonFields :: "string list"

text \<open>
  \<open>rx\<close> is the loop of \<^verbatim>\<open>redactText\<close> that replaces the matches of the compiled patterns (\<^verbatim>\<open>regexp\<close>), and
  \<open>parse\<close> the decoder of \<^verbatim>\<open>encoding/json\<close> (\<open>None\<close> for an error).
\<close>

definition redact_names :: "redact_config \<Rightarrow> string list" where
  "redact_names cfg = filter (\<lambda>f. f \<noteq> []) (map (\<lambda>f. ToLower (TrimSpace f)) (rd_jsonFields cfg))"

function redactJSONValue :: "(string \<Rightarrow> string) \<Rightarrow> string list \<Rightarrow> jval \<Rightarrow> jval" where
  "redactJSONValue rx ns (JObj kvs) =
     JObj (map (\<lambda>kv. (fst kv, if ToLower (TrimSpace (fst kv)) \<in> set ns then JStr ''[REDACTED]''
                              else redactJSONValue rx ns (snd kv))) kvs)"
| "redactJSONValue rx ns (JArr vs) = JArr (map (redactJSONValue rx ns) vs)"
| "redactJSONValue rx ns (JStr s) = JStr (rx s)"
| "redactJSONValue rx ns JNull = JNull"
| "redactJSONValue rx ns (JBool b) = JBool b"
| "redactJSONValue rx ns (JNum i) = JNum i"
  by pat_completeness auto
termination
  by (relation "measure (\<lambda>(rx, ns, v). size v)") (auto intro: jval_field_size jval_item_size)

definition redactOutputString ::
  "(string \<Rightarrow> jval option) \<Rightarrow> (string \<Rightarrow> string) \<Rightarrow> redact_config \<Rightarrow> string \<Rightarrow> string" where
  "redactOutputString parse rx cfg s =
     (if \<not> rd_enabled cfg then s
      else let raw = TrimSpace s in
        if raw = [] then s
        else rx (if (HasPrefix raw ''{'' \<or> HasPrefix raw ''['') \<and> redact_names cfg \<noteq> []
                 then (case parse raw of
                         Some v \<Rightarrow> json_value True (redactJSONValue rx (redact_names cfg) v)
                       | None \<Rightarrow> raw)
                 else raw))"

definition redactToolResult ::
  "(string \<Rightarrow> jval option) \<Rightarrow> (string \<Rightarrow> string) \<Rightarrow> redact_config \<Rightarrow> tool_result \<Rightarrow> tool_result \<times> bool" where
  "redactToolResult parse rx cfg res =
     (if \<not> rd_enabled cfg then (res, False)
      else if \<not> rd_llm cfg \<and> \<not> rd_user cfg then (res, False)
      else
        let red = redactOutputString parse rx cfg;
            llm = (if rd_llm cfg \<and> TrimSpace (ForLLM res) \<noteq> [] then red (ForLLM res) else ForLLM res);
            usr = (if rd_user cfg \<and> TrimSpace (ForUser res) \<noteq> [] then red (ForUser res) else ForUser res)
        in if llm = ForLLM res \<and> usr = ForUser res then (res, False)
           else (res\<lparr>ForLLM := llm, ForUser := usr\<rparr>, True))"

definition redact_hook :: "(string \<Rightarrow> jval option) \<Rightarrow> (string \<Rightarrow> string) \<Rightarrow> redact_config \<Rightarrow> tool_hook" where
  "redact_hook parse rx cfg =
     \<lparr>hk_name = ''redact'',
      hk_before = (\<lambda>call meta. (call, None, None)),
      hk_after = (\<lambda>call res meta.
        case redactToolResult parse rx cfg res of
          (r, changed) \<Rightarrow>
            if changed
            then (Some r, Some \<lparr>ha_hook = [], ha_stage = [], ha_decision = ''scrub'', ha_reason = ''tool output redacted''\<rparr>)
            else (Some res, None))\<rparr>"

definition BuildDefaultToolHooks ::
  "(string \<Rightarrow> jval option) \<Rightarrow> (string \<Rightarrow> string) \<Rightarrow> bool \<Rightarrow> redact_config \<Rightarrow> tool_hook list" where
  "BuildDefaultToolHooks parse rx hooksEnabled cfg =
     (if \<not> hooksEnabled then []
      else if rd_enabled cfg \<and> (rd_llm cfg \<or> rd_user cfg) then [redact_hook parse rx cfg]
      else [])"

section \<open>Lemmas: hooks and decisions\<close>

definition same_call :: "tool_call \<Rightarrow> tool_call \<Rightarrow> bool" where
  "same_call a b \<longleftrightarrow> TrimSpace (tc_id a) = TrimSpace (tc_id b) \<and> TrimSpace (tc_name a) = TrimSpace (tc_name b)"

lemma run_before_call:
  "run_before meta (TrimSpace (tc_id c0)) (TrimSpace (tc_name c0)) hs call = (call', res, acts) \<Longrightarrow>
     same_call call c0 \<Longrightarrow> same_call call' c0"
proof (induction hs arbitrary: call call' res acts)
  case (Cons h hs)
  obtain updated short act where h: "hk_before h call meta = (updated, short, act)"
    by (cases "hk_before h call meta") auto
  show ?case
  proof (cases "TrimSpace (tc_id updated) \<noteq> TrimSpace (tc_id c0) \<or> TrimSpace (tc_name updated) \<noteq> TrimSpace (tc_name c0) \<or> short \<noteq> None")
    case True
    then have "call' = call \<or> call' = updated \<and> same_call updated c0"
      using Cons.prems(1) h by (auto simp: same_call_def split: if_splits)
    with Cons.prems(2) show ?thesis by auto
  next
    case False
    then have "same_call updated c0" by (simp add: same_call_def)
    moreover obtain res1 acts1 where
      "run_before meta (TrimSpace (tc_id c0)) (TrimSpace (tc_name c0)) hs updated = (call', res1, acts1)"
      using Cons.prems(1) h False by (auto split: prod.splits)
    ultimately show ?thesis using Cons.IH by blast
  qed
qed simp

lemma decide_call_same: "same_call (dc_call (decide rd opts tc)) tc"
proof -
  obtain call res acts
    where b: "run_before (call_meta opts) (TrimSpace (tc_id tc)) (TrimSpace (tc_name tc)) (eo_hooks opts) tc = (call, res, acts)"
    by (metis prod_cases3)
  have "same_call tc tc" by (simp add: same_call_def)
  from run_before_call [OF b this] b show ?thesis by (auto simp: decide_def split: option.splits)
qed

text \<open>A hook that leaves the id and the name of every call alone.\<close>

definition faithful_hook :: "tool_hook \<Rightarrow> bool" where
  "faithful_hook h \<longleftrightarrow> (\<forall>call meta. tc_id (fst (hk_before h call meta)) = tc_id call \<and> tc_name (fst (hk_before h call meta)) = tc_name call)"

lemma run_before_exact:
  "run_before meta i n hs call = (call', res, acts) \<Longrightarrow> \<forall>h \<in> set hs. faithful_hook h \<Longrightarrow>
     tc_id call' = tc_id call \<and> tc_name call' = tc_name call"
proof (induction hs arbitrary: call call' res acts)
  case (Cons h hs)
  obtain updated short act where h: "hk_before h call meta = (updated, short, act)"
    by (cases "hk_before h call meta") auto
  have "faithful_hook h" using Cons.prems(2) by simp
  then have "tc_id (fst (hk_before h call meta)) = tc_id call" "tc_name (fst (hk_before h call meta)) = tc_name call"
    unfolding faithful_hook_def by blast+
  then have u: "tc_id updated = tc_id call" "tc_name updated = tc_name call" using h by simp_all
  show ?case using Cons.prems u h Cons.IH [of updated call'] by (auto split: if_splits prod.splits option.splits)
qed simp

text \<open>The call a result carries, as far as the model can tell it from its own.\<close>

definition kept_call :: "tool_hook list \<Rightarrow> tool_call \<Rightarrow> tool_call \<Rightarrow> bool" where
  "kept_call hs a b \<longleftrightarrow>
     same_call a b \<and> ((\<forall>h \<in> set hs. faithful_hook h) \<longrightarrow> tc_id a = tc_id b \<and> tc_name a = tc_name b)"

lemma decide_call_kept: "kept_call (eo_hooks opts) (dc_call (decide rd opts tc)) tc"
proof -
  obtain call res acts
    where b: "run_before (call_meta opts) (TrimSpace (tc_id tc)) (TrimSpace (tc_name tc)) (eo_hooks opts) tc = (call, res, acts)"
    by (metis prod_cases3)
  then have "dc_call (decide rd opts tc) = call" by (auto simp: decide_def split: option.splits)
  then show ?thesis using decide_call_same [of rd opts tc] run_before_exact [OF b] by (auto simp: kept_call_def)
qed

lemma default_hooks_faithful: "\<forall>h \<in> set (BuildDefaultToolHooks parse rx on cfg). faithful_hook h"
  by (auto simp: BuildDefaultToolHooks_def redact_hook_def faithful_hook_def Let_def)

lemma perform_decided: "dc_result d = Some res \<Longrightarrow> perform reg ctx opts d w = (res, w)"
  by (simp add: perform_def)

section \<open>Lemmas: the segments\<close>

lemma segments_jobs: "concat (map segment_jobs (segments par i tcs b)) = b @ [i..<i + length tcs]"
  by (induction par i tcs b rule: segments.induct) (auto simp: upt_rec)

lemma segments_serial:
  "Serial j \<in> set (segments par i tcs b) \<Longrightarrow> i \<le> j \<and> \<not> par (tcs ! (j - i))"
  by (induction par i tcs b rule: segments.induct) (fastforce split: if_splits simp: Suc_diff_le nth_Cons')+

lemma segments_batch:
  assumes "Batch bt \<in> set (segments par i tcs b)" "j \<in> set bt"
  shows "j \<in> set b \<or> i \<le> j \<and> par (tcs ! (j - i))"
  using assms
proof (induction par i tcs b rule: segments.induct)
  case (2 par i tc tcs b)
  show ?case
  proof (cases "par tc")
    case True
    with 2 have "j \<in> set (b @ [i]) \<or> Suc i \<le> j \<and> par (tcs ! (j - Suc i))" by simp
    with True show ?thesis by (auto simp: nth_Cons')
  next
    case False
    with 2 have "j \<in> set b \<or> Suc i \<le> j \<and> par (tcs ! (j - Suc i))" by (auto split: if_splits)
    then show ?thesis by (auto simp: nth_Cons')
  qed
qed (auto split: if_splits)

lemma segments_nonempty: "s \<in> set (segments par i tcs b) \<Longrightarrow> segment_jobs s \<noteq> []"
  by (induction par i tcs b rule: segments.induct) (auto split: if_splits)

lemma segments_count: "length (segments par i tcs b) \<le> length b + length tcs"
  by (induction par i tcs b rule: segments.induct) (auto simp: Suc_le_eq neq_Nil_conv)

lemma workers_pos: "segment_jobs s \<noteq> [] \<Longrightarrow> 0 < workers cfg s"
  by (cases s) auto

section \<open>Lemmas: the run\<close>

definition all_segments :: "'w tool_env \<Rightarrow> segment list" where
  "all_segments env =
     segments (shouldParallelize (en_registry env) (eo_parallel (en_options env))) 0 (en_calls env) []"

definition parallel_call :: "'w tool_env \<Rightarrow> nat \<Rightarrow> bool" where
  "parallel_call env i \<longleftrightarrow> shouldParallelize (en_registry env) (eo_parallel (en_options env)) (en_calls env ! i)"

definition current :: "'w tool_run \<Rightarrow> nat list" where
  "current r = tr_jobs r @ map fst (tr_running r)"

definition rest :: "'w tool_run \<Rightarrow> nat list" where
  "rest r = concat (map segment_jobs (tr_segments r))"

definition unfinished :: "'w tool_run \<Rightarrow> nat set" where
  "unfinished r = {i. i < length (tr_results r) \<and> tr_results r ! i = None}"

definition tool_inv :: "'w tool_env \<Rightarrow> 'w tool_run \<Rightarrow> bool" where
  "tool_inv env r \<longleftrightarrow>
     length (tr_results r) = length (en_calls env)
     \<and> distinct (current r @ rest r) \<and> set (current r @ rest r) = unfinished r
     \<and> set (tr_segments r) \<subseteq> set (all_segments env)
     \<and> (current r \<noteq> [] \<longrightarrow> (\<exists>s \<in> set (all_segments env).
          set (current r) \<subseteq> set (segment_jobs s) \<and> tr_workers r = workers (eo_parallel (en_options env)) s))
     \<and> length (tr_running r) \<le> tr_workers r"

definition calls_kept :: "'w tool_env \<Rightarrow> 'w tool_run \<Rightarrow> bool" where
  "calls_kept env r \<longleftrightarrow>
     (\<forall>i d. (i, Some d) \<in> set (tr_running r) \<longrightarrow> kept_call (eo_hooks (en_options env)) (dc_call d) (en_calls env ! i))
     \<and> (\<forall>i < length (tr_results r). \<forall>e. tr_results r ! i = Some e \<longrightarrow> kept_call (eo_hooks (en_options env)) (te_call e) (en_calls env ! i))"

lemma decide_call_same': "kept_call (eo_hooks (en_options env)) (dc_call (decide_call env i r)) (en_calls env ! i)"
  by (simp add: decide_call_def decide_call_kept)

lemma map_of_keys: "map_of xs k = Some v \<Longrightarrow> k \<in> fst ` set xs"
  by (metis domI dom_map_of_conv_image_fst)

lemma tool_inv_start: "tool_inv env (start_run env w)"
  by (auto simp: tool_inv_def start_run_def current_def rest_def unfinished_def all_segments_def segments_jobs)

lemma inv_segment:
  assumes "tool_inv env r" "tr_jobs r = []" "tr_running r = []" "tr_segments r = s # ss"
  shows "tool_inv env (r\<lparr>tr_segments := ss, tr_jobs := segment_jobs s, tr_workers := workers (eo_parallel (en_options env)) s\<rparr>)"
  using assms by (auto simp: tool_inv_def current_def rest_def unfinished_def)

lemma inv_job:
  assumes "tool_inv env r" "tr_jobs r = i # js" "length (tr_running r) < tr_workers r"
  shows "tool_inv env (r\<lparr>tr_jobs := js, tr_running := tr_running r @ [(i, None)]\<rparr>)"
proof -
  let ?r = "r\<lparr>tr_jobs := js, tr_running := tr_running r @ [(i, None)]\<rparr>"
  have "set (current ?r) = set (current r)" "distinct (current ?r) = distinct (current r)"
    "current ?r \<noteq> []" "current r \<noteq> []"
    using assms(2) by (auto simp: current_def)
  with assms show ?thesis by (auto simp: tool_inv_def rest_def unfinished_def)
qed

lemma update_running_keys:
  "map_of xs i = Some v \<Longrightarrow> map fst (AList.update i x xs) = map fst xs"
  by (simp add: AList.update_keys map_of_keys)

lemma set_update_subset: "set (AList.update k v xs) \<subseteq> insert (k, v) (set xs)"
  by (induction xs) auto

lemma inv_check:
  assumes "tool_inv env r" "map_of (tr_running r) i = Some None"
  shows "tool_inv env (r\<lparr>tr_running := AList.update i (Some (decide_call env i r)) (tr_running r)\<rparr>)"
proof -
  let ?xs = "AList.update i (Some (decide_call env i r)) (tr_running r)"
  have keys: "map fst ?xs = map fst (tr_running r)" using assms(2) by (rule update_running_keys)
  then have "length ?xs = length (tr_running r)" by (metis length_map)
  then show ?thesis
    using assms(1) keys by (simp add: tool_inv_def current_def rest_def unfinished_def)
qed

lemma finish_call_fields [simp]:
  "tr_segments (finish_call env i d r) = tr_segments r" "tr_jobs (finish_call env i d r) = tr_jobs r"
  "tr_workers (finish_call env i d r) = tr_workers r"
  "tr_running (finish_call env i d r) = AList.delete i (tr_running r)"
  "length (tr_results (finish_call env i d r)) = length (tr_results r)"
  by (simp_all add: finish_call_def Let_def split: prod.splits)

lemma finish_call_results:
  "\<exists>res. tr_results (finish_call env i d r) = (tr_results r)[i := Some \<lparr>te_call = dc_call d, te_result = res\<rparr>]"
  by (simp add: finish_call_def Let_def split: prod.splits) blast

lemma inv_finish:
  assumes inv: "tool_inv env r" and i: "map_of (tr_running r) i = Some (Some d)"
  shows "tool_inv env (finish_call env i d r)"
proof -
  let ?r = "finish_call env i d r"
  obtain res where results: "tr_results ?r = (tr_results r)[i := Some \<lparr>te_call = dc_call d, te_result = res\<rparr>]"
    using finish_call_results by blast
  have key: "i \<in> set (map fst (tr_running r))" using map_of_keys [OF i] by simp
  then have mem: "i \<in> unfinished r" using inv by (auto simp: tool_inv_def current_def)
  have dist: "distinct (current r @ rest r)" using inv by (simp add: tool_inv_def)
  have cur: "current ?r = tr_jobs r @ removeAll i (map fst (tr_running r))" and rst: "rest ?r = rest r"
    by (simp_all add: current_def rest_def AList.delete_keys)
  have sets: "set (current ?r) = set (current r) - {i}" "i \<notin> set (rest r)"
    using dist key unfolding cur by (auto simp: current_def)
  have "unfinished ?r = unfinished r - {i}"
    using mem by (auto simp: unfinished_def results nth_list_update)
  then have part: "set (current ?r @ rest ?r) = unfinished ?r"
    using inv sets by (auto simp: tool_inv_def rst)
  have "distinct (current ?r @ rest ?r)"
    using dist unfolding cur rst by (auto simp: current_def distinct_removeAll)
  moreover have "current ?r \<noteq> [] \<longrightarrow> (\<exists>s \<in> set (all_segments env).
      set (current ?r) \<subseteq> set (segment_jobs s) \<and> tr_workers ?r = workers (eo_parallel (en_options env)) s)"
  proof
    have "current r \<noteq> []" using key by (auto simp: current_def)
    then obtain s where "s \<in> set (all_segments env)" "set (current r) \<subseteq> set (segment_jobs s)"
      "tr_workers r = workers (eo_parallel (en_options env)) s"
      using inv by (auto simp: tool_inv_def)
    then show "\<exists>s \<in> set (all_segments env).
      set (current ?r) \<subseteq> set (segment_jobs s) \<and> tr_workers ?r = workers (eo_parallel (en_options env)) s"
      unfolding sets(1) by (intro bexI [of _ s]) auto
  qed
  moreover have "length (tr_running ?r) \<le> tr_workers ?r"
    using AList.length_delete_le [of i "tr_running r"] inv by (simp add: tool_inv_def)
  moreover have "length (tr_results ?r) = length (en_calls env)" "set (tr_segments ?r) \<subseteq> set (all_segments env)"
    using inv by (simp_all add: tool_inv_def)
  ultimately show ?thesis unfolding tool_inv_def using part by (intro conjI)
qed

lemma calls_kept_step: "tool_step env R r r' \<Longrightarrow> calls_kept env r \<Longrightarrow> calls_kept env r'"
proof (induction rule: tool_step.induct)
  case (check r i)
  then show ?case
    using set_update_subset [of i "Some (decide_call env i r)" "tr_running r"]
    by (fastforce simp: calls_kept_def decide_call_same')
next
  case (finish r i d)
  obtain res where results: "tr_results (finish_call env i d r) = (tr_results r)[i := Some \<lparr>te_call = dc_call d, te_result = res\<rparr>]"
    using finish_call_results by blast
  have "set (AList.delete i (tr_running r)) \<subseteq> set (tr_running r)" by (auto simp: AList.delete_eq)
  moreover have "kept_call (eo_hooks (en_options env)) (dc_call d) (en_calls env ! i)"
    using finish map_of_SomeD by (fastforce simp: calls_kept_def)
  moreover have "kept_call (eo_hooks (en_options env)) (te_call e) (en_calls env ! j)"
    if "j < length (tr_results r)" "(tr_results r)[i := Some \<lparr>te_call = dc_call d, te_result = res\<rparr>] ! j = Some e" for j e
    using that finish(2) calculation(2) by (cases "j = i") (auto simp: calls_kept_def)
  ultimately show ?case
    using finish(2) by (auto simp: calls_kept_def results)
qed (auto simp: calls_kept_def)

lemma calls_kept_reach: "(tool_step env R)\<^sup>*\<^sup>* (start_run env w) r \<Longrightarrow> calls_kept env r"
proof (induction rule: rtranclp_induct)
  case base
  show ?case by (simp add: calls_kept_def start_run_def)
qed (blast intro: calls_kept_step)

lemma tool_inv_step: "tool_step env R r r' \<Longrightarrow> tool_inv env r \<Longrightarrow> tool_inv env r'"
proof (induction rule: tool_step.induct)
  case (outside r w')
  then show ?case by (simp add: tool_inv_def current_def rest_def unfinished_def)
qed (blast intro: inv_segment inv_job inv_check inv_finish)+

lemma tool_inv_reach: "(tool_step env R)\<^sup>*\<^sup>* (start_run env w) r \<Longrightarrow> tool_inv env r"
  by (induction rule: rtranclp_induct) (auto intro: tool_inv_start tool_inv_step)

text \<open>Work left in a run: each step that is not one of the outside world takes some of it away.\<close>

definition phase_weight :: "decision option \<Rightarrow> nat" where
  "phase_weight x = (case x of None \<Rightarrow> 2 | Some _ \<Rightarrow> 1)"

definition work_left :: "'w tool_run \<Rightarrow> nat" where
  "work_left r = length (tr_segments r) + 3 * length (rest r) + 3 * length (tr_jobs r)
     + sum_list (map (phase_weight \<circ> snd) (tr_running r))"

lemma weight_update:
  "distinct (map fst xs) \<Longrightarrow> map_of xs i = Some x \<Longrightarrow>
     sum_list (map (f \<circ> snd) (AList.update i y xs)) + (f x :: nat) = sum_list (map (f \<circ> snd) xs) + f y"
  by (induction xs) (auto split: if_splits)

lemma weight_delete:
  "distinct (map fst xs) \<Longrightarrow> map_of xs i = Some x \<Longrightarrow>
     sum_list (map (f \<circ> snd) (AList.delete i xs)) + (f x :: nat) = sum_list (map (f \<circ> snd) xs)"
proof (induction xs)
  case (Cons y xs)
  show ?case
  proof (cases "fst y = i")
    case True
    with Cons.prems have "i \<notin> fst ` set xs" "snd y = x" by (cases y; simp)+
    with True show ?thesis by (cases y) simp
  next
    case False
    with Cons show ?thesis by (cases y) auto
  qed
qed simp

lemma running_distinct: "tool_inv env r \<Longrightarrow> distinct (map fst (tr_running r))"
  by (simp add: tool_inv_def current_def)

lemma step_takes_work:
  assumes "tool_step env R r r'" "tool_inv env r"
  shows "work_left r' < work_left r \<or> (\<exists>w'. R (tr_world r) w')"
  using assms
proof (cases rule: tool_step.cases)
  case (check i)
  then show ?thesis
    using weight_update [OF running_distinct [OF assms(2)] check(2), of phase_weight "Some (decide_call env i r)"]
    by (simp add: work_left_def rest_def phase_weight_def)
next
  case (finish i d)
  then show ?thesis
    using weight_delete [OF running_distinct [OF assms(2)] finish(2), of phase_weight]
    by (simp add: work_left_def rest_def phase_weight_def)
qed (auto simp: work_left_def rest_def phase_weight_def)

lemma run_not_stuck:
  assumes inv: "tool_inv env r" and nf: "\<not> run_finished r"
  shows "\<exists>r'. tool_step env R r r'"
proof (cases "tr_running r")
  case (Cons x xs)
  obtain i ph where x: "x = (i, ph)" by (cases x)
  with Cons have "map_of (tr_running r) i = Some ph" by simp
  then show ?thesis by (cases ph) (auto intro: tool_step.check tool_step.finish)
next
  case Nil
  show ?thesis
  proof (cases "tr_jobs r")
    case Nil': Nil
    with nf Nil obtain s ss where "tr_segments r = s # ss" by (cases "tr_segments r") (auto simp: run_finished_def)
    with Nil Nil' show ?thesis by (blast intro: tool_step.segment)
  next
    case (Cons i js)
    then have "current r \<noteq> []" by (simp add: current_def)
    then obtain s where "s \<in> set (all_segments env)" "tr_workers r = workers (eo_parallel (en_options env)) s"
      using inv by (auto simp: tool_inv_def)
    then have "0 < tr_workers r" using workers_pos segments_nonempty by (simp add: all_segments_def)
    with Cons Nil show ?thesis by (auto intro!: exI tool_step.job)
  qed
qed

lemma work_at_start: "work_left (start_run env w) \<le> 4 * length (en_calls env)"
  using segments_count [of "shouldParallelize (en_registry env) (eo_parallel (en_options env))" 0 "en_calls env" "[]"]
  by (simp add: work_left_def start_run_def rest_def segments_jobs)

lemma distinct_singleton: "set xs \<subseteq> {i} \<Longrightarrow> distinct xs \<Longrightarrow> i \<in> set xs \<Longrightarrow> xs = [i]"
proof (cases xs)
  case (Cons a ys)
  assume "set xs \<subseteq> {i}" "distinct xs"
  with Cons show ?thesis by (cases ys) auto
qed simp

text \<open>A call that may not run in parallel is alone.\<close>

lemma serial_alone:
  assumes inv: "tool_inv env r" and i: "i \<in> set (current r)" "\<not> parallel_call env i"
  shows "current r = [i]"
proof -
  from i(1) have "current r \<noteq> []" by auto
  then obtain s where s: "s \<in> set (all_segments env)" "set (current r) \<subseteq> set (segment_jobs s)"
    using inv by (auto simp: tool_inv_def)
  have "s = Serial i"
  proof (cases s)
    case (Serial j)
    with s i show ?thesis by auto
  next
    case (Batch b)
    then have "parallel_call env i"
      using segments_batch [of b _ 0 "en_calls env" "[]" i] s i(1)
      by (auto simp: all_segments_def parallel_call_def)
    with i show ?thesis by simp
  qed
  with s have "set (current r) \<subseteq> {i}" by simp
  moreover have "distinct (current r)" using inv by (simp add: tool_inv_def)
  ultimately show ?thesis using i(1) by (rule distinct_singleton)
qed

section \<open>Lemmas: schedules\<close>

text \<open>The calls one after the other, at the worlds they find.\<close>

definition run_call :: "'w tool_env \<Rightarrow> nat \<Rightarrow> 'w \<Rightarrow> tool_execution \<times> audit_event list \<times> 'w" where
  "run_call env i w =
     (let d = decide (en_estop env w) (en_options env) (en_calls env ! i) in
      case perform (en_registry env) (en_context env) (en_options env) d w of
        (res0, w') \<Rightarrow>
          let res = fst (complete (en_registry env) (en_options env) d res0)
          in (\<lparr>te_call = dc_call d, te_result = res\<rparr>, audit_of (en_options env) d res, w'))"

primrec seq_world :: "'w tool_env \<Rightarrow> 'w \<Rightarrow> nat \<Rightarrow> 'w" where
  "seq_world env w 0 = w"
| "seq_world env w (Suc i) = snd (snd (run_call env i (seq_world env w i)))"

definition seq_exec :: "'w tool_env \<Rightarrow> 'w \<Rightarrow> nat \<Rightarrow> tool_execution" where
  "seq_exec env w i = fst (run_call env i (seq_world env w i))"

definition seq_audit :: "'w tool_env \<Rightarrow> 'w \<Rightarrow> nat \<Rightarrow> audit_event list" where
  "seq_audit env w i = fst (snd (run_call env i (seq_world env w i)))"

lemma finish_run_call:
  "decide (en_estop env (tr_world r)) (en_options env) (en_calls env ! i) = d \<Longrightarrow>
     finish_call env i d r =
       r\<lparr>tr_running := AList.delete i (tr_running r),
         tr_results := (tr_results r)[i := Some (fst (run_call env i (tr_world r)))],
         tr_audit := tr_audit r @ fst (snd (run_call env i (tr_world r))),
         tr_world := snd (snd (run_call env i (tr_world r)))\<rparr>"
  by (auto simp: finish_call_def run_call_def Let_def split: prod.splits)

lemma fold_runOne:
  "k \<le> length (en_calls env) \<Longrightarrow>
     tr_results (fold (runOne env) [0..<k] (start_run env w)) =
       map (Some \<circ> seq_exec env w) [0..<k] @ replicate (length (en_calls env) - k) None
   \<and> tr_audit (fold (runOne env) [0..<k] (start_run env w)) = concat (map (seq_audit env w) [0..<k])
   \<and> tr_world (fold (runOne env) [0..<k] (start_run env w)) = seq_world env w k"
proof (induction k)
  case 0
  show ?case by (simp add: start_run_def)
next
  case (Suc k)
  let ?r = "fold (runOne env) [0..<k] (start_run env w)"
  have "replicate (length (en_calls env) - k) None = None # replicate (length (en_calls env) - Suc k) (None :: tool_execution option)"
    using Suc.prems by (simp add: Suc_diff_Suc flip: replicate_Suc)
  with Suc show ?case
    by (simp add: runOne_def decide_call_def finish_run_call [OF refl] seq_exec_def seq_audit_def list_update_append)
qed

lemma ExecuteToolCalls_seq:
  "ExecuteToolCalls env w =
     (map (Some \<circ> seq_exec env w) [0..<length (en_calls env)],
      concat (map (seq_audit env w) [0..<length (en_calls env)]), seq_world env w (length (en_calls env)))"
  using fold_runOne [of "length (en_calls env)" env w] by (simp add: ExecuteToolCalls_def Let_def)

text \<open>Tools that may run in parallel leave the world as it is.\<close>

definition read_only_tool :: "'w tool \<Rightarrow> bool" where
  "read_only_tool t \<longleftrightarrow>
     (\<forall>ctx args w. snd (tl_execute t ctx args w) = w \<and> (\<forall>f. tl_execute_async t = Some f \<longrightarrow> snd (f ctx args w) = w))"

definition parallel_read_only :: "'w tool_env \<Rightarrow> bool" where
  "parallel_read_only env \<longleftrightarrow>
     (\<forall>i < length (en_calls env). parallel_call env i \<longrightarrow>
        (\<forall>r name t. en_registry env = Some r \<longrightarrow> TrimSpace name = TrimSpace (tc_name (en_calls env ! i)) \<longrightarrow>
           map_of r name = Some t \<longrightarrow> read_only_tool t))"

lemma snd_result_case:
  "snd (case p of (None, w') \<Rightarrow> (a, w') | (Some res, w') \<Rightarrow> (res, w')) = snd p"
  by (cases p; cases "fst p") auto

lemma ExecuteWithContext_world:
  assumes "\<And>t. map_of r name = Some t \<Longrightarrow> read_only_tool t"
  shows "snd (ExecuteWithContext r ctx name args ch to from cb w) = w"
proof (cases "map_of r name")
  case (Some t)
  then have "read_only_tool t" by (rule assms)
  then have "snd (case tl_execute_async t of Some f \<Rightarrow> if cb then f c args w else tl_execute t c args w
      | None \<Rightarrow> tl_execute t c args w) = w" for c
    by (auto simp: read_only_tool_def split: option.splits)
  with Some show ?thesis by (simp add: ExecuteWithContext_def Let_def snd_result_case)
qed (simp add: ExecuteWithContext_def)

lemma run_call_world:
  assumes "parallel_read_only env" "i < length (en_calls env)" "parallel_call env i"
  shows "snd (snd (run_call env i w)) = w"
proof -
  let ?d = "decide (en_estop env w) (en_options env) (en_calls env ! i)"
  have "snd (perform (en_registry env) (en_context env) (en_options env) ?d w) = w"
  proof (cases "dc_result ?d")
    case None
    show ?thesis
    proof (cases "en_registry env")
      case (Some r)
      have "TrimSpace (tc_name (dc_call ?d)) = TrimSpace (tc_name (en_calls env ! i))"
        using decide_call_same by (simp add: same_call_def)
      with assms Some have "map_of r (tc_name (dc_call ?d)) = Some t \<Longrightarrow> read_only_tool t" for t
        unfolding parallel_read_only_def by blast
      with None Some show ?thesis by (simp add: perform_def Let_def ExecuteWithContext_world)
    qed (simp add: perform_def None)
  qed (simp add: perform_decided)
  then show ?thesis by (simp add: run_call_def Let_def case_prod_beta)
qed

definition sched_inv :: "'w tool_env \<Rightarrow> 'w \<Rightarrow> nat \<Rightarrow> 'w tool_run \<Rightarrow> bool" where
  "sched_inv env w k r \<longleftrightarrow>
     k \<le> length (en_calls env) \<and> rest r = [k..<length (en_calls env)] \<and> set (current r) \<subseteq> {..<k}
     \<and> (current r = [] \<longrightarrow> tr_world r = seq_world env w k)
     \<and> (\<forall>i \<in> set (current r). seq_world env w i = tr_world r
          \<and> (parallel_call env i \<and> seq_world env w k = tr_world r \<or> current r = [i] \<and> Suc i = k))
     \<and> (\<forall>i d. (i, Some d) \<in> set (tr_running r) \<longrightarrow>
          d = decide (en_estop env (seq_world env w i)) (en_options env) (en_calls env ! i))
     \<and> (\<forall>i < k. i \<notin> set (current r) \<longrightarrow> tr_results r ! i = Some (seq_exec env w i))
     \<and> mset (tr_audit r) = (\<Sum>i \<in> {..<k} - set (current r). mset (seq_audit env w i))"

lemma sched_start: "sched_inv env w 0 (start_run env w)"
  by (simp add: sched_inv_def start_run_def current_def rest_def segments_jobs)

lemma seq_world_batch:
  assumes "parallel_read_only env" "k' \<le> length (en_calls env)" "\<And>j. k \<le> j \<Longrightarrow> j < k' \<Longrightarrow> parallel_call env j"
  shows "k \<le> j \<Longrightarrow> j \<le> k' \<Longrightarrow> seq_world env w j = seq_world env w k"
proof (induction j)
  case (Suc j)
  show ?case
  proof (cases "k = Suc j")
    case False
    with Suc have "k \<le> j" "j < k'" by auto
    with Suc assms show ?thesis by (simp add: run_call_world)
  qed simp
qed simp

lemma upt_append_split: "xs @ ys = [k..<n] \<Longrightarrow> k \<le> n \<Longrightarrow> xs = [k..<k + length xs] \<and> ys = [k + length xs..<n] \<and> k + length xs \<le> n"
proof -
  assume eq: "xs @ ys = [k..<n]" and "k \<le> n"
  from arg_cong [OF eq, of length] have "length xs \<le> n - k" by simp
  with \<open>k \<le> n\<close> have "k + length xs \<le> n" by linarith
  moreover from arg_cong [OF eq, of "take (length xs)"] arg_cong [OF eq, of "drop (length xs)"] calculation
  have "xs = [k..<k + length xs]" "ys = [k + length xs..<n]" by (simp_all add: take_upt)
  ultimately show ?thesis by simp
qed

lemma sched_segment:
  assumes inv: "tool_inv env r" and ro: "parallel_read_only env" and s: "sched_inv env w k r"
    and empty: "tr_jobs r = []" "tr_running r = []" and seg: "tr_segments r = s # ss"
  shows "\<exists>k'. sched_inv env w k' (r\<lparr>tr_segments := ss, tr_jobs := segment_jobs s, tr_workers := m\<rparr>)"
proof -
  let ?n = "length (en_calls env)" and ?k = "k + length (segment_jobs s)"
  let ?r = "r\<lparr>tr_segments := ss, tr_jobs := segment_jobs s, tr_workers := m\<rparr>"
  have "segment_jobs s @ concat (map segment_jobs ss) = [k..<?n]" "k \<le> ?n"
    using s seg by (simp_all add: sched_inv_def rest_def)
  from upt_append_split [OF this]
  have jobs: "segment_jobs s = [k..<?k]" and rst: "concat (map segment_jobs ss) = [?k..<?n]" and k: "?k \<le> ?n" by blast+
  have cur: "current r = []" "current ?r = segment_jobs s" using empty by (simp_all add: current_def)
  have mem: "s \<in> set (all_segments env)" using inv seg by (auto simp: tool_inv_def)
  have world: "tr_world r = seq_world env w k" using s cur by (simp add: sched_inv_def)
  have each: "seq_world env w i = tr_world r \<and> (parallel_call env i \<and> seq_world env w ?k = tr_world r
      \<or> segment_jobs s = [i] \<and> Suc i = ?k)" if "i \<in> set (segment_jobs s)" for i
  proof (cases s)
    case (Serial j)
    then have "segment_jobs s = [j]" by simp
    with jobs that have "j = k" "i = k" by auto
    with Serial world show ?thesis by simp
  next
    case (Batch b)
    have par: "parallel_call env j" if "k \<le> j" "j < ?k" for j
    proof -
      have "j \<in> set b" using that jobs Batch by (metis atLeastLessThan_iff segment_jobs.simps(2) set_upt)
      then show ?thesis
        using segments_batch [of b _ 0 "en_calls env" "[]" j] mem Batch
        by (auto simp: all_segments_def parallel_call_def)
    qed
    have i: "k \<le> i" "i < ?k" using that jobs by (metis atLeastLessThan_iff set_upt)+
    have "seq_world env w i = seq_world env w k" by (rule seq_world_batch [OF ro k par]) (use i in simp_all)
    moreover have "seq_world env w ?k = seq_world env w k" by (rule seq_world_batch [OF ro k par]) simp_all
    ultimately show ?thesis unfolding world using par [OF i] by simp
  qed
  have js: "set (segment_jobs s) = {k..<?k}" using jobs by (metis set_upt)
  have "sched_inv env w ?k ?r"
    unfolding sched_inv_def
  proof (intro conjI)
    show "rest ?r = [?k..<?n]" using rst by (simp add: rest_def)
    show "set (current ?r) \<subseteq> {..<?k}" unfolding cur(2) js by auto
    show "current ?r = [] \<longrightarrow> tr_world ?r = seq_world env w ?k"
      using segments_nonempty mem unfolding all_segments_def cur(2) by blast
    show "\<forall>i \<in> set (current ?r). seq_world env w i = tr_world ?r
        \<and> (parallel_call env i \<and> seq_world env w ?k = tr_world ?r \<or> current ?r = [i] \<and> Suc i = ?k)"
      using each unfolding cur(2) by auto
    have "{..<?k} - set (segment_jobs s) = {..<k}" unfolding js by auto
    then show "mset (tr_audit ?r) = (\<Sum>i \<in> {..<?k} - set (current ?r). mset (seq_audit env w i))"
      unfolding cur(2) using s cur(1) by (simp add: sched_inv_def)
    have "\<forall>i < ?k. i \<notin> set (segment_jobs s) \<longrightarrow> i < k" unfolding js by auto
    then show "\<forall>i < ?k. i \<notin> set (current ?r) \<longrightarrow> tr_results ?r ! i = Some (seq_exec env w i)"
      unfolding cur(2) using s cur(1) by (simp add: sched_inv_def)
  qed (use k empty in simp_all)
  then show ?thesis by blast
qed

lemma sched_running:
  assumes inv: "tool_inv env r" and s: "sched_inv env w k r" and keys: "map fst xs = map fst (tr_running r)"
    and dec: "\<And>i d. (i, Some d) \<in> set xs \<Longrightarrow>
      d = decide (en_estop env (seq_world env w i)) (en_options env) (en_calls env ! i)"
  shows "sched_inv env w k (r\<lparr>tr_running := xs\<rparr>)"
proof -
  have "current (r\<lparr>tr_running := xs\<rparr>) = current r" using keys by (simp add: current_def)
  with s dec show ?thesis unfolding sched_inv_def by (simp add: rest_def)
qed

lemma sched_check:
  assumes inv: "tool_inv env r" and s: "sched_inv env w k r" and i: "map_of (tr_running r) i = Some None"
  shows "sched_inv env w k (r\<lparr>tr_running := AList.update i (Some (decide_call env i r)) (tr_running r)\<rparr>)"
proof (rule sched_running [OF inv s update_running_keys [OF i]])
  fix j d assume "(j, Some d) \<in> set (AList.update i (Some (decide_call env i r)) (tr_running r))"
  then consider "(j, Some d) \<in> set (tr_running r)" | "j = i" "d = decide_call env i r"
    using set_update_subset [of i "Some (decide_call env i r)" "tr_running r"] by auto
  then show "d = decide (en_estop env (seq_world env w j)) (en_options env) (en_calls env ! j)"
  proof cases
    case 1
    with s show ?thesis by (simp add: sched_inv_def)
  next
    case 2
    have "i \<in> set (current r)" using map_of_keys [OF i] by (simp add: current_def)
    then have "seq_world env w i = tr_world r" using s unfolding sched_inv_def by blast
    with 2 show ?thesis by (simp add: decide_call_def)
  qed
qed

lemma sched_finish:
  assumes inv: "tool_inv env r" and ro: "parallel_read_only env" and s: "sched_inv env w k r"
    and i: "map_of (tr_running r) i = Some (Some d)"
  shows "sched_inv env w k (finish_call env i d r)"
proof -
  let ?r = "finish_call env i d r" and ?n = "length (en_calls env)"
  have cur: "i \<in> set (current r)" using map_of_keys [OF i] by (simp add: current_def)
  have dist: "distinct (current r)" using inv by (simp add: tool_inv_def)
  have k: "k \<le> ?n" "i < k" using s cur by (auto simp: sched_inv_def)
  have world: "tr_world r = seq_world env w i" using s cur unfolding sched_inv_def by simp
  have d: "decide (en_estop env (tr_world r)) (en_options env) (en_calls env ! i) = d"
    using s map_of_SomeD [OF i] unfolding sched_inv_def world by blast
  note fin = finish_run_call [OF d, unfolded world]
  have res: "tr_results ?r = (tr_results r)[i := Some (seq_exec env w i)]"
    and audit: "tr_audit ?r = tr_audit r @ seq_audit env w i"
    and world': "tr_world ?r = seq_world env w (Suc i)"
    by (simp_all add: fin seq_exec_def seq_audit_def)
  have cur': "current ?r = tr_jobs r @ removeAll i (map fst (tr_running r))"
    by (simp add: current_def AList.delete_keys)
  have set': "set (current ?r) = set (current r) - {i}"
    using dist map_of_keys [OF i] unfolding cur' by (auto simp: current_def)
  have mode: "parallel_call env i \<and> seq_world env w k = tr_world r \<or> current r = [i] \<and> Suc i = k"
    using s cur unfolding sched_inv_def by blast
  have same: "tr_world ?r = tr_world r" if "parallel_call env i"
    using run_call_world [OF ro _ that] k unfolding world' world by simp
  have n: "length (tr_results r) = ?n" using inv by (simp add: tool_inv_def)
  show ?thesis
    unfolding sched_inv_def
  proof (intro conjI)
    show "k \<le> ?n" "rest ?r = [k..<?n]" using s by (simp_all add: sched_inv_def rest_def)
    show "set (current ?r) \<subseteq> {..<k}" unfolding set' using s by (auto simp: sched_inv_def)
    show "current ?r = [] \<longrightarrow> tr_world ?r = seq_world env w k" using mode same world' by auto
    show "\<forall>j \<in> set (current ?r). seq_world env w j = tr_world ?r
        \<and> (parallel_call env j \<and> seq_world env w k = tr_world ?r \<or> current ?r = [j] \<and> Suc j = k)"
    proof
      fix j assume j: "j \<in> set (current ?r)"
      then have j': "j \<in> set (current r)" "j \<noteq> i" by (auto simp: set')
      with mode have par: "parallel_call env i" by auto
      have "seq_world env w j = tr_world r \<and> (parallel_call env j \<and> seq_world env w k = tr_world r \<or> current r = [j])"
        using s j' unfolding sched_inv_def by blast
      then show "seq_world env w j = tr_world ?r
        \<and> (parallel_call env j \<and> seq_world env w k = tr_world ?r \<or> current ?r = [j] \<and> Suc j = k)"
        unfolding same [OF par] using j' cur by auto
    qed
    show "\<forall>j d. (j, Some d) \<in> set (tr_running ?r) \<longrightarrow>
        d = decide (en_estop env (seq_world env w j)) (en_options env) (en_calls env ! j)"
      using s by (auto simp: sched_inv_def AList.delete_eq)
    show "\<forall>j < k. j \<notin> set (current ?r) \<longrightarrow> tr_results ?r ! j = Some (seq_exec env w j)"
      unfolding set' res using s k n by (auto simp: sched_inv_def nth_list_update)
    have "{..<k} - set (current ?r) = insert i ({..<k} - set (current r))" unfolding set' using k by auto
    then show "mset (tr_audit ?r) = (\<Sum>j \<in> {..<k} - set (current ?r). mset (seq_audit env w j))"
      unfolding audit using s cur by (simp add: sched_inv_def)
  qed
qed

lemma sched_step:
  assumes "tool_step env (\<lambda>_ _. False) r r'" "tool_inv env r" "parallel_read_only env" "sched_inv env w k r"
  shows "\<exists>k'. sched_inv env w k' r'"
  using assms(1)
proof (cases rule: tool_step.cases)
  case (segment s ss)
  then show ?thesis using sched_segment [OF assms(2-4)] by simp
next
  case (job i js)
  have "current (r\<lparr>tr_jobs := js, tr_running := tr_running r @ [(i, None)]\<rparr>) = js @ map fst (tr_running r) @ [i]"
    by (simp add: current_def)
  moreover have "current r = i # js @ map fst (tr_running r)" using job by (simp add: current_def)
  ultimately have cur: "set (current (r\<lparr>tr_jobs := js, tr_running := tr_running r @ [(i, None)]\<rparr>)) = set (current r)"
    "current r = [j] \<Longrightarrow> current (r\<lparr>tr_jobs := js, tr_running := tr_running r @ [(i, None)]\<rparr>) = [j]"
    "current (r\<lparr>tr_jobs := js, tr_running := tr_running r @ [(i, None)]\<rparr>) \<noteq> []" for j
    by auto
  have "sched_inv env w k r'"
    using assms(4) cur unfolding sched_inv_def job(1) by (auto simp: rest_def)
  then show ?thesis by blast
next
  case (check i)
  then show ?thesis using sched_check [OF assms(2,4)] by blast
next
  case (finish i d)
  then show ?thesis using sched_finish [OF assms(2-4)] by blast
qed simp

lemma sched_reach:
  assumes "(tool_step env (\<lambda>_ _. False))\<^sup>*\<^sup>* (start_run env w) r" "parallel_read_only env"
  shows "\<exists>k. sched_inv env w k r"
  using assms(1)
proof (induction rule: rtranclp_induct)
  case base
  show ?case by (rule exI) (rule sched_start)
next
  case (step r r')
  then obtain k where "sched_inv env w k r" by (elim exE)
  from sched_step [OF step(2) tool_inv_reach [OF step(1)] assms(2) this] show ?case .
qed

section \<open>Lemmas: stopping and results\<close>

lemma work_bound:
  "((tool_step env (\<lambda>_ _. False)) ^^ k) (start_run env w) r \<Longrightarrow> work_left r + k \<le> 4 * length (en_calls env)"
proof (induction k arbitrary: r)
  case 0
  then show ?case using work_at_start [of env w] by simp
next
  case (Suc k)
  then obtain r1 where r1: "((tool_step env (\<lambda>_ _. False)) ^^ k) (start_run env w) r1"
    and st: "tool_step env (\<lambda>_ _. False) r1 r" by auto
  from r1 have "tool_inv env r1" by (meson relpowp_imp_rtranclp tool_inv_reach)
  with step_takes_work [OF st] have "work_left r < work_left r1" by simp
  with Suc.IH [OF r1] show ?case by simp
qed

lemma some_finished_run:
  "\<exists>r. (tool_step env (\<lambda>_ _. False))\<^sup>*\<^sup>* (start_run env w) r \<and> run_finished r"
proof (rule ccontr)
  assume none: "\<not> ?thesis"
  have "\<exists>r. ((tool_step env (\<lambda>_ _. False)) ^^ k) (start_run env w) r" for k
  proof (induction k)
    case 0
    show ?case by auto
  next
    case (Suc k)
    then obtain r where r: "((tool_step env (\<lambda>_ _. False)) ^^ k) (start_run env w) r" by blast
    then have "(tool_step env (\<lambda>_ _. False))\<^sup>*\<^sup>* (start_run env w) r" by (rule relpowp_imp_rtranclp)
    with none tool_inv_reach run_not_stuck obtain r' where "tool_step env (\<lambda>_ _. False) r r'" by metis
    with r show ?case by (meson relpowp_Suc_I)
  qed
  then obtain r where "((tool_step env (\<lambda>_ _. False)) ^^ Suc (4 * length (en_calls env))) (start_run env w) r" by blast
  from work_bound [OF this] show False by simp
qed

lemma finished_all_done:
  assumes "tool_inv env r" "run_finished r" "i < length (en_calls env)"
  shows "\<exists>e. tr_results r ! i = Some e"
proof -
  have "unfinished r = {}"
    using assms(1,2) by (simp add: tool_inv_def run_finished_def current_def rest_def)
  with assms show ?thesis by (fastforce simp: unfinished_def tool_inv_def)
qed

definition results_complete :: "'w tool_env \<Rightarrow> 'w tool_run \<Rightarrow> bool" where
  "results_complete env r \<longleftrightarrow>
     (\<forall>i < length (tr_results r). \<forall>e. tr_results r ! i = Some e \<longrightarrow>
        (\<exists>d res. te_result e = fst (complete (en_registry env) (en_options env) d res)))"

lemma results_complete_reach: "(tool_step env R)\<^sup>*\<^sup>* (start_run env w) r \<Longrightarrow> results_complete env r"
proof (induction rule: rtranclp_induct)
  case base
  show ?case by (simp add: results_complete_def start_run_def)
next
  case (step r r')
  from step(2,3) show ?case
  proof (cases rule: tool_step.cases)
    case (finish i d)
    obtain res where "tr_results r' = (tr_results r)[i := Some \<lparr>te_call = dc_call d,
        te_result = fst (complete (en_registry env) (en_options env) d res)\<rparr>]"
      unfolding finish(1) using that by (simp add: finish_call_def Let_def case_prod_beta)
    with step(3) show ?thesis
      unfolding results_complete_def by (metis length_list_update nth_list_update nth_list_update_neq option.inject tool_execution.select_convs(2))
  qed (simp_all add: results_complete_def)
qed

lemma complete_capped:
  assumes "0 < eo_maxResultChars opts" and res: "res = fst (complete reg opts d res0)"
  shows "TrimSpace (ForLLM res) = [] \<or> int (length (ForLLM res)) \<le> eo_maxResultChars opts"
proof -
  obtain r2 where r: "res = truncateToolResult r2 (eo_maxResultChars opts)"
    using that assms(1) by (simp add: res complete_def Let_def case_prod_beta)
  show ?thesis
  proof (cases "TrimSpace (ForLLM r2) = []")
    case True
    then show ?thesis using assms(1) by (simp add: r truncateToolResult_def Let_def)
  next
    case False
    then show ?thesis using truncateToolResult_bound [OF assms(1)] r by simp
  qed
qed

text \<open>The emergency stop as the executor finds it.\<close>

definition killed :: "'w tool_env \<Rightarrow> 'w \<Rightarrow> bool" where
  "killed env w \<longleftrightarrow>
     (let opts = en_options env; ws = TrimSpace (eo_workspace opts) in
      ec_enabled (eo_estop opts) \<and> ws \<noteq> []
      \<and> (case en_estop env w ws of EstopFile st \<Rightarrow> es_kill_all st | _ \<Rightarrow> False))"

lemma killed_decides:
  "killed env w \<Longrightarrow> dc_result (decide (en_estop env w) (en_options env) tc) \<noteq> None"
  by (auto simp: killed_def Let_def decide_def policy_check_def evaluateEstop_def loadEstopState_def
      split: prod.splits option.splits estop_file.splits)

lemma killed_run:
  assumes "(tool_step env R)\<^sup>*\<^sup>* (start_run env w) r" "killed env w" "\<And>u v. R u v \<Longrightarrow> killed env u \<Longrightarrow> killed env v"
  shows "killed env (tr_world r) \<and> R\<^sup>*\<^sup>* w (tr_world r)
    \<and> (\<forall>i d. (i, Some d) \<in> set (tr_running r) \<longrightarrow> dc_result d \<noteq> None)"
  using assms(1)
proof (induction rule: rtranclp_induct)
  case base
  show ?case using assms(2) by (simp add: start_run_def)
next
  case (step r r')
  from step(2,3) show ?case
  proof (cases rule: tool_step.cases)
    case (check i)
    have "killed env (tr_world r)" using step(3) by (rule conjunct1)
    then have "dc_result (decide_call env i r) \<noteq> None" unfolding decide_call_def by (rule killed_decides)
    with step(3) show ?thesis
      unfolding check(1) using set_update_subset [of i "Some (decide_call env i r)" "tr_running r"] by fastforce
  next
    case (finish i d)
    then obtain res where "dc_result d = Some res" using step(3) map_of_SomeD by fastforce
    then have "tr_world r' = tr_world r" "set (tr_running r') \<subseteq> set (tr_running r)"
      unfolding finish(1) by (auto simp: finish_call_def perform_decided Let_def AList.delete_eq)
    with step(3) show ?thesis by auto
  next
    case (outside w')
    with step(3) assms(3) show ?thesis by (auto intro: rtranclp.rtrancl_into_rtrancl)
  qed auto
qed

section \<open>Properties\<close>

text \<open>
  Two calls of a tool that reads a number, with the executor's options written out, for the witnesses.
  The world is that number; a negative one stands for an emergency stop.
\<close>

definition reader :: "int tool" where
  "reader = \<lparr>tl_name = ''read_file'', tl_parameters = None, tl_parallel_policy = Some ToolParallelReadOnly,
     tl_concurrent_safe = None, tl_execute = (\<lambda>ctx args w. (Some (NewToolResult (dec_int w)), w)), tl_execute_async = None\<rparr>"

definition example_call :: "string \<Rightarrow> string \<Rightarrow> tool_call" where
  "example_call callID name = \<lparr>tc_id = callID, tc_type = ''function'', tc_function = None, tc_name = name,
     tc_arguments = None, tc_signature = [], tc_extra = None\<rparr>"

definition zero_policy :: tool_policy where
  "zero_policy = \<lparr>tp_enabled = False, tp_allow = [], tp_allow_prefixes = [], tp_deny = [], tp_deny_prefixes = [],
     tp_timeoutMS = 0, tp_confirm = \<lparr>cf_enabled = False, cf_mode = [], cf_tools = [], cf_prefixes = []\<rparr>\<rparr>"

definition example_env :: "bool \<Rightarrow> int tool_env" where
  "example_env par =
     \<lparr>en_registry = Some (Register reader []),
      en_context = \<lparr>cx_channel = [], cx_chatID = [], cx_senderID = [], cx_sessionKey = [], cx_runID = [],
                    cx_isResume = False, cx_callback = False, cx_timeoutMS = None\<rparr>,
      en_options =
        \<lparr>eo_channel = ''cli'', eo_chatID = ''direct'', eo_senderID = [], eo_planMode = False, eo_planTools = [],
         eo_planPrefixes = [], eo_workspace = ''/w'', eo_sessionKey = ''s'', eo_runID = [], eo_isResume = False,
         eo_policy = zero_policy, eo_estop = \<lparr>ec_enabled = True, ec_fail_closed = True\<rparr>, eo_iteration = 1,
         eo_parallel = \<lparr>pc_enabled = par, pc_max = 2, pc_mode = [], pc_overrides = []\<rparr>, eo_maxResultChars = 100,
         eo_template = \<lparr>et_enabled = False, et_include_schema = False, et_include_tools = False, et_max_message = 0,
                        et_max_args = 0, et_max_hints = 0, et_max_tools = 0\<rparr>,
         eo_callback = (\<lambda>_. False), eo_hooks = []\<rparr>,
      en_calls = [example_call ''1'' ''read_file'', example_call ''2'' ''read_file''],
      en_estop = (\<lambda>w ws. if w < 0 then EstopFile \<lparr>es_kill_all = True, es_network_kill = False, es_frozen = [],
                                                    es_frozen_prefixes = []\<rparr> else NoEstopFile)\<rparr>"

lemma example_calls [simp]: "length (en_calls (example_env par)) = 2"
  by (simp add: example_env_def)

lemma example_read_only: "parallel_read_only (example_env par)"
  by (auto simp: parallel_read_only_def example_env_def Register_def reader_def read_only_tool_def split: if_splits)

text \<open>
  C27: The results of a batch stand in the order of the calls, one for each, and carry the ids and names
  the model gave, whatever the goroutines, the hooks and the rest of the process do: exactly when the hooks leave
  them alone, as the default ones do, and otherwise up to white space around them (a hook that
  changes more is answered with an error result for the call as it was).
\<close>

theorem tool_results_in_order:
  assumes "(tool_step env R)\<^sup>*\<^sup>* (start_run env w) r" and "run_finished r"
  shows "length (tr_results r) = length (en_calls env)
    \<and> (\<forall>i < length (en_calls env). \<exists>e. tr_results r ! i = Some e \<and> same_call (te_call e) (en_calls env ! i)
        \<and> ((\<forall>h \<in> set (eo_hooks (en_options env)). faithful_hook h) \<longrightarrow>
             tc_id (te_call e) = tc_id (en_calls env ! i) \<and> tc_name (te_call e) = tc_name (en_calls env ! i)))"
proof -
  have inv: "tool_inv env r" "calls_kept env r"
    using tool_inv_reach [OF assms(1)] calls_kept_reach [OF assms(1)] by blast+
  then have len: "length (tr_results r) = length (en_calls env)" by (simp add: tool_inv_def)
  moreover have "\<exists>e. tr_results r ! i = Some e \<and> kept_call (eo_hooks (en_options env)) (te_call e) (en_calls env ! i)"
    if i: "i < length (en_calls env)" for i
  proof -
    obtain e where e: "tr_results r ! i = Some e" using finished_all_done [OF inv(1) assms(2) i] by blast
    with inv(2) len i have "kept_call (eo_hooks (en_options env)) (te_call e) (en_calls env ! i)" by (simp add: calls_kept_def)
    with e show ?thesis by blast
  qed
  ultimately show ?thesis unfolding kept_call_def by blast
qed

theorem tool_results_in_order_witness:
  "\<exists>r :: int tool_run. run_finished r \<and> length (tr_results r) = 2
     \<and> list_all (\<lambda>i. \<exists>e. tr_results r ! i = Some e \<and> tc_id (te_call e) = tc_id (en_calls (example_env True) ! i)) [0, 1]"
proof -
  obtain r where r: "(tool_step (example_env True) (\<lambda>_ _. False))\<^sup>*\<^sup>* (start_run (example_env True) 7) r" "run_finished r"
    using some_finished_run [of "example_env True" 7] by blast
  have "eo_hooks (en_options (example_env True)) = []" by (simp add: example_env_def)
  then have t: "length (tr_results r) = 2"
    "\<forall>i < length (en_calls (example_env True)). \<exists>e. tr_results r ! i = Some e \<and> tc_id (te_call e) = tc_id (en_calls (example_env True) ! i)"
    using tool_results_in_order [OF r] by auto
  have "list_all (\<lambda>i. \<exists>e. tr_results r ! i = Some e \<and> tc_id (te_call e) = tc_id (en_calls (example_env True) ! i)) [0, 1]"
    using t(2) [rule_format, of 0] t(2) [rule_format, of 1] by simp
  then show ?thesis using t(1) r(2) by blast
qed

text \<open>
  C37: A batch ends: its executor takes at most four steps per call, and as long as it is not done it can
  take one, so no order of the goroutines blocks it.
\<close>

theorem tool_batch_terminates:
  assumes "((tool_step env (\<lambda>_ _. False)) ^^ k) (start_run env w) r"
  shows "k \<le> 4 * length (en_calls env) \<and> (run_finished r \<or> (\<exists>r'. tool_step env (\<lambda>_ _. False) r r'))"
proof -
  have "(tool_step env (\<lambda>_ _. False))\<^sup>*\<^sup>* (start_run env w) r" using assms by (rule relpowp_imp_rtranclp)
  then have "tool_inv env r" by (rule tool_inv_reach)
  with run_not_stuck work_bound [OF assms] show ?thesis by fastforce
qed

theorem tool_batch_terminates_witness:
  "\<exists>r'. tool_step (example_env True) (\<lambda>_ _. False) (start_run (example_env True) 7) r'"
proof -
  have start: "((tool_step (example_env True) (\<lambda>_ _. False)) ^^ 0) (start_run (example_env True) 7) (start_run (example_env True) 7)"
    by simp
  have "tr_results (start_run (example_env True) 7) = [None, None]"
    by (simp add: start_run_def numeral_2_eq_2)
  then have "\<not> run_finished (start_run (example_env True) 7)"
    using finished_all_done [OF tool_inv_start, of "example_env True" 7 0] by auto
  with tool_batch_terminates [OF start] show ?thesis by simp
qed

text \<open>
  A call that may not run in parallel runs alone, and no more goroutines run at a time than the
  configuration allows.
\<close>

theorem serial_call_runs_alone:
  assumes "(tool_step env R)\<^sup>*\<^sup>* (start_run env w) r" and "i \<in> fst ` set (tr_running r)"
    and "0 < pc_max (eo_parallel (en_options env))"
  shows "int (length (tr_running r)) \<le> pc_max (eo_parallel (en_options env))
    \<and> (parallel_call env i \<or> map fst (tr_running r) = [i])"
proof -
  let ?cfg = "eo_parallel (en_options env)"
  have inv: "tool_inv env r" using assms(1) by (rule tool_inv_reach)
  have i: "i \<in> set (current r)" using assms(2) by (simp add: current_def)
  then have "current r \<noteq> []" by auto
  then obtain s where "tr_workers r = workers ?cfg s" using inv by (auto simp: tool_inv_def)
  moreover have "int (workers ?cfg s) \<le> pc_max ?cfg" using assms(3) by (cases s) auto
  moreover have "length (tr_running r) \<le> tr_workers r" using inv by (simp add: tool_inv_def)
  ultimately have "int (length (tr_running r)) \<le> pc_max ?cfg" by simp
  moreover have "map fst (tr_running r) = [i]" if "\<not> parallel_call env i"
    using serial_alone [OF inv i that] assms(2) by (auto simp: current_def append_eq_Cons_conv)
  ultimately show ?thesis by blast
qed

definition serial_start :: "int tool_run" where
  "serial_start = (start_run (example_env False) 7)
     \<lparr>tr_segments := [Serial 1], tr_jobs := [], tr_workers := 1, tr_running := [(0, None)]\<rparr>"

lemma serial_start_reached: "(tool_step (example_env False) (\<lambda>_ _. False))\<^sup>*\<^sup>* (start_run (example_env False) 7) serial_start"
proof -
  let ?env = "example_env False" and ?s = "start_run (example_env False) (7 :: int)"
  have segs: "tr_segments ?s = [Serial 0, Serial 1]"
    by (simp add: start_run_def example_env_def shouldParallelize_def)
  let ?r = "?s\<lparr>tr_segments := [Serial 1], tr_jobs := segment_jobs (Serial 0),
      tr_workers := workers (eo_parallel (en_options ?env)) (Serial 0)\<rparr>"
  have "tool_step ?env (\<lambda>_ _. False) ?s ?r"
    by (rule tool_step.segment) (simp_all add: segs, simp_all add: start_run_def)
  moreover have "tool_step ?env (\<lambda>_ _. False) ?r (?r\<lparr>tr_jobs := [], tr_running := tr_running ?r @ [(0, None)]\<rparr>)"
    by (rule tool_step.job) (simp_all add: start_run_def)
  moreover have "?r\<lparr>tr_jobs := [], tr_running := tr_running ?r @ [(0, None)]\<rparr> = serial_start"
    by (simp add: serial_start_def start_run_def)
  ultimately show ?thesis by (metis (no_types) converse_rtranclp_into_rtranclp rtranclp.rtrancl_refl)
qed

theorem serial_call_runs_alone_witness:
  "map fst (tr_running serial_start) = [0] \<and> \<not> parallel_call (example_env False) 0"
proof -
  have n: "\<not> parallel_call (example_env False) 0"
    by (simp add: parallel_call_def shouldParallelize_def example_env_def)
  have "0 \<in> fst ` set (tr_running serial_start)" "0 < pc_max (eo_parallel (en_options (example_env False)))"
    by (simp_all add: serial_start_def example_env_def)
  from serial_call_runs_alone [OF serial_start_reached this] n show ?thesis by blast
qed

text \<open>
  C5: When the tools that may run in parallel only read, the schedule does not matter: every run of the
  batch ends with the results and the world of the calls made one after the other, and with the same
  audit records in some order.
\<close>

theorem schedule_independent:
  assumes "parallel_read_only env"
    and "(tool_step env (\<lambda>_ _. False))\<^sup>*\<^sup>* (start_run env w) r" and "run_finished r"
  shows "tr_results r = fst (ExecuteToolCalls env w)
    \<and> mset (tr_audit r) = mset (fst (snd (ExecuteToolCalls env w)))
    \<and> tr_world r = snd (snd (ExecuteToolCalls env w))"
proof -
  let ?n = "length (en_calls env)"
  obtain k where s: "sched_inv env w k r" using sched_reach [OF assms(2,1)] by (elim exE)
  have cur: "current r = []" and "rest r = []" using assms(3) by (simp_all add: run_finished_def current_def rest_def)
  then have "[k..<?n] = []" "k \<le> ?n" using s by (simp_all add: sched_inv_def del: upt_eq_Nil_conv)
  then have k: "k = ?n" by auto
  have "length (tr_results r) = ?n" using tool_inv_reach [OF assms(2)] by (simp add: tool_inv_def)
  then have "tr_results r = map (Some \<circ> seq_exec env w) [0..<?n]"
    using s cur k by (intro nth_equalityI) (auto simp: sched_inv_def)
  moreover have "mset (concat (map (seq_audit env w) [0..<m])) = (\<Sum>i<m. mset (seq_audit env w i))" for m
    by (induction m) auto
  then have "mset (tr_audit r) = mset (concat (map (seq_audit env w) [0..<?n]))"
    using s cur k by (simp add: sched_inv_def)
  moreover have "tr_world r = seq_world env w ?n" using s cur k by (simp add: sched_inv_def)
  ultimately show ?thesis by (simp add: ExecuteToolCalls_seq)
qed

theorem schedule_independent_witness:
  "\<exists>r :: int tool_run. run_finished r \<and> tr_results r = fst (ExecuteToolCalls (example_env True) 7)"
proof -
  obtain r where r: "(tool_step (example_env True) (\<lambda>_ _. False))\<^sup>*\<^sup>* (start_run (example_env True) 7) r" "run_finished r"
    using some_finished_run [of "example_env True" 7] by blast
  from schedule_independent [OF example_read_only r] r(2) show ?thesis by blast
qed

text \<open>
  C15: Once the emergency stop says kill_all, no call of a batch runs a tool: the outside world changes
  only by what others do to it.
\<close>

theorem kill_all_stops_tools:
  assumes "(tool_step env R)\<^sup>*\<^sup>* (start_run env w) r" and "killed env w"
    and "\<And>u v. R u v \<Longrightarrow> killed env u \<Longrightarrow> killed env v"
  shows "R\<^sup>*\<^sup>* w (tr_world r)"
proof -
  have "killed env (tr_world r) \<and> R\<^sup>*\<^sup>* w (tr_world r)
      \<and> (\<forall>i d. (i, Some d) \<in> set (tr_running r) \<longrightarrow> dc_result d \<noteq> None)"
    by (rule killed_run [OF assms(1,2)]) (rule assms(3))
  then show ?thesis by (elim conjE)
qed

theorem kill_all_stops_tools_witness:
  "\<exists>r :: int tool_run. (tool_step (example_env True) (\<lambda>_ _. False))\<^sup>*\<^sup>* (start_run (example_env True) (- 1)) r
     \<and> run_finished r \<and> tr_world r = - 1"
proof -
  obtain r where r: "(tool_step (example_env True) (\<lambda>_ _. False))\<^sup>*\<^sup>* (start_run (example_env True) (- 1)) r" "run_finished r"
    using some_finished_run [of "example_env True" "- 1"] by blast
  have "killed (example_env True) (- 1)"
    by (simp add: killed_def example_env_def TrimSpace_def TrimLeft_def TrimRight_def is_space_def byte_of_def)
  from kill_all_stops_tools [OF r(1) this] have "(\<lambda>_ _. False)\<^sup>*\<^sup>* (- 1) (tr_world r)" by simp
  then have "tr_world r = - 1" by (cases rule: rtranclp.cases) auto
  with r show ?thesis by blast
qed

text \<open>No result is longer than the limit of the run, unless it is blank.\<close>

theorem tool_results_capped:
  assumes "(tool_step env R)\<^sup>*\<^sup>* (start_run env w) r" and "0 < eo_maxResultChars (en_options env)"
    and "i < length (tr_results r)" and "tr_results r ! i = Some e"
  shows "TrimSpace (ForLLM (te_result e)) = [] \<or> int (length (ForLLM (te_result e))) \<le> eo_maxResultChars (en_options env)"
proof -
  from results_complete_reach [OF assms(1)] assms(3,4) obtain d res
    where "te_result e = fst (complete (en_registry env) (en_options env) d res)"
    unfolding results_complete_def by blast
  with complete_capped [OF assms(2)] show ?thesis by blast
qed

theorem tool_results_capped_witness:
  "\<exists>(r :: int tool_run) e. tr_results r ! 0 = Some e
     \<and> (TrimSpace (ForLLM (te_result e)) = [] \<or> int (length (ForLLM (te_result e))) \<le> eo_maxResultChars (en_options (example_env True)))"
proof -
  obtain r where r: "(tool_step (example_env True) (\<lambda>_ _. False))\<^sup>*\<^sup>* (start_run (example_env True) 7) r" "run_finished r"
    using some_finished_run [of "example_env True" 7] by blast
  have inv: "tool_inv (example_env True) r" using r(1) by (rule tool_inv_reach)
  from finished_all_done [OF inv r(2), of 0] obtain e where e: "tr_results r ! 0 = Some e" by auto
  have "0 < length (tr_results r)" using inv by (simp add: tool_inv_def)
  moreover have "0 < eo_maxResultChars (en_options (example_env True))" by (simp add: example_env_def)
  ultimately show ?thesis using tool_results_capped [OF r(1) _ _ e] e by (intro exI [of _ r] exI [of _ e] conjI) simp_all
qed

end
