(* ===== verification/ToolLoop.thy ===== *)
theory ToolLoop
  imports ToolExec
begin

text \<open>
  The tool calls of a model answer as the agent sees them: their normal form
  (\<^verbatim>\<open>pkg/providers/toolcall_utils.go\<close>), the record of the recent ones and the detection of a model that
  repeats itself (\<^verbatim>\<open>pkg/agent/loop_tools.go\<close>, \<^verbatim>\<open>detectToolCallLoop\<close> of \<^verbatim>\<open>loop.go\<close>), and the options the
  agent runs its tools with.
\<close>

section \<open>Normal form\<close>

text \<open>\<open>parse\<close> decodes the arguments of a function call into a map; \<open>None\<close> is an error or \<^verbatim>\<open>null\<close>.\<close>

definition call_arguments :: "(string \<Rightarrow> (string \<times> jval) list option) \<Rightarrow> tool_call \<Rightarrow> (string \<times> jval) list" where
  "call_arguments parse tc =
     (let args = (case tc_arguments tc of Some kvs \<Rightarrow> kvs | None \<Rightarrow> []) in
      case tc_function tc of
        Some f \<Rightarrow> if args = [] \<and> fn_arguments f \<noteq> []
                  then (case parse (fn_arguments f) of Some kvs \<Rightarrow> kvs | None \<Rightarrow> args) else args
      | None \<Rightarrow> args)"

definition NormalizeToolCall :: "(string \<Rightarrow> (string \<times> jval) list option) \<Rightarrow> tool_call \<Rightarrow> tool_call" where
  "NormalizeToolCall parse tc =
     (let name1 = (case tc_function tc of Some f \<Rightarrow> if tc_name tc = [] then fn_name f else tc_name tc | None \<Rightarrow> tc_name tc);
          args = call_arguments parse tc;
          json = marshal_args (Some args) in
      case tc_function tc of
        None \<Rightarrow> tc\<lparr>tc_name := name1, tc_arguments := Some args,
                   tc_function := Some \<lparr>fn_name = name1, fn_arguments = json, fn_signature = []\<rparr>\<rparr>
      | Some f \<Rightarrow>
          let fname = (if fn_name f = [] then name1 else fn_name f);
              name2 = (if name1 = [] then fname else name1);
              fargs = (if fn_arguments f = [] then json else fn_arguments f)
          in tc\<lparr>tc_name := name2, tc_arguments := Some args,
                tc_function := Some (f\<lparr>fn_name := fname, fn_arguments := fargs\<rparr>)\<rparr>)"

definition normalizeToolCalls :: "(string \<Rightarrow> (string \<times> jval) list option) \<Rightarrow> tool_call list \<Rightarrow> tool_call list" where
  "normalizeToolCalls parse tcs = map (NormalizeToolCall parse) tcs"

section \<open>Recent calls\<close>

record call_signature =
  sg_name :: string
  sg_args :: string
  sg_result :: string

definition go_bool :: "bool \<Rightarrow> string" where
  "go_bool b = (if b then ''true'' else ''false'')"

definition toolResultFingerprint :: "tool_result \<Rightarrow> string" where
  "toolResultFingerprint res =
     (let err = (case Err res of Some e \<Rightarrow> TruncateHeadTail (TrimSpace e) 120 40 | None \<Rightarrow> []) in
      ''is_error='' @ go_bool (IsError res) @ ''|async='' @ go_bool (Async res)
      @ ''|llm='' @ TruncateHeadTail (TrimSpace (ForLLM res)) 160 50
      @ ''|user='' @ TruncateHeadTail (TrimSpace (ForUser res)) 120 40
      @ ''|err='' @ err @ ''|media='' @ Join (Media res) '','')"

definition signature_of :: "tool_execution \<Rightarrow> call_signature" where
  "signature_of x = \<lparr>sg_name = tc_name (te_call x), sg_args = marshal_args (tc_arguments (te_call x)),
     sg_result = toolResultFingerprint (te_result x)\<rparr>"

definition maxRecentToolCalls :: nat where "maxRecentToolCalls = 24"

definition recordRecentToolCalls :: "tool_execution list \<Rightarrow> call_signature list \<Rightarrow> call_signature list" where
  "recordRecentToolCalls xs recent =
     (let all = recent @ map signature_of xs
      in if length all > maxRecentToolCalls then drop (length all - maxRecentToolCalls) all else all)"

text \<open>The inner loop, over the recent calls from the newest on.\<close>

fun repeats :: "string \<Rightarrow> string \<Rightarrow> string \<Rightarrow> call_signature list \<Rightarrow> nat" where
  "repeats name sig res [] = 0"
| "repeats name sig res (prev # older) =
     (if sg_name prev \<noteq> name \<or> sg_args prev \<noteq> sig then 0
      else let res' = (if res = [] then sg_result prev else res) in
        if sg_result prev \<noteq> res' then 0 else Suc (repeats name sig res' older))"

fun detectToolCallLoop :: "call_signature list \<Rightarrow> tool_call list \<Rightarrow> nat \<Rightarrow> string" where
  "detectToolCallLoop recent [] threshold = []"
| "detectToolCallLoop recent (tc # tcs) threshold =
     (if threshold \<le> repeats (tc_name tc) (marshal_args (tc_arguments tc)) [] (rev recent)
      then tc_name tc else detectToolCallLoop recent tcs threshold)"

section \<open>The options of a run\<close>

text \<open>
  What \<^verbatim>\<open>executeToolCalls\<close> passes on; the fields it leaves out have their zero values.  The callback is
  never nil.
\<close>

record tool_config =
  tg_parallel :: parallel_config
  tg_template_enabled :: bool
  tg_template_schema :: bool
  tg_hooks :: "tool_hook list"

definition run_tool_options ::
  "tool_config \<Rightarrow> string \<Rightarrow> string \<Rightarrow> string \<Rightarrow> string \<Rightarrow> string \<Rightarrow> string \<Rightarrow> bool \<Rightarrow> int \<Rightarrow> int \<Rightarrow> exec_options" where
  "run_tool_options cfg channel chatID senderID ws key runID isResume iteration maxChars =
     \<lparr>eo_channel = channel, eo_chatID = chatID, eo_senderID = senderID, eo_planMode = False, eo_planTools = [],
      eo_planPrefixes = [], eo_workspace = ws, eo_sessionKey = key, eo_runID = runID, eo_isResume = isResume,
      eo_policy = zero_policy, eo_estop = \<lparr>ec_enabled = False, ec_fail_closed = False\<rparr>, eo_iteration = iteration,
      eo_parallel = tg_parallel cfg, eo_maxResultChars = maxChars,
      eo_template = \<lparr>et_enabled = tg_template_enabled cfg, et_include_schema = tg_template_schema cfg,
                     et_include_tools = True, et_max_message = 0, et_max_args = 0, et_max_hints = 0, et_max_tools = 0\<rparr>,
      eo_callback = (\<lambda>_. True), eo_hooks = tg_hooks cfg\<rparr>"

section \<open>Lemmas\<close>

lemma fingerprint_nonempty [simp]: "toolResultFingerprint res \<noteq> []"
  by (simp add: toolResultFingerprint_def Let_def)

lemma repeats_same:
  "res \<noteq> [] \<Longrightarrow> n \<le> repeats name sig res xs \<longleftrightarrow>
     n \<le> length xs \<and> (\<forall>p \<in> set (take n xs). sg_name p = name \<and> sg_args p = sig \<and> sg_result p = res)"
proof (induction xs arbitrary: n)
  case Nil
  then show ?case by auto
next
  case (Cons x xs)
  then show ?case by (cases n) (auto simp: Let_def)
qed

text \<open>The newest \<open>n\<close> recorded calls repeat the call and its result.\<close>

definition same_again :: "nat \<Rightarrow> tool_call \<Rightarrow> call_signature list \<Rightarrow> bool" where
  "same_again n tc recent \<longleftrightarrow>
     n \<le> length recent
     \<and> (\<exists>r. \<forall>p \<in> set (drop (length recent - n) recent).
          p = \<lparr>sg_name = tc_name tc, sg_args = marshal_args (tc_arguments tc), sg_result = r\<rparr>)"

lemma repeats_iff:
  assumes "\<forall>p \<in> set recent. sg_result p \<noteq> []" "0 < n"
  shows "n \<le> repeats (tc_name tc) (marshal_args (tc_arguments tc)) [] (rev recent) \<longleftrightarrow> same_again n tc recent"
proof (cases "rev recent")
  case Nil
  with assms show ?thesis by (simp add: same_again_def)
next
  case (Cons x older)
  obtain m where n: "n = Suc m" using assms(2) by (cases n) auto
  have x: "sg_result x \<noteq> []" using assms(1) Cons by (metis list.set_intros(1) set_rev)
  have len: "length recent = Suc (length older)" using arg_cong [OF Cons, of length] by simp
  have set_take: "set (take n (rev recent)) = set (drop (length recent - n) recent)"
    by (simp add: take_rev)
  have "n \<le> repeats (tc_name tc) (marshal_args (tc_arguments tc)) [] (rev recent) \<longleftrightarrow>
      n \<le> length recent \<and> (\<forall>p \<in> set (take n (rev recent)). sg_name p = tc_name tc
        \<and> sg_args p = marshal_args (tc_arguments tc) \<and> sg_result p = sg_result x)"
    using x len repeats_same [OF x, of m "tc_name tc" "marshal_args (tc_arguments tc)" older]
    by (auto simp: Cons n Let_def)
  also have "\<dots> \<longleftrightarrow> same_again n tc recent"
  proof -
    have mem: "x \<in> set (drop (length recent - n) recent)" unfolding set_take [symmetric] by (simp add: Cons n)
    have eq: "p = \<lparr>sg_name = a, sg_args = b, sg_result = c\<rparr> \<longleftrightarrow> sg_name p = a \<and> sg_args p = b \<and> sg_result p = c"
      for p :: call_signature and a b c by (cases p) auto
    show ?thesis unfolding same_again_def set_take eq using mem by (intro conj_cong refl iffI) metis+
  qed
  finally show ?thesis .
qed

lemma detect_first:
  assumes "\<forall>p \<in> set recent. sg_result p \<noteq> []" "0 < n"
  shows "detectToolCallLoop recent tcs n =
     (case List.find (\<lambda>tc. same_again n tc recent) tcs of Some tc \<Rightarrow> tc_name tc | None \<Rightarrow> [])"
  by (induction tcs) (auto simp: repeats_iff [OF assms])

lemma recent_fingerprints:
  "\<forall>p \<in> set recent. sg_result p \<noteq> [] \<Longrightarrow> \<forall>p \<in> set (recordRecentToolCalls xs recent). sg_result p \<noteq> []"
  by (auto simp: recordRecentToolCalls_def Let_def signature_of_def dest!: in_set_dropD)

lemma recent_bound: "length (recordRecentToolCalls xs recent) \<le> maxRecentToolCalls"
  by (auto simp: recordRecentToolCalls_def Let_def)

section \<open>Properties\<close>

text \<open>
  A loop is reported exactly when the newest three recorded calls are one of the calls of the answer,
  with the same arguments and the same result; the first such call of the answer is named.
\<close>

theorem loop_detection_exact:
  assumes "\<forall>p \<in> set recent. sg_result p \<noteq> []"
  shows "detectToolCallLoop recent tcs 3 =
     (case List.find (\<lambda>tc. same_again 3 tc recent) tcs of Some tc \<Rightarrow> tc_name tc | None \<Rightarrow> [])"
  by (rule detect_first [OF assms]) simp

definition example_execution :: "string \<Rightarrow> tool_execution" where
  "example_execution name = \<lparr>te_call = example_call ''1'' name, te_result = NewToolResult ''ok''\<rparr>"

definition example_recent :: "string list \<Rightarrow> call_signature list" where
  "example_recent names = recordRecentToolCalls (map example_execution names) []"

lemma example_recent_results: "\<forall>p \<in> set (example_recent names). sg_result p \<noteq> []"
  unfolding example_recent_def by (rule recent_fingerprints) simp

theorem loop_detection_exact_witness:
  "detectToolCallLoop (example_recent [''exec'', ''exec'', ''exec'']) [example_call ''2'' ''read'', example_call ''3'' ''exec''] 3
     = ''exec''"
  using loop_detection_exact [OF example_recent_results, of "[''exec'', ''exec'', ''exec'']"
      "[example_call ''2'' ''read'', example_call ''3'' ''exec'']"]
  by (simp add: same_again_def example_recent_def recordRecentToolCalls_def maxRecentToolCalls_def
      example_execution_def signature_of_def example_call_def)

text \<open>The records after some rounds of the same calls with the same results.\<close>

fun record_rounds :: "nat \<Rightarrow> tool_execution list \<Rightarrow> call_signature list" where
  "record_rounds 0 xs = []"
| "record_rounds (Suc k) xs = recordRecentToolCalls xs (record_rounds k xs)"

lemma last_two: "same_again 3 tc recent \<Longrightarrow> recent = older @ [p, q] \<Longrightarrow>
   sg_name p = tc_name tc \<and> sg_args p = marshal_args (tc_arguments tc)
   \<and> sg_name q = tc_name tc \<and> sg_args q = marshal_args (tc_arguments tc)"
  by (auto simp: same_again_def)

lemma record_rounds_end:
  "\<exists>older. record_rounds (Suc k) [a, b] = older @ [signature_of a, signature_of b]"
proof -
  have "\<exists>older. recordRecentToolCalls [a, b] recent = older @ [signature_of a, signature_of b]" for recent
    by (auto simp: recordRecentToolCalls_def Let_def maxRecentToolCalls_def)
  then show ?thesis by simp
qed

text \<open>
  A model that repeats the same two calls in every answer is never reported, however often it does and
  whatever the results are: the newest record is always that of the other call.
\<close>

theorem repeated_pair_not_detected:
  assumes "tc_name (te_call a) \<noteq> tc_name (te_call b)"
  shows "detectToolCallLoop (record_rounds k [a, b]) [te_call a, te_call b] 3 = []"
proof (cases k)
  case 0
  then show ?thesis by simp
next
  case (Suc k')
  have res: "\<forall>p \<in> set (record_rounds k [a, b]). sg_result p \<noteq> []"
    by (induction k) (simp_all add: recent_fingerprints)
  obtain older where "record_rounds k [a, b] = older @ [signature_of a, signature_of b]"
    using record_rounds_end Suc by blast
  then have "\<not> same_again 3 tc (record_rounds k [a, b])" for tc
    using assms last_two [of tc] by (fastforce simp: signature_of_def)
  then show ?thesis
    unfolding detect_first [OF res zero_less_numeral] by simp
qed

theorem repeated_pair_not_detected_witness:
  "detectToolCallLoop (record_rounds 100 [example_execution ''exec'', example_execution ''read''])
     [example_call ''1'' ''exec'', example_call ''1'' ''read''] 3 = []"
  using repeated_pair_not_detected [of "example_execution ''exec''" "example_execution ''read''" 100]
  by (simp add: example_execution_def example_call_def)

text \<open>
  The options of an agent run carry neither plan mode nor the tool policy nor the emergency stop: every
  call that the hooks let through is allowed, whatever the configuration and the stop file say.
\<close>

theorem agent_runs_unguarded:
  "policy_check rd (run_tool_options cfg channel chatID senderID ws key runID isResume iteration maxChars) name = None"
  by (simp add: policy_check_def run_tool_options_def evaluateEstop_def zero_policy_def)

end
