(* ===== verification/AgentRun.thy ===== *)
theory AgentRun
  imports Compaction ModelDowngrade SessionStore ToolLoop
begin

text \<open>
  One run of an agent: \<^verbatim>\<open>pkg/agent/loop.go\<close> from \<^verbatim>\<open>newLLMIterationRunner\<close> on, \<^verbatim>\<open>loop_tools.go\<close>,
  \<^verbatim>\<open>loop_errors.go\<close>, \<^verbatim>\<open>runAgentLoopImpl\<close> with the steps before and after the loop
  (\<^verbatim>\<open>run_pipeline_impl.go\<close>, \<^verbatim>\<open>pipeline_helpers.go\<close>, \<^verbatim>\<open>pipeline_notify.go\<close>).  The run threads its state
  through every operation; what comes from outside is in \<open>run_env\<close>, indexed by the iteration and the
  retry that ask for it: the answers of the provider and of the fallback chain, the steering messages that
  wait when an answer has come, the clock, the outcome of each operation of the session manager
  (\<open>re_worlds\<close>, counted by \<open>st_tick\<close>), the tools.  The requests the run sends to providers are kept in
  \<open>st_requests\<close>, one for each candidate asked (those that write summaries and memories are not).
  The working state, the trace, token prices, logging and the notice after an internal run are left out.
\<close>

section \<open>Errors of a call\<close>

datatype llm_error = Direct go_error | FromChain fallback_error | Unreachable

text \<open>A duration rounded to milliseconds, as \<^verbatim>\<open>%s\<close> shows it.\<close>

definition trim_zeros :: "string \<Rightarrow> string" where
  "trim_zeros s = rev (dropWhile (\<lambda>c. c = CHR ''0'') (rev s))"

definition millis_text :: "duration \<Rightarrow> string" where
  "millis_text d =
     (let ms = round_to d nsMillisecond div nsMillisecond; s = ms div 1000; f = ms mod 1000;
          frac = (if f = 0 then [] else ''.'' @ trim_zeros (drop 1 (dec_int (1000 + f)))) in
      if ms = 0 then ''0s'' else if ms < 1000 then dec_int ms @ ''ms''
      else (if s \<ge> 3600 then dec_int (s div 3600) @ ''h'' else [])
         @ (if s \<ge> 60 then dec_int ((s div 60) mod 60) @ ''m'' else [])
         @ dec_int (s mod 60) @ frac @ ''s'')"

definition failover_text :: "failover_error \<Rightarrow> string" where
  "failover_text e = ''failover('' @ reason_text (fe_reason e) @ ''): provider='' @ fe_provider e @ '' model='' @ fe_model e
     @ '' status='' @ dec_int (fe_status e) @ '': '' @ error_text (fe_wrapped e)"

fun attempt_error_text :: "attempt_error \<Rightarrow> string" where
  "attempt_error_text (DetailError s) = s"
| "attempt_error_text (RawError e) = error_text e"
| "attempt_error_text (Failover f) = failover_text f"

definition attempt_text :: "nat \<Rightarrow> fallback_attempt \<Rightarrow> string" where
  "attempt_text i a =
     newline @ ''  ['' @ dec_nat (Suc i) @ ''] '' @ fa_provider a @ ''/'' @ fa_model a @ '': ''
     @ (if fa_skipped a then ''skipped ('' @ attempt_error_text (fa_error a) @ '')''
        else attempt_error_text (fa_error a) @ '' (reason=''
          @ (case fa_reason a of Some r \<Rightarrow> reason_text r | None \<Rightarrow> []) @ '', '' @ millis_text (fa_duration a) @ '')'')"

fun chain_error_text :: "fallback_error \<Rightarrow> string" where
  "chain_error_text NoCandidates = ''fallback: no candidates configured''"
| "chain_error_text ChainCanceled = error_text Canceled"
| "chain_error_text (Unclassified p m e) = ''fallback: unclassified error from '' @ p @ ''/'' @ m @ '': '' @ error_text e"
| "chain_error_text (NonRetriable f) = failover_text f"
| "chain_error_text (Exhausted as) =
     ''fallback: all '' @ dec_nat (length as) @ '' candidates failed:'' @ concat (map2 attempt_text [0..<length as] as)"

fun llm_error_text :: "llm_error \<Rightarrow> string" where
  "llm_error_text (Direct e) = error_text e"
| "llm_error_text (FromChain e) = chain_error_text e"
| "llm_error_text Unreachable = ''unreachable LLM retry state''"

text \<open>\<^verbatim>\<open>errors.Is(err, context.DeadlineExceeded)\<close>: what the error wraps.\<close>

fun is_deadline :: "llm_error \<Rightarrow> bool" where
  "is_deadline (Direct e) \<longleftrightarrow> e = DeadlineExceeded"
| "is_deadline (FromChain (Unclassified p m e)) \<longleftrightarrow> e = DeadlineExceeded"
| "is_deadline (FromChain (NonRetriable f)) \<longleftrightarrow> fe_wrapped f = DeadlineExceeded"
| "is_deadline _ \<longleftrightarrow> False"

definition isLLMTimeoutError :: "llm_error \<Rightarrow> bool" where
  "isLLMTimeoutError err \<longleftrightarrow>
     is_deadline err
     \<or> (let msg = ToLower (llm_error_text err) in
        Contains msg ''deadline exceeded'' \<or> Contains msg ''client.timeout'' \<or> Contains msg ''timed out''
        \<or> Contains msg ''timeout exceeded'')"

definition isContextWindowError :: "llm_error \<Rightarrow> bool" where
  "isContextWindowError err \<longleftrightarrow>
     \<not> isLLMTimeoutError err
     \<and> (let msg = ToLower (llm_error_text err) in
        list_ex (Contains msg) [''context_length_exceeded'', ''context window'', ''maximum context length'', ''token limit'',
          ''too many tokens'', ''max_tokens'', ''invalidparameter'', ''prompt is too long'', ''request too large''])"

section \<open>The state of a run\<close>

record llm_response =
  lr_content :: string
  lr_reasoningContent :: string
  lr_toolCalls :: "tool_call list"
  lr_usage :: "(int \<times> int) option"      \<comment> \<open>prompt and completion tokens\<close>

record run_agent =
  ag_id :: string
  ag_model :: string
  ag_maxIterations :: int
  ag_candidates :: "fallback_candidate list"
  ag_compaction :: compaction_agent
  ag_settings :: context_settings

record process_options =
  po_sessionKey :: string
  po_channel :: string
  po_chatID :: string
  po_senderID :: string
  po_userMessage :: string
  po_media :: "string list"
  po_defaultResponse :: string
  po_enableSummary :: bool
  po_sendResponse :: bool
  po_noHistory :: bool
  po_planMode :: bool

record outbound =
  ob_channel :: string
  ob_chatID :: string
  ob_content :: string
  ob_media :: "string list"

record llm_request =
  rq_model :: string
  rq_messages :: "message list"

record 'w run_env =
  re_agent :: run_agent
  re_opts :: process_options
  re_downgrade :: downgrade_policy
  re_restricted :: "string list"                      \<comment> \<open>the tools plan mode names\<close>
  re_maxWallTime :: int                               \<comment> \<open>seconds\<close>
  re_maxToolCalls :: int
  re_elapsed :: "nat \<Rightarrow> duration"
  re_chat :: "nat \<Rightarrow> nat \<Rightarrow> message list \<Rightarrow> string \<Rightarrow> go_error + llm_response"
  re_turns :: "nat \<Rightarrow> nat \<Rightarrow> message list \<Rightarrow> nat \<Rightarrow> llm_response turn"
  re_steering :: "nat \<Rightarrow> string list"                \<comment> \<open>what waits in the inbox; none without one\<close>
  re_prompt :: "nat \<Rightarrow> nat \<Rightarrow> prompt_parts"
  re_media :: "(string \<Rightarrow> string option) option"      \<comment> \<open>the file of a media reference as a data URL\<close>
  re_parse :: "string \<Rightarrow> (string \<times> jval) list option"
  re_tools :: "nat \<Rightarrow> tool_call list \<Rightarrow> 'w \<Rightarrow> tool_execution list \<times> 'w"
  re_worlds :: "nat \<Rightarrow> world"
  re_now :: "nat \<Rightarrow> gtime"
  re_llm :: "nat \<Rightarrow> nat \<Rightarrow> llm"                     \<comment> \<open>the provider during a compaction\<close>
  re_organize :: "string \<Rightarrow> string option"
  re_summarizing :: "string list"                     \<comment> \<open>the background compactions that run\<close>
  re_meanwhile :: "nat \<Rightarrow> nat \<Rightarrow> manager \<Rightarrow> manager" \<comment> \<open>other sessions while a compaction asks the provider\<close>

record 'w run_state =
  st_mg :: manager
  st_messages :: "message list"
  st_model :: string
  st_iteration :: nat
  st_final :: string
  st_recent :: "call_signature list"
  st_used :: int
  st_tokens :: "int \<times> int"
  st_cooldown :: cooldown_tracker
  st_streaks :: downgrade_map
  st_world :: 'w
  st_tick :: nat
  st_out :: "outbound list"
  st_requests :: "llm_request list"
  st_memory :: "string list"

definition IsInternalChannel :: "string \<Rightarrow> bool" where
  "IsInternalChannel channel \<longleftrightarrow> channel \<in> {''cli'', ''system''}"

definition publish :: "'w run_env \<Rightarrow> string \<Rightarrow> string list \<Rightarrow> 'w run_state \<Rightarrow> 'w run_state" where
  "publish env text med st =
     st\<lparr>st_out := st_out st @ [\<lparr>ob_channel = po_channel (re_opts env), ob_chatID = po_chatID (re_opts env),
                               ob_content = text, ob_media = med\<rparr>]\<rparr>"

text \<open>The changes of the session, each with the next outcome of its writes.\<close>

definition addSessionFullMessage :: "'w run_env \<Rightarrow> message \<Rightarrow> 'w run_state \<Rightarrow> 'w run_state" where
  "addSessionFullMessage env msg st =
     (let key = po_sessionKey (re_opts env) in
      if TrimSpace key = [] then st
      else st\<lparr>st_mg := AddFullMessage (re_worlds env (st_tick st)) key msg (st_mg st), st_tick := Suc (st_tick st)\<rparr>)"

definition addSessionMessage :: "'w run_env \<Rightarrow> string \<Rightarrow> string \<Rightarrow> 'w run_state \<Rightarrow> 'w run_state" where
  "addSessionMessage env r text st = addSessionFullMessage env (plain_message r text) st"

definition saveSessionBestEffort :: "'w run_env \<Rightarrow> 'w run_state \<Rightarrow> 'w run_state" where
  "saveSessionBestEffort env st =
     (let key = po_sessionKey (re_opts env) in
      if TrimSpace key = [] then st
      else st\<lparr>st_mg := fst (Save (re_worlds env (st_tick st)) key (st_mg st)), st_tick := Suc (st_tick st)\<rparr>)"

definition addSessionMessageAndSave :: "'w run_env \<Rightarrow> string \<Rightarrow> string \<Rightarrow> 'w run_state \<Rightarrow> 'w run_state" where
  "addSessionMessageAndSave env r text st = saveSessionBestEffort env (addSessionMessage env r text st)"

definition maybe_downgrade :: "'w run_env \<Rightarrow> string \<Rightarrow> 'w run_state \<Rightarrow> 'w run_state" where
  "maybe_downgrade env goal st =
     (case maybeAutoDowngradeSessionModel (re_downgrade env) (re_now env (st_tick st)) (re_worlds env (st_tick st))
             (re_worlds env (Suc (st_tick st))) (po_sessionKey (re_opts env)) (st_model st) goal (st_mg st, st_streaks st) of
        ((mg, sts), changed) \<Rightarrow>
          st\<lparr>st_mg := mg, st_streaks := sts, st_tick := st_tick st + 2,
            st_model := (if changed then goal else st_model st)\<rparr>)"

section \<open>Calling the model\<close>

record call_result =
  cr_response :: llm_response
  cr_model :: string
  cr_attempts :: "fallback_attempt list"

text \<open>
  A model other than the agent's own is asked for directly, from the agent's own provider; otherwise the
  fallback chain runs when there is more than one candidate.
\<close>

definition direct_call :: "'w run_env \<Rightarrow> nat \<Rightarrow> 'w run_state \<Rightarrow> llm_error + call_result" where
  "direct_call env retry st =
     (case re_chat env (st_iteration st) retry (st_messages st) (st_model st) of
        Inl e \<Rightarrow> Inl (Direct e)
      | Inr resp \<Rightarrow> Inr \<lparr>cr_response = resp, cr_model = st_model st, cr_attempts = []\<rparr>)"

text \<open>The models of the candidates that are really asked, in order: those that are not skipped, up to the one that
  answers or ends the chain.\<close>

fun chain_asked :: "cooldown_tracker \<Rightarrow> fallback_candidate list \<Rightarrow> (nat \<Rightarrow> 'r turn) \<Rightarrow> nat \<Rightarrow> string list" where
  "chain_asked ct [] turns i = []"
| "chain_asked ct (c # cs) turns i =
     (case exec_step ct c (turns i) of
        StepSkip a \<Rightarrow> chain_asked ct cs turns (Suc i)
      | StepFail ct' a \<Rightarrow> fc_model c # chain_asked ct' cs turns (Suc i)
      | StepDone ct' resp \<Rightarrow> [fc_model c]
      | StepStop e \<Rightarrow> if tn_canceled_before (turns i) then [] else [fc_model c])"

definition note_requests :: "string list \<Rightarrow> 'w run_state \<Rightarrow> 'w run_state" where
  "note_requests models st =
     st\<lparr>st_requests := st_requests st @ map (\<lambda>m. \<lparr>rq_model = m, rq_messages = st_messages st\<rparr>) models\<rparr>"

definition performLLMCall :: "'w run_env \<Rightarrow> nat \<Rightarrow> 'w run_state \<Rightarrow> 'w run_state \<times> (llm_error + call_result)" where
  "performLLMCall env retry st =
     (let a = re_agent env; am = TrimSpace (ag_model a); asked = note_requests [st_model st] st in
      if am \<noteq> [] \<and> st_model st \<noteq> am then (asked, direct_call env retry asked)
      else if length (ag_candidates a) > 1 then
        (let turns = re_turns env (st_iteration st) retry (st_messages st);
             st1 = note_requests (chain_asked (st_cooldown st) (ag_candidates a) turns 0) st in
         case Execute (st_cooldown st) (ag_candidates a) turns of
           (ct, Inl e) \<Rightarrow> (st1\<lparr>st_cooldown := ct\<rparr>, Inl (FromChain e))
         | (ct, Inr fr) \<Rightarrow> (st1\<lparr>st_cooldown := ct\<rparr>,
             Inr \<lparr>cr_response = fr_response fr, cr_model = TrimSpace (fr_model fr), cr_attempts = fr_attempts fr\<rparr>))
      else (asked, direct_call env retry asked))"

definition too_long_notice :: string where
  "too_long_notice = ''Context window exceeded. Compressing history and retrying...''"

text \<open>The request of a retry, from the compacted session.\<close>

definition rebuild :: "'w run_env \<Rightarrow> nat \<Rightarrow> 'w run_state \<Rightarrow> message list" where
  "rebuild env retry st =
     (let key = po_sessionKey (re_opts env) in
      BuildMessagesForSession (ag_settings (re_agent env)) (re_prompt env (st_iteration st) (Suc retry))
        (GetHistory (st_mg st) key) (GetSummary (st_mg st) key) [] [])"

definition handleContextWindowRetry :: "'w run_env \<Rightarrow> nat \<Rightarrow> 'w run_state \<Rightarrow> 'w run_state \<times> bool" where
  "handleContextWindowRetry env retry st0 =
     (let key = po_sessionKey (re_opts env); ca = ag_compaction (re_agent env); it = st_iteration st0;
          goal = pickFirstDifferentModel (st_model st0) (ag_candidates (re_agent env));
          st1 = (if goal \<noteq> [] then maybe_downgrade env goal st0 else st0);
          st2 = (if retry = 0 \<and> \<not> IsInternalChannel (po_channel (re_opts env)) then publish env too_long_notice [] st1 else st1);
          tick = st_tick st2;
          tokens = estimateTokens (GetHistory (st_mg st2) key) in
      case maybeFlushMemoryBeforeCompaction ca (re_llm env it retry) (re_organize env) (re_meanwhile env it retry)
             (\<lambda>n. re_worlds env (tick + n)) key tokens (st_mg st2) of
        (mg1, written, _) \<Rightarrow>
          (case compactWithSafeguard ca (re_llm env it retry) (re_meanwhile env it (retry + 10))
                  (\<lambda>n. re_worlds env (tick + 2 + n)) key mg1 of
             (mg2, outcome) \<Rightarrow>
               let st3 = st2\<lparr>st_mg := mg2, st_tick := tick + 7,
                             st_memory := st_memory st2 @ (case written of Some t \<Rightarrow> [t] | None \<Rightarrow> [])\<rparr> in
               case outcome of
                 Inl _ \<Rightarrow> (st3, False)
               | Inr False \<Rightarrow> (st3, True)
               | Inr True \<Rightarrow> (st3\<lparr>st_messages := rebuild env retry st3\<rparr>, True)))"

definition maxRetries :: nat where "maxRetries = 2"

fun call_from :: "'w run_env \<Rightarrow> nat \<Rightarrow> nat \<Rightarrow> 'w run_state \<Rightarrow> 'w run_state \<times> (llm_error + call_result)" where
  "call_from env 0 retry st = (st, Inl Unreachable)"
| "call_from env (Suc n) retry st =
     (case performLLMCall env retry st of
        (st1, Inr call) \<Rightarrow> (st1, Inr call)
      | (st1, Inl err) \<Rightarrow>
          if isLLMTimeoutError err \<and> retry < maxRetries then call_from env n (Suc retry) st1
          else if isContextWindowError err \<and> retry < maxRetries then
            (case handleContextWindowRetry env retry st1 of
               (st2, True) \<Rightarrow> call_from env n (Suc retry) st2
             | (st2, False) \<Rightarrow> (st2, Inl err))
          else (st1, Inl err))"

definition callLLMWithRetry :: "'w run_env \<Rightarrow> 'w run_state \<Rightarrow> 'w run_state \<times> (llm_error + call_result)" where
  "callLLMWithRetry env st = call_from env (Suc maxRetries) 0 st"

section \<open>After a call\<close>

definition absorb_one :: "'w run_env \<Rightarrow> string \<Rightarrow> 'w run_state \<Rightarrow> 'w run_state" where
  "absorb_one env text st =
     (let c = TrimSpace text in
      if c = [] then st
      else (addSessionMessageAndSave env ''user'' c st)\<lparr>st_messages := st_messages st @ [plain_message ''user'' c]\<rparr>)"

definition absorbSteeringMessages :: "'w run_env \<Rightarrow> 'w run_state \<Rightarrow> 'w run_state \<times> bool" where
  "absorbSteeringMessages env st =
     (let waiting = re_steering env (st_iteration st) in
      if waiting = [] then (st, False) else (fold (absorb_one env) waiting st, True))"

definition recordTokenUsage :: "llm_response \<Rightarrow> 'w run_state \<Rightarrow> 'w run_state" where
  "recordTokenUsage resp st =
     (case lr_usage resp of None \<Rightarrow> st
      | Some (p, c) \<Rightarrow> st\<lparr>st_tokens := (fst (st_tokens st) + p, snd (st_tokens st) + c)\<rparr>)"

definition used_model :: "call_result \<Rightarrow> 'w run_state \<Rightarrow> string" where
  "used_model call st = (if TrimSpace (cr_model call) = [] then st_model st else TrimSpace (cr_model call))"

definition note_model :: "'w run_env \<Rightarrow> call_result \<Rightarrow> 'w run_state \<Rightarrow> 'w run_state" where
  "note_model env call st =
     (let used = used_model call st; same = EqualFold used (TrimSpace (st_model st));
          st1 = (if cr_attempts call = [] \<and> same
                 then st\<lparr>st_streaks := clearModelAutoDowngradeState (po_sessionKey (re_opts env)) (st_streaks st)\<rparr> else st)
      in if cr_attempts call \<noteq> [] \<and> used \<noteq> [] \<and> \<not> same then maybe_downgrade env used st1 else st1)"

definition afterLLMCall :: "'w run_env \<Rightarrow> call_result \<Rightarrow> 'w run_state \<Rightarrow> 'w run_state \<times> bool" where
  "afterLLMCall env call st =
     absorbSteeringMessages env (recordTokenUsage (cr_response call) (note_model env call st))"

section \<open>An answer\<close>

definition tool_budget_text :: "int \<Rightarrow> string" where
  "tool_budget_text n = ''RESOURCE_BUDGET_EXCEEDED: tool call budget exceeded ('' @ dec_int n
     @ ''). Please narrow the request or reduce the number of tools used.''"

definition wall_time_text :: "int \<Rightarrow> string" where
  "wall_time_text n = ''RESOURCE_BUDGET_EXCEEDED: run wall time exceeded ('' @ dec_int n
     @ ''s). Please narrow the task or split it into smaller steps.''"

definition exceedsToolCallBudget :: "'w run_env \<Rightarrow> tool_call list \<Rightarrow> 'w run_state \<Rightarrow> bool" where
  "exceedsToolCallBudget env tcs st \<longleftrightarrow>
     0 < re_maxToolCalls env \<and> re_maxToolCalls env < st_used st + int (length tcs)"

definition enforceWallTimeBudget :: "'w run_env \<Rightarrow> 'w run_state \<Rightarrow> bool" where
  "enforceWallTimeBudget env st \<longleftrightarrow>
     0 < re_maxWallTime env \<and> wrap64 (re_maxWallTime env * nsSecond) < re_elapsed env (st_iteration st)"

definition call_message :: "bool \<Rightarrow> llm_response \<Rightarrow> tool_call list \<Rightarrow> message" where
  "call_message full resp tcs =
     \<lparr>role = ''assistant'', content = lr_content resp, media = None,
      reasoning = (if full then lr_reasoningContent resp else []), system_parts = None,
      tool_calls = Some (map (\<lambda>tc.
        let sig = (if full then (case tc_function tc of Some f \<Rightarrow> fn_signature f | None \<Rightarrow> []) else []) in
        \<lparr>tc_id = tc_id tc, tc_type = ''function'',
         tc_function = Some \<lparr>fn_name = tc_name tc, fn_arguments = marshal_args (tc_arguments tc), fn_signature = sig\<rparr>,
         tc_name = tc_name tc, tc_arguments = None, tc_signature = sig,
         tc_extra = (if full then tc_extra tc else None)\<rparr>) tcs),
      tool_call_id = []\<rparr>"

definition tool_message :: "string \<Rightarrow> string \<Rightarrow> message" where
  "tool_message text callID = \<lparr>role = ''tool'', content = text, media = None, reasoning = [], system_parts = None,
     tool_calls = None, tool_call_id = callID\<rparr>"

definition loop_notice :: "string \<Rightarrow> string" where
  "loop_notice name = ''Loop detected: '' @ [CHR 0x27] @ name @ [CHR 0x27] @ '' called with same arguments 3+ times. Try a different approach, use a different tool, or explain why you are stuck.''"

definition handleToolLoop :: "llm_response \<Rightarrow> tool_call list \<Rightarrow> 'w run_state \<Rightarrow> 'w run_state \<times> bool" where
  "handleToolLoop resp tcs st =
     (let name = detectToolCallLoop (st_recent st) tcs 3 in
      if name = [] then (st, False)
      else (st\<lparr>st_messages := st_messages st @ call_message False resp tcs
                 # map (\<lambda>tc. tool_message (loop_notice name) (tc_id tc)) tcs\<rparr>, True))"

definition appendAssistantToolCallMessage :: "'w run_env \<Rightarrow> llm_response \<Rightarrow> tool_call list \<Rightarrow> 'w run_state \<Rightarrow> 'w run_state" where
  "appendAssistantToolCallMessage env resp tcs st =
     (let msg = call_message True resp tcs in
      addSessionFullMessage env msg (st\<lparr>st_messages := st_messages st @ [msg]\<rparr>))"

definition executeToolCalls :: "'w run_env \<Rightarrow> tool_call list \<Rightarrow> 'w run_state \<Rightarrow> 'w run_state \<times> tool_execution list" where
  "executeToolCalls env tcs st =
     (case re_tools env (st_iteration st) tcs (st_world st) of
        (xs, w) \<Rightarrow> (st\<lparr>st_world := w, st_used := st_used st + int (length xs)\<rparr>, xs))"

definition result_message :: "tool_execution \<Rightarrow> message" where
  "result_message x =
     (let res = te_result x;
          text = (if ForLLM res = [] then (case Err res of Some e \<Rightarrow> e | None \<Rightarrow> []) else ForLLM res)
      in tool_message text (tc_id (te_call x)))"

definition apply_result :: "'w run_env \<Rightarrow> tool_execution \<Rightarrow> 'w run_state \<Rightarrow> 'w run_state" where
  "apply_result env x st =
     (let res = te_result x; send = po_sendResponse (re_opts env);
          st1 = (if \<not> Silent res \<and> ForUser res \<noteq> [] \<and> send then publish env (ForUser res) [] st else st);
          st2 = (if Media res \<noteq> [] \<and> send then publish env [] (Media res) st1 else st1);
          msg = result_message x
      in addSessionFullMessage env msg (st2\<lparr>st_messages := st_messages st2 @ [msg]\<rparr>))"

definition applyToolExecutionResults :: "'w run_env \<Rightarrow> tool_execution list \<Rightarrow> 'w run_state \<Rightarrow> 'w run_state" where
  "applyToolExecutionResults env xs st = fold (apply_result env) xs st"

definition run_tools :: "'w run_env \<Rightarrow> llm_response \<Rightarrow> tool_call list \<Rightarrow> 'w run_state \<Rightarrow> 'w run_state" where
  "run_tools env resp tcs st =
     (case executeToolCalls env tcs (appendAssistantToolCallMessage env resp tcs st) of
        (st1, xs) \<Rightarrow> applyToolExecutionResults env xs (st1\<lparr>st_recent := recordRecentToolCalls xs (st_recent st1)\<rparr>))"

definition handleLLMResponse :: "'w run_env \<Rightarrow> llm_response \<Rightarrow> 'w run_state \<Rightarrow> 'w run_state \<times> bool" where
  "handleLLMResponse env resp st =
     (if lr_toolCalls resp = [] then
        (st\<lparr>st_final := (if lr_content resp = [] \<and> lr_reasoningContent resp \<noteq> [] then lr_reasoningContent resp
                        else lr_content resp)\<rparr>, True)
      else
        let tcs = normalizeToolCalls (re_parse env) (lr_toolCalls resp) in
        if exceedsToolCallBudget env tcs st then (st\<lparr>st_final := tool_budget_text (re_maxToolCalls env)\<rparr>, True)
        else case handleToolLoop resp tcs st of
               (st1, True) \<Rightarrow> (st1, False)
             | (st1, False) \<Rightarrow> (run_tools env resp tcs st1, False))"

section \<open>The loop and the run\<close>

fun run_iterations :: "'w run_env \<Rightarrow> nat \<Rightarrow> 'w run_state \<Rightarrow> 'w run_state \<times> llm_error option" where
  "run_iterations env 0 st = (st, None)"
| "run_iterations env (Suc n) st0 =
     (let st = st0\<lparr>st_iteration := Suc (st_iteration st0)\<rparr> in
      if enforceWallTimeBudget env st then (st\<lparr>st_final := wall_time_text (re_maxWallTime env)\<rparr>, None)
      else case callLLMWithRetry env st of
             (st1, Inl err) \<Rightarrow> (st1, Some err)
           | (st1, Inr call) \<Rightarrow>
               (case afterLLMCall env call st1 of
                  (st2, True) \<Rightarrow> run_iterations env n st2
                | (st2, False) \<Rightarrow>
                    (case handleLLMResponse env (cr_response call) st2 of
                       (st3, True) \<Rightarrow> (st3, None)
                     | (st3, False) \<Rightarrow> run_iterations env n st3)))"

definition runLLMIteration :: "'w run_env \<Rightarrow> 'w run_state \<Rightarrow> 'w run_state \<times> llm_error option" where
  "runLLMIteration env st = run_iterations env (nat (ag_maxIterations (re_agent env))) st"

definition buildRunUserMessage :: "'w run_env \<Rightarrow> string" where
  "buildRunUserMessage env =
     (let opts = re_opts env in
      if \<not> po_planMode opts then po_userMessage opts
      else
        let restricted = (if re_restricted env \<noteq> [] then Join (re_restricted env) '', ''
                          else ''exec/edit_file/write_file/append_file'') in
        ''[PLAN MODE]'' @ newline @ ''You are currently in PLAN mode for this session.'' @ newline
        @ ''- You MUST NOT call restricted tools ('' @ restricted @ '').'' @ newline
        @ ''- Draft a plan, ask the user to approve execution (/approve or /run), then stop.'' @ newline @ newline
        @ ''USER REQUEST:'' @ newline @ po_userMessage opts)"

definition resolveRunModel :: "'w run_env \<Rightarrow> 'w run_state \<Rightarrow> 'w run_state" where
  "resolveRunModel env st =
     (case EffectiveModelOverride (re_worlds env (st_tick st)) (po_sessionKey (re_opts env)) (st_mg st) of
        (mg, Some m) \<Rightarrow> st\<lparr>st_mg := mg, st_model := m, st_tick := Suc (st_tick st)\<rparr>
      | (mg, None) \<Rightarrow> st\<lparr>st_mg := mg, st_model := TrimSpace (ag_model (re_agent env)), st_tick := Suc (st_tick st)\<rparr>)"

definition resolveMediaRefs :: "(string \<Rightarrow> string option) option \<Rightarrow> message list \<Rightarrow> message list" where
  "resolveMediaRefs resolver msgs =
     (case resolver of None \<Rightarrow> msgs
      | Some load \<Rightarrow>
          map (\<lambda>msg. case media msg of
                 None \<Rightarrow> msg
               | Some refs \<Rightarrow>
                   if refs = [] then msg
                   else msg\<lparr>media := Some (List.map_filter
                          (\<lambda>ref. if HasPrefix ref ''media://'' then load ref else Some ref) refs)\<rparr>) msgs)"

definition prepareRun :: "'w run_env \<Rightarrow> 'w run_state \<Rightarrow> 'w run_state" where
  "prepareRun env st =
     (let opts = re_opts env; key = po_sessionKey opts;
          history = (if po_noHistory opts then [] else GetHistory (st_mg st) key);
          summary = (if po_noHistory opts then [] else GetSummary (st_mg st) key);
          msgs = BuildMessagesForSession (ag_settings (re_agent env)) (re_prompt env 0 0) history summary
                   (buildRunUserMessage env) (po_media opts)
      in resolveRunModel env (st\<lparr>st_messages := resolveMediaRefs (re_media env) msgs\<rparr>))"

definition fresh_run :: "manager \<Rightarrow> cooldown_tracker \<Rightarrow> downgrade_map \<Rightarrow> 'w \<Rightarrow> 'w run_state" where
  "fresh_run mg ct sts w =
     \<lparr>st_mg = mg, st_messages = [], st_model = [], st_iteration = 0, st_final = [], st_recent = [], st_used = 0,
      st_tokens = (0, 0), st_cooldown = ct, st_streaks = sts, st_world = w, st_tick = 0, st_out = [], st_requests = [],
      st_memory = []\<rparr>"

text \<open>The answer of a run; the flag asks for a background compaction.\<close>

definition finalizeRun :: "'w run_env \<Rightarrow> 'w run_state \<Rightarrow> 'w run_state \<times> string \<times> bool" where
  "finalizeRun env st =
     (let opts = re_opts env;
          text = (if st_final st = [] then po_defaultResponse opts else st_final st);
          st1 = addSessionMessageAndSave env ''assistant'' text st;
          job = (po_enableSummary opts
                 \<and> snd (maybeSummarize (ag_compaction (re_agent env)) (po_sessionKey opts) (st_mg st1)
                          (re_summarizing env)));
          st2 = (if po_sendResponse opts then publish env text [] st1 else st1)
      in (st2, text, job))"

definition runAgentLoop :: "'w run_env \<Rightarrow> 'w run_state \<Rightarrow> 'w run_state \<times> (llm_error + string \<times> bool)" where
  "runAgentLoop env st0 =
     (let st1 = addSessionMessageAndSave env ''user'' (po_userMessage (re_opts env)) (prepareRun env st0) in
      case runLLMIteration env st1 of
        (st2, Some err) \<Rightarrow> (st2, Inl err)
      | (st2, None) \<Rightarrow> (case finalizeRun env st2 of (st3, text, job) \<Rightarrow> (st3, Inr (text, job))))"

section \<open>Lemmas: requests\<close>

text \<open>
  A conversation to which a tool turn may be added, and a request as providers accept it: the system
  prompt and such a conversation.
\<close>

definition open_end :: "message list \<Rightarrow> bool" where
  "open_end h \<longleftrightarrow> accepted h \<and> h \<noteq> [] \<and> (role (last h) = ''user'' \<or> is_tool (last h))"

definition turn_open :: "message list \<Rightarrow> bool" where
  "turn_open msgs \<longleftrightarrow> msgs \<noteq> [] \<and> role (hd msgs) = ''system'' \<and> open_end (tl msgs)"

text \<open>What the provider owes: the ids of the calls of an answer are there and differ.\<close>

definition good_calls :: "tool_call list \<Rightarrow> bool" where
  "good_calls tcs \<longleftrightarrow> good_ids (map tc_id tcs)"

lemma plain_user: "role (plain_message ''user'' c) = ''user''" "speaks (plain_message ''user'' c)"
  by (simp_all add: plain_message_def speaks_def)

lemma open_end_user: "accepted h \<Longrightarrow> open_end (h @ [plain_message ''user'' c])"
  by (auto simp: open_end_def plain_user intro: accepted.said)

lemma turn_open_append: "turn_open msgs \<Longrightarrow> turn_open (msgs @ new) \<longleftrightarrow> open_end (tl msgs @ new)"
  by (cases msgs) (auto simp: turn_open_def)

lemma turn_open_user: "turn_open msgs \<Longrightarrow> turn_open (msgs @ [plain_message ''user'' c])"
  using turn_open_append open_end_user by (auto simp: turn_open_def open_end_def)

lemma call_message_turn:
  assumes "tcs \<noteq> []"
  shows "is_tool_turn (call_message full resp tcs)" "ids_called (call_message full resp tcs) = map tc_id tcs"
proof -
  show ids: "ids_called (call_message full resp tcs) = map tc_id tcs" by (simp add: calls_def call_message_def Let_def comp_def)
  then have "calls (call_message full resp tcs) \<noteq> []" using assms by (metis map_is_Nil_conv)
  then show "is_tool_turn (call_message full resp tcs)" by (simp add: is_tool_turn_def call_message_def)
qed

lemma open_end_turn:
  assumes "open_end h" "tcs \<noteq> []" "good_calls tcs" "list_all is_tool answers" "result_ids answers = map tc_id tcs"
  shows "open_end (h @ call_message full resp tcs # answers)"
proof -
  have "accepted (h @ call_message full resp tcs # answers)"
    using assms call_message_turn [OF assms(2), of full resp]
    by (intro accepted.turn) (auto simp: open_end_def good_calls_def simp del: mset_map)
  moreover have "answers \<noteq> []" using assms(2,5) by auto
  then have "is_tool (last answers)" using assms(4) by (simp add: list_all_iff)
  ultimately show ?thesis using \<open>answers \<noteq> []\<close> by (simp add: open_end_def)
qed

lemma turn_open_turn:
  "turn_open msgs \<Longrightarrow> tcs \<noteq> [] \<Longrightarrow> good_calls tcs \<Longrightarrow> list_all is_tool answers \<Longrightarrow> result_ids answers = map tc_id tcs \<Longrightarrow>
     turn_open (msgs @ call_message full resp tcs # answers)"
  using turn_open_append open_end_turn by (metis turn_open_def)

lemma NormalizeToolCall_id [simp]: "tc_id (NormalizeToolCall parse tc) = tc_id tc"
  by (simp add: NormalizeToolCall_def Let_def split: option.splits)

lemma normalize_good [simp]: "good_calls (normalizeToolCalls parse tcs) = good_calls tcs"
  by (simp add: good_calls_def normalizeToolCalls_def comp_def)

lemma normalize_empty [simp]: "normalizeToolCalls parse tcs = [] \<longleftrightarrow> tcs = []"
  by (simp add: normalizeToolCalls_def)

lemma tool_message_facts [simp]: "is_tool (tool_message t i)" "tool_call_id (tool_message t i) = i"
  by (simp_all add: tool_message_def is_tool_def)

lemma result_message_facts [simp]: "is_tool (result_message x)" "tool_call_id (result_message x) = tc_id (te_call x)"
  by (simp_all add: result_message_def Let_def)

text \<open>What the operations on the session leave alone.\<close>

lemma session_ops_frame [simp]:
  "st_messages (addSessionFullMessage env msg st) = st_messages st" "st_requests (addSessionFullMessage env msg st) = st_requests st"
  "st_iteration (addSessionFullMessage env msg st) = st_iteration st" "st_used (addSessionFullMessage env msg st) = st_used st"
  "st_messages (addSessionMessage env r t st) = st_messages st" "st_requests (addSessionMessage env r t st) = st_requests st"
  "st_iteration (addSessionMessage env r t st) = st_iteration st" "st_used (addSessionMessage env r t st) = st_used st"
  "st_messages (saveSessionBestEffort env st) = st_messages st" "st_requests (saveSessionBestEffort env st) = st_requests st"
  "st_iteration (saveSessionBestEffort env st) = st_iteration st" "st_used (saveSessionBestEffort env st) = st_used st"
  "st_messages (addSessionMessageAndSave env r t st) = st_messages st" "st_requests (addSessionMessageAndSave env r t st) = st_requests st"
  "st_iteration (addSessionMessageAndSave env r t st) = st_iteration st" "st_used (addSessionMessageAndSave env r t st) = st_used st"
  "st_messages (publish env t m st) = st_messages st" "st_requests (publish env t m st) = st_requests st"
  "st_iteration (publish env t m st) = st_iteration st" "st_used (publish env t m st) = st_used st"
  "st_messages (maybe_downgrade env t st) = st_messages st" "st_requests (maybe_downgrade env t st) = st_requests st"
  "st_iteration (maybe_downgrade env t st) = st_iteration st" "st_used (maybe_downgrade env t st) = st_used st"
  by (simp_all add: addSessionFullMessage_def addSessionMessage_def saveSessionBestEffort_def addSessionMessageAndSave_def
      publish_def maybe_downgrade_def Let_def split: prod.splits)

lemma apply_result_frame [simp]:
  "st_messages (apply_result env x st) = st_messages st @ [result_message x]" "st_requests (apply_result env x st) = st_requests st"
  "st_iteration (apply_result env x st) = st_iteration st" "st_used (apply_result env x st) = st_used st"
  by (simp_all add: apply_result_def Let_def)

lemma apply_results_frame [simp]:
  "st_messages (applyToolExecutionResults env xs st) = st_messages st @ map result_message xs"
  "st_requests (applyToolExecutionResults env xs st) = st_requests st"
  "st_iteration (applyToolExecutionResults env xs st) = st_iteration st" "st_used (applyToolExecutionResults env xs st) = st_used st"
  by (induction xs arbitrary: st) (simp_all add: applyToolExecutionResults_def)

lemma run_tools_frame:
  assumes "re_tools env (st_iteration st) tcs (st_world st) = (xs, w)"
  shows "st_messages (run_tools env resp tcs st) = st_messages st @ call_message True resp tcs # map result_message xs"
    "st_requests (run_tools env resp tcs st) = st_requests st" "st_iteration (run_tools env resp tcs st) = st_iteration st"
    "st_used (run_tools env resp tcs st) = st_used st + int (length xs)"
proof -
  have "st_world (appendAssistantToolCallMessage env resp tcs st) = st_world st"
    by (simp add: appendAssistantToolCallMessage_def addSessionFullMessage_def Let_def)
  with assms show "st_messages (run_tools env resp tcs st) = st_messages st @ call_message True resp tcs # map result_message xs"
    "st_requests (run_tools env resp tcs st) = st_requests st" "st_iteration (run_tools env resp tcs st) = st_iteration st"
    "st_used (run_tools env resp tcs st) = st_used st + int (length xs)"
    by (simp_all add: run_tools_def executeToolCalls_def appendAssistantToolCallMessage_def Let_def)
qed

lemma absorb_frame:
  "st_requests (fold (absorb_one env) ts st) = st_requests st"
  "st_iteration (fold (absorb_one env) ts st) = st_iteration st" "st_used (fold (absorb_one env) ts st) = st_used st"
  by (induction ts arbitrary: st) (simp_all add: absorb_one_def Let_def)

lemma absorb_messages: "turn_open (st_messages st) \<Longrightarrow> turn_open (st_messages (fold (absorb_one env) ts st))"
proof (induction ts arbitrary: st)
  case (Cons t ts)
  have "turn_open (st_messages (absorb_one env t st))"
    using Cons.prems turn_open_user by (auto simp: absorb_one_def Let_def)
  with Cons.IH show ?case by simp
qed simp

lemma note_model_frame [simp]:
  "st_messages (recordTokenUsage r (note_model env call st)) = st_messages st"
  "st_requests (recordTokenUsage r (note_model env call st)) = st_requests st"
  "st_iteration (recordTokenUsage r (note_model env call st)) = st_iteration st"
  "st_used (recordTokenUsage r (note_model env call st)) = st_used st"
  by (simp_all add: recordTokenUsage_def note_model_def Let_def split: option.splits)

lemma afterLLMCall_frame:
  assumes "afterLLMCall env call st = (st', b)"
  shows "st_requests st' = st_requests st" "st_iteration st' = st_iteration st" "st_used st' = st_used st"
    "turn_open (st_messages st) \<Longrightarrow> turn_open (st_messages st')"
  using assms
  by (auto simp: afterLLMCall_def absorbSteeringMessages_def Let_def absorb_frame absorb_messages split: if_splits)


text \<open>The calls to the provider.\<close>

definition asks :: "'w run_env \<Rightarrow> nat" where
  "asks env = max 1 (length (ag_candidates (re_agent env)))"

lemma chain_asked_length: "length (chain_asked ct cs turns i) \<le> length cs"
  by (induction cs arbitrary: ct i) (auto split: chain_step.split intro: le_SucI)

lemma note_requests_simps [simp]:
  "st_messages (note_requests ms st) = st_messages st" "st_iteration (note_requests ms st) = st_iteration st"
  "st_used (note_requests ms st) = st_used st" "st_mg (note_requests ms st) = st_mg st" "st_final (note_requests ms st) = st_final st"
  "st_model (note_requests ms st) = st_model st" "st_cooldown (note_requests ms st) = st_cooldown st"
  "st_world (note_requests ms st) = st_world st" "st_tick (note_requests ms st) = st_tick st"
  "st_requests (note_requests ms st) = st_requests st @ map (\<lambda>m. \<lparr>rq_model = m, rq_messages = st_messages st\<rparr>) ms"
  by (simp_all add: note_requests_def)

lemma perform_requests:
  assumes "performLLMCall env retry st = (st', r)"
  shows "\<exists>ms. st_requests st' = st_requests st @ map (\<lambda>m. \<lparr>rq_model = m, rq_messages = st_messages st\<rparr>) ms \<and> length ms \<le> asks env"
  using assms chain_asked_length [of "st_cooldown st" "ag_candidates (re_agent env)"
      "re_turns env (st_iteration st) retry (st_messages st)" 0]
  by (auto simp: performLLMCall_def asks_def Let_def le_max_iff_disj split: if_splits prod.splits sum.splits
      intro: exI [of _ "[st_model st]"] exI [of _ "chain_asked (st_cooldown st) (ag_candidates (re_agent env))
        (re_turns env (st_iteration st) retry (st_messages st)) 0"])

lemma perform_frame:
  assumes "performLLMCall env retry st = (st', r)"
  shows "st_messages st' = st_messages st" "st_iteration st' = st_iteration st" "st_used st' = st_used st"
    "st_mg st' = st_mg st" "st_final st' = st_final st" "st_model st' = st_model st"
    "length (st_requests st') \<le> length (st_requests st) + asks env"
    "\<forall>rq \<in> set (st_requests st'). rq \<in> set (st_requests st) \<or> rq_messages rq = st_messages st"
proof -
  show "st_messages st' = st_messages st" "st_iteration st' = st_iteration st" "st_used st' = st_used st"
    "st_mg st' = st_mg st" "st_final st' = st_final st" "st_model st' = st_model st"
    using assms by (auto simp: performLLMCall_def Let_def split: if_splits prod.splits sum.splits)
  show "length (st_requests st') \<le> length (st_requests st) + asks env"
    "\<forall>rq \<in> set (st_requests st'). rq \<in> set (st_requests st) \<or> rq_messages rq = st_messages st"
    using perform_requests [OF assms] by auto
qed

lemma context_retry_frame:
  assumes "handleContextWindowRetry env retry st = (st', b)"
  shows "st_requests st' = st_requests st" "st_iteration st' = st_iteration st" "st_used st' = st_used st"
  using assms by (auto simp: handleContextWindowRetry_def Let_def split: if_splits prod.splits sum.splits bool.splits)

lemma call_from_frame:
  "call_from env n retry st = (st', r) \<Longrightarrow>
     length (st_requests st') \<le> length (st_requests st) + n * asks env \<and> st_iteration st' = st_iteration st \<and> st_used st' = st_used st"
proof (induction n arbitrary: retry st)
  case (Suc n)
  obtain st1 r1 where p: "performLLMCall env retry st = (st1, r1)" by fastforce
  note f = perform_frame [OF p]
  show ?case
  proof (cases r1)
    case (Inr call)
    with Suc.prems p f show ?thesis by simp
  next
    case (Inl err)
    obtain st2 b where c: "handleContextWindowRetry env retry st1 = (st2, b)" by fastforce
    note g = context_retry_frame [OF c]
    show ?thesis
      using Suc.prems Suc.IH [of "Suc retry" st1] Suc.IH [of "Suc retry" st2] p c f g Inl
      by (auto split: if_splits bool.splits)
  qed
qed simp

text \<open>Who answers: the provider itself or one of the chain.\<close>

definition answers :: "'w run_env \<Rightarrow> llm_response \<Rightarrow> bool" where
  "answers env resp \<longleftrightarrow> (\<exists>it retry msgs m. re_chat env it retry msgs m = Inr resp)
     \<or> (\<exists>it retry msgs i. tn_outcome (re_turns env it retry msgs i) = Inr resp)"

lemma perform_answers: "performLLMCall env retry st = (st', Inr call) \<Longrightarrow> answers env (cr_response call)"
  using execute_from_done [of _ _ _ 0 "[]"]
  by (fastforce simp: performLLMCall_def direct_call_def answers_def Execute_def Let_def
      split: if_splits prod.splits sum.splits)

lemma call_answers: "call_from env n retry st = (st', Inr call) \<Longrightarrow> answers env (cr_response call)"
proof (induction n arbitrary: retry st)
  case (Suc n)
  obtain st1 r1 where p: "performLLMCall env retry st = (st1, r1)" by fastforce
  with Suc show ?case
    using perform_answers by (cases r1) (auto split: if_splits prod.splits bool.splits)
qed simp

text \<open>No attempt at a call ends with an error that says the request is too long.\<close>

definition never_too_long :: "'w run_env \<Rightarrow> bool" where
  "never_too_long env \<longleftrightarrow>
     (\<forall>retry st err. snd (performLLMCall env retry st) = Inl err \<longrightarrow> \<not> isContextWindowError err)"

lemma call_from_messages:
  "never_too_long env \<Longrightarrow> call_from env n retry st = (st', r) \<Longrightarrow>
     st_messages st' = st_messages st
   \<and> (\<forall>rq \<in> set (st_requests st'). rq \<in> set (st_requests st) \<or> rq_messages rq = st_messages st)"
proof (induction n arbitrary: retry st)
  case (Suc n)
  obtain st1 r1 where p: "performLLMCall env retry st = (st1, r1)" by fastforce
  note f = perform_frame [OF p]
  show ?case
  proof (cases r1)
    case (Inr call)
    with Suc.prems p f show ?thesis by auto
  next
    case (Inl err)
    with Suc.prems(1) p have "\<not> isContextWindowError err" unfolding never_too_long_def by (metis snd_conv)
    with Suc p f Inl show ?thesis by (fastforce split: if_splits)
  qed
qed simp


section \<open>The port to the tools\<close>

text \<open>
  What a run relies on when it executes a batch of calls: an execution for every call, in order, under the
  id the model gave it.
\<close>

locale tool_port =
  fixes exec :: "nat \<Rightarrow> tool_call list \<Rightarrow> 'w \<Rightarrow> tool_execution list \<times> 'w"
  assumes same_ids: "map (\<lambda>x. tc_id (te_call x)) (fst (exec it tcs w)) = map tc_id tcs"
begin

lemma same_length: "length (fst (exec it tcs w)) = length tcs"
  using same_ids [of it tcs w] by (metis length_map)

lemma result_ids_exec: "result_ids (map result_message (fst (exec it tcs w))) = map tc_id tcs"
  using same_ids [of it tcs w] by (simp add: comp_def)

lemma results_tool: "list_all is_tool (map result_message xs)"
  by (simp add: list_all_iff)

lemma run_tools_port:
  assumes "re_tools env = exec"
  shows "st_used (run_tools env resp tcs st) = st_used st + int (length tcs)"
    "st_requests (run_tools env resp tcs st) = st_requests st" "st_iteration (run_tools env resp tcs st) = st_iteration st"
  using run_tools_frame [OF prod.collapse [symmetric], where env = env and st = st and tcs = tcs] assms same_length by simp_all

lemma handle_frame:
  assumes "re_tools env = exec" "handleLLMResponse env resp st = (st', done)"
  shows "st_requests st' = st_requests st" "st_iteration st' = st_iteration st"
    "(0 < re_maxToolCalls env \<longrightarrow> st_used st \<le> re_maxToolCalls env) \<Longrightarrow>
       0 < re_maxToolCalls env \<longrightarrow> st_used st' \<le> re_maxToolCalls env"
  using assms(2) run_tools_port [OF assms(1)]
  by (auto simp: handleLLMResponse_def handleToolLoop_def exceedsToolCallBudget_def normalizeToolCalls_def Let_def
      split: if_splits prod.splits bool.splits)

lemma run_bounds:
  "re_tools env = exec \<Longrightarrow> run_iterations env n st = (st', r) \<Longrightarrow>
     (0 < re_maxToolCalls env \<longrightarrow> st_used st \<le> re_maxToolCalls env) \<Longrightarrow>
     length (st_requests st') \<le> length (st_requests st) + 3 * asks env * n
   \<and> st_iteration st' \<le> st_iteration st + n
   \<and> (0 < re_maxToolCalls env \<longrightarrow> st_used st' \<le> re_maxToolCalls env)"
proof (induction n arbitrary: st)
  case (Suc n)
  let ?st = "st\<lparr>st_iteration := Suc (st_iteration st)\<rparr>"
  obtain st1 c where c: "callLLMWithRetry env ?st = (st1, c)" by fastforce
  then have l: "length (st_requests st1) \<le> length (st_requests st) + 3 * asks env" "st_iteration st1 = Suc (st_iteration st)"
      "st_used st1 = st_used st"
    using call_from_frame [of env "Suc maxRetries" 0 ?st st1 c] by (simp_all add: callLLMWithRetry_def maxRetries_def)
  show ?case
  proof (cases c)
    case (Inl err)
    with Suc.prems c l show ?thesis by (auto simp: Let_def split: if_splits)
  next
    case (Inr call)
    obtain st2 b where a: "afterLLMCall env call st1 = (st2, b)" by fastforce
    obtain st3 d where h: "handleLLMResponse env (cr_response call) st2 = (st3, d)" by fastforce
    have u2: "0 < re_maxToolCalls env \<longrightarrow> st_used st2 \<le> re_maxToolCalls env"
      using Suc.prems(3) l(3) afterLLMCall_frame(3) [OF a] by simp
    note f = afterLLMCall_frame(1-3) [OF a] handle_frame(1,2) [OF Suc.prems(1) h] handle_frame(3) [OF Suc.prems(1) h u2]
    show ?thesis
      using Suc.IH [OF Suc.prems(1), of st2] Suc.IH [OF Suc.prems(1), of st3] Suc.prems(2,3) c Inr a h l f u2
      by (auto simp: Let_def split: if_splits bool.splits)
  qed
qed simp

text \<open>A tool turn leaves a conversation to which the next request or turn may be added.\<close>

lemma handle_turn_open:
  assumes "re_tools env = exec" "handleLLMResponse env resp st = (st', False)"
    and "turn_open (st_messages st)" "good_calls (lr_toolCalls resp)"
  shows "turn_open (st_messages st')" "st_requests st' = st_requests st"
proof -
  let ?tcs = "normalizeToolCalls (re_parse env) (lr_toolCalls resp)"
  have ne: "?tcs \<noteq> []" "good_calls ?tcs"
    using assms(2,4) by (auto simp: handleLLMResponse_def split: if_splits)
  have "turn_open (st_messages (run_tools env resp ?tcs s))" "st_requests (run_tools env resp ?tcs s) = st_requests s"
    if "turn_open (st_messages s)" for s :: "'w run_state"
    using run_tools_frame [OF prod.collapse [symmetric], where env = env and st = s and tcs = ?tcs] assms(1)
      turn_open_turn [OF that ne results_tool result_ids_exec] by simp_all
  moreover have "turn_open (st_messages st @ call_message False resp ?tcs # map (\<lambda>tc. tool_message t (tc_id tc)) ?tcs)" for t
    using turn_open_turn [OF assms(3) ne, of "map (\<lambda>tc. tool_message t (tc_id tc)) ?tcs"]
    by (simp add: list_all_iff comp_def)
  ultimately show "turn_open (st_messages st')" "st_requests st' = st_requests st"
    using assms(2,3)
    by (auto simp: handleLLMResponse_def handleToolLoop_def Let_def split: if_splits prod.splits bool.splits)
qed

lemma run_requests:
  assumes "re_tools env = exec" "never_too_long env" "\<And>resp. answers env resp \<Longrightarrow> good_calls (lr_toolCalls resp)"
  shows "run_iterations env n st = (st', r) \<Longrightarrow> turn_open (st_messages st) \<Longrightarrow>
     (\<forall>rq \<in> set (st_requests st). turn_open (rq_messages rq)) \<Longrightarrow> (\<forall>rq \<in> set (st_requests st'). turn_open (rq_messages rq))"
proof (induction n arbitrary: st)
  case (Suc n)
  let ?st = "st\<lparr>st_iteration := Suc (st_iteration st)\<rparr>"
  obtain st1 c where c: "callLLMWithRetry env ?st = (st1, c)" by fastforce
  then have l: "st_messages st1 = st_messages st" "\<forall>rq \<in> set (st_requests st1). turn_open (rq_messages rq)"
    using call_from_messages [OF assms(2), of "Suc maxRetries" 0 ?st st1 c] Suc.prems(2,3)
    by (auto simp: callLLMWithRetry_def)
  show ?case
  proof (cases c)
    case (Inl err)
    with Suc.prems c l show ?thesis by (auto simp: Let_def split: if_splits)
  next
    case (Inr call)
    obtain st2 b where a: "afterLLMCall env call st1 = (st2, b)" by fastforce
    obtain st3 d where h: "handleLLMResponse env (cr_response call) st2 = (st3, d)" by fastforce
    note f = afterLLMCall_frame(1,4) [OF a]
    have t2: "turn_open (st_messages st2)" using f(2) l(1) Suc.prems(2) by simp
    have ok: "good_calls (lr_toolCalls (cr_response call))"
      using assms(3) call_answers c Inr unfolding callLLMWithRetry_def by metis
    have "d = False \<Longrightarrow> turn_open (st_messages st3) \<and> st_requests st3 = st_requests st2"
      using handle_turn_open [OF assms(1) _ t2 ok, of st3] h by simp
    moreover have "st_requests st3 = st_requests st2" by (rule handle_frame(1) [OF assms(1) h])
    ultimately show ?thesis
      using Suc.IH [of st2] Suc.IH [of st3] Suc.prems(1,3) c Inr a h l f(1) t2
      by (auto simp: Let_def split: if_splits bool.splits)
  qed
qed simp

end


section \<open>Lemmas: the session of a run\<close>

definition recorded :: "'w run_env \<Rightarrow> 'w run_state \<Rightarrow> message list" where
  "recorded env st = GetHistory (st_mg st) (po_sessionKey (re_opts env))"

definition live :: "'w run_env \<Rightarrow> 'w run_state \<Rightarrow> bool" where
  "live env st \<longleftrightarrow> has_session (st_mg st) (po_sessionKey (re_opts env))"

lemma live_key: "live env st \<Longrightarrow> TrimSpace (po_sessionKey (re_opts env)) \<noteq> []"
  by (auto simp: live_def has_session_def lookup_session_def CanonicalSessionKey_def ToLower_def Let_def split: if_splits)

lemma add_history:
  assumes "has_session mg k"
  shows "GetHistory (AddFullMessage w k msg mg) k = GetHistory mg k @ [msg]" "has_session (AddFullMessage w k msg mg) k"
proof -
  obtain s where "CanonicalSessionKey k \<noteq> []" "get_session mg (CanonicalSessionKey k) = Some s" "GetHistory mg k = s_messages s"
    using assms by (rule has_sessionE)
  then show "GetHistory (AddFullMessage w k msg mg) k = GetHistory mg k @ [msg]" "has_session (AddFullMessage w k msg mg) k"
    by (simp_all add: AddFullMessage_def ensureSessionLocked_def Let_def history_changes)
qed

lemma meta_history [simp]:
  "GetHistory (write_meta w key s mg) k = GetHistory mg k" "has_session (write_meta w key s mg) k \<longleftrightarrow> has_session mg k"
  "GetHistory (persistMetaLocked w key s mg) k = GetHistory mg k" "has_session (persistMetaLocked w key s mg) k \<longleftrightarrow> has_session mg k"
  by (simp_all add: persistMetaLocked_def write_meta_def GetHistory_def has_session_def lookup_session_def get_session_def Let_def
      split: option.splits)

lemma save_history [simp]:
  "GetHistory (fst (Save w key mg)) k = GetHistory mg k" "has_session (fst (Save w key mg)) k \<longleftrightarrow> has_session mg k"
  by (simp_all add: Save_def Let_def split: option.splits)

text \<open>Overrides of the model change no history.\<close>

definition same_history :: "string \<Rightarrow> manager \<Rightarrow> manager \<Rightarrow> bool" where
  "same_history k mg mg' \<longleftrightarrow> has_session mg' k \<and> GetHistory mg' k = GetHistory mg k"

lemma history_override:
  assumes "has_session mg k"
  shows "same_history k mg (fst (EffectiveModelOverride w key mg))" "same_history k mg (fst (ClearModelOverride w key mg))"
    "same_history k mg (fst (SetModelOverride w key m ttl mg))"
proof -
  have put: "same_history k mg (persistMetaLocked w' c s' (put_session c s' mg))"
    if "get_session mg c = Some s" "s_messages s' = s_messages s" for w' c s s'
    using assms that by (auto simp: same_history_def history_changes elim!: has_sessionE)
  have new: "same_history k mg (persistMetaLocked w' c s' (put_session c s' mg))"
    if "get_session mg c = None" for w' c s'
    using assms that by (auto simp: same_history_def history_changes elim!: has_sessionE)
  have id: "same_history k mg mg" using assms by (simp add: same_history_def)
  show "same_history k mg (fst (EffectiveModelOverride w key mg))"
    using id put by (auto simp: EffectiveModelOverride_def Let_def split: option.splits)
  show clear: "same_history k mg (fst (ClearModelOverride w key mg))" for key
    using id put by (auto simp: ClearModelOverride_def Let_def split: option.splits)
  show "same_history k mg (fst (SetModelOverride w key m ttl mg))"
    using id clear put new by (auto simp: SetModelOverride_def Let_def split: option.splits)
qed

lemma history_downgrade:
  assumes "has_session mg k"
  shows "same_history k mg (fst (fst (maybeAutoDowngradeSessionModel pol now w1 w2 key from to (mg, sts))))"
proof -
  have 1: "same_history k mg mg1" if "EffectiveModelOverride w c mg = (mg1, x)" for w c mg1 x
    using history_override(1) [OF assms] that by (metis fst_conv)
  have 2: "same_history k mg mg2" if "EffectiveModelOverride w c mg = (mg1, x)" "SetModelOverride w' c' m ttl mg1 = (mg2, y)"
    for w c mg1 x w' c' m ttl mg2 y
    using 1 [OF that(1)] history_override(3) [of mg1 k w' c' m ttl] that(2) by (simp add: same_history_def)
  have id: "same_history k mg mg" using assms by (simp add: same_history_def)
  then show ?thesis
    using 1 2 by (auto simp: maybeAutoDowngradeSessionModel_def Let_def split: prod.splits option.splits sum.splits)
qed


text \<open>A step of the run appends \<open>new\<close> to the history of its session.\<close>

definition records :: "'w run_env \<Rightarrow> message list \<Rightarrow> 'w run_state \<Rightarrow> 'w run_state \<Rightarrow> bool" where
  "records env new st st' \<longleftrightarrow> (live env st \<longrightarrow> live env st' \<and> recorded env st' = recorded env st @ new)"

lemma records_none: "st_mg st' = st_mg st \<Longrightarrow> records env [] st st'"
  by (simp add: records_def live_def recorded_def)

lemma records_trans: "records env xs st st1 \<Longrightarrow> records env ys st1 st2 \<Longrightarrow> records env (xs @ ys) st st2"
  by (simp add: records_def)

lemma records_same: "same_history (po_sessionKey (re_opts env)) (st_mg st) (st_mg st') \<Longrightarrow> records env [] st st'"
  by (simp add: records_def live_def recorded_def same_history_def)

lemma records_message: "records env [msg] st (addSessionFullMessage env msg st)"
proof (cases "live env st")
  case True
  with live_key [OF True] show ?thesis
    using add_history by (simp add: records_def live_def recorded_def addSessionFullMessage_def Let_def)
qed (simp add: records_def)

lemma records_saved: "records env [plain_message r text] st (addSessionMessageAndSave env r text st)"
proof -
  have "records env [] st1 (saveSessionBestEffort env st1)" for st1
    by (simp add: records_def live_def recorded_def saveSessionBestEffort_def Let_def)
  from records_trans [OF records_message this] show ?thesis
    by (simp add: addSessionMessageAndSave_def addSessionMessage_def)
qed

lemma records_downgrade: "records env [] st (maybe_downgrade env m st)"
proof (cases "live env st")
  case True
  moreover have "st_mg (maybe_downgrade env m st) = fst (fst (maybeAutoDowngradeSessionModel (re_downgrade env)
      (re_now env (st_tick st)) (re_worlds env (st_tick st)) (re_worlds env (Suc (st_tick st)))
      (po_sessionKey (re_opts env)) (st_model st) m (st_mg st, st_streaks st)))"
    by (simp add: maybe_downgrade_def split: prod.splits)
  ultimately show ?thesis using history_downgrade by (intro records_same) (simp add: live_def)
qed (simp add: records_def)

lemma records_start: "records env [] st (prepareRun env st)"
proof (cases "live env st")
  case True
  then have "same_history (po_sessionKey (re_opts env)) (st_mg st) (st_mg (prepareRun env st))"
    using history_override(1) [of "st_mg st" "po_sessionKey (re_opts env)" "re_worlds env (st_tick st)" "po_sessionKey (re_opts env)"]
    by (auto simp: prepareRun_def resolveRunModel_def Let_def live_def split: prod.splits option.splits)
  then show ?thesis by (rule records_same)
qed (simp add: records_def)

lemma records_steering:
  "records env (map (plain_message ''user'') (filter (\<lambda>t. t \<noteq> []) (map TrimSpace ts))) st (fold (absorb_one env) ts st)"
proof (induction ts arbitrary: st)
  case Nil
  show ?case by (simp add: records_none)
next
  case (Cons t ts)
  have "records env (if TrimSpace t = [] then [] else [plain_message ''user'' (TrimSpace t)]) st (absorb_one env t st)"
    using records_saved [of env "''user''" "TrimSpace t" st]
    by (auto simp: absorb_one_def Let_def records_none) (simp add: records_def live_def recorded_def)
  from records_trans [OF this Cons.IH] show ?case by (cases "TrimSpace t = []") simp_all
qed

lemma records_after:
  assumes "afterLLMCall env call st = (st', b)"
  shows "\<exists>ts. records env (map (plain_message ''user'') ts) st st'"
proof -
  have 1: "records env [] st (note_model env call st)"
    using records_downgrade [of env st "used_model call st"]
    by (auto simp: note_model_def Let_def records_def live_def recorded_def)
  have 2: "records env [] s (recordTokenUsage r s)" for r s
    by (rule records_none) (simp add: recordTokenUsage_def split: option.splits)
  let ?st = "recordTokenUsage (cr_response call) (note_model env call st)"
  have "\<exists>ts. records env (map (plain_message ''user'') ts) ?st st'"
  proof (cases "re_steering env (st_iteration ?st) = []")
    case True
    with assms have "st' = ?st" by (auto simp: afterLLMCall_def absorbSteeringMessages_def)
    then show ?thesis by (intro exI [of _ "[]"]) (simp add: records_none)
  next
    case False
    with assms have "st' = fold (absorb_one env) (re_steering env (st_iteration ?st)) ?st"
      by (auto simp: afterLLMCall_def absorbSteeringMessages_def)
    with records_steering [of env "re_steering env (st_iteration ?st)" ?st] show ?thesis by (simp only:) blast
  qed
  with records_trans [OF records_trans [OF 1 2]] show ?thesis by fastforce
qed

lemma records_results: "records env (map result_message xs) st (applyToolExecutionResults env xs st)"
proof (induction xs arbitrary: st)
  case Nil
  show ?case by (simp add: applyToolExecutionResults_def records_none)
next
  case (Cons x xs)
  have "records env [result_message x] st (apply_result env x st)"
    using records_message [of env "result_message x"]
    by (simp add: apply_result_def Let_def records_def live_def recorded_def publish_def)
  from records_trans [OF this Cons.IH] show ?case by (simp add: applyToolExecutionResults_def)
qed

lemma records_tools:
  assumes "re_tools env (st_iteration st) tcs (st_world st) = (xs, w)"
  shows "records env (call_message True resp tcs # map result_message xs) st (run_tools env resp tcs st)"
proof -
  let ?st1 = "appendAssistantToolCallMessage env resp tcs st"
  have 1: "records env [call_message True resp tcs] st ?st1"
    using records_message [of env "call_message True resp tcs"]
    by (simp add: appendAssistantToolCallMessage_def Let_def records_def live_def recorded_def)
  have w: "st_world ?st1 = st_world st" "st_iteration ?st1 = st_iteration st"
    by (simp_all add: appendAssistantToolCallMessage_def addSessionFullMessage_def Let_def)
  obtain st2 where 2: "run_tools env resp tcs st = applyToolExecutionResults env xs st2" "st_mg st2 = st_mg ?st1"
    using assms w by (simp add: run_tools_def executeToolCalls_def)
  from records_trans [OF records_trans [OF 1 records_none [OF 2(2)]] records_results] show ?thesis
    by (simp add: 2(1))
qed

lemma records_final: "records env [plain_message ''assistant'' (if st_final st = [] then po_defaultResponse (re_opts env) else st_final st)]
    st (fst (finalizeRun env st))"
  using records_saved [of env "''assistant''"]
  by (auto simp: finalizeRun_def Let_def records_def live_def recorded_def publish_def)

lemma records_call:
  assumes "never_too_long env" "call_from env n retry st = (st', r)"
  shows "records env [] st st'"
proof -
  have "st_mg st' = st_mg st"
    using assms(2)
  proof (induction n arbitrary: retry st)
    case (Suc n)
    obtain st1 r1 where p: "performLLMCall env retry st = (st1, r1)" by fastforce
    note f = perform_frame(4) [OF p]
    show ?case
    proof (cases r1)
      case (Inl err)
      with assms(1) p have "\<not> isContextWindowError err" unfolding never_too_long_def by (metis snd_conv)
      with Suc p f Inl show ?thesis by (auto split: if_splits)
    qed (use Suc.prems p f in simp)
  qed simp
  then show ?thesis by (rule records_none)
qed


text \<open>What a run adds to its session leaves a conversation open for the next turn.\<close>

definition keeps_open :: "message list \<Rightarrow> bool" where
  "keeps_open new \<longleftrightarrow> (\<forall>h. open_end h \<longrightarrow> open_end (h @ new))"

lemma keeps_open_append: "keeps_open xs \<Longrightarrow> keeps_open ys \<Longrightarrow> keeps_open (xs @ ys)"
  by (simp add: keeps_open_def flip: append_assoc)

lemma keeps_open_users: "keeps_open (map (plain_message ''user'') ts)"
proof (induction ts)
  case (Cons t ts)
  have "keeps_open [plain_message ''user'' t]" using open_end_user by (auto simp: keeps_open_def open_end_def)
  from keeps_open_append [OF this Cons.IH] show ?case by simp
qed (simp add: keeps_open_def)

definition grows :: "'w run_env \<Rightarrow> 'w run_state \<Rightarrow> 'w run_state \<Rightarrow> bool" where
  "grows env st st' \<longleftrightarrow> (\<exists>new. records env new st st' \<and> keeps_open new)"

lemma grows_none: "records env [] st st' \<Longrightarrow> grows env st st'"
  unfolding grows_def by (intro exI [of _ "[]"]) (simp add: keeps_open_def)

lemma grows_trans: "grows env st st1 \<Longrightarrow> grows env st1 st2 \<Longrightarrow> grows env st st2"
  unfolding grows_def using records_trans keeps_open_append by blast

lemma grows_after: "afterLLMCall env call st = (st', b) \<Longrightarrow> grows env st st'"
  unfolding grows_def using records_after keeps_open_users by blast

context tool_port
begin

lemma handle_grows:
  assumes "re_tools env = exec" "handleLLMResponse env resp st = (st', done)" "good_calls (lr_toolCalls resp)"
  shows "grows env st st'"
proof -
  let ?tcs = "normalizeToolCalls (re_parse env) (lr_toolCalls resp)"
  have tools: "grows env st1 (run_tools env resp ?tcs st1)" if "lr_toolCalls resp \<noteq> []" for st1 :: "'w run_state"
  proof -
    let ?xs = "fst (exec (st_iteration st1) ?tcs (st_world st1))"
    have "keeps_open (call_message True resp ?tcs # map result_message ?xs)"
      using open_end_turn [OF _ _ _ results_tool result_ids_exec] that assms(3) by (simp add: keeps_open_def)
    moreover have "records env (call_message True resp ?tcs # map result_message ?xs) st1 (run_tools env resp ?tcs st1)"
      by (rule records_tools [where w = "snd (exec (st_iteration st1) ?tcs (st_world st1))"]) (simp add: assms(1))
    ultimately show ?thesis unfolding grows_def by blast
  qed
  have same: "grows env st st1" if "st_mg st1 = st_mg st" for st1 :: "'w run_state"
    using grows_none [OF records_none [OF that]] .
  have loop: "grows env st st1" "st1 = st \<or> b" if "handleToolLoop resp ?tcs st = (st1, b)" for st1 b
    using that same [of st1] by (auto simp: handleToolLoop_def Let_def split: if_splits)
  show ?thesis
    using assms(2) same [of st'] tools loop
    by (auto simp: handleLLMResponse_def Let_def split: if_splits prod.splits bool.splits intro: grows_trans)
qed

lemma run_grows:
  assumes "re_tools env = exec" "never_too_long env" "\<And>resp. answers env resp \<Longrightarrow> good_calls (lr_toolCalls resp)"
  shows "run_iterations env n st = (st', r) \<Longrightarrow> grows env st st'"
proof (induction n arbitrary: st)
  case 0
  then show ?case by (auto intro: grows_none records_none)
next
  case (Suc n)
  let ?st = "st\<lparr>st_iteration := Suc (st_iteration st)\<rparr>"
  have g0: "grows env st s" if "st_mg s = st_mg st" for s using that by (intro grows_none records_none)
  obtain st1 c where c: "callLLMWithRetry env ?st = (st1, c)" by fastforce
  have "grows env st ?st" by (rule g0) simp
  then have g1: "grows env st st1"
    using grows_none [OF records_call [OF assms(2) c [unfolded callLLMWithRetry_def]]] by (rule grows_trans)
  show ?case
  proof (cases c)
    case (Inl err)
    with Suc.prems c g1 g0 show ?thesis by (auto simp: Let_def split: if_splits)
  next
    case (Inr call)
    obtain st2 b where a: "afterLLMCall env call st1 = (st2, b)" by fastforce
    obtain st3 d where h: "handleLLMResponse env (cr_response call) st2 = (st3, d)" by fastforce
    have "good_calls (lr_toolCalls (cr_response call))"
      using assms(3) call_answers c Inr unfolding callLLMWithRetry_def by metis
    then have g: "grows env st st2" "grows env st st3"
      using g1 grows_after [OF a] handle_grows [OF assms(1) h] grows_trans by blast+
    show ?thesis
      using Suc.IH [of st2] Suc.IH [of st3] Suc.prems c Inr a h g g0 grows_trans
      by (auto simp: Let_def split: if_splits bool.splits)
  qed
qed

end

section \<open>The port on the executor\<close>

text \<open>
  What the runs of an agent give their executor; \<open>ts_context\<close> is the context of the run.  A batch runs in
  the order of its calls (the schedules of a parallel batch are in \<open>tool_step\<close>).
\<close>

record 'w tool_setup =
  ts_registry :: "'w tool_registry option"
  ts_context :: exec_ctx
  ts_config :: tool_config
  ts_hooks :: bool
  ts_redact :: redact_config
  ts_decode :: "string \<Rightarrow> jval option"
  ts_rx :: "string \<Rightarrow> string"
  ts_workspace :: string
  ts_runID :: string
  ts_isResume :: bool
  ts_maxChars :: int
  ts_estop :: "'w \<Rightarrow> string \<Rightarrow> estop_file"

definition run_tool_env :: "'w tool_setup \<Rightarrow> process_options \<Rightarrow> nat \<Rightarrow> tool_call list \<Rightarrow> 'w tool_env" where
  "run_tool_env ts opts it tcs =
     \<lparr>en_registry = ts_registry ts, en_context = ts_context ts,
      en_options = run_tool_options
        ((ts_config ts)\<lparr>tg_hooks := BuildDefaultToolHooks (ts_decode ts) (ts_rx ts) (ts_hooks ts) (ts_redact ts)\<rparr>)
        (po_channel opts) (po_chatID opts) (po_senderID opts) (ts_workspace ts) (po_sessionKey opts) (ts_runID ts)
        (ts_isResume ts) (int it) (ts_maxChars ts),
      en_calls = tcs, en_estop = ts_estop ts\<rparr>"

definition run_executor :: "'w tool_setup \<Rightarrow> process_options \<Rightarrow> nat \<Rightarrow> tool_call list \<Rightarrow> 'w \<Rightarrow> tool_execution list \<times> 'w" where
  "run_executor ts opts it tcs w =
     (case ExecuteToolCalls (run_tool_env ts opts it tcs) w of (rs, audit, w') \<Rightarrow> (List.map_filter id rs, w'))"

lemma run_before_default:
  "fst (run_before meta i n (BuildDefaultToolHooks parse rx en cfg) call) = call"
  by (simp add: BuildDefaultToolHooks_def redact_hook_def)

lemma decide_default:
  "eo_hooks opts = BuildDefaultToolHooks parse rx en cfg \<Longrightarrow> dc_call (decide rd opts tc) = tc"
  using run_before_default [of "call_meta opts" "TrimSpace (tc_id tc)" "TrimSpace (tc_name tc)" parse rx en cfg tc]
  by (auto simp: decide_def split: prod.splits option.splits)

lemma run_executor_calls: "map te_call (fst (run_executor ts opts it tcs w)) = tcs"
proof -
  let ?env = "run_tool_env ts opts it tcs"
  have h: "eo_hooks (en_options ?env) = BuildDefaultToolHooks (ts_decode ts) (ts_rx ts) (ts_hooks ts) (ts_redact ts)"
    by (simp add: run_tool_env_def run_tool_options_def)
  have "te_call (seq_exec ?env w i) = tcs ! i" for i
    by (simp add: seq_exec_def run_call_def Let_def decide_default [OF h] split: prod.splits) (simp add: run_tool_env_def)
  moreover have "length (en_calls ?env) = length tcs" by (simp add: run_tool_env_def)
  ultimately show ?thesis
    using map_nth [of tcs]
    by (simp add: run_executor_def ExecuteToolCalls_seq List.map_filter_def filter_map comp_def)
qed

interpretation tools: tool_port "run_executor ts opts"
proof
  show "map (\<lambda>x. tc_id (te_call x)) (fst (run_executor ts opts it tcs w)) = map tc_id tcs" for it tcs w
    using arg_cong [OF run_executor_calls [of ts opts it tcs w], of "map tc_id"] by (simp add: comp_def)
qed

end
