(* ===== verification/Inbound.thy ===== *)
theory Inbound
  imports AgentRun "HOL-Library.AList"
begin

text \<open>
  An inbound message on its way to a session: \<^verbatim>\<open>pkg/bus/types.go\<close>, \<^verbatim>\<open>pkg/bus/reply_context.go\<close>, the key of
  the queue (\<^verbatim>\<open>getBucketKey\<close>, \<^verbatim>\<open>pkg/agent/loop.go\<close>) and the key of the session the message is processed in
  (\<^verbatim>\<open>resolveInboundSessionKey\<close>, \<^verbatim>\<open>resolveSystemMessageSessionKey\<close>, \<^verbatim>\<open>pkg/agent/run_pipeline_impl.go\<close>).
  The map of reply contexts is the list of its entries in the order Go iterates it, so what holds for
  every list holds for every order.
\<close>

section \<open>Messages\<close>

record peer =
  peer_kind :: string
  peer_id :: string

text \<open>Sender details and the media scope are not used here.\<close>

record inbound_message =
  im_channel :: string
  im_sender :: string
  im_chat :: string
  im_content :: string
  im_media :: "string list"
  im_peer :: peer
  im_message :: string
  im_session :: string
  im_metadata :: "string \<rightharpoonup> string"

text \<open>Reading a Go map: the empty string when the key is absent.\<close>

definition metadata :: "inbound_message \<Rightarrow> string \<Rightarrow> string" where
  "metadata m k = (case im_metadata m k of None \<Rightarrow> [] | Some v \<Rightarrow> v)"

record session_config =
  sc_dm_scope :: string
  sc_links :: identity_links

section \<open>Reply contexts\<close>

definition replyContextTTL :: duration where "replyContextTTL = 7 * 24 * nsHour"
definition replyContextMaxEntries :: nat where "replyContextMaxEntries = 4096"

record reply_entry =
  rx_session :: string
  rx_updated :: gtime

type_synonym reply_store = "(string \<times> reply_entry) list"

definition replyContextKey :: "string \<Rightarrow> string \<Rightarrow> string \<Rightarrow> string" where
  "replyContextKey channel chatID messageID =
     (let c = ToLower (TrimSpace channel); i = TrimSpace chatID; m = TrimSpace messageID in
      if c = [] \<or> i = [] \<or> m = [] then [] else c @ [CHR 0x00] @ i @ [CHR 0x00] @ m)"

definition prune_expired :: "gtime \<Rightarrow> reply_store \<Rightarrow> reply_store" where
  "prune_expired now s = filter (\<lambda>(k, e). \<not> Before (rx_updated e) (now - replyContextTTL)) s"

fun oldest_from :: "string \<Rightarrow> gtime \<Rightarrow> reply_store \<Rightarrow> string" where
  "oldest_from oldestKey oldest [] = oldestKey"
| "oldest_from oldestKey oldest ((k, e) # s) =
     (if oldestKey = [] \<or> Before (rx_updated e) oldest then oldest_from k (rx_updated e) s
      else oldest_from oldestKey oldest s)"

definition delete_key :: "string \<Rightarrow> reply_store \<Rightarrow> reply_store" where
  "delete_key k s = filter (\<lambda>(k', e). k' \<noteq> k) s"

lemma oldest_from_mem: "oldest_from k t s = k \<or> oldest_from k t s \<in> fst ` set s"
  by (induction s arbitrary: k t) (fastforce split: if_splits)+

lemma delete_key_shorter: "k \<in> fst ` set s \<Longrightarrow> length (delete_key k s) < length s"
  by (auto simp: delete_key_def intro!: length_filter_less)

function evict_oldest :: "reply_store \<Rightarrow> reply_store" where
  "evict_oldest s =
     (if length s \<le> replyContextMaxEntries then s
      else let k = oldest_from [] 0 s in if k = [] then s else evict_oldest (delete_key k s))"
  by auto
termination
proof (relation "measure length")
  fix s :: reply_store and k
  assume "k = oldest_from [] 0 s" "k \<noteq> []"
  then show "(delete_key k s, s) \<in> measure length"
    using oldest_from_mem[of "[]" 0 s] by (auto intro!: delete_key_shorter)
qed simp

definition pruneLocked :: "gtime \<Rightarrow> reply_store \<Rightarrow> reply_store" where
  "pruneLocked now s = (if s = [] then s else evict_oldest (prune_expired now s))"

text \<open>Assigning a key of the map: in place when it is there; a new one stands last here.\<close>

definition put_entry :: "string \<Rightarrow> reply_entry \<Rightarrow> reply_store \<Rightarrow> reply_store" where
  "put_entry k e s = AList.update k e s"

definition BindReplyContext :: "gtime \<Rightarrow> string \<Rightarrow> string \<Rightarrow> string \<Rightarrow> string \<Rightarrow> reply_store \<Rightarrow> reply_store" where
  "BindReplyContext now channel chatID messageID sessionKey s =
     (let key = replyContextKey channel chatID messageID; sk = TrimSpace sessionKey in
      if key = [] \<or> sk = [] then s
      else put_entry key \<lparr>rx_session = sk, rx_updated = now\<rparr> (pruneLocked now s))"

definition LookupReplyContext ::
  "gtime \<Rightarrow> string \<Rightarrow> string \<Rightarrow> string \<Rightarrow> reply_store \<Rightarrow> string option \<times> reply_store" where
  "LookupReplyContext now channel chatID messageID s =
     (let key = replyContextKey channel chatID messageID in
      if key = [] then (None, s)
      else let s' = pruneLocked now s in
        case map_of s' key of
          None \<Rightarrow> (None, s')
        | Some e \<Rightarrow> (Some (rx_session e), put_entry key (e\<lparr>rx_updated := now\<rparr>) s'))"


section \<open>Peers and settings\<close>

definition extractPeer :: "inbound_message \<Rightarrow> route_peer option" where
  "extractPeer msg =
     (let k = peer_kind (im_peer msg); i = peer_id (im_peer msg) in
      if k = [] then None
      else Some \<lparr>rp_kind = k,
             rp_id = (if i = [] then (if k = ''direct'' then im_sender msg else im_chat msg) else i)\<rparr>)"

definition extractParentPeer :: "inbound_message \<Rightarrow> route_peer option" where
  "extractParentPeer msg =
     (let k = metadata msg ''parent_peer_kind''; i = metadata msg ''parent_peer_id'' in
      if k = [] \<or> i = [] then None else Some \<lparr>rp_kind = k, rp_id = i\<rparr>)"

definition resolveInboundRoute :: "route_config \<Rightarrow> inbound_message \<Rightarrow> resolved_route" where
  "resolveInboundRoute rc msg = ResolveRoute rc
     \<lparr>ri_channel = im_channel msg, ri_account = metadata msg ''account_id'', ri_peer = extractPeer msg,
      ri_parent = extractParentPeer msg, ri_thread = metadata msg ''thread_id'',
      ri_guild = metadata msg ''guild_id'', ri_team = metadata msg ''team_id''\<rparr>"

definition configured_scope :: "session_config option \<Rightarrow> string" where
  "configured_scope cfg =
     (case cfg of None \<Rightarrow> DMScopeMain
      | Some c \<Rightarrow> let v = TrimSpace (sc_dm_scope c) in if v \<noteq> [] then v else DMScopeMain)"

definition configured_links :: "session_config option \<Rightarrow> identity_links" where
  "configured_links cfg = (case cfg of None \<Rightarrow> [] | Some c \<Rightarrow> sc_links c)"

definition conversation_key ::
  "session_config option \<Rightarrow> string \<Rightarrow> string \<Rightarrow> route_peer option \<Rightarrow> string \<Rightarrow> string" where
  "conversation_key cfg channel account p thread = CanonicalSessionKey (BuildConversationPeerSessionKey
     \<lparr>skp_agent = [], skp_channel = channel, skp_account = account, skp_peer = p, skp_thread = thread,
      skp_dm_scope = configured_scope cfg, skp_links = configured_links cfg\<rparr>)"

section \<open>The key of the queue and the key of the session\<close>

definition chat_key :: "inbound_message \<Rightarrow> string" where
  "chat_key msg = CanonicalSessionKey (TrimSpace (im_channel msg) @ '':'' @ TrimSpace (im_chat msg))"

definition buildConversationSessionKey :: "session_config option \<Rightarrow> inbound_message \<Rightarrow> string" where
  "buildConversationSessionKey cfg msg =
     (let k = conversation_key cfg (im_channel msg) (metadata msg ''account_id'') (extractPeer msg)
                (metadata msg ''thread_id'') in
      if k \<noteq> [] then k else chat_key msg)"

text \<open>The key a message brings along, when it may be used as it is.\<close>

definition explicit_key :: "inbound_message \<Rightarrow> string option" where
  "explicit_key msg =
     (let explicit = CanonicalSessionKey (im_session msg) in
      if explicit \<noteq> [] \<and> (HasPrefix explicit ''agent:'' \<or> HasPrefix explicit ''conv:''
                              \<or> IsInternalChannel (im_channel msg))
      then Some explicit else None)"

definition reply_candidates :: "inbound_message \<Rightarrow> string list" where
  "reply_candidates msg = map (\<lambda>k. TrimSpace (metadata msg k))
     [''reply_to_message_id'', ''parent_message_id'', ''root_message_id'', ''parent_id'', ''root_id'']"

fun first_reply_context ::
  "gtime \<Rightarrow> inbound_message \<Rightarrow> string list \<Rightarrow> reply_store \<Rightarrow> string option \<times> reply_store" where
  "first_reply_context now msg [] s = (None, s)"
| "first_reply_context now msg (c # cs) s =
     (if c = [] then first_reply_context now msg cs s
      else case LookupReplyContext now (im_channel msg) (im_chat msg) c s of
        (Some sk, s') \<Rightarrow>
          (if CanonicalSessionKey sk \<noteq> [] then (Some (CanonicalSessionKey sk), s')
           else first_reply_context now msg cs s')
      | (None, s') \<Rightarrow> first_reply_context now msg cs s')"

definition resolveInboundSessionKey ::
  "gtime \<Rightarrow> inbound_message \<Rightarrow> string \<Rightarrow> reply_store \<Rightarrow> string \<times> reply_store" where
  "resolveInboundSessionKey now msg conversationSessionKey s =
     (case explicit_key msg of
        Some k \<Rightarrow> (k, s)
      | None \<Rightarrow>
         (case first_reply_context now msg (reply_candidates msg) s of
            (Some k, s') \<Rightarrow> (k, s')
          | (None, s') \<Rightarrow> (conversationSessionKey, s')))"

text \<open>\<^verbatim>\<open>getBucketKey\<close>: where a system message comes from is read off its chat id.\<close>

definition bucket_origin :: "string \<Rightarrow> string \<times> string" where
  "bucket_origin chatID =
     (case Index chatID '':'' of
        Some idx \<Rightarrow> if idx > 0 then (TrimSpace (take idx chatID), TrimSpace (drop (idx + 1) chatID))
                     else (''cli'', TrimSpace chatID)
      | None \<Rightarrow> (''cli'', TrimSpace chatID))"

definition getBucketKey :: "session_config option \<Rightarrow> inbound_message \<Rightarrow> string" where
  "getBucketKey cfg msg =
     (case explicit_key msg of
        Some k \<Rightarrow> k
      | None \<Rightarrow>
         (let (channel, chat) = bucket_origin (im_chat msg);
              k = (if im_channel msg = ''system''
                   then conversation_key cfg channel (metadata msg ''account_id'')
                          (Some \<lparr>rp_kind = ''direct'', rp_id = chat\<rparr>) (metadata msg ''thread_id'')
                   else []) in
          if k \<noteq> [] then k
          else let key = conversation_key cfg (im_channel msg) (metadata msg ''account_id'') (extractPeer msg)
                           (metadata msg ''thread_id'') in
            if key = [] then chat_key msg else key))"

definition parseSystemMessageOrigin :: "string \<Rightarrow> string \<times> string" where
  "parseSystemMessageOrigin chatID =
     (case Index chatID '':'' of
        Some idx \<Rightarrow> if idx > 0 then (take idx chatID, drop (idx + 1) chatID) else (''cli'', chatID)
      | None \<Rightarrow> (''cli'', chatID))"

definition extractSystemMessageResult :: "string \<Rightarrow> string" where
  "extractSystemMessageResult s =
     (case Index s (''Result:'' @ [CHR 0x0A]) of Some idx \<Rightarrow> drop (idx + 8) s | None \<Rightarrow> s)"

definition resolveSystemMessageSessionKey ::
  "session_config option \<Rightarrow> inbound_message \<Rightarrow> string \<Rightarrow> string \<Rightarrow> string" where
  "resolveSystemMessageSessionKey cfg msg originChannel originChatID =
     (let k = CanonicalSessionKey (im_session msg) in
      if k \<noteq> [] then k
      else conversation_key cfg originChannel (metadata msg ''account_id'')
             (Some \<lparr>rp_kind = ''direct'', rp_id = originChatID\<rparr>) [])"

text \<open>A system message whose origin is internal is not processed.\<close>

definition session_of ::
  "session_config option \<Rightarrow> gtime \<Rightarrow> inbound_message \<Rightarrow> reply_store \<Rightarrow> string option \<times> reply_store" where
  "session_of cfg now msg s =
     (if im_channel msg = ''system'' then
        (let (channel, chat) = parseSystemMessageOrigin (im_chat msg) in
         ((if IsInternalChannel channel then None
           else Some (resolveSystemMessageSessionKey cfg msg channel chat)), s))
      else let (k, s') = resolveInboundSessionKey now msg (buildConversationSessionKey cfg msg) s in (Some k, s'))"

text \<open>A message that steers the run of its session.\<close>

definition extractSteeringContent :: "string \<Rightarrow> string option" where
  "extractSteeringContent s =
     (let raw = TrimSpace s; fields = Fields raw in
      if raw = [] \<or> length fields < 2 then None
      else let cmd = ToLower (TrimSpace (hd fields)); body = TrimSpace (drop (length (hd fields)) raw) in
        if cmd \<noteq> ''/steer'' \<and> cmd \<noteq> ''/steering'' \<or> body = [] then None else Some body)"

section \<open>The agent of a session\<close>

text \<open>The registry: the agents by normalised id, in the order Go iterates the map.\<close>

type_synonym 'a agent_registry = "(string \<times> 'a) list"

definition GetAgent :: "'a agent_registry \<Rightarrow> string \<Rightarrow> 'a option" where
  "GetAgent r agentID = map_of r (NormalizeAgentID agentID)"

definition GetDefaultAgent :: "'a agent_registry \<Rightarrow> 'a option" where
  "GetDefaultAgent r =
     (case map_of r ''main'' of Some a \<Rightarrow> Some a
      | None \<Rightarrow> (case r of [] \<Rightarrow> None | (i, a) # _ \<Rightarrow> Some a))"

definition session_agent :: "'a agent_registry \<Rightarrow> string \<Rightarrow> 'a option" where
  "session_agent r sessionKey =
     (case ParseAgentSessionKey sessionKey of None \<Rightarrow> None | Some p \<Rightarrow> GetAgent r (psk_agent p))"

definition resolveAgentForSession :: "'a agent_registry \<Rightarrow> string \<Rightarrow> resolved_route \<Rightarrow> 'a option" where
  "resolveAgentForSession r sessionKey route =
     (case session_agent r sessionKey of
        Some a \<Rightarrow> Some a
      | None \<Rightarrow> (case GetAgent r (rr_agent route) of Some a \<Rightarrow> Some a | None \<Rightarrow> GetDefaultAgent r))"

definition resolveSystemMessageAgent :: "'a agent_registry \<Rightarrow> string \<Rightarrow> 'a option" where
  "resolveSystemMessageAgent r sessionKey =
     (case session_agent r sessionKey of Some a \<Rightarrow> Some a | None \<Rightarrow> GetDefaultAgent r)"


section \<open>The store of reply contexts\<close>

text \<open>An entry the code can have made: under a key that is not empty, and each key once.\<close>

definition reply_store_ok :: "reply_store \<Rightarrow> bool" where
  "reply_store_ok s \<longleftrightarrow> distinct (map fst s) \<and> [] \<notin> fst ` set s"

declare evict_oldest.simps [simp del]

lemma distinct_filter_keys: "distinct (map fst s) \<Longrightarrow> distinct (map fst (filter p s))"
  by (rule distinct_map_filter)

lemma reply_store_ok_filter: "reply_store_ok s \<Longrightarrow> reply_store_ok (filter p s)"
  unfolding reply_store_ok_def by (auto simp: distinct_filter_keys)

lemma oldest_from_start: "s \<noteq> [] \<Longrightarrow> [] \<notin> fst ` set s \<Longrightarrow> oldest_from [] t s \<in> fst ` set s"
proof (cases s)
  case (Cons a s')
  moreover assume "[] \<notin> fst ` set s"
  ultimately show ?thesis using oldest_from_mem[of "fst a" "rx_updated (snd a)" s'] by (cases a) auto
qed auto

lemma evict_oldest_bound: "reply_store_ok s \<Longrightarrow> length (evict_oldest s) \<le> replyContextMaxEntries"
proof (induction s rule: evict_oldest.induct)
  case (1 s)
  let ?k = "oldest_from [] 0 s"
  show ?case
  proof (cases "length s \<le> replyContextMaxEntries")
    case False
    then have "s \<noteq> []" by auto
    then have "?k \<noteq> []" using oldest_from_start[of s 0] "1.prems" unfolding reply_store_ok_def by metis
    moreover have "reply_store_ok (delete_key ?k s)" using "1.prems" by (simp add: delete_key_def reply_store_ok_filter)
    ultimately show ?thesis using "1.IH"[OF False refl] False by (subst evict_oldest.simps) (simp add: Let_def)
  qed (simp add: evict_oldest.simps)
qed

lemma evict_oldest_subset: "set (evict_oldest s) \<subseteq> set s"
proof (induction s rule: evict_oldest.induct)
  case (1 s)
  then show ?case by (subst evict_oldest.simps) (auto simp: Let_def delete_key_def)
qed

lemma evict_oldest_ok: "reply_store_ok s \<Longrightarrow> reply_store_ok (evict_oldest s)"
proof (induction s rule: evict_oldest.induct)
  case (1 s)
  then show ?case by (subst evict_oldest.simps) (simp add: Let_def delete_key_def reply_store_ok_filter)
qed

lemma prune_subset: "set (pruneLocked now s) \<subseteq> set s"
  using evict_oldest_subset[of "prune_expired now s"] by (auto simp: pruneLocked_def prune_expired_def)

lemma prune_ok: "reply_store_ok s \<Longrightarrow> reply_store_ok (pruneLocked now s)"
  by (cases "s = []") (simp_all add: pruneLocked_def prune_expired_def reply_store_ok_filter evict_oldest_ok)

lemma prune_bound: "reply_store_ok s \<Longrightarrow> length (pruneLocked now s) \<le> replyContextMaxEntries"
  by (simp add: pruneLocked_def prune_expired_def reply_store_ok_filter evict_oldest_bound)

lemma prune_fresh: "(k, e) \<in> set (pruneLocked now s) \<Longrightarrow> rx_updated e \<ge> now - replyContextTTL"
  using evict_oldest_subset[of "prune_expired now s"]
  by (auto simp: pruneLocked_def prune_expired_def Before_def split: if_splits)

lemma prune_small: "length s \<le> replyContextMaxEntries \<Longrightarrow> pruneLocked now s = prune_expired now s"
  by (subst pruneLocked_def, subst evict_oldest.simps) (auto simp: prune_expired_def intro: le_trans[OF length_filter_le])

lemma put_entry_ok: "reply_store_ok s \<Longrightarrow> k \<noteq> [] \<Longrightarrow> reply_store_ok (put_entry k e s)"
  unfolding reply_store_ok_def put_entry_def set_map[symmetric] by (simp add: distinct_update update_keys)

lemma length_alist_update: "length (AList.update k e s) = (if k \<in> fst ` set s then length s else Suc (length s))"
  by (induction s) auto

lemma put_entry_length: "length (put_entry k e s) \<le> Suc (length s)"
  by (simp add: put_entry_def length_alist_update)

lemma put_entry_map: "map_of (put_entry k e s) = (map_of s)(k \<mapsto> e)"
  by (simp add: put_entry_def update_conv')

lemma bind_ok [preserve]: "reply_store_ok s \<Longrightarrow> reply_store_ok (BindReplyContext now c i m sk s)"
  by (simp add: BindReplyContext_def Let_def put_entry_ok prune_ok)

lemma lookup_ok [preserve]: "reply_store_ok s \<Longrightarrow> reply_store_ok (snd (LookupReplyContext now c i m s))"
  by (simp add: LookupReplyContext_def Let_def put_entry_ok prune_ok split: option.splits)

lemma bind_bound: "reply_store_ok s \<Longrightarrow> length s \<le> Suc replyContextMaxEntries
    \<Longrightarrow> length (BindReplyContext now c i m sk s) \<le> Suc replyContextMaxEntries"
  using put_entry_length[of "replyContextKey c i m" "\<lparr>rx_session = TrimSpace sk, rx_updated = now\<rparr>" "pruneLocked now s"]
    prune_bound[of s now] by (simp add: BindReplyContext_def Let_def)

lemma map_of_filter_keep:
  "distinct (map fst s) \<Longrightarrow> map_of s k = Some e \<Longrightarrow> p (k, e) \<Longrightarrow> map_of (filter p s) k = Some e"
  by (rule map_of_is_SomeI) (auto simp: distinct_filter_keys dest: map_of_SomeD)

text \<open>What the bus does with the store between two moments: bindings and lookups.\<close>

datatype reply_op =
    RxBind gtime string string string string
  | RxLookup gtime string string string

fun run_reply_op :: "reply_op \<Rightarrow> reply_store \<Rightarrow> reply_store" where
  "run_reply_op (RxBind t c i m sk) s = BindReplyContext t c i m sk s"
| "run_reply_op (RxLookup t c i m) s = snd (LookupReplyContext t c i m s)"

text \<open>An operation between \<open>lo\<close> and \<open>hi\<close> that does not bind the key anew.\<close>

fun spares :: "string \<Rightarrow> gtime \<Rightarrow> gtime \<Rightarrow> reply_op \<Rightarrow> bool" where
  "spares k lo hi (RxBind t c i m sk) \<longleftrightarrow> lo \<le> t \<and> t \<le> hi \<and> replyContextKey c i m \<noteq> k"
| "spares k lo hi (RxLookup t c i m) \<longleftrightarrow> lo \<le> t \<and> t \<le> hi"

definition holds_context :: "string \<Rightarrow> string \<Rightarrow> gtime \<Rightarrow> reply_store \<Rightarrow> bool" where
  "holds_context k sk lo s \<longleftrightarrow>
     reply_store_ok s \<and> (case map_of s k of None \<Rightarrow> False | Some e \<Rightarrow> rx_session e = sk \<and> lo \<le> rx_updated e)"

lemma bind_holds:
  assumes "reply_store_ok s" "replyContextKey c i m \<noteq> []" "TrimSpace sk \<noteq> []"
  shows "holds_context (replyContextKey c i m) (TrimSpace sk) t (BindReplyContext t c i m sk s)"
  using assms bind_ok[OF assms(1), of t c i m sk] by (simp add: holds_context_def BindReplyContext_def Let_def put_entry_map)

lemma prune_length: "length s \<le> replyContextMaxEntries \<Longrightarrow> length (pruneLocked t s) \<le> length s"
  by (simp add: prune_small prune_expired_def)

lemma prune_holds:
  assumes "holds_context k sk lo s" "length s \<le> replyContextMaxEntries" "t \<le> lo + replyContextTTL"
  shows "holds_context k sk lo (pruneLocked t s)"
proof -
  obtain e where e: "map_of s k = Some e" "rx_session e = sk" "lo \<le> rx_updated e" and ok: "reply_store_ok s"
    using assms(1) by (auto simp: holds_context_def split: option.splits)
  have "map_of (prune_expired t s) k = Some e"
    unfolding prune_expired_def by (rule map_of_filter_keep) (use e ok assms(3) in \<open>auto simp: reply_store_ok_def Before_def\<close>)
  then show ?thesis using e prune_ok[OF ok] by (simp add: holds_context_def prune_small[OF assms(2)])
qed

lemma lookup_holds:
  assumes "holds_context k sk lo s" "length s \<le> replyContextMaxEntries" "t \<le> lo + replyContextTTL"
    and "replyContextKey c i m = k" "k \<noteq> []"
  shows "fst (LookupReplyContext t c i m s) = Some sk"
  using prune_holds[OF assms(1-3)] assms(4,5) by (auto simp: LookupReplyContext_def holds_context_def Let_def split: option.splits)

lemma reply_op_length:
  assumes "length s \<le> replyContextMaxEntries"
  shows "length (run_reply_op op s) \<le> Suc (length s)"
proof -
  have "length (put_entry k e (pruneLocked t s)) \<le> Suc (length s)" for k e t
    using put_entry_length[of k e "pruneLocked t s"] prune_length[OF assms, of t] by simp
  moreover have "length (pruneLocked t s) \<le> Suc (length s)" for t using prune_length[OF assms, of t] by simp
  ultimately show ?thesis
    by (cases op) (auto simp: BindReplyContext_def LookupReplyContext_def Let_def split: option.splits)
qed

lemma reply_op_holds:
  assumes "holds_context k sk lo s" "length s \<le> replyContextMaxEntries" "spares k lo (lo + replyContextTTL) op"
  shows "holds_context k sk lo (run_reply_op op s)"
proof (cases op)
  case (RxBind t c i m sk')
  then have "holds_context k sk lo (pruneLocked t s)" using prune_holds[OF assms(1,2)] assms(3) by simp
  then show ?thesis using RxBind assms bind_ok[of s t c i m sk']
    by (auto simp: BindReplyContext_def holds_context_def Let_def put_entry_map)
next
  case (RxLookup t c i m)
  then have h: "holds_context k sk lo (pruneLocked t s)" using prune_holds[OF assms(1,2)] assms(3) by simp
  have "reply_store_ok (run_reply_op op s)" using RxLookup assms(1) lookup_ok by (simp add: holds_context_def)
  then show ?thesis using RxLookup assms h
    by (auto simp: LookupReplyContext_def holds_context_def Let_def put_entry_map split: option.splits)
qed

text \<open>What is bound is found again under every spelling of the channel and the ids, within the seven days,
  while the store does not fill up, whatever else is bound and looked up in between.\<close>

lemma reply_ops_hold:
  assumes "holds_context k sk lo s" "length s + length ops \<le> replyContextMaxEntries" "list_all (spares k lo (lo + replyContextTTL)) ops"
  shows "holds_context k sk lo (fold run_reply_op ops s) \<and> length (fold run_reply_op ops s) \<le> replyContextMaxEntries"
  using assms
proof (induction ops arbitrary: s)
  case (Cons op ops)
  then have l: "length s \<le> replyContextMaxEntries" by simp
  have "holds_context k sk lo (run_reply_op op s)" using reply_op_holds[OF Cons.prems(1) l] Cons.prems(3) by simp
  moreover have "length (run_reply_op op s) + length ops \<le> replyContextMaxEntries"
    using reply_op_length[OF l, of op] Cons.prems(2) by simp
  ultimately show ?case using Cons.IH Cons.prems(3) by simp
qed simp


section \<open>Which session a message reaches\<close>

lemma direct_conversation_key:
  "conversation_key cfg (TrimSpace c) acc (Some \<lparr>rp_kind = ''direct'', rp_id = TrimSpace i\<rparr>) th
   = conversation_key cfg c acc (Some \<lparr>rp_kind = ''direct'', rp_id = i\<rparr>) []"
proof -
  have k: "TrimSpace ''direct'' = ''direct''" by (simp add: go_defs)
  have n: "normalizeChannel (TrimSpace c) = normalizeChannel c"
    by (simp add: normalizeChannel_def TrimSpace_ToLower)
  have l: "resolveLinkedPeerID l (TrimSpace c) p = resolveLinkedPeerID l c p" for l p
    by (simp add: resolveLinkedPeerID_def link_candidates_def Let_def)
  let ?a = "\<lparr>skp_agent = [], skp_channel = TrimSpace c, skp_account = acc,
      skp_peer = Some \<lparr>rp_kind = ''direct'', rp_id = TrimSpace i\<rparr>, skp_thread = th,
      skp_dm_scope = configured_scope cfg, skp_links = configured_links cfg\<rparr>"
  let ?b = "\<lparr>skp_agent = [], skp_channel = c, skp_account = acc,
      skp_peer = Some \<lparr>rp_kind = ''direct'', rp_id = i\<rparr>, skp_thread = [],
      skp_dm_scope = configured_scope cfg, skp_links = configured_links cfg\<rparr>"
  have "peer_kind_of (skp_peer ?a) = ''direct''" "peer_kind_of (skp_peer ?b) = ''direct''"
    by (simp_all add: peer_kind_of_def k)
  moreover have "effective_dm_scope ?a = effective_dm_scope ?b" by (simp add: effective_dm_scope_def)
  moreover have "direct_peer_id ?a sc = direct_peer_id ?b sc" for sc
    by (simp add: direct_peer_id_def peer_id_of_def l Let_def)
  moreover have "normalizeChannel (skp_channel ?a) = normalizeChannel (skp_channel ?b)" by (simp add: n)
  moreover have "skp_account ?a = skp_account ?b" by simp
  ultimately have "BuildConversationPeerSessionKey ?a = BuildConversationPeerSessionKey ?b"
    unfolding BuildConversationPeerSessionKey_def Let_def by (simp only: simp_thms if_True)
  then show ?thesis by (simp add: conversation_key_def)
qed

lemma conversation_key_conv: "HasPrefix (conversation_key cfg c a p t) ''conv:''"
proof -
  have k: "TrimSpace (''conv:'' @ r) = ''conv:'' @ TrimRight is_space r" for r
    by (simp add: TrimSpace_def TrimLeft_def TrimRight_def is_space_def byte_of_def dropWhile_append)
  have "HasPrefix (CanonicalSessionKey (''conv:'' @ r)) ''conv:''" for r
    unfolding CanonicalSessionKey_def k by (simp add: HasPrefix_iff ToLower_def lower_char_def is_upper_def byte_of_def)
  moreover have "\<exists>r. BuildConversationPeerSessionKey ps = ''conv:'' @ r" for ps
    by (auto simp: BuildConversationPeerSessionKey_def BuildConversationMainSessionKey_def Let_def)
  ultimately show ?thesis unfolding conversation_key_def by metis
qed

lemma conversation_key_nonempty [simp]: "conversation_key cfg c a p t \<noteq> []"
  using conversation_key_conv[of cfg c a p t] by (auto simp: HasPrefix_iff)

lemma system_bucket:
  assumes "im_channel msg = ''system''"
  shows "getBucketKey cfg msg =
    (let (c, i) = parseSystemMessageOrigin (im_chat msg) in resolveSystemMessageSessionKey cfg msg c i)"
proof (cases "CanonicalSessionKey (im_session msg) = []")
  case True
  then have "explicit_key msg = None" by (simp add: explicit_key_def)
  moreover have "conversation_key cfg (fst (bucket_origin ch)) acc (Some \<lparr>rp_kind = ''direct'', rp_id = snd (bucket_origin ch)\<rparr>) th
      = conversation_key cfg (fst (parseSystemMessageOrigin ch)) acc
          (Some \<lparr>rp_kind = ''direct'', rp_id = snd (parseSystemMessageOrigin ch)\<rparr>) []" for ch acc th
  proof -
    have cli: "TrimSpace ''cli'' = ''cli''" by (simp add: go_defs)
    show ?thesis
      unfolding bucket_origin_def parseSystemMessageOrigin_def
      by (auto split: option.splits simp: direct_conversation_key direct_conversation_key[where c = "''cli''", unfolded cli])
  qed
  ultimately show ?thesis using assms True
    by (simp add: getBucketKey_def resolveSystemMessageSessionKey_def case_prod_beta Let_def)
next
  case False
  then show ?thesis using assms
    by (simp add: getBucketKey_def explicit_key_def IsInternalChannel_def resolveSystemMessageSessionKey_def case_prod_beta Let_def)
qed

text \<open>Without a reply context the key of the queue is the key of the session.\<close>

lemma bucket_is_session:
  assumes "im_channel msg = ''system'' \<or> explicit_key msg \<noteq> None \<or> fst (first_reply_context now msg (reply_candidates msg) s) = None"
    and "im_channel msg = ''system'' \<longrightarrow> \<not> IsInternalChannel (fst (parseSystemMessageOrigin (im_chat msg)))"
  shows "fst (session_of cfg now msg s) = Some (getBucketKey cfg msg)"
proof (cases "im_channel msg = ''system''")
  case True
  then show ?thesis using assms(2) by (simp add: session_of_def system_bucket case_prod_beta Let_def)
next
  case False
  then show ?thesis using assms(1)
    by (auto simp: session_of_def resolveInboundSessionKey_def getBucketKey_def buildConversationSessionKey_def
        case_prod_beta Let_def split: option.splits)
qed


section \<open>Properties\<close>

lemma replyContextKey_trim: "replyContextKey c i (TrimSpace m) = replyContextKey c i m"
  by (simp add: replyContextKey_def)

lemma reply_session_held:
  assumes "holds_context k sk lo s" "length s \<le> replyContextMaxEntries" "t \<le> lo + replyContextTTL"
    and "im_channel msg \<noteq> ''system''" "explicit_key msg = None"
    and "replyContextKey (im_channel msg) (im_chat msg) (metadata msg ''reply_to_message_id'') = k" "k \<noteq> []" "TrimSpace sk \<noteq> []"
  shows "fst (session_of cfg t msg s) = Some (CanonicalSessionKey sk)"
proof -
  let ?id = "TrimSpace (metadata msg ''reply_to_message_id'')"
  have id: "?id \<noteq> []" using assms(6,7) by (auto simp: replyContextKey_def Let_def split: if_splits)
  have "fst (LookupReplyContext t (im_channel msg) (im_chat msg) ?id s) = Some sk"
    by (rule lookup_holds[OF assms(1-3) _ assms(7)]) (simp add: replyContextKey_trim assms(6))
  then obtain s' where l: "LookupReplyContext t (im_channel msg) (im_chat msg) ?id s = (Some sk, s')"
    by (metis prod.collapse)
  have "CanonicalSessionKey sk \<noteq> []" using assms(8) by (simp add: CanonicalSessionKey_def)
  then have "first_reply_context t msg (reply_candidates msg) s = (Some (CanonicalSessionKey sk), s')"
    using id l by (simp add: reply_candidates_def)
  then show ?thesis using assms(4,5) by (simp add: session_of_def resolveInboundSessionKey_def case_prod_beta Let_def)
qed

lemma reply_session:
  assumes "reply_store_ok s" "length s + length ops < replyContextMaxEntries"
    and "list_all (spares (replyContextKey c i m) t (t + replyContextTTL)) ops"
    and "im_channel msg \<noteq> ''system''" "explicit_key msg = None"
    and "replyContextKey (im_channel msg) (im_chat msg) (metadata msg ''reply_to_message_id'') \<noteq> []"
    and "replyContextKey (im_channel msg) (im_chat msg) (metadata msg ''reply_to_message_id'') = replyContextKey c i m"
    and "TrimSpace sk \<noteq> []" "t' \<le> t + replyContextTTL"
  shows "fst (session_of cfg t' msg (fold run_reply_op ops (BindReplyContext t c i m sk s))) = Some (CanonicalSessionKey sk)"
proof -
  have "holds_context (replyContextKey c i m) (TrimSpace sk) t (BindReplyContext t c i m sk s)"
    using bind_holds[OF assms(1)] assms(6-8) by simp
  moreover have "length (BindReplyContext t c i m sk s) + length ops \<le> replyContextMaxEntries"
    using reply_op_length[of s "RxBind t c i m sk"] assms(2) by simp
  ultimately have "holds_context (replyContextKey c i m) (TrimSpace sk) t (fold run_reply_op ops (BindReplyContext t c i m sk s))"
      "length (fold run_reply_op ops (BindReplyContext t c i m sk s)) \<le> replyContextMaxEntries"
    using reply_ops_hold assms(3) by blast+
  from reply_session_held[OF this assms(9,4,5,7)] show ?thesis
    using assms(6-8) by (simp add: CanonicalSessionKey_def)
qed

definition ex_reply :: "string \<Rightarrow> inbound_message" where
  "ex_reply i = \<lparr>im_channel = ''telegram'', im_sender = ''7'', im_chat = ''42'', im_content = ''ok'', im_media = [],
     im_peer = \<lparr>peer_kind = ''group'', peer_id = ''42''\<rparr>, im_message = ''9'', im_session = [],
     im_metadata = (if i = [] then Map.empty else [''reply_to_message_id'' \<mapsto> i])\<rparr>"

lemma ex_reply_explicit: "explicit_key (ex_reply i) = None"
  by (simp add: explicit_key_def ex_reply_def CanonicalSessionKey_def)

text \<open>A reply reaches the session that answered: when a message of a chat was bound to a session and the
  store of reply contexts does not fill up, a message that names it in \<open>reply_to_message_id\<close> within the seven
  days is processed in that session, in canonical spelling, unless it brings a usable key itself.\<close>
theorem reply_reaches_session:
  assumes "reply_store_ok s" "length s < replyContextMaxEntries"
    and "im_channel msg \<noteq> ''system''" "explicit_key msg = None"
    and "replyContextKey (im_channel msg) (im_chat msg) (metadata msg ''reply_to_message_id'') \<noteq> []"
    and "replyContextKey (im_channel msg) (im_chat msg) (metadata msg ''reply_to_message_id'') = replyContextKey c i m"
    and "TrimSpace sk \<noteq> []" "t' \<le> t + replyContextTTL"
  shows "fst (session_of cfg t' msg (BindReplyContext t c i m sk s)) = Some (CanonicalSessionKey sk)"
  using reply_session[of s "[]"] assms by simp

theorem reply_reaches_session_witness:
  "fst (session_of None 1000 (ex_reply ''8'') (BindReplyContext 0 '' Telegram'' ''42'' ''8'' ''conv:cron:daily'' []))
    = Some ''conv:cron:daily''"
proof -
  have k: "replyContextKey ''telegram'' ''42'' ''8'' \<noteq> []" "replyContextKey '' Telegram'' ''42'' ''8'' \<noteq> []"
    "replyContextKey ''telegram'' ''42'' ''8'' = replyContextKey '' Telegram'' ''42'' ''8''"
    "CanonicalSessionKey ''conv:cron:daily'' = ''conv:cron:daily''" "TrimSpace ''conv:cron:daily'' \<noteq> []"
    by code_simp+
  have m: "im_channel (ex_reply ''8'') = ''telegram''" "im_chat (ex_reply ''8'') = ''42''"
    "metadata (ex_reply ''8'') ''reply_to_message_id'' = ''8''"
    by (simp_all add: ex_reply_def metadata_def)
  show ?thesis
    using reply_reaches_session[of "[]" "ex_reply ''8''" "'' Telegram''" "''42''" "''8''" "''conv:cron:daily''" 1000 0 None]
    by (simp add: m k ex_reply_explicit reply_store_ok_def replyContextMaxEntries_def replyContextTTL_def nsHour_def nsSecond_def)
qed

text \<open>The queue does not know the reply contexts: a message that answers a report in a chat and a message that
  brings the key of the reporting session reach one session but wait under different keys of the queue.\<close>
theorem reply_splits_queue:
  "\<exists>(m1 :: inbound_message) (m2 :: inbound_message) (s :: reply_store) (now :: gtime).
     fst (session_of None now m1 s) = fst (session_of None now m2 s) \<and> getBucketKey None m1 \<noteq> getBucketKey None m2"
proof (intro exI conjI)
  let ?m1 = "ex_reply ''8''" and ?m2 = "ex_reply []\<lparr>im_session := ''conv:cron:daily''\<rparr>"
  let ?s = "BindReplyContext 0 ''telegram'' ''42'' ''8'' ''conv:cron:daily'' []"
  have k: "replyContextKey ''telegram'' ''42'' ''8'' \<noteq> []"
    "CanonicalSessionKey ''conv:cron:daily'' = ''conv:cron:daily''" "TrimSpace ''conv:cron:daily'' \<noteq> []"
    by code_simp+
  have m: "im_channel ?m1 = ''telegram''" "im_chat ?m1 = ''42''" "metadata ?m1 ''reply_to_message_id'' = ''8''"
    by (simp_all add: ex_reply_def metadata_def)
  have x: "explicit_key ?m2 = Some ''conv:cron:daily''"
    unfolding explicit_key_def by (simp add: ex_reply_def k HasPrefix_def)
  have "fst (session_of None 1000 ?m1 ?s) = Some ''conv:cron:daily''"
    using reply_session[of "[]" "[]" "''telegram''" "''42''" "''8''" 0 ?m1 "''conv:cron:daily''" 1000 None]
    by (simp add: m k ex_reply_explicit reply_store_ok_def replyContextMaxEntries_def replyContextTTL_def nsHour_def nsSecond_def)
  moreover have "fst (session_of None 1000 ?m2 ?s) = Some ''conv:cron:daily''"
    using x by (simp add: session_of_def resolveInboundSessionKey_def ex_reply_def)
  ultimately show "fst (session_of None 1000 ?m1 ?s) = fst (session_of None 1000 ?m2 ?s)" by simp
  have "getBucketKey None ?m1 = conversation_key None ''telegram'' [] (Some \<lparr>rp_kind = ''group'', rp_id = ''42''\<rparr>) []"
    unfolding getBucketKey_def ex_reply_explicit by (simp add: ex_reply_def metadata_def extractPeer_def case_prod_beta Let_def)
  also have "\<dots> = ''conv:telegram:group:42''" by code_simp
  finally show "getBucketKey None ?m1 \<noteq> getBucketKey None ?m2" by (simp add: getBucketKey_def x)
qed

end
