(* ===== verification/RunProperties.thy ===== *)
theory RunProperties
  imports AgentRun
begin

text \<open>
  The properties of a run (AgentRun): its requests and its session stay well formed, its budgets hold, what
  an override of the model and a retry after a timeout really do, and what steering messages do to answers.
  The lemmas on whole runs come from the locale of the tool port, here on the executor of ToolExec.
\<close>

section \<open>Lemmas: the start of a run\<close>

lemma resolve_media_alike: "list_all2 alike msgs (resolveMediaRefs r msgs)"
  by (auto simp: resolveMediaRefs_def list_all2_map2 alike_def intro!: list_all2_refl split: option.splits)

lemma open_end_alike:
  assumes "open_end h" "list_all2 alike h h'"
  shows "open_end h'"
proof -
  have "h \<noteq> []" "alike (last h) (last h')" using assms alikes_last by (auto simp: open_end_def)
  with assms accepted_alike alike_facts [of "last h" "last h'"] show ?thesis
    by (auto simp: open_end_def)
qed

lemma turn_open_alike: "turn_open msgs \<Longrightarrow> list_all2 alike msgs msgs' \<Longrightarrow> turn_open msgs'"
  by (cases msgs; cases msgs') (auto simp: turn_open_def open_end_alike alike_def)

lemma user_input_end: "accepted h \<Longrightarrow> open_end (h @ [buildUserInputMessage text med])"
  using user_message_plain by (auto simp: open_end_def speaks_def intro: accepted.said)

lemma start_open:
  assumes "TrimSpace (buildRunUserMessage env) \<noteq> []" "tidy None (recorded env st)"
  shows "turn_open (st_messages (prepareRun env st))"
proof -
  have "turn_open (BuildMessagesForSession s pp h sm (buildRunUserMessage env) med)" if "tidy None h" for s pp h sm med
    using assms(1) user_input_end [OF request_history_accepted [OF that]] by (simp add: build_messages_eq turn_open_def)
  then have "turn_open (resolveMediaRefs r (BuildMessagesForSession s pp h sm (buildRunUserMessage env) med))"
    if "tidy None h" for r s pp h sm med
    using turn_open_alike resolve_media_alike that by blast
  from this [OF assms(2)] this [of "[]"] show ?thesis
    by (simp add: prepareRun_def recorded_def resolveRunModel_def Let_def split: prod.splits option.splits)
qed

lemma start_frame [simp]:
  "st_requests (prepareRun env st) = st_requests st" "st_iteration (prepareRun env st) = st_iteration st"
  "st_used (prepareRun env st) = st_used st" "st_cooldown (prepareRun env st) = st_cooldown st"
  "st_final (prepareRun env st) = st_final st"
  by (simp_all add: prepareRun_def resolveRunModel_def Let_def split: prod.splits option.splits)

lemma final_frame:
  "st_requests (fst (finalizeRun env st)) = st_requests st" "st_iteration (fst (finalizeRun env st)) = st_iteration st"
  "st_used (fst (finalizeRun env st)) = st_used st"
  by (simp_all add: finalizeRun_def Let_def)

text \<open>A run is its loop, between the start and the answer.\<close>

lemma run_cases:
  obtains st1 st2 err where "runLLMIteration env (addSessionMessageAndSave env ''user'' (po_userMessage (re_opts env)) (prepareRun env st)) = (st2, err)"
    and "runAgentLoop env st = (case err of Some e \<Rightarrow> (st2, Inl e)
           | None \<Rightarrow> (case finalizeRun env st2 of (st3, text, job) \<Rightarrow> (st3, Inr (text, job))))"
  by (cases "runLLMIteration env (addSessionMessageAndSave env ''user'' (po_userMessage (re_opts env)) (prepareRun env st))")
    (auto simp: runAgentLoop_def Let_def split: option.splits)

lemma run_state:
  assumes "runLLMIteration env (addSessionMessageAndSave env ''user'' (po_userMessage (re_opts env)) (prepareRun env st)) = (st2, err)"
  shows "fst (runAgentLoop env st) = (case err of Some _ \<Rightarrow> st2 | None \<Rightarrow> fst (finalizeRun env st2))"
  using assms by (auto simp: runAgentLoop_def Let_def split: option.splits prod.splits)

text \<open>A concrete run: the model calls a tool, then answers.\<close>

definition ex_opts :: process_options where
  "ex_opts = \<lparr>po_sessionKey = ''conv:main'', po_channel = ''telegram'', po_chatID = ''7'', po_senderID = ''u'',
     po_userMessage = ''hello'', po_media = [], po_defaultResponse = ''nothing to say'', po_enableSummary = False,
     po_sendResponse = True, po_noHistory = False, po_planMode = False\<rparr>"

definition ex_answer :: "string \<Rightarrow> tool_call list \<Rightarrow> llm_response" where
  "ex_answer text tcs = \<lparr>lr_content = text, lr_reasoningContent = [], lr_toolCalls = tcs, lr_usage = None\<rparr>"

definition ex_setup :: "int tool_setup" where
  "ex_setup = \<lparr>ts_registry = Some (Register reader []),
     ts_context = en_context (example_env True),
     ts_config = \<lparr>tg_parallel = \<lparr>pc_enabled = False, pc_max = 1, pc_mode = [], pc_overrides = []\<rparr>,
                  tg_template_enabled = False, tg_template_schema = False, tg_hooks = []\<rparr>,
     ts_hooks = False, ts_redact = \<lparr>rd_enabled = False, rd_llm = False, rd_user = False, rd_jsonFields = []\<rparr>,
     ts_decode = (\<lambda>_. None), ts_rx = id, ts_workspace = ''/w'', ts_runID = [], ts_isResume = False,
     ts_maxChars = 100, ts_estop = (\<lambda>_ _. NoEstopFile)\<rparr>"

definition ex_env :: "int run_env" where
  "ex_env = \<lparr>re_agent = \<lparr>ag_id = ''main'', ag_model = ''gpt-a'', ag_maxIterations = 5, ag_candidates = [],
       ag_compaction = ex_agent [], ag_settings = ex_settings False\<rparr>,
     re_opts = ex_opts,
     re_downgrade = \<lparr>dp_enabled = False, dp_threshold = 0, dp_window = 0, dp_ttl = 0\<rparr>,
     re_restricted = [], re_maxWallTime = 0, re_maxToolCalls = 3, re_elapsed = (\<lambda>_. 0),
     re_chat = (\<lambda>it retry msgs m. Inr (if it = 1 then ex_answer [] [example_call ''1'' ''read_file'']
                                        else ex_answer ''done'' [])),
     re_turns = (\<lambda>it retry msgs i. \<lparr>tn_canceled_before = False, tn_now_check = 0, tn_now_reason = 0, tn_now_detail = 0,
        tn_now_remaining = 0, tn_outcome = Inr (ex_answer [] []), tn_elapsed = 0, tn_canceled_after = False, tn_now_fail = 0\<rparr>),
     re_steering = (\<lambda>_. []),
     re_prompt = (\<lambda>_ _. \<lparr>pp_static = ''You are an assistant.'', pp_dynamic = [], pp_memory = None, pp_retrieved = []\<rparr>),
     re_media = None, re_parse = (\<lambda>_. None), re_tools = run_executor ex_setup ex_opts,
     re_worlds = ex_worlds, re_now = (\<lambda>_. 0), re_llm = (\<lambda>_ _. ex_llm), re_organize = (\<lambda>_. None),
     re_summarizing = [], re_meanwhile = (\<lambda>_ _. id)\<rparr>"

definition ex_talked :: "message list" where
  "ex_talked = [ex_say ''user'' ''hi'', ex_say ''assistant'' ''good morning'']"

definition ex_start :: "int run_state" where
  "ex_start = fresh_run (Compaction.ex_store False ex_talked) NewCooldownTracker [] 7"

lemma direct_env:
  assumes "length (ag_candidates (re_agent env)) \<le> 1" "\<And>it retry msgs m. \<exists>resp. re_chat env it retry msgs m = Inr resp"
  shows "\<exists>resp. performLLMCall env retry st
    = (note_requests [st_model st] st,
       Inr \<lparr>cr_response = resp, cr_model = st_model st, cr_attempts = []\<rparr>)"
    and "never_too_long env"
proof -
  show 1: "\<exists>resp. performLLMCall env retry st
    = (note_requests [st_model st] st,
       Inr \<lparr>cr_response = resp, cr_model = st_model st, cr_attempts = []\<rparr>)" for retry st
    using assms(1) assms(2) [of "st_iteration st" retry "st_messages st" "st_model st"]
    by (auto simp: performLLMCall_def direct_call_def Let_def)
  show "never_too_long env"
    unfolding never_too_long_def using 1 by (metis Inl_Inr_False snd_conv)
qed

lemma ex_env_facts:
  "never_too_long ex_env" "answers ex_env resp \<Longrightarrow> good_calls (lr_toolCalls resp)"
  "re_tools ex_env = run_executor ex_setup (re_opts ex_env)" "live ex_env ex_start" "recorded ex_env ex_start = ex_talked"
  "TrimSpace (buildRunUserMessage ex_env) \<noteq> []" "accepted ex_talked"
proof -
  show "never_too_long ex_env" by (rule direct_env(2)) (simp_all add: ex_env_def)
  show "answers ex_env resp \<Longrightarrow> good_calls (lr_toolCalls resp)"
    by (auto simp: answers_def ex_env_def ex_answer_def good_calls_def good_ids_def example_call_def split: if_splits)
  show "re_tools ex_env = run_executor ex_setup (re_opts ex_env)" by (simp add: ex_env_def)
  show "live ex_env ex_start"
    unfolding live_def ex_start_def fresh_run_def ex_env_def ex_opts_def run_env.simps run_state.simps process_options.simps by code_simp
  show "recorded ex_env ex_start = ex_talked"
    unfolding recorded_def ex_start_def fresh_run_def ex_env_def ex_opts_def run_env.simps run_state.simps process_options.simps by code_simp
  show "TrimSpace (buildRunUserMessage ex_env) \<noteq> []"
    unfolding buildRunUserMessage_def ex_env_def ex_opts_def run_env.simps run_state.simps process_options.simps by code_simp
  have "accepted (([] @ [ex_say ''user'' ''hi'']) @ [ex_say ''assistant'' ''good morning''])"
    by (intro accepted.said accepted.nothing) (simp_all add: ex_say_def speaks_def calls_def)
  then show "accepted ex_talked" by (simp add: ex_talked_def)
qed


section \<open>Requests, session and budgets\<close>

text \<open>
  C1: Every request a run sends is one that providers accept: the system prompt, then messages of user and
  assistant and tool turns in which every call has exactly one result, directly after it, and no other result
  stands, ended by the user or by tool results.  This needs a message of the user that is not blank, a stored
  history that is tidy (no surplus result after an answered turn), call ids of the provider that are there and
  differ within an answer, and that no request is too long for the model: compactions in between are not covered.
\<close>

theorem requests_wellformed:
  assumes "re_tools env = run_executor ts (re_opts env)" "never_too_long env"
    and "\<And>resp. answers env resp \<Longrightarrow> good_calls (lr_toolCalls resp)"
    and "TrimSpace (buildRunUserMessage env) \<noteq> []" "st_requests st = []" "tidy None (recorded env st)"
  shows "\<forall>rq \<in> set (st_requests (fst (runAgentLoop env st))). turn_open (rq_messages rq)"
proof -
  let ?st1 = "addSessionMessageAndSave env ''user'' (po_userMessage (re_opts env)) (prepareRun env st)"
  obtain st2 err where r: "runLLMIteration env ?st1 = (st2, err)" by fastforce
  have "\<forall>rq \<in> set (st_requests st2). turn_open (rq_messages rq)"
    using tools.run_requests [OF assms(1-3) r [unfolded runLLMIteration_def]] start_open [OF assms(4,6)] assms(5) by simp
  then show ?thesis unfolding run_state [OF r] by (cases err) (simp_all add: final_frame)
qed

theorem requests_wellformed_witness:
  "list_all (\<lambda>rq. turn_open (rq_messages rq)) (st_requests (fst (runAgentLoop ex_env ex_start)))"
  unfolding list_all_iff by (rule requests_wellformed [OF ex_env_facts(3,1,2,6)])
    (use ex_env_facts(5,7) accepted_tidy in \<open>simp_all add: ex_start_def fresh_run_def\<close>)

text \<open>
  C2: A run leaves its session as the next one needs it: the history only grows, by the user's message, the
  tool turns (each call with its one result) and steering messages, and by the answer at the end if there is
  one; a history that providers accept before is one afterwards, also when the run ends in an error.  This is for
  a session in memory, call ids of the provider that are there and differ within an answer, and runs in which no
  request is too long for the model: otherwise a compaction rewrites the history.
\<close>

theorem session_stays_wellformed:
  assumes "re_tools env = run_executor ts (re_opts env)" "never_too_long env"
    and "\<And>resp. answers env resp \<Longrightarrow> good_calls (lr_toolCalls resp)"
    and "live env st" "accepted (recorded env st)" and run: "runAgentLoop env st = (st', res)"
  shows "accepted (recorded env st') \<and> prefix (recorded env st @ [plain_message ''user'' (po_userMessage (re_opts env))]) (recorded env st')
    \<and> (case res of Inl _ \<Rightarrow> True | Inr (text, job) \<Rightarrow> last (recorded env st') = plain_message ''assistant'' text)"
proof -
  let ?u = "plain_message ''user'' (po_userMessage (re_opts env))"
  let ?st1 = "addSessionMessageAndSave env ''user'' (po_userMessage (re_opts env)) (prepareRun env st)"
  obtain st2 err where r: "runLLMIteration env ?st1 = (st2, err)" by fastforce
  have 1: "records env [?u] st ?st1" using records_trans [OF records_start records_saved] by simp
  obtain new where 2: "records env new ?st1 st2" "keeps_open new"
    using tools.run_grows [OF assms(1-3) r [unfolded runLLMIteration_def]] by (auto simp: grows_def)
  have h2: "live env st2" "recorded env st2 = (recorded env st @ [?u]) @ new"
    using records_trans [OF 1 2(1)] assms(4) by (simp_all add: records_def)
  have "open_end ((recorded env st @ [?u]) @ new)"
    using open_end_user [OF assms(5)] 2(2) unfolding keeps_open_def by blast
  then have t2: "accepted (recorded env st2)" unfolding h2(2) open_end_def by blast
  show ?thesis
  proof (cases err)
    case None
    obtain st3 ans job where f: "finalizeRun env st2 = (st3, ans, job)" by (cases "finalizeRun env st2")
    have res: "st' = st3" "res = Inr (ans, job)" using run r None f by (auto simp: runAgentLoop_def Let_def)
    have "ans = (if st_final st2 = [] then po_defaultResponse (re_opts env) else st_final st2)"
      using f by (auto simp: finalizeRun_def Let_def)
    then have h3: "recorded env st3 = recorded env st2 @ [plain_message ''assistant'' ans]"
      using records_final [of env st2] f h2(1) by (simp add: records_def)
    have "accepted (recorded env st2 @ [plain_message ''assistant'' ans])"
      using t2 by (auto intro!: accepted.said simp: plain_message_def speaks_def calls_def)
    with h2 h3 res show ?thesis by simp
  next
    case (Some e)
    then have "st' = st2" "res = Inl e" using run r by (auto simp: runAgentLoop_def Let_def)
    with h2 t2 show ?thesis by simp
  qed
qed

theorem session_stays_wellformed_witness:
  "accepted (recorded ex_env (fst (runAgentLoop ex_env ex_start)))
   \<and> prefix (ex_talked @ [plain_message ''user'' ''hello'']) (recorded ex_env (fst (runAgentLoop ex_env ex_start)))"
proof -
  have t: "accepted (recorded ex_env ex_start)" using ex_env_facts(5,7) by simp
  have u: "po_userMessage (re_opts ex_env) = ''hello''" by (simp add: ex_env_def ex_opts_def)
  show ?thesis
    using session_stays_wellformed [OF ex_env_facts(3,1,2,4) t prod.collapse [symmetric]] by (simp add: u ex_env_facts(5))
qed

text \<open>
  C14: A run is bounded: at most the configured number of iterations, in each of them at most three rounds of
  requests, which ask the provider or, in a chain, each candidate at most once, and, where a tool budget is configured,
  at most that many tool calls, whatever the provider and the tools do.  (The requests of a compaction or a
  memory flush between the rounds are not counted.)
\<close>

theorem run_within_budget:
  assumes "re_tools env = run_executor ts (re_opts env)"
  shows "let st' = fst (runAgentLoop env (fresh_run mg ct streaks w)); n = nat (ag_maxIterations (re_agent env)) in
    st_iteration st' \<le> n \<and> length (st_requests st') \<le> 3 * n * max 1 (length (ag_candidates (re_agent env)))
    \<and> (0 < re_maxToolCalls env \<longrightarrow> st_used st' \<le> re_maxToolCalls env)"
proof -
  let ?st = "fresh_run mg ct streaks w"
  let ?st1 = "addSessionMessageAndSave env ''user'' (po_userMessage (re_opts env)) (prepareRun env ?st)"
  obtain st2 err where r: "runLLMIteration env ?st1 = (st2, err)" by fastforce
  have z: "st_requests ?st1 = []" "st_iteration ?st1 = 0" "st_used ?st1 = 0" by (simp_all add: fresh_run_def)
  from tools.run_bounds [OF assms r [unfolded runLLMIteration_def]] show ?thesis
    unfolding run_state [OF r] Let_def z by (cases err) (simp_all add: final_frame asks_def mult.commute mult.left_commute)
qed

theorem run_within_budget_witness:
  "length (st_requests (fst (runAgentLoop ex_env (fresh_run (Compaction.ex_store False ex_talked) NewCooldownTracker [] 7)))) \<le> 15
   \<and> st_used (fst (runAgentLoop ex_env (fresh_run (Compaction.ex_store False ex_talked) NewCooldownTracker [] 7))) \<le> 3"
proof -
  have "ag_maxIterations (re_agent ex_env) = 5" "re_maxToolCalls ex_env = 3" "ag_candidates (re_agent ex_env) = []"
    by (simp_all add: ex_env_def)
  with run_within_budget [OF ex_env_facts(3), of "Compaction.ex_store False ex_talked" NewCooldownTracker "[]" 7]
  show ?thesis by (simp add: Let_def)
qed


section \<open>Overridden models\<close>

text \<open>A state of a run whose model is \<open>m\<close> and that has left the cooldowns as they were.\<close>

definition pinned :: "string \<Rightarrow> cooldown_tracker \<Rightarrow> 'w run_state \<Rightarrow> bool" where
  "pinned m ct st \<longleftrightarrow> st_model st = m \<and> st_cooldown st = ct \<and> (\<forall>rq \<in> set (st_requests st). rq_model rq = m)"

lemma session_ops_pinned [simp]:
  "pinned m ct (addSessionFullMessage env msg st) = pinned m ct st"
  "pinned m ct (addSessionMessageAndSave env r t st) = pinned m ct st"
  "pinned m ct (publish env t md st) = pinned m ct st"
  "pinned m ct (st\<lparr>st_messages := x\<rparr>) = pinned m ct st"
  by (simp_all add: pinned_def addSessionFullMessage_def addSessionMessage_def saveSessionBestEffort_def
      addSessionMessageAndSave_def publish_def Let_def)

lemma apply_results_pinned: "pinned m ct st \<Longrightarrow> pinned m ct (fold (apply_result env) xs st)"
proof (induction xs arbitrary: st)
  case (Cons x xs)
  have "pinned m ct (apply_result env x st)" using Cons.prems by (simp add: apply_result_def Let_def)
  with Cons.IH show ?case by simp
qed simp

lemma absorb_pinned: "pinned m ct st \<Longrightarrow> pinned m ct (fold (absorb_one env) ts st)"
proof (induction ts arbitrary: st)
  case (Cons t ts)
  have "pinned m ct (absorb_one env t st)" using Cons.prems by (simp add: absorb_one_def Let_def)
  with Cons.IH show ?case by simp
qed simp

lemma run_tools_pinned:
  assumes "pinned m ct st"
  shows "pinned m ct (run_tools env resp tcs st)"
proof -
  let ?st1 = "appendAssistantToolCallMessage env resp tcs st"
  have "pinned m ct ?st1" using assms by (simp add: appendAssistantToolCallMessage_def Let_def)
  then have "pinned m ct (?st1\<lparr>st_world := w, st_used := u, st_recent := rc\<rparr>)" for w u rc by (simp add: pinned_def)
  then show ?thesis
    by (simp add: run_tools_def executeToolCalls_def applyToolExecutionResults_def apply_results_pinned split: prod.splits)
qed

lemma handle_pinned:
  assumes "handleLLMResponse env resp st = (st', b)" "pinned m ct st"
  shows "pinned m ct st'"
proof -
  have "pinned m ct (st\<lparr>st_final := x\<rparr>)" for x using assms(2) by (simp add: pinned_def)
  with assms run_tools_pinned [of m ct] show ?thesis
    by (auto simp: handleLLMResponse_def handleToolLoop_def Let_def split: if_splits prod.splits bool.splits)
qed

lemma after_pinned:
  assumes "afterLLMCall env call st = (st', b)" "pinned m ct st" "cr_attempts call = []"
  shows "pinned m ct st'"
proof -
  have "pinned m ct (recordTokenUsage (cr_response call) (note_model env call st))"
    using assms(2,3) by (simp add: pinned_def recordTokenUsage_def note_model_def Let_def split: option.splits)
  with assms(1) absorb_pinned show ?thesis
    by (auto simp: afterLLMCall_def absorbSteeringMessages_def Let_def split: if_splits)
qed

text \<open>The model of the run is not that of its agent.\<close>

definition other_model :: "'w run_env \<Rightarrow> string \<Rightarrow> bool" where
  "other_model env m \<longleftrightarrow> TrimSpace (ag_model (re_agent env)) \<noteq> [] \<and> m \<noteq> TrimSpace (ag_model (re_agent env))"

lemma perform_pinned:
  assumes "other_model env m" "pinned m ct st" "performLLMCall env retry st = (st', r)"
  shows "pinned m ct st'" "r = (case re_chat env (st_iteration st) retry (st_messages st) m of
      Inl e \<Rightarrow> Inl (Direct e) | Inr resp \<Rightarrow> Inr \<lparr>cr_response = resp, cr_model = m, cr_attempts = []\<rparr>)"
  using assms by (auto simp: performLLMCall_def direct_call_def other_model_def pinned_def Let_def split: sum.splits)

lemma call_pinned:
  assumes "other_model env m" "never_too_long env"
  shows "call_from env n retry st = (st', r) \<Longrightarrow> pinned m ct st \<Longrightarrow>
     pinned m ct st' \<and> (\<forall>call. r = Inr call \<longrightarrow> cr_attempts call = []) \<and> (\<forall>e. r \<noteq> Inl (FromChain e))"
proof (induction n arbitrary: retry st)
  case (Suc n)
  obtain st1 r1 where p: "performLLMCall env retry st = (st1, r1)" by fastforce
  note f = perform_pinned [OF assms(1) Suc.prems(2) p]
  show ?case
  proof (cases r1)
    case (Inr call)
    with Suc.prems p f show ?thesis by (auto split: sum.splits)
  next
    case (Inl err)
    with assms(2) p have "\<not> isContextWindowError err" unfolding never_too_long_def by (metis snd_conv)
    moreover have "\<forall>e. r1 \<noteq> Inl (FromChain e)" using f(2) by (auto split: sum.splits)
    ultimately show ?thesis using Suc p f(1) Inl by (auto split: if_splits)
  qed
qed auto

lemma run_pinned:
  assumes "other_model env m" "never_too_long env"
  shows "run_iterations env n st = (st', r) \<Longrightarrow> pinned m ct st \<Longrightarrow> pinned m ct st' \<and> (\<forall>e. r \<noteq> Some (FromChain e))"
proof (induction n arbitrary: st)
  case (Suc n)
  let ?st = "st\<lparr>st_iteration := Suc (st_iteration st)\<rparr>"
  have p0: "pinned m ct ?st" "pinned m ct (?st\<lparr>st_final := x\<rparr>)" for x using Suc.prems(2) by (simp_all add: pinned_def)
  obtain st1 c where c: "callLLMWithRetry env ?st = (st1, c)" by fastforce
  note p1 = call_pinned [OF assms c [unfolded callLLMWithRetry_def] p0(1)]
  show ?case
  proof (cases c)
    case (Inl err)
    with Suc.prems c p0 p1 show ?thesis by (auto simp: Let_def split: if_splits)
  next
    case (Inr call)
    obtain st2 b where a: "afterLLMCall env call st1 = (st2, b)" by fastforce
    obtain st3 d where h: "handleLLMResponse env (cr_response call) st2 = (st3, d)" by fastforce
    have p2: "pinned m ct st2" using after_pinned [OF a] p1 Inr by blast
    note p3 = handle_pinned [OF h p2]
    show ?thesis
      using Suc.IH [of st2] Suc.IH [of st3] Suc.prems c Inr a h p0 p2 p3
      by (auto simp: Let_def split: if_splits bool.splits)
  qed
qed simp

text \<open>
  C24: A session whose model is overridden, by a name other than the agent's own model, never uses the fallback chain:
  all its requests name the override and go to the agent's own provider, no cooldown is read or written, and no error
  of a chain ends the run, whatever other candidates the agent has.  The automatic downgrade sets such an override,
  with the name of the model of a fallback candidate.  (No request is too long for the model, so that there is no
  compaction, which may set another override.)
\<close>

theorem override_bypasses_fallback:
  assumes "EffectiveModelOverride (re_worlds env (st_tick st)) (po_sessionKey (re_opts env)) (st_mg st) = (mg, Some m)"
    and "other_model env m" "never_too_long env" "st_requests st = []"
    and run: "runAgentLoop env st = (st', res)"
  shows "st_cooldown st' = st_cooldown st \<and> (\<forall>rq \<in> set (st_requests st'). rq_model rq = m) \<and> (\<forall>e. res \<noteq> Inl (FromChain e))"
proof -
  let ?st1 = "addSessionMessageAndSave env ''user'' (po_userMessage (re_opts env)) (prepareRun env st)"
  obtain st2 err where r: "runLLMIteration env ?st1 = (st2, err)" by fastforce
  have "pinned m (st_cooldown st) (prepareRun env st)"
    using assms(1,4) by (simp add: pinned_def prepareRun_def resolveRunModel_def Let_def)
  then have "pinned m (st_cooldown st) ?st1" by simp
  note p = run_pinned [OF assms(2,3) r [unfolded runLLMIteration_def] this]
  have "pinned m (st_cooldown st) (fst (finalizeRun env st2))" using p by (simp add: finalizeRun_def Let_def)
  with p r run show ?thesis
    by (auto simp: runAgentLoop_def Let_def pinned_def split: option.splits prod.splits)
qed

text \<open>The session of the example with an override.\<close>

definition ex_overridden :: "int run_state" where
  "ex_overridden = fresh_run (fst (SetModelOverride (ex_world ''o'') ''conv:main'' ''gpt-b'' 0
     (Compaction.ex_store False ex_talked))) NewCooldownTracker [] 7"

theorem override_bypasses_fallback_witness:
  "list_all (\<lambda>rq. rq_model rq = ''gpt-b'') (st_requests (fst (runAgentLoop ex_env ex_overridden)))"
proof -
  have f: "st_mg ex_overridden = fst (SetModelOverride (ex_world ''o'') ''conv:main'' ''gpt-b'' 0 (Compaction.ex_store False ex_talked))"
    "st_tick ex_overridden = 0" "st_requests ex_overridden = []" "re_worlds ex_env 0 = ex_worlds 0"
    "po_sessionKey (re_opts ex_env) = ''conv:main''" "ag_model (re_agent ex_env) = ''gpt-a''"
    by (simp_all add: ex_overridden_def fresh_run_def ex_env_def ex_opts_def)
  have "snd (EffectiveModelOverride (ex_worlds 0) ''conv:main''
      (fst (SetModelOverride (ex_world ''o'') ''conv:main'' ''gpt-b'' 0 (Compaction.ex_store False ex_talked)))) = Some ''gpt-b''"
    by code_simp
  then obtain mg where o: "EffectiveModelOverride (re_worlds ex_env (st_tick ex_overridden)) (po_sessionKey (re_opts ex_env))
      (st_mg ex_overridden) = (mg, Some ''gpt-b'')"
    unfolding f by (metis prod.collapse)
  have "TrimSpace ''gpt-a'' = ''gpt-a''" by code_simp
  then have m: "other_model ex_env ''gpt-b''" by (simp add: other_model_def f)
  show ?thesis
    unfolding list_all_iff using override_bypasses_fallback [OF o m ex_env_facts(1) f(3) prod.collapse [symmetric]] by blast
qed


section \<open>Retries after a timeout\<close>

text \<open>After a chain in which every candidate was tried and failed, each of their providers is rested.\<close>

lemma failed_chain_rests:
  assumes "Execute ct cs turns = (ct', Inl (Exhausted att))" "\<forall>a \<in> set att. \<not> fa_skipped a"
    and "\<And>a b. a \<le> b \<Longrightarrow> tn_now_fail (turns a) \<le> tn_now_fail (turns b)" "0 \<le> tn_now_fail (turns 0)"
    and "k < length cs" "t < tn_now_fail (turns k) + 60 * nsSecond"
  shows "\<not> IsAvailable ct' (fc_provider (cs ! k)) t"
proof -
  have "execute_from ct cs turns 0 [] = (ct', Inl (Exhausted att))" using assms(1) by (auto simp: Execute_def split: if_splits)
  from execute_from_exhausted [OF this] have all: "length att = length cs" "attempts_ok ct cs turns 0 att"
    and ct': "ct' = fold tracker.apply_op (attempt_ops att turns 0) ct" by auto
  let ?p = "fc_provider (cs ! k)" and ?s = "fold tracker.apply_op (attempt_ops (take k att) turns 0) ct"
  let ?late = "attempt_ops (drop k att) turns k"
  have ops: "attempt_ops att turns 0 = attempt_ops (take k att) turns 0 @ ?late"
    using attempt_ops_append [of "take k att" "drop k att" turns 0] assms(5) all(1) by simp
  have p: "fa_provider (att ! k) = ?p" using attempts_ok_nth [OF all(2), of k] assms(5) all(1) by (simp add: attempt_ok_def)
  have "OpFailure ?p (the (fa_reason (att ! k))) (tn_now_fail (turns k)) \<in> set ?late"
    unfolding set_attempt_ops using assms(2,5) all(1) p by (auto intro!: exI [of _ 0])
  then have "\<exists>x \<in> set ?late. op_provider x = ?p" by force
  moreover have "\<forall>x \<in> set ?late. op_provider x = ?p \<longrightarrow> (\<exists>r m. x = OpFailure ?p r m \<and> tn_now_fail (turns k) \<le> m)"
    unfolding set_attempt_ops using assms(3) by auto
  moreover have "0 \<le> tn_now_fail (turns k)" using assms(3) [of 0 k] assms(4) by simp
  ultimately have "\<not> IsAvailable (fold tracker.apply_op ?late ?s) ?p t" using assms(6) by (intro tracker.failures_block)
  then show ?thesis by (simp add: ct' ops)
qed

lemma rested_chain_skips:
  "(\<And>k. k < length cs \<Longrightarrow> \<not> tn_canceled_before (turns (i + k)) \<and> \<not> IsAvailable ct (fc_provider (cs ! k)) (tn_now_check (turns (i + k)))) \<Longrightarrow>
     (\<exists>new. execute_from ct cs turns i att = (ct, Inl (Exhausted (att @ new))) \<and> length new = length cs \<and> (\<forall>a \<in> set new. fa_skipped a))
     \<and> chain_asked ct cs turns i = []"
proof (induction cs arbitrary: i att)
  case (Cons c cs)
  have "exec_step ct c (turns i) = StepSkip (skipped_attempt ct c (turns i))"
    using Cons.prems [of 0] by (simp add: exec_step_def Let_def)
  moreover have ih: "(\<exists>new. execute_from ct cs turns (Suc i) (att @ [skipped_attempt ct c (turns i)])
      = (ct, Inl (Exhausted ((att @ [skipped_attempt ct c (turns i)]) @ new))) \<and> length new = length cs \<and> (\<forall>a \<in> set new. fa_skipped a))
      \<and> chain_asked ct cs turns (Suc i) = []"
    by (rule Cons.IH) (use Cons.prems [of "Suc _"] in simp)
  then obtain new where "execute_from ct cs turns (Suc i) (att @ [skipped_attempt ct c (turns i)])
      = (ct, Inl (Exhausted ((att @ [skipped_attempt ct c (turns i)]) @ new)))" "length new = length cs" "\<forall>a \<in> set new. fa_skipped a"
    by blast
  ultimately show ?case using ih by (intro conjI exI [of _ "skipped_attempt ct c (turns i) # new"]) simp_all
qed simp

text \<open>
  C25: A retry after a timeout of the fallback chain is no retry: when the chain failed at every candidate,
  the next attempt skips every candidate that comes up within a minute of its failure, sends no request to any
  provider and fails again, with the cooldowns as the reason in place of the timeouts.  The retry comes after five
  seconds, and the last one ten seconds later.
\<close>

theorem timeout_retry_asks_nobody:
  assumes "performLLMCall env retry st = (st1, Inl (FromChain (Exhausted att)))" "\<forall>a \<in> set att. \<not> fa_skipped a"
    and clock: "\<And>a b. a \<le> b \<Longrightarrow> tn_now_fail (re_turns env (st_iteration st) retry (st_messages st) a)
        \<le> tn_now_fail (re_turns env (st_iteration st) retry (st_messages st) b)"
      "0 \<le> tn_now_fail (re_turns env (st_iteration st) retry (st_messages st) 0)"
    and again: "\<And>k. k < length att \<Longrightarrow> \<not> tn_canceled_before (re_turns env (st_iteration st) (Suc retry) (st_messages st) k)
      \<and> tn_now_check (re_turns env (st_iteration st) (Suc retry) (st_messages st) k)
          < tn_now_fail (re_turns env (st_iteration st) retry (st_messages st) k) + 60 * nsSecond"
  shows "\<exists>st2 att2. performLLMCall env (Suc retry) st1 = (st2, Inl (FromChain (Exhausted att2)))
    \<and> length att2 = length (ag_candidates (re_agent env)) \<and> (\<forall>a \<in> set att2. fa_skipped a) \<and> st_cooldown st2 = st_cooldown st1
    \<and> st_requests st2 = st_requests st1"
proof -
  let ?cs = "ag_candidates (re_agent env)"
  let ?t = "re_turns env (st_iteration st) retry (st_messages st)"
  let ?t2 = "re_turns env (st_iteration st) (Suc retry) (st_messages st)"
  note f = perform_frame [OF assms(1)]
  have e: "Execute (st_cooldown st) ?cs ?t = (st_cooldown st1, Inl (Exhausted att))"
    and m: "\<not> (TrimSpace (ag_model (re_agent env)) \<noteq> [] \<and> st_model st \<noteq> TrimSpace (ag_model (re_agent env)))" "1 < length ?cs"
    using assms(1) by (auto simp: performLLMCall_def direct_call_def Let_def split: if_splits prod.splits sum.splits)
  have "execute_from (st_cooldown st) ?cs ?t 0 [] = (st_cooldown st1, Inl (Exhausted att))"
    using e by (auto simp: Execute_def split: if_splits)
  then have len: "length att = length ?cs" using execute_from_exhausted by fastforce
  have skips: "\<exists>new. execute_from (st_cooldown st1) ?cs ?t2 0 [] = (st_cooldown st1, Inl (Exhausted ([] @ new)))
      \<and> length new = length ?cs \<and> (\<forall>a \<in> set new. fa_skipped a)" and quiet: "chain_asked (st_cooldown st1) ?cs ?t2 0 = []"
    using rested_chain_skips [of ?cs ?t2 0 "st_cooldown st1" "[]"] failed_chain_rests [OF e assms(2) clock] again len by simp_all
  obtain new where n: "Execute (st_cooldown st1) ?cs ?t2 = (st_cooldown st1, Inl (Exhausted new))"
      "length new = length ?cs" "\<forall>a \<in> set new. fa_skipped a"
    using m(2) skips unfolding Execute_def by (metis append_Nil list.size(3) not_less_zero)
  then show ?thesis using f m quiet by (auto simp: performLLMCall_def Let_def)
qed

text \<open>Two candidates that both time out.\<close>

definition ex_timeouts :: "nat \<Rightarrow> llm_response turn" where
  "ex_timeouts i = \<lparr>tn_canceled_before = False, tn_now_check = int i * nsSecond, tn_now_reason = 0, tn_now_detail = 0,
     tn_now_remaining = 0, tn_outcome = Inl DeadlineExceeded, tn_elapsed = 0, tn_canceled_after = False,
     tn_now_fail = int i * nsSecond\<rparr>"

definition ex_chain_env :: "int run_env" where
  "ex_chain_env = ex_env\<lparr>re_agent := (re_agent ex_env)\<lparr>ag_model := ''gpt-a'',
       ag_candidates := [\<lparr>fc_provider = ''openai'', fc_model = ''gpt-a''\<rparr>, \<lparr>fc_provider = ''zhipu'', fc_model = ''glm''\<rparr>]\<rparr>,
     re_turns := (\<lambda>it retry msgs. ex_timeouts)\<rparr>"

lemma ex_chain_fails:
  "\<exists>ct att. Execute NewCooldownTracker (ag_candidates (re_agent ex_chain_env)) ex_timeouts = (ct, Inl (Exhausted att))
     \<and> (\<forall>a \<in> set att. \<not> fa_skipped a) \<and> length att = 2"
proof -
  let ?a = "\<lparr>fc_provider = ''openai'', fc_model = ''gpt-a''\<rparr>" and ?b = "\<lparr>fc_provider = ''zhipu'', fc_model = ''glm''\<rparr>"
  let ?ct = "MarkFailure NewCooldownTracker ''openai'' FailoverTimeout 0"
  have c: "ClassifyError DeadlineExceeded ''openai'' ''gpt-a'' = Some (mk_failover FailoverTimeout ''openai'' ''gpt-a'' 0 DeadlineExceeded)"
    "ClassifyError DeadlineExceeded ''zhipu'' ''glm'' = Some (mk_failover FailoverTimeout ''zhipu'' ''glm'' 0 DeadlineExceeded)"
    by code_simp+
  have av: "IsAvailable ?ct ''zhipu'' t" for t
    by (simp add: tracker.fail_other) (simp add: IsAvailable_def NewCooldownTracker_def)
  have 1: "\<exists>x. exec_step NewCooldownTracker ?a (ex_timeouts 0) = StepFail ?ct x \<and> \<not> fa_skipped x"
    using c(1) by (simp add: exec_step_def Let_def ex_timeouts_def IsAvailable_def NewCooldownTracker_def IsRetriable_def mk_failover_def)
  have 2: "\<exists>ct x. exec_step ?ct ?b (ex_timeouts (Suc 0)) = StepFail ct x \<and> \<not> fa_skipped x"
    using c(2) av by (simp add: exec_step_def Let_def ex_timeouts_def IsRetriable_def mk_failover_def)
  from 1 2 show ?thesis by (auto simp: ex_chain_env_def Execute_def)
qed

theorem timeout_retry_asks_nobody_witness:
  "\<exists>st1 st2 att2. performLLMCall ex_chain_env 1 st1 = (st2, Inl (FromChain (Exhausted att2)))
     \<and> length att2 = 2 \<and> list_all fa_skipped att2 \<and> st_requests st2 = st_requests st1"
proof -
  let ?st = "ex_start\<lparr>st_model := ''gpt-a''\<rparr>"
  have am: "TrimSpace (ag_model (re_agent ex_chain_env)) = ''gpt-a''"
    unfolding ex_chain_env_def ex_env_def run_env.simps run_agent.simps by code_simp
  have cs: "length (ag_candidates (re_agent ex_chain_env)) = 2" by (simp add: ex_chain_env_def)
  have t: "re_turns ex_chain_env = (\<lambda>it retry msgs. ex_timeouts)" by (simp add: ex_chain_env_def)
  obtain ct att where x: "Execute NewCooldownTracker (ag_candidates (re_agent ex_chain_env)) ex_timeouts = (ct, Inl (Exhausted att))"
      "\<forall>a \<in> set att. \<not> fa_skipped a" "length att = 2" using ex_chain_fails by blast
  have "st_cooldown ?st = NewCooldownTracker" by (simp add: ex_start_def fresh_run_def)
  then obtain st1 where p: "performLLMCall ex_chain_env 0 ?st = (st1, Inl (FromChain (Exhausted att)))"
    using x(1) am cs t by (simp add: performLLMCall_def Let_def)
  have "\<exists>st2 att2. performLLMCall ex_chain_env (Suc 0) st1 = (st2, Inl (FromChain (Exhausted att2)))
    \<and> length att2 = length (ag_candidates (re_agent ex_chain_env)) \<and> (\<forall>a \<in> set att2. fa_skipped a) \<and> st_cooldown st2 = st_cooldown st1
    \<and> st_requests st2 = st_requests st1"
    by (rule timeout_retry_asks_nobody [OF p x(2)]) (simp_all add: t ex_timeouts_def nsSecond_def)
  then show ?thesis using cs unfolding list_all_iff One_nat_def by metis
qed


section \<open>Steering messages\<close>

lemma steered_iterations:
  assumes "length (ag_candidates (re_agent env)) \<le> 1" "\<And>it retry msgs m. \<exists>resp. re_chat env it retry msgs m = Inr resp"
    and "re_maxWallTime env \<le> 0" "\<And>it. re_steering env (Suc it) \<noteq> []"
  shows "\<exists>st'. run_iterations env n st = (st', None) \<and> st_final st' = st_final st \<and> st_world st' = st_world st
    \<and> st_used st' = st_used st \<and> length (st_requests st') = length (st_requests st) + n"
proof (induction n arbitrary: st)
  case (Suc n)
  let ?st = "st\<lparr>st_iteration := Suc (st_iteration st)\<rparr>"
  obtain resp where p: "performLLMCall env 0 ?st
      = (note_requests [st_model ?st] ?st,
         Inr \<lparr>cr_response = resp, cr_model = st_model ?st, cr_attempts = []\<rparr>)"
    using direct_env(1) [OF assms(1,2)] by blast
  let ?st1 = "note_requests [st_model ?st] ?st"
  let ?call = "\<lparr>cr_response = resp, cr_model = st_model ?st, cr_attempts = []\<rparr>"
  let ?st2 = "recordTokenUsage resp (note_model env ?call ?st1)"
  have c: "callLLMWithRetry env ?st = (?st1, Inr ?call)" using p by (simp add: callLLMWithRetry_def)
  have w: "\<not> enforceWallTimeBudget env ?st" using assms(3) by (simp add: enforceWallTimeBudget_def)
  have frame: "st_final (fold (absorb_one env) ts s) = st_final s" "st_world (fold (absorb_one env) ts s) = st_world s" for ts s
    by (induction ts arbitrary: s)
      (simp_all add: absorb_one_def addSessionMessageAndSave_def saveSessionBestEffort_def addSessionMessage_def
        addSessionFullMessage_def Let_def)
  have s2: "st_iteration ?st2 = Suc (st_iteration st)" "st_final ?st2 = st_final st" "st_world ?st2 = st_world st" "st_used ?st2 = st_used st"
    "length (st_requests ?st2) = Suc (length (st_requests st))"
    by (simp_all add: note_model_def recordTokenUsage_def Let_def split: option.splits)
  let ?st3 = "fold (absorb_one env) (re_steering env (st_iteration ?st2)) ?st2"
  have a: "afterLLMCall env ?call ?st1 = (?st3, True)"
    using assms(4) [of "st_iteration st"] s2(1) by (simp add: afterLLMCall_def absorbSteeringMessages_def Let_def)
  have r: "run_iterations env (Suc n) st = run_iterations env n ?st3"
    by (simp only: run_iterations.simps Let_def w c a if_False prod.case sum.case bool.case)
  from Suc.IH [of ?st3] s2 show ?case unfolding r by (simp add: frame absorb_frame)
qed simp

text \<open>
  C38: Steering outruns the answer: a message that waits when an answer arrives replaces it.  When one waits
  at every iteration, each answer is thrown away with its tool calls, and after the last iteration, although
  the provider has answered every request, the user gets the default response.  This is for an agent with at most
  one candidate, a provider that answers every request, and no limit on the wall time (with one, the run may
  end with the notice about the limit instead).
\<close>

theorem steering_discards_answers:
  assumes "length (ag_candidates (re_agent env)) \<le> 1" "\<And>it retry msgs m. \<exists>resp. re_chat env it retry msgs m = Inr resp"
    and "re_maxWallTime env \<le> 0" "\<And>it. re_steering env (Suc it) \<noteq> []"
    and run: "runAgentLoop env (fresh_run mg ct streaks w) = (st', res)"
  shows "(\<exists>job. res = Inr (po_defaultResponse (re_opts env), job)) \<and> st_world st' = w \<and> st_used st' = 0
    \<and> length (st_requests st') = nat (ag_maxIterations (re_agent env))"
proof -
  let ?st = "fresh_run mg ct streaks w"
  let ?st1 = "addSessionMessageAndSave env ''user'' (po_userMessage (re_opts env)) (prepareRun env ?st)"
  obtain st2 where r: "runLLMIteration env ?st1 = (st2, None)" "st_final st2 = st_final ?st1" "st_world st2 = st_world ?st1"
      "st_used st2 = 0" "length (st_requests st2) = nat (ag_maxIterations (re_agent env))"
    using steered_iterations [OF assms(1-4), of "nat (ag_maxIterations (re_agent env))" ?st1]
    by (auto simp: runLLMIteration_def fresh_run_def)
  have ops: "st_final (addSessionMessageAndSave env rl t s) = st_final s" "st_world (addSessionMessageAndSave env rl t s) = st_world s"
    for rl t s by (simp_all add: addSessionMessageAndSave_def saveSessionBestEffort_def addSessionMessage_def addSessionFullMessage_def Let_def)
  have z: "st_final ?st1 = []" "st_world ?st1 = w"
    by (simp_all add: ops fresh_run_def) (simp_all add: prepareRun_def resolveRunModel_def Let_def split: prod.splits option.splits)
  obtain st3 ans job where f: "finalizeRun env st2 = (st3, ans, job)" by (cases "finalizeRun env st2")
  have fw: "st_world (fst (finalizeRun env st2)) = st_world st2" "fst (snd (finalizeRun env st2)) = po_defaultResponse (re_opts env)"
    using r(2) z(1) by (simp_all add: finalizeRun_def Let_def ops publish_def)
  have "st' = st3" "res = Inr (ans, job)" using run r(1) f by (simp_all add: runAgentLoop_def Let_def)
  with f fw final_frame [of env st2] r(3-5) z(2) show ?thesis by simp
qed

definition ex_steered :: "int run_env" where
  "ex_steered = ex_env\<lparr>re_steering := (\<lambda>_. [''wait''])\<rparr>"

theorem steering_discards_answers_witness:
  "fst (projr (snd (runAgentLoop ex_steered (fresh_run (Compaction.ex_store False ex_talked) NewCooldownTracker [] 7)))) = ''nothing to say''"
proof -
  have s: "length (ag_candidates (re_agent ex_steered)) \<le> 1" "\<And>it retry msgs m. \<exists>resp. re_chat ex_steered it retry msgs m = Inr resp"
    "re_maxWallTime ex_steered \<le> 0" "\<And>it. re_steering ex_steered (Suc it) \<noteq> []"
    "po_defaultResponse (re_opts ex_steered) = ''nothing to say''"
    by (simp_all add: ex_steered_def ex_env_def ex_opts_def)
  have "\<exists>job. snd (runAgentLoop ex_steered (fresh_run (Compaction.ex_store False ex_talked) NewCooldownTracker [] 7))
      = Inr (''nothing to say'', job)"
    using steering_discards_answers [OF s(1-4) prod.collapse [symmetric]] unfolding s(5) by blast
  then show ?thesis by auto
qed

text \<open>
  Plan mode lives in the text of the first request only: a request that is rebuilt after a compaction is
  the same whatever the mode and the media of the run.
\<close>

theorem plan_mode_lost_on_retry:
  "handleContextWindowRetry (env\<lparr>re_opts := (re_opts env)\<lparr>po_planMode := plan, po_media := med\<rparr>\<rparr>) retry st
     = handleContextWindowRetry env retry st"
  by (simp add: handleContextWindowRetry_def rebuild_def maybe_downgrade_def publish_def Let_def cong: if_cong)

end
