(* ===== verification/Commands.thy ===== *)
theory Commands
  imports Inbound MessageSplit RunProperties
begin

text \<open>
  What the loop does with a message of a session: \<^verbatim>\<open>processMessageImpl\<close> and \<^verbatim>\<open>processSystemMessageImpl\<close>
  (\<^verbatim>\<open>pkg/agent/run_pipeline_impl.go\<close>), the commands (\<^verbatim>\<open>pkg/agent/loop_commands.go\<close>) and the
  permission state of a session behind plan mode (\<^verbatim>\<open>pkg/agent/pipeline_permissions.go\<close>).  The result is an
  action: a reply, a run with its options, an error.  The files of the permission states are a map from the
  workspace and the path token of the session; a file that cannot be read or parsed is absent.  The agent of a
  message is never nil here, and the text of an error of the session manager, the media note and the transcription
  of audio come from outside.
\<close>

section \<open>Permission state\<close>

datatype permission_mode = ModeRun | ModePlan

record permission =
  pm_mode :: string
  pm_task :: string

definition mode_text :: "permission_mode \<Rightarrow> string" where
  "mode_text m = (case m of ModeRun \<Rightarrow> ''run'' | ModePlan \<Rightarrow> ''plan'')"

definition normalizeSessionPermissionMode :: "string \<Rightarrow> permission_mode" where
  "normalizeSessionPermissionMode mode = (if ToLower (TrimSpace mode) = ''plan'' then ModePlan else ModeRun)"

definition normalized :: "permission \<Rightarrow> permission" where
  "normalized s = \<lparr>pm_mode = mode_text (normalizeSessionPermissionMode (pm_mode s)), pm_task = TrimSpace (pm_task s)\<rparr>"

definition isPlan :: "permission \<Rightarrow> bool" where
  "isPlan s \<longleftrightarrow> normalizeSessionPermissionMode (pm_mode s) = ModePlan"

text \<open>\<^verbatim>\<open>SafePathToken\<close> (\<^verbatim>\<open>pkg/tools/tool_trace.go\<close>).\<close>

definition safe_char :: "char \<Rightarrow> bool" where
  "safe_char c \<longleftrightarrow> is_lower c \<or> is_upper c \<or> is_digit c \<or> c \<in> {CHR ''.'', CHR ''_'', CHR ''-''}"

function replace_unsafe :: "string \<Rightarrow> string" where
  "replace_unsafe [] = []"
| "replace_unsafe (c # s) =
     (if safe_char c then c # replace_unsafe s else CHR ''_'' # replace_unsafe (dropWhile (\<lambda>d. \<not> safe_char d) s))"
  by pat_completeness auto
termination by (relation "measure length") (auto simp: dropWhile_shorter)

definition token_edge :: "char \<Rightarrow> bool" where
  "token_edge c \<longleftrightarrow> c \<in> {CHR ''.'', CHR ''_'', CHR ''-''}"

definition SafePathToken :: "string \<Rightarrow> string" where
  "SafePathToken s0 =
     (let s = TrimSpace s0 in
      if s = [] then [] else take 80 (TrimRight token_edge (TrimLeft token_edge (replace_unsafe s))))"

type_synonym permission_files = "string \<times> string \<rightharpoonup> permission"

definition sessionPermissionStatePath :: "string \<Rightarrow> string \<Rightarrow> (string \<times> string) option" where
  "sessionPermissionStatePath workspace sessionKey =
     (let w = TrimSpace workspace; k = CanonicalSessionKey sessionKey in
      if w = [] \<or> k = [] then None
      else let token = SafePathToken k in Some (w, if token = [] then ''unknown'' else token))"

definition loadSessionPermissionStateWithDefault ::
  "permission_files \<Rightarrow> string \<Rightarrow> string \<Rightarrow> permission_mode \<Rightarrow> permission" where
  "loadSessionPermissionStateWithDefault files workspace sessionKey defaultMode =
     (let absent = \<lparr>pm_mode = mode_text defaultMode, pm_task = []\<rparr> in
      case sessionPermissionStatePath workspace sessionKey of
        None \<Rightarrow> absent
      | Some path \<Rightarrow> (case files path of None \<Rightarrow> absent | Some st \<Rightarrow> normalized st))"

text \<open>Saving; \<open>ok\<close>: the file could be written.\<close>

definition saveSessionPermissionState ::
  "bool \<Rightarrow> string \<Rightarrow> string \<Rightarrow> permission \<Rightarrow> permission_files \<Rightarrow> permission_files" where
  "saveSessionPermissionState ok workspace sessionKey st files =
     (case sessionPermissionStatePath workspace sessionKey of
        None \<Rightarrow> files
      | Some path \<Rightarrow> if ok then files(path \<mapsto> normalized st) else files)"

section \<open>The loop\<close>

record plan_config =
  pl_enabled :: bool
  pl_default :: string
  pl_default_group :: string

record loop_config =
  lc_session :: session_config
  lc_plan :: plan_config

record loop_agent =
  la_id :: string
  la_model :: string
  la_workspace :: string

record loop_state =
  lp_agents :: "loop_agent agent_registry"
  lp_sessions :: "string \<Rightarrow> manager"          \<comment> \<open>of an agent, by its id\<close>
  lp_perms :: permission_files
  lp_replies :: reply_store

record loop_env =
  le_config :: "loop_config option"
  le_route :: route_config
  le_channels :: "string list option"           \<comment> \<open>the enabled channels, when there is a channel manager\<close>
  le_now :: gtime
  le_world :: world
  le_saved :: bool
  le_error :: "session_error \<Rightarrow> string"
  le_time :: "gtime \<Rightarrow> string"                  \<comment> \<open>RFC 3339 in UTC\<close>
  le_note :: "loop_agent \<Rightarrow> inbound_message \<Rightarrow> string"

datatype loop_action =
    Reply string
  | RunAgent loop_agent process_options
  | RunApproved loop_agent process_options      \<comment> \<open>an error of this run is a reply\<close>
  | Failed string

definition nl :: string where "nl = [CHR 0x0A]"

definition defaultResponse :: string where
  "defaultResponse = ''I've completed processing but have no response to give. Increase `max_tool_iterations` in config.json.''"

definition session_settings :: "loop_env \<Rightarrow> session_config option" where
  "session_settings e = map_option lc_session (le_config e)"

definition plan_enabled :: "loop_env \<Rightarrow> bool" where
  "plan_enabled e = (case le_config e of None \<Rightarrow> False | Some c \<Rightarrow> pl_enabled (lc_plan c))"

definition permWorkspace :: "loop_agent \<Rightarrow> loop_state \<Rightarrow> string" where
  "permWorkspace agent st =
     (case GetDefaultAgent (lp_agents st) of
        Some da \<Rightarrow> if TrimSpace (la_workspace da) \<noteq> [] then la_workspace da else la_workspace agent
      | None \<Rightarrow> la_workspace agent)"

definition command_default :: "loop_env \<Rightarrow> permission_mode" where
  "command_default e =
     (case le_config e of None \<Rightarrow> ModeRun
      | Some c \<Rightarrow> if EqualFold (TrimSpace (pl_default (lc_plan c))) ''plan'' then ModePlan else ModeRun)"

definition loadPlanPermissionContext ::
  "loop_env \<Rightarrow> loop_agent \<Rightarrow> string \<Rightarrow> string \<Rightarrow> loop_state \<Rightarrow> string + (string \<times> permission)" where
  "loadPlanPermissionContext e agent sessionKey missingSessionMsg st =
     (if sessionKey = [] then Inl missingSessionMsg
      else let ws = permWorkspace agent st in
        Inr (ws, loadSessionPermissionStateWithDefault (lp_perms st) ws sessionKey (command_default e)))"

definition save_permission :: "loop_env \<Rightarrow> string \<Rightarrow> string \<Rightarrow> permission \<Rightarrow> loop_state \<Rightarrow> loop_state" where
  "save_permission e ws sessionKey perm st =
     st\<lparr>lp_perms := saveSessionPermissionState (le_saved e) ws sessionKey perm (lp_perms st)\<rparr>"

definition message_options :: "inbound_message \<Rightarrow> string \<Rightarrow> string \<Rightarrow> bool \<Rightarrow> process_options" where
  "message_options msg sessionKey userMessage planMode =
     \<lparr>po_sessionKey = sessionKey, po_channel = im_channel msg, po_chatID = im_chat msg, po_senderID = im_sender msg,
      po_userMessage = userMessage, po_media = im_media msg, po_defaultResponse = defaultResponse,
      po_enableSummary = True, po_sendResponse = False, po_noHistory = False, po_planMode = planMode\<rparr>"


section \<open>Plan mode commands\<close>

definition plan_disabled :: string where
  "plan_disabled = ''Plan mode is disabled (set tools.plan_mode.enabled=true in config.json)''"

definition no_session :: string where
  "no_session = ''No session available for plan mode (missing session_key)''"

definition handlePlanCommand ::
  "loop_env \<Rightarrow> loop_agent \<Rightarrow> string \<Rightarrow> string list \<Rightarrow> loop_state \<Rightarrow> loop_state \<times> loop_action" where
  "handlePlanCommand e agent sessionKey args st =
     (if \<not> plan_enabled e then (st, Reply plan_disabled)
      else case loadPlanPermissionContext e agent sessionKey no_session st of
        Inl resp \<Rightarrow> (st, Reply resp)
      | Inr (ws, perm0) \<Rightarrow>
          let perm = perm0\<lparr>pm_mode := mode_text ModePlan,
                       pm_task := (if args \<noteq> [] then TrimSpace (Join args '' '') else pm_task perm0)\<rparr>;
              st' = save_permission e ws sessionKey perm st in
          if TrimSpace (pm_task perm) = []
          then (st', Reply ''Plan mode enabled for this session. Send your task, then send /approve (or /run) to execute.'')
          else (st', Reply (''Plan mode enabled. Pending task captured:'' @ nl @ Truncate (pm_task perm) 120 @ nl @ nl
                       @ ''Send /approve (or /run) to execute, /cancel to discard.'')))"

definition approvedPrompt :: "string \<Rightarrow> string" where
  "approvedPrompt task = ''[Plan approved] Execute the plan for the following task.'' @ nl @ nl @ ''TASK:'' @ nl @ task"

definition run_mode :: "permission \<Rightarrow> permission" where
  "run_mode perm = perm\<lparr>pm_mode := mode_text ModeRun, pm_task := []\<rparr>"

definition handleApproveCommand ::
  "loop_env \<Rightarrow> inbound_message \<Rightarrow> loop_agent \<Rightarrow> string \<Rightarrow> loop_state \<Rightarrow> loop_state \<times> loop_action" where
  "handleApproveCommand e msg agent sessionKey st =
     (if \<not> plan_enabled e then (st, Reply plan_disabled)
      else case loadPlanPermissionContext e agent sessionKey no_session st of
        Inl resp \<Rightarrow> (st, Reply resp)
      | Inr (ws, perm) \<Rightarrow>
          if \<not> isPlan perm then (st, Reply ''Plan mode is not active for this session. Use /plan first.'')
          else let task = TrimSpace (pm_task perm);
                   st' = save_permission e ws sessionKey (run_mode perm) st in
            if task = [] then (st', Reply ''No pending task captured. Send a task while in plan mode, then /approve.'')
            else (st', RunApproved agent ((message_options msg sessionKey (approvedPrompt task) False)\<lparr>po_media := []\<rparr>)))"

definition handleCancelCommand ::
  "loop_env \<Rightarrow> loop_agent \<Rightarrow> string \<Rightarrow> loop_state \<Rightarrow> loop_state \<times> loop_action" where
  "handleCancelCommand e agent sessionKey st =
     (if \<not> plan_enabled e then (st, Reply plan_disabled)
      else case loadPlanPermissionContext e agent sessionKey no_session st of
        Inl resp \<Rightarrow> (st, Reply resp)
      | Inr (ws, perm) \<Rightarrow>
          (save_permission e ws sessionKey (run_mode perm) st, Reply ''Plan mode cancelled; pending task cleared.''))"

definition handleModeCommand ::
  "loop_env \<Rightarrow> loop_agent \<Rightarrow> string \<Rightarrow> loop_state \<Rightarrow> loop_state \<times> loop_action" where
  "handleModeCommand e agent sessionKey st =
     (if \<not> plan_enabled e then (st, Reply ''Plan mode is disabled (tools.plan_mode.enabled=false)'')
      else case loadPlanPermissionContext e agent sessionKey ''No session available (missing session_key)'' st of
        Inl resp \<Rightarrow> (st, Reply resp)
      | Inr (ws, perm) \<Rightarrow>
          let preview = Truncate (TrimSpace (pm_task perm)) 120 in
          (st, Reply (''mode='' @ (if isPlan perm then ''plan'' else ''run'') @ '' (session='' @ sessionKey @ '')'' @ nl
             @ ''pending_task='' @ (if preview = [] then ''(none)'' else preview))))"

section \<open>Listing commands\<close>

definition registered_agents :: "loop_state \<Rightarrow> string" where
  "registered_agents st = ''Registered agents: '' @ Join (map fst (lp_agents st)) '', ''"

definition handleShowCommand :: "inbound_message \<Rightarrow> string list \<Rightarrow> loop_state \<Rightarrow> loop_action" where
  "handleShowCommand msg args st =
     (case args of
        [] \<Rightarrow> Reply ''Usage: /show [model|channel|agents]''
      | a # _ \<Rightarrow>
          if a = ''model'' then
            (case GetDefaultAgent (lp_agents st) of None \<Rightarrow> Reply ''No default agent configured''
             | Some da \<Rightarrow> Reply (''Current model: '' @ la_model da))
          else if a = ''channel'' then Reply (''Current channel: '' @ im_channel msg)
          else if a = ''agents'' then Reply (registered_agents st)
          else Reply (''Unknown show target: '' @ a))"

definition handleListCommand :: "loop_env \<Rightarrow> string list \<Rightarrow> loop_state \<Rightarrow> loop_action" where
  "handleListCommand e args st =
     (case args of
        [] \<Rightarrow> Reply ''Usage: /list [models|channels|agents]''
      | a # _ \<Rightarrow>
          if a = ''models'' then Reply ''Available models: configured in config.json per agent''
          else if a = ''channels'' then
            (case le_channels e of
               None \<Rightarrow> Reply ''Channel manager not initialized''
             | Some [] \<Rightarrow> Reply ''No channels enabled''
             | Some cs \<Rightarrow> Reply (''Enabled channels: '' @ Join cs '', ''))
          else if a = ''agents'' then Reply (registered_agents st)
          else Reply (''Unknown list target: '' @ a))"

text \<open>\<^verbatim>\<open>strconv.Atoi\<close>.\<close>

fun digits_value :: "int \<Rightarrow> string \<Rightarrow> int option" where
  "digits_value acc [] = Some acc"
| "digits_value acc (c # s) =
     (if is_digit c then digits_value (10 * acc + (int (byte_of c) - 48)) s else None)"

definition Atoi :: "string \<Rightarrow> int option" where
  "Atoi s =
     (let neg = (s \<noteq> [] \<and> hd s = CHR ''-'');
          ds = (if s \<noteq> [] \<and> (hd s = CHR ''-'' \<or> hd s = CHR ''+'') then tl s else s) in
      if ds = [] then None
      else case digits_value 0 ds of
        None \<Rightarrow> None
      | Some n \<Rightarrow> let v = (if neg then - n else n) in if min_int64 \<le> v \<and> v \<le> max_int64 then Some v else None)"

definition positive_arg :: "int \<Rightarrow> string list \<Rightarrow> nat \<Rightarrow> int" where
  "positive_arg dflt args i =
     (if length args \<le> i then dflt
      else case Atoi (TrimSpace (args ! i)) of Some n \<Rightarrow> if n > 0 then n else dflt | None \<Rightarrow> dflt)"

fun event_type_text :: "event_type \<Rightarrow> string" where
  "event_type_text EventSessionMessage = ''session.message''"
| "event_type_text EventSessionSummary = ''session.summary''"
| "event_type_text EventSessionCompactionInc = ''session.compaction_inc''"
| "event_type_text EventSessionMemoryFlush = ''session.memory_flush''"
| "event_type_text EventSessionHistorySet = ''session.history_set''"
| "event_type_text EventSessionHistoryTrunc = ''session.history_truncate''"
| "event_type_text (EventOther t) = t"

definition tree_line :: "tree_node \<Rightarrow> string" where
  "tree_line n =
     (let parent = TrimSpace (tn_parent n); r = TrimSpace (tn_role n); p = TrimSpace (tn_preview n) in
      (if tn_is_leaf n then ''*'' else if tn_on_branch n then ''+'' else ''-'') @ '' '' @ tn_id n
      @ '' parent='' @ (if parent = [] then ''(root)'' else parent) @ '' type='' @ event_type_text (tn_type n)
      @ (if r \<noteq> [] then '' role='' @ r else []) @ (if p \<noteq> [] then '' '' @ p else []) @ nl)"

definition tree_usage :: string where
  "tree_usage = ''Usage:'' @ nl @ ''/tree leaf'' @ nl @ ''/tree list [N]'' @ nl @ ''/tree switch <event_id>''"

definition tree_text :: "string \<Rightarrow> session_tree \<Rightarrow> string" where
  "tree_text sessionKey t = ''session='' @ sessionKey @ nl @ ''leaf='' @ st_leaf t @ nl
     @ ''events='' @ dec_int (st_total t) @ '' (showing last '' @ dec_int (int (length (st_nodes t))) @ '')'' @ nl
     @ ''Legend: * leaf; + on-branch; - off-branch'' @ nl @ nl @ concat (map tree_line (st_nodes t))"

definition handleTreeCommand ::
  "loop_env \<Rightarrow> loop_agent \<Rightarrow> string \<Rightarrow> string list \<Rightarrow> loop_state \<Rightarrow> loop_state \<times> loop_action" where
  "handleTreeCommand e agent sessionKey args st =
     (let mg = lp_sessions st (la_id agent); leaf = LeafEventID mg sessionKey;
          leaf_text = (if leaf = [] then ''leaf: (none)'' else ''leaf: '' @ leaf) in
      if sessionKey = [] then (st, Reply ''No session available (missing session_key)'')
      else case args of
        [] \<Rightarrow> (st, Reply (leaf_text @ nl @ nl @ tree_usage))
      | a # _ \<Rightarrow>
          let sub = ToLower (TrimSpace a) in
          if sub = ''help'' then (st, Reply tree_usage)
          else if sub = ''leaf'' then (st, Reply leaf_text)
          else if sub = ''list'' then
            (case GetTree Truncate mg sessionKey (positive_arg 30 args 1) of
               Inl err \<Rightarrow> (st, Reply (''Error: '' @ le_error e err))
             | Inr t \<Rightarrow> (st, Reply (tree_text sessionKey t)))
          else if sub = ''switch'' then
            (if length args < 2 then (st, Reply ''Usage: /tree switch <event_id>'')
             else case SwitchLeaf (le_world e) sessionKey (TrimSpace (args ! 1)) mg of
               (mg', Inl err) \<Rightarrow> (st\<lparr>lp_sessions := (lp_sessions st)(la_id agent := mg')\<rparr>, Reply (''Error: '' @ le_error e err))
             | (mg', Inr (from, to)) \<Rightarrow>
                 (st\<lparr>lp_sessions := (lp_sessions st)(la_id agent := mg')\<rparr>,
                  Reply (''Switched leaf: '' @ (if from = [] then ''(none)'' else from) @ '' -> '' @ to @ nl
                    @ ''Next messages will branch from '' @ to @ ''.'')))
          else (st, Reply tree_usage))"


section \<open>Switching models\<close>

definition set_default_model :: "string \<Rightarrow> loop_agent agent_registry \<Rightarrow> loop_agent agent_registry" where
  "set_default_model m r =
     (case map_of r ''main'' of
        Some a \<Rightarrow> AList.update ''main'' (a\<lparr>la_model := m\<rparr>) r
      | None \<Rightarrow> (case r of [] \<Rightarrow> [] | (i, a) # others \<Rightarrow> (i, a\<lparr>la_model := m\<rparr>) # others))"

definition session_sm :: "loop_agent \<Rightarrow> manager \<Rightarrow> loop_state \<Rightarrow> loop_state" where
  "session_sm agent mg st = st\<lparr>lp_sessions := (lp_sessions st)(la_id agent := mg)\<rparr>"

definition override_ttl :: "int \<Rightarrow> duration" where
  "override_ttl n = wrap64 (n * (60 * nsSecond))"

definition switch_session_model ::
  "loop_env \<Rightarrow> loop_agent \<Rightarrow> string \<Rightarrow> string list \<Rightarrow> loop_state \<Rightarrow> loop_state \<times> loop_action" where
  "switch_session_model e agent sessionKey args st =
     (let mg = lp_sessions st (la_id agent); v = args ! 2; ttlMinutes = positive_arg 0 args 3;
          nv = ToLower (TrimSpace v) in
      if sessionKey = [] then (st, Reply ''No session available (missing session_key)'')
      else if nv \<in> {[], ''default'', ''clear'', ''off''} then
        (session_sm agent (fst (ClearModelOverride (le_world e) sessionKey mg)) st,
         Reply ''Cleared session model override (using default model).'')
      else case SetModelOverride (le_world e) sessionKey v (override_ttl ttlMinutes) mg of
        (mg', Inl err) \<Rightarrow> (session_sm agent mg' st, Reply (''Error: '' @ le_error e err))
      | (mg', Inr (Some expiresAt)) \<Rightarrow>
          (session_sm agent mg' st, Reply (''Session model override set: '' @ v @ '' (ttl='' @ dec_int ttlMinutes
             @ ''m; expires='' @ le_time e expiresAt @ '')''))
      | (mg', Inr None) \<Rightarrow>
          (session_sm agent mg' st, Reply (''Session model override set: '' @ v @ '' (ttl=none)'')))"

definition handleSwitchCommand ::
  "loop_env \<Rightarrow> loop_agent \<Rightarrow> string \<Rightarrow> string list \<Rightarrow> loop_state \<Rightarrow> loop_state \<times> loop_action" where
  "handleSwitchCommand e agent sessionKey args st =
     (if length args < 3 \<or> args ! 1 \<noteq> ''to''
      then (st, Reply ''Usage: /switch [model|channel|session_model] to <name> [ttl_minutes]'')
      else let t = args ! 0; v = args ! 2 in
        if t = ''model'' then
          (case GetDefaultAgent (lp_agents st) of
             None \<Rightarrow> (st, Reply ''No default agent configured'')
           | Some da \<Rightarrow> (st\<lparr>lp_agents := set_default_model v (lp_agents st)\<rparr>,
                Reply (''Switched model from '' @ la_model da @ '' to '' @ v)))
        else if t = ''session_model'' then switch_session_model e agent sessionKey args st
        else if t = ''channel'' then
          (case le_channels e of
             None \<Rightarrow> (st, Reply ''Channel manager not initialized'')
           | Some cs \<Rightarrow>
               if v \<notin> set cs \<and> v \<noteq> ''cli'' then (st, Reply (''Channel '' @ [CHR 0x27] @ v @ [CHR 0x27] @ '' not found or not enabled''))
               else (st, Reply (''Switched target channel to '' @ v)))
        else (st, Reply (''Unknown switch target: '' @ t)))"

section \<open>Dispatch\<close>

definition handleCommand ::
  "loop_env \<Rightarrow> inbound_message \<Rightarrow> loop_agent \<Rightarrow> string \<Rightarrow> loop_state \<Rightarrow> (loop_state \<times> loop_action) option" where
  "handleCommand e msg agent sessionKey0 st =
     (let sessionKey = CanonicalSessionKey sessionKey0; s = TrimSpace (im_content msg) in
      if \<not> HasPrefix s ''/'' then None
      else case Fields s of
        [] \<Rightarrow> None
      | cmd # args \<Rightarrow>
          if cmd = ''/plan'' then Some (handlePlanCommand e agent sessionKey args st)
          else if cmd = ''/approve'' \<or> cmd = ''/run'' then Some (handleApproveCommand e msg agent sessionKey st)
          else if cmd = ''/cancel'' then Some (handleCancelCommand e agent sessionKey st)
          else if cmd = ''/mode'' then Some (handleModeCommand e agent sessionKey st)
          else if cmd = ''/show'' then Some (st, handleShowCommand msg args st)
          else if cmd = ''/list'' then Some (st, handleListCommand e args st)
          else if cmd = ''/tree'' then Some (handleTreeCommand e agent sessionKey args st)
          else if cmd = ''/switch'' then Some (handleSwitchCommand e agent sessionKey args st)
          else None)"

definition buildUserMessage :: "loop_env \<Rightarrow> loop_agent \<Rightarrow> inbound_message \<Rightarrow> string" where
  "buildUserMessage e agent msg =
     (let userMessage = (case extractSteeringContent (im_content msg) of Some body \<Rightarrow> body | None \<Rightarrow> im_content msg);
          note = le_note e agent msg in
      if note = [] then userMessage
      else if TrimSpace userMessage \<noteq> [] then userMessage @ nl @ nl @ note else note)"

definition message_default :: "plan_config \<Rightarrow> inbound_message \<Rightarrow> permission_mode" where
  "message_default pc msg =
     (let grp = TrimSpace (pl_default_group pc);
          modeText = (if EqualFold (TrimSpace (peer_kind (im_peer msg))) ''group'' \<and> grp \<noteq> [] then grp
                      else TrimSpace (pl_default pc)) in
      if EqualFold (TrimSpace modeText) ''plan'' then ModePlan else ModeRun)"

definition resolvePlanMode ::
  "loop_env \<Rightarrow> loop_agent \<Rightarrow> inbound_message \<Rightarrow> string \<Rightarrow> string \<Rightarrow> loop_state \<Rightarrow> loop_state \<times> bool" where
  "resolvePlanMode e agent msg sessionKey userMessage st =
     (case le_config e of
        None \<Rightarrow> (st, False)
      | Some c \<Rightarrow>
          if \<not> pl_enabled (lc_plan c) then (st, False)
          else let ws = permWorkspace agent st;
                   perm = loadSessionPermissionStateWithDefault (lp_perms st) ws sessionKey
                            (message_default (lc_plan c) msg) in
            if \<not> isPlan perm then (st, False)
            else ((if TrimSpace userMessage \<noteq> [] then save_permission e ws sessionKey (perm\<lparr>pm_task := userMessage\<rparr>) st
                   else st), True))"

definition processSystemMessage :: "loop_env \<Rightarrow> inbound_message \<Rightarrow> loop_state \<Rightarrow> loop_state \<times> loop_action" where
  "processSystemMessage e msg st =
     (if im_channel msg \<noteq> ''system'' then
        (st, Failed (''processSystemMessage called with non-system message channel: '' @ im_channel msg))
      else let (channel, chat) = parseSystemMessageOrigin (im_chat msg) in
        if IsInternalChannel channel then (st, Reply [])
        else let sessionKey = resolveSystemMessageSessionKey (session_settings e) msg channel chat in
          case resolveSystemMessageAgent (lp_agents st) sessionKey of
            None \<Rightarrow> (st, Failed (''no agent available for system message (session_key='' @ sessionKey @ '')''))
          | Some agent \<Rightarrow> (st, RunAgent agent
              \<lparr>po_sessionKey = sessionKey, po_channel = channel, po_chatID = chat, po_senderID = im_sender msg,
               po_userMessage = ''[System: '' @ im_sender msg @ ''] '' @ im_content msg, po_media = [],
               po_defaultResponse = ''Background task completed.'', po_enableSummary = False,
               po_sendResponse = True, po_noHistory = False, po_planMode = False\<rparr>))"

text \<open>\<open>msg\<close> is the message with its audio transcribed.\<close>

definition processMessage :: "loop_env \<Rightarrow> inbound_message \<Rightarrow> loop_state \<Rightarrow> loop_state \<times> loop_action" where
  "processMessage e msg st0 =
     (if im_channel msg = ''system'' then processSystemMessage e msg st0
      else
        let route = resolveInboundRoute (le_route e) msg;
            (sessionKey, replies) = resolveInboundSessionKey (le_now e) msg
               (buildConversationSessionKey (session_settings e) msg) (lp_replies st0);
            st = st0\<lparr>lp_replies := replies\<rparr> in
        case resolveAgentForSession (lp_agents st) sessionKey route of
          None \<Rightarrow> (st, Failed (''no agent available for route (agent_id='' @ rr_agent route @ '')''))
        | Some agent \<Rightarrow>
            (case handleCommand e msg agent sessionKey st of
               Some result \<Rightarrow> result
             | None \<Rightarrow>
                 let userMessage = buildUserMessage e agent msg;
                     (st', planMode) = resolvePlanMode e agent msg sessionKey userMessage st in
                 (st', RunAgent agent (message_options msg sessionKey userMessage planMode))))"

section \<open>Messages that do not come through the queue\<close>

definition direct_message :: "string \<Rightarrow> string \<Rightarrow> string \<Rightarrow> string \<Rightarrow> inbound_message" where
  "direct_message text0 sessionKey channel chatID =
     \<lparr>im_channel = channel, im_sender = ''cron'', im_chat = chatID, im_content = text0, im_media = [],
      im_peer = \<lparr>peer_kind = [], peer_id = []\<rparr>, im_message = [], im_session = sessionKey, im_metadata = Map.empty\<rparr>"

definition ProcessDirectWithChannel ::
  "loop_env \<Rightarrow> string \<Rightarrow> string \<Rightarrow> string \<Rightarrow> string \<Rightarrow> loop_state \<Rightarrow> loop_state \<times> loop_action" where
  "ProcessDirectWithChannel e text0 sessionKey channel chatID st =
     processMessage e (direct_message text0 sessionKey channel chatID) st"

definition ProcessDirect :: "loop_env \<Rightarrow> string \<Rightarrow> string \<Rightarrow> loop_state \<Rightarrow> loop_state \<times> loop_action" where
  "ProcessDirect e text0 sessionKey st = ProcessDirectWithChannel e text0 sessionKey ''cli'' ''direct'' st"

definition ProcessSessionMessage :: "string \<Rightarrow> string \<Rightarrow> string \<Rightarrow> string \<Rightarrow> loop_state \<Rightarrow> loop_action" where
  "ProcessSessionMessage text0 sessionKey channel chatID st =
     (let key = CanonicalSessionKey sessionKey in
      if key = [] then Failed ''sessionKey is required''
      else case resolveSystemMessageAgent (lp_agents st) key of
        None \<Rightarrow> Failed (''no agent available for session '' @ [CHR 0x22] @ key @ [CHR 0x22])
      | Some agent \<Rightarrow> RunAgent agent
          \<lparr>po_sessionKey = key, po_channel = (if TrimSpace channel = [] then ''system'' else channel),
           po_chatID = (if TrimSpace chatID = [] then ''sessions-send'' else chatID), po_senderID = [],
           po_userMessage = text0, po_media = [],
           po_defaultResponse = ''I've completed processing but have no response to give.'',
           po_enableSummary = True, po_sendResponse = False, po_noHistory = False, po_planMode = False\<rparr>)"

definition ProcessHeartbeat :: "string \<Rightarrow> string \<Rightarrow> string \<Rightarrow> loop_state \<Rightarrow> loop_action" where
  "ProcessHeartbeat text0 channel chatID st =
     (case GetDefaultAgent (lp_agents st) of
        None \<Rightarrow> Failed ''no default agent for heartbeat''
      | Some agent \<Rightarrow> RunAgent agent
          \<lparr>po_sessionKey = ''heartbeat'', po_channel = channel, po_chatID = chatID, po_senderID = [],
           po_userMessage = text0, po_media = [], po_defaultResponse = defaultResponse,
           po_enableSummary = False, po_sendResponse = False, po_noHistory = True, po_planMode = False\<rparr>)"

text \<open>What is sent back (\<^verbatim>\<open>processOne\<close>): an error becomes a message, nothing is sent for an empty response or when
  the message tool has already sent.\<close>

definition publish_response ::
  "loop_env \<Rightarrow> inbound_message \<Rightarrow> bool \<Rightarrow> string + string \<Rightarrow> loop_state \<Rightarrow> (string \<times> string \<times> string \<times> string) option" where
  "publish_response e msg sent result st =
     (let sessionKey = fst (resolveInboundSessionKey (le_now e) msg
             (buildConversationSessionKey (session_settings e) msg) (lp_replies st));
          response = (case result of Inl err \<Rightarrow> ''Error processing message: '' @ err | Inr r \<Rightarrow> r) in
      if response = [] \<or> sent then None else Some (im_channel msg, im_chat msg, response, sessionKey))"


section \<open>Lemmas\<close>

lemma plan_texts [simp]: "normalizeSessionPermissionMode ''plan'' = ModePlan" "normalizeSessionPermissionMode ''run'' = ModeRun"
  by code_simp+

lemma normalize_mode_text [simp]: "normalizeSessionPermissionMode (mode_text m) = m"
  by (cases m) (simp_all add: mode_text_def)

lemma normalized_idem [simp]: "normalized (normalized p) = normalized p"
  by (simp add: normalized_def)

lemma isPlan_normalized [simp]: "isPlan (normalized p) = isPlan p"
  by (simp add: isPlan_def normalized_def)

lemma load_after_save:
  "sessionPermissionStatePath ws sk \<noteq> None \<Longrightarrow>
     loadSessionPermissionStateWithDefault (saveSessionPermissionState True ws sk p files) ws sk d = normalized p"
  by (auto simp: loadSessionPermissionStateWithDefault_def saveSessionPermissionState_def Let_def)

lemma load_other_session:
  "sessionPermissionStatePath ws sk \<noteq> sessionPermissionStatePath ws' sk' \<Longrightarrow>
     loadSessionPermissionStateWithDefault (saveSessionPermissionState ok ws sk p files) ws' sk' d
     = loadSessionPermissionStateWithDefault files ws' sk' d"
  by (auto simp: loadSessionPermissionStateWithDefault_def saveSessionPermissionState_def Let_def split: option.splits)

lemma permWorkspace_save [simp]: "permWorkspace a (save_permission e ws sk p st) = permWorkspace a st"
  by (simp add: permWorkspace_def save_permission_def)

lemma perms_save [simp]:
  "lp_perms (save_permission e ws sk p st) = saveSessionPermissionState (le_saved e) ws sk p (lp_perms st)"
  by (simp add: save_permission_def)

lemma run_mode_not_plan [simp]: "\<not> isPlan (run_mode p)" "pm_task (run_mode p) = []"
  by (simp_all add: run_mode_def isPlan_def)

text \<open>A session has a file for its permission state.\<close>

definition has_permission_file :: "loop_agent \<Rightarrow> string \<Rightarrow> loop_state \<Rightarrow> bool" where
  "has_permission_file agent sessionKey st \<longleftrightarrow> sessionPermissionStatePath (permWorkspace agent st) sessionKey \<noteq> None"

definition permission_of :: "loop_agent \<Rightarrow> string \<Rightarrow> loop_state \<Rightarrow> permission" where
  "permission_of agent sk st = loadSessionPermissionStateWithDefault (lp_perms st) (permWorkspace agent st) sk ModeRun"

lemma captured:
  assumes "resolvePlanMode e agent msg sk um st = (st', True)" "TrimSpace um \<noteq> []" "le_saved e"
    and "has_permission_file agent sk st"
  shows "loadSessionPermissionStateWithDefault (lp_perms st') (permWorkspace agent st) sk d
      = \<lparr>pm_mode = ''plan'', pm_task = TrimSpace um\<rparr> \<and> lp_agents st' = lp_agents st"
proof -
  let ?ws = "permWorkspace agent st"
  obtain c where c: "le_config e = Some c" using assms(1) by (cases "le_config e") (auto simp: resolvePlanMode_def)
  let ?p = "loadSessionPermissionStateWithDefault (lp_perms st) ?ws sk (message_default (lc_plan c) msg)"
  have p: "isPlan ?p" and st': "st' = save_permission e ?ws sk (?p\<lparr>pm_task := um\<rparr>) st"
    using assms(1,2) c by (auto simp: resolvePlanMode_def Let_def split: if_splits)
  have "loadSessionPermissionStateWithDefault (lp_perms st') ?ws sk d = normalized (?p\<lparr>pm_task := um\<rparr>)"
    using load_after_save[of ?ws sk "?p\<lparr>pm_task := um\<rparr>" "lp_perms st" d] assms(3,4)
    by (simp add: st' has_permission_file_def)
  also have "\<dots> = \<lparr>pm_mode = ''plan'', pm_task = TrimSpace um\<rparr>"
    using p by (simp add: normalized_def isPlan_def mode_text_def)
  finally show ?thesis by (simp add: st' save_permission_def)
qed

lemma permWorkspace_agents: "lp_agents st' = lp_agents st \<Longrightarrow> permWorkspace a st' = permWorkspace a st"
  by (simp add: permWorkspace_def)

section \<open>Properties\<close>

text \<open>C31: Plan mode keeps its promise: when a message was taken in plan mode and remembered, \<^verbatim>\<open>/approve\<close> in that session
  starts one run of exactly that message, outside plan mode, and a second \<^verbatim>\<open>/approve\<close> starts nothing.\<close>
theorem approve_runs_captured_task:
  assumes "resolvePlanMode e agent msg sk um st = (st', True)" "TrimSpace um \<noteq> []" "le_saved e" "le_saved e'"
    and "has_permission_file agent sk st" "plan_enabled e'" "sk \<noteq> []"
  shows "snd (handleApproveCommand e' msg' agent sk st')
      = RunApproved agent ((message_options msg' sk (approvedPrompt (TrimSpace um)) False)\<lparr>po_media := []\<rparr>)
    \<and> snd (handleApproveCommand e' msg' agent sk (fst (handleApproveCommand e' msg' agent sk st')))
      = Reply ''Plan mode is not active for this session. Use /plan first.''"
proof -
  let ?ws = "permWorkspace agent st"
  note c = captured[OF assms(1,2,3,5)]
  have ws: "permWorkspace agent st' = ?ws" using c permWorkspace_agents by blast
  have l: "loadPlanPermissionContext e' agent sk no_session st' = Inr (?ws, \<lparr>pm_mode = ''plan'', pm_task = TrimSpace um\<rparr>)"
    using c assms(7) by (simp add: loadPlanPermissionContext_def ws Let_def)
  let ?p = "run_mode \<lparr>pm_mode = ''plan'', pm_task = TrimSpace um\<rparr>"
  have a: "handleApproveCommand e' msg' agent sk st' =
     (save_permission e' ?ws sk ?p st',
      RunApproved agent ((message_options msg' sk (approvedPrompt (TrimSpace um)) False)\<lparr>po_media := []\<rparr>))"
    using assms(2,6) by (simp add: handleApproveCommand_def l isPlan_def Let_def)
  have "loadPlanPermissionContext e' agent sk no_session (save_permission e' ?ws sk ?p st') = Inr (?ws, normalized ?p)"
    using assms(4,5,7) load_after_save[of ?ws sk ?p "lp_perms st'"]
    by (simp add: loadPlanPermissionContext_def ws has_permission_file_def Let_def)
  then show ?thesis using assms(6) by (simp add: a) (simp add: handleApproveCommand_def)
qed

text \<open>An approval without a task ends plan mode: the answer asks for a task ``while in plan mode'', but the next
  message of the session runs at once, outside plan mode.\<close>
theorem empty_approve_ends_plan_mode:
  assumes "snd (handleApproveCommand e msg agent sk st)
      = Reply ''No pending task captured. Send a task while in plan mode, then /approve.''"
    and "le_saved e" "has_permission_file agent sk st"
  shows "snd (resolvePlanMode e' agent msg' sk um (fst (handleApproveCommand e msg agent sk st))) = False"
proof -
  let ?ws = "permWorkspace agent st"
  obtain p where p: "loadPlanPermissionContext e agent sk no_session st = Inr (?ws, p)"
    and f: "fst (handleApproveCommand e msg agent sk st) = save_permission e ?ws sk (run_mode p) st"
    using assms(1)
    by (auto simp: handleApproveCommand_def loadPlanPermissionContext_def plan_disabled_def no_session_def Let_def split: if_splits)
  have "\<not> isPlan (loadSessionPermissionStateWithDefault (lp_perms (save_permission e ?ws sk (run_mode p) st)) ?ws sk d)" for d
    using assms(2,3) load_after_save[of ?ws sk "run_mode p" "lp_perms st" d] by (simp add: has_permission_file_def)
  then show ?thesis unfolding f by (simp add: resolvePlanMode_def Let_def split: option.splits)
qed

lemma sessions_share_permission_file:
  "sessionPermissionStatePath ''/w'' ''conv:matrix:group:a:b'' = sessionPermissionStatePath ''/w'' ''conv:matrix:group:a_b''"
  by code_simp

lemma override_ttl_wraps: "override_ttl 153722868 < 0"
  by code_simp

text \<open>\<^verbatim>\<open>/switch model\<close> does not reach an agent with fallback candidates: a call made under the agent's own model goes to
  the candidates, which the command leaves as they are, so its result is the same for every model.\<close>
theorem switch_model_ignored:
  assumes "1 < length (ag_candidates (re_agent env))" "TrimSpace m \<noteq> []" "TrimSpace (ag_model (re_agent env)) \<noteq> []"
    and "st_model st = TrimSpace (ag_model (re_agent env))"
  shows "snd (performLLMCall (env\<lparr>re_agent := (re_agent env)\<lparr>ag_model := m\<rparr>\<rparr>) retry (st\<lparr>st_model := TrimSpace m\<rparr>))
      = snd (performLLMCall env retry st)"
  using assms by (simp add: performLLMCall_def Let_def split: sum.splits prod.splits)


definition ex_world :: world where
  "ex_world = \<lparr>w_now = 0, w_now2 = 0, w_id = ''e1'', w_ts = [], w_append = Appended, w_meta_ok = True\<rparr>"

definition ex_loop_env :: loop_env where
  "ex_loop_env = \<lparr>le_config = Some \<lparr>lc_session = \<lparr>sc_dm_scope = [], sc_links = []\<rparr>,
        lc_plan = \<lparr>pl_enabled = True, pl_default = ''plan'', pl_default_group = []\<rparr>\<rparr>,
     le_route = ex_route_config, le_channels = None, le_now = 0, le_world = ex_world, le_saved = True,
     le_error = (\<lambda>_. []), le_time = (\<lambda>_. []), le_note = (\<lambda>_ _. [])\<rparr>"

definition ex_loop_agent :: loop_agent where
  "ex_loop_agent = \<lparr>la_id = ''main'', la_model = ''gpt-a'', la_workspace = ''/w''\<rparr>"

definition ex_loop :: loop_state where
  "ex_loop = \<lparr>lp_agents = [(''main'', ex_loop_agent)], lp_sessions = (\<lambda>_. Compaction.ex_store False []),
     lp_perms = Map.empty, lp_replies = []\<rparr>"

lemma ex_loop_facts:
  "permWorkspace ex_loop_agent ex_loop = ''/w''" "plan_enabled ex_loop_env" "le_saved ex_loop_env"
  "has_permission_file ex_loop_agent ''conv:main'' ex_loop"
proof -
  have w: "TrimSpace ''/w'' \<noteq> []" by code_simp
  show ws: "permWorkspace ex_loop_agent ex_loop = ''/w''"
    by (simp add: permWorkspace_def ex_loop_def GetDefaultAgent_def ex_loop_agent_def w)
  have "sessionPermissionStatePath ''/w'' ''conv:main'' \<noteq> None" by code_simp
  then show "has_permission_file ex_loop_agent ''conv:main'' ex_loop" by (simp add: has_permission_file_def ws)
qed (simp_all add: plan_enabled_def ex_loop_env_def)

lemma ex_plan_taken:
  "\<exists>st'. resolvePlanMode ex_loop_env ex_loop_agent (ex_reply []) ''conv:main'' ''deploy'' ex_loop = (st', True)"
proof -
  have "TrimSpace [] = []" "TrimSpace ''plan'' = ''plan''" "EqualFold ''plan'' ''plan''" by code_simp+
  then have "message_default \<lparr>pl_enabled = True, pl_default = ''plan'', pl_default_group = []\<rparr> (ex_reply []) = ModePlan"
    by (simp add: message_default_def)
  moreover have "loadSessionPermissionStateWithDefault (lp_perms ex_loop) ''/w'' ''conv:main'' d = \<lparr>pm_mode = mode_text d, pm_task = []\<rparr>" for d
    by (simp add: loadSessionPermissionStateWithDefault_def ex_loop_def Let_def split: option.splits)
  ultimately show ?thesis by (simp add: resolvePlanMode_def ex_loop_env_def ex_loop_facts Let_def isPlan_def)
qed

theorem approve_runs_captured_task_witness:
  "\<exists>(st' :: loop_state) (o' :: process_options). snd (handleApproveCommand ex_loop_env (ex_reply []) ex_loop_agent ''conv:main'' st')
     = RunApproved ex_loop_agent o' \<and> po_userMessage o' = approvedPrompt ''deploy'' \<and> \<not> po_planMode o'"
proof -
  have t: "TrimSpace ''deploy'' = ''deploy''" by code_simp
  obtain st' where st': "resolvePlanMode ex_loop_env ex_loop_agent (ex_reply []) ''conv:main'' ''deploy'' ex_loop = (st', True)"
    using ex_plan_taken by blast
  show ?thesis
    using approve_runs_captured_task[OF st' _ _ _ ex_loop_facts(4), of ex_loop_env "ex_reply []"]
    by (intro exI[of _ st']) (auto simp: t ex_loop_facts message_options_def)
qed

theorem empty_approve_ends_plan_mode_witness:
  "snd (resolvePlanMode ex_loop_env ex_loop_agent (ex_reply []) ''conv:main'' ''deploy''
     (fst (handleApproveCommand ex_loop_env (ex_reply []) ex_loop_agent ''conv:main'' ex_loop))) = False"
proof -
  have "EqualFold (TrimSpace ''plan'') ''plan''" "TrimSpace [] = []" by code_simp+
  moreover have "command_default ex_loop_env = ModePlan" using calculation by (simp add: command_default_def ex_loop_env_def)
  moreover have "loadSessionPermissionStateWithDefault (lp_perms ex_loop) ''/w'' ''conv:main'' d = \<lparr>pm_mode = mode_text d, pm_task = []\<rparr>" for d
    by (simp add: loadSessionPermissionStateWithDefault_def ex_loop_def Let_def split: option.splits)
  ultimately have "snd (handleApproveCommand ex_loop_env (ex_reply []) ex_loop_agent ''conv:main'' ex_loop)
      = Reply ''No pending task captured. Send a task while in plan mode, then /approve.''"
    by (simp add: handleApproveCommand_def loadPlanPermissionContext_def ex_loop_facts isPlan_def Let_def)
  from empty_approve_ends_plan_mode[OF this ex_loop_facts(3,4)] show ?thesis .
qed

theorem switch_model_ignored_witness:
  "snd (performLLMCall (ex_chain_env\<lparr>re_agent := (re_agent ex_chain_env)\<lparr>ag_model := ''glm''\<rparr>\<rparr>) 0 (ex_start\<lparr>st_model := ''glm''\<rparr>))
     = snd (performLLMCall ex_chain_env 0 (ex_start\<lparr>st_model := ''gpt-a''\<rparr>))"
proof -
  have t: "TrimSpace ''glm'' = ''glm''" "TrimSpace ''gpt-a'' = ''gpt-a''" by code_simp+
  have e: "ag_model (re_agent ex_chain_env) = ''gpt-a''" "length (ag_candidates (re_agent ex_chain_env)) = 2"
    by (simp_all add: ex_chain_env_def)
  show ?thesis using switch_model_ignored[of ex_chain_env "''glm''" "ex_start\<lparr>st_model := ''gpt-a''\<rparr>" 0] by (simp add: t e)
qed

end
