(* ===== verification/InboundQueue.thy ===== *)
theory InboundQueue
  imports Inbound "HOL-Library.Multiset" "HOL-Library.Sublist"
begin

text \<open>
  The inbound queue of the gateway: \<^verbatim>\<open>AgentLoop.Run\<close> (\<^verbatim>\<open>pkg/agent/loop.go\<close>) with the inbound channel of
  \<^verbatim>\<open>pkg/bus/bus.go\<close>.  One dispatcher takes messages off the bus and puts each into the bucket of its
  key; one worker per bucket processes its messages in order, at most \<open>qc_max\<close> of them at a time.  Every
  operation on a channel, a flag or the semaphore is a step of its own, so a run of \<open>queue_step\<close> is an
  interleaving of the goroutines.  What a run does is not modelled here (\<open>AgentRun\<close>): it reads its
  steering inbox any number of times and ends.  Cancellation of the context is not modelled.
  The lists \<open>qs_arrived\<close>, \<open>qs_started\<close>, \<open>qs_absorbed\<close> and \<open>qs_discarded\<close> record what happened.
\<close>

section \<open>State\<close>

record queue_config =
  qc_session :: "session_config option"
  qc_max :: nat
  qc_buffer :: nat

text \<open>\<^verbatim>\<open>maxConc\<close> and \<^verbatim>\<open>perSessionBuf\<close> with their defaults.\<close>

definition configured_queue :: "session_config option \<Rightarrow> int \<Rightarrow> int \<Rightarrow> queue_config" where
  "configured_queue sess maxConc perSessionBuf =
     \<lparr>qc_session = sess, qc_max = (if maxConc \<le> 0 then 1 else nat maxConc),
      qc_buffer = (if perSessionBuf \<le> 0 then 32 else nat perSessionBuf)\<rparr>"

definition defaultBusBufferSize :: nat where "defaultBusBufferSize = 64"
definition steeringBuffer :: nat where "steeringBuffer = 16"

datatype dispatcher =
    Consuming
  | Arriving string inbound_message             \<comment> \<open>the bucket is known, its flag not yet read\<close>
  | Steering string inbound_message string      \<comment> \<open>the session was active and the message steers it\<close>
  | Enqueueing string inbound_message

datatype worker =
    Parked
  | Draining inbound_message
  | Waiting inbound_message                     \<comment> \<open>for the semaphore\<close>
  | Running inbound_message
  | Leaving                                     \<comment> \<open>the semaphore is released, the flag still set\<close>

record bucket =
  bk_ch :: "inbound_message list"
  bk_steer :: "inbound_message list"
  bk_active :: bool
  bk_worker :: worker

record queue_state =
  qs_bus :: "inbound_message list"
  qs_dispatcher :: dispatcher
  qs_buckets :: "(string \<times> bucket) list"
  qs_sem :: nat
  qs_arrived :: "inbound_message list"
  qs_started :: "inbound_message list"
  qs_absorbed :: "inbound_message list"
  qs_discarded :: "inbound_message list"

definition empty_bucket :: bucket where
  "empty_bucket = \<lparr>bk_ch = [], bk_steer = [], bk_active = False, bk_worker = Parked\<rparr>"

definition queue_start :: queue_state where
  "queue_start = \<lparr>qs_bus = [], qs_dispatcher = Consuming, qs_buckets = [], qs_sem = 0, qs_arrived = [],
     qs_started = [], qs_absorbed = [], qs_discarded = []\<rparr>"

definition bucket_of :: "queue_state \<Rightarrow> string \<Rightarrow> bucket option" where
  "bucket_of st k = map_of (qs_buckets st) k"

definition set_bucket :: "string \<Rightarrow> bucket \<Rightarrow> queue_state \<Rightarrow> queue_state" where
  "set_bucket k b st = st\<lparr>qs_buckets := AList.update k b (qs_buckets st)\<rparr>"

section \<open>The dispatcher\<close>

definition PublishInbound :: "inbound_message \<Rightarrow> queue_state \<Rightarrow> queue_state option" where
  "PublishInbound m st =
     (if length (qs_bus st) < defaultBusBufferSize
      then Some (st\<lparr>qs_bus := qs_bus st @ [m], qs_arrived := qs_arrived st @ [m]\<rparr>) else None)"

text \<open>Taking a message: its bucket is made when there is none, with its worker.\<close>

definition ConsumeInbound :: "queue_config \<Rightarrow> queue_state \<Rightarrow> queue_state option" where
  "ConsumeInbound qc st =
     (case (qs_dispatcher st, qs_bus st) of
        (Consuming, m # ms) \<Rightarrow>
          (let k = getBucketKey (qc_session qc) m;
               st' = st\<lparr>qs_bus := ms, qs_dispatcher := Arriving k m\<rparr> in
           Some (if bucket_of st k = None then set_bucket k empty_bucket st' else st'))
      | _ \<Rightarrow> None)"

definition read_active :: "queue_state \<Rightarrow> queue_state option" where
  "read_active st =
     (case qs_dispatcher st of
        Arriving k m \<Rightarrow>
          (case bucket_of st k of None \<Rightarrow> None
           | Some b \<Rightarrow> Some (st\<lparr>qs_dispatcher :=
               (case extractSteeringContent (im_content m) of
                  Some body \<Rightarrow> if bk_active b then Steering k m body else Enqueueing k m
                | None \<Rightarrow> Enqueueing k m)\<rparr>))
      | _ \<Rightarrow> None)"

definition steer_message :: "queue_state \<Rightarrow> queue_state option" where
  "steer_message st =
     (case qs_dispatcher st of
        Steering k m body \<Rightarrow>
          (case bucket_of st k of None \<Rightarrow> None
           | Some b \<Rightarrow> Some (if length (bk_steer b) < steeringBuffer
               then set_bucket k (b\<lparr>bk_steer := bk_steer b @ [m\<lparr>im_content := body\<rparr>]\<rparr>) (st\<lparr>qs_dispatcher := Consuming\<rparr>)
               else st\<lparr>qs_dispatcher := Enqueueing k m\<rparr>))
      | _ \<Rightarrow> None)"

definition put_message :: "queue_config \<Rightarrow> queue_state \<Rightarrow> queue_state option" where
  "put_message qc st =
     (case qs_dispatcher st of
        Enqueueing k m \<Rightarrow>
          (case bucket_of st k of None \<Rightarrow> None
           | Some b \<Rightarrow> if length (bk_ch b) < qc_buffer qc
               then Some (set_bucket k (b\<lparr>bk_ch := bk_ch b @ [m]\<rparr>) (st\<lparr>qs_dispatcher := Consuming\<rparr>))
               else None)
      | _ \<Rightarrow> None)"

section \<open>The worker of a bucket\<close>

definition pop_message :: "string \<Rightarrow> queue_state \<Rightarrow> queue_state option" where
  "pop_message k st =
     (case bucket_of st k of None \<Rightarrow> None
      | Some b \<Rightarrow>
          (case (bk_worker b, bk_ch b) of
             (Parked, m # ms) \<Rightarrow> Some (set_bucket k (b\<lparr>bk_ch := ms, bk_worker := Draining m\<rparr>) st)
           | _ \<Rightarrow> None))"

definition drain_steering :: "string \<Rightarrow> queue_state \<Rightarrow> queue_state option" where
  "drain_steering k st =
     (case bucket_of st k of None \<Rightarrow> None
      | Some b \<Rightarrow>
          (case (bk_worker b, bk_steer b) of
             (Draining m, x # xs) \<Rightarrow>
               Some ((set_bucket k (b\<lparr>bk_steer := xs\<rparr>) st)\<lparr>qs_discarded := qs_discarded st @ [x]\<rparr>)
           | (Draining m, []) \<Rightarrow> Some (set_bucket k (b\<lparr>bk_active := True, bk_worker := Waiting m\<rparr>) st)
           | _ \<Rightarrow> None))"

definition acquire :: "queue_config \<Rightarrow> string \<Rightarrow> queue_state \<Rightarrow> queue_state option" where
  "acquire qc k st =
     (case bucket_of st k of None \<Rightarrow> None
      | Some b \<Rightarrow>
          (case bk_worker b of
             Waiting m \<Rightarrow>
               if qs_sem st < qc_max qc
               then Some ((set_bucket k (b\<lparr>bk_worker := Running m\<rparr>) st)
                      \<lparr>qs_sem := Suc (qs_sem st), qs_started := qs_started st @ [m]\<rparr>)
               else None
           | _ \<Rightarrow> None))"

text \<open>The run reads its steering inbox.\<close>

definition read_steering :: "string \<Rightarrow> queue_state \<Rightarrow> queue_state option" where
  "read_steering k st =
     (case bucket_of st k of None \<Rightarrow> None
      | Some b \<Rightarrow>
          (case (bk_worker b, bk_steer b) of
             (Running m, x # xs) \<Rightarrow>
               Some ((set_bucket k (b\<lparr>bk_steer := xs\<rparr>) st)\<lparr>qs_absorbed := qs_absorbed st @ [x]\<rparr>)
           | _ \<Rightarrow> None))"

definition release :: "string \<Rightarrow> queue_state \<Rightarrow> queue_state option" where
  "release k st =
     (case bucket_of st k of None \<Rightarrow> None
      | Some b \<Rightarrow>
          (case bk_worker b of
             Running m \<Rightarrow> Some ((set_bucket k (b\<lparr>bk_worker := Leaving\<rparr>) st)\<lparr>qs_sem := qs_sem st - 1\<rparr>)
           | Leaving \<Rightarrow> Some (set_bucket k (b\<lparr>bk_active := False, bk_worker := Parked\<rparr>) st)
           | _ \<Rightarrow> None))"

section \<open>Runs\<close>

inductive work_step :: "queue_config \<Rightarrow> queue_state \<Rightarrow> queue_state \<Rightarrow> bool" for qc where
  consume: "ConsumeInbound qc st = Some st' \<Longrightarrow> work_step qc st st'"
| active: "read_active st = Some st' \<Longrightarrow> work_step qc st st'"
| steer: "steer_message st = Some st' \<Longrightarrow> work_step qc st st'"
| put: "put_message qc st = Some st' \<Longrightarrow> work_step qc st st'"
| pop: "pop_message k st = Some st' \<Longrightarrow> work_step qc st st'"
| drain: "drain_steering k st = Some st' \<Longrightarrow> work_step qc st st'"
| acquire: "acquire qc k st = Some st' \<Longrightarrow> work_step qc st st'"
| absorb: "read_steering k st = Some st' \<Longrightarrow> work_step qc st st'"
| release: "release k st = Some st' \<Longrightarrow> work_step qc st st'"

inductive queue_step :: "queue_config \<Rightarrow> queue_state \<Rightarrow> queue_state \<Rightarrow> bool" for qc where
  publish: "PublishInbound m st = Some st' \<Longrightarrow> queue_step qc st st'"
| work: "work_step qc st st' \<Longrightarrow> queue_step qc st st'"

inductive queue_reachable :: "queue_config \<Rightarrow> queue_state \<Rightarrow> bool" for qc where
  start: "queue_reachable qc queue_start"
| step: "queue_reachable qc st \<Longrightarrow> queue_step qc st st' \<Longrightarrow> queue_reachable qc st'"


section \<open>The steps, one by one\<close>

text \<open>What a worker holds before its message is started.\<close>

fun worker_pending :: "worker \<Rightarrow> inbound_message list" where
  "worker_pending (Draining m) = [m]"
| "worker_pending (Waiting m) = [m]"
| "worker_pending _ = []"

fun worker_running :: "worker \<Rightarrow> inbound_message list" where
  "worker_running (Running m) = [m]"
| "worker_running _ = []"

fun held :: "dispatcher \<Rightarrow> inbound_message list" where
  "held Consuming = []"
| "held (Arriving k m) = [m]"
| "held (Steering k m body) = [m]"
| "held (Enqueueing k m) = [m]"

lemma bucket_of_set [simp]: "bucket_of (set_bucket k b st) k' = (if k' = k then Some b else bucket_of st k')"
  by (simp add: bucket_of_def set_bucket_def update_conv')

lemma set_bucket_simps [simp]:
  "qs_bus (set_bucket k b st) = qs_bus st" "qs_dispatcher (set_bucket k b st) = qs_dispatcher st"
  "qs_sem (set_bucket k b st) = qs_sem st" "qs_arrived (set_bucket k b st) = qs_arrived st"
  "qs_started (set_bucket k b st) = qs_started st" "qs_absorbed (set_bucket k b st) = qs_absorbed st"
  "qs_discarded (set_bucket k b st) = qs_discarded st"
  "qs_buckets (set_bucket k b st) = AList.update k b (qs_buckets st)"
  by (simp_all add: set_bucket_def)

lemma bucket_of_upd [simp]:
  "bucket_of (st\<lparr>qs_bus := x1\<rparr>) k = bucket_of st k" "bucket_of (st\<lparr>qs_dispatcher := x2\<rparr>) k = bucket_of st k"
  "bucket_of (st\<lparr>qs_sem := x3\<rparr>) k = bucket_of st k" "bucket_of (st\<lparr>qs_arrived := x4\<rparr>) k = bucket_of st k"
  "bucket_of (st\<lparr>qs_started := x5\<rparr>) k = bucket_of st k" "bucket_of (st\<lparr>qs_absorbed := x6\<rparr>) k = bucket_of st k"
  "bucket_of (st\<lparr>qs_discarded := x7\<rparr>) k = bucket_of st k"
  by (simp_all add: bucket_of_def)

lemma consume_cases:
  assumes "ConsumeInbound qc st = Some st'"
  obtains m ms where "qs_dispatcher st = Consuming" "qs_bus st = m # ms"
    "st' = (if bucket_of st (getBucketKey (qc_session qc) m) = None
            then set_bucket (getBucketKey (qc_session qc) m) empty_bucket
                   (st\<lparr>qs_bus := ms, qs_dispatcher := Arriving (getBucketKey (qc_session qc) m) m\<rparr>)
            else st\<lparr>qs_bus := ms, qs_dispatcher := Arriving (getBucketKey (qc_session qc) m) m\<rparr>)"
  using assms unfolding ConsumeInbound_def Let_def by (auto split: dispatcher.splits list.splits)

lemma active_cases:
  assumes "read_active st = Some st'"
  obtains (steer) k m body b where "qs_dispatcher st = Arriving k m" "bucket_of st k = Some b" "bk_active b"
      "extractSteeringContent (im_content m) = Some body" "st' = st\<lparr>qs_dispatcher := Steering k m body\<rparr>"
  | (enqueue) k m b where "qs_dispatcher st = Arriving k m" "bucket_of st k = Some b"
      "st' = st\<lparr>qs_dispatcher := Enqueueing k m\<rparr>"
  using assms unfolding read_active_def by (auto split: dispatcher.splits option.splits if_splits)

lemma steer_cases:
  assumes "steer_message st = Some st'"
  obtains (steer) k m body b where "qs_dispatcher st = Steering k m body" "bucket_of st k = Some b"
      "length (bk_steer b) < steeringBuffer"
      "st' = set_bucket k (b\<lparr>bk_steer := bk_steer b @ [m\<lparr>im_content := body\<rparr>]\<rparr>) (st\<lparr>qs_dispatcher := Consuming\<rparr>)"
  | (enqueue) k m body b where "qs_dispatcher st = Steering k m body" "bucket_of st k = Some b"
      "st' = st\<lparr>qs_dispatcher := Enqueueing k m\<rparr>"
  using assms unfolding steer_message_def by (auto split: dispatcher.splits option.splits if_splits)

lemma put_cases:
  assumes "put_message qc st = Some st'"
  obtains k m b where "qs_dispatcher st = Enqueueing k m" "bucket_of st k = Some b" "length (bk_ch b) < qc_buffer qc"
    "st' = set_bucket k (b\<lparr>bk_ch := bk_ch b @ [m]\<rparr>) (st\<lparr>qs_dispatcher := Consuming\<rparr>)"
  using assms unfolding put_message_def by (auto split: dispatcher.splits option.splits if_splits)

lemma pop_cases:
  assumes "pop_message k st = Some st'"
  obtains b m ms where "bucket_of st k = Some b" "bk_worker b = Parked" "bk_ch b = m # ms"
    "st' = set_bucket k (b\<lparr>bk_ch := ms, bk_worker := Draining m\<rparr>) st"
  using assms unfolding pop_message_def by (auto split: option.splits worker.splits list.splits)

lemma drain_cases:
  assumes "drain_steering k st = Some st'"
  obtains (discard) b m x xs where "bucket_of st k = Some b" "bk_worker b = Draining m" "bk_steer b = x # xs"
      "st' = (set_bucket k (b\<lparr>bk_steer := xs\<rparr>) st)\<lparr>qs_discarded := qs_discarded st @ [x]\<rparr>"
  | (drained) b m where "bucket_of st k = Some b" "bk_worker b = Draining m" "bk_steer b = []"
      "st' = set_bucket k (b\<lparr>bk_active := True, bk_worker := Waiting m\<rparr>) st"
  using assms unfolding drain_steering_def by (auto split: option.splits worker.splits list.splits)

lemma acquire_cases:
  assumes "acquire qc k st = Some st'"
  obtains b m where "bucket_of st k = Some b" "bk_worker b = Waiting m" "qs_sem st < qc_max qc"
    "st' = (set_bucket k (b\<lparr>bk_worker := Running m\<rparr>) st)\<lparr>qs_sem := Suc (qs_sem st), qs_started := qs_started st @ [m]\<rparr>"
  using assms unfolding acquire_def by (auto split: option.splits worker.splits if_splits)

lemma absorb_cases:
  assumes "read_steering k st = Some st'"
  obtains b m x xs where "bucket_of st k = Some b" "bk_worker b = Running m" "bk_steer b = x # xs"
    "st' = (set_bucket k (b\<lparr>bk_steer := xs\<rparr>) st)\<lparr>qs_absorbed := qs_absorbed st @ [x]\<rparr>"
  using assms unfolding read_steering_def by (auto split: option.splits worker.splits list.splits)

lemma release_cases:
  assumes "release k st = Some st'"
  obtains (finish) b m where "bucket_of st k = Some b" "bk_worker b = Running m"
      "st' = (set_bucket k (b\<lparr>bk_worker := Leaving\<rparr>) st)\<lparr>qs_sem := qs_sem st - 1\<rparr>"
  | (park) b where "bucket_of st k = Some b" "bk_worker b = Leaving"
      "st' = set_bucket k (b\<lparr>bk_active := False, bk_worker := Parked\<rparr>) st"
  using assms unfolding release_def by (auto split: option.splits worker.splits)

section \<open>Sums over the buckets\<close>

definition over_buckets :: "(bucket \<Rightarrow> 'a::comm_monoid_add) \<Rightarrow> queue_state \<Rightarrow> 'a" where
  "over_buckets f st = (\<Sum>(k, b)\<leftarrow>qs_buckets st. f b)"

lemma over_buckets_upd [simp]:
  "over_buckets f (st\<lparr>qs_bus := x1\<rparr>) = over_buckets f st" "over_buckets f (st\<lparr>qs_dispatcher := x2\<rparr>) = over_buckets f st"
  "over_buckets f (st\<lparr>qs_sem := x3\<rparr>) = over_buckets f st" "over_buckets f (st\<lparr>qs_arrived := x4\<rparr>) = over_buckets f st"
  "over_buckets f (st\<lparr>qs_started := x5\<rparr>) = over_buckets f st" "over_buckets f (st\<lparr>qs_absorbed := x6\<rparr>) = over_buckets f st"
  "over_buckets f (st\<lparr>qs_discarded := x7\<rparr>) = over_buckets f st"
  by (simp_all add: over_buckets_def)

lemma sum_update:
  "distinct (map fst bs) \<Longrightarrow> map_of bs k = Some b
   \<Longrightarrow> (\<Sum>(k, b)\<leftarrow>AList.update k b' bs. f b) + f b = (\<Sum>(k, b)\<leftarrow>bs. f b) + (f b' :: 'a::comm_monoid_add)"
  by (induction bs) (auto simp: ac_simps split: if_splits)

lemma sum_update_new:
  "map_of bs k = None \<Longrightarrow> (\<Sum>(k, b)\<leftarrow>AList.update k b' bs. f b) = (\<Sum>(k, b)\<leftarrow>bs. f b) + (f b' :: 'a::comm_monoid_add)"
  by (induction bs) (auto simp: ac_simps split: if_splits)

lemma over_buckets_set:
  "distinct (map fst (qs_buckets st)) \<Longrightarrow> bucket_of st k = Some b
   \<Longrightarrow> over_buckets f (set_bucket k b' st) + f b = over_buckets f st + (f b' :: 'a::comm_monoid_add)"
  by (simp add: over_buckets_def bucket_of_def sum_update)

lemma over_buckets_new:
  "bucket_of st k = None \<Longrightarrow> over_buckets f (set_bucket k b' st) = over_buckets f st + (f b' :: 'a::comm_monoid_add)"
  by (simp add: over_buckets_def bucket_of_def sum_update_new)


section \<open>The invariant\<close>

abbreviation key :: "queue_config \<Rightarrow> inbound_message \<Rightarrow> string" where
  "key qc m \<equiv> getBucketKey (qc_session qc) m"

definition bucket_ok :: "queue_config \<Rightarrow> string \<Rightarrow> bucket \<Rightarrow> bool" where
  "bucket_ok qc k b \<longleftrightarrow>
     list_all (\<lambda>m. key qc m = k) (worker_pending (bk_worker b) @ worker_running (bk_worker b) @ bk_ch b)
     \<and> (bk_active b \<longleftrightarrow> bk_worker b = Leaving \<or> (\<exists>m. bk_worker b = Waiting m) \<or> worker_running (bk_worker b) \<noteq> [])
     \<and> length (bk_ch b) \<le> qc_buffer qc \<and> length (bk_steer b) \<le> steeringBuffer"

definition dispatcher_ok :: "queue_config \<Rightarrow> queue_state \<Rightarrow> bool" where
  "dispatcher_ok qc st \<longleftrightarrow>
     (case qs_dispatcher st of
        Consuming \<Rightarrow> True
      | Arriving k m \<Rightarrow> k = key qc m \<and> bucket_of st k \<noteq> None
      | Steering k m body \<Rightarrow> k = key qc m \<and> bucket_of st k \<noteq> None \<and> extractSteeringContent (im_content m) = Some body
      | Enqueueing k m \<Rightarrow> k = key qc m \<and> bucket_of st k \<noteq> None)"

definition running_in :: "bucket \<Rightarrow> nat" where
  "running_in b = length (worker_running (bk_worker b))"

definition queue_ok :: "queue_config \<Rightarrow> queue_state \<Rightarrow> bool" where
  "queue_ok qc st \<longleftrightarrow>
     distinct (map fst (qs_buckets st)) \<and> dispatcher_ok qc st
     \<and> (\<forall>k b. bucket_of st k = Some b \<longrightarrow> bucket_ok qc k b)
     \<and> qs_sem st = over_buckets running_in st \<and> qs_sem st \<le> qc_max qc
     \<and> length (qs_bus st) \<le> defaultBusBufferSize"

lemma queue_ok_distinct: "queue_ok qc st \<Longrightarrow> distinct (map fst (qs_buckets st))"
  by (simp add: queue_ok_def)

lemma queue_ok_bucket: "queue_ok qc st \<Longrightarrow> bucket_of st k = Some b \<Longrightarrow> bucket_ok qc k b"
  by (simp add: queue_ok_def)

lemma queue_ok_sem: "queue_ok qc st \<Longrightarrow> qs_sem st = over_buckets running_in st"
  by (simp add: queue_ok_def)

lemma set_bucket_distinct [simp]: "distinct (map fst (AList.update k b bs)) = distinct (map fst bs)"
  by (simp add: update_keys)

text \<open>A step that only changes one bucket and the records.\<close>

lemma queue_ok_set:
  assumes ok: "queue_ok qc st" and b: "bucket_of st k = Some b" and b': "bucket_ok qc k b'"
    and run: "s + running_in b = qs_sem st + running_in b'" "s \<le> qc_max qc"
  shows "queue_ok qc ((set_bucket k b' st)\<lparr>qs_sem := s\<rparr>)"
proof -
  have "over_buckets running_in (set_bucket k b' st) + running_in b = over_buckets running_in st + running_in b'"
    by (rule over_buckets_set[OF queue_ok_distinct[OF ok] b])
  then have "s = over_buckets running_in (set_bucket k b' st)" using run(1) queue_ok_sem[OF ok] by simp
  moreover have "dispatcher_ok qc ((set_bucket k b' st)\<lparr>qs_sem := s\<rparr>)"
    using ok by (auto simp: queue_ok_def dispatcher_ok_def split: dispatcher.splits)
  ultimately show ?thesis using ok b' run(2) unfolding queue_ok_def by (simp split: if_splits)
qed

lemma queue_ok_records:
  "queue_ok qc (st\<lparr>qs_started := x\<rparr>) = queue_ok qc st" "queue_ok qc (st\<lparr>qs_absorbed := x\<rparr>) = queue_ok qc st"
  "queue_ok qc (st\<lparr>qs_discarded := x\<rparr>) = queue_ok qc st" "queue_ok qc (st\<lparr>qs_arrived := x\<rparr>) = queue_ok qc st"
  by (simp_all add: queue_ok_def dispatcher_ok_def split: dispatcher.splits)

lemma queue_ok_start: "queue_ok qc queue_start"
  by (simp add: queue_ok_def queue_start_def dispatcher_ok_def bucket_of_def over_buckets_def)

lemma queue_ok_set0:
  assumes "queue_ok qc st" "bucket_of st k = Some b" "bucket_ok qc k b'" "running_in b' = running_in b"
  shows "queue_ok qc (set_bucket k b' st)"
  using queue_ok_set[OF assms(1,2,3), of "qs_sem st"] assms(1,4) by (simp add: set_bucket_def queue_ok_def)

lemma queue_ok_dispatcher:
  assumes "queue_ok qc st" "dispatcher_ok qc (st\<lparr>qs_dispatcher := d\<rparr>)"
  shows "queue_ok qc (st\<lparr>qs_dispatcher := d\<rparr>)"
  using assms by (simp add: queue_ok_def)

lemma queue_ok_publish: "queue_ok qc st \<Longrightarrow> PublishInbound m st = Some st' \<Longrightarrow> queue_ok qc st'"
  by (auto simp: PublishInbound_def queue_ok_def dispatcher_ok_def split: if_splits dispatcher.splits)

lemma set_bucket_commute:
  "set_bucket k b (st\<lparr>qs_dispatcher := d\<rparr>) = (set_bucket k b st)\<lparr>qs_dispatcher := d\<rparr>"
  by (simp add: set_bucket_def)

lemma queue_ok_work:
  assumes ok: "queue_ok qc st" and st: "work_step qc st st'"
  shows "queue_ok qc st'"
  using st
proof cases
  case consume
  then show ?thesis
  proof (cases rule: consume_cases)
    case (1 m ms)
    have "bucket_ok qc k empty_bucket" for k by (simp add: bucket_ok_def empty_bucket_def)
    moreover have "running_in empty_bucket = 0" by (simp add: running_in_def empty_bucket_def)
    ultimately show ?thesis using 1 ok
      by (auto simp: queue_ok_def dispatcher_ok_def over_buckets_new split: if_splits)
  qed
next
  case active
  then show ?thesis
    by (cases rule: active_cases) (use ok in \<open>auto intro!: queue_ok_dispatcher simp: dispatcher_ok_def queue_ok_def\<close>)
next
  case steer
  then show ?thesis
  proof (cases rule: steer_cases)
    case (steer k m body b)
    have "bucket_ok qc k (b\<lparr>bk_steer := bk_steer b @ [m\<lparr>im_content := body\<rparr>]\<rparr>)"
      using queue_ok_bucket[OF ok steer(2)] steer(3) by (simp add: bucket_ok_def)
    then show ?thesis unfolding steer(4) set_bucket_commute
      by (intro queue_ok_dispatcher queue_ok_set0[OF ok steer(2)]) (simp_all add: running_in_def dispatcher_ok_def)
  next
    case (enqueue k m body b)
    then show ?thesis using ok by (auto intro!: queue_ok_dispatcher simp: dispatcher_ok_def queue_ok_def)
  qed
next
  case put
  then show ?thesis
  proof (cases rule: put_cases)
    case (1 k m b)
    have "key qc m = k" using ok 1(1) by (simp add: queue_ok_def dispatcher_ok_def)
    then have "bucket_ok qc k (b\<lparr>bk_ch := bk_ch b @ [m]\<rparr>)"
      using queue_ok_bucket[OF ok 1(2)] 1(3) by (simp add: bucket_ok_def)
    then show ?thesis unfolding 1(4) set_bucket_commute
      by (intro queue_ok_dispatcher queue_ok_set0[OF ok 1(2)]) (simp_all add: running_in_def dispatcher_ok_def)
  qed
next
  case (pop k)
  then show ?thesis
  proof (cases rule: pop_cases)
    case (1 b m ms)
    show ?thesis unfolding 1(4)
      by (rule queue_ok_set0[OF ok 1(1)]) (use queue_ok_bucket[OF ok 1(1)] 1 in \<open>simp_all add: bucket_ok_def running_in_def\<close>)
  qed
next
  case (drain k)
  then show ?thesis
  proof (cases rule: drain_cases)
    case (discard b m x xs)
    show ?thesis unfolding discard(4) queue_ok_records
      by (rule queue_ok_set0[OF ok discard(1)]) (use queue_ok_bucket[OF ok discard(1)] discard in \<open>simp_all add: bucket_ok_def running_in_def\<close>)
  next
    case (drained b m)
    show ?thesis unfolding drained(4)
      by (rule queue_ok_set0[OF ok drained(1)]) (use queue_ok_bucket[OF ok drained(1)] drained in \<open>simp_all add: bucket_ok_def running_in_def\<close>)
  qed
next
  case (acquire k)
  then show ?thesis
  proof (cases rule: acquire_cases)
    case (1 b m)
    show ?thesis unfolding 1(4) queue_ok_records
      by (rule queue_ok_set[OF ok 1(1)]) (use queue_ok_bucket[OF ok 1(1)] 1 in \<open>simp_all add: bucket_ok_def running_in_def\<close>)
  qed
next
  case (absorb k)
  then show ?thesis
  proof (cases rule: absorb_cases)
    case (1 b m x xs)
    show ?thesis unfolding 1(4) queue_ok_records
      by (rule queue_ok_set0[OF ok 1(1)]) (use queue_ok_bucket[OF ok 1(1)] 1 in \<open>simp_all add: bucket_ok_def running_in_def\<close>)
  qed
next
  case (release k)
  then show ?thesis
  proof (cases rule: release_cases)
    case (finish b m)
    have "over_buckets running_in (set_bucket k (b\<lparr>bk_worker := Leaving\<rparr>) st) + running_in b
        = over_buckets running_in st + running_in (b\<lparr>bk_worker := Leaving\<rparr>)"
      by (rule over_buckets_set[OF queue_ok_distinct[OF ok] finish(1)])
    then have "1 \<le> qs_sem st" using queue_ok_sem[OF ok] finish(2) by (simp add: running_in_def)
    moreover have "qs_sem st \<le> qc_max qc" using ok by (simp add: queue_ok_def)
    ultimately show ?thesis unfolding finish(3)
      by (intro queue_ok_set[OF ok finish(1)]) (use queue_ok_bucket[OF ok finish(1)] finish in \<open>simp_all add: bucket_ok_def running_in_def\<close>)
  next
    case (park b)
    show ?thesis unfolding park(3)
      by (rule queue_ok_set0[OF ok park(1)]) (use queue_ok_bucket[OF ok park(1)] park in \<open>simp_all add: bucket_ok_def running_in_def\<close>)
  qed
qed

lemma queue_ok_step: "queue_ok qc st \<Longrightarrow> queue_step qc st st' \<Longrightarrow> queue_ok qc st'"
  by (auto elim!: queue_step.cases intro: queue_ok_publish queue_ok_work)

lemma queue_ok_reachable: "queue_reachable qc st \<Longrightarrow> queue_ok qc st"
  by (induction rule: queue_reachable.induct) (auto intro: queue_ok_start queue_ok_step)


section \<open>No message is lost but steering\<close>

text \<open>A message without its content: steering replaces only the content.\<close>

definition envelope :: "inbound_message \<Rightarrow> inbound_message" where
  "envelope m = m\<lparr>im_content := []\<rparr>"

definition in_bucket :: "bucket \<Rightarrow> inbound_message list" where
  "in_bucket b = worker_pending (bk_worker b) @ bk_ch b @ bk_steer b"

definition envelopes :: "inbound_message list \<Rightarrow> inbound_message multiset" where
  "envelopes ms = mset (map envelope ms)"

definition accounted :: "queue_state \<Rightarrow> inbound_message multiset" where
  "accounted st = envelopes (qs_bus st) + envelopes (held (qs_dispatcher st))
     + over_buckets (\<lambda>b. envelopes (in_bucket b)) st
     + envelopes (qs_started st) + envelopes (qs_absorbed st) + envelopes (qs_discarded st)"

lemma envelopes_simps [simp]: "envelopes [] = {#}" "envelopes (m # ms) = add_mset (envelope m) (envelopes ms)"
  "envelopes (xs @ ys) = envelopes xs + envelopes ys" "envelope (m\<lparr>im_content := c\<rparr>) = envelope m"
  by (simp_all add: envelopes_def envelope_def)

lemma over_buckets_mset:
  assumes "distinct (map fst (qs_buckets st))" "bucket_of st k = Some b"
  shows "over_buckets f (set_bucket k b' st) + f b = over_buckets f st + (f b' :: 'b multiset)"
  using assms by (rule over_buckets_set)

lemma account_work:
  assumes ok: "queue_ok qc st" and st: "work_step qc st st'"
  shows "accounted st' = accounted st"
  using st
proof cases
  case consume
  then show ?thesis
    by (cases rule: consume_cases)
      (auto simp: accounted_def over_buckets_new in_bucket_def empty_bucket_def)
next
  case active
  then show ?thesis by (cases rule: active_cases) (auto simp: accounted_def)
next
  case steer
  then show ?thesis
  proof (cases rule: steer_cases)
    case (steer k m body b)
    show ?thesis
      using over_buckets_mset[OF queue_ok_distinct[OF ok] steer(2), of "\<lambda>b. envelopes (in_bucket b)" "b\<lparr>bk_steer := bk_steer b @ [m\<lparr>im_content := body\<rparr>]\<rparr>"]
      unfolding steer(4) set_bucket_commute by (simp add: accounted_def in_bucket_def steer(1))
  qed (simp add: accounted_def)
next
  case put
  then show ?thesis
  proof (cases rule: put_cases)
    case (1 k m b)
    show ?thesis
      using over_buckets_mset[OF queue_ok_distinct[OF ok] 1(2), of "\<lambda>b. envelopes (in_bucket b)" "b\<lparr>bk_ch := bk_ch b @ [m]\<rparr>"]
      unfolding 1(4) set_bucket_commute by (simp add: accounted_def in_bucket_def 1(1))
  qed
next
  case (pop k)
  then show ?thesis
  proof (cases rule: pop_cases)
    case (1 b m ms)
    show ?thesis
      using over_buckets_mset[OF queue_ok_distinct[OF ok] 1(1), of "\<lambda>b. envelopes (in_bucket b)" "b\<lparr>bk_ch := ms, bk_worker := Draining m\<rparr>"]
      unfolding 1(4) by (simp add: accounted_def in_bucket_def 1(2,3))
  qed
next
  case (drain k)
  then show ?thesis
  proof (cases rule: drain_cases)
    case (discard b m x xs)
    show ?thesis
      using over_buckets_mset[OF queue_ok_distinct[OF ok] discard(1), of "\<lambda>b. envelopes (in_bucket b)" "b\<lparr>bk_steer := xs\<rparr>"]
      unfolding discard(4) by (simp add: accounted_def in_bucket_def discard(2,3))
  next
    case (drained b m)
    show ?thesis
      using over_buckets_mset[OF queue_ok_distinct[OF ok] drained(1), of "\<lambda>b. envelopes (in_bucket b)" "b\<lparr>bk_active := True, bk_worker := Waiting m\<rparr>"]
      unfolding drained(4) by (simp add: accounted_def in_bucket_def drained(2,3))
  qed
next
  case (acquire k)
  then show ?thesis
  proof (cases rule: acquire_cases)
    case (1 b m)
    show ?thesis
      using over_buckets_mset[OF queue_ok_distinct[OF ok] 1(1), of "\<lambda>b. envelopes (in_bucket b)" "b\<lparr>bk_worker := Running m\<rparr>"]
      unfolding 1(4) by (simp add: accounted_def in_bucket_def 1(2))
  qed
next
  case (absorb k)
  then show ?thesis
  proof (cases rule: absorb_cases)
    case (1 b m x xs)
    show ?thesis
      using over_buckets_mset[OF queue_ok_distinct[OF ok] 1(1), of "\<lambda>b. envelopes (in_bucket b)" "b\<lparr>bk_steer := xs\<rparr>"]
      unfolding 1(4) by (simp add: accounted_def in_bucket_def 1(2,3))
  qed
next
  case (release k)
  then show ?thesis
  proof (cases rule: release_cases)
    case (finish b m)
    show ?thesis
      using over_buckets_mset[OF queue_ok_distinct[OF ok] finish(1), of "\<lambda>b. envelopes (in_bucket b)" "b\<lparr>bk_worker := Leaving\<rparr>"]
      unfolding finish(3) by (simp add: accounted_def in_bucket_def finish(2))
  next
    case (park b)
    show ?thesis
      using over_buckets_mset[OF queue_ok_distinct[OF ok] park(1), of "\<lambda>b. envelopes (in_bucket b)" "b\<lparr>bk_active := False, bk_worker := Parked\<rparr>"]
      unfolding park(3) by (simp add: accounted_def in_bucket_def park(2))
  qed
qed

lemma work_arrived: "work_step qc st st' \<Longrightarrow> qs_arrived st' = qs_arrived st"
  by (auto elim!: work_step.cases consume_cases active_cases steer_cases put_cases pop_cases drain_cases
      acquire_cases absorb_cases release_cases)

lemma account_step:
  "queue_ok qc st \<Longrightarrow> queue_step qc st st' \<Longrightarrow> accounted st = envelopes (qs_arrived st)
    \<Longrightarrow> accounted st' = envelopes (qs_arrived st')"
  by (erule queue_step.cases) (auto simp: account_work work_arrived, auto simp: PublishInbound_def accounted_def split: if_splits)

lemma account_reachable: "queue_reachable qc st \<Longrightarrow> accounted st = envelopes (qs_arrived st)"
proof (induction rule: queue_reachable.induct)
  case start
  show ?case by (simp add: accounted_def queue_start_def over_buckets_def)
next
  case (step st st')
  then show ?case by (blast intro: account_step queue_ok_reachable)
qed


section \<open>Order within a session\<close>

definition of_key :: "queue_config \<Rightarrow> string \<Rightarrow> inbound_message list \<Rightarrow> inbound_message list" where
  "of_key qc k ms = filter (\<lambda>m. key qc m = k) ms"

lemma of_key_simps [simp]: "of_key qc k [] = []" "of_key qc k (xs @ ys) = of_key qc k xs @ of_key qc k ys"
  "of_key qc k (m # ms) = (if key qc m = k then m # of_key qc k ms else of_key qc k ms)"
  by (simp_all add: of_key_def)

text \<open>The line of a key: the messages started, then those of its bucket, of the dispatcher and of the bus.\<close>

definition bucket_line :: "queue_state \<Rightarrow> string \<Rightarrow> inbound_message list" where
  "bucket_line st k =
     (case bucket_of st k of None \<Rightarrow> [] | Some b \<Rightarrow> worker_pending (bk_worker b) @ bk_ch b)"

definition line_of :: "queue_config \<Rightarrow> queue_state \<Rightarrow> string \<Rightarrow> inbound_message list" where
  "line_of qc st k = of_key qc k (qs_started st) @ bucket_line st k
     @ of_key qc k (held (qs_dispatcher st)) @ of_key qc k (qs_bus st)"

lemma held_key: "queue_ok qc st \<Longrightarrow> qs_dispatcher st = Enqueueing k m \<Longrightarrow> key qc m = k"
  by (simp add: queue_ok_def dispatcher_ok_def)

lemma line_work:
  assumes ok: "queue_ok qc st" and st: "work_step qc st st'"
  shows "subseq (line_of qc st' k) (line_of qc st k)"
  using st
proof cases
  case consume
  then show ?thesis
    by (cases rule: consume_cases) (auto simp: line_of_def bucket_line_def empty_bucket_def split: option.splits)
next
  case active
  then show ?thesis
    by (cases rule: active_cases) (auto simp: line_of_def bucket_line_def)
next
  case steer
  then show ?thesis
    by (cases rule: steer_cases) (auto simp: line_of_def bucket_line_def intro!: list_emb_append_mono)
next
  case put
  then show ?thesis
    by (cases rule: put_cases) (use held_key[OF ok] in \<open>auto simp: line_of_def bucket_line_def\<close>)
next
  case (pop k')
  then show ?thesis by (cases rule: pop_cases) (auto simp: line_of_def bucket_line_def)
next
  case (drain k')
  then show ?thesis by (cases rule: drain_cases) (auto simp: line_of_def bucket_line_def)
next
  case (acquire k')
  then show ?thesis
  proof (cases rule: acquire_cases)
    case (1 b m)
    have "key qc m = k'" using queue_ok_bucket[OF ok 1(1)] 1(2) by (simp add: bucket_ok_def)
    then show ?thesis using 1 by (auto simp: line_of_def bucket_line_def)
  qed
next
  case (absorb k')
  then show ?thesis by (cases rule: absorb_cases) (auto simp: line_of_def bucket_line_def)
next
  case (release k')
  then show ?thesis by (cases rule: release_cases) (auto simp: line_of_def bucket_line_def)
qed

lemma line_publish:
  "PublishInbound m st = Some st' \<Longrightarrow> line_of qc st' k = line_of qc st k @ of_key qc k [m]
    \<and> of_key qc k (qs_arrived st') = of_key qc k (qs_arrived st) @ of_key qc k [m]"
  by (auto simp: PublishInbound_def line_of_def bucket_line_def bucket_of_def split: if_splits)

lemma line_of_step:
  assumes "queue_ok qc st" "queue_step qc st st'" "subseq (line_of qc st k) (of_key qc k (qs_arrived st))"
  shows "subseq (line_of qc st' k) (of_key qc k (qs_arrived st'))"
  using assms(2)
proof cases
  case (publish m)
  then show ?thesis using line_publish[OF publish, of qc k] assms(3) by (auto intro!: list_emb_append_mono)
next
  case work
  then show ?thesis using line_work[OF assms(1) work, of k] assms(3) work_arrived[OF work] by (metis subseq_order.order_trans)
qed

lemma line_reachable: "queue_reachable qc st \<Longrightarrow> subseq (line_of qc st k) (of_key qc k (qs_arrived st))"
proof (induction rule: queue_reachable.induct)
  case start
  show ?case by (simp add: line_of_def bucket_line_def queue_start_def bucket_of_def)
next
  case (step st st')
  then show ?case by (blast intro: line_of_step queue_ok_reachable)
qed

section \<open>Progress\<close>

fun worker_weight :: "worker \<Rightarrow> nat" where
  "worker_weight Parked = 0"
| "worker_weight (Draining m) = 5"
| "worker_weight (Waiting m) = 4"
| "worker_weight (Running m) = 3"
| "worker_weight Leaving = 1"

fun dispatcher_weight :: "dispatcher \<Rightarrow> nat" where
  "dispatcher_weight Consuming = 0"
| "dispatcher_weight (Arriving k m) = 9"
| "dispatcher_weight (Steering k m body) = 8"
| "dispatcher_weight (Enqueueing k m) = 7"

definition bucket_weight :: "bucket \<Rightarrow> nat" where
  "bucket_weight b = worker_weight (bk_worker b) + 6 * length (bk_ch b) + length (bk_steer b)"

definition work_left :: "queue_state \<Rightarrow> nat" where
  "work_left st = 10 * length (qs_bus st) + dispatcher_weight (qs_dispatcher st) + over_buckets bucket_weight st"

lemma weight_set:
  assumes "queue_ok qc st" "bucket_of st k = Some b"
  shows "over_buckets bucket_weight (set_bucket k b' st) + bucket_weight b = over_buckets bucket_weight st + bucket_weight b'"
  by (rule over_buckets_set[OF queue_ok_distinct[OF assms(1)] assms(2)])

lemma work_decreases:
  assumes ok: "queue_ok qc st" and st: "work_step qc st st'"
  shows "work_left st' < work_left st"
  using st
proof cases
  case consume
  then show ?thesis
    by (cases rule: consume_cases) (auto simp: work_left_def over_buckets_new bucket_weight_def empty_bucket_def)
next
  case active
  then show ?thesis by (cases rule: active_cases) (auto simp: work_left_def)
next
  case steer
  then show ?thesis
  proof (cases rule: steer_cases)
    case (steer k m body b)
    then show ?thesis
      using weight_set[OF ok steer(2), of "b\<lparr>bk_steer := bk_steer b @ [m\<lparr>im_content := body\<rparr>]\<rparr>"]
      by (simp add: work_left_def bucket_weight_def set_bucket_commute)
  qed (simp add: work_left_def)
next
  case put
  then show ?thesis
  proof (cases rule: put_cases)
    case (1 k m b)
    then show ?thesis using weight_set[OF ok 1(2), of "b\<lparr>bk_ch := bk_ch b @ [m]\<rparr>"]
      by (simp add: work_left_def bucket_weight_def set_bucket_commute)
  qed
next
  case (pop k)
  then show ?thesis
  proof (cases rule: pop_cases)
    case (1 b m ms)
    then show ?thesis using weight_set[OF ok 1(1), of "b\<lparr>bk_ch := ms, bk_worker := Draining m\<rparr>"]
      by (simp add: work_left_def bucket_weight_def)
  qed
next
  case (drain k)
  then show ?thesis
  proof (cases rule: drain_cases)
    case (discard b m x xs)
    then show ?thesis using weight_set[OF ok discard(1), of "b\<lparr>bk_steer := xs\<rparr>"]
      by (simp add: work_left_def bucket_weight_def)
  next
    case (drained b m)
    then show ?thesis using weight_set[OF ok drained(1), of "b\<lparr>bk_active := True, bk_worker := Waiting m\<rparr>"]
      by (simp add: work_left_def bucket_weight_def)
  qed
next
  case (acquire k)
  then show ?thesis
  proof (cases rule: acquire_cases)
    case (1 b m)
    then show ?thesis using weight_set[OF ok 1(1), of "b\<lparr>bk_worker := Running m\<rparr>"]
      by (simp add: work_left_def bucket_weight_def)
  qed
next
  case (absorb k)
  then show ?thesis
  proof (cases rule: absorb_cases)
    case (1 b m x xs)
    then show ?thesis using weight_set[OF ok 1(1), of "b\<lparr>bk_steer := xs\<rparr>"]
      by (simp add: work_left_def bucket_weight_def)
  qed
next
  case (release k)
  then show ?thesis
  proof (cases rule: release_cases)
    case (finish b m)
    then show ?thesis using weight_set[OF ok finish(1), of "b\<lparr>bk_worker := Leaving\<rparr>"]
      by (simp add: work_left_def bucket_weight_def)
  next
    case (park b)
    then show ?thesis using weight_set[OF ok park(1), of "b\<lparr>bk_active := False, bk_worker := Parked\<rparr>"]
      by (simp add: work_left_def bucket_weight_def)
  qed
qed

text \<open>Nothing left to do: the bus is empty, the dispatcher waits for a message and every worker is parked at
  an empty channel.\<close>

definition bucket_idle :: "bucket \<Rightarrow> bool" where
  "bucket_idle b \<longleftrightarrow> bk_worker b = Parked \<and> bk_ch b = []"

definition quiescent :: "queue_state \<Rightarrow> bool" where
  "quiescent st \<longleftrightarrow> qs_bus st = [] \<and> qs_dispatcher st = Consuming \<and> list_all (\<lambda>(k, b). bucket_idle b) (qs_buckets st)"

lemma running_frees:
  assumes "queue_ok qc st" "qs_sem st > 0"
  shows "\<exists>k b m. bucket_of st k = Some b \<and> bk_worker b = Running m"
proof -
  have "0 < (\<Sum>(k, b)\<leftarrow>qs_buckets st. running_in b)" using assms by (simp add: queue_ok_def over_buckets_def)
  then obtain k b where kb: "(k, b) \<in> set (qs_buckets st)" "running_in b > 0"
    by (auto simp: sum_list_eq_0_iff neq0_conv[symmetric] simp del: neq0_conv)
  have "bucket_of st k = Some b" using kb(1) queue_ok_distinct[OF assms(1)] by (simp add: bucket_of_def)
  moreover have "\<exists>m. bk_worker b = Running m" using kb(2) by (cases "bk_worker b") (auto simp: running_in_def)
  ultimately show ?thesis by blast
qed

lemma worker_moves:
  assumes ok: "queue_ok qc st" and max: "0 < qc_max qc" and b: "bucket_of st k = Some b" "\<not> bucket_idle b"
  shows "\<exists>st'. work_step qc st st'"
proof (cases "bk_worker b")
  case Parked
  then obtain m ms where "bk_ch b = m # ms" using b(2) by (cases "bk_ch b") (auto simp: bucket_idle_def)
  then have "pop_message k st \<noteq> None" using Parked b(1) by (simp add: pop_message_def)
  then show ?thesis using work_step.pop by blast
next
  case (Draining m)
  then have "drain_steering k st \<noteq> None" using b(1) by (cases "bk_steer b") (simp_all add: drain_steering_def)
  then show ?thesis using work_step.drain by blast
next
  case (Waiting m)
  show ?thesis
  proof (cases "qs_sem st < qc_max qc")
    case True
    then have "acquire qc k st \<noteq> None" using b(1) Waiting by (simp add: acquire_def)
    then show ?thesis using work_step.acquire by blast
  next
    case False
    then obtain k' b' m' where "bucket_of st k' = Some b'" "bk_worker b' = Running m'"
      using running_frees[OF ok] max by auto
    then have "release k' st \<noteq> None" by (simp add: release_def)
    then show ?thesis using work_step.release by blast
  qed
next
  case (Running m)
  then have "release k st \<noteq> None" using b(1) by (simp add: release_def)
  then show ?thesis using work_step.release by blast
next
  case Leaving
  then have "release k st \<noteq> None" using b(1) by (simp add: release_def)
  then show ?thesis using work_step.release by blast
qed

lemma dispatcher_moves:
  assumes ok: "queue_ok qc st" and c: "0 < qc_max qc" "0 < qc_buffer qc" and d: "qs_dispatcher st \<noteq> Consuming"
  shows "\<exists>st'. work_step qc st st'"
proof (cases "qs_dispatcher st")
  case (Arriving k m)
  then obtain b where "bucket_of st k = Some b" using ok by (auto simp: queue_ok_def dispatcher_ok_def)
  then have "read_active st \<noteq> None" using Arriving by (simp add: read_active_def)
  then show ?thesis using work_step.active by blast
next
  case (Steering k m body)
  then obtain b where "bucket_of st k = Some b" using ok by (auto simp: queue_ok_def dispatcher_ok_def)
  then have "steer_message st \<noteq> None" using Steering by (simp add: steer_message_def)
  then show ?thesis using work_step.steer by blast
next
  case (Enqueueing k m)
  then obtain b where b: "bucket_of st k = Some b" using ok by (auto simp: queue_ok_def dispatcher_ok_def)
  show ?thesis
  proof (cases "length (bk_ch b) < qc_buffer qc")
    case True
    then have "put_message qc st \<noteq> None" using Enqueueing b by (simp add: put_message_def)
    then show ?thesis using work_step.put by blast
  next
    case False
    then have "\<not> bucket_idle b" using c(2) by (auto simp: bucket_idle_def)
    then show ?thesis by (rule worker_moves[OF ok c(1) b])
  qed
qed (use d in simp)

lemma queue_moves:
  assumes ok: "queue_ok qc st" and c: "0 < qc_max qc" "0 < qc_buffer qc" and q: "\<not> quiescent st"
  shows "\<exists>st'. work_step qc st st'"
proof (cases "qs_dispatcher st = Consuming")
  case False
  then show ?thesis by (rule dispatcher_moves[OF ok c])
next
  case True
  show ?thesis
  proof (cases "qs_bus st")
    case Nil
    then obtain k b where "(k, b) \<in> set (qs_buckets st)" "\<not> bucket_idle b"
      using q True by (auto simp: quiescent_def list_all_iff)
    moreover from this have "bucket_of st k = Some b" using queue_ok_distinct[OF ok] by (simp add: bucket_of_def)
    ultimately show ?thesis using worker_moves[OF ok c(1)] by blast
  next
    case (Cons m ms)
    then have "ConsumeInbound qc st \<noteq> None" using True by (simp add: ConsumeInbound_def Let_def)
    then show ?thesis using work_step.consume by blast
  qed
qed


section \<open>Properties\<close>

lemma subseq_append_left: "subseq (xs @ ys) zs \<Longrightarrow> subseq xs zs"
  by (metis list_emb_append2 subseq_order.order_trans subseq_order.order_refl list_emb_prefix prefixI subseq_append_iff
      append_Nil2 list_emb_Nil list_emb_append_mono)

text \<open>C6: Order and completeness of the queue: in every interleaving the messages of one key are started in the order
  in which they arrived, and every message that arrived is on the bus, with the dispatcher, in a bucket, started,
  absorbed by a run or discarded as steering, each exactly once (up to the content steering rewrites).\<close>
theorem inbound_in_order:
  assumes "queue_reachable qc st"
  shows "subseq (of_key qc k (qs_started st)) (of_key qc k (qs_arrived st)) \<and> accounted st = envelopes (qs_arrived st)"
  using line_reachable[OF assms, of k] account_reachable[OF assms] subseq_append_left
  unfolding line_of_def by blast

text \<open>A message processed without the help of a reply context.\<close>

definition unredirected :: "gtime \<Rightarrow> inbound_message \<Rightarrow> reply_store \<Rightarrow> bool" where
  "unredirected now m s \<longleftrightarrow> im_channel m = ''system'' \<or> explicit_key m \<noteq> None
     \<or> fst (first_reply_context now m (reply_candidates m) s) = None"

lemma session_is_key:
  assumes "unredirected now m s" "fst (session_of (qc_session qc) now m s) = Some k"
  shows "key qc m = k"
proof -
  have "im_channel m = ''system'' \<longrightarrow> \<not> IsInternalChannel (fst (parseSystemMessageOrigin (im_chat m)))"
    using assms(2) by (auto simp: session_of_def case_prod_beta Let_def)
  then show ?thesis using bucket_is_session[of m now s "qc_session qc"] assms unfolding unredirected_def by auto
qed

lemma running_key:
  assumes "queue_ok qc st" "bucket_of st k = Some b" "bk_worker b = Running m"
  shows "key qc m = k"
  using queue_ok_bucket[OF assms(1,2)] assms(3) by (simp add: bucket_ok_def)

text \<open>C3: One run per session: in every interleaving at most the configured number of workers run, and two workers that
  run messages of the same session are the same worker, unless a reply context has moved one of the messages to that
  session.\<close>
theorem one_run_per_session:
  assumes "queue_reachable qc st"
    and "bucket_of st k1 = Some b1" "bk_worker b1 = Running m1" "bucket_of st k2 = Some b2" "bk_worker b2 = Running m2"
    and "fst (session_of (qc_session qc) t1 m1 s1) = Some k" "fst (session_of (qc_session qc) t2 m2 s2) = Some k"
    and "unredirected t1 m1 s1" "unredirected t2 m2 s2"
  shows "k1 = k2 \<and> m1 = m2 \<and> over_buckets running_in st \<le> qc_max qc"
proof -
  have ok: "queue_ok qc st" by (rule queue_ok_reachable[OF assms(1)])
  have "k1 = k" "k2 = k"
    using running_key[OF ok assms(2,3)] running_key[OF ok assms(4,5)]
      session_is_key[OF assms(8,6)] session_is_key[OF assms(9,7)] by auto
  then show ?thesis using assms(2-5) ok by (simp add: queue_ok_def)
qed

lemma work_steps_ok: "(work_step qc)\<^sup>*\<^sup>* st st' \<Longrightarrow> queue_ok qc st \<Longrightarrow> queue_ok qc st'"
  by (induction rule: rtranclp_induct) (auto intro: queue_ok_work)

lemma work_steps_bounded: "(work_step qc ^^ n) st st' \<Longrightarrow> queue_ok qc st \<Longrightarrow> n + work_left st' \<le> work_left st"
proof (induction n arbitrary: st')
  case (Suc n)
  then obtain s where s: "(work_step qc ^^ n) st s" "work_step qc s st'" by auto
  have "queue_ok qc s" using s(1) Suc.prems(2) by (blast dest: relpowp_imp_rtranclp intro: work_steps_ok)
  then show ?case using Suc.IH[OF s(1) Suc.prems(2)] work_decreases[OF _ s(2)] by fastforce
qed simp

lemma quiescent_reachable:
  assumes "queue_ok qc st" "0 < qc_max qc" "0 < qc_buffer qc"
  shows "\<exists>st'. (work_step qc)\<^sup>*\<^sup>* st st' \<and> quiescent st'"
  using assms(1)
proof (induction "work_left st" arbitrary: st rule: less_induct)
  case less
  show ?case
  proof (cases "quiescent st")
    case False
    then obtain s where s: "work_step qc st s" using queue_moves[OF less.prems assms(2,3)] by blast
    then obtain st' where "(work_step qc)\<^sup>*\<^sup>* s st'" "quiescent st'"
      using less.hyps[OF work_decreases[OF less.prems s] queue_ok_work[OF less.prems s]] by blast
    then show ?thesis using s by (meson converse_rtranclp_into_rtranclp)
  qed blast
qed

lemma quiescent_account:
  assumes "quiescent st"
  shows "accounted st = over_buckets (\<lambda>b. envelopes (bk_steer b)) st
     + envelopes (qs_started st) + envelopes (qs_absorbed st) + envelopes (qs_discarded st)"
proof -
  have "(\<Sum>(k, b)\<leftarrow>bs. envelopes (in_bucket b)) = (\<Sum>(k, b)\<leftarrow>bs. envelopes (bk_steer b))"
    if "list_all (\<lambda>(k, b). bucket_idle b) bs" for bs :: "(string \<times> bucket) list"
    using that by (induction bs) (auto simp: in_bucket_def bucket_idle_def)
  then show ?thesis using assms by (simp add: accounted_def quiescent_def over_buckets_def)
qed

text \<open>C9: The queue drains: as long as runs end, any sequence of steps without a new message is bounded, some sequence
  ends with nothing left to do, and every sequence that cannot go on has ended so: each message has then been started,
  absorbed, discarded as steering or left over in a steering inbox.  No lock, semaphore or channel is waited for
  forever.\<close>
theorem queue_drains:
  assumes "queue_reachable qc st" "0 < qc_max qc" "0 < qc_buffer qc"
  shows "((work_step qc ^^ n) st s \<longrightarrow> n \<le> work_left st)
    \<and> (\<exists>st'. (work_step qc)\<^sup>*\<^sup>* st st' \<and> quiescent st')
    \<and> ((work_step qc)\<^sup>*\<^sup>* st st' \<and> \<not> (\<exists>u. work_step qc st' u) \<longrightarrow>
         quiescent st' \<and> envelopes (qs_arrived st') = over_buckets (\<lambda>b. envelopes (bk_steer b)) st'
           + envelopes (qs_started st') + envelopes (qs_absorbed st') + envelopes (qs_discarded st'))"
proof -
  have ok: "queue_ok qc st" by (rule queue_ok_reachable[OF assms(1)])
  have reach: "queue_reachable qc st'" if "(work_step qc)\<^sup>*\<^sup>* st st'"
    using that assms(1) by (induction rule: rtranclp_induct) (auto intro: queue_reachable.step queue_step.work)
  have "quiescent st'" if "(work_step qc)\<^sup>*\<^sup>* st st'" "\<not> (\<exists>u. work_step qc st' u)"
    using queue_moves[OF work_steps_ok[OF that(1) ok] assms(2,3)] that(2) by blast
  then show ?thesis
    using work_steps_bounded[OF _ ok] quiescent_reachable[OF ok assms(2,3)] reach account_reachable quiescent_account
    by (metis add_leD1)
qed

text \<open>The dispatcher waits for the full channel of a session whose worker is busy.\<close>

definition worker_at :: "queue_state \<Rightarrow> string \<Rightarrow> worker option" where
  "worker_at st k = map_option bk_worker (bucket_of st k)"

definition blocked_at :: "queue_config \<Rightarrow> string \<Rightarrow> inbound_message \<Rightarrow> queue_state \<Rightarrow> bool" where
  "blocked_at qc k m st \<longleftrightarrow> qs_dispatcher st = Enqueueing k m
     \<and> (case bucket_of st k of None \<Rightarrow> False | Some b \<Rightarrow> qc_buffer qc \<le> length (bk_ch b))"

definition busy_step :: "queue_config \<Rightarrow> string \<Rightarrow> queue_state \<Rightarrow> queue_state \<Rightarrow> bool" where
  "busy_step qc k st st' \<longleftrightarrow> queue_step qc st st' \<and> worker_at st k \<noteq> Some Parked"

lemma blocked_step:
  assumes b: "blocked_at qc k m st" and s: "busy_step qc k st st'"
  shows "blocked_at qc k m st' \<and> prefix (qs_bus st) (qs_bus st')"
proof -
  have d: "qs_dispatcher st = Enqueueing k m" using b by (simp add: blocked_at_def)
  have p: "worker_at st k \<noteq> Some Parked" and q: "queue_step qc st st'" using s by (simp_all add: busy_step_def)
  from q show ?thesis
  proof cases
    case (publish m')
    then show ?thesis using b by (auto simp: PublishInbound_def blocked_at_def bucket_of_def split: if_splits)
  next
    case work
    then show ?thesis
    proof cases
      case (pop k')
      then show ?thesis
        by (cases rule: pop_cases) (use b p in \<open>auto simp: blocked_at_def worker_at_def split: if_splits option.splits\<close>)
    next
      case (drain k')
      then show ?thesis
        by (cases rule: drain_cases) (use b in \<open>auto simp: blocked_at_def split: if_splits option.splits\<close>)
    next
      case (acquire k')
      then show ?thesis
        by (cases rule: acquire_cases) (use b in \<open>auto simp: blocked_at_def split: if_splits option.splits\<close>)
    next
      case (absorb k')
      then show ?thesis
        by (cases rule: absorb_cases) (use b in \<open>auto simp: blocked_at_def split: if_splits option.splits\<close>)
    next
      case (release k')
      then show ?thesis
        by (cases rule: release_cases) (use b in \<open>auto simp: blocked_at_def split: if_splits option.splits\<close>)
    next
      case put
      then show ?thesis
        by (cases rule: put_cases) (use b in \<open>auto simp: blocked_at_def split: if_splits option.splits\<close>)
    qed (use d in \<open>auto simp: ConsumeInbound_def read_active_def steer_message_def\<close>)
  qed
qed

text \<open>One full session holds up all sessions: while the worker of a session whose channel is full is busy, the
  dispatcher stands at that channel and takes no message of any other session off the bus, whatever the other
  goroutines do.\<close>
theorem full_session_blocks_all:
  assumes "blocked_at qc k m st" "(busy_step qc k)\<^sup>*\<^sup>* st st'"
  shows "blocked_at qc k m st' \<and> prefix (qs_bus st) (qs_bus st')"
  using assms(2)
proof (induction rule: rtranclp_induct)
  case (step y z)
  then show ?case using blocked_step by (blast intro: prefix_order.order_trans)
qed (use assms(1) in simp)


section \<open>A message through the queue\<close>

definition ex_config :: queue_config where
  "ex_config = \<lparr>qc_session = None, qc_max = 1, qc_buffer = 1\<rparr>"

definition ex_msg :: inbound_message where "ex_msg = ex_reply []"
definition ex_key :: string where "ex_key = getBucketKey None ex_msg"

definition ex_at :: "inbound_message list \<Rightarrow> dispatcher \<Rightarrow> (string \<times> bucket) list \<Rightarrow> nat \<Rightarrow> inbound_message list \<Rightarrow> queue_state" where
  "ex_at bus d bs sem started = \<lparr>qs_bus = bus, qs_dispatcher = d, qs_buckets = bs, qs_sem = sem, qs_arrived = [ex_msg],
     qs_started = started, qs_absorbed = [], qs_discarded = []\<rparr>"

lemma ex_queue_config [simp]: "qc_session ex_config = None" "qc_max ex_config = 1" "qc_buffer ex_config = 1"
  by (simp_all add: ex_config_def)

lemma ex_queue_simps:
  "getBucketKey None ex_msg = ex_key" "extractSteeringContent (im_content ex_msg) = None"
proof -
  have "im_content ex_msg = ''ok''" by (simp add: ex_msg_def ex_reply_def)
  moreover have "extractSteeringContent ''ok'' = None" by code_simp
  ultimately show "extractSteeringContent (im_content ex_msg) = None" by simp
qed (simp add: ex_key_def)

lemma ex_published: "queue_reachable ex_config (ex_at [ex_msg] Consuming [] 0 [])"
  by (rule queue_reachable.step[OF queue_reachable.start queue_step.publish[of ex_msg]])
    (simp add: PublishInbound_def queue_start_def ex_at_def defaultBusBufferSize_def)

lemma ex_running:
  "queue_reachable ex_config
     (ex_at [] Consuming [(ex_key, \<lparr>bk_ch = [], bk_steer = [], bk_active = True, bk_worker = Running ex_msg\<rparr>)] 1 [ex_msg])"
proof -
  have 1: "queue_reachable ex_config (ex_at [] (Arriving ex_key ex_msg) [(ex_key, empty_bucket)] 0 [])"
    by (rule queue_reachable.step[OF ex_published queue_step.work[OF work_step.consume]])
      (simp add: ConsumeInbound_def ex_at_def bucket_of_def set_bucket_def ex_queue_simps)
  have 2: "queue_reachable ex_config (ex_at [] (Enqueueing ex_key ex_msg) [(ex_key, empty_bucket)] 0 [])"
    by (rule queue_reachable.step[OF 1 queue_step.work[OF work_step.active]])
      (simp add: read_active_def ex_at_def bucket_of_def ex_queue_simps)
  have 3: "queue_reachable ex_config (ex_at [] Consuming
      [(ex_key, \<lparr>bk_ch = [ex_msg], bk_steer = [], bk_active = False, bk_worker = Parked\<rparr>)] 0 [])"
    by (rule queue_reachable.step[OF 2 queue_step.work[OF work_step.put]])
      (simp add: put_message_def ex_at_def bucket_of_def set_bucket_def empty_bucket_def)
  have 4: "queue_reachable ex_config (ex_at [] Consuming
      [(ex_key, \<lparr>bk_ch = [], bk_steer = [], bk_active = False, bk_worker = Draining ex_msg\<rparr>)] 0 [])"
    by (rule queue_reachable.step[OF 3 queue_step.work[OF work_step.pop[of ex_key]]])
      (simp add: pop_message_def ex_at_def bucket_of_def set_bucket_def)
  have 5: "queue_reachable ex_config (ex_at [] Consuming
      [(ex_key, \<lparr>bk_ch = [], bk_steer = [], bk_active = True, bk_worker = Waiting ex_msg\<rparr>)] 0 [])"
    by (rule queue_reachable.step[OF 4 queue_step.work[OF work_step.drain[of ex_key]]])
      (simp add: drain_steering_def ex_at_def bucket_of_def set_bucket_def)
  show ?thesis
    by (rule queue_reachable.step[OF 5 queue_step.work[OF work_step.acquire[of _ ex_key]]])
      (simp add: acquire_def ex_at_def bucket_of_def set_bucket_def)
qed

theorem inbound_in_order_witness:
  "subseq (of_key ex_config ex_key [ex_msg]) (of_key ex_config ex_key [ex_msg])
   \<and> accounted (ex_at [] Consuming [(ex_key, \<lparr>bk_ch = [], bk_steer = [], bk_active = True, bk_worker = Running ex_msg\<rparr>)] 1 [ex_msg])
     = envelopes [ex_msg]"
  using inbound_in_order[OF ex_running, of ex_key] by (simp add: ex_at_def)

theorem one_run_per_session_witness:
  "over_buckets running_in (ex_at [] Consuming
     [(ex_key, \<lparr>bk_ch = [], bk_steer = [], bk_active = True, bk_worker = Running ex_msg\<rparr>)] 1 [ex_msg]) \<le> 1"
proof -
  have n: "explicit_key ex_msg = None" by (simp add: ex_msg_def ex_reply_explicit)
  have c: "im_channel ex_msg = ''telegram''" by (simp add: ex_msg_def ex_reply_def)
  have "reply_candidates ex_msg = [[], [], [], [], []]"
    by (simp add: reply_candidates_def metadata_def ex_msg_def ex_reply_def)
  then have f: "fst (first_reply_context 0 ex_msg (reply_candidates ex_msg) []) = None" by simp
  then have u: "unredirected 0 ex_msg []" by (simp add: unredirected_def)
  have "fst (session_of None 0 ex_msg []) = Some ex_key"
    unfolding ex_key_def by (rule bucket_is_session) (use n f c in simp_all)
  then show ?thesis
    using one_run_per_session[OF ex_running _ _ _ _ _ _ u u, of ex_key _ ex_key _ ex_key]
    by (simp add: ex_at_def bucket_of_def)
qed

theorem queue_drains_witness:
  "\<exists>(st' :: queue_state). (work_step ex_config)\<^sup>*\<^sup>* (ex_at [ex_msg] Consuming [] 0 []) st' \<and> quiescent st'"
  using queue_drains[OF ex_published] by simp

theorem full_session_blocks_all_witness:
  "blocked_at ex_config ex_key ex_msg (ex_at [ex_msg, ex_msg] (Enqueueing ex_key ex_msg)
     [(ex_key, \<lparr>bk_ch = [ex_msg], bk_steer = [], bk_active = True, bk_worker = Leaving\<rparr>)] 0 [])"
proof -
  let ?s = "\<lambda>w n. ex_at [ex_msg, ex_msg] (Enqueueing ex_key ex_msg)
     [(ex_key, \<lparr>bk_ch = [ex_msg], bk_steer = [], bk_active = True, bk_worker = w\<rparr>)] n []"
  have "blocked_at ex_config ex_key ex_msg (?s (Running ex_msg) 1)" by (simp add: blocked_at_def ex_at_def bucket_of_def)
  moreover have "busy_step ex_config ex_key (?s (Running ex_msg) 1) (?s Leaving 0)"
    unfolding busy_step_def
    by (intro conjI queue_step.work work_step.release[of ex_key])
      (simp_all add: release_def worker_at_def ex_at_def bucket_of_def set_bucket_def)
  ultimately show ?thesis by (rule full_session_blocks_all[THEN conjunct1, OF _ r_into_rtranclp])
qed


section \<open>Steering that comes too late\<close>

definition late_phase :: "worker \<Rightarrow> bool" where
  "late_phase w \<longleftrightarrow> w = Parked \<or> w = Leaving \<or> (\<exists>m. w = Draining m)"

definition quiet_step :: "queue_config \<Rightarrow> string \<Rightarrow> queue_state \<Rightarrow> queue_state \<Rightarrow> bool" where
  "quiet_step qc k st st' \<longleftrightarrow> queue_step qc st st'
     \<and> (case worker_at st k of Some (Running m) \<Rightarrow> False | _ \<Rightarrow> True)"

text \<open>Nothing of \<open>xs\<close> has reached a run of \<open>k\<close>.\<close>

definition doomed :: "string \<Rightarrow> inbound_message list \<Rightarrow> queue_state \<Rightarrow> bool" where
  "doomed k xs st \<longleftrightarrow>
     (case bucket_of st k of None \<Rightarrow> False
      | Some b \<Rightarrow> mset xs \<subseteq># mset (qs_discarded st) + (if late_phase (bk_worker b) then mset (bk_steer b) else {#}))"

lemma doomed_step:
  assumes d: "doomed k xs st" and s: "quiet_step qc k st st'"
  shows "doomed k xs st'"
proof -
  have q: "queue_step qc st st'" and nr: "\<And>m. worker_at st k \<noteq> Some (Running m)"
    using s by (auto simp: quiet_step_def split: option.splits worker.splits)
  obtain b0 where b0: "bucket_of st k = Some b0" using d by (auto simp: doomed_def split: option.splits)
  have more: "mset xs \<subseteq># add_mset x M" if "mset xs \<subseteq># M" for x M
    using that by (metis add_mset_add_single mset_subset_eq_add_left subset_mset.order_trans)
  from q show ?thesis
  proof cases
    case publish
    then show ?thesis using d by (auto simp: PublishInbound_def doomed_def bucket_of_def split: if_splits option.splits)
  next
    case work
    then show ?thesis
    proof cases
      case consume
      then show ?thesis by (cases rule: consume_cases) (use d b0 in \<open>auto simp: doomed_def split: option.splits\<close>)
    next
      case active
      then show ?thesis by (cases rule: active_cases) (use d in \<open>auto simp: doomed_def split: option.splits\<close>)
    next
      case steer
      then show ?thesis by (cases rule: steer_cases) (use d b0 more in \<open>auto simp: doomed_def split: if_splits\<close>)
    next
      case put
      then show ?thesis by (cases rule: put_cases) (use d b0 in \<open>auto simp: doomed_def split: if_splits\<close>)
    next
      case (pop k')
      then show ?thesis by (cases rule: pop_cases) (use d b0 in \<open>auto simp: doomed_def late_phase_def split: if_splits\<close>)
    next
      case (drain k')
      then show ?thesis
        by (cases rule: drain_cases) (use d b0 more in \<open>auto simp: doomed_def late_phase_def split: if_splits\<close>)
    next
      case (acquire k')
      then show ?thesis by (cases rule: acquire_cases) (use d b0 in \<open>auto simp: doomed_def late_phase_def split: if_splits\<close>)
    next
      case (absorb k')
      then show ?thesis
        by (cases rule: absorb_cases) (use d b0 nr in \<open>auto simp: doomed_def worker_at_def split: if_splits\<close>)
    next
      case (release k')
      then show ?thesis
        by (cases rule: release_cases) (use d b0 nr in \<open>auto simp: doomed_def late_phase_def worker_at_def split: if_splits\<close>)
    qed
  qed
qed

text \<open>C35: What waits in the steering inbox of a session when its run has ended is never read: by the time the next
  message of the session is about to run, all of it has been discarded.\<close>
theorem late_steering_discarded:
  assumes "bucket_of st k = Some b" "bk_worker b = Leaving" "(quiet_step qc k)\<^sup>*\<^sup>* st st'"
    and "bucket_of st' k = Some b'" "bk_worker b' = Waiting m"
  shows "mset (bk_steer b) \<subseteq># mset (qs_discarded st')"
proof -
  have "doomed k (bk_steer b) st" using assms(1,2) by (simp add: doomed_def late_phase_def)
  with assms(3) have "doomed k (bk_steer b) st'" by (induction rule: rtranclp_induct) (auto intro: doomed_step)
  then show ?thesis using assms(4,5) by (simp add: doomed_def late_phase_def)
qed

theorem late_steering_discarded_witness:
  "mset [ex_msg] \<subseteq># mset (qs_discarded ((ex_at [] Consuming
     [(ex_key, \<lparr>bk_ch = [], bk_steer = [], bk_active = True, bk_worker = Waiting ex_msg\<rparr>)] 0 [])\<lparr>qs_discarded := [ex_msg]\<rparr>))"
proof -
  let ?s = "\<lambda>ch steer w a d. (ex_at [] Consuming
     [(ex_key, \<lparr>bk_ch = ch, bk_steer = steer, bk_active = a, bk_worker = w\<rparr>)] 0 [])\<lparr>qs_discarded := d\<rparr>"
  have q: "quiet_step ex_config ex_key (?s ch steer w a d) st'"
    if "work_step ex_config (?s ch steer w a d) st'" "\<And>m. w \<noteq> Running m" for ch steer w a d st'
    using that by (auto simp: quiet_step_def worker_at_def ex_at_def bucket_of_def intro: queue_step.work split: worker.splits)
  have 1: "quiet_step ex_config ex_key (?s [ex_msg] [ex_msg] Leaving True []) (?s [ex_msg] [ex_msg] Parked False [])"
    by (rule q[OF work_step.release[of ex_key]]) (simp_all add: release_def ex_at_def bucket_of_def set_bucket_def)
  have 2: "quiet_step ex_config ex_key (?s [ex_msg] [ex_msg] Parked False []) (?s [] [ex_msg] (Draining ex_msg) False [])"
    by (rule q[OF work_step.pop[of ex_key]]) (simp_all add: pop_message_def ex_at_def bucket_of_def set_bucket_def)
  have 3: "quiet_step ex_config ex_key (?s [] [ex_msg] (Draining ex_msg) False []) (?s [] [] (Draining ex_msg) False [ex_msg])"
    by (rule q[OF work_step.drain[of ex_key]]) (simp_all add: drain_steering_def ex_at_def bucket_of_def set_bucket_def)
  have 4: "quiet_step ex_config ex_key (?s [] [] (Draining ex_msg) False [ex_msg]) (?s [] [] (Waiting ex_msg) True [ex_msg])"
    by (rule q[OF work_step.drain[of ex_key]]) (simp_all add: drain_steering_def ex_at_def bucket_of_def set_bucket_def)
  have r: "(quiet_step ex_config ex_key)\<^sup>*\<^sup>* (?s [ex_msg] [ex_msg] Leaving True []) (?s [] [] (Waiting ex_msg) True [ex_msg])"
    by (rule converse_rtranclp_into_rtranclp, rule 1, rule converse_rtranclp_into_rtranclp, rule 2,
        rule converse_rtranclp_into_rtranclp, rule 3, rule r_into_rtranclp, rule 4)
  show ?thesis
    using late_steering_discarded[OF _ _ r] by (simp add: ex_at_def bucket_of_def)
qed

end
