(* ===== verification/ChannelSplit.thy ===== *)
theory ChannelSplit
  imports MessageSplit
begin

text \<open>
  Cutting an answer into platform messages: \<^verbatim>\<open>SplitMessage\<close> of \<^verbatim>\<open>pkg/channels/manager.go\<close>, which the workers
  of the channels call.  (\<open>MessageSplit\<close> holds the older variant of \<^verbatim>\<open>pkg/utils/message.go\<close>, which
  counts bytes.)  A string is the list of its runes; positions are integers counted from the beginning of the
  runes, and the loop keeps the runes and the position \<open>start\<close> of the next message, since a cut inside
  a code block replaces the runes.  The loop takes fuel; \<open>None\<close> is ``still running''.
\<close>

section \<open>Searching a range\<close>

definition find_last_in_range :: "(char \<Rightarrow> bool) \<Rightarrow> string \<Rightarrow> int \<Rightarrow> int \<Rightarrow> int \<Rightarrow> int" where
  "find_last_in_range p runes start en searchWindow =
     (let searchStart = max (en - searchWindow) start;
          i = scan_down p runes (nat searchStart) (nat en)
      in if i = -1 then start - 1 else i)"

definition findLastNewlineInRange :: "string \<Rightarrow> int \<Rightarrow> int \<Rightarrow> int \<Rightarrow> int" where
  "findLastNewlineInRange = find_last_in_range (\<lambda>c. c = CHR 0x0A)"

definition findLastSpaceInRange :: "string \<Rightarrow> int \<Rightarrow> int \<Rightarrow> int \<Rightarrow> int" where
  "findLastSpaceInRange = find_last_in_range (\<lambda>c. c = CHR '' '' \<or> c = CHR 0x09)"

definition slice :: "string \<Rightarrow> int \<Rightarrow> int \<Rightarrow> string" where
  "slice runes a b = take (nat (b - a)) (drop (nat a) runes)"

definition findLastUnclosedCodeBlockInRange :: "string \<Rightarrow> int \<Rightarrow> int \<Rightarrow> int" where
  "findLastUnclosedCodeBlockInRange runes start en = fence_scan (slice runes start en) start False (-1)"

definition findNextClosingCodeBlockInRange :: "string \<Rightarrow> int \<Rightarrow> int \<Rightarrow> int" where
  "findNextClosingCodeBlockInRange runes startIdx en =
     (case Index (slice runes startIdx en) fence of Some k \<Rightarrow> startIdx + int k + 3 | None \<Rightarrow> -1)"

definition findNewlineFrom :: "string \<Rightarrow> int \<Rightarrow> int" where
  "findNewlineFrom runes from0 =
     (case IndexByte (drop (nat from0) runes) CHR 0x0A of Some k \<Rightarrow> from0 + int k | None \<Rightarrow> -1)"

section \<open>One message\<close>

definition range_end :: "int \<Rightarrow> string \<Rightarrow> int \<Rightarrow> int" where
  "range_end maxLen runes start =
     (let en = start + effectiveLimit maxLen;
          e1 = findLastNewlineInRange runes start en 200;
          e2 = (if e1 \<le> start then findLastSpaceInRange runes start en 100 else e1)
      in if e2 \<le> start then en else e2)"

definition skip_blank :: "string \<Rightarrow> int \<Rightarrow> int" where
  "skip_blank runes i = i + int (length (takeWhile trim_cutset (drop (nat i) runes)))"

definition cut_at :: "int \<Rightarrow> string \<Rightarrow> int \<Rightarrow> int \<Rightarrow> string \<times> string \<times> int" where
  "cut_at maxLen runes start e =
     (let msgEnd = (if e \<le> start then start + effectiveLimit maxLen else e)
      in (slice runes start msgEnd, runes, skip_blank runes msgEnd))"

definition cut_inside :: "string \<Rightarrow> int \<Rightarrow> string \<Rightarrow> int \<Rightarrow> string \<times> string \<times> int" where
  "cut_inside runes start header e =
     (TrimRight trim_cutset (slice runes start e) @ [CHR 0x0A] @ fence,
      TrimSpace (header @ [CHR 0x0A] @ drop (nat e) runes), 0)"

definition block_header :: "string \<Rightarrow> int \<Rightarrow> string \<times> int" where
  "block_header runes unclosedIdx =
     (let headerEnd = findNewlineFrom runes unclosedIdx;
          header = TrimSpace (if headerEnd = -1 then slice runes unclosedIdx (unclosedIdx + 3)
                              else slice runes unclosedIdx headerEnd)
      in (header, if headerEnd = -1 then unclosedIdx + int (length header) else headerEnd))"

definition cut_block :: "int \<Rightarrow> string \<Rightarrow> int \<Rightarrow> int \<Rightarrow> int \<Rightarrow> string \<times> string \<times> int" where
  "cut_block maxLen runes start msgEnd unclosedIdx =
     (let totalLen = int (length runes);
          closingIdx = findNextClosingCodeBlockInRange runes msgEnd totalLen;
          (header, headerEndIdx) = block_header runes unclosedIdx;
          innerLimit = min (start + maxLen - 5) totalLen;
          betterEnd = findLastNewlineInRange runes start innerLimit 200;
          n1 = findLastNewlineInRange runes start unclosedIdx 200;
          newEnd = (if n1 \<le> start then findLastSpaceInRange runes start unclosedIdx 100 else n1)
      in if closingIdx > 0 \<and> closingIdx - start \<le> maxLen then cut_at maxLen runes start closingIdx
         else if msgEnd > headerEndIdx + 20 then
           cut_inside runes start header (if betterEnd > headerEndIdx then betterEnd else innerLimit)
         else if newEnd > start then cut_at maxLen runes start newEnd
         else if unclosedIdx - start > 20 then cut_at maxLen runes start unclosedIdx
         else cut_inside runes start header innerLimit)"

definition message_step :: "int \<Rightarrow> string \<Rightarrow> int \<Rightarrow> string \<times> string \<times> int" where
  "message_step maxLen runes start =
     (let msgEnd = range_end maxLen runes start;
          unclosedIdx = findLastUnclosedCodeBlockInRange runes start msgEnd
      in if unclosedIdx \<ge> 0 \<and> int (length runes) > msgEnd then cut_block maxLen runes start msgEnd unclosedIdx
         else cut_at maxLen runes start msgEnd)"

fun message_loop :: "nat \<Rightarrow> int \<Rightarrow> string \<Rightarrow> int \<Rightarrow> string list option" where
  "message_loop 0 maxLen runes start = (if start \<ge> int (length runes) then Some [] else None)"
| "message_loop (Suc fuel) maxLen runes start =
     (if start \<ge> int (length runes) then Some []
      else if int (length runes) - start \<le> maxLen then Some [drop (nat start) runes]
      else case message_step maxLen runes start of
             (m, runes', start') \<Rightarrow> map_option ((#) m) (message_loop fuel maxLen runes' start'))"

definition split_message :: "nat \<Rightarrow> string \<Rightarrow> int \<Rightarrow> string list option" where
  "split_message fuel runes maxLen =
     (if maxLen \<le> 0 then (if runes = [] then Some [] else Some [runes])
      else message_loop fuel maxLen runes 0)"

section \<open>Bounds\<close>

lemma length_slice: "0 \<le> a \<Longrightarrow> length (slice runes a b) \<le> nat (b - a)"
  by (simp add: slice_def)

lemma find_last_bounds:
  assumes "0 \<le> start" "find_last_in_range p runes start en w > start"
  shows "find_last_in_range p runes start en w < en"
  using scan_down_bounds[OF refl, of p runes "nat (max (en - w) start)" "nat en"] assms
  by (auto simp: find_last_in_range_def Let_def split: if_splits)

lemma find_last_le: "0 \<le> start \<Longrightarrow> start \<le> en \<Longrightarrow> find_last_in_range p runes start en w \<le> en"
  using scan_down_bounds[OF refl, of p runes "nat (max (en - w) start)" "nat en"]
  by (auto simp: find_last_in_range_def Let_def split: if_splits)

lemma range_end_bounds:
  assumes "0 < n" "0 \<le> start"
  shows "start < range_end n runes start \<and> range_end n runes start \<le> start + effectiveLimit n"
  using effectiveLimit_bounds[OF assms(1)] find_last_bounds[OF assms(2)]
  by (auto simp: range_end_def findLastNewlineInRange_def findLastSpaceInRange_def Let_def less_imp_le)

lemma cut_at_length:
  assumes "0 < n" "0 \<le> start" "e \<le> start + n"
  shows "int (length (fst (cut_at n runes start e))) \<le> n"
  using length_slice[OF assms(2), of runes] effectiveLimit_bounds[OF assms(1)] assms
  by (fastforce simp: cut_at_def Let_def slice_def)

lemma cut_inside_length:
  assumes "5 \<le> n" "0 \<le> start" "e \<le> start + n - 5"
  shows "int (length (fst (cut_inside runes start header e))) \<le> n"
  using length_TrimRight[of trim_cutset "slice runes start e"] length_slice[OF assms(2), of runes e] assms
  by (simp add: cut_inside_def fence_def)

lemma unclosed_range:
  assumes "0 \<le> start" "0 \<le> findLastUnclosedCodeBlockInRange runes start en"
  shows "start \<le> findLastUnclosedCodeBlockInRange runes start en
    \<and> findLastUnclosedCodeBlockInRange runes start en + 3 \<le> en"
  using assms fence_scan_bound[of "slice runes start en" start False "-1"] length_slice[OF assms(1), of runes en]
  unfolding findLastUnclosedCodeBlockInRange_def by auto


lemma cut_cases:
  assumes "a \<Longrightarrow> int (length (fst x)) \<le> n" "b \<Longrightarrow> int (length (fst y)) \<le> n" "c \<Longrightarrow> int (length (fst z)) \<le> n"
    "d \<Longrightarrow> int (length (fst v)) \<le> n" "int (length (fst w)) \<le> n"
  shows "int (length (fst (if a then x else if b then y else if c then z else if d then v else w))) \<le> n"
  using assms by simp

lemma cut_block_length:
  assumes n: "5 \<le> n" "0 \<le> start" and u: "start \<le> u" "u \<le> start + n"
  shows "int (length (fst (cut_block n runes start msgEnd u))) \<le> n"
proof -
  let ?inner = "min (start + n - 5) (int (length runes))"
  have inner: "?inner \<le> start + n - 5" by simp
  have better: "(if findLastNewlineInRange runes start ?inner 200 > h
      then findLastNewlineInRange runes start ?inner 200 else ?inner) \<le> start + n - 5" for h
  proof (cases "start \<le> ?inner")
    case True
    then show ?thesis using find_last_le[OF n(2) True, of "\<lambda>c. c = CHR 0x0A" runes 200] inner
      by (auto simp: findLastNewlineInRange_def)
  next
    case False
    then have "scan_down p runes (nat (max (?inner - 200) start)) (nat ?inner) = -1" for p
      using scan_down_bounds[OF refl, of p runes "nat (max (?inner - 200) start)" "nat ?inner"] n by auto
    then have "findLastNewlineInRange runes start ?inner 200 = start - 1"
      by (simp add: findLastNewlineInRange_def find_last_in_range_def Let_def)
    then show ?thesis using n inner by auto
  qed
  have before: "(if n1 \<le> start then findLastSpaceInRange runes start u 100 else n1) \<le> start + n"
    if "n1 = findLastNewlineInRange runes start u 200" for n1
    using that u(2) find_last_le[OF n(2) u(1), of "\<lambda>c. c = CHR 0x0A" runes 200]
      find_last_le[OF n(2) u(1), of "\<lambda>c. c = CHR '' '' \<or> c = CHR 0x09" runes 100]
    unfolding findLastNewlineInRange_def findLastSpaceInRange_def by (simp split: if_split)
  show ?thesis
    unfolding cut_block_def Let_def case_prod_beta
    by (intro cut_cases cut_at_length cut_inside_length n before[OF refl] better inner) (use n u in auto)
qed

lemma message_step_length:
  assumes n: "0 < n" "0 \<le> start"
  shows "int (length (fst (message_step n runes start))) \<le> n"
proof -
  let ?e = "range_end n runes start" and ?u = "findLastUnclosedCodeBlockInRange runes start (range_end n runes start)"
  have e: "start < ?e" "?e \<le> start + effectiveLimit n" using range_end_bounds[OF n] by auto
  have "effectiveLimit n \<le> n" using effectiveLimit_bounds[OF n(1)] by simp
  moreover have "5 \<le> n \<and> start \<le> ?u \<and> ?u \<le> start + n" if "0 \<le> ?u"
  proof -
    have "start + 3 \<le> ?e" "start \<le> ?u" "?u \<le> ?e" using unclosed_range[OF n(2) that] by auto
    then show ?thesis using e effectiveLimit_small[of n] n(1) calculation by (cases "n \<le> 4") auto
  qed
  ultimately show ?thesis
    using e n by (auto simp: message_step_def Let_def intro!: cut_block_length cut_at_length)
qed

lemma skip_blank_ge: "i \<le> skip_blank runes i"
  by (simp add: skip_blank_def)

lemma message_step_start:
  assumes "0 < n" "0 \<le> start" "message_step n runes start = (m, runes', start')"
  shows "0 \<le> start'"
proof -
  have cut: "0 \<le> snd (snd (cut_at n runes start e))" for e
    using skip_blank_ge[of "if e \<le> start then start + effectiveLimit n else e" runes] effectiveLimit_bounds[OF assms(1)] assms(2)
    by (auto simp: cut_at_def Let_def split: if_splits)
  have ins: "snd (snd (cut_inside runes start h e)) = 0" for h e by (simp add: cut_inside_def)
  have "0 \<le> snd (snd (cut_block n runes start e u))" for e u
    unfolding cut_block_def Let_def case_prod_beta using cut ins by (auto split: if_splits)
  then have "0 \<le> snd (snd (message_step n runes start))" using cut by (simp add: message_step_def Let_def)
  then show ?thesis using assms(3) by simp
qed

lemma message_loop_length:
  "0 < n \<Longrightarrow> 0 \<le> start \<Longrightarrow> message_loop fuel n runes start = Some ms \<Longrightarrow> m \<in> set ms \<Longrightarrow> int (length m) \<le> n"
proof (induction fuel arbitrary: runes start ms)
  case 0
  then show ?case by (simp split: if_splits)
next
  case (Suc fuel)
  show ?case
  proof (cases "start \<ge> int (length runes) \<or> int (length runes) - start \<le> n")
    case True
    with Suc.prems show ?thesis by (auto split: if_splits)
  next
    case False
    obtain m1 r s where st: "message_step n runes start = (m1, r, s)" by (metis prod_cases3)
    with False Suc.prems obtain ms' where "message_loop fuel n r s = Some ms'" "ms = m1 # ms'" by auto
    then show ?thesis
      using Suc.IH[of s r ms'] Suc.prems message_step_start[OF Suc.prems(1,2) st] message_step_length[OF Suc.prems(1,2), of runes] st
      by auto
  qed
qed

section \<open>Text without fences\<close>

lemma slice_split:
  assumes "0 \<le> a" "a \<le> b"
  shows "drop (nat a) runes = slice runes a b @ drop (nat b) runes"
proof -
  have "nat b = nat (b - a) + nat a" using assms by simp
  then have "drop (nat b) runes = drop (nat (b - a)) (drop (nat a) runes)" by simp
  then show ?thesis by (simp only: slice_def append_take_drop_id)
qed

lemma cutset_space: "trim_cutset c \<Longrightarrow> is_space c"
  unfolding trim_cutset_def by (elim disjE) (simp_all add: is_space_def byte_of_def)

lemma visible_blank: "(\<forall>c \<in> set s. trim_cutset c) \<Longrightarrow> visible s = []"
  using cutset_space by (simp add: visible_def filter_empty_conv)

lemma visible_skip: "0 \<le> i \<Longrightarrow> visible (drop (nat (skip_blank runes i)) runes) = visible (drop (nat i) runes)"
proof -
  assume i: "0 \<le> i"
  let ?t = "takeWhile trim_cutset (drop (nat i) runes)"
  have "drop (nat i) runes = ?t @ drop (nat (skip_blank runes i)) runes"
  proof -
    have "nat (skip_blank runes i) = length ?t + nat i" using i by (simp add: skip_blank_def nat_add_distrib)
    then have "drop (nat (skip_blank runes i)) runes = dropWhile trim_cutset (drop (nat i) runes)"
      by (simp only: dropWhile_eq_drop drop_drop)
    then show ?thesis by (simp only: takeWhile_dropWhile_id)
  qed
  then have "visible (drop (nat i) runes) = visible ?t @ visible (drop (nat (skip_blank runes i)) runes)"
    by (metis visible_append)
  then show ?thesis using visible_blank[of ?t] set_takeWhileD[of _ trim_cutset] by auto
qed

lemma Contains_Cons: "Contains (c # s) sub \<longleftrightarrow> HasPrefix (c # s) sub \<or> Contains s sub"
  by (simp add: Contains_def)

lemma Contains_drop: "Contains (drop k s) sub \<Longrightarrow> Contains s sub"
proof (induction s arbitrary: k)
  case (Cons c s)
  then show ?case by (cases k) (auto simp: Contains_Cons)
qed simp

lemma HasPrefix_take: "HasPrefix (take k s) sub \<Longrightarrow> HasPrefix s sub"
  unfolding HasPrefix_def by (metis append_take_drop_id append_eq_conv_conj append.assoc)

lemma Contains_take: "Contains (take k s) sub \<Longrightarrow> Contains s sub"
proof (induction s arbitrary: k)
  case (Cons c s)
  show ?case
  proof (cases k)
    case 0
    then have "sub = []" using Cons.prems by (simp add: Contains_def split: if_splits)
    then show ?thesis by (simp add: Contains_def HasPrefix_def)
  next
    case (Suc j)
    then have "HasPrefix (take k (c # s)) sub \<or> Contains (take j s) sub" using Cons.prems by (simp add: Contains_Cons)
    then show ?thesis using Cons.IH HasPrefix_take[of k "c # s" sub] by (auto simp: Contains_Cons)
  qed
qed simp

lemma fence_scan_none: "\<not> Contains t fence \<Longrightarrow> fence_scan t i False l = -1"
  by (induction t i False l rule: fence_scan.induct) (auto simp: Contains_Cons HasPrefix_def fence_def)

lemma message_step_plain:
  assumes n: "0 < n" "0 \<le> start" and b: "\<not> Contains runes fence"
  shows "message_step n runes start = cut_at n runes start (range_end n runes start)"
proof -
  have "\<not> Contains (slice runes start e) fence" for e
    using b Contains_take Contains_drop unfolding slice_def by blast
  then have "findLastUnclosedCodeBlockInRange runes start e = -1" for e
    unfolding findLastUnclosedCodeBlockInRange_def by (rule fence_scan_none)
  then show ?thesis by (simp add: message_step_def Let_def)
qed

lemma message_loop_plain:
  assumes "0 < n" "\<not> Contains runes fence" "0 \<le> start" "nat (int (length runes) - start) \<le> fuel"
  shows "\<exists>ms. message_loop fuel n runes start = Some ms \<and> visible (concat ms) = visible (drop (nat start) runes)"
  using assms(3,4)
proof (induction fuel arbitrary: start)
  case 0
  then show ?case by (simp add: visible_def)
next
  case (Suc fuel)
  show ?case
  proof (cases "start \<ge> int (length runes) \<or> int (length runes) - start \<le> n")
    case True
    then show ?thesis by (auto simp: visible_def)
  next
    case False
    let ?e = "range_end n runes start"
    have e: "start < ?e" using range_end_bounds[OF assms(1) Suc.prems(1)] by simp
    have st: "message_step n runes start = (slice runes start ?e, runes, skip_blank runes ?e)"
      using message_step_plain[OF assms(1) Suc.prems(1) assms(2)] e by (simp add: cut_at_def Let_def)
    have s': "start < skip_blank runes ?e" using e skip_blank_ge[of ?e runes] by simp
    then have "nat (int (length runes) - skip_blank runes ?e) \<le> fuel" using Suc.prems by linarith
    with Suc.IH[of "skip_blank runes ?e"] s' Suc.prems(1) obtain ms where
      ms: "message_loop fuel n runes (skip_blank runes ?e) = Some ms"
      "visible (concat ms) = visible (drop (nat (skip_blank runes ?e)) runes)" by auto
    have "visible (drop (nat start) runes) = visible (slice runes start ?e) @ visible (drop (nat ?e) runes)"
      using slice_split[of start ?e runes] e Suc.prems(1) by (metis less_imp_le visible_append)
    then show ?thesis using False st ms visible_skip[of ?e runes] e Suc.prems(1) by simp
  qed
qed


section \<open>A fence line longer than the limit\<close>

lemma nothing_found: "(\<forall>i < nat en. \<not> p (runes ! i)) \<Longrightarrow> find_last_in_range p runes 0 en w = -1"
  by (simp add: find_last_in_range_def scan_down_none Let_def)

lemma line_nth:
  assumes "long_fence_line n x" "int i < n"
  shows "(fence @ x @ z) ! i \<noteq> CHR 0x0A" "(fence @ x @ z) ! i \<noteq> CHR '' ''" "(fence @ x @ z) ! i \<noteq> CHR 0x09"
proof -
  have "i < length (fence @ x)" using assms by (simp add: long_fence_line_def fence_bytes)
  then have "(fence @ x @ z) ! i \<in> set (fence @ x)" using nth_mem[of i "fence @ x"] nth_append[of "fence @ x" z i] by simp
  from line_facts(3-5)[OF assms(1) this] show "(fence @ x @ z) ! i \<noteq> CHR 0x0A"
    "(fence @ x @ z) ! i \<noteq> CHR '' ''" "(fence @ x @ z) ! i \<noteq> CHR 0x09" by auto
qed

lemma long_line_step:
  assumes l: "long_fence_line n x"
  shows "\<exists>m z'. message_step n (fence @ x @ CHR 0x0A # z) 0 = (m, fence @ x @ CHR 0x0A # z', 0)"
proof -
  let ?c = "fence @ x @ CHR 0x0A # z"
  let ?e = "range_end n ?c 0"
  have n5: "5 \<le> n" and len: "n \<le> int (length (fence @ x))"
    using l by (simp_all add: long_fence_line_def fence_bytes)
  have eff: "3 \<le> effectiveLimit n" "effectiveLimit n \<le> n"
    using n5 effectiveLimit_bounds [of n] by (auto simp: effectiveLimit_def codeBlockBuffer_def Let_def)
  have none: "findLastNewlineInRange ?c 0 en w = -1" "findLastSpaceInRange ?c 0 en w = -1" if "en \<le> n" for en w
    unfolding findLastNewlineInRange_def findLastSpaceInRange_def
    using line_nth[OF l, of _ "CHR 0x0A # z"] that by (auto intro!: nothing_found)
  have e: "?e = effectiveLimit n" using none[OF eff(2)] by (simp add: range_end_def Let_def)
  have "slice ?c 0 ?e = fence @ take (nat (effectiveLimit n) - 3) x"
    using eff e len by (simp add: slice_def fence_bytes)
  moreover have "CHR ''`'' \<notin> set (take k x)" for k
    using l code_byte_facts(5) by (auto simp: long_fence_line_def dest: in_set_takeD)
  ultimately have u: "findLastUnclosedCodeBlockInRange ?c 0 ?e = 0"
    by (simp add: findLastUnclosedCodeBlockInRange_def fence_def fence_scan_inside)
  have "CHR ''`'' \<notin> set (drop k x)" for k
    using l code_byte_facts(5) by (auto simp: long_fence_line_def dest: in_set_dropD)
  moreover have "slice ?c ?e (int (length ?c)) = drop (nat ?e - 3) x @ CHR 0x0A # z"
    using eff e len by (simp add: slice_def fence_bytes)
  ultimately have close: "\<not> (0 < findNextClosingCodeBlockInRange ?c ?e (int (length ?c))
      \<and> findNextClosingCodeBlockInRange ?c ?e (int (length ?c)) - 0 \<le> n)"
    using Index_no_backquote [of "drop (nat ?e - 3) x" "CHR 0x0A # z"] len eff e
    by (auto simp: findNextClosingCodeBlockInRange_def fence_bytes split: option.splits)
  have "CHR 0x0A \<notin> set (fence @ x)" using line_facts(3) [OF l] by blast
  from IndexByte_append [OF this, of z] have nlpos: "findNewlineFrom ?c 0 = int (length (fence @ x))"
    by (simp add: findNewlineFrom_def)
  have "trimmed (fence @ x)" using line_facts(2) [OF l] by (metis hd_in_set last_in_set trimmed_def)
  then have h: "block_header ?c 0 = (fence @ x, int (length (fence @ x)))"
    unfolding block_header_def nlpos Let_def by (simp add: slice_def TrimSpace_id)
  have inner: "min (0 + n - 5) (int (length ?c)) = n - 5" using len by simp
  have not20: "\<not> ?e > int (length (fence @ x)) + 20" using e eff len by linarith
  have "cut_block n ?c 0 ?e 0 = cut_inside ?c 0 (fence @ x) (n - 5)"
    unfolding cut_block_def Let_def h prod.case inner
    if_not_P[OF close] if_not_P[OF not20] using n5 by (simp add: none)
  moreover have "message_step n ?c 0 = cut_block n ?c 0 ?e 0"
    unfolding message_step_def Let_def u using e eff len by simp
  ultimately have step: "message_step n ?c 0 = cut_inside ?c 0 (fence @ x) (n - 5)" by simp
  let ?k = "nat (n - 5)"
  have k: "?k < length (fence @ x)" using len n5 by linarith
  have "TrimSpace ((fence @ x) @ CHR 0x0A # drop ?k (fence @ x) @ CHR 0x0A # z)
      = (fence @ x) @ CHR 0x0A # TrimRight is_space (drop ?k (fence @ x) @ CHR 0x0A # z)"
  proof (rule TrimSpace_keep_head)
    have "(fence @ x) ! ?k \<in> set (drop ?k (fence @ x))" using k by (metis Cons_nth_drop_Suc list.set_intros(1))
    moreover have "\<not> is_space ((fence @ x) ! ?k)" using k line_facts(2) [OF l] nth_mem by blast
    ultimately show "\<exists>b \<in> set (drop ?k (fence @ x) @ CHR 0x0A # z). \<not> is_space b" by (metis Un_iff set_append)
  qed (use line_facts(2) [OF l] in \<open>auto simp: fence_def\<close>)
  then show ?thesis using step k by (simp add: cut_inside_def)
qed

lemma long_line_never_ends: "long_fence_line n x \<Longrightarrow> message_loop fuel n (fence @ x @ CHR 0x0A # z) 0 = None"
proof (induction fuel arbitrary: z)
  case (Suc fuel)
  let ?c = "fence @ x @ CHR 0x0A # z"
  obtain m z' where z': "message_step n ?c 0 = (m, fence @ x @ CHR 0x0A # z', 0)" using long_line_step Suc.prems by blast
  have "n < int (length ?c)" using Suc.prems by (simp add: long_fence_line_def fence_bytes)
  with z' Suc show ?case by simp
qed simp

section \<open>Properties\<close>

text \<open>Every message the splitter makes fits the limit of the channel, code blocks and the fences it injects
  included.\<close>
theorem split_message_bounded:
  assumes "0 < maxLen" "split_message fuel runes maxLen = Some msgs"
  shows "list_all (\<lambda>m. int (length m) \<le> maxLen) msgs"
  using message_loop_length[OF assms(1), of 0 fuel runes msgs] assms by (auto simp: split_message_def list_all_iff)

theorem split_message_bounded_witness:
  "list_all (\<lambda>m. int (length m) \<le> 4) [''ab'', ''cd'', ''ef'']"
proof -
  have "split_message 5 ''ab cd ef'' 4 = Some [''ab'', ''cd'', ''ef'']" by code_simp
  from split_message_bounded[OF _ this] show ?thesis by simp
qed

text \<open>C28: Text without a code fence (three backquotes) is cut completely: for every limit the splitter returns after
  at most as many turns as the text has runes, and its messages put together are the text up to white space, so
  nothing visible is lost, repeated or moved.\<close>
theorem split_message_complete:
  assumes "\<not> Contains runes fence" "0 < maxLen"
  shows "\<exists>msgs. split_message (length runes) runes maxLen = Some msgs \<and> visible (concat msgs) = visible runes"
  using message_loop_plain[OF assms(2,1), of 0 "length runes"] assms(2) by (simp add: split_message_def)

theorem split_message_complete_witness:
  "\<exists>(msgs :: string list). split_message (length ''Run `ls -l` and ``id`` now'') ''Run `ls -l` and ``id`` now'' 3 = Some msgs
     \<and> visible (concat msgs) = visible ''Run `ls -l` and ``id`` now''"
  by (rule split_message_complete) (simp_all add: Contains_def HasPrefix_def fence_def)

text \<open>C29: A text that begins with a code block whose first line runs to the limit makes the splitter run forever: the
  line is put back in front of what is left, so the text never gets shorter and the list of messages grows without
  end.  The line has no white space and no backquote and ends with a newline; the limit is at least five and at
  most the length of the line with its fence.\<close>
theorem split_message_diverges:
  assumes "5 \<le> maxLen" "maxLen \<le> int (length line) + 3" "list_all code_byte line"
  shows "split_message fuel (''```'' @ line @ [CHR 0x0A] @ rest) maxLen = None"
  using long_line_never_ends[of maxLen line fuel rest] assms
  by (simp add: split_message_def long_fence_line_def fence_def list_all_iff)

theorem split_message_diverges_witness:
  "split_message 1000 (''```'' @ ''YWJjZGVmZ2hp'' @ [CHR 0x0A] @ ''``` done'') 12 = None"
  by (rule split_message_diverges) (simp_all add: code_byte_def byte_of_def is_space_def)

end
