(* ===== verification/Channels.thy ===== *)
theory Channels
  imports Inbound ChannelSplit
begin

text \<open>
  The chat channels around the loop: \<^verbatim>\<open>pkg/channels/manager.go\<close>, \<^verbatim>\<open>manager_send.go\<close>,
  \<^verbatim>\<open>manager_dispatch.go\<close>, \<^verbatim>\<open>manager_placeholder.go\<close>, \<^verbatim>\<open>manager_typing.go\<close> and \<^verbatim>\<open>pkg/identity\<close>.
  Inbound: who may write, when the bot answers in a group, what is recorded before the message is published.
  Outbound: the worker of a channel cuts a message, stops the indicators of its chat, edits the placeholder or
  sends with retries, and binds the platform message to its session.  The platform behind a channel is an
  argument (the outcome of every attempt to send and to edit); stop and undo functions are numbers, and calls of
  them are effects in \<open>ch_log\<close>.  The maps are lists in the order Go iterates them.  A delayed placeholder that
  fires is one step here.
\<close>

section \<open>Who may write\<close>

record sender_info =
  si_platform :: string
  si_platformID :: string
  si_canonical :: string
  si_username :: string

definition BuildCanonicalID :: "string \<Rightarrow> string \<Rightarrow> string" where
  "BuildCanonicalID platform platformID =
     (let p = ToLower (TrimSpace platform); i = TrimSpace platformID in
      if p = [] \<or> i = [] then [] else p @ '':'' @ i)"

definition ParseCanonicalID :: "string \<Rightarrow> (string \<times> string) option" where
  "ParseCanonicalID canonical =
     (let c = TrimSpace canonical in
      case Index c '':'' of
        None \<Rightarrow> None
      | Some idx \<Rightarrow> if idx = 0 \<or> idx = length c - 1 then None else Some (take idx c, drop (idx + 1) c))"

definition isNumeric :: "string \<Rightarrow> bool" where
  "isNumeric s \<longleftrightarrow> s \<noteq> [] \<and> list_all is_digit s"

text \<open>The two halves of \<^verbatim>\<open>id|username\<close>; the second is empty when there is no bar.\<close>

definition split_bar :: "string \<Rightarrow> string \<times> string" where
  "split_bar s =
     (case Index s ''|'' of Some idx \<Rightarrow> if idx > 0 then (take idx s, drop (idx + 1) s) else (s, [])
      | None \<Rightarrow> (s, []))"

definition match_name :: "sender_info \<Rightarrow> string \<Rightarrow> bool" where
  "match_name sender allowed =
     (let trimmed = TrimPrefix allowed ''@''; (allowedID, allowedUser) = split_bar trimmed in
      si_platformID sender \<noteq> [] \<and> si_platformID sender = allowedID
      \<or> si_username sender \<noteq> [] \<and> (si_username sender = trimmed \<or> si_username sender = allowedUser))"

definition MatchAllowed :: "sender_info \<Rightarrow> string \<Rightarrow> bool" where
  "MatchAllowed sender allowed0 =
     (let allowed = TrimSpace allowed0 in
      if allowed = [] then False
      else case ParseCanonicalID allowed of
        Some (platform, i) \<Rightarrow>
          if \<not> isNumeric platform then
            (let candidate = BuildCanonicalID platform i in
             if candidate \<noteq> [] \<and> si_canonical sender \<noteq> [] then EqualFold (si_canonical sender) candidate
             else EqualFold platform (si_platform sender) \<and> si_platformID sender = i)
          else match_name sender allowed
      | None \<Rightarrow> match_name sender allowed)"

definition IsAllowed :: "string list \<Rightarrow> string \<Rightarrow> bool" where
  "IsAllowed allowList senderID =
     (if allowList = [] then True
      else let (idPart, userPart) = split_bar senderID in
        list_ex (\<lambda>allowed.
          let trimmed = TrimPrefix allowed ''@''; (allowedID, allowedUser) = split_bar trimmed in
          senderID = allowed \<or> idPart = allowed \<or> senderID = trimmed \<or> idPart = trimmed \<or> idPart = allowedID
          \<or> allowedUser \<noteq> [] \<and> senderID = allowedUser
          \<or> userPart \<noteq> [] \<and> (userPart = allowed \<or> userPart = trimmed \<or> userPart = allowedUser)) allowList)"

definition IsAllowedSender :: "string list \<Rightarrow> sender_info \<Rightarrow> bool" where
  "IsAllowedSender allowList sender \<longleftrightarrow> allowList = [] \<or> list_ex (MatchAllowed sender) allowList"

section \<open>When the bot answers in a group\<close>

record group_trigger =
  gt_mentionOnly :: bool
  gt_prefixes :: "string list"
  gt_mentionless :: bool
  gt_commandBypass :: bool
  gt_commandPrefixes :: "string list"

definition isCommandBypassHit :: "string \<Rightarrow> string list \<Rightarrow> bool" where
  "isCommandBypassHit s prefixes0 =
     (s \<noteq> [] \<and> list_ex (\<lambda>p0. let p = TrimSpace p0 in p \<noteq> [] \<and> HasPrefix s p \<and> length s > length p)
                  (if prefixes0 = [] then [''/''] else prefixes0))"

definition ShouldRespondInGroup :: "group_trigger \<Rightarrow> bool \<Rightarrow> string \<Rightarrow> bool \<times> string" where
  "ShouldRespondInGroup gt isMentioned s =
     (let trimmed = TrimSpace s in
      if isMentioned then (True, trimmed)
      else if gt_commandBypass gt \<and> isCommandBypassHit trimmed (gt_commandPrefixes gt) then (True, trimmed)
      else if gt_mentionOnly gt then (False, s)
      else if gt_prefixes gt \<noteq> [] then
        (case find (\<lambda>p. p \<noteq> [] \<and> HasPrefix trimmed p) (gt_prefixes gt) of
           Some p \<Rightarrow> (True, TrimSpace (TrimPrefix trimmed p))
         | None \<Rightarrow> (False, s))
      else if gt_mentionless gt then (True, trimmed)
      else (False, s))"

section \<open>Errors of sending\<close>

datatype sentinel = ErrNotRunning | ErrRateLimit | ErrTemporary | ErrSendFailed

text \<open>An error with the sentinels it wraps (\<^verbatim>\<open>errors.Is\<close>).\<close>

record send_error =
  se_is :: "sentinel list"
  se_text :: string

definition sentinel_text :: "sentinel \<Rightarrow> string" where
  "sentinel_text s = (case s of ErrNotRunning \<Rightarrow> ''channel not running'' | ErrRateLimit \<Rightarrow> ''rate limited''
     | ErrTemporary \<Rightarrow> ''temporary failure'' | ErrSendFailed \<Rightarrow> ''send failed'')"

definition wrap_error :: "sentinel \<Rightarrow> sentinel list \<Rightarrow> send_error \<Rightarrow> send_error" where
  "wrap_error s inner e = \<lparr>se_is = s # inner, se_text = sentinel_text s @ '': '' @ se_text e\<rparr>"

definition ClassifySendError :: "int \<Rightarrow> send_error \<Rightarrow> send_error" where
  "ClassifySendError statusCode rawErr =
     (if statusCode = 429 then wrap_error ErrRateLimit [] rawErr
      else if statusCode \<ge> 500 then wrap_error ErrTemporary (se_is rawErr) rawErr
      else if statusCode \<ge> 400 then wrap_error ErrSendFailed (se_is rawErr) rawErr
      else rawErr)"

definition ClassifyNetError :: "send_error option \<Rightarrow> send_error option" where
  "ClassifyNetError err = map_option (\<lambda>e. wrap_error ErrTemporary (se_is e) e) err"

section \<open>Retries\<close>

definition maxSendRetries :: nat where "maxSendRetries = 3"
definition rateLimitDelay :: duration where "rateLimitDelay = nsSecond"
definition baseBackoff :: duration where "baseBackoff = 500 * nsMillisecond"
definition maxBackoff :: duration where "maxBackoff = 8 * nsSecond"

datatype send_result = Delivered string | GaveUp send_error | Canceled

definition permanent :: "send_error \<Rightarrow> bool" where
  "permanent e \<longleftrightarrow> ErrNotRunning \<in> set (se_is e) \<or> ErrSendFailed \<in> set (se_is e)"

definition retry_delay :: "nat \<Rightarrow> send_error \<Rightarrow> duration" where
  "retry_delay attempt e =
     (if ErrRateLimit \<in> set (se_is e) then rateLimitDelay else min (baseBackoff * 2 ^ attempt) maxBackoff)"

text \<open>The outcome of every attempt (the id of the platform message, empty when the channel gives none), and
  whether the context ends during the wait after it.  The result comes with the number of attempts and the waits.\<close>

fun retry_from :: "nat \<Rightarrow> nat \<Rightarrow> (nat \<Rightarrow> send_error + string) \<Rightarrow> (nat \<Rightarrow> bool) \<Rightarrow> send_result \<times> nat \<times> duration list" where
  "retry_from left attempt sendFn canceled =
     (case sendFn attempt of
        Inr i \<Rightarrow> (Delivered i, Suc attempt, [])
      | Inl e \<Rightarrow>
          if permanent e then (GaveUp e, Suc attempt, [])
          else case left of
            0 \<Rightarrow> (GaveUp e, Suc attempt, [])
          | Suc n \<Rightarrow>
              if canceled attempt then (Canceled, Suc attempt, [])
              else let (r, k, ws) = retry_from n (Suc attempt) sendFn canceled in (r, k, retry_delay attempt e # ws))"

definition retryWithBackoff :: "(nat \<Rightarrow> send_error + string) \<Rightarrow> (nat \<Rightarrow> bool) \<Rightarrow> send_result \<times> nat \<times> duration list" where
  "retryWithBackoff sendFn canceled = retry_from maxSendRetries 0 sendFn canceled"


section \<open>The manager\<close>

record out_message =
  om_chat :: string
  om_content :: string
  om_session :: string

datatype chan_effect =
    StopTyping nat
  | UndoReaction nat
  | Edited string string string           \<comment> \<open>chat, message, text\<close>
  | EditFailed string string
  | Sent string string
  | SendFailed string string send_result

record chan_state =
  ch_typing :: "(string \<times> nat \<times> gtime) list"
  ch_reactions :: "(string \<times> nat \<times> gtime) list"
  ch_placeholders :: "(string \<times> string \<times> gtime) list"
  ch_scheduled :: "(string \<times> int \<times> gtime) list"
  ch_seq :: int
  ch_replies :: reply_store
  ch_log :: "chan_effect list"

definition typingStopTTL :: duration where "typingStopTTL = 5 * 60 * nsSecond"
definition placeholderTTL :: duration where "placeholderTTL = 10 * 60 * nsSecond"

definition conversation :: "string \<Rightarrow> string \<Rightarrow> string" where
  "conversation channel chatID = channel @ '':'' @ chatID"

definition note_effects :: "chan_effect list \<Rightarrow> chan_state \<Rightarrow> chan_state" where
  "note_effects es st = st\<lparr>ch_log := ch_log st @ es\<rparr>"

definition RecordTypingStop :: "gtime \<Rightarrow> string \<Rightarrow> string \<Rightarrow> nat \<Rightarrow> chan_state \<Rightarrow> chan_state" where
  "RecordTypingStop now channel chatID stop st =
     st\<lparr>ch_typing := AList.update (conversation channel chatID) (stop, now) (ch_typing st)\<rparr>"

definition RecordReactionUndo :: "gtime \<Rightarrow> string \<Rightarrow> string \<Rightarrow> nat \<Rightarrow> chan_state \<Rightarrow> chan_state" where
  "RecordReactionUndo now channel chatID undo st =
     st\<lparr>ch_reactions := AList.update (conversation channel chatID) (undo, now) (ch_reactions st)\<rparr>"

definition RecordPlaceholder :: "gtime \<Rightarrow> string \<Rightarrow> string \<Rightarrow> string \<Rightarrow> chan_state \<Rightarrow> chan_state" where
  "RecordPlaceholder now channel chatID placeholderID st =
     st\<lparr>ch_placeholders := AList.update (conversation channel chatID) (placeholderID, now) (ch_placeholders st)\<rparr>"

definition CancelPlaceholder :: "string \<Rightarrow> string \<Rightarrow> chan_state \<Rightarrow> chan_state" where
  "CancelPlaceholder channel0 chatID0 st =
     (let channel = TrimSpace channel0; chatID = TrimSpace chatID0 in
      if channel = [] \<or> chatID = [] then st
      else st\<lparr>ch_scheduled := AList.delete (conversation channel chatID) (ch_scheduled st)\<rparr>)"

text \<open>The id the platform gives the placeholder, when it is sent at once.\<close>

definition record_sent :: "gtime \<Rightarrow> string \<Rightarrow> string \<Rightarrow> string option \<Rightarrow> chan_state \<Rightarrow> chan_state" where
  "record_sent now channel chatID sent st =
     (case sent of None \<Rightarrow> st
      | Some i \<Rightarrow> if TrimSpace i = [] then st else RecordPlaceholder now channel chatID (TrimSpace i) st)"

definition SchedulePlaceholder ::
  "gtime \<Rightarrow> string \<Rightarrow> string \<Rightarrow> string option \<Rightarrow> duration \<Rightarrow> chan_state \<Rightarrow> chan_state" where
  "SchedulePlaceholder now channel0 chatID0 sent delay st =
     (let channel = TrimSpace channel0; chatID = TrimSpace chatID0 in
      if channel = [] \<or> chatID = [] then st
      else let st1 = CancelPlaceholder channel chatID st in
        if delay \<le> 0 then record_sent now channel chatID sent st1
        else let token = ch_seq st1 + 1 in
          st1\<lparr>ch_seq := token,
              ch_scheduled := AList.update (conversation channel chatID) (token, now) (ch_scheduled st1)\<rparr>)"

text \<open>The timer of a placeholder that was not cancelled.\<close>

definition placeholder_due :: "gtime \<Rightarrow> string \<Rightarrow> string \<Rightarrow> int \<Rightarrow> string option \<Rightarrow> chan_state \<Rightarrow> chan_state" where
  "placeholder_due now channel chatID token sent st =
     (case map_of (ch_scheduled st) (conversation channel chatID) of
        Some (token', t) \<Rightarrow>
          if token' = token
          then (record_sent now channel chatID sent st)
                 \<lparr>ch_scheduled := AList.delete (conversation channel chatID) (ch_scheduled st)\<rparr>
          else st
      | None \<Rightarrow> st)"

definition bindReplyContext :: "gtime \<Rightarrow> string \<Rightarrow> string \<Rightarrow> string \<Rightarrow> string \<Rightarrow> chan_state \<Rightarrow> chan_state" where
  "bindReplyContext now channel chatID messageID0 sessionKey0 st =
     (let messageID = TrimSpace messageID0; sessionKey = TrimSpace sessionKey0 in
      if messageID = [] \<or> sessionKey = [] then st
      else st\<lparr>ch_replies := BindReplyContext now channel chatID messageID sessionKey (ch_replies st)\<rparr>)"

definition stop_typing :: "string \<Rightarrow> chan_state \<Rightarrow> chan_state" where
  "stop_typing k st =
     (case map_of (ch_typing st) k of None \<Rightarrow> st
      | Some (s, t) \<Rightarrow> note_effects [StopTyping s] (st\<lparr>ch_typing := AList.delete k (ch_typing st)\<rparr>))"

definition undo_reaction :: "string \<Rightarrow> chan_state \<Rightarrow> chan_state" where
  "undo_reaction k st =
     (case map_of (ch_reactions st) k of None \<Rightarrow> st
      | Some (u, t) \<Rightarrow> note_effects [UndoReaction u] (st\<lparr>ch_reactions := AList.delete k (ch_reactions st)\<rparr>))"

text \<open>\<open>edit\<close>: editing a message of the platform, when the channel can; the flag says that nothing is left to send.\<close>

definition preSend ::
  "(string \<Rightarrow> string \<Rightarrow> string \<Rightarrow> bool) option \<Rightarrow> gtime \<Rightarrow> string \<Rightarrow> out_message \<Rightarrow> chan_state \<Rightarrow> chan_state \<times> bool" where
  "preSend edit now name msg st0 =
     (let k = conversation name (om_chat msg);
          st = undo_reaction k (stop_typing k (CancelPlaceholder name (om_chat msg) st0)) in
      case map_of (ch_placeholders st) k of
        None \<Rightarrow> (st, False)
      | Some (i, t) \<Rightarrow>
          let st' = st\<lparr>ch_placeholders := AList.delete k (ch_placeholders st)\<rparr> in
          if i = [] then (st', False)
          else (case edit of None \<Rightarrow> (st', False)
                | Some editor \<Rightarrow>
                    if editor (om_chat msg) i (om_content msg)
                    then (note_effects [Edited (om_chat msg) i (om_content msg)]
                            (bindReplyContext now name (om_chat msg) i (om_session msg) st'), True)
                    else (note_effects [EditFailed (om_chat msg) i] st', False)))"

section \<open>The worker of a channel\<close>

record channel_env =
  ce_name :: string
  ce_maxLen :: int                                        \<comment> \<open>0: no limit\<close>
  ce_edit :: "(string \<Rightarrow> string \<Rightarrow> string \<Rightarrow> bool) option"
  ce_send :: "nat \<Rightarrow> nat \<Rightarrow> send_error + string"           \<comment> \<open>of the message and its attempt\<close>
  ce_canceled :: "nat \<Rightarrow> nat \<Rightarrow> bool"
  ce_limited :: "nat \<Rightarrow> bool"                              \<comment> \<open>the limiter gives up, the context being over\<close>

definition sendWithRetry :: "channel_env \<Rightarrow> gtime \<Rightarrow> nat \<Rightarrow> out_message \<Rightarrow> chan_state \<Rightarrow> chan_state" where
  "sendWithRetry e now i msg st =
     (if ce_limited e i then st
      else case preSend (ce_edit e) now (ce_name e) msg st of
        (st1, True) \<Rightarrow> st1
      | (st1, False) \<Rightarrow>
          (case fst (retryWithBackoff (ce_send e i) (ce_canceled e i)) of
             Delivered mid \<Rightarrow> note_effects [Sent (om_chat msg) (om_content msg)]
                                (bindReplyContext now (ce_name e) (om_chat msg) mid (om_session msg) st1)
           | r \<Rightarrow> note_effects [SendFailed (om_chat msg) (om_content msg) r] st1))"

fun send_chunks :: "channel_env \<Rightarrow> gtime \<Rightarrow> nat \<Rightarrow> out_message \<Rightarrow> string list \<Rightarrow> chan_state \<Rightarrow> chan_state" where
  "send_chunks e now i msg [] st = st"
| "send_chunks e now i msg (c # cs) st =
     send_chunks e now (Suc i) msg cs (sendWithRetry e now i (msg\<lparr>om_content := c\<rparr>) st)"

text \<open>One message of the queue; \<open>None\<close>: the splitter is still running.\<close>

definition run_worker_message :: "nat \<Rightarrow> channel_env \<Rightarrow> gtime \<Rightarrow> nat \<Rightarrow> out_message \<Rightarrow> chan_state \<Rightarrow> chan_state option" where
  "run_worker_message fuel e now i msg st =
     (if ce_maxLen e > 0 \<and> int (length (om_content msg)) > ce_maxLen e
      then map_option (\<lambda>chunks. send_chunks e now i msg chunks st) (split_message fuel (om_content msg) (ce_maxLen e))
      else Some (sendWithRetry e now i msg st))"

section \<open>The janitor and the dispatcher\<close>

definition expired :: "duration \<Rightarrow> gtime \<Rightarrow> (string \<times> 'a \<times> gtime) \<Rightarrow> bool" where
  "expired ttl now = (\<lambda>(k, x, created). TSub now created > ttl)"

text \<open>The janitor goes over the entries as \<^verbatim>\<open>Range\<close> shows them: one visit removes whatever then stands under
  the key and calls the function of the entry that was shown.  \<open>evictStaleEntries\<close> takes all visits of a round as one
  step (\<open>evict_visits\<close>: they come to this when nothing happens in between; \<open>eviction_race\<close>: what a message may
  lose otherwise).\<close>

definition evict_typing_visit :: "gtime \<Rightarrow> string \<times> nat \<times> gtime \<Rightarrow> chan_state \<Rightarrow> chan_state" where
  "evict_typing_visit now entry st =
     (case entry of (k, s, created) \<Rightarrow>
        if expired typingStopTTL now entry \<and> map_of (ch_typing st) k \<noteq> None
        then note_effects [StopTyping s] (st\<lparr>ch_typing := AList.delete k (ch_typing st)\<rparr>)
        else st)"

definition evictStaleEntries :: "gtime \<Rightarrow> chan_state \<Rightarrow> chan_state" where
  "evictStaleEntries now st =
     note_effects (map (\<lambda>(k, s, t). StopTyping s) (filter (expired typingStopTTL now) (ch_typing st))
                   @ map (\<lambda>(k, u, t). UndoReaction u) (filter (expired typingStopTTL now) (ch_reactions st)))
       (st\<lparr>ch_typing := filter (\<lambda>x. \<not> expired typingStopTTL now x) (ch_typing st),
           ch_reactions := filter (\<lambda>x. \<not> expired typingStopTTL now x) (ch_reactions st),
           ch_placeholders := filter (\<lambda>x. \<not> expired placeholderTTL now x) (ch_placeholders st)\<rparr>)"

text \<open>Where a message of the bus goes: to the queue of its channel, or nowhere.\<close>

datatype dispatch = Skipped | UnknownChannel | NoWorker | Queued string

definition dispatch_to :: "string list \<Rightarrow> string list \<Rightarrow> string \<Rightarrow> dispatch" where
  "dispatch_to chans active channel =
     (if IsInternalChannel channel then Skipped
      else if channel \<notin> set chans then UnknownChannel
      else if channel \<in> set active then Queued channel else NoWorker)"

text \<open>\<open>stopped\<close>: the context ends while the queue is full; \<open>gone\<close>: the queue is closed meanwhile.\<close>

definition SendToChannel :: "string list \<Rightarrow> string list \<Rightarrow> bool \<Rightarrow> bool \<Rightarrow> string \<Rightarrow> string \<Rightarrow> string \<Rightarrow> send_error + out_message" where
  "SendToChannel chans active stopped gone channelName chatID body =
     (let msg = \<lparr>om_chat = chatID, om_content = body, om_session = []\<rparr>;
          inactive = Inl \<lparr>se_is = [ErrNotRunning],
            se_text = sentinel_text ErrNotRunning @ '': channel '' @ channelName @ '' has no active worker''\<rparr>
      in if channelName \<notin> set chans then Inl \<lparr>se_is = [], se_text = ''channel '' @ channelName @ '' not found''\<rparr>
         else if channelName \<notin> set active then inactive
         else if stopped then Inl \<lparr>se_is = [], se_text = ''context canceled''\<rparr>
         else if gone then inactive
         else Inr msg)"

definition sendMediaWithRetry :: "bool \<Rightarrow> bool \<Rightarrow> (nat \<Rightarrow> send_error option) \<Rightarrow> (nat \<Rightarrow> bool) \<Rightarrow> send_result option" where
  "sendMediaWithRetry supportsMedia limited sendFn canceled =
     (if \<not> supportsMedia \<or> limited then None
      else Some (fst (retryWithBackoff (\<lambda>a. case sendFn a of None \<Rightarrow> Inr [] | Some e \<Rightarrow> Inl e) canceled)))"

definition BuildMediaScope :: "string \<Rightarrow> string \<Rightarrow> string \<Rightarrow> string \<Rightarrow> string" where
  "BuildMediaScope unique channel chatID messageID =
     channel @ '':'' @ chatID @ '':'' @ (if messageID = [] then unique else messageID)"

section \<open>A message from the platform\<close>

record base_channel =
  bc_name :: string
  bc_allow :: "string list"
  bc_delay :: duration

text \<open>What the channel can do and what came of it: the stop function of typing, the undo function of a reaction,
  and the placeholder, whose id counts only when it is sent at once.\<close>

record indicators =
  id_typing :: "nat option"
  id_reaction :: "nat option"
  id_placeholder :: "string option option"

definition start_indicators :: "base_channel \<Rightarrow> gtime \<Rightarrow> string \<Rightarrow> string \<Rightarrow> indicators \<Rightarrow> chan_state \<Rightarrow> chan_state" where
  "start_indicators bc now chatID messageID ind st =
     (let st1 = (case id_typing ind of None \<Rightarrow> st | Some s \<Rightarrow> RecordTypingStop now (bc_name bc) chatID s st);
          st2 = (case id_reaction ind of None \<Rightarrow> st1
                 | Some u \<Rightarrow> if messageID = [] then st1 else RecordReactionUndo now (bc_name bc) chatID u st1)
      in case id_placeholder ind of None \<Rightarrow> st2
         | Some sent \<Rightarrow> SchedulePlaceholder now (bc_name bc) chatID sent (max 0 (bc_delay bc)) st2)"

definition HandleMessage ::
  "base_channel \<Rightarrow> gtime \<Rightarrow> peer \<Rightarrow> string \<Rightarrow> string \<Rightarrow> string \<Rightarrow> string \<Rightarrow> string list \<Rightarrow> (string \<rightharpoonup> string) \<Rightarrow> sender_info
     \<Rightarrow> indicators \<Rightarrow> chan_state \<Rightarrow> chan_state \<times> inbound_message option" where
  "HandleMessage bc now p messageID senderID chatID body med meta sender ind st =
     (let allowed = (if si_canonical sender \<noteq> [] \<or> si_platformID sender \<noteq> []
                     then IsAllowedSender (bc_allow bc) sender else IsAllowed (bc_allow bc) senderID) in
      if \<not> allowed then (st, None)
      else (start_indicators bc now chatID messageID ind st,
            Some \<lparr>im_channel = bc_name bc,
                  im_sender = (if si_canonical sender \<noteq> [] then si_canonical sender else senderID),
                  im_chat = chatID, im_content = body, im_media = med, im_peer = p, im_message = messageID,
                  im_session = [], im_metadata = meta\<rparr>))"


section \<open>Lemmas: retries\<close>

declare retry_from.simps [simp del]

lemma retry_from_step:
  "retry_from left a sendFn canceled =
     (case sendFn a of
        Inr i \<Rightarrow> (Delivered i, Suc a, [])
      | Inl e \<Rightarrow>
          if permanent e then (GaveUp e, Suc a, [])
          else if left = 0 then (GaveUp e, Suc a, [])
          else if canceled a then (Canceled, Suc a, [])
          else (let (r, k, ws) = retry_from (left - 1) (Suc a) sendFn canceled in (r, k, retry_delay a e # ws)))"
  by (subst retry_from.simps) (auto split: sum.splits nat.splits)

definition tries_ok :: "(nat \<Rightarrow> send_error + string) \<Rightarrow> (nat \<Rightarrow> bool) \<Rightarrow> nat \<Rightarrow> nat \<Rightarrow> bool" where
  "tries_ok sendFn canceled a k \<longleftrightarrow>
     list_all (\<lambda>j. case sendFn j of Inl e \<Rightarrow> \<not> permanent e \<and> \<not> canceled j | Inr _ \<Rightarrow> False) [a..<k]"

lemma retry_from_shape:
  "retry_from left a sendFn canceled = (r, k, ws) \<Longrightarrow>
     a < k \<and> k \<le> a + left + 1 \<and> length ws = k - Suc a \<and> tries_ok sendFn canceled a (k - 1)
     \<and> (case r of Delivered i \<Rightarrow> sendFn (k - 1) = Inr i
        | GaveUp e \<Rightarrow> sendFn (k - 1) = Inl e \<and> (permanent e \<or> k = a + left + 1)
        | Canceled \<Rightarrow> (\<exists>e. sendFn (k - 1) = Inl e) \<and> canceled (k - 1))"
proof (induction left arbitrary: a r k ws)
  case 0
  then show ?case by (subst (asm) retry_from_step) (auto simp: tries_ok_def split: sum.splits if_splits)
next
  case (Suc n)
  show ?case
  proof (cases "sendFn a")
    case (Inr i)
    then show ?thesis using Suc.prems by (subst (asm) retry_from_step) (auto simp: tries_ok_def)
  next
    case (Inl e)
    show ?thesis
    proof (cases "permanent e \<or> canceled a")
      case True
      then show ?thesis using Suc.prems Inl by (subst (asm) retry_from_step) (auto simp: tries_ok_def split: if_splits)
    next
      case False
      obtain r' k' ws' where sub: "retry_from n (Suc a) sendFn canceled = (r', k', ws')" by (metis prod_cases3)
      have "retry_from (Suc n) a sendFn canceled = (r', k', retry_delay a e # ws')"
        by (subst retry_from_step) (use Inl False sub in simp)
      then have eq: "r = r'" "k = k'" "ws = retry_delay a e # ws'" using Suc.prems by simp_all
      note IH = Suc.IH[OF sub]
      have "[a..<k' - 1] = a # [Suc a..<k' - 1]" using IH by (intro upt_conv_Cons) auto
      then have "tries_ok sendFn canceled a (k' - 1)" using IH Inl False by (simp add: tries_ok_def)
      then show ?thesis using IH eq by (auto split: send_result.splits)
    qed
  qed
qed

lemma retry_delay_bounds: "0 \<le> retry_delay a e \<and> retry_delay a e \<le> max nsSecond (500 * nsMillisecond * 2 ^ a)"
  by (auto simp: retry_delay_def rateLimitDelay_def baseBackoff_def maxBackoff_def nsSecond_def nsMillisecond_def min_def max_def)

lemma retry_from_waits:
  "retry_from left a sendFn canceled = (r, k, ws) \<Longrightarrow>
     sum_list ws \<le> (\<Sum>j\<leftarrow>[a..<a + left]. max nsSecond (500 * nsMillisecond * 2 ^ j)) \<and> list_all (\<lambda>w. 0 \<le> w) ws"
proof (induction left arbitrary: a r k ws)
  case 0
  then show ?case by (subst (asm) retry_from_step) (auto split: sum.splits if_splits)
next
  case (Suc n)
  have pos: "0 \<le> (\<Sum>j\<leftarrow>[a..<a + Suc n]. max nsSecond (500 * nsMillisecond * 2 ^ j))" for a
    by (intro sum_list_nonneg) (auto simp: nsSecond_def max_def)
  have split: "[a..<a + Suc n] = a # [Suc a..<Suc a + n]" by (simp add: upt_conv_Cons)
  show ?case
  proof (cases "sendFn a")
    case (Inr i)
    then show ?thesis using Suc.prems pos[of a] by (subst (asm) retry_from_step) auto
  next
    case (Inl e)
    show ?thesis
    proof (cases "permanent e \<or> canceled a")
      case True
      then show ?thesis using Suc.prems Inl pos[of a] by (subst (asm) retry_from_step) (auto split: if_splits)
    next
      case False
      obtain r' k' ws' where sub: "retry_from n (Suc a) sendFn canceled = (r', k', ws')" by (metis prod_cases3)
      have "retry_from (Suc n) a sendFn canceled = (r', k', retry_delay a e # ws')"
        by (subst retry_from_step) (use Inl False sub in simp)
      then have eq: "ws = retry_delay a e # ws'" using Suc.prems by simp
      show ?thesis using Suc.IH[OF sub] retry_delay_bounds[of a e] unfolding split eq by simp
    qed
  qed
qed

text \<open>C30: Sending is bounded: at most four attempts and four seconds of waiting; the result is that of the last attempt, a
  permanent error is never tried again, and every attempt before the last failed with an error worth trying again.\<close>
theorem retry_bounded:
  assumes "retryWithBackoff sendFn canceled = (r, k, ws)"
  shows "1 \<le> k \<and> k \<le> 4 \<and> length ws = k - 1 \<and> sum_list ws \<le> 4 * nsSecond \<and> tries_ok sendFn canceled 0 (k - 1)
     \<and> (case r of Delivered i \<Rightarrow> sendFn (k - 1) = Inr i
        | GaveUp e \<Rightarrow> sendFn (k - 1) = Inl e \<and> (permanent e \<or> k = 4)
        | Canceled \<Rightarrow> canceled (k - 1))"
proof -
  have r: "retry_from 3 0 sendFn canceled = (r, k, ws)" using assms by (simp add: retryWithBackoff_def maxSendRetries_def)
  have "(\<Sum>j\<leftarrow>[0..<0 + 3]. max nsSecond (500 * nsMillisecond * 2 ^ j)) = 4 * nsSecond"
    by (simp add: upt_rec nsSecond_def nsMillisecond_def)
  then show ?thesis using retry_from_shape[OF r] retry_from_waits[OF r] by (auto split: send_result.splits)
qed

theorem retry_bounded_witness:
  "sum_list [nsSecond, nsSecond] \<le> 4 * nsSecond
   \<and> tries_ok (\<lambda>k. if k = 2 then Inr ''9'' else Inl \<lparr>se_is = [ErrRateLimit], se_text = []\<rparr>) (\<lambda>_. False) 0 2"
proof -
  have "retryWithBackoff (\<lambda>k. if k = 2 then Inr ''9'' else Inl \<lparr>se_is = [ErrRateLimit], se_text = []\<rparr>) (\<lambda>_. False)
      = (Delivered ''9'', 3, [nsSecond, nsSecond])"
    by (simp add: retryWithBackoff_def maxSendRetries_def retry_from_step permanent_def retry_delay_def rateLimitDelay_def)
  from retry_bounded[OF this] show ?thesis by simp
qed


section \<open>Lemmas: what reaches the chat\<close>

fun delivered :: "chan_effect list \<Rightarrow> string list" where
  "delivered [] = []"
| "delivered (Edited c i t # es) = t # delivered es"
| "delivered (Sent c t # es) = t # delivered es"
| "delivered (e # es) = delivered es"

lemma delivered_append [simp]: "delivered (xs @ ys) = delivered xs @ delivered ys"
  by (induction xs rule: delivered.induct) auto

lemma log_simps [simp]:
  "ch_log (note_effects es st) = ch_log st @ es" "ch_log (bindReplyContext now c i m s st) = ch_log st"
  "ch_log (CancelPlaceholder c i st) = ch_log st" "ch_placeholders (CancelPlaceholder c i st) = ch_placeholders st"
  "ch_placeholders (note_effects es st) = ch_placeholders st"
  "ch_placeholders (bindReplyContext now c i m s st) = ch_placeholders st"
  by (simp_all add: note_effects_def bindReplyContext_def CancelPlaceholder_def Let_def)

lemma stop_log: "delivered (ch_log (stop_typing k st)) = delivered (ch_log st)"
  "delivered (ch_log (undo_reaction k st)) = delivered (ch_log st)"
  "ch_placeholders (stop_typing k st) = ch_placeholders st" "ch_placeholders (undo_reaction k st) = ch_placeholders st"
  by (auto simp: stop_typing_def undo_reaction_def split: option.splits)

lemma preSend_delivered:
  "preSend edt now n msg st = (st', True) \<Longrightarrow> delivered (ch_log st') = delivered (ch_log st) @ [om_content msg]"
  "preSend edt now n msg st = (st', False) \<Longrightarrow> delivered (ch_log st') = delivered (ch_log st)"
  by (auto simp: preSend_def Let_def stop_log split: option.splits if_splits)

lemma preSend_no_placeholder:
  "map_of (ch_placeholders st) (conversation n (om_chat msg)) = None \<Longrightarrow>
     \<exists>st'. preSend edt now n msg st = (st', False) \<and> ch_placeholders st' = ch_placeholders st"
  by (simp add: preSend_def Let_def stop_log)

lemma send_delivered:
  assumes "\<not> ce_limited e i" "fst (retryWithBackoff (ce_send e i) (ce_canceled e i)) = Delivered mid"
  shows "delivered (ch_log (sendWithRetry e now i msg st)) = delivered (ch_log st) @ [om_content msg]"
proof (cases "preSend (ce_edit e) now (ce_name e) msg st")
  case (Pair st1 b)
  then show ?thesis using preSend_delivered[of "ce_edit e" now "ce_name e" msg st st1] assms
    by (cases b) (simp_all add: sendWithRetry_def)
qed

lemma chunks_delivered:
  assumes "\<And>i. \<not> ce_limited e i" "\<And>i. \<exists>mid. fst (retryWithBackoff (ce_send e i) (ce_canceled e i)) = Delivered mid"
  shows "delivered (ch_log (send_chunks e now i msg cs st)) = delivered (ch_log st) @ cs"
proof (induction cs arbitrary: i st)
  case (Cons c cs)
  obtain mid where "fst (retryWithBackoff (ce_send e i) (ce_canceled e i)) = Delivered mid" using assms(2) by blast
  from send_delivered[OF assms(1) this] show ?case by (simp add: Cons.IH)
qed simp

definition reaches :: "channel_env \<Rightarrow> nat \<Rightarrow> bool" where
  "reaches e i \<longleftrightarrow> (case fst (retryWithBackoff (ce_send e i) (ce_canceled e i)) of Delivered mid \<Rightarrow> True | _ \<Rightarrow> False)"

lemma send_plain:
  assumes "\<not> ce_limited e i" "map_of (ch_placeholders st) (conversation (ce_name e) (om_chat msg)) = None"
  shows "delivered (ch_log (sendWithRetry e now i msg st)) = delivered (ch_log st) @ (if reaches e i then [om_content msg] else [])
    \<and> ch_placeholders (sendWithRetry e now i msg st) = ch_placeholders st"
proof -
  obtain st1 where p: "preSend (ce_edit e) now (ce_name e) msg st = (st1, False)" "ch_placeholders st1 = ch_placeholders st"
    using preSend_no_placeholder[OF assms(2)] by blast
  show ?thesis
    using p preSend_delivered(2)[OF p(1)] assms(1) by (auto simp: sendWithRetry_def reaches_def split: send_result.splits)
qed

section \<open>Properties\<close>

text \<open>C13: An answer arrives whole: when every message can be delivered after retries, a text without a code fence
  reaches the chat as messages within the limit of the channel, in order, of which the first may be written into the
  placeholder; put together they are the text up to white space.\<close>
theorem answer_delivered:
  assumes "\<not> Contains (om_content msg) fence" "0 < ce_maxLen e" "\<And>j. \<not> ce_limited e j"
    and "\<And>j. \<exists>mid. fst (retryWithBackoff (ce_send e j) (ce_canceled e j)) = Delivered mid"
  shows "\<exists>st' new. run_worker_message (length (om_content msg)) e now i msg st = Some st'
     \<and> delivered (ch_log st') = delivered (ch_log st) @ new \<and> visible (concat new) = visible (om_content msg)
     \<and> list_all (\<lambda>m. int (length m) \<le> ce_maxLen e) new"
proof (cases "int (length (om_content msg)) > ce_maxLen e")
  case True
  have loop: "split_message f (om_content msg) (ce_maxLen e) = message_loop f (ce_maxLen e) (om_content msg) 0" for f
    using assms(2) by (simp add: split_message_def)
  obtain msgs where m: "message_loop (length (om_content msg)) (ce_maxLen e) (om_content msg) 0 = Some msgs"
    "visible (concat msgs) = visible (om_content msg)"
    using message_loop_plain[OF assms(2,1), of 0 "length (om_content msg)"] by auto
  have "list_all (\<lambda>m. int (length m) \<le> ce_maxLen e) msgs"
    using message_loop_length[OF assms(2) _ m(1)] by (auto simp: list_all_iff)
  then show ?thesis
    using m True assms(2) chunks_delivered[OF assms(3,4), of now i msg msgs st]
    by (auto simp: run_worker_message_def loop)
next
  case False
  obtain mid where "fst (retryWithBackoff (ce_send e i) (ce_canceled e i)) = Delivered mid" using assms(4) by blast
  from send_delivered[OF assms(3) this, of now msg st] show ?thesis
    using False by (auto simp: run_worker_message_def)
qed

definition ex_channel :: "(nat \<Rightarrow> nat \<Rightarrow> send_error + string) \<Rightarrow> channel_env" where
  "ex_channel f = \<lparr>ce_name = ''telegram'', ce_maxLen = 4, ce_edit = None, ce_send = f,
     ce_canceled = (\<lambda>_ _. False), ce_limited = (\<lambda>_. False)\<rparr>"

definition ex_chat_state :: chan_state where
  "ex_chat_state = \<lparr>ch_typing = [], ch_reactions = [], ch_placeholders = [], ch_scheduled = [], ch_seq = 0,
     ch_replies = [], ch_log = []\<rparr>"

definition ex_out :: out_message where
  "ex_out = \<lparr>om_chat = ''42'', om_content = ''ab cd ef'', om_session = ''conv:main''\<rparr>"

theorem answer_delivered_witness:
  "\<exists>(st' :: chan_state) (new :: string list).
     run_worker_message 8 (ex_channel (\<lambda>i k. if k = 0 then Inl \<lparr>se_is = [ErrTemporary], se_text = []\<rparr> else Inr ''9'')) 0 0
       ex_out ex_chat_state = Some st' \<and> delivered (ch_log st') = new \<and> visible (concat new) = ''abcdef''"
proof -
  let ?e = "ex_channel (\<lambda>i k. if k = 0 then Inl \<lparr>se_is = [ErrTemporary], se_text = []\<rparr> else Inr ''9'')"
  have d: "\<exists>mid. fst (retryWithBackoff (ce_send ?e j) (ce_canceled ?e j)) = Delivered mid" for j
    by (simp add: ex_channel_def retryWithBackoff_def maxSendRetries_def retry_from_step permanent_def)
  have v: "visible (om_content ex_out) = ''abcdef''" unfolding ex_out_def by code_simp
  have f: "\<not> Contains (om_content ex_out) fence" "0 < ce_maxLen ?e" "\<not> ce_limited ?e j"
    "length (om_content ex_out) = 8" "delivered (ch_log ex_chat_state) = []" for j
    by (simp_all add: ex_out_def ex_channel_def ex_chat_state_def Contains_def HasPrefix_def fence_def)
  show ?thesis using answer_delivered[OF f(1,2,3) d, of 0 0 ex_chat_state] unfolding f(4,5) v by auto
qed

text \<open>A message that cannot be delivered leaves a gap: of the parts of an answer exactly those whose own sending
  fails are missing, and the parts after them are sent all the same.\<close>
theorem failed_part_leaves_gap:
  assumes "\<And>j. \<not> ce_limited e j" "map_of (ch_placeholders st) (conversation (ce_name e) (om_chat msg)) = None"
  shows "delivered (ch_log (send_chunks e now i msg cs st))
    = delivered (ch_log st) @ map snd (filter (\<lambda>(j, c). reaches e j) (enumerate i cs))"
  using assms(2)
proof (induction cs arbitrary: i st)
  case (Cons c cs)
  let ?st = "sendWithRetry e now i (msg\<lparr>om_content := c\<rparr>) st"
  have s: "delivered (ch_log ?st) = delivered (ch_log st) @ (if reaches e i then [c] else [])"
    "ch_placeholders ?st = ch_placeholders st"
    using send_plain[of e i st "msg\<lparr>om_content := c\<rparr>" now] assms(1) Cons.prems by simp_all
  have "map_of (ch_placeholders ?st) (conversation (ce_name e) (om_chat msg)) = None" using Cons.prems s(2) by simp
  from Cons.IH[OF this, of "Suc i"] show ?case using s(1) by simp
qed simp

theorem failed_part_leaves_gap_witness:
  "delivered (ch_log (send_chunks (ex_channel (\<lambda>i k. if i = 1 then Inl \<lparr>se_is = [ErrSendFailed], se_text = []\<rparr> else Inr ''9'')) 0 0
      ex_out [''ab'', ''cd'', ''ef''] ex_chat_state)) = [''ab'', ''ef'']"
proof -
  let ?e = "ex_channel (\<lambda>i k. if i = 1 then Inl \<lparr>se_is = [ErrSendFailed], se_text = []\<rparr> else Inr ''9'')"
  have "reaches ?e j = (j \<noteq> 1)" for j
    by (simp add: reaches_def ex_channel_def retryWithBackoff_def maxSendRetries_def retry_from_step permanent_def)
  then show ?thesis
    using failed_part_leaves_gap[of ?e ex_chat_state ex_out 0 0 "[''ab'', ''cd'', ''ef'']"]
    by (simp add: ex_chat_state_def ex_channel_def)
qed


section \<open>Indicators that are never stopped\<close>

text \<open>What happens to the manager, except that the stop function \<open>s\<close> is recorded again.\<close>

inductive chan_step :: "nat \<Rightarrow> chan_state \<Rightarrow> chan_state \<Rightarrow> bool" for s where
  inbound: "id_typing ind \<noteq> Some s \<Longrightarrow> chan_step s st (start_indicators bc now chatID messageID ind st)"
| timer: "chan_step s st (placeholder_due now channel chatID token sent st)"
| outbound: "chan_step s st (sendWithRetry e now i msg st)"
| janitor: "chan_step s st (evictStaleEntries now st)"

definition not_stopped :: "nat \<Rightarrow> chan_state \<Rightarrow> bool" where
  "not_stopped s st \<longleftrightarrow> distinct (map fst (ch_typing st)) \<and> StopTyping s \<notin> set (ch_log st)
     \<and> (\<forall>k s' t. (k, s', t) \<in> set (ch_typing st) \<longrightarrow> s' \<noteq> s)"

lemma set_alist_update: "(k', v') \<in> set (AList.update k v xs) \<Longrightarrow> (k', v') = (k, v) \<or> (k', v') \<in> set xs"
  by (induction xs) (auto split: if_splits)

lemma update_keeps:
  assumes "(k', v') \<in> set (AList.update k v xs)" "distinct (map fst xs)"
  shows "(k', v') = (k, v) \<or> k' \<noteq> k \<and> (k', v') \<in> set xs"
proof -
  have "map_of (AList.update k v xs) k' = Some v'" using assms by (simp add: distinct_update)
  then show ?thesis by (auto simp: update_conv' split: if_splits dest: map_of_SomeD)
qed

lemma not_stopped_typing:
  "not_stopped s st \<Longrightarrow> s' \<noteq> s \<Longrightarrow> not_stopped s (RecordTypingStop now c i s' st)"
  unfolding not_stopped_def RecordTypingStop_def by (auto simp: distinct_update dest: set_alist_update)

lemma typing_unchanged:
  assumes "not_stopped s st" "ch_typing st' = ch_typing st" "ch_log st' = ch_log st"
  shows "not_stopped s st'"
  using assms by (simp add: not_stopped_def)

lemma record_unchanged [simp]:
  "ch_typing (RecordReactionUndo now c i u st) = ch_typing st" "ch_log (RecordReactionUndo now c i u st) = ch_log st"
  "ch_typing (RecordPlaceholder now c i p st) = ch_typing st" "ch_log (RecordPlaceholder now c i p st) = ch_log st"
  "ch_typing (CancelPlaceholder c i st) = ch_typing st" "ch_typing (bindReplyContext now c i m sk st) = ch_typing st"
  "ch_typing (note_effects es st) = ch_typing st"
  by (simp_all add: RecordReactionUndo_def RecordPlaceholder_def CancelPlaceholder_def bindReplyContext_def note_effects_def Let_def)

lemma record_sent_unchanged [simp]:
  "ch_typing (record_sent now c i p st) = ch_typing st" "ch_log (record_sent now c i p st) = ch_log st"
  by (simp_all add: record_sent_def split: option.splits)

lemma schedule_unchanged [simp]:
  "ch_typing (SchedulePlaceholder now c i p d st) = ch_typing st" "ch_log (SchedulePlaceholder now c i p d st) = ch_log st"
  by (simp_all add: SchedulePlaceholder_def Let_def)

lemma not_stopped_stop_typing: "not_stopped s st \<Longrightarrow> not_stopped s (stop_typing k st)"
  by (auto simp: not_stopped_def stop_typing_def note_effects_def distinct_delete dest: map_of_SomeD
      split: option.splits) (auto simp: AList.delete_eq)

lemma not_stopped_effects:
  "not_stopped s st \<Longrightarrow> StopTyping s \<notin> set es \<Longrightarrow> not_stopped s (note_effects es st)"
  by (simp add: not_stopped_def note_effects_def)

lemma not_stopped_undo: "not_stopped s st \<Longrightarrow> not_stopped s (undo_reaction k st)"
  by (auto simp: undo_reaction_def not_stopped_def note_effects_def split: option.splits)

lemma not_stopped_preSend: "not_stopped s st \<Longrightarrow> not_stopped s (fst (preSend edt now n msg st))"
proof -
  assume a: "not_stopped s st"
  let ?k = "conversation n (om_chat msg)"
  let ?st = "undo_reaction ?k (stop_typing ?k (CancelPlaceholder n (om_chat msg) st))"
  have "not_stopped s (CancelPlaceholder n (om_chat msg) st)" by (rule typing_unchanged[OF a]) simp_all
  then have b: "not_stopped s ?st" by (intro not_stopped_undo not_stopped_stop_typing)
  then have c: "not_stopped s (?st\<lparr>ch_placeholders := x\<rparr>)" for x by (rule typing_unchanged) simp_all
  have d: "not_stopped s (bindReplyContext now n (om_chat msg) i sk (?st\<lparr>ch_placeholders := x\<rparr>))" for x i sk
    by (rule typing_unchanged[OF c]) simp_all
  show ?thesis unfolding preSend_def Let_def
    using b c d by (auto intro!: not_stopped_effects split: option.splits if_splits)
qed

lemma not_stopped_send: "not_stopped s st \<Longrightarrow> not_stopped s (sendWithRetry e now i msg st)"
proof -
  assume a: "not_stopped s st"
  obtain st1 b where p: "preSend (ce_edit e) now (ce_name e) msg st = (st1, b)" by fastforce
  have q: "not_stopped s st1" using not_stopped_preSend[OF a, of "ce_edit e" now "ce_name e" msg] p by simp
  have "not_stopped s (bindReplyContext now (ce_name e) (om_chat msg) mid (om_session msg) st1)" for mid
    by (rule typing_unchanged[OF q]) simp_all
  then show ?thesis using a p q
    by (auto simp: sendWithRetry_def intro!: not_stopped_effects split: bool.splits send_result.splits)
qed

lemma not_stopped_janitor: "not_stopped s st \<Longrightarrow> not_stopped s (evictStaleEntries now st)"
  unfolding evictStaleEntries_def
  by (intro not_stopped_effects)
    (auto simp: not_stopped_def distinct_map_filter)

lemma not_stopped_step: "chan_step s st st' \<Longrightarrow> not_stopped s st \<Longrightarrow> not_stopped s st'"
proof (induction rule: chan_step.cases)
  case (inbound ind st bc now chatID messageID)
  let ?st1 = "case id_typing ind of None \<Rightarrow> st | Some s \<Rightarrow> RecordTypingStop now (bc_name bc) chatID s st"
  have "not_stopped s ?st1" using inbound by (auto intro: not_stopped_typing split: option.splits)
  then show ?case unfolding inbound(2) by (rule typing_unchanged) (simp_all add: start_indicators_def Let_def split: option.splits)
next
  case (timer now channel chatID token sent st)
  then show ?case by (auto intro: typing_unchanged simp: placeholder_due_def split: option.splits)
next
  case (outbound e now i msg)
  then show ?case by (auto intro: not_stopped_send)
next
  case (janitor now)
  then show ?case by (auto intro: not_stopped_janitor)
qed

lemma evict_visits:
  assumes "distinct (map fst (ch_typing st))" "set xs \<subseteq> set (ch_typing st)" "distinct (map fst xs)"
  shows "fold (evict_typing_visit now) xs st
    = note_effects (map (\<lambda>(k, s, t). StopTyping s) (filter (expired typingStopTTL now) xs))
        (st\<lparr>ch_typing := filter (\<lambda>x. \<not> (expired typingStopTTL now x \<and> x \<in> set xs)) (ch_typing st)\<rparr>)"
  using assms
proof (induction xs arbitrary: st)
  case Nil
  then show ?case by (simp add: note_effects_def)
next
  case (Cons x xs)
  obtain k s t where x: "x = (k, s, t)" using prod_cases3 by blast
  have m: "x \<in> set (ch_typing st)" and k: "k \<notin> fst ` set xs" using Cons.prems x by auto
  let ?st = "evict_typing_visit now x st"
  have same: "y = x" if "y \<in> set (ch_typing st)" "fst y = k" for y
    using that m x Cons.prems(1) by (metis eq_key_imp_eq_value fst_conv prod.collapse)
  show ?case
  proof (cases "expired typingStopTTL now x")
    case True
    have d: "AList.delete k (ch_typing st) = filter (\<lambda>y. y \<noteq> x) (ch_typing st)"
      unfolding AList.delete_eq using same x by (intro filter_cong) auto
    have st: "?st = note_effects [StopTyping s] (st\<lparr>ch_typing := filter (\<lambda>y. y \<noteq> x) (ch_typing st)\<rparr>)"
      using True x m d by (auto simp: evict_typing_visit_def dest: weak_map_of_SomeI)
    have "fold (evict_typing_visit now) xs ?st = note_effects (map (\<lambda>(k, s, t). StopTyping s) (filter (expired typingStopTTL now) xs))
        (?st\<lparr>ch_typing := filter (\<lambda>x. \<not> (expired typingStopTTL now x \<and> x \<in> set xs)) (ch_typing ?st)\<rparr>)"
      unfolding st by (rule Cons.IH) (use Cons.prems in \<open>auto simp: distinct_map_filter\<close>)
    moreover have "filter (\<lambda>z. (expired typingStopTTL now z \<longrightarrow> z \<notin> set xs) \<and> z \<noteq> x) (ch_typing st)
        = filter (\<lambda>z. expired typingStopTTL now z \<longrightarrow> z \<noteq> x \<and> z \<notin> set xs) (ch_typing st)"
      using True by (intro filter_cong) auto
    ultimately show ?thesis using True unfolding st by (simp add: x st[unfolded x] note_effects_def conj_commute)
  next
    case False
    then have "?st = st" using x by (simp add: evict_typing_visit_def)
    moreover have "filter (\<lambda>z. \<not> (expired typingStopTTL now z \<and> z \<in> set xs)) (ch_typing st)
        = filter (\<lambda>z. \<not> (expired typingStopTTL now z \<and> z \<in> set (x # xs))) (ch_typing st)"
      using False by (intro filter_cong) auto
    ultimately show ?thesis using Cons.IH[of st] Cons.prems False by simp
  qed
qed

text \<open>A visit that was shown the entry of an earlier message and comes after a new one: the new entry is
  removed, the old function is called, and the new one never will be.\<close>

lemma eviction_race:
  assumes "expired typingStopTTL now (conversation c i, s, created)"
  shows "evict_typing_visit now (conversation c i, s, created) (RecordTypingStop now c i s2 st)
    = note_effects [StopTyping s] (st\<lparr>ch_typing := AList.delete (conversation c i) (ch_typing st)\<rparr>)"
  using assms by (simp add: evict_typing_visit_def RecordTypingStop_def update_conv' delete_update_same)

text \<open>C39: A second message of a chat before the first is answered loses the stop function of the first typing indicator: no
  answer, timer, message or round of the janitor ever calls it, so the indicator of the first message goes on until
  the process ends.\<close>
theorem overwritten_typing_never_stopped:
  assumes "distinct (map fst (ch_typing st))" "StopTyping s \<notin> set (ch_log st)"
    and "list_all (\<lambda>(k, s', t). s' = s \<longrightarrow> k = conversation (bc_name bc) chatID) (ch_typing st)"
    and "id_typing ind = Some s2" "s2 \<noteq> s"
    and "(chan_step s)\<^sup>*\<^sup>* (start_indicators bc now chatID messageID ind st) st'"
  shows "StopTyping s \<notin> set (ch_log st')"
proof -
  let ?k = "conversation (bc_name bc) chatID"
  let ?st1 = "RecordTypingStop now (bc_name bc) chatID s2 st"
  have "not_stopped s ?st1"
    using assms(1-3,5) unfolding not_stopped_def RecordTypingStop_def
    by (auto simp: distinct_update list_all_iff dest!: update_keeps)
  then have "not_stopped s (start_indicators bc now chatID messageID ind st)"
    by (rule typing_unchanged) (simp_all add: start_indicators_def assms(4) Let_def split: option.splits)
  with assms(6) have "not_stopped s st'" by (induction rule: rtranclp_induct) (auto intro: not_stopped_step)
  then show ?thesis by (simp add: not_stopped_def)
qed

theorem overwritten_typing_never_stopped_witness:
  "StopTyping 3 \<notin> set (ch_log (evictStaleEntries (10 * 60 * nsSecond)
     (start_indicators \<lparr>bc_name = ''telegram'', bc_allow = [], bc_delay = 0\<rparr> 0 ''42'' ''m2''
        \<lparr>id_typing = Some 4, id_reaction = None, id_placeholder = None\<rparr>
        (RecordTypingStop 0 ''telegram'' ''42'' 3 ex_chat_state))))"
proof -
  let ?ind = "\<lparr>id_typing = Some 4, id_reaction = None, id_placeholder = None\<rparr>"
  let ?bc = "\<lparr>bc_name = ''telegram'', bc_allow = [], bc_delay = 0\<rparr>"
  let ?st = "start_indicators ?bc 0 ''42'' ''m2'' ?ind (RecordTypingStop 0 ''telegram'' ''42'' 3 ex_chat_state)"
  have r: "(chan_step 3)\<^sup>*\<^sup>* ?st (evictStaleEntries (10 * 60 * nsSecond) ?st)"
    by (rule r_into_rtranclp) (rule chan_step.janitor)
  show ?thesis
    by (rule overwritten_typing_never_stopped[where ?s2.0 = 4, OF _ _ _ _ _ r]) (simp_all add: RecordTypingStop_def ex_chat_state_def)
qed

section \<open>The allow list\<close>

text \<open>An entry in canonical form names exactly one account: it lets in a sender whose canonical id is known only if
  that id is the entry's, up to case, whatever the sender's user name and platform id are.\<close>
theorem canonical_entry_exact:
  assumes "ParseCanonicalID (TrimSpace entry) = Some (platform, i)" "\<not> isNumeric platform"
    and "BuildCanonicalID platform i \<noteq> []" "si_canonical sender \<noteq> []"
  shows "MatchAllowed sender entry \<longleftrightarrow> EqualFold (si_canonical sender) (BuildCanonicalID platform i)"
proof -
  have "TrimSpace entry \<noteq> []" using assms(1) by (auto simp: ParseCanonicalID_def Let_def)
  then show ?thesis using assms by (simp add: MatchAllowed_def Let_def)
qed

theorem canonical_entry_exact_witness:
  "\<not> MatchAllowed \<lparr>si_platform = ''telegram'', si_platformID = ''7'', si_canonical = ''telegram:7'', si_username = ''8''\<rparr> ''telegram:8''"
proof -
  have "ParseCanonicalID (TrimSpace ''telegram:8'') = Some (''telegram'', ''8'')" "\<not> isNumeric ''telegram''"
    "BuildCanonicalID ''telegram'' ''8'' = ''telegram:8''" "\<not> EqualFold ''telegram:7'' ''telegram:8''"
    by code_simp+
  then show ?thesis
    using canonical_entry_exact[of "''telegram:8''" "''telegram''" "''8''"
      "\<lparr>si_platform = ''telegram'', si_platformID = ''7'', si_canonical = ''telegram:7'', si_username = ''8''\<rparr>"] by simp
qed

lemma compound_entry_lets_in_namesake:
  "MatchAllowed \<lparr>si_platform = ''telegram'', si_platformID = ''999'', si_canonical = ''telegram:999'', si_username = ''alice''\<rparr> ''123|alice''"
  by code_simp

text \<open>When the group trigger lets a message through.\<close>

definition triggered :: "group_trigger \<Rightarrow> bool \<Rightarrow> string \<Rightarrow> bool" where
  "triggered gt isMentioned s \<longleftrightarrow>
     isMentioned \<or> gt_commandBypass gt \<and> isCommandBypassHit (TrimSpace s) (gt_commandPrefixes gt)
     \<or> \<not> gt_mentionOnly gt
        \<and> (if gt_prefixes gt = [] then gt_mentionless gt
           else list_ex (\<lambda>p. p \<noteq> [] \<and> HasPrefix (TrimSpace s) p) (gt_prefixes gt))"

lemma group_trigger_exact: "fst (ShouldRespondInGroup gt isMentioned s) = triggered gt isMentioned s"
  by (auto simp: ShouldRespondInGroup_def triggered_def Let_def find_None_iff find_Some_iff list_ex_iff split: option.splits)


section \<open>From an answer to the reply to it\<close>

text \<open>A channel that can edit, and a chat with a placeholder.\<close>

definition ex_editor :: channel_env where
  "ex_editor = (ex_channel (\<lambda>i k. Inr ''10''))\<lparr>ce_edit := Some (\<lambda>chat mid text. True)\<rparr>"

definition ex_waiting :: chan_state where
  "ex_waiting = ex_chat_state\<lparr>ch_placeholders := [(''telegram:42'', ''9'', 0)]\<rparr>"

lemma replies_simps [simp]:
  "ch_replies (note_effects es st) = ch_replies st" "ch_replies (stop_typing k st) = ch_replies st"
  "ch_replies (undo_reaction k st) = ch_replies st" "ch_replies (CancelPlaceholder c i st) = ch_replies st"
  by (simp_all add: note_effects_def stop_typing_def undo_reaction_def CancelPlaceholder_def Let_def split: option.splits)

lemma indicator_replies [simp]: "ch_replies (start_indicators bc now c m ind st) = ch_replies st"
  by (simp add: start_indicators_def RecordTypingStop_def RecordReactionUndo_def SchedulePlaceholder_def record_sent_def
      RecordPlaceholder_def CancelPlaceholder_def Let_def split: option.splits)

text \<open>The message of the platform that holds a text after it was sent: the placeholder it was written into, as the log
  of the channel shows, or the new message with the id the platform gave.\<close>

definition answer_message :: "channel_env \<Rightarrow> gtime \<Rightarrow> nat \<Rightarrow> out_message \<Rightarrow> chan_state \<Rightarrow> string \<Rightarrow> bool" where
  "answer_message e now i msg st mid \<longleftrightarrow>
     (let new = drop (length (ch_log st)) (ch_log (sendWithRetry e now i msg st)) in
      Edited (om_chat msg) mid (om_content msg) \<in> set new
      \<or> Sent (om_chat msg) (om_content msg) \<in> set new \<and> fst (retryWithBackoff (ce_send e i) (ce_canceled e i)) = Delivered mid)"

lemma typing_logs:
  "\<exists>es. ch_log (stop_typing k st) = ch_log st @ es \<and> (\<forall>x \<in> set es. \<exists>s. x = StopTyping s)"
  "\<exists>es. ch_log (undo_reaction k st) = ch_log st @ es \<and> (\<forall>x \<in> set es. \<exists>s. x = UndoReaction s)"
  by (auto simp: stop_typing_def undo_reaction_def note_effects_def split: option.splits)

lemma quiet_log:
  "\<exists>es. ch_log (undo_reaction k (stop_typing k (CancelPlaceholder c i st))) = ch_log st @ es
     \<and> (\<forall>x \<in> set es. (\<exists>s. x = StopTyping s) \<or> (\<exists>s. x = UndoReaction s))"
proof -
  have "ch_log (CancelPlaceholder c i st) = ch_log st" by (simp add: CancelPlaceholder_def Let_def)
  then show ?thesis
    using typing_logs(1)[of k "CancelPlaceholder c i st"] typing_logs(2)[of k "stop_typing k (CancelPlaceholder c i st)"] by fastforce
qed

lemma sent_message_bound:
  assumes "answer_message e now i msg st mid" "TrimSpace mid \<noteq> []" "TrimSpace (om_session msg) \<noteq> []"
  shows "ch_replies (sendWithRetry e now i msg st)
    = BindReplyContext now (ce_name e) (om_chat msg) (TrimSpace mid) (TrimSpace (om_session msg)) (ch_replies st)"
proof -
  let ?k = "conversation (ce_name e) (om_chat msg)"
  let ?q = "undo_reaction ?k (stop_typing ?k (CancelPlaceholder (ce_name e) (om_chat msg) st))"
  obtain es where q: "ch_log ?q = ch_log st @ es" "\<forall>x \<in> set es. (\<exists>s. x = StopTyping s) \<or> (\<exists>s. x = UndoReaction s)"
    using quiet_log by blast
  show ?thesis
    using assms q
    by (auto simp: answer_message_def sendWithRetry_def preSend_def Let_def note_effects_def bindReplyContext_def
        split: if_splits option.splits send_result.splits)
qed

text \<open>C12: The way there and back: when an answer of a session was delivered, as a new message or by writing it into
  the placeholder, a user's message in that chat that replies to it within seven days and is let in by the channel
  is processed in the session of the answer, whatever messages are sent and answered in between.  It needs that the
  store of reply contexts does not reach its 4096 entries, that the platform does not use the id again, that
  ids, names and session are not blank, and a channel that is not \<open>system\<close>.\<close>
theorem reply_to_answer_reaches_session:
  assumes "reply_store_ok (ch_replies st)" "length (ch_replies st) + length ops < replyContextMaxEntries"
    and "answer_message e now i out st mid"
    and "TrimSpace mid \<noteq> []" "TrimSpace (om_session out) \<noteq> []" "TrimSpace (om_chat out) \<noteq> []" "TrimSpace (ce_name e) \<noteq> []"
    and "ch_replies st2 = fold run_reply_op ops (ch_replies (sendWithRetry e now i out st))"
    and "list_all (spares (replyContextKey (ce_name e) (om_chat out) mid) now (now + replyContextTTL)) ops"
    and "HandleMessage bc t p messageID senderID (om_chat out) body med meta sender ind st2 = (st', Some msg)"
    and "bc_name bc = ce_name e" "ce_name e \<noteq> ''system''" "meta ''reply_to_message_id'' = Some mid"
    and "t \<le> now + replyContextTTL"
  shows "fst (session_of cfg t msg (ch_replies st')) = Some (CanonicalSessionKey (om_session out))"
proof -
  have m: "im_channel msg = ce_name e" "im_chat msg = om_chat out" "im_session msg = []" "im_metadata msg = meta"
    and st': "st' = start_indicators bc t (om_chat out) messageID ind st2"
    using assms(10,11) by (auto simp: HandleMessage_def Let_def split: if_splits)
  have md: "metadata msg ''reply_to_message_id'' = mid" by (simp add: metadata_def m assms(13))
  have x: "explicit_key msg = None" by (simp add: explicit_key_def m CanonicalSessionKey_def)
  have k: "replyContextKey (ce_name e) (om_chat out) (TrimSpace mid) = replyContextKey (ce_name e) (om_chat out) mid"
    by (rule replyContextKey_trim)
  have r: "ch_replies st' = fold run_reply_op ops
      (BindReplyContext now (ce_name e) (om_chat out) (TrimSpace mid) (TrimSpace (om_session out)) (ch_replies st))"
    unfolding st' using sent_message_bound[OF assms(3-5)] assms(8) by simp
  have "fst (session_of cfg t msg (ch_replies st')) = Some (CanonicalSessionKey (TrimSpace (om_session out)))"
    unfolding r using assms(1,2)
    by (rule reply_session) (use assms(4-7,9,12,14) m md x k in \<open>simp_all add: replyContextKey_def Let_def\<close>)
  then show ?thesis by (simp add: CanonicalSessionKey_def)
qed

text \<open>The answer is written into the placeholder; before the user replies, another message of the chat is sent.\<close>

theorem reply_to_answer_reaches_session_witness:
  "fst (session_of None 60 \<lparr>im_channel = ''telegram'', im_sender = ''7'', im_chat = ''42'', im_content = ''why?'', im_media = [],
      im_peer = \<lparr>peer_kind = ''group'', peer_id = ''42''\<rparr>, im_message = ''10'', im_session = [],
      im_metadata = [''reply_to_message_id'' \<mapsto> ''9'']\<rparr>
      (BindReplyContext 30 ''telegram'' ''42'' ''11'' ''conv:main''
        (ch_replies (sendWithRetry ex_editor 0 0 (ex_out\<lparr>om_session := ''conv:cron:daily''\<rparr>) ex_waiting))))
   = Some ''conv:cron:daily''"
proof -
  let ?o = "ex_out\<lparr>om_session := ''conv:cron:daily''\<rparr>"
  let ?bc = "\<lparr>bc_name = ''telegram'', bc_allow = [], bc_delay = 0\<rparr>"
  let ?si = "\<lparr>si_platform = [], si_platformID = [], si_canonical = [], si_username = []\<rparr>"
  let ?ind = "\<lparr>id_typing = None, id_reaction = None, id_placeholder = None\<rparr>"
  let ?p = "\<lparr>peer_kind = ''group'', peer_id = ''42''\<rparr>" and ?meta = "[''reply_to_message_id'' \<mapsto> ''9'']"
  let ?st1 = "sendWithRetry ex_editor 0 0 ?o ex_waiting"
  let ?bind = "RxBind 30 ''telegram'' ''42'' ''11'' ''conv:main''"
  let ?st2 = "?st1\<lparr>ch_replies := run_reply_op ?bind (ch_replies ?st1)\<rparr>"
  have t: "TrimSpace ''9'' \<noteq> []" "TrimSpace ''conv:cron:daily'' \<noteq> []" "TrimSpace ''42'' \<noteq> []" "TrimSpace ''telegram'' \<noteq> []"
    "CanonicalSessionKey ''conv:cron:daily'' = ''conv:cron:daily''"
    "replyContextKey ''telegram'' ''42'' ''11'' \<noteq> replyContextKey ''telegram'' ''42'' ''9''"
    by code_simp+
  have a: "answer_message ex_editor 0 0 ?o ex_waiting ''9''" by code_simp
  have "\<exists>msg st'. HandleMessage ?bc 60 ?p ''10'' ''7'' ''42'' ''why?'' [] ?meta ?si ?ind ?st2 = (st', Some msg)
      \<and> msg = \<lparr>im_channel = ''telegram'', im_sender = ''7'', im_chat = ''42'', im_content = ''why?'', im_media = [],
      im_peer = ?p, im_message = ''10'', im_session = [], im_metadata = ?meta\<rparr> \<and> ch_replies st' = ch_replies ?st2"
    by (simp add: HandleMessage_def IsAllowed_def Let_def)
  then obtain msg st' where h: "HandleMessage ?bc 60 ?p ''10'' ''7'' (om_chat ?o) ''why?'' [] ?meta ?si ?ind ?st2 = (st', Some msg)"
    and msg: "msg = \<lparr>im_channel = ''telegram'', im_sender = ''7'', im_chat = ''42'', im_content = ''why?'', im_media = [],
      im_peer = ?p, im_message = ''10'', im_session = [], im_metadata = ?meta\<rparr>"
    and st': "ch_replies st' = ch_replies ?st2"
    by (auto simp: ex_out_def)
  have n: "om_chat ?o = ''42''" "om_session ?o = ''conv:cron:daily''" "ce_name ex_editor = ''telegram''" "ch_replies ex_waiting = []"
    by (simp_all add: ex_out_def ex_editor_def ex_channel_def ex_waiting_def ex_chat_state_def)
  have "fst (session_of None 60 msg (ch_replies st')) = Some (CanonicalSessionKey (om_session ?o))"
    by (rule reply_to_answer_reaches_session[where ops = "[?bind]", OF _ _ a _ _ _ _ _ _ h])
      (simp_all add: n t reply_store_ok_def replyContextMaxEntries_def replyContextTTL_def nsHour_def nsSecond_def)
  then show ?thesis by (simp add: msg st' n t)
qed

end
