(* ===== verification/MediaStore.thy ===== *)
theory MediaStore
  imports Prelude "HOL-Library.AList"
begin

text \<open>
  The store of media files: \<^verbatim>\<open>pkg/media/store.go\<close>.  The three maps are lists in the order Go iterates them;
  the files are the list of the paths that exist, and an operation that removes files comes with the paths it
  removes.  The fresh identifier of a reference is an argument.  The two phases of \<^verbatim>\<open>ReleaseAll\<close> and
  \<^verbatim>\<open>CleanExpired\<close> are operations of their own, since the lock is released between them; the goroutine of the
  cleaner only calls \<^verbatim>\<open>CleanExpired\<close>.
\<close>

section \<open>State and operations\<close>

record media_meta =
  mm_filename :: string
  mm_contentType :: string
  mm_source :: string

record media_entry =
  me_path :: string
  me_meta :: media_meta
  me_storedAt :: gtime

record media_store =
  md_refs :: "(string \<times> media_entry) list"
  md_scopeToRefs :: "(string \<times> string list) list"
  md_refToScope :: "(string \<times> string) list"
  md_maxAge :: duration

definition NewFileMediaStore :: "duration \<Rightarrow> media_store" where
  "NewFileMediaStore maxAge = \<lparr>md_refs = [], md_scopeToRefs = [], md_refToScope = [], md_maxAge = maxAge\<rparr>"

definition refs_of :: "media_store \<Rightarrow> string \<Rightarrow> string list" where
  "refs_of s scope = (case map_of (md_scopeToRefs s) scope of None \<Rightarrow> [] | Some rs \<Rightarrow> rs)"

text \<open>\<open>files\<close>: the paths that exist; \<open>fresh\<close>: the new identifier.\<close>

definition Store :: "string list \<Rightarrow> gtime \<Rightarrow> string \<Rightarrow> string \<Rightarrow> media_meta \<Rightarrow> string \<Rightarrow> media_store
    \<Rightarrow> media_store \<times> string option" where
  "Store files now fresh localPath mt scope s =
     (if localPath \<notin> set files then (s, None)
      else let ref = ''media://'' @ fresh in
        (s\<lparr>md_refs := AList.update ref \<lparr>me_path = localPath, me_meta = mt, me_storedAt = now\<rparr> (md_refs s),
           md_scopeToRefs := AList.update scope (List.insert ref (refs_of s scope)) (md_scopeToRefs s),
           md_refToScope := AList.update ref scope (md_refToScope s)\<rparr>, Some ref))"

definition Resolve :: "media_store \<Rightarrow> string \<Rightarrow> string option" where
  "Resolve s ref = map_option me_path (map_of (md_refs s) ref)"

definition ResolveWithMeta :: "media_store \<Rightarrow> string \<Rightarrow> (string \<times> media_meta) option" where
  "ResolveWithMeta s ref = map_option (\<lambda>e. (me_path e, me_meta e)) (map_of (md_refs s) ref)"

text \<open>\<^verbatim>\<open>ReleaseAll\<close>: under the lock the entries go, and then the files.\<close>

definition paths_of :: "media_store \<Rightarrow> string list \<Rightarrow> string list" where
  "paths_of s rs = List.map_filter (\<lambda>r. Resolve s r) rs"

definition release_entries :: "string \<Rightarrow> media_store \<Rightarrow> media_store \<times> string list" where
  "release_entries scope s =
     (case map_of (md_scopeToRefs s) scope of
        None \<Rightarrow> (s, [])
      | Some rs \<Rightarrow>
          (s\<lparr>md_refs := filter (\<lambda>(r, e). r \<notin> set rs) (md_refs s),
             md_refToScope := filter (\<lambda>(r, sc). r \<notin> set rs) (md_refToScope s),
             md_scopeToRefs := AList.delete scope (md_scopeToRefs s)\<rparr>, paths_of s rs))"

definition remove_files :: "string list \<Rightarrow> string list \<Rightarrow> string list" where
  "remove_files paths files = filter (\<lambda>p. p \<notin> set paths) files"

definition ReleaseAll :: "string \<Rightarrow> media_store \<times> string list \<Rightarrow> media_store \<times> string list" where
  "ReleaseAll scope = (\<lambda>(s, files). case release_entries scope s of (s', paths) \<Rightarrow> (s', remove_files paths files))"

definition drop_ref :: "string \<Rightarrow> media_store \<Rightarrow> media_store" where
  "drop_ref ref s =
     (let scopes = (case map_of (md_refToScope s) ref of
                      None \<Rightarrow> md_scopeToRefs s
                    | Some scope \<Rightarrow>
                        (case map_of (md_scopeToRefs s) scope of
                           None \<Rightarrow> md_scopeToRefs s
                         | Some rs \<Rightarrow>
                             (let rs' = removeAll ref rs in
                              if rs' = [] then AList.delete scope (md_scopeToRefs s)
                              else AList.update scope rs' (md_scopeToRefs s))))
      in s\<lparr>md_scopeToRefs := scopes, md_refs := AList.delete ref (md_refs s),
           md_refToScope := AList.delete ref (md_refToScope s)\<rparr>)"

definition expired_entries :: "gtime \<Rightarrow> media_store \<Rightarrow> (string \<times> media_entry) list" where
  "expired_entries now s = filter (\<lambda>(r, e). Before (me_storedAt e) (now - md_maxAge s)) (md_refs s)"

definition clean_entries :: "gtime \<Rightarrow> media_store \<Rightarrow> media_store \<times> string list" where
  "clean_entries now s =
     (if md_maxAge s \<le> 0 then (s, [])
      else (fold drop_ref (map fst (expired_entries now s)) s, map (\<lambda>(r, e). me_path e) (expired_entries now s)))"

definition CleanExpired :: "gtime \<Rightarrow> media_store \<times> string list \<Rightarrow> (media_store \<times> string list) \<times> int" where
  "CleanExpired now = (\<lambda>(s, files). case clean_entries now s of
     (s', paths) \<Rightarrow> ((s', remove_files paths files), int (length paths)))"

section \<open>The invariant\<close>

text \<open>The maps agree: a reference belongs to exactly the scope whose set it is in, scopes are not empty, and every
  reference of a scope has an entry.\<close>

definition media_ok :: "media_store \<Rightarrow> bool" where
  "media_ok s \<longleftrightarrow>
     distinct (map fst (md_refs s)) \<and> distinct (map fst (md_scopeToRefs s)) \<and> distinct (map fst (md_refToScope s))
     \<and> (\<forall>r scope. map_of (md_refToScope s) r = Some scope \<longleftrightarrow> r \<in> set (refs_of s scope))
     \<and> (\<forall>r. map_of (md_refs s) r \<noteq> None \<longleftrightarrow> map_of (md_refToScope s) r \<noteq> None)
     \<and> (\<forall>scope rs. map_of (md_scopeToRefs s) scope = Some rs \<longrightarrow> rs \<noteq> [])"

text \<open>The files of the entries exist, and no two entries share one.\<close>

definition files_ok :: "media_store \<Rightarrow> string list \<Rightarrow> bool" where
  "files_ok s files \<longleftrightarrow> (\<forall>r e. map_of (md_refs s) r = Some e \<longrightarrow> me_path e \<in> set files)"

definition unshared :: "media_store \<Rightarrow> bool" where
  "unshared s \<longleftrightarrow> (\<forall>r e r' e'. map_of (md_refs s) r = Some e \<longrightarrow> map_of (md_refs s) r' = Some e' \<longrightarrow> me_path e = me_path e' \<longrightarrow> r = r')"

lemma media_ok_new: "media_ok (NewFileMediaStore a)"
  by (simp add: media_ok_def NewFileMediaStore_def refs_of_def)

lemma update_map: "map_of (AList.update k v xs) = (map_of xs)(k \<mapsto> v)"
  by (rule update_conv')

lemma delete_map: "map_of (AList.delete k xs) = (map_of xs)(k := None)"
  by (rule delete_conv')

lemma filter_map: "map_of (filter (\<lambda>(k, v). P k) xs) k = (if P k then map_of xs k else None)"
  by (induction xs) auto

lemma media_ok_entry: "media_ok s \<Longrightarrow> map_of (md_refs s) r = None \<longleftrightarrow> map_of (md_refToScope s) r = None"
  unfolding media_ok_def by blast

lemma media_ok_scope: "media_ok s \<Longrightarrow> map_of (md_refToScope s) r = Some scope \<longleftrightarrow> r \<in> set (refs_of s scope)"
  unfolding media_ok_def by blast

lemma media_ok_nonempty: "media_ok s \<Longrightarrow> map_of (md_scopeToRefs s) scope = Some rs \<Longrightarrow> rs \<noteq> []"
  unfolding media_ok_def by blast

lemma media_okI:
  assumes "distinct (map fst (md_refs s))" "distinct (map fst (md_scopeToRefs s))" "distinct (map fst (md_refToScope s))"
    and "\<And>r scope. map_of (md_refToScope s) r = Some scope \<longleftrightarrow> r \<in> set (refs_of s scope)"
    and "\<And>r. map_of (md_refs s) r = None \<longleftrightarrow> map_of (md_refToScope s) r = None"
    and "\<And>scope rs. map_of (md_scopeToRefs s) scope = Some rs \<Longrightarrow> rs \<noteq> []"
  shows "media_ok s"
  unfolding media_ok_def using assms(1-4,6) by (auto simp only: assms(5) simp_thms)

lemma media_ok_store:
  assumes ok: "media_ok s" and st: "Store files now fresh p mt scope s = (s', Some ref)" and new: "map_of (md_refs s) ref = None"
  shows "media_ok s'"
proof -
  have s': "md_refs s' = AList.update ref \<lparr>me_path = p, me_meta = mt, me_storedAt = now\<rparr> (md_refs s)"
    "md_scopeToRefs s' = AList.update scope (List.insert ref (refs_of s scope)) (md_scopeToRefs s)"
    "md_refToScope s' = AList.update ref scope (md_refToScope s)"
    using st by (auto simp: Store_def Let_def split: if_splits)
  have r: "refs_of s' sc = (if sc = scope then List.insert ref (refs_of s scope) else refs_of s sc)" for sc
    by (simp add: refs_of_def s' update_map)
  have no: "map_of (md_refToScope s) ref = None" "ref \<notin> set (refs_of s sc)" for sc
    using ok new unfolding media_ok_def by (metis option.distinct(1))+
  show ?thesis
  proof (rule media_okI)
    show "map_of (md_refToScope s') x = Some y \<longleftrightarrow> x \<in> set (refs_of s' y)" for x y
      using media_ok_scope[OF ok, of x y] no unfolding r s' update_map by auto
    show "map_of (md_refs s') x = None \<longleftrightarrow> map_of (md_refToScope s') x = None" for x
      using media_ok_entry[OF ok, of x] unfolding s' update_map by simp
    show "map_of (md_scopeToRefs s') y = Some rs \<Longrightarrow> rs \<noteq> []" for y rs
      using media_ok_nonempty[OF ok, of y rs] unfolding s' update_map by (auto simp: List.insert_def split: if_splits)
  qed (use ok in \<open>auto simp: media_ok_def s' distinct_update\<close>)
qed

lemma media_ok_release:
  assumes ok: "media_ok s" shows "media_ok (fst (release_entries scope s))"
proof (cases "map_of (md_scopeToRefs s) scope")
  case None
  then show ?thesis using ok by (simp add: release_entries_def)
next
  case (Some rs)
  let ?s = "fst (release_entries scope s)"
  have s': "md_refs ?s = filter (\<lambda>(r, e). r \<notin> set rs) (md_refs s)"
    "md_refToScope ?s = filter (\<lambda>(r, sc). r \<notin> set rs) (md_refToScope s)"
    "md_scopeToRefs ?s = AList.delete scope (md_scopeToRefs s)"
    using Some by (simp_all add: release_entries_def)
  have r: "refs_of ?s sc = (if sc = scope then [] else refs_of s sc)" for sc
    by (simp add: refs_of_def s' delete_map)
  have rs: "refs_of s scope = rs" using Some by (simp add: refs_of_def)
  have sc: "map_of (md_refToScope s) x = Some scope \<longleftrightarrow> x \<in> set rs" for x
    using ok rs unfolding media_ok_def by blast
  have d: "distinct (map fst (md_refs ?s))" "distinct (map fst (md_refToScope ?s))" "distinct (map fst (md_scopeToRefs ?s))"
    using ok unfolding media_ok_def s' by (auto simp: distinct_map_filter distinct_delete)
  have a: "map_of (md_refToScope ?s) x = Some y \<longleftrightarrow> x \<in> set (refs_of ?s y)" for x y
  proof -
    have "map_of (md_refToScope s) x = Some y \<longleftrightarrow> x \<in> set (refs_of s y)" using ok unfolding media_ok_def by blast
    then show ?thesis unfolding r s' filter_map using sc[of x] by auto
  qed
  have b: "map_of (md_refs ?s) x = None \<longleftrightarrow> map_of (md_refToScope ?s) x = None" for x
    using media_ok_entry[OF ok, of x] unfolding s' filter_map by simp
  have c: "map_of (md_scopeToRefs ?s) x = Some ys \<Longrightarrow> ys \<noteq> []" for x ys
    using media_ok_nonempty[OF ok, of x ys] unfolding s' delete_map by (auto split: if_splits)
  show ?thesis by (rule media_okI[OF d(1,3,2) a b c])
qed

lemma media_ok_drop:
  assumes ok: "media_ok s" shows "media_ok (drop_ref ref s)"
proof (cases "map_of (md_refToScope s) ref")
  case None
  then have n: "map_of (md_refs s) ref = None" using ok unfolding media_ok_def by blast
  have "AList.delete ref (md_refToScope s) = md_refToScope s" "AList.delete ref (md_refs s) = md_refs s"
    using None n by (auto simp: AList.delete_eq filter_id_conv map_of_eq_None_iff image_iff)
  then show ?thesis using None ok by (simp add: drop_ref_def Let_def)
next
  case (Some scope)
  let ?s = "drop_ref ref s"
  have mem: "ref \<in> set (refs_of s scope)" using ok Some unfolding media_ok_def by blast
  then obtain rs where rs: "map_of (md_scopeToRefs s) scope = Some rs" "refs_of s scope = rs"
    by (cases "map_of (md_scopeToRefs s) scope") (auto simp: refs_of_def)
  have s': "md_refs ?s = AList.delete ref (md_refs s)" "md_refToScope ?s = AList.delete ref (md_refToScope s)"
    "md_scopeToRefs ?s = (if removeAll ref rs = [] then AList.delete scope (md_scopeToRefs s)
        else AList.update scope (removeAll ref rs) (md_scopeToRefs s))"
    using Some rs by (simp_all add: drop_ref_def Let_def)
  have r: "refs_of ?s sc = (if sc = scope then removeAll ref rs else refs_of s sc)" for sc
    by (auto simp: refs_of_def s' update_map delete_map)
  have d: "distinct (map fst (md_refs ?s))" "distinct (map fst (md_refToScope ?s))" "distinct (map fst (md_scopeToRefs ?s))"
    using ok unfolding media_ok_def s' by (auto simp: distinct_delete distinct_update)
  have a: "map_of (md_refToScope ?s) x = Some y \<longleftrightarrow> x \<in> set (refs_of ?s y)" for x y
  proof -
    have "map_of (md_refToScope s) x = Some y \<longleftrightarrow> x \<in> set (refs_of s y)" using ok unfolding media_ok_def by blast
    then show ?thesis unfolding r s' delete_map using Some rs(2) by auto
  qed
  have b: "map_of (md_refs ?s) x = None \<longleftrightarrow> map_of (md_refToScope ?s) x = None" for x
    using media_ok_entry[OF ok, of x] unfolding s' delete_map by simp
  have c: "map_of (md_scopeToRefs ?s) x = Some ys \<Longrightarrow> ys \<noteq> []" for x ys
    using media_ok_nonempty[OF ok, of x ys] unfolding s' by (auto simp: delete_map update_map split: if_splits)
  show ?thesis by (rule media_okI[OF d(1,3,2) a b c])
qed

lemma media_ok_drops: "media_ok s \<Longrightarrow> media_ok (fold drop_ref rs s)"
  by (induction rs arbitrary: s) (simp_all add: media_ok_drop)

lemma media_ok_clean: "media_ok s \<Longrightarrow> media_ok (fst (clean_entries now s))"
  by (simp add: clean_entries_def media_ok_drops)

lemma drops_refs: "map_of (md_refs (fold drop_ref rs s)) r = (if r \<in> set rs then None else map_of (md_refs s) r)"
  by (induction rs arbitrary: s) (auto simp: drop_ref_def Let_def delete_map)


section \<open>Properties\<close>

inductive media_reachable :: "media_store \<Rightarrow> bool" where
  new: "media_reachable (NewFileMediaStore age)"
| store: "media_reachable s \<Longrightarrow> Store files now fresh p mt scope s = (s', Some ref) \<Longrightarrow> map_of (md_refs s) ref = None
    \<Longrightarrow> media_reachable s'"
| release: "media_reachable s \<Longrightarrow> media_reachable (fst (release_entries scope s))"
| clean: "media_reachable s \<Longrightarrow> media_reachable (fst (clean_entries now s))"

lemma media_reachable_ok: "media_reachable s \<Longrightarrow> media_ok s"
  by (induction rule: media_reachable.induct)
    (auto intro: media_ok_new media_ok_store media_ok_release media_ok_clean)

lemma resolve_scope:
  "media_ok s \<Longrightarrow> Resolve s r = None \<longleftrightarrow> (\<forall>scope. r \<notin> set (refs_of s scope))"
proof -
  assume ok: "media_ok s"
  have "Resolve s r = None \<longleftrightarrow> map_of (md_refToScope s) r = None"
    using media_ok_entry[OF ok, of r] by (simp only: Resolve_def option.map_disc_iff)
  also have "\<dots> \<longleftrightarrow> (\<forall>scope. \<not> map_of (md_refToScope s) r = Some scope)" by (metis not_None_eq)
  finally show ?thesis by (simp only: media_ok_scope[OF ok])
qed

lemma paths_of_set: "p \<in> set (paths_of s rs) \<longleftrightarrow> (\<exists>r \<in> set rs. Resolve s r = Some p)"
  by (auto simp: paths_of_def List.map_filter_def image_iff)

lemma release_resolve:
  assumes "media_ok s"
  shows "Resolve (fst (release_entries scope s)) r = (if r \<in> set (refs_of s scope) then None else Resolve s r)"
  by (cases "map_of (md_scopeToRefs s) scope") (simp_all add: release_entries_def refs_of_def Resolve_def filter_map)

lemma release_paths: "snd (release_entries scope s) = paths_of s (refs_of s scope)"
  by (cases "map_of (md_scopeToRefs s) scope") (simp_all add: release_entries_def refs_of_def paths_of_def List.map_filter_simps)

text \<open>C34: The scopes of a store that operations have made are kept apart: releasing a scope forgets exactly its references
  and removes exactly the files they name; every other reference resolves as before, and a reference resolves only
  while it belongs to a scope.\<close>
theorem release_exact:
  assumes "media_reachable s"
  shows "Resolve (fst (ReleaseAll scope (s, files))) r = (if r \<in> set (refs_of s scope) then None else Resolve s r)
    \<and> (p \<in> set (snd (ReleaseAll scope (s, files)))
         \<longleftrightarrow> p \<in> set files \<and> \<not> list_ex (\<lambda>r. Resolve s r = Some p) (refs_of s scope))
    \<and> (Resolve s r = None \<longleftrightarrow> (\<forall>sc. r \<notin> set (refs_of s sc)))"
  using release_resolve[OF media_reachable_ok[OF assms], of scope r] release_paths[of scope s]
    resolve_scope[OF media_reachable_ok[OF assms], of r]
  by (auto simp: ReleaseAll_def case_prod_beta remove_files_def paths_of_set list_ex_iff)

definition ex_meta :: media_meta where
  "ex_meta = \<lparr>mm_filename = ''a.png'', mm_contentType = ''image/png'', mm_source = ''telegram''\<rparr>"

definition ex_stored :: media_store where
  "ex_stored = fst (Store [''/tmp/a''] 0 ''1'' ''/tmp/a'' ex_meta ''s1'' (NewFileMediaStore 10))"

lemma ex_stored_reachable: "media_reachable ex_stored"
  unfolding ex_stored_def
  by (rule media_reachable.store[OF media_reachable.new, of "[''/tmp/a'']" 0 "''1''" "''/tmp/a''" ex_meta "''s1''" 10 _ "''media://1''"])
    (simp_all add: Store_def NewFileMediaStore_def Let_def)

theorem release_exact_witness:
  "Resolve (fst (ReleaseAll ''s1'' (ex_stored, [''/tmp/a'']))) ''media://1'' = None"
proof -
  have "''media://1'' \<in> set (refs_of ex_stored ''s1'')"
    by (simp add: ex_stored_def Store_def NewFileMediaStore_def refs_of_def Let_def)
  then show ?thesis using release_exact[OF ex_stored_reachable, of "''s1''" "[''/tmp/a'']" "''media://1''"] by simp
qed

text \<open>One file, two references: a path stored under two scopes is removed with the first of them, while the reference of
  the other scope still resolves to it.\<close>
theorem shared_file_removed:
  "\<exists>(s :: media_store) files r p. media_reachable s \<and> p \<in> set files \<and> Resolve s r = Some p
     \<and> Resolve (fst (ReleaseAll ''s1'' (s, files))) r = Some p \<and> p \<notin> set (snd (ReleaseAll ''s1'' (s, files)))"
proof -
  let ?s = "fst (Store [''/tmp/a''] 0 ''2'' ''/tmp/a'' ex_meta ''s2'' ex_stored)"
  have m: "media_reachable ?s"
    by (rule media_reachable.store[OF ex_stored_reachable, of "[''/tmp/a'']" 0 "''2''" "''/tmp/a''" ex_meta "''s2''" _ "''media://2''"])
      (simp_all add: ex_stored_def Store_def NewFileMediaStore_def Let_def)
  have "Resolve ?s ''media://2'' = Some ''/tmp/a''" "Resolve ?s ''media://1'' = Some ''/tmp/a''"
    "refs_of ?s ''s1'' = [''media://1'']"
    by (simp_all add: ex_stored_def Store_def NewFileMediaStore_def Resolve_def refs_of_def Let_def)
  then show ?thesis
    using m release_resolve[OF media_reachable_ok[OF m], of "''s1''" "''media://2''"] release_paths[of "''s1''" ?s]
    by (intro exI[of _ ?s] exI[of _ "[''/tmp/a'']"] exI[of _ "''media://2''"] exI[of _ "''/tmp/a''"])
      (auto simp: ReleaseAll_def case_prod_beta remove_files_def paths_of_def List.map_filter_simps)
qed

text \<open>Cleaning forgets exactly the references older than the maximum age, and counts them.\<close>

lemma clean_resolve:
  assumes "media_ok s" "0 < md_maxAge s"
  shows "Resolve (fst (clean_entries now s)) r
    = (case map_of (md_refs s) r of None \<Rightarrow> None
       | Some e \<Rightarrow> if Before (me_storedAt e) (now - md_maxAge s) then None else Some (me_path e))"
proof -
  have "r \<in> fst ` set (expired_entries now s) \<longleftrightarrow> (\<exists>e. map_of (md_refs s) r = Some e \<and> Before (me_storedAt e) (now - md_maxAge s))"
    using assms(1) unfolding media_ok_def expired_entries_def by (force simp: image_iff)
  then show ?thesis using assms(2)
    by (auto simp: clean_entries_def Resolve_def drops_refs split: option.splits)
qed

end
