(* ===== verification/FilePaths.thy ===== *)
theory FilePaths
  imports Prelude "HOL-Library.Sublist"
begin

text \<open>
  Paths: the functions of \<^verbatim>\<open>path/filepath\<close> (on Unix) that the tools call, and the checks of
  \<^verbatim>\<open>pkg/tools/filesystem_helpers.go\<close> that keep a path inside the workspace.  A path is a string; its components
  are a list of strings.  What the file system knows (the working directory, the links) is an argument.
\<close>

section \<open>Paths of Go\<close>

fun split_slash :: "string \<Rightarrow> string list" where
  "split_slash [] = [[]]"
| "split_slash (c # s) =
     (if c = CHR ''/'' then [] # split_slash s
      else (case split_slash s of [] \<Rightarrow> [[c]] | w # ws \<Rightarrow> (c # w) # ws))"

definition IsAbs :: "string \<Rightarrow> bool" where
  "IsAbs p = HasPrefix p ''/''"

text \<open>One component on the stack of those before it.\<close>

definition clean_push :: "bool \<Rightarrow> string list \<Rightarrow> string \<Rightarrow> string list" where
  "clean_push rooted st c =
     (if c = [] \<or> c = ''.'' then st
      else if c = ''..'' then
        (case st of [] \<Rightarrow> if rooted then [] else [''..'']
         | t # ts \<Rightarrow> if t = ''..'' then ''..'' # st else ts)
      else c # st)"

definition clean_comps :: "bool \<Rightarrow> string \<Rightarrow> string list" where
  "clean_comps rooted p = rev (foldl (clean_push rooted) [] (split_slash p))"

definition path_of :: "bool \<Rightarrow> string list \<Rightarrow> string" where
  "path_of rooted cs = (if rooted then CHR ''/'' # Join cs ''/'' else if cs = [] then ''.'' else Join cs ''/'')"

definition Clean :: "string \<Rightarrow> string" where
  "Clean p = (if p = [] then ''.'' else path_of (IsAbs p) (clean_comps (IsAbs p) p))"

definition Dir :: "string \<Rightarrow> string" where
  "Dir p = Clean (rev (dropWhile (\<lambda>c. c \<noteq> CHR ''/'') (rev p)))"

definition path_join :: "string list \<Rightarrow> string" where
  "path_join elems = (let xs = filter (\<lambda>e. e \<noteq> []) elems in if xs = [] then [] else Clean (Join xs ''/''))"

text \<open>\<^verbatim>\<open>filepath.Abs\<close>; \<open>wd\<close> is the working directory, \<open>None\<close> when it cannot be found.\<close>

definition Abs :: "string option \<Rightarrow> string \<Rightarrow> string option" where
  "Abs wd p = (if IsAbs p then Some (Clean p) else map_option (\<lambda>d. path_join [d, p]) wd)"

fun strip_common :: "string list \<Rightarrow> string list \<Rightarrow> string list \<times> string list" where
  "strip_common (a # as) (b # bs) = (if a = b then strip_common as bs else (a # as, b # bs))"
| "strip_common as bs = (as, bs)"

definition comps :: "string \<Rightarrow> string list" where
  "comps p = filter (\<lambda>w. w \<noteq> []) (split_slash p)"

definition Rel :: "string \<Rightarrow> string \<Rightarrow> string option" where
  "Rel basepath targpath =
     (let b = Clean basepath; t = Clean targpath in
      if b = t then Some ''.''
      else if IsAbs b \<noteq> IsAbs t then None
      else case strip_common (if b = ''.'' then [] else comps b) (comps t) of
        (bs, ts) \<Rightarrow> if bs \<noteq> [] \<and> hd bs = ''..'' then None
                    else Some (Join (replicate (length bs) ''..'' @ ts) ''/''))"

definition IsLocal :: "string \<Rightarrow> bool" where
  "IsLocal p \<longleftrightarrow> \<not> IsAbs p \<and> p \<noteq> [] \<and> Clean p \<noteq> ''..'' \<and> \<not> HasPrefix (Clean p) ''../''"

section \<open>The checks of the tools\<close>

definition isWithinWorkspace :: "string \<Rightarrow> string \<Rightarrow> bool" where
  "isWithinWorkspace candidate workspace =
     (case Rel (Clean workspace) (Clean candidate) of None \<Rightarrow> False | Some rel \<Rightarrow> IsLocal rel)"

datatype path_error =
    WorkspaceUndefined | WorkspaceUnresolved | FileUnresolved | OutsideWorkspace | SymlinkOutside | ResolveFailed
  | RelFailed | EscapesWorkspace

text \<open>\<^verbatim>\<open>filepath.EvalSymlinks\<close>: the resolved path, an error that says the file does not exist, or another error.\<close>

datatype eval_result = Resolved string | Missing | EvalFailed

fun climb :: "(string \<Rightarrow> eval_result) \<Rightarrow> string list \<Rightarrow> eval_result" where
  "climb ev [] = ev (path_of True [])"
| "climb ev (c # rcs) = (case ev (path_of True (rev (c # rcs))) of Missing \<Rightarrow> climb ev rcs | r \<Rightarrow> r)"

text \<open>The path is absolute; \<^verbatim>\<open>filepath.Dir\<close> drops the last component until the root (\<open>Dir_path_of\<close>).\<close>

definition resolveExistingAncestor :: "(string \<Rightarrow> eval_result) \<Rightarrow> string \<Rightarrow> eval_result" where
  "resolveExistingAncestor ev path = climb ev (rev (clean_comps True path))"

definition validatePath ::
  "string option \<Rightarrow> (string \<Rightarrow> eval_result) \<Rightarrow> string \<Rightarrow> string \<Rightarrow> bool \<Rightarrow> path_error + string" where
  "validatePath wd ev path workspace restrict =
     (if workspace = [] then Inl WorkspaceUndefined
      else case Abs wd workspace of None \<Rightarrow> Inl WorkspaceUnresolved
      | Some absWorkspace \<Rightarrow>
          (case (if IsAbs path then Some (Clean path) else Abs wd (path_join [absWorkspace, path])) of
             None \<Rightarrow> Inl FileUnresolved
           | Some absPath \<Rightarrow>
               if \<not> restrict then Inr absPath
               else if \<not> isWithinWorkspace absPath absWorkspace then Inl OutsideWorkspace
               else let workspaceReal = (case ev absWorkspace of Resolved r \<Rightarrow> r | _ \<Rightarrow> absWorkspace) in
                 (case ev absPath of
                    Resolved r \<Rightarrow> if isWithinWorkspace r workspaceReal then Inr absPath else Inl SymlinkOutside
                  | Missing \<Rightarrow>
                      (case resolveExistingAncestor ev (Dir absPath) of
                         Resolved r \<Rightarrow> if isWithinWorkspace r workspaceReal then Inr absPath else Inl SymlinkOutside
                       | Missing \<Rightarrow> Inr absPath
                       | EvalFailed \<Rightarrow> Inl ResolveFailed)
                  | EvalFailed \<Rightarrow> Inl ResolveFailed)))"

definition getSafeRelPath :: "string \<Rightarrow> string \<Rightarrow> path_error + string" where
  "getSafeRelPath workspace path =
     (if workspace = [] then Inl WorkspaceUndefined
      else let rel = Clean path in
        case (if IsAbs rel then Rel workspace rel else Some rel) of
          None \<Rightarrow> Inl RelFailed
        | Some rel \<Rightarrow> if IsLocal rel then Inr rel else Inl EscapesWorkspace)"

section \<open>Components\<close>

text \<open>A component as cleaning leaves it.\<close>

definition plain_comp :: "string \<Rightarrow> bool" where
  "plain_comp w \<longleftrightarrow> w \<noteq> [] \<and> w \<noteq> ''.'' \<and> w \<noteq> ''..'' \<and> CHR ''/'' \<notin> set w"

lemma split_slash_nonempty [simp]: "split_slash s \<noteq> []"
  by (cases s) (auto split: list.splits)

lemma split_slash_plain: "CHR ''/'' \<notin> set w \<Longrightarrow> split_slash w = [w]"
  by (induction w) auto

lemma split_slash_append:
  "CHR ''/'' \<notin> set w \<Longrightarrow> split_slash (w @ CHR ''/'' # s) = w # split_slash s"
  by (induction w) auto

lemma split_slash_no_slash: "w \<in> set (split_slash s) \<Longrightarrow> CHR ''/'' \<notin> set w"
  by (induction s arbitrary: w) (auto split: if_splits list.splits)

lemma split_slash_Join: "cs \<noteq> [] \<Longrightarrow> \<forall>w \<in> set cs. CHR ''/'' \<notin> set w \<Longrightarrow> split_slash (Join cs ''/'') = cs"
  by (induction cs "''/''" rule: Join.induct) (auto simp: split_slash_plain split_slash_append)

lemma split_slash_hd:
  "CHR ''/'' \<notin> set w \<Longrightarrow> hd (split_slash s) = w \<longleftrightarrow> s = w \<or> HasPrefix s (w @ ''/'')"
proof (induction w arbitrary: s)
  case Nil
  then show ?case by (cases s) (auto simp: HasPrefix_def split: list.splits)
next
  case (Cons c w)
  show ?case
  proof (cases s)
    case (Cons d t)
    obtain v vs where v: "split_slash t = v # vs" by (meson list.exhaust split_slash_nonempty)
    show ?thesis using Cons.prems Cons.IH[of t] v unfolding Cons by (auto simp: HasPrefix_def)
  qed (simp add: HasPrefix_def)
qed

lemma foldl_clean_plain: "list_all plain_comp cs \<Longrightarrow> foldl (clean_push r) st cs = rev cs @ st"
  by (induction cs arbitrary: st) (auto simp: clean_push_def plain_comp_def)

lemma foldl_clean_up:
  "foldl (clean_push False) (replicate m ''..'') (replicate n ''..'') = replicate (n + m) ''..''"
proof (induction n arbitrary: m)
  case (Suc n)
  have "clean_push False (replicate m ''..'') ''..'' = replicate (Suc m) ''..''"
    by (cases m) (auto simp: clean_push_def)
  then show ?case using Suc[of "Suc m"] by simp
qed simp

lemma foldl_clean_rooted:
  "list_all plain_comp st \<Longrightarrow> list_all (\<lambda>w. CHR ''/'' \<notin> set w) ws \<Longrightarrow> list_all plain_comp (foldl (clean_push True) st ws)"
  by (induction ws arbitrary: st) (auto simp: clean_push_def plain_comp_def split: list.splits)

lemma clean_comps_plain: "list_all plain_comp (clean_comps True p)"
  using foldl_clean_rooted[of "[]" "split_slash p"] split_slash_no_slash
  by (auto simp: clean_comps_def list_all_iff)

lemma plain_no_slash: "list_all plain_comp cs \<Longrightarrow> \<forall>w \<in> set cs. CHR ''/'' \<notin> set w"
  by (auto simp: list_all_iff plain_comp_def)

lemma IsAbs_slash [simp]: "IsAbs (CHR ''/'' # s)"
  by (simp add: IsAbs_def HasPrefix_def)

lemma IsAbs_path_of [simp]: "IsAbs (path_of True cs)"
  by (simp add: path_of_def)

lemma clean_comps_slash: "clean_comps r (CHR ''/'' # s) = clean_comps r s"
  by (simp add: clean_comps_def clean_push_def)

lemma clean_comps_Join:
  assumes "list_all plain_comp ts" "r \<Longrightarrow> n = 0"
  shows "clean_comps r (Join (replicate n ''..'' @ ts) ''/'') = replicate n ''..'' @ ts"
proof (cases "replicate n ''..'' @ ts = []")
  case False
  have s: "split_slash (Join (replicate n ''..'' @ ts) ''/'') = replicate n ''..'' @ ts"
    using False plain_no_slash[OF assms(1)] by (intro split_slash_Join) auto
  have u: "foldl (clean_push r) [] (replicate n ''..'') = replicate n ''..''"
    using foldl_clean_up[of 0 n] assms(2) by (cases r) auto
  show ?thesis unfolding clean_comps_def s using u foldl_clean_plain[OF assms(1)] by simp
qed (simp add: clean_comps_def clean_push_def)

lemma clean_path_of: "list_all plain_comp cs \<Longrightarrow> clean_comps True (path_of True cs) = cs"
  using clean_comps_Join[of cs True 0] by (simp add: path_of_def clean_comps_slash)

lemma Clean_abs: "IsAbs p \<Longrightarrow> Clean p = path_of True (clean_comps True p)"
  by (auto simp: Clean_def IsAbs_def HasPrefix_def)

lemma Clean_path_of [simp]: "list_all plain_comp cs \<Longrightarrow> Clean (path_of True cs) = path_of True cs"
  by (simp add: Clean_abs clean_path_of)

lemma Clean_idem_abs: "IsAbs p \<Longrightarrow> Clean (Clean p) = Clean p"
  by (simp add: Clean_abs clean_comps_plain clean_path_of)

lemma IsAbs_Clean: "IsAbs p \<Longrightarrow> IsAbs (Clean p)"
  by (simp add: Clean_abs)

lemma comps_path_of: "list_all plain_comp cs \<Longrightarrow> comps (path_of True cs) = cs"
proof (cases "cs = []")
  case False
  assume p: "list_all plain_comp cs"
  have "filter (\<lambda>w. w \<noteq> []) cs = cs" using p by (auto simp: list_all_iff plain_comp_def filter_id_conv)
  then show ?thesis using split_slash_Join[OF False plain_no_slash[OF p]] by (simp add: comps_def path_of_def)
qed (simp add: comps_def path_of_def)

lemma path_of_inject: "list_all plain_comp cs \<Longrightarrow> list_all plain_comp ds \<Longrightarrow> path_of True cs = path_of True ds \<longleftrightarrow> cs = ds"
  by (metis comps_path_of)

lemma strip_common_prefix: "strip_common as bs = (as', bs') \<Longrightarrow> \<exists>cs. as = cs @ as' \<and> bs = cs @ bs' \<and> (as' = [] \<or> bs' = [] \<or> hd as' \<noteq> hd bs')"
proof (induction as bs arbitrary: as' bs' rule: strip_common.induct)
  case (1 a as b bs)
  then show ?case by (cases "a = b") (auto intro: exI[of _ "a # _"])
qed auto

lemma strip_common_append: "strip_common cs (cs @ ds) = ([], ds)"
  by (induction cs) (auto simp: neq_Nil_conv)

lemma IsLocal_ups:
  assumes "list_all plain_comp ts" "n > 0 \<or> ts \<noteq> []"
  shows "IsLocal (Join (replicate n ''..'' @ ts) ''/'') \<longleftrightarrow> n = 0"
proof -
  let ?cs = "replicate n ''..'' @ ts"
  have ne: "?cs \<noteq> []" using assms(2) by auto
  have slash: "\<forall>w \<in> set ?cs. CHR ''/'' \<notin> set w" using plain_no_slash[OF assms(1)] by auto
  have sp: "split_slash (Join ?cs ''/'') = ?cs" by (rule split_slash_Join[OF ne slash])
  obtain w ws where w: "?cs = w # ws" "w \<noteq> []" "CHR ''/'' \<notin> set w"
    using ne assms(1) by (cases n; cases ts) (auto simp: plain_comp_def)
  have "hd (split_slash (Join ?cs ''/'')) \<noteq> []" using sp w by simp
  then have a: "\<not> IsAbs (Join ?cs ''/'')" "Join ?cs ''/'' \<noteq> []"
    using split_slash_hd[of "[]" "Join ?cs ''/''"] by (auto simp: IsAbs_def)
  have "clean_comps False (Join ?cs ''/'') = ?cs" by (rule clean_comps_Join[OF assms(1)]) simp
  then have c: "Clean (Join ?cs ''/'') = Join ?cs ''/''" using a ne by (simp add: Clean_def path_of_def)
  have "hd ?cs = ''..'' \<longleftrightarrow> n > 0" using assms by (cases n; cases ts) (auto simp: plain_comp_def)
  then show ?thesis using a split_slash_hd[of "''..''" "Join ?cs ''/''"] sp unfolding IsLocal_def c by auto
qed

lemma Rel_abs:
  assumes "IsAbs b" "IsAbs t"
  shows "Rel b t = (if clean_comps True b = clean_comps True t then Some ''.''
    else case strip_common (clean_comps True b) (clean_comps True t) of
      (bs, ts) \<Rightarrow> Some (Join (replicate (length bs) ''..'' @ ts) ''/''))"
proof -
  let ?b = "clean_comps True b" let ?t = "clean_comps True t"
  have p: "list_all plain_comp ?b" "list_all plain_comp ?t" by (simp_all add: clean_comps_plain)
  obtain bs ts where s: "strip_common ?b ?t = (bs, ts)" by fastforce
  have "hd bs \<noteq> ''..''" if "bs \<noteq> []"
    using strip_common_prefix[OF s] p(1) that by (cases bs) (auto simp: plain_comp_def)
  moreover have "path_of True ?b \<noteq> ''.''" by (simp add: path_of_def)
  ultimately show ?thesis
    using p s by (auto simp: Rel_def Clean_abs assms path_of_inject comps_path_of Let_def)
qed

text \<open>The check of the workspace is the prefix relation on the cleaned components.\<close>

lemma within_prefix:
  assumes "IsAbs candidate" "IsAbs workspace"
  shows "isWithinWorkspace candidate workspace \<longleftrightarrow> prefix (clean_comps True workspace) (clean_comps True candidate)"
proof -
  let ?b = "clean_comps True workspace" let ?t = "clean_comps True candidate"
  have p: "list_all plain_comp ?b" "list_all plain_comp ?t" by (simp_all add: clean_comps_plain)
  have cl: "clean_comps True (Clean workspace) = ?b" "clean_comps True (Clean candidate) = ?t"
    using assms p by (simp_all add: Clean_abs clean_path_of)
  have R: "Rel (Clean workspace) (Clean candidate) = (if ?b = ?t then Some ''.''
    else case strip_common ?b ?t of (bs, ts) \<Rightarrow> Some (Join (replicate (length bs) ''..'' @ ts) ''/''))"
    using Rel_abs[OF IsAbs_Clean[OF assms(2)] IsAbs_Clean[OF assms(1)]] unfolding cl .
  show ?thesis
  proof (cases "?b = ?t")
    case True
    then have "isWithinWorkspace candidate workspace \<longleftrightarrow> IsLocal ''.''" using R by (simp add: isWithinWorkspace_def)
    moreover have "IsLocal ''.''" by code_simp
    ultimately show ?thesis using True by simp
  next
    case False
    obtain bs ts where s: "strip_common ?b ?t = (bs, ts)" by fastforce
    obtain cs where cs: "?b = cs @ bs" "?t = cs @ ts" "bs = [] \<or> ts = [] \<or> hd bs \<noteq> hd ts"
      using strip_common_prefix[OF s] by blast
    have "list_all plain_comp ts" using p(2) cs(2) by simp
    moreover have "length bs > 0 \<or> ts \<noteq> []" using False cs by auto
    ultimately have "isWithinWorkspace candidate workspace \<longleftrightarrow> bs = []"
      using IsLocal_ups[of ts "length bs"] R False s by (simp add: isWithinWorkspace_def)
    moreover have "prefix ?b ?t \<longleftrightarrow> bs = []"
      using cs by (cases bs; cases ts) auto
    ultimately show ?thesis by simp
  qed
qed

lemma Abs_abs: "Abs wd p = Some q \<Longrightarrow> (\<And>d. wd = Some d \<Longrightarrow> IsAbs d) \<Longrightarrow> IsAbs q \<and> Clean q = q"
proof (cases "IsAbs p")
  case True
  assume "Abs wd p = Some q"
  with True show ?thesis by (auto simp: Abs_def IsAbs_Clean Clean_idem_abs)
next
  case False
  assume a: "Abs wd p = Some q" and d: "\<And>d. wd = Some d \<Longrightarrow> IsAbs d"
  from a False obtain e where e: "wd = Some e" "q = path_join [e, p]" by (auto simp: Abs_def)
  have "IsAbs (Join (filter (\<lambda>e. e \<noteq> []) [e, p]) ''/'')" "filter (\<lambda>e. e \<noteq> []) [e, p] \<noteq> []"
    using d[OF e(1)] by (cases e; auto simp: IsAbs_def HasPrefix_def)+
  then show ?thesis using e by (auto simp: path_join_def Let_def IsAbs_Clean Clean_idem_abs)
qed

text \<open>\<^verbatim>\<open>filepath.Dir\<close> of a cleaned path drops its last component, as \<open>climb\<close> does.\<close>

lemma Join_snoc: "cs \<noteq> [] \<Longrightarrow> Join (cs @ [c]) sep = Join cs sep @ sep @ c"
  by (induction cs sep rule: Join.induct) auto

lemma dropWhile_last_slash: "CHR ''/'' \<notin> set c \<Longrightarrow> rev (dropWhile (\<lambda>x. x \<noteq> CHR ''/'') (rev (s @ ''/'' @ c))) = s @ ''/''"
  by (induction c rule: rev_induct) auto

lemma clean_trailing: "clean_comps r (s @ ''/'') = clean_comps r s"
proof -
  have "split_slash (s @ ''/'') = split_slash s @ [[]]" by (induction s) (auto split: list.splits)
  then show ?thesis by (simp add: clean_comps_def clean_push_def)
qed

lemma Dir_path_of:
  assumes "list_all plain_comp (cs @ [c])"
  shows "Dir (path_of True (cs @ [c])) = path_of True cs"
proof -
  have c: "CHR ''/'' \<notin> set c" "list_all plain_comp cs" using assms by (auto simp: plain_comp_def)
  have "rev (dropWhile (\<lambda>x. x \<noteq> CHR ''/'') (rev (path_of True (cs @ [c])))) = (if cs = [] then ''/'' else path_of True cs @ ''/'')"
  proof (cases "cs = []")
    case True
    then show ?thesis using dropWhile_last_slash[OF c(1), of "[]"] by (simp add: path_of_def)
  next
    case False
    then show ?thesis using dropWhile_last_slash[OF c(1), of "path_of True cs"] by (simp add: path_of_def Join_snoc)
  qed
  moreover have "IsAbs (path_of True cs @ ''/'')" by (simp add: path_of_def)
  ultimately show ?thesis
    using c(2) clean_comps_Join[of "[]" True 0] by (auto simp: Dir_def Clean_abs clean_trailing clean_path_of clean_comps_slash)
qed

section \<open>Properties\<close>

text \<open>The deepest of the directories on the way to a place, the place included, that exists: \<open>k\<close> components long.
  A link whose target is not there counts as missing.\<close>

definition deepest :: "(string \<Rightarrow> eval_result) \<Rightarrow> string list \<Rightarrow> nat \<Rightarrow> bool" where
  "deepest ev cs k \<longleftrightarrow> k \<le> length cs \<and> ev (path_of True (take k cs)) \<noteq> Missing
     \<and> list_all (\<lambda>j. ev (path_of True (take j cs)) = Missing) [Suc k..<Suc (length cs)]"

definition real_workspace :: "(string \<Rightarrow> eval_result) \<Rightarrow> string \<Rightarrow> string" where
  "real_workspace ev w = (case ev w of Resolved r \<Rightarrow> r | _ \<Rightarrow> w)"

lemma deepest_found: "deepest ev cs k \<Longrightarrow> ev (path_of True (take k cs)) \<noteq> Missing"
  by (simp add: deepest_def)

lemma deepest_snoc:
  "deepest ev (cs @ [c]) k \<longleftrightarrow>
     (if ev (path_of True (cs @ [c])) = Missing then deepest ev cs k else k = length (cs @ [c]))"
proof (cases "k \<le> length cs")
  case True
  have "[Suc k..<Suc (length (cs @ [c]))] = [Suc k..<Suc (length cs)] @ [Suc (length cs)]" using True by simp
  moreover have "list_all (\<lambda>j. ev (path_of True (take j (cs @ [c]))) = Missing) [Suc k..<Suc (length cs)]
      = list_all (\<lambda>j. ev (path_of True (take j cs)) = Missing) [Suc k..<Suc (length cs)]"
    by (intro list_all_cong) auto
  ultimately show ?thesis using True by (auto simp: deepest_def simp del: upt_Suc)
next
  case False
  then show ?thesis by (auto simp: deepest_def le_Suc_eq)
qed

lemma climb_deepest:
  "(\<exists>k. deepest ev cs k \<and> climb ev (rev cs) = ev (path_of True (take k cs)))
   \<or> (\<forall>k. \<not> deepest ev cs k) \<and> climb ev (rev cs) = Missing"
proof (induction cs rule: rev_induct)
  case Nil
  show ?case by (cases "ev (path_of True [])") (auto simp: deepest_def)
next
  case (snoc c cs)
  have r: "rev (cs @ [c]) = c # rev cs" "rev (c # rev cs) = cs @ [c]" by simp_all
  show ?case
  proof (cases "ev (path_of True (cs @ [c])) = Missing")
    case True
    then have "climb ev (rev (cs @ [c])) = climb ev (rev cs)" unfolding r by (simp add: r)
    moreover have "take k (cs @ [c]) = take k cs" if "deepest ev cs k" for k using that by (simp add: deepest_def)
    ultimately show ?thesis using snoc True by (auto simp: deepest_snoc)
  next
    case False
    then have "climb ev (rev (cs @ [c])) = ev (path_of True (cs @ [c]))" unfolding r by (simp add: r split: eval_result.split)
    then show ?thesis using False by (auto simp: deepest_snoc)
  qed
qed

lemma deepest_unique: "deepest ev cs k \<Longrightarrow> deepest ev cs k' \<Longrightarrow> k = k'"
  by (induction cs arbitrary: k k' rule: rev_induct) (auto simp: deepest_snoc deepest_def[of _ "[]"] split: if_splits)

lemma ancestor_climb:
  assumes "list_all plain_comp cs"
  shows "(case ev (path_of True cs) of Missing \<Rightarrow> resolveExistingAncestor ev (Dir (path_of True cs)) | r \<Rightarrow> r) = climb ev (rev cs)"
proof (cases cs rule: rev_cases)
  case Nil
  have "Dir (path_of True []) = path_of True []" by code_simp
  then show ?thesis using Nil by (auto simp: resolveExistingAncestor_def clean_path_of split: eval_result.split)
next
  case (snoc ds d)
  then have "list_all plain_comp ds" "Dir (path_of True cs) = path_of True ds" using assms Dir_path_of[of ds d] by auto
  then show ?thesis using snoc by (simp add: resolveExistingAncestor_def clean_path_of split: eval_result.split)
qed

lemma validate_exact:
  assumes "\<And>d. wd = Some d \<Longrightarrow> IsAbs d" "\<And>p r. IsAbs p \<Longrightarrow> ev p = Resolved r \<Longrightarrow> IsAbs r"
    and "Abs wd workspace = Some w" "workspace \<noteq> []"
  shows "validatePath wd ev path workspace True = Inr p \<longleftrightarrow>
    (if IsAbs path then Some (Clean path) else Abs wd (path_join [w, path])) = Some p
    \<and> prefix (clean_comps True w) (clean_comps True p)
    \<and> ((\<exists>k r. deepest ev (clean_comps True p) k \<and> ev (path_of True (take k (clean_comps True p))) = Resolved r
            \<and> prefix (clean_comps True (real_workspace ev w)) (clean_comps True r))
       \<or> (\<forall>k. \<not> deepest ev (clean_comps True p) k))"
proof -
  have w: "IsAbs w" using Abs_abs[OF assms(3,1)] by simp
  have rw: "IsAbs (real_workspace ev w)" using assms(2)[OF w] w by (auto simp: real_workspace_def split: eval_result.splits)
  let ?abs = "if IsAbs path then Some (Clean path) else Abs wd (path_join [w, path])"
  have q: "?abs = Some q \<Longrightarrow> IsAbs q \<and> Clean q = q" for q
    using Abs_abs[where wd = wd and p = "path_join [w, path]" and q = q] assms(1) IsAbs_Clean[of path] Clean_idem_abs[of path]
    by (auto split: if_splits)
  let ?cl = "\<lambda>a. climb ev (rev (clean_comps True a))"
  have lead: "(case ev a of Missing \<Rightarrow> resolveExistingAncestor ev (Dir a) | r \<Rightarrow> r) = ?cl a" if "?abs = Some a" for a
    using ancestor_climb[OF clean_comps_plain, of ev a] q[OF that] Clean_abs by metis
  have absr: "IsAbs r" if "?cl a = Resolved r" for a r
  proof -
    have "climb ev rcs = Resolved r \<Longrightarrow> IsAbs r" for rcs
      by (induction rcs) (auto split: eval_result.splits intro: assms(2)[OF IsAbs_path_of])
    then show ?thesis using that .
  qed
  have val: "validatePath wd ev path workspace True =
    (case ?abs of None \<Rightarrow> Inl FileUnresolved
     | Some a \<Rightarrow> if \<not> isWithinWorkspace a w then Inl OutsideWorkspace
       else case ?cl a of Resolved r \<Rightarrow> if isWithinWorkspace r (real_workspace ev w) then Inr a else Inl SymlinkOutside
         | Missing \<Rightarrow> Inr a | EvalFailed \<Rightarrow> Inl ResolveFailed)"
    using assms(3,4) lead[symmetric]
    by (auto simp: validatePath_def real_workspace_def Let_def split: option.splits eval_result.splits)
  show ?thesis
  proof (cases ?abs)
    case (Some a)
    note wi = within_prefix[OF _ w, of a] within_prefix[OF absr rw]
    have "IsAbs a" using q[OF Some] by simp
    then show ?thesis unfolding val Some using climb_deepest[of ev "clean_comps True a"]
      by (cases "?cl a") (auto simp: wi dest: deepest_unique deepest_found)
  qed (simp add: val)
qed

lemma deepest_exists: "ev ''/'' \<noteq> Missing \<Longrightarrow> \<exists>k. deepest ev cs k"
proof (induction cs rule: rev_induct)
  case Nil
  then show ?case by (intro exI[of _ 0]) (simp add: deepest_def path_of_def)
next
  case (snoc c cs)
  then show ?case by (cases "ev (path_of True (cs @ [c])) = Missing") (simp_all add: deepest_snoc)
qed

text \<open>C16: The check of the workspace, exactly: a path is accepted if and only if, cleaned and made absolute, its
  components begin with those of the workspace, and the deepest existing directory on its way (the path itself when
  it exists) has a resolution whose components begin with those of the real workspace, or nothing on the way exists,
  not even the root.  So what does not exist is judged by its ancestor, and a dangling link, which does
  not exist for the code, is not followed.\<close>
theorem validate_confines:
  assumes "\<And>d. wd = Some d \<Longrightarrow> IsAbs d" "\<And>p r. IsAbs p \<Longrightarrow> ev p = Resolved r \<Longrightarrow> IsAbs r"
    and "Abs wd workspace = Some w" "workspace \<noteq> []"
  shows "validatePath wd ev path workspace True = Inr p \<longleftrightarrow>
    (if IsAbs path then Some (Clean path) else Abs wd (path_join [w, path])) = Some p
    \<and> prefix (clean_comps True w) (clean_comps True p)
    \<and> ((\<exists>k r. deepest ev (clean_comps True p) k \<and> ev (path_of True (take k (clean_comps True p))) = Resolved r
            \<and> prefix (clean_comps True (real_workspace ev w)) (clean_comps True r))
       \<or> (\<forall>k. \<not> deepest ev (clean_comps True p) k))"
  by (rule validate_exact[OF assms])

definition ex_links :: "string \<Rightarrow> eval_result" where
  "ex_links p = (if p = ''/ws/out'' then Resolved ''/etc'' else if p \<in> {''/ws'', ''/ws/a''} then Resolved p else Missing)"

definition ex_ws :: "string \<Rightarrow> eval_result" where
  "ex_ws p = (if p \<in> {''/'', ''/ws'', ''/ws/a''} then Resolved p else Missing)"

theorem validate_confines_witness:
  "validatePath (Some ''/'') ex_links ''a/../out'' ''/ws'' True = Inl SymlinkOutside
   \<and> validatePath (Some ''/'') ex_links ''a/./b'' ''/ws'' True = Inr ''/ws/a/b''"
proof -
  have d: "\<And>d. Some ''/'' = Some d \<Longrightarrow> IsAbs d" by simp
  have e: "IsAbs p \<Longrightarrow> ex_links p = Resolved r \<Longrightarrow> IsAbs r" for p r
    by (auto simp: ex_links_def split: if_splits)
  have w: "Abs (Some ''/'') ''/ws'' = Some ''/ws''" "''/ws'' \<noteq> []" by code_simp simp
  have c: "(if IsAbs ''a/./b'' then Some (Clean ''a/./b'') else Abs (Some ''/'') (path_join [''/ws'', ''a/./b''])) = Some ''/ws/a/b''"
    "prefix (clean_comps True ''/ws'') (clean_comps True ''/ws/a/b'')" "deepest ex_links (clean_comps True ''/ws/a/b'') 2"
    "ex_links (path_of True (take 2 (clean_comps True ''/ws/a/b''))) = Resolved ''/ws/a''"
    "prefix (clean_comps True (real_workspace ex_links ''/ws'')) (clean_comps True ''/ws/a'')"
    by code_simp+
  with d e w c have "validatePath (Some ''/'') ex_links ''a/./b'' ''/ws'' True = Inr ''/ws/a/b''"
    by (intro validate_confines[where w = "''/ws''", THEN iffD2]) blast+
  moreover have "validatePath (Some ''/'') ex_links ''a/../out'' ''/ws'' True = Inl SymlinkOutside" by code_simp
  ultimately show ?thesis by blast
qed

text \<open>
  What the check is for: where the operating system goes with a path that was accepted.  \<open>goes ev place\<close> says that
  it goes to the resolution of what exists, and to the entry of that name in the place of the directory
  for what does not exist and is no link.  When no dangling link is on the way, an accepted path leads into the real
  workspace; through one, it may lead anywhere.
\<close>

definition goes :: "(string \<Rightarrow> eval_result) \<Rightarrow> (string list \<Rightarrow> string list) \<Rightarrow> string list \<Rightarrow> bool" where
  "goes ev place cs \<longleftrightarrow> (case ev (path_of True cs) of
     Resolved r \<Rightarrow> place cs = clean_comps True r
   | Missing \<Rightarrow> cs \<noteq> [] \<and> place cs = place (butlast cs) @ [last cs]
   | EvalFailed \<Rightarrow> True)"

lemma place_inside:
  assumes "\<And>k. k \<le> length cs \<Longrightarrow> goes ev place (take k cs)" "deepest ev cs k" "ev (path_of True (take k cs)) = Resolved r"
  shows "place cs = clean_comps True r @ drop k cs"
  using assms
proof (induction cs rule: rev_induct)
  case (snoc c cs)
  show ?case
  proof (cases "ev (path_of True (cs @ [c])) = Missing")
    case True
    then have d: "deepest ev cs k" using snoc.prems(2) by (simp add: deepest_snoc)
    then have k: "k \<le> length cs" by (simp add: deepest_def)
    have "goes ev place (take j cs)" if "j \<le> length cs" for j using snoc.prems(1)[of j] that by simp
    then have "place cs = clean_comps True r @ drop k cs" using snoc.IH d snoc.prems(3) k by simp
    moreover have "place (cs @ [c]) = place cs @ [c]"
      using snoc.prems(1)[of "length (cs @ [c])"] True by (simp add: goes_def)
    ultimately show ?thesis using k by simp
  next
    case False
    then have "k = length (cs @ [c])" using snoc.prems(2) by (simp add: deepest_snoc)
    then show ?thesis using snoc.prems(1)[of k] snoc.prems(3) by (simp add: goes_def)
  qed
qed (simp add: goes_def deepest_def)

text \<open>C17: An accepted path stays inside: when no dangling link is on its way and the root exists, the place the system
  goes to for it has the components of the real workspace in front.\<close>
theorem accepted_path_inside:
  assumes "\<And>d. wd = Some d \<Longrightarrow> IsAbs d" "\<And>p r. IsAbs p \<Longrightarrow> ev p = Resolved r \<Longrightarrow> IsAbs r"
    and "Abs wd workspace = Some w" "workspace \<noteq> []" "ev ''/'' \<noteq> Missing"
    and "validatePath wd ev path workspace True = Inr p"
    and "\<And>k. k \<le> length (clean_comps True p) \<Longrightarrow> goes ev place (take k (clean_comps True p))"
  shows "prefix (clean_comps True (real_workspace ev w)) (place (clean_comps True p))"
proof -
  have "(if IsAbs path then Some (Clean path) else Abs wd (path_join [w, path])) = Some p
    \<and> prefix (clean_comps True w) (clean_comps True p)
    \<and> ((\<exists>k r. deepest ev (clean_comps True p) k \<and> ev (path_of True (take k (clean_comps True p))) = Resolved r
            \<and> prefix (clean_comps True (real_workspace ev w)) (clean_comps True r))
       \<or> (\<forall>k. \<not> deepest ev (clean_comps True p) k))"
    by (rule validate_exact[THEN iffD1]) (fact assms)+
  then obtain k r where "deepest ev (clean_comps True p) k" "ev (path_of True (take k (clean_comps True p))) = Resolved r"
      "prefix (clean_comps True (real_workspace ev w)) (clean_comps True r)"
    using deepest_exists[of ev "clean_comps True p", OF assms(5)] by blast
  then show ?thesis using place_inside[OF assms(7)] by (simp add: prefix_prefix)
qed

text \<open>An existing directory and a new file in it.\<close>

theorem accepted_path_inside_witness:
  "prefix (clean_comps True ''/ws'') (clean_comps True ''/ws/a/b'')"
proof -
  have w: "Abs (Some ''/'') ''/ws'' = Some ''/ws''" "ex_ws ''/'' \<noteq> Missing"
    "validatePath (Some ''/'') ex_ws ''a/./b'' ''/ws'' True = Inr ''/ws/a/b''" "real_workspace ex_ws ''/ws'' = ''/ws''"
    "clean_comps True ''/ws/a/b'' = [''ws'', ''a'', ''b'']" by code_simp+
  have g: "goes ex_ws id [''ws'', ''a'', ''b'']" "goes ex_ws id [''ws'', ''a'']" "goes ex_ws id [''ws'']" "goes ex_ws id []"
    by code_simp+
  have g': "goes ex_ws id (take k [''ws'', ''a'', ''b''])" if "k \<le> Suc (Suc (Suc 0))" for k
  proof -
    have "k = 0 \<or> k = 1 \<or> k = 2 \<or> k = 3" using that by auto
    then show ?thesis using g by (elim disjE) simp_all
  qed
  have "prefix (clean_comps True (real_workspace ex_ws ''/ws'')) (id (clean_comps True ''/ws/a/b''))"
    by (intro accepted_path_inside[where wd = "Some ''/''" and path = "''a/./b''", OF _ _ w(1) _ w(2,3)])
      (use w(5) g' in \<open>simp_all add: ex_ws_def id_def split: if_splits\<close>)
  then show ?thesis by (simp add: w)
qed

text \<open>A link in the workspace to a file outside that is not there yet: the path is accepted, and a write through it
  makes that file.\<close>

theorem dangling_link_accepted:
  assumes "Abs wd workspace = Some w" "workspace \<noteq> []" "\<And>d. wd = Some d \<Longrightarrow> IsAbs d"
    and "\<And>p r. IsAbs p \<Longrightarrow> ev p = Resolved r \<Longrightarrow> IsAbs r"
    and "ev w = Resolved r" "plain_comp link" "ev (path_of True (clean_comps True w @ [link])) = Missing"
  shows "validatePath wd ev (path_of True (clean_comps True w @ [link])) workspace True
    = Inr (path_of True (clean_comps True w @ [link]))"
proof -
  let ?cs = "clean_comps True w @ [link]"
  have p: "list_all plain_comp ?cs" using assms(6) clean_comps_plain by simp
  have w: "IsAbs w" "Clean w = w" using Abs_abs[OF assms(1,3)] by simp_all
  have "path_of True (clean_comps True w) = w" using w Clean_abs[OF w(1)] by simp
  then have "deepest ev ?cs (length (clean_comps True w))" "ev (path_of True (take (length (clean_comps True w)) ?cs)) = Resolved r"
    using assms(5,7) by (simp_all add: deepest_def)
  then show ?thesis using p assms
    by (intro validate_exact[THEN iffD2, of wd ev workspace w]) (auto simp: clean_path_of real_workspace_def)
qed

end
