(* ===== verification/FileTools.thy ===== *)
theory FileTools
  imports FilePaths ToolPolicy Transcript
begin

text \<open>
  The file tools: \<^verbatim>\<open>pkg/tools/filesystem.go\<close>, \<^verbatim>\<open>filesystem_read.go\<close>, \<^verbatim>\<open>filesystem_backend.go\<close> and the atomic
  write of \<^verbatim>\<open>pkg/fileutil\<close>.  A disk maps places (the components of real paths) to contents.  Where the operating
  system ends up for a path, inside an \<^verbatim>\<open>os.Root\<close> or outside, is an argument; reading follows the last link, the
  rename that ends a write replaces the entry itself.  A write is the list of the states of the disk it goes through,
  with the step that fails as an argument, and any of the states may be the last one when the system stops.  Whether a
  file can be removed is a matter of the system.  The directories a write makes on the way hold no contents and are
  not part of the disk.  The text of a system error is left out of the messages.
\<close>

section \<open>The operating system\<close>

type_synonym place = "string list"
type_synonym disk = "string list \<Rightarrow> string option"

record os_paths =
  os_host_read :: "string \<Rightarrow> string list option"
  os_host_entry :: "string \<Rightarrow> string list option"
  os_root_read :: "string \<Rightarrow> string \<Rightarrow> string list option"       \<comment> \<open>of the root and the relative path\<close>
  os_root_entry :: "string \<Rightarrow> string \<Rightarrow> string list option"
  os_root_opens :: "string \<Rightarrow> bool"
  os_refused :: "string list \<Rightarrow> bool"
  os_removes :: "string list \<Rightarrow> bool"                        \<comment> \<open>removing the file works\<close>

datatype file_error =
    FileNotFound | AccessDenied | ReadFailed | WriteFailed string | PathRefused path_error | RootUnavailable
  | OldTextMissing | NotUnique nat

datatype write_fault = MkdirFails | OpenFails | WriteFails nat | SyncFails | ChmodFails | CloseFails | RenameFails

text \<open>Contents at a place (\<open>None\<close>: the path cannot be resolved).\<close>

definition read_place :: "os_paths \<Rightarrow> disk \<Rightarrow> file_error \<Rightarrow> string list option \<Rightarrow> file_error + string" where
  "read_place os disk unresolved loc =
     (case loc of None \<Rightarrow> Inl unresolved
      | Some l \<Rightarrow> if os_refused os l then Inl AccessDenied
                  else case disk l of None \<Rightarrow> Inl FileNotFound | Some d \<Rightarrow> Inr d)"

text \<open>The steps from the temporary file on, which is written from its beginning to its end.  \<open>cleanOpen\<close>: a failed
  opening removes the temporary file too, whoever made it.\<close>

definition write_states :: "bool \<Rightarrow> bool \<Rightarrow> string list \<Rightarrow> string list option \<Rightarrow> string \<Rightarrow> write_fault option \<Rightarrow> disk
    \<Rightarrow> disk list \<times> file_error option" where
  "write_states cleanOpen removes tmp target data fault disk =
     (let written = (\<lambda>n. disk # map (\<lambda>k. disk(tmp \<mapsto> take k data)) [0..<Suc n]);
          remove = (\<lambda>d. if removes then d(tmp := None) else d);
          failed = (\<lambda>n what. (written n @ [remove (disk(tmp \<mapsto> take n data))], Some (WriteFailed what)))
      in if fault = Some MkdirFails then ([disk], Some (WriteFailed ''mkdir''))
      else if fault = Some OpenFails \<or> disk tmp \<noteq> None then
        ([disk] @ (if cleanOpen then [remove disk] else []), Some (WriteFailed ''open''))
      else case fault of
        Some (WriteFails n) \<Rightarrow> failed n ''write''
      | Some SyncFails \<Rightarrow> failed (length data) ''sync''
      | Some ChmodFails \<Rightarrow> failed (length data) ''chmod''
      | Some CloseFails \<Rightarrow> failed (length data) ''close''
      | Some RenameFails \<Rightarrow> failed (length data) ''rename''
      | _ \<Rightarrow> (case target of None \<Rightarrow> failed (length data) ''rename''
             | Some t \<Rightarrow> (written (length data) @ [(disk(tmp := None))(t \<mapsto> data)], None)))"

definition WriteFileAtomic :: "os_paths \<Rightarrow> string \<Rightarrow> string \<Rightarrow> string \<Rightarrow> write_fault option \<Rightarrow> disk \<Rightarrow> disk list \<times> file_error option" where
  "WriteFileAtomic os tmp path data fault disk =
     (case os_host_entry os (path_join [Dir path, tmp]) of
        None \<Rightarrow> ([disk], Some (WriteFailed ''open''))
      | Some t \<Rightarrow> write_states False (os_removes os t) t (os_host_entry os path) data fault disk)"

section \<open>The file systems of the tools\<close>

text \<open>\<^verbatim>\<open>sandboxFs.execute\<close>: the relative path inside the root.\<close>

definition sandbox_path :: "os_paths \<Rightarrow> string \<Rightarrow> string \<Rightarrow> file_error + string" where
  "sandbox_path os workspace path =
     (if workspace = [] then Inl (PathRefused WorkspaceUndefined)
      else if \<not> os_root_opens os workspace then Inl RootUnavailable
      else case getSafeRelPath workspace path of Inl e \<Rightarrow> Inl (PathRefused e) | Inr rel \<Rightarrow> Inr rel)"

definition host_ReadFile :: "os_paths \<Rightarrow> disk \<Rightarrow> string \<Rightarrow> file_error + string" where
  "host_ReadFile os disk path = read_place os disk ReadFailed (os_host_read os path)"

definition sandbox_ReadFile :: "os_paths \<Rightarrow> string \<Rightarrow> disk \<Rightarrow> string \<Rightarrow> file_error + string" where
  "sandbox_ReadFile os workspace disk path =
     (case sandbox_path os workspace path of Inl e \<Rightarrow> Inl e
      | Inr rel \<Rightarrow> read_place os disk AccessDenied (os_root_read os workspace rel))"

definition sandbox_WriteFile :: "os_paths \<Rightarrow> string \<Rightarrow> string \<Rightarrow> string \<Rightarrow> string \<Rightarrow> write_fault option \<Rightarrow> disk \<Rightarrow> disk list \<times> file_error option" where
  "sandbox_WriteFile os workspace tmp path data fault disk =
     (case sandbox_path os workspace path of Inl e \<Rightarrow> ([disk], Some e)
      | Inr rel \<Rightarrow>
          let fault' = (if fault = Some MkdirFails \<and> (Dir rel = ''.'' \<or> Dir rel = ''/'') then None else fault) in
          if fault' = Some MkdirFails then ([disk], Some (WriteFailed ''mkdir''))
          else case os_root_entry os workspace tmp of
            None \<Rightarrow> ([disk], Some (WriteFailed ''open''))
          | Some t \<Rightarrow> write_states True (os_removes os t) t (os_root_entry os workspace rel) data fault' disk)"

datatype file_system = HostFs | SandboxFs string | WhitelistFs string "(string \<Rightarrow> bool) list"

definition buildFs :: "string \<Rightarrow> bool \<Rightarrow> (string \<Rightarrow> bool) list \<Rightarrow> file_system" where
  "buildFs workspace restrict patterns =
     (if \<not> restrict then HostFs
      else if patterns \<noteq> [] then WhitelistFs workspace patterns else SandboxFs workspace)"

definition matches_any :: "(string \<Rightarrow> bool) list \<Rightarrow> string \<Rightarrow> bool" where
  "matches_any patterns path = list_ex (\<lambda>p. p path) patterns"

definition ReadFile :: "os_paths \<Rightarrow> file_system \<Rightarrow> disk \<Rightarrow> string \<Rightarrow> file_error + string" where
  "ReadFile os fs disk path =
     (case fs of HostFs \<Rightarrow> host_ReadFile os disk path
      | SandboxFs w \<Rightarrow> sandbox_ReadFile os w disk path
      | WhitelistFs w ps \<Rightarrow> if matches_any ps path then host_ReadFile os disk path else sandbox_ReadFile os w disk path)"

definition WriteFile :: "os_paths \<Rightarrow> file_system \<Rightarrow> string \<Rightarrow> string \<Rightarrow> string \<Rightarrow> write_fault option \<Rightarrow> disk \<Rightarrow> disk list \<times> file_error option" where
  "WriteFile os fs tmp path data fault disk =
     (case fs of HostFs \<Rightarrow> WriteFileAtomic os tmp path data fault disk
      | SandboxFs w \<Rightarrow> sandbox_WriteFile os w tmp path data fault disk
      | WhitelistFs w ps \<Rightarrow> if matches_any ps path then WriteFileAtomic os tmp path data fault disk
                            else sandbox_WriteFile os w tmp path data fault disk)"

text \<open>A range of an opened file.\<close>

definition ReadFileRange :: "os_paths \<Rightarrow> file_system \<Rightarrow> disk \<Rightarrow> string \<Rightarrow> int \<Rightarrow> int \<Rightarrow> file_error + string" where
  "ReadFileRange os fs disk path off len =
     (case ReadFile os fs disk path of Inl e \<Rightarrow> Inl e
      | Inr d \<Rightarrow> if off < 0 then Inl ReadFailed else if len \<le> 0 then Inr [] else Inr (take (nat len) (drop (nat off) d)))"

definition file_size :: "os_paths \<Rightarrow> file_system \<Rightarrow> disk \<Rightarrow> string \<Rightarrow> int option" where
  "file_size os fs disk path = (case ReadFile os fs disk path of Inl e \<Rightarrow> None | Inr d \<Rightarrow> Some (int (length d)))"

section \<open>Editing\<close>

function count_from :: "string \<Rightarrow> string \<Rightarrow> nat" where
  "count_from s sub =
     (if sub = [] then 0
      else case Index s sub of None \<Rightarrow> 0 | Some i \<Rightarrow> Suc (count_from (drop (i + length sub) s) sub))"
  by pat_completeness auto
termination
proof (relation "measure (\<lambda>(s, sub). length s)")
  fix s sub :: string and i :: nat
  assume "sub \<noteq> []" "Index s sub = Some i"
  with Index_bound[of s sub i] show "((drop (i + length sub) s, sub), (s, sub)) \<in> measure (\<lambda>(s, sub). length s)"
    by (cases sub) auto
qed simp

declare count_from.simps [simp del]

definition str_count :: "string \<Rightarrow> string \<Rightarrow> nat" where
  "str_count s sub = (if sub = [] then Suc (RuneCountInString s) else count_from s sub)"

definition replaceEditContent :: "string \<Rightarrow> string \<Rightarrow> string \<Rightarrow> file_error + string" where
  "replaceEditContent body oldText newText =
     (case Index body oldText of None \<Rightarrow> Inl OldTextMissing
      | Some i \<Rightarrow> if str_count body oldText > 1 then Inl (NotUnique (str_count body oldText))
                  else Inr (take i body @ newText @ drop (i + length oldText) body))"

definition editFile :: "os_paths \<Rightarrow> file_system \<Rightarrow> string \<Rightarrow> string \<Rightarrow> string \<Rightarrow> string \<Rightarrow> write_fault option \<Rightarrow> disk \<Rightarrow> disk list \<times> file_error option" where
  "editFile os fs tmp path oldText newText fault disk =
     (case ReadFile os fs disk path of Inl e \<Rightarrow> ([disk], Some e)
      | Inr body \<Rightarrow> (case replaceEditContent body oldText newText of Inl e \<Rightarrow> ([disk], Some e)
                     | Inr body' \<Rightarrow> WriteFile os fs tmp path body' fault disk))"

definition appendFile :: "os_paths \<Rightarrow> file_system \<Rightarrow> string \<Rightarrow> string \<Rightarrow> string \<Rightarrow> write_fault option \<Rightarrow> disk \<Rightarrow> disk list \<times> file_error option" where
  "appendFile os fs tmp path added fault disk =
     (case ReadFile os fs disk path of
        Inr body \<Rightarrow> WriteFile os fs tmp path (body @ added) fault disk
      | Inl FileNotFound \<Rightarrow> WriteFile os fs tmp path added fault disk
      | Inl e \<Rightarrow> ([disk], Some e))"

section \<open>The tools\<close>

definition file_error_text :: "file_error \<Rightarrow> string" where
  "file_error_text e =
     (case e of
        FileNotFound \<Rightarrow> ''failed to read file: file not found''
      | AccessDenied \<Rightarrow> ''failed to read file: access denied''
      | ReadFailed \<Rightarrow> ''failed to read file''
      | WriteFailed what \<Rightarrow> ''failed to write file: '' @ what
      | PathRefused _ \<Rightarrow> ''path escapes workspace''
      | RootUnavailable \<Rightarrow> ''failed to open workspace''
      | OldTextMissing \<Rightarrow> ''old_text not found in file. Make sure it matches exactly, including whitespace and newlines. Suggestion: use read_file first to see the current file content, then copy the exact text to replace''
      | NotUnique n \<Rightarrow> ''old_text appears '' @ dec_nat n @ '' times. Please provide more context to make it unique'')"

definition SilentResult :: "string \<Rightarrow> tool_result" where
  "SilentResult s = (NewToolResult s)\<lparr>Silent := True\<rparr>"

definition string_arg :: "(string \<times> jval) list \<Rightarrow> string \<Rightarrow> string option" where
  "string_arg args k = (case map_of args k of Some (JStr s) \<Rightarrow> Some s | _ \<Rightarrow> None)"

definition parseOptionalIntArg :: "(string \<times> jval) list \<Rightarrow> string \<Rightarrow> int \<Rightarrow> int \<Rightarrow> int \<Rightarrow> string + int" where
  "parseOptionalIntArg args k defaultVal minVal maxVal =
     (case map_of args k of
        None \<Rightarrow> Inr defaultVal
      | Some (JNum n) \<Rightarrow> if n < minVal \<or> n > maxVal
                         then Inl (k @ '' must be between '' @ dec_int minVal @ '' and '' @ dec_int maxVal) else Inr n
      | Some _ \<Rightarrow> Inl (k @ '' must be an integer''))"

definition write_result :: "string \<Rightarrow> disk list \<times> file_error option \<Rightarrow> disk list \<times> tool_result" where
  "write_result done r = (fst r, case snd r of None \<Rightarrow> SilentResult done | Some e \<Rightarrow> ErrorResult (file_error_text e))"

definition write_file_tool :: "os_paths \<Rightarrow> file_system \<Rightarrow> string \<Rightarrow> (string \<times> jval) list \<Rightarrow> write_fault option \<Rightarrow> disk \<Rightarrow> disk list \<times> tool_result" where
  "write_file_tool os fs tmp args fault disk =
     (case string_arg args ''path'' of None \<Rightarrow> ([disk], ErrorResult ''path is required'')
      | Some path \<Rightarrow>
          (case string_arg args ''content'' of None \<Rightarrow> ([disk], ErrorResult ''content is required'')
           | Some body \<Rightarrow> write_result (''File written: '' @ path) (WriteFile os fs tmp path body fault disk)))"

definition edit_file_tool :: "os_paths \<Rightarrow> file_system \<Rightarrow> string \<Rightarrow> (string \<times> jval) list \<Rightarrow> write_fault option \<Rightarrow> disk \<Rightarrow> disk list \<times> tool_result" where
  "edit_file_tool os fs tmp args fault disk =
     (case string_arg args ''path'' of None \<Rightarrow> ([disk], ErrorResult ''path is required'')
      | Some path \<Rightarrow>
          (case string_arg args ''old_text'' of None \<Rightarrow> ([disk], ErrorResult ''old_text is required'')
           | Some old \<Rightarrow>
               (case string_arg args ''new_text'' of None \<Rightarrow> ([disk], ErrorResult ''new_text is required'')
                | Some new \<Rightarrow> write_result (''File edited: '' @ path) (editFile os fs tmp path old new fault disk))))"

definition append_file_tool :: "os_paths \<Rightarrow> file_system \<Rightarrow> string \<Rightarrow> (string \<times> jval) list \<Rightarrow> write_fault option \<Rightarrow> disk \<Rightarrow> disk list \<times> tool_result" where
  "append_file_tool os fs tmp args fault disk =
     (case string_arg args ''path'' of None \<Rightarrow> ([disk], ErrorResult ''path is required'')
      | Some path \<Rightarrow>
          (case string_arg args ''content'' of None \<Rightarrow> ([disk], ErrorResult ''content is required'')
           | Some body \<Rightarrow> write_result (''Appended to '' @ path) (appendFile os fs tmp path body fault disk)))"

subsection \<open>read_file\<close>

definition parseReadFileRequest :: "(string \<times> jval) list \<Rightarrow> int \<Rightarrow> string + string \<times> int \<times> int" where
  "parseReadFileRequest args defaultMaxBytes =
     (case string_arg args ''path'' of None \<Rightarrow> Inl ''path is required''
      | Some path \<Rightarrow>
          (case parseOptionalIntArg args ''max_bytes'' (if defaultMaxBytes \<le> 0 then 30000 else defaultMaxBytes) 200 (5 * 1024 * 1024) of
             Inl e \<Rightarrow> Inl e
           | Inr parsedMax \<Rightarrow>
               (case parseOptionalIntArg args ''offset'' 0 0 1000000000 of
                  Inl e \<Rightarrow> Inl e | Inr off \<Rightarrow> Inr (path, off, parsedMax))))"

definition read_error :: "file_error \<Rightarrow> tool_result" where
  "read_error e = WithError (ErrorResult (file_error_text e)) (file_error_text e)"

definition range_note :: "int \<Rightarrow> int \<Rightarrow> int \<Rightarrow> string" where
  "range_note fsize off maxBytes =
     CHR 0x0A # ''...'' @ CHR 0x0A # ''[read_file truncated: file_size='' @ dec_int fsize @ '' bytes, offset='' @ dec_int off
       @ '', max_bytes='' @ dec_int maxBytes @ '']'' @ CHR 0x0A # ''...'' @ [CHR 0x0A]"

definition truncated_note :: "int \<Rightarrow> int \<Rightarrow> string" where
  "truncated_note fsize maxBytes =
     CHR 0x0A # ''...'' @ CHR 0x0A # ''[read_file truncated: file_size='' @ dec_int fsize @ '' bytes, max_bytes='' @ dec_int maxBytes
       @ '']'' @ CHR 0x0A # ''...'' @ [CHR 0x0A]"

definition head_tail :: "int \<Rightarrow> int \<times> int" where
  "head_tail maxBytes =
     (let h0 = maxBytes * 7 div 10; t0 = maxBytes * 2 div 10;
          h = (if h0 \<le> 0 then maxBytes else h0); t = (if h0 \<le> 0 then 0 else t0)
      in (h, if h + t > maxBytes then max 0 (maxBytes - h) else t))"

definition readResult :: "os_paths \<Rightarrow> file_system \<Rightarrow> disk \<Rightarrow> string \<Rightarrow> int \<Rightarrow> int \<Rightarrow> tool_result" where
  "readResult os fs disk path off maxBytes =
     (case file_size os fs disk path of
        None \<Rightarrow> (case ReadFileRange os fs disk path off maxBytes of Inl e \<Rightarrow> read_error e | Inr buf \<Rightarrow> NewToolResult buf)
      | Some fsize \<Rightarrow>
          if off > fsize then ErrorResult (''offset out of range: offset='' @ dec_int off @ '', file_size='' @ dec_int fsize)
          else if fsize - off \<le> maxBytes then
            (case ReadFileRange os fs disk path off (fsize - off) of Inl e \<Rightarrow> read_error e | Inr buf \<Rightarrow> NewToolResult buf)
          else if off > 0 then
            (case ReadFileRange os fs disk path off maxBytes of Inl e \<Rightarrow> read_error e
             | Inr buf \<Rightarrow> NewToolResult (buf @ range_note fsize off maxBytes))
          else case head_tail maxBytes of (headBytes, tailBytes) \<Rightarrow>
            (case ReadFileRange os fs disk path 0 headBytes of Inl e \<Rightarrow> read_error e
             | Inr head \<Rightarrow>
                 if tailBytes > 0 \<and> fsize > tailBytes then
                   (case ReadFileRange os fs disk path (fsize - tailBytes) tailBytes of Inl e \<Rightarrow> read_error e
                    | Inr tail \<Rightarrow> NewToolResult (head @ truncated_note fsize maxBytes @ tail))
                 else NewToolResult (head @ truncated_note fsize maxBytes)))"

definition read_file_tool :: "os_paths \<Rightarrow> file_system \<Rightarrow> int \<Rightarrow> (string \<times> jval) list \<Rightarrow> disk \<Rightarrow> tool_result" where
  "read_file_tool os fs maxReadBytes args disk =
     (case parseReadFileRequest args maxReadBytes of
        Inl e \<Rightarrow> WithError (ErrorResult e) e
      | Inr (path, off, maxBytes) \<Rightarrow> readResult os fs disk path off maxBytes)"

definition SetMaxReadBytes :: "int \<Rightarrow> int \<Rightarrow> int" where
  "SetMaxReadBytes maxBytes current = (if maxBytes \<le> 0 then current else min maxBytes (5 * 1024 * 1024))"

definition formatDirEntries :: "(string \<times> bool) list \<Rightarrow> tool_result" where
  "formatDirEntries entries =
     NewToolResult (concat (map (\<lambda>(name, isDir). (if isDir then ''DIR:  '' else ''FILE: '') @ name @ [CHR 0x0A]) entries))"

section \<open>Properties\<close>

text \<open>Where a write puts its temporary file and what it replaces.\<close>

definition uses_host :: "file_system \<Rightarrow> string \<Rightarrow> bool" where
  "uses_host fs path = (case fs of HostFs \<Rightarrow> True | SandboxFs _ \<Rightarrow> False | WhitelistFs _ ps \<Rightarrow> matches_any ps path)"

definition root_of :: "file_system \<Rightarrow> string" where
  "root_of fs = (case fs of HostFs \<Rightarrow> [] | SandboxFs w \<Rightarrow> w | WhitelistFs w _ \<Rightarrow> w)"

definition temp_place :: "os_paths \<Rightarrow> file_system \<Rightarrow> string \<Rightarrow> string \<Rightarrow> string list option" where
  "temp_place os fs tmp path =
     (if uses_host fs path then os_host_entry os (path_join [Dir path, tmp]) else os_root_entry os (root_of fs) tmp)"

definition target_place :: "os_paths \<Rightarrow> file_system \<Rightarrow> string \<Rightarrow> string list option" where
  "target_place os fs path =
     (if uses_host fs path then os_host_entry os path
      else case sandbox_path os (root_of fs) path of Inl e \<Rightarrow> None | Inr rel \<Rightarrow> os_root_entry os (root_of fs) rel)"

lemma WriteFile_cases:
  "(\<exists>e. WriteFile os fs tmp path data fault disk = ([disk], Some e))
   \<or> (\<exists>b t fault'. temp_place os fs tmp path = Some t
        \<and> WriteFile os fs tmp path data fault disk = write_states b (os_removes os t) t (target_place os fs path) data fault' disk)"
  by (cases fs) (auto simp: WriteFile_def WriteFileAtomic_def sandbox_WriteFile_def temp_place_def target_place_def
      uses_host_def root_of_def Let_def split: option.splits sum.splits)

text \<open>Two disks that differ at most at one place.\<close>

definition same_but :: "string list option \<Rightarrow> disk \<Rightarrow> disk \<Rightarrow> bool" where
  "same_but loc d d' \<longleftrightarrow> (\<forall>l. loc = Some l \<or> d l = d' l)"

text \<open>What a write may do: nothing but at the temporary file and, at the end and as a whole, at its target.\<close>

definition write_ok :: "bool \<Rightarrow> string list \<Rightarrow> string list option \<Rightarrow> string \<Rightarrow> disk \<Rightarrow> disk list \<times> file_error option \<Rightarrow> bool" where
  "write_ok removes t target data disk r \<longleftrightarrow>
     fst r \<noteq> [] \<and> hd (fst r) = disk \<and> (\<forall>d \<in> set (butlast (fst r)). same_but (Some t) disk d)
     \<and> (case snd r of
          Some e \<Rightarrow> same_but (Some t) disk (last (fst r)) \<and> (removes \<and> disk t = None \<longrightarrow> last (fst r) = disk)
        | None \<Rightarrow> disk t = None \<and> (\<exists>p. target = Some p \<and> last (fst r) = disk(p \<mapsto> data)))"

lemma write_states_ok: "write_ok removes t target data disk (write_states b removes t target data fault disk)"
proof (cases "disk t = None")
  case True
  then have d: "disk(t := None) = disk" by (simp add: fun_upd_idem)
  show ?thesis
    by (cases fault; cases target; simp add: write_states_def Let_def True del: upt_Suc append_Cons split: write_fault.split)
      (auto simp: write_ok_def same_but_def d True simp del: upt_Suc)
next
  case False
  then show ?thesis by (auto simp: write_states_def write_ok_def same_but_def Let_def)
qed

text \<open>C19: Writing is atomic: for every file system, path and failing step, all states on the way, at any of which the
  system may stop, have the contents of the disk everywhere but at the temporary file.  A write that succeeds ends with
  the new contents at its target and everything else as before; one that reports an error has changed at
  most the temporary file, and nothing at all when no file had that name and the removal works.  (Directories
  made on the way are not looked at.)\<close>
theorem write_atomic:
  "\<exists>states err. WriteFile os fs tmp path data fault disk = (states, err) \<and> states \<noteq> [] \<and> hd states = disk
    \<and> list_all (same_but (temp_place os fs tmp path) disk) (butlast states)
    \<and> (case err of
         None \<Rightarrow> (\<exists>p. target_place os fs path = Some p \<and> last states = disk(p \<mapsto> data))
       | Some e \<Rightarrow> same_but (temp_place os fs tmp path) disk (last states)
           \<and> (\<forall>t. temp_place os fs tmp path = Some t \<longrightarrow> disk t = None \<longrightarrow> os_removes os t \<longrightarrow> last states = disk))"
proof -
  consider e where "WriteFile os fs tmp path data fault disk = ([disk], Some e)"
    | b t fault' where "temp_place os fs tmp path = Some t"
        "WriteFile os fs tmp path data fault disk = write_states b (os_removes os t) t (target_place os fs path) data fault' disk"
    using WriteFile_cases by blast
  then show ?thesis
  proof cases
    case 1
    then show ?thesis by (simp add: same_but_def)
  next
    case 2
    show ?thesis
      using write_states_ok[of "os_removes os t" t "target_place os fs path" data disk b fault'] 2
      by (cases "write_states b (os_removes os t) t (target_place os fs path) data fault' disk")
        (auto simp: write_ok_def list_all_iff split: option.splits)
  qed
qed

text \<open>The law of \<^verbatim>\<open>os.Root\<close>: the places of the paths of a root lie under it.\<close>

definition root_law :: "os_paths \<Rightarrow> string \<Rightarrow> string list \<Rightarrow> bool" where
  "root_law os w base \<longleftrightarrow> (\<forall>rel l. os_root_read os w rel = Some l \<or> os_root_entry os w rel = Some l \<longrightarrow> prefix base l)"

definition same_outside :: "string list \<Rightarrow> disk \<Rightarrow> disk \<Rightarrow> bool" where
  "same_outside base d d' \<longleftrightarrow> (\<forall>l. prefix base l \<or> d l = d' l)"

definition same_inside :: "string list \<Rightarrow> disk \<Rightarrow> disk \<Rightarrow> bool" where
  "same_inside base d d' \<longleftrightarrow> (\<forall>l. prefix base l \<longrightarrow> d l = d' l)"

lemma write_states_outside:
  assumes "prefix base t" "\<And>p. target = Some p \<Longrightarrow> prefix base p"
  shows "list_all (same_outside base disk) (fst (write_states b removes t target data fault disk))"
  using assms by (auto simp: write_states_def same_outside_def Let_def list_all_iff simp del: upt_Suc split: option.splits write_fault.splits)

lemma sandbox_write_outside:
  assumes "root_law os w base"
  shows "list_all (same_outside base disk) (fst (WriteFile os (SandboxFs w) tmp path data fault disk))"
proof -
  have "prefix base l" if "temp_place os (SandboxFs w) tmp path = Some l \<or> target_place os (SandboxFs w) path = Some l" for l
    using assms that by (auto simp: root_law_def temp_place_def target_place_def uses_host_def root_of_def split: sum.splits)
  then show ?thesis
    using WriteFile_cases[of os "SandboxFs w" tmp path data fault disk] write_states_outside[of base]
    by (auto simp: same_outside_def)
qed

lemma same_outside_refl [simp]: "same_outside base d d"
  by (simp add: same_outside_def)

text \<open>C18: The sandbox confines the tools: what they read depends only on the places under the root, and whatever state a
  write, an edit or an append goes through differs from the disk only there.\<close>
theorem sandbox_confines:
  assumes "root_law os w base" "same_inside base disk disk'"
  shows "ReadFile os (SandboxFs w) disk path = ReadFile os (SandboxFs w) disk' path
    \<and> list_all (same_outside base disk)
        (fst (WriteFile os (SandboxFs w) tmp path data fault disk)
         @ fst (editFile os (SandboxFs w) tmp path old new fault disk)
         @ fst (appendFile os (SandboxFs w) tmp path data fault disk))"
proof -
  have "ReadFile os (SandboxFs w) disk path = ReadFile os (SandboxFs w) disk' path"
    using assms by (auto simp: ReadFile_def sandbox_ReadFile_def read_place_def root_law_def same_inside_def split: sum.splits option.splits)
  moreover note sandbox_write_outside[OF assms(1)]
  ultimately show ?thesis
    by (auto simp: editFile_def appendFile_def split: sum.splits file_error.splits)
qed

text \<open>An operating system without links in which nothing is refused: places are cleaned paths, and a root with a
  relative working directory of its own.\<close>

definition plain_os :: os_paths where
  "plain_os = \<lparr>os_host_read = (\<lambda>p. Some (clean_comps True p)), os_host_entry = (\<lambda>p. Some (clean_comps True p)),
     os_root_read = (\<lambda>w r. Some (clean_comps True w @ clean_comps True r)),
     os_root_entry = (\<lambda>w r. Some (clean_comps True w @ clean_comps True r)),
     os_root_opens = (\<lambda>w. True), os_refused = (\<lambda>l. False), os_removes = (\<lambda>l. True)\<rparr>"

definition ex_disk :: disk where
  "ex_disk = [[''ws'', ''a''] \<mapsto> ''one'', [''etc'', ''passwd''] \<mapsto> ''secret'']"

theorem write_atomic_witness:
  "\<exists>states err. WriteFile plain_os (SandboxFs ''/ws'') ''.tmp-1'' ''a'' ''two'' (Some SyncFails) ex_disk = (states, err)
     \<and> err \<noteq> None \<and> last states = ex_disk"
proof -
  have "temp_place plain_os (SandboxFs ''/ws'') ''.tmp-1'' ''a'' = Some [''ws'', ''.tmp-1'']" by code_simp
  moreover have "ex_disk [''ws'', ''.tmp-1''] = None" "os_removes plain_os [''ws'', ''.tmp-1'']" by (simp_all add: ex_disk_def plain_os_def)
  moreover have "snd (WriteFile plain_os (SandboxFs ''/ws'') ''.tmp-1'' ''a'' ''two'' (Some SyncFails) ex_disk) \<noteq> None" by code_simp
  ultimately show ?thesis
    using write_atomic[of plain_os "SandboxFs ''/ws''" "''.tmp-1''" "''a''" "''two''" "Some SyncFails" ex_disk] by (auto split: option.splits)
qed

theorem sandbox_confines_witness:
  "ReadFile plain_os (SandboxFs ''/ws'') ex_disk ''a'' = ReadFile plain_os (SandboxFs ''/ws'') (ex_disk([''etc''] \<mapsto> [])) ''a''
    \<and> list_all (same_outside [''ws''] ex_disk)
        (fst (WriteFile plain_os (SandboxFs ''/ws'') ''.t'' ''/etc/passwd'' ''x'' None ex_disk)
         @ fst (editFile plain_os (SandboxFs ''/ws'') ''.t'' ''a'' ''one'' ''two'' None ex_disk)
         @ fst (appendFile plain_os (SandboxFs ''/ws'') ''.t'' ''a'' ''x'' None ex_disk))"
proof -
  have "clean_comps True ''/ws'' = [''ws'']" by code_simp
  then have r: "root_law plain_os ''/ws'' [''ws'']" by (auto simp: root_law_def plain_os_def)
  have s: "same_inside [''ws''] ex_disk (ex_disk([''etc''] \<mapsto> []))" by (auto simp: same_inside_def)
  note c = sandbox_confines[OF r s, where tmp = "''.t''" and fault = None]
  show ?thesis using c[where path = "''a''" and data = "''x''" and old = "''one''" and new = "''two''"]
      c[where path = "''/etc/passwd''" and data = "''x''"] by simp
qed

text \<open>C20: A pattern that is meant to open one directory opens every file: the patterns are tried on the path as it was
  given, so a path that begins with the directory and leaves it again is read and replaced on the host, outside of the
  directory and of the workspace, when the system lets the process read and write there and no link is on the
  way (the system then follows the cleaned path).\<close>
theorem allowed_directory_escapes:
  assumes "plain_comp dir" "list_all plain_comp cs" "\<And>s. pat (''/'' @ dir @ ''/'' @ s)" "pat \<in> set ps"
    and "path = ''/'' @ dir @ ''/../'' @ Join cs ''/''" "\<not> prefix [dir] cs" "\<not> prefix (clean_comps True workspace) cs"
    and "os_host_read os path = Some (clean_comps True path)" "os_host_entry os path = Some (clean_comps True path)"
    and "os_host_entry os (path_join [Dir path, tmp]) = Some t" "disk t = None"
    and "\<not> os_refused os cs" "disk cs = Some secret"
  shows "\<exists>l states. \<not> prefix [dir] l \<and> \<not> prefix (clean_comps True workspace) l \<and> disk l = Some secret
    \<and> ReadFile os (buildFs workspace True ps) disk path = Inr secret
    \<and> WriteFile os (buildFs workspace True ps) tmp path data None disk = (states, None) \<and> last states = disk(l \<mapsto> data)"
proof -
  have m: "matches_any ps path" using assms(3)[of "''../'' @ Join cs ''/''"] assms(4,5) by (auto simp: matches_any_def list_ex_iff)
  have d: "CHR ''/'' \<notin> set dir" "dir \<noteq> []" "dir \<noteq> ''.''" "dir \<noteq> ''..''" using assms(1) by (auto simp: plain_comp_def)
  have up: "split_slash (CHR ''.'' # CHR ''.'' # CHR ''/'' # Join cs ''/'') = ''..'' # split_slash (Join cs ''/'')"
    using split_slash_append[of "''..''" "Join cs ''/''"] by simp
  have "split_slash (dir @ CHR ''/'' # ''..'' @ CHR ''/'' # Join cs ''/'') = dir # ''..'' # split_slash (Join cs ''/'')"
    using d(1) up by (simp add: split_slash_append del: split_slash.simps)
  then have "clean_comps True path = clean_comps True (Join cs ''/'')"
    using d assms(5) by (simp add: clean_comps_def clean_push_def)
  then have c: "clean_comps True path = cs" using clean_comps_Join[of cs True 0] assms(2) by simp
  have b: "buildFs workspace True ps = WhitelistFs workspace ps" using assms(4) by (auto simp: buildFs_def)
  have "ReadFile os (buildFs workspace True ps) disk path = Inr secret"
    unfolding b using m c assms(8,12,13) by (simp add: ReadFile_def host_ReadFile_def read_place_def)
  moreover have "\<exists>states. WriteFile os (buildFs workspace True ps) tmp path data None disk = (states, None) \<and> last states = disk(cs \<mapsto> data)"
    unfolding b using m c assms(9-11)
    by (simp add: WriteFile_def WriteFileAtomic_def write_states_def Let_def fun_upd_idem del: upt_Suc)
  ultimately show ?thesis using assms(6,7,13) by blast
qed

theorem allowed_directory_escapes_witness:
  "\<exists>l states. \<not> prefix [''srv''] l \<and> ex_disk l = Some ''secret''
    \<and> ReadFile plain_os (buildFs ''/ws'' True [\<lambda>p. HasPrefix p ''/srv/'']) ex_disk ''/srv/../etc/passwd'' = Inr ''secret''
    \<and> WriteFile plain_os (buildFs ''/ws'' True [\<lambda>p. HasPrefix p ''/srv/'']) ''.tmp-1'' ''/srv/../etc/passwd'' ''mine'' None ex_disk = (states, None)
    \<and> last states = ex_disk(l \<mapsto> ''mine'')"
proof -
  have w: "clean_comps True ''/ws'' = [''ws'']" "clean_comps True ''/srv/../etc/passwd'' = [''etc'', ''passwd'']"
    "os_host_entry plain_os (path_join [Dir ''/srv/../etc/passwd'', ''.tmp-1'']) = Some [''etc'', ''.tmp-1'']" by code_simp+
  have "\<exists>l states. \<not> prefix [''srv''] l \<and> \<not> prefix (clean_comps True ''/ws'') l \<and> ex_disk l = Some ''secret''
    \<and> ReadFile plain_os (buildFs ''/ws'' True [\<lambda>p. HasPrefix p ''/srv/'']) ex_disk ''/srv/../etc/passwd'' = Inr ''secret''
    \<and> WriteFile plain_os (buildFs ''/ws'' True [\<lambda>p. HasPrefix p ''/srv/'']) ''.tmp-1'' ''/srv/../etc/passwd'' ''mine'' None ex_disk = (states, None)
    \<and> last states = ex_disk(l \<mapsto> ''mine'')"
    by (rule allowed_directory_escapes[where cs = "[''etc'', ''passwd'']" and pat = "\<lambda>p. HasPrefix p ''/srv/''", OF _ _ _ _ _ _ _ _ _ w(3)])
      (simp_all add: plain_comp_def ex_disk_def HasPrefix_def w plain_os_def)
  then show ?thesis by blast
qed

subsection \<open>Edits\<close>

lemma Index_Some_split: "Index s sub = Some i \<Longrightarrow> s = take i s @ sub @ drop (i + length sub) s"
proof (induction s arbitrary: i)
  case (Cons c s)
  show ?case
  proof (cases "HasPrefix (c # s) sub")
    case True
    then show ?thesis using Cons.prems by (auto simp: HasPrefix_def) (metis append_take_drop_id)
  next
    case False
    then obtain j where "Index s sub = Some j" "i = Suc j" using Cons.prems by auto
    with Cons.IH show ?thesis by simp
  qed
qed (auto split: if_splits)

lemma count_from_one: "sub \<noteq> [] \<Longrightarrow> Index s sub = Some i \<Longrightarrow> count_from s sub \<le> 1 \<longleftrightarrow> \<not> Contains (drop (i + length sub) s) sub"
  by (subst count_from.simps, simp, subst count_from.simps) (auto simp: Contains_def split: option.splits)

lemma edit_at:
  assumes "old \<noteq> []" "Index body old = Some i"
  shows "replaceEditContent body old new = Inr body' \<longleftrightarrow>
    body' = take i body @ new @ drop (i + length old) body \<and> \<not> Contains (drop (i + length old) body) old"
  using count_from_one[OF assms] assms by (simp add: replaceEditContent_def str_count_def not_le[symmetric]) (rule disjE, auto)

lemma edit_empty: "replaceEditContent body [] new = Inr body' \<longleftrightarrow> body = [] \<and> body' = new"
  by (cases body) (auto simp: replaceEditContent_def str_count_def HasPrefix_def)

text \<open>C40: An edit replaces the first occurrence of the text and nothing else, and is made exactly when the text after
  that occurrence does not contain it again; an occurrence that overlaps the first one is not seen.  The empty text is
  replaced in an empty file only.\<close>
theorem edit_exact:
  "replaceEditContent body old new = Inr body' \<longleftrightarrow>
    (if old = [] then body = [] \<and> body' = new
     else \<exists>u v. body = u @ old @ v \<and> body' = u @ new @ v \<and> Index body old = Some (length u) \<and> \<not> Contains v old)"
proof (cases "old = []")
  case False
  show ?thesis
  proof (cases "Index body old")
    case (Some i)
    let ?u = "take i body" let ?v = "drop (i + length old) body"
    have s: "body = ?u @ old @ ?v" by (rule Index_Some_split[OF Some])
    have l: "length ?u = i" using Index_bound[OF Some] by simp
    have uniq: "u = ?u \<and> v = ?v" if "body = u @ old @ v" "i = length u" for u v
      using that by simp
    show ?thesis unfolding edit_at[OF False Some] using False Some s l uniq by (metis option.inject)
  qed (simp add: replaceEditContent_def False)
qed (simp add: edit_empty)

theorem edit_exact_witness: "replaceEditContent ''x = 1; y = 2'' ''y = 2'' ''y = 3'' = Inr ''x = 1; y = 3''"
proof -
  have i: "Index ''x = 1; y = 2'' ''y = 2'' = Some (length ''x = 1; '')" by code_simp
  have c: "\<not> Contains [] ''y = 2''" by code_simp
  have "\<exists>u v. ''x = 1; y = 2'' = u @ ''y = 2'' @ v \<and> ''x = 1; y = 3'' = u @ ''y = 3'' @ v
    \<and> Index ''x = 1; y = 2'' ''y = 2'' = Some (length u) \<and> \<not> Contains v ''y = 2''"
    by (intro exI[of _ "''x = 1; ''"] exI[of _ "[]"] conjI) (simp, simp, rule i, rule c)
  then show ?thesis by (simp add: edit_exact)
qed

lemma edit_overlapping: "replaceEditContent ''a,,,b'' '',,'' '';'' = Inr ''a;,b'' \<and> drop 2 ''a,,,b'' = '',,'' @ ''b''"
  by code_simp

subsection \<open>Reading\<close>

lemma head_tail_bounds: "0 < m \<Longrightarrow> 0 < fst (head_tail m) \<and> 0 \<le> snd (head_tail m) \<and> fst (head_tail m) + snd (head_tail m) \<le> m"
  by (auto simp: head_tail_def Let_def)

text \<open>What \<^verbatim>\<open>read_file\<close> shows of a file: everything from the offset when it fits the limit; otherwise, from an offset
  on, exactly the next bytes up to the limit, and from the beginning a head and a tail of the file that stay within
  the limit together; an offset behind the end is an error.\<close>
theorem read_file_exact:
  assumes "ReadFile os fs disk path = Inr d" "0 \<le> off" "0 < maxBytes"
  shows "readResult os fs disk path off maxBytes =
    (let n = int (length d) in
     if off > n then ErrorResult (''offset out of range: offset='' @ dec_int off @ '', file_size='' @ dec_int n)
     else if n - off \<le> maxBytes then NewToolResult (drop (nat off) d)
     else if off > 0 then NewToolResult (take (nat maxBytes) (drop (nat off) d) @ range_note n off maxBytes)
     else NewToolResult (take (nat (fst (head_tail maxBytes))) d @ truncated_note n maxBytes
       @ drop (length d - nat (snd (head_tail maxBytes))) d))
    \<and> fst (head_tail maxBytes) + snd (head_tail maxBytes) \<le> maxBytes"
proof -
  obtain h t where ht: "head_tail maxBytes = (h, t)" by fastforce
  then have b: "0 < h" "0 \<le> t" "h + t \<le> maxBytes" using head_tail_bounds[OF assms(3)] by auto
  have tl: "take (nat t) (drop (nat (int (length d) - t)) d) = drop (length d - nat t) d"
    using b by (cases "t \<le> int (length d)") (auto simp: nat_diff_distrib)
  have al: "take (nat (int (length d) - off)) (drop (nat off) d) = drop (nat off) d" by simp
  show ?thesis
    using assms(2,3) b tl al by (auto simp: readResult_def file_size_def ReadFileRange_def assms(1) ht Let_def)
qed

theorem read_file_exact_witness:
  "readResult plain_os HostFs ex_disk ''/ws/a'' 1 200 = NewToolResult ''ne''"
proof -
  have "clean_comps True ''/ws/a'' = [''ws'', ''a'']" by code_simp
  then have "ReadFile plain_os HostFs ex_disk ''/ws/a'' = Inr ''one''"
    by (simp add: ReadFile_def host_ReadFile_def read_place_def plain_os_def ex_disk_def)
  from read_file_exact[OF this, of 1 200] show ?thesis by simp
qed

end
