(* ===== verification/SessionLoad.thy ===== *)
theory SessionLoad
  imports SessionLimits
begin

text \<open>
  Starting the session manager: the files of its directory (\<^verbatim>\<open>manager_load.go\<close>), the migration of a legacy
  snapshot to an event log (\<^verbatim>\<open>manager_paths.go\<close>) and the constructor (\<^verbatim>\<open>manager_gc.go\<close>).
\<close>

section \<open>Grouping the files\<close>

text \<open>The path of a file is its (trimmed) name in the directory; an absent one is empty.\<close>

record session_files =
  sf_meta :: string
  sf_jsonl :: string
  sf_legacy :: string

definition no_files :: session_files where
  "no_files = \<lparr>sf_meta = [], sf_jsonl = [], sf_legacy = []\<rparr>"

definition add_file :: "string \<Rightarrow> (session_files \<Rightarrow> session_files) \<Rightarrow> (string \<times> session_files) list \<Rightarrow> (string \<times> session_files) list" where
  "add_file base upd m =
     (if base = [] then m
      else AList.update base (upd (case map_of m base of None \<Rightarrow> no_files | Some sf \<Rightarrow> sf)) m)"

definition group_entry :: "string \<times> bool \<Rightarrow> (string \<times> session_files) list \<Rightarrow> (string \<times> session_files) list" where
  "group_entry ent m =
     (case ent of
        (raw, isDir) \<Rightarrow>
          if isDir then m
          else
            let name = TrimSpace raw; lower = ToLower name in
            if name = [] \<or> HasPrefix name ''.'' then m
            else if HasSuffix lower ''.meta.json'' then add_file (take (length name - 10) name) (\<lambda>sf. sf\<lparr>sf_meta := name\<rparr>) m
            else if HasSuffix lower ''.jsonl'' then add_file (take (length name - 6) name) (\<lambda>sf. sf\<lparr>sf_jsonl := name\<rparr>) m
            else if HasSuffix lower ''.json'' then add_file (take (length name - 5) name) (\<lambda>sf. sf\<lparr>sf_legacy := name\<rparr>) m
            else m)"

definition groupSessionFiles :: "(string \<times> bool) list \<Rightarrow> (string \<times> session_files) list" where
  "groupSessionFiles files = fold group_entry files []"

section \<open>Migration of a legacy snapshot\<close>

definition legacy_event :: "world \<Rightarrow> string \<Rightarrow> string \<Rightarrow> string \<Rightarrow> session_event \<Rightarrow> session_event" where
  "legacy_event w key parent i payload = payload\<lparr>ev_id := i, ev_parent := parent, ev_ts := w_ts w,
     ev_ts_ms := UnixMilli (w_now w), ev_key := key\<rparr>"

text \<open>The events a snapshot becomes: its messages and, when it has one, its summary.\<close>

definition legacy_payloads :: "session \<Rightarrow> session_event list" where
  "legacy_payloads s =
     map (\<lambda>msg. blank_event\<lparr>ev_type := EventSessionMessage, ev_message := Some msg\<rparr>) (s_messages s) @
     (if TrimSpace (s_summary s) \<noteq> [] then [blank_event\<lparr>ev_type := EventSessionSummary, ev_summary := s_summary s\<rparr>] else [])"

text \<open>\<open>outs\<close> has the id and the outcome of each append.  The result is the log, the id of the last event
  that was appended (the \<open>last\<close> given, if none was) and whether all of them were.\<close>

fun migrate_events :: "world \<Rightarrow> string \<Rightarrow> (string \<times> append_result) list \<Rightarrow> session_event list \<Rightarrow> log_file option
    \<Rightarrow> string \<Rightarrow> string \<Rightarrow> log_file option \<times> string \<times> bool" where
  "migrate_events w key ((i, out) # outs) (p # ps) f parent last_id =
     (case appendJSONLEvent out f (legacy_event w key parent i p) of
        (f', ok) \<Rightarrow> if ok then migrate_events w key outs ps f' i i else (f', last_id, False))"
| "migrate_events w key outs [] f parent last_id = (f, last_id, True)"
| "migrate_events w key [] (p # ps) f parent last_id = (f, last_id, False)"

definition migrateLegacyToJSONL :: "world \<Rightarrow> (string \<times> append_result) list \<Rightarrow> session \<Rightarrow> manager \<Rightarrow> manager \<times> session \<times> bool" where
  "migrateLegacyToJSONL w outs s mg =
     (let key = CanonicalSessionKey (s_key s) in
      if \<not> mg_storage mg \<or> key = [] then (mg, s, True)
      else case fileStemForKey key of
             None \<Rightarrow> (mg, s, True)
           | Some stem \<Rightarrow>
               if map_of (mg_logs mg) stem \<noteq> None then (mg, s, True)
               else case migrate_events w key outs (legacy_payloads s) None (TrimSpace (s_last_event s)) (s_last_event s) of
                      (f, last_id, ok) \<Rightarrow>
                        let s' = s\<lparr>s_last_event := last_id\<rparr>;
                            mg1 = (case f of None \<Rightarrow> mg | Some g \<Rightarrow> mg\<lparr>mg_logs := AList.update stem g (mg_logs mg)\<rparr>)
                        in if ok then (write_meta w key s' mg1, s', True) else (mg1, s', False))"

definition loadLegacySession :: "world \<Rightarrow> (string \<times> append_result) list \<Rightarrow> string \<Rightarrow> manager \<Rightarrow> manager" where
  "loadLegacySession w outs stem mg =
     (case loadLegacySnapshot mg stem of
        None \<Rightarrow> mg
      | Some l \<Rightarrow>
          (case (if mg_storage mg then migrateLegacyToJSONL w outs l mg else (mg, l, True)) of
             (mg1, l1, _) \<Rightarrow>
               let l2 = l1\<lparr>s_key := CanonicalSessionKey (s_key l1)\<rparr>
               in if s_key l2 \<noteq> [] then put_session (s_key l2) l2 mg1 else mg1))"

section \<open>Starting up\<close>

definition load_stem :: "world \<Rightarrow> (string \<Rightarrow> (string \<times> append_result) list) \<Rightarrow> string \<Rightarrow> manager \<Rightarrow> manager" where
  "load_stem w outs stem mg =
     (case loadJSONLSession w stem mg of (mg', handled) \<Rightarrow> if handled then mg' else loadLegacySession w (outs stem) stem mg')"

text \<open>The names the directory lists, and the bases in the order of one \<^verbatim>\<open>range\<close> over the groups.\<close>

definition directory :: "manager \<Rightarrow> (string \<times> bool) list" where
  "directory mg = map (\<lambda>kv. (fst kv @ ''.jsonl'', False)) (mg_logs mg) @ map (\<lambda>kv. (fst kv @ ''.meta.json'', False)) (mg_metas mg) @
     map (\<lambda>kv. (fst kv @ ''.json'', False)) (mg_legacy mg)"

definition loadSessions :: "world \<Rightarrow> (string \<Rightarrow> (string \<times> append_result) list) \<Rightarrow> string list \<Rightarrow> manager \<Rightarrow> manager" where
  "loadSessions w outs order mg = fold (load_stem w outs) order mg"

definition newSessionManagerWithGC :: "world \<Rightarrow> (string \<Rightarrow> (string \<times> append_result) list) \<Rightarrow> string list \<Rightarrow> int \<Rightarrow> duration \<Rightarrow> manager \<Rightarrow> manager" where
  "newSessionManagerWithGC w outs order maxSessions ttl disk =
     (let mg = disk\<lparr>mg_sessions := [], mg_max := (if maxSessions < 0 then 0 else maxSessions), mg_ttl := (if ttl < 0 then 0 else ttl)\<rparr>;
          mg1 = (if mg_storage mg then loadSessions w outs order mg else mg)
      in pruneSessionsLocked (w_now2 w) 0 mg1)"

section \<open>A restart brings every session back\<close>

lemma group_entry_mono: "base \<in> fst ` set m \<Longrightarrow> base \<in> fst ` set (group_entry e m)"
  by (cases e) (auto simp: group_entry_def add_file_def Let_def dom_update)

lemma fold_group_mono: "base \<in> fst ` set m \<Longrightarrow> base \<in> fst ` set (fold group_entry files m)"
  by (induction files arbitrary: m) (auto intro: group_entry_mono)

definition plain_stem :: "string \<Rightarrow> bool" where
  "plain_stem stem \<longleftrightarrow> stem \<noteq> [] \<and> \<not> is_space (hd stem) \<and> hd stem \<noteq> CHR ''.''"

lemma group_jsonl:
  assumes "plain_stem stem"
  shows "stem \<in> fst ` set (group_entry (stem @ ''.jsonl'', False) m)"
proof -
  let ?n = "stem @ ''.jsonl''"
  have "trimmed ?n" using assms by (auto simp: plain_stem_def trimmed_def is_space_def byte_of_def)
  then have t: "TrimSpace ?n = ?n" by (rule TrimSpace_id)
  have p: "\<not> HasPrefix ?n ''.''" using assms by (cases stem) (auto simp: plain_stem_def HasPrefix_def)
  have l: "ToLower ?n = ToLower stem @ ''.jsonl''"
    by (simp add: ToLower_append) (simp add: go_defs)
  have s: "\<not> HasSuffix (ToLower ?n) ''.meta.json''" "HasSuffix (ToLower ?n) ''.jsonl''"
    unfolding l by (auto simp: HasSuffix_def drop_append)
  have "take (length ?n - 6) ?n = stem" by simp
  then show ?thesis
    using t p s assms by (simp add: group_entry_def Let_def add_file_def plain_stem_def dom_update)
qed

lemma directory_group:
  assumes "plain_stem stem" "map_of (mg_logs mg) stem \<noteq> None"
  shows "stem \<in> fst ` set (groupSessionFiles (directory mg))"
proof -
  have "(stem @ ''.jsonl'', False) \<in> set (directory mg)"
    using assms(2) by (force simp: directory_def dest: map_of_SomeD)
  then obtain xs ys where "directory mg = xs @ (stem @ ''.jsonl'', False) # ys" by (meson split_list)
  then show ?thesis
    using group_jsonl [OF assms(1)] fold_group_mono by (simp add: groupSessionFiles_def)
qed

definition restored :: "string \<Rightarrow> session \<Rightarrow> manager \<Rightarrow> bool" where
  "restored key s mg \<longleftrightarrow> (case get_session mg key of None \<Rightarrow> False | Some s' \<Rightarrow> core s' = json_core s \<and> s_last_event s' = s_last_event s)"

definition same_files :: "manager \<Rightarrow> manager \<Rightarrow> bool" where
  "same_files mg mg0 \<longleftrightarrow> mg_logs mg0 = mg_logs mg \<and> mg_metas mg0 = mg_metas mg \<and> mg_legacy mg0 = mg_legacy mg"

definition all_consistent :: "manager \<Rightarrow> bool" where
  "all_consistent mg \<longleftrightarrow> mg_storage mg \<and> mg_legacy mg = [] \<and>
     (\<forall>stem \<in> fst ` set (mg_logs mg). \<exists>key evs s. consistent key stem evs s mg \<and> evs \<noteq> [])"

lemma consistent_meta:
  "consistent key stem evs s mg \<Longrightarrow> evs \<noteq> [] \<Longrightarrow> \<exists>m. map_of (mg_metas mg) stem = Some m \<and> sm_key m = key"
  by (auto simp: consistent_def meta_points_at_def split: option.splits if_splits)

lemma load_consistent:
  assumes "consistent key stem evs s mg" "evs \<noteq> []" "same_files mg mg0"
  shows "\<exists>s'. load_stem w outs stem mg0 = put_session key s' mg0 \<and> core s' = json_core s \<and> s_last_event s' = s_last_event s"
proof -
  obtain f where "map_of (mg_logs mg) stem = Some f" using assms by (auto simp: consistent_def clean_log_def)
  then show ?thesis
    using load_core [of key mg0 stem f evs "s_last_event s" w] assms
    by (auto simp: consistent_def same_files_def load_stem_def split: if_splits)
qed

lemma load_stem_restores:
  assumes all: "all_consistent mg" and same: "same_files mg mg0"
    and c: "consistent key stem evs s mg" "evs \<noteq> []" and old: "st = stem \<or> restored key s mg0"
  shows "same_files mg (load_stem w outs st mg0) \<and> restored key s (load_stem w outs st mg0) \<and>
    mg_max (load_stem w outs st mg0) = mg_max mg0 \<and> mg_ttl (load_stem w outs st mg0) = mg_ttl mg0"
proof (cases "map_of (mg_logs mg) st")
  case None
  then have "st \<noteq> stem" using c by (auto simp: consistent_def clean_log_def)
  moreover have "load_stem w outs st mg0 = mg0"
    using None same all by (simp add: load_stem_def loadJSONLSession_def same_files_def loadLegacySession_def
        loadLegacySnapshot_def all_consistent_def)
  ultimately show ?thesis using old same by simp
next
  case (Some f)
  then have "st \<in> fst ` set (mg_logs mg)" by (metis image_eqI map_of_SomeD fst_conv)
  then obtain k e t where k: "consistent k st e t mg" "e \<noteq> []" using all by (auto simp: all_consistent_def)
  from load_consistent [OF this same] obtain s' where
    s': "load_stem w outs st mg0 = put_session k s' mg0" "core s' = json_core t" "s_last_event s' = s_last_event t" by blast
  have "restored key s (put_session k s' mg0)"
  proof (cases "k = key")
    case True
    then have "t = s" using k(1) c(1) by (simp add: consistent_def)
    then show ?thesis using True s'(2,3) by (simp add: restored_def)
  next
    case False
    then have "st \<noteq> stem" using consistent_meta [OF k] consistent_meta [OF c] by auto
    with old False show ?thesis by (simp add: restored_def)
  qed
  then show ?thesis using s'(1) same by (simp add: same_files_def)
qed

lemma loadSessions_restores:
  assumes "all_consistent mg" "consistent key stem evs s mg" "evs \<noteq> []"
    and "same_files mg mg0" "stem \<in> set order \<or> restored key s mg0"
  shows "restored key s (loadSessions w outs order mg0) \<and> mg_max (loadSessions w outs order mg0) = mg_max mg0 \<and>
    mg_ttl (loadSessions w outs order mg0) = mg_ttl mg0"
  using assms(4,5)
proof (induction order arbitrary: mg0)
  case (Cons st order)
  show ?case
  proof (cases "st = stem \<or> restored key s mg0")
    case True
    then show ?thesis
      using load_stem_restores [OF assms(1) Cons.prems(1) assms(2,3) True] Cons.IH by (simp add: loadSessions_def)
  next
    case False
    have "same_files mg (load_stem w outs st mg0) \<and> mg_max (load_stem w outs st mg0) = mg_max mg0 \<and> mg_ttl (load_stem w outs st mg0) = mg_ttl mg0"
    proof (cases "map_of (mg_logs mg) st")
      case None
      then show ?thesis
        using Cons.prems(1) assms(1) by (simp add: load_stem_def loadJSONLSession_def same_files_def loadLegacySession_def
          loadLegacySnapshot_def all_consistent_def)
    next
      case (Some f)
      then have "st \<in> fst ` set (mg_logs mg)" by (metis image_eqI map_of_SomeD fst_conv)
      then obtain k e t where "consistent k st e t mg" "e \<noteq> []" using assms(1) by (auto simp: all_consistent_def)
      from load_consistent [OF this Cons.prems(1), of w outs] Cons.prems(1) show ?thesis by (auto simp: same_files_def)
    qed
    then show ?thesis using Cons.IH [of "load_stem w outs st mg0"] Cons.prems(2) False by (auto simp: loadSessions_def)
  qed
qed (simp add: loadSessions_def)

text \<open>
  A restart brings every session back.  When each log of the directory belongs to a session that is
  consistent with it, the constructor, loading the groups of files in whatever order the map gives them,
  shows each of these sessions as the old process did (without limits that would evict it at once).
\<close>

theorem restart_restores_all:
  assumes "all_consistent mg" and "set order = fst ` set (groupSessionFiles (directory mg))"
    and "consistent key stem evs s mg" and "evs \<noteq> []" and "plain_stem stem"
  shows "shown (newSessionManagerWithGC w outs order 0 0 mg) key = shown mg key"
proof -
  let ?mg0 = "mg\<lparr>mg_sessions := [], mg_max := 0, mg_ttl := 0\<rparr>"
  have st: "mg_storage mg" "map_of (mg_logs mg) stem \<noteq> None" "key \<noteq> []" "CanonicalSessionKey key = key" "get_session mg key = Some s"
    using assms(3,4) by (auto simp: consistent_def clean_log_def)
  have "stem \<in> set order" using directory_group [OF assms(5) st(2)] assms(2) by simp
  then have r: "restored key s (loadSessions w outs order ?mg0)" "mg_max (loadSessions w outs order ?mg0) = 0"
    "mg_ttl (loadSessions w outs order ?mg0) = 0"
    using loadSessions_restores [OF assms(1,3,4), of ?mg0 order w outs] by (simp_all add: same_files_def)
  have "newSessionManagerWithGC w outs order 0 0 mg = loadSessions w outs order ?mg0"
    using st(1) r by (simp add: newSessionManagerWithGC_def pruneSessionsLocked_def Let_def)
  with r(1) st show ?thesis
    by (auto simp: restored_def intro!: shown_core(1) split: option.splits)
qed

theorem restart_restores_all_witness:
  "shown (newSessionManagerWithGC (ex_world []) (\<lambda>_. []) [''conv_main''] 0 0 ex_mg) ''conv:main'' = shown ex_mg ''conv:main''"
proof -
  obtain s where c: "consistent ''conv:main'' ''conv_main'' (log_of ''conv_main'' ex_mg) s ex_mg"
    using ex_mg_consistent by blast
  have e: "log_of ''conv_main'' ex_mg \<noteq> []" "plain_stem ''conv_main''" by code_simp+
  have d: "mg_legacy ex_mg = []" "map fst (mg_logs ex_mg) = [''conv_main'']" "mg_storage ex_mg"
    "map fst (groupSessionFiles (directory ex_mg)) = [''conv_main'']" by code_simp+
  have a: "all_consistent ex_mg"
    unfolding all_consistent_def set_map [symmetric] d using c e(1) d(1,3) by auto
  have o: "set [''conv_main''] = fst ` set (groupSessionFiles (directory ex_mg))"
    unfolding set_map [symmetric] d by simp
  show ?thesis by (rule restart_restores_all [OF a o c e])
qed

section \<open>What a migration keeps\<close>

fun migrated :: "world \<Rightarrow> string \<Rightarrow> string list \<Rightarrow> session_event list \<Rightarrow> string \<Rightarrow> session_event list" where
  "migrated w key (i # ids) (p # ps) parent = json_event (legacy_event w key parent i p) # migrated w key ids ps i"
| "migrated w key _ _ parent = []"

lemma legacy_event_fields [simp]:
  "ev_id (legacy_event w key parent i p) = i" "ev_parent (legacy_event w key parent i p) = parent"
  "ev_type (legacy_event w key parent i p) = ev_type p" "ev_message (legacy_event w key parent i p) = ev_message p"
  "ev_summary (legacy_event w key parent i p) = ev_summary p" "ev_history (legacy_event w key parent i p) = ev_history p"
  by (simp_all add: legacy_event_def)

lemma fresh_snoc:
  "fresh_id x evs \<Longrightarrow> x \<noteq> TrimSpace (ev_id e) \<Longrightarrow> x \<noteq> TrimSpace (ev_parent e) \<Longrightarrow> fresh_id x (evs @ [e])"
  by (auto simp: fresh_id_def)

lemma migrate_events_chain:
  assumes "length ids = length ps" "clean_log f evs" "branch evs parent = evs"
    "distinct ids" "\<forall>i \<in> set ids. fresh_id i evs \<and> i \<noteq> TrimSpace parent" "parent \<noteq> [] \<or> evs = []"
  shows "\<exists>f'. migrate_events w key (map (\<lambda>i. (i, Appended)) ids) ps f parent last_id
      = (f', if ids = [] then last_id else last ids, True) \<and>
    clean_log f' (evs @ migrated w key ids ps parent) \<and>
    branch (evs @ migrated w key ids ps parent) (if ids = [] then parent else last ids) = evs @ migrated w key ids ps parent"
  using assms
proof (induction ids ps arbitrary: f evs parent last_id rule: list_induct2)
  case (Cons i ids p ps)
  let ?e = "json_event (legacy_event w key parent i p)"
  have fr: "fresh_id i evs" "i \<noteq> TrimSpace parent" "TrimSpace i = i" "i \<noteq> []"
    using Cons.prems(4) by (auto simp: fresh_id_def TrimSpace_id)
  have a: "appendJSONLEvent Appended f (legacy_event w key parent i p) = (Some \<lparr>lf_lines = map Some (evs @ [?e]), lf_open = False\<rparr>, True)"
    using clean_log_append [OF Cons.prems(1)] by simp
  have b: "branch (evs @ [?e]) i = evs @ [?e]"
    using branch_snoc [of ?e evs] fr Cons.prems(2) by simp
  have "\<forall>j \<in> set ids. fresh_id j (evs @ [?e]) \<and> j \<noteq> TrimSpace i"
    using Cons.prems(3,4) fr by (auto intro!: fresh_snoc)
  with Cons.IH [of "Some \<lparr>lf_lines = map Some (evs @ [?e]), lf_open = False\<rparr>" "evs @ [?e]" i i] Cons.prems(3) b fr(4)
  obtain f' where "migrate_events w key (map (\<lambda>i. (i, Appended)) ids) ps (Some \<lparr>lf_lines = map Some (evs @ [?e]), lf_open = False\<rparr>) i i
      = (f', if ids = [] then i else last ids, True)"
    "clean_log f' ((evs @ [?e]) @ migrated w key ids ps i)"
    "branch ((evs @ [?e]) @ migrated w key ids ps i) (if ids = [] then i else last ids) = (evs @ [?e]) @ migrated w key ids ps i"
    by (auto simp: clean_log_def)
  with a show ?case by (simp del: map_append)
qed simp

lemma core_migrated:
  "length ids = length ps \<Longrightarrow> core s = core t \<Longrightarrow>
     core (fold apply_event (migrated w key ids ps parent) s) = core (fold apply_event (map json_event ps) t)"
proof (induction ids ps arbitrary: s t parent rule: list_induct2)
  case (Cons i ids p ps)
  have "core (apply_event (json_event (legacy_event w key parent i p)) s) = core (apply_event (json_event p) t)"
    using Cons.prems unfolding core_apply
    by (auto simp: core_def legacy_event_def json_event_def split: event_type.splits option.splits)
  with Cons.IH show ?case by simp
qed simp

lemma core_messages:
  "core s = core t \<Longrightarrow>
   core (fold apply_event (map json_event (map (\<lambda>msg. blank_event\<lparr>ev_type := EventSessionMessage, ev_message := Some msg\<rparr>) ms)) s)
     = core (t\<lparr>s_messages := s_messages t @ map json_message ms\<rparr>)"
proof (induction ms arbitrary: s t)
  case (Cons m ms)
  have "core (apply_event (json_event (blank_event\<lparr>ev_type := EventSessionMessage, ev_message := Some m\<rparr>)) s)
      = core (t\<lparr>s_messages := s_messages t @ [json_message m]\<rparr>)"
    using Cons.prems unfolding core_apply by (simp add: core_def)
  from Cons.IH [OF this] show ?case by simp
qed simp

lemma core_payloads:
  "core (fold apply_event (map json_event (legacy_payloads l)) empty_session)
     = (map json_message (s_messages l), if TrimSpace (s_summary l) \<noteq> [] then s_summary l else [], 0, zero_time, 0)"
proof -
  define S where "S = fold apply_event (map json_event (map (\<lambda>msg. blank_event\<lparr>ev_type := EventSessionMessage, ev_message := Some msg\<rparr>)
    (s_messages l))) empty_session"
  define e where "e = json_event (blank_event\<lparr>ev_type := EventSessionSummary, ev_summary := s_summary l\<rparr>)"
  have S: "core S = core (empty_session\<lparr>s_messages := map json_message (s_messages l)\<rparr>)"
    using core_messages [of empty_session empty_session "s_messages l"] by (simp add: empty_session_def S_def)
  have "fold apply_event (map json_event (legacy_payloads l)) empty_session
      = (if TrimSpace (s_summary l) \<noteq> [] then apply_event e S else S)"
    by (simp add: legacy_payloads_def S_def e_def)
  moreover have "core (apply_event e S) = core (S\<lparr>s_summary := s_summary l\<rparr>)" by (simp add: core_apply e_def)
  ultimately show ?thesis using S by (simp add: core_def empty_session_def)
qed

lemma migrated_last:
  "length ids = length ps \<Longrightarrow> ids \<noteq> [] \<Longrightarrow> \<exists>e \<in> set (migrated w key ids ps parent). ev_id e = last ids"
  by (induction ids ps arbitrary: parent rule: list_induct2) auto

text \<open>
  A legacy snapshot keeps its conversation, and loses its compaction state.  When all writes of the
  migration succeed, the process that migrates shows the snapshot as it is; from the next restart on, when
  the new log is loaded instead, the history and the summary are still there, but the number of compactions
  and the last memory flush are zero again: no event is written for them.
\<close>

theorem legacy_migration:
  assumes "mg_storage mg" and "loadLegacySnapshot mg stem0 = Some l" and "s_key l = key" and "key \<noteq> []"
    and "CanonicalSessionKey key = key" and "fileStemForKey key = Some stem" and "map_of (mg_logs mg) stem = None"
    and "legacy_payloads l \<noteq> []" and "length ids = length (legacy_payloads l)" and "distinct ids"
    and "\<forall>i \<in> set ids. i \<noteq> [] \<and> trimmed i \<and> i \<noteq> TrimSpace (s_last_event l)" and "w_meta_ok w"
    and "mg' = loadLegacySession w (map (\<lambda>i. (i, Appended)) ids) stem0 mg"
  shows "GetHistory mg' key = s_messages l \<and> GetSummary mg' key = s_summary l \<and>
    GetCompactionState mg' key = (s_compaction l, s_flush_count l, s_flush_at l) \<and>
    GetHistory (reload w' stem mg') key = map json_message (s_messages l) \<and>
    GetSummary (reload w' stem mg') key = (if TrimSpace (s_summary l) \<noteq> [] then s_summary l else []) \<and>
    GetCompactionState (reload w' stem mg') key = (0, 0, zero_time)"
proof -
  let ?new = "migrated w key ids (legacy_payloads l) (TrimSpace (s_last_event l))"
  have ids: "ids \<noteq> []" using assms(8,9) by auto
  have bl: "branch [] p = []" for p
    by (simp add: branch_def collectPathIDs_def path_events_def by_id_def indexEvents_def)
       (subst path_from.simps, simp add: List.map_filter_simps)
  from migrate_events_chain [OF assms(9), of None "[]" "TrimSpace (s_last_event l)" w key "s_last_event l"]
  obtain f where f: "migrate_events w key (map (\<lambda>i. (i, Appended)) ids) (legacy_payloads l) None (TrimSpace (s_last_event l)) (s_last_event l)
      = (f, last ids, True)" "clean_log f ?new" "branch ?new (last ids) = ?new"
    using ids assms(10,11) bl by (auto simp: clean_log_def fresh_id_def)
  have ne: "?new \<noteq> []" using assms(8,9) by (cases ids; cases "legacy_payloads l") auto
  then obtain g where g: "f = Some g" using f(2) by (auto simp: clean_log_def)
  let ?l = "l\<lparr>s_last_event := last ids\<rparr>"
  have k: "l\<lparr>s_last_event := last ids, s_key := key\<rparr> = ?l" using assms(3) by (cases l) simp
  have m: "mg' = put_session key ?l (write_meta w key ?l (mg\<lparr>mg_logs := AList.update stem g (mg_logs mg)\<rparr>))"
    using assms(1-7,13) f(1) g k by (simp add: loadLegacySession_def migrateLegacyToJSONL_def Let_def)
  have li: "TrimSpace (last ids) = last ids" "last ids \<noteq> []" using assms(11) ids by (simp_all add: TrimSpace_id)
  from migrated_last [OF assms(9) ids] obtain e where e: "e \<in> set ?new" "ev_id e = last ids" by blast
  have log: "map_of (mg_logs mg') stem = Some g" "clean_log (Some g) ?new" "map_of (by_id ?new) (last ids) \<noteq> None"
    "meta_points_at (map_of (mg_metas mg') stem) key (last ids)"
    using m assms(3,6,12) f(2) g by_id_complete [OF e(1)] e(2) li
    by (simp_all add: write_meta_def AList.update_conv' meta_points_at_def buildSessionMeta_def)
  from reload_core [OF assms(4,5) log(1,2) li(2,1) log(3,4), of w'] obtain s' where
    s': "get_session (reload w' stem mg') key = Some s'" "core s' = core (branch_state ?new (last ids))" by blast
  have "core s' = (map json_message (s_messages l), if TrimSpace (s_summary l) \<noteq> [] then s_summary l else [], 0, zero_time, 0)"
    using s'(2) core_migrated [OF assms(9), of empty_session empty_session w key "TrimSpace (s_last_event l)"] core_payloads [of l] f(3)
    by (simp add: branch_state_def)
  moreover have "get_session mg' key = Some ?l" using m by simp
  ultimately show ?thesis
    using s'(1) assms(4,5) by (simp add: GetHistory_def GetSummary_def GetCompactionState_def lookup_session_def core_def)
qed

definition ex_legacy :: session where
  "ex_legacy = empty_session\<lparr>s_key := ''conv:old'', s_messages := [plain_message ''user'' ''hi''], s_compaction := 3\<rparr>"

theorem legacy_migration_witness:
  "let mg' = loadLegacySession (ex_world []) [(''e1'', Appended)] ''conv_old'' (ex_manager\<lparr>mg_legacy := [(''conv_old'', ex_legacy)]\<rparr>) in
     GetCompactionState mg' ''conv:old'' = (3, 0, zero_time) \<and>
     GetCompactionState (reload (ex_world []) ''conv_old'' mg') ''conv:old'' = (0, 0, zero_time)"
proof -
  let ?mg = "ex_manager\<lparr>mg_legacy := [(''conv_old'', ex_legacy)]\<rparr>"
  have h: "mg_storage ?mg" "loadLegacySnapshot ?mg ''conv_old'' = Some ex_legacy" "s_key ex_legacy = ''conv:old''"
    "''conv:old'' \<noteq> []" "CanonicalSessionKey ''conv:old'' = ''conv:old''" "fileStemForKey ''conv:old'' = Some ''conv_old''"
    "map_of (mg_logs ?mg) ''conv_old'' = None" "legacy_payloads ex_legacy \<noteq> []" "length [''e1''] = length (legacy_payloads ex_legacy)"
    "distinct [''e1'']" "\<forall>i \<in> set [''e1'']. i \<noteq> [] \<and> trimmed i \<and> i \<noteq> TrimSpace (s_last_event ex_legacy)" "w_meta_ok (ex_world [])"
    by code_simp+
  have l: "s_compaction ex_legacy = 3" "s_flush_count ex_legacy = 0" "s_flush_at ex_legacy = zero_time" by code_simp+
  show ?thesis
    using legacy_migration [OF h refl, of "ex_world []"] l by (simp add: Let_def)
qed

end
