(* ===== verification/Cron.thy ===== *)
theory Cron
  imports Prelude
begin

text \<open>
  The scheduler of \<^verbatim>\<open>pkg/cron\<close>: its jobs and their store file (\<^verbatim>\<open>service.go\<close>, \<^verbatim>\<open>service_store.go\<close>), the next
  run of a schedule (\<^verbatim>\<open>service_schedule.go\<close>) and the three phases of a run (\<^verbatim>\<open>service_runner.go\<close>).  Each
  locked section of the code is one function here; how they interleave is in CronRuns.  Instants of the
  jobs are milliseconds, 64 bits wide; texts are lists of characters, one per rune.
\<close>

section \<open>Data\<close>

record cron_schedule =
  cs_kind :: string
  cs_at :: "int option"
  cs_every :: "int option"
  cs_expr :: string
  cs_tz :: string

record cron_payload =
  cp_kind :: string
  cp_message :: string
  cp_command :: string
  cp_deliver :: bool
  cp_channel :: string
  cp_to :: string

record cron_run_record =
  rr_id :: string
  rr_started :: int
  rr_finished :: int
  rr_duration :: int
  rr_status :: string
  rr_session_key :: string
  rr_error :: string
  rr_output :: string

record cron_job_state =
  st_next_run :: "int option"
  st_last_run :: "int option"
  st_last_status :: string
  st_last_error :: string
  st_running :: bool
  st_running_since :: "int option"
  st_running_id :: string
  st_last_duration :: "int option"
  st_last_output :: string
  st_last_session :: string
  st_history :: "cron_run_record list"

record cron_job =
  cj_id :: string
  cj_name :: string
  cj_enabled :: bool
  cj_schedule :: cron_schedule
  cj_payload :: cron_payload
  cj_state :: cron_job_state
  cj_created :: int
  cj_updated :: int
  cj_delete_after_run :: bool

text \<open>The store file: absent, unreadable (or not JSON), or the jobs it holds.\<close>

datatype store_file = NoFile | Unreadable | Jobs "cron_job list"

record cron_service =
  sv_jobs :: "cron_job list"
  sv_running :: bool
  sv_file :: store_file

text \<open>What an operation meets outside: the clock (one reading each), whether its first and second save
  succeed, and the random ids.\<close>

record cron_world =
  cw_now :: gtime
  cw_now2 :: gtime
  cw_save :: bool
  cw_save2 :: bool
  cw_fresh :: "nat \<Rightarrow> string"

text \<open>The cron-expression library and the time zone database.\<close>

record cron_env =
  ce_valid :: "string \<Rightarrow> bool"
  ce_location :: "string \<Rightarrow> bool"
  ce_next_tick :: "string \<Rightarrow> string \<Rightarrow> int \<Rightarrow> gtime option"

datatype cron_error =
    ErrAtMissing | ErrAtPast | ErrEvery | ErrExprMissing | ErrExprInvalid | ErrTimezone | ErrKind
  | ErrNotFound | ErrSave | ErrLoad

definition defaultRunHistoryLimit :: nat where "defaultRunHistoryLimit = 20"
definition defaultOutputPreviewRunes :: int where "defaultOutputPreviewRunes = 400"
definition defaultErrorPreviewRunes :: int where "defaultErrorPreviewRunes = 800"

section \<open>Schedules\<close>

definition resolveScheduleLocation :: "cron_env \<Rightarrow> string \<Rightarrow> bool" where
  "resolveScheduleLocation env tz =
     (let trimmed = TrimSpace tz in
      if trimmed = [] \<or> EqualFold trimmed ''local'' then True else ce_location env trimmed)"

definition computeNextRun :: "cron_env \<Rightarrow> cron_schedule \<Rightarrow> int \<Rightarrow> int option" where
  "computeNextRun env s nowMS =
     (if cs_kind s = ''at'' then
        (case cs_at s of Some t \<Rightarrow> (if t > nowMS then Some t else None) | None \<Rightarrow> None)
      else if cs_kind s = ''every'' then
        (case cs_every s of None \<Rightarrow> None | Some e \<Rightarrow> if e \<le> 0 then None else Some (wrap64 (nowMS + e)))
      else if cs_kind s = ''cron'' then
        (if cs_expr s = [] then None
         else if \<not> resolveScheduleLocation env (cs_tz s) then None
         else (case ce_next_tick env (cs_expr s) (TrimSpace (cs_tz s)) nowMS of
                 None \<Rightarrow> None
               | Some t \<Rightarrow> Some (UnixMilli t)))
      else None)"

definition validateSchedule :: "cron_env \<Rightarrow> cron_schedule \<Rightarrow> int \<Rightarrow> cron_error + cron_schedule" where
  "validateSchedule env s nowMS =
     (if cs_kind s = ''at'' then
        (case cs_at s of
           None \<Rightarrow> Inl ErrAtMissing
         | Some t \<Rightarrow> if t \<le> nowMS then Inl ErrAtPast else Inr s)
      else if cs_kind s = ''every'' then
        (case cs_every s of
           None \<Rightarrow> Inl ErrEvery
         | Some e \<Rightarrow> if e \<le> 0 then Inl ErrEvery else Inr s)
      else if cs_kind s = ''cron'' then
        (let expr = TrimSpace (cs_expr s) in
         if expr = [] then Inl ErrExprMissing
         else if \<not> ce_valid env expr then Inl ErrExprInvalid
         else if \<not> resolveScheduleLocation env (cs_tz s) then Inl ErrTimezone
         else Inr (s\<lparr>cs_expr := expr\<rparr>))
      else Inl ErrKind)"

definition recomputeNextRuns :: "cron_env \<Rightarrow> int \<Rightarrow> cron_job list \<Rightarrow> cron_job list" where
  "recomputeNextRuns env now jobs =
     map (\<lambda>j. if cj_enabled j
              then j\<lparr>cj_state := (cj_state j)\<lparr>st_next_run := computeNextRun env (cj_schedule j) now\<rparr>\<rparr>
              else j) jobs"

definition getNextWakeMS :: "cron_job list \<Rightarrow> int option" where
  "getNextWakeMS jobs =
     fold (\<lambda>j wake.
        if cj_enabled j then
          (case st_next_run (cj_state j) of
             None \<Rightarrow> wake
           | Some t \<Rightarrow> (case wake of None \<Rightarrow> Some t | Some u \<Rightarrow> if t < u then Some t else wake))
        else wake) jobs None"

definition truncateRunes :: "string \<Rightarrow> int \<Rightarrow> string" where
  "truncateRunes s0 maxLen =
     (let s = TrimSpace s0 in
      if maxLen \<le> 0 then []
      else if int (length s) \<le> maxLen then s
      else if maxLen \<le> 3 then take (nat maxLen) s
      else take (nat (maxLen - 3)) s @ ''...'')"

definition push_record :: "cron_run_record \<Rightarrow> cron_run_record list \<Rightarrow> cron_run_record list" where
  "push_record r h =
     (let h' = h @ [r] in
      if length h' > defaultRunHistoryLimit then drop (length h' - defaultRunHistoryLimit) h' else h')"

definition stale_error :: string where
  "stale_error = ''aborted: service restarted while job was running''"

definition clear_stale :: "int \<Rightarrow> string \<Rightarrow> cron_job \<Rightarrow> cron_job" where
  "clear_stale nowMS fresh j =
     (let st = cj_state j in
      if \<not> st_running st then j
      else
        let startedAt = (case st_running_since st of None \<Rightarrow> nowMS | Some t \<Rightarrow> t);
            runID0 = TrimSpace (st_running_id st);
            runID = (if runID0 = [] then fresh else runID0);
            duration0 = nowMS - startedAt;
            duration = (if duration0 < 0 then 0 else duration0);
            preview = truncateRunes (st_last_output st) defaultOutputPreviewRunes;
            sessionKey = TrimSpace (st_last_session st)
        in j\<lparr>cj_updated := nowMS,
             cj_state := st\<lparr>st_running := False, st_running_since := None, st_running_id := [],
               st_last_run := Some startedAt, st_last_status := ''aborted'', st_last_error := stale_error,
               st_last_output := preview, st_last_session := sessionKey, st_last_duration := Some duration,
               st_history := push_record
                 \<lparr>rr_id = runID, rr_started = startedAt, rr_finished = nowMS, rr_duration = duration,
                  rr_status = ''aborted'', rr_session_key = sessionKey, rr_error = stale_error, rr_output = preview\<rparr>
                 (st_history st)\<rparr>\<rparr>)"

definition clearStaleRunningStatesUnsafe :: "int \<Rightarrow> (nat \<Rightarrow> string) \<Rightarrow> cron_job list \<Rightarrow> cron_job list" where
  "clearStaleRunningStatesUnsafe nowMS fresh jobs = map (\<lambda>(i, j). clear_stale nowMS (fresh i) j) (enumerate 0 jobs)"

section \<open>The store\<close>

definition saveStoreUnsafe :: "bool \<Rightarrow> cron_service \<Rightarrow> cron_service" where
  "saveStoreUnsafe ok sv = (if ok then sv\<lparr>sv_file := Jobs (sv_jobs sv)\<rparr> else sv)"

definition loadStore :: "cron_service \<Rightarrow> cron_service \<times> bool" where
  "loadStore sv =
     (case sv_file sv of
        NoFile \<Rightarrow> (sv\<lparr>sv_jobs := []\<rparr>, True)
      | Unreadable \<Rightarrow> (sv\<lparr>sv_jobs := []\<rparr>, False)
      | Jobs js \<Rightarrow> (sv\<lparr>sv_jobs := js\<rparr>, True))"

text \<open>\<^verbatim>\<open>Load\<close> is exported but has no caller; it is no step of the interleavings of CronRuns.\<close>

definition Load :: "cron_service \<Rightarrow> cron_service \<times> bool" where
  "Load sv = loadStore sv"

definition NewCronService :: "store_file \<Rightarrow> cron_service" where
  "NewCronService file = fst (loadStore \<lparr>sv_jobs = [], sv_running = False, sv_file = file\<rparr>)"

definition empty_state :: cron_job_state where
  "empty_state = \<lparr>st_next_run = None, st_last_run = None, st_last_status = [], st_last_error = [], st_running = False,
     st_running_since = None, st_running_id = [], st_last_duration = None, st_last_output = [], st_last_session = [],
     st_history = []\<rparr>"

definition AddJob :: "cron_env \<Rightarrow> cron_world \<Rightarrow> string \<Rightarrow> cron_schedule \<Rightarrow> string \<Rightarrow> bool \<Rightarrow> string \<Rightarrow> string \<Rightarrow> cron_service
    \<Rightarrow> cron_service \<times> (cron_error + cron_job)" where
  "AddJob env w name schedule0 message deliver channel to sv =
     (let now = UnixMilli (cw_now w) in
      case validateSchedule env schedule0 now of
        Inl e \<Rightarrow> (sv, Inl e)
      | Inr schedule \<Rightarrow>
          let job = \<lparr>cj_id = cw_fresh w 0, cj_name = name, cj_enabled = True, cj_schedule = schedule,
                cj_payload = \<lparr>cp_kind = ''agent_turn'', cp_message = message, cp_command = [], cp_deliver = deliver,
                              cp_channel = channel, cp_to = to\<rparr>,
                cj_state = empty_state\<lparr>st_next_run := computeNextRun env schedule now\<rparr>,
                cj_created = now, cj_updated = now, cj_delete_after_run = (cs_kind schedule = ''at'')\<rparr>;
              sv' = saveStoreUnsafe (cw_save w) (sv\<lparr>sv_jobs := sv_jobs sv @ [job]\<rparr>)
          in (sv', if cw_save w then Inr job else Inl ErrSave))"

text \<open>The first job with an id, as a pointer into the slice.\<close>

definition findJobUnsafe :: "string \<Rightarrow> cron_job list \<Rightarrow> cron_job option" where
  "findJobUnsafe jobID jobs = find (\<lambda>j. cj_id j = jobID) jobs"

fun set_job :: "string \<Rightarrow> (cron_job \<Rightarrow> cron_job) \<Rightarrow> cron_job list \<Rightarrow> cron_job list" where
  "set_job jobID f [] = []"
| "set_job jobID f (j # js) = (if cj_id j = jobID then f j # js else j # set_job jobID f js)"

definition UpdateJob :: "cron_world \<Rightarrow> cron_job \<Rightarrow> cron_service \<Rightarrow> cron_service \<times> cron_error option" where
  "UpdateJob w job sv =
     (if findJobUnsafe (cj_id job) (sv_jobs sv) = None then (sv, Some ErrNotFound)
      else (saveStoreUnsafe (cw_save w)
              (sv\<lparr>sv_jobs := set_job (cj_id job) (\<lambda>_. job\<lparr>cj_updated := UnixMilli (cw_now w)\<rparr>) (sv_jobs sv)\<rparr>),
            if cw_save w then None else Some ErrSave))"

definition removeJobUnsafe :: "bool \<Rightarrow> string \<Rightarrow> cron_service \<Rightarrow> cron_service \<times> bool" where
  "removeJobUnsafe save_ok jobID sv =
     (let jobs = filter (\<lambda>j. cj_id j \<noteq> jobID) (sv_jobs sv);
          removed = (length jobs < length (sv_jobs sv));
          sv1 = sv\<lparr>sv_jobs := jobs\<rparr>
      in (if removed then saveStoreUnsafe save_ok sv1 else sv1, removed))"

definition RemoveJob :: "cron_world \<Rightarrow> string \<Rightarrow> cron_service \<Rightarrow> cron_service \<times> bool" where
  "RemoveJob w jobID sv = removeJobUnsafe (cw_save w) jobID sv"

definition enable :: "cron_env \<Rightarrow> cron_world \<Rightarrow> bool \<Rightarrow> cron_job \<Rightarrow> cron_job" where
  "enable env w enabled j =
     j\<lparr>cj_enabled := enabled, cj_updated := UnixMilli (cw_now w),
       cj_state := (cj_state j)\<lparr>st_next_run :=
         (if enabled then computeNextRun env (cj_schedule j) (UnixMilli (cw_now2 w)) else None)\<rparr>\<rparr>"

definition EnableJob :: "cron_env \<Rightarrow> cron_world \<Rightarrow> string \<Rightarrow> bool \<Rightarrow> cron_service \<Rightarrow> cron_service \<times> cron_job option" where
  "EnableJob env w jobID enabled sv =
     (case findJobUnsafe jobID (sv_jobs sv) of
        None \<Rightarrow> (sv, None)
      | Some j \<Rightarrow>
          (saveStoreUnsafe (cw_save w) (sv\<lparr>sv_jobs := set_job jobID (enable env w enabled) (sv_jobs sv)\<rparr>),
           Some (enable env w enabled j)))"

definition ListJobs :: "bool \<Rightarrow> cron_service \<Rightarrow> cron_job list" where
  "ListJobs includeDisabled sv = (if includeDisabled then sv_jobs sv else filter cj_enabled (sv_jobs sv))"

record cron_status =
  cst_enabled :: bool
  cst_jobs :: nat
  cst_running_jobs :: nat
  cst_next_wake :: "int option"

definition Status :: "cron_service \<Rightarrow> cron_status" where
  "Status sv = \<lparr>cst_enabled = sv_running sv, cst_jobs = length (sv_jobs sv),
     cst_running_jobs = length (filter (\<lambda>j. st_running (cj_state j)) (sv_jobs sv)),
     cst_next_wake = getNextWakeMS (sv_jobs sv)\<rparr>"

section \<open>The service\<close>

text \<open>\<open>Start\<close> tells whether a loop was started.\<close>

definition Start :: "cron_env \<Rightarrow> cron_world \<Rightarrow> cron_service \<Rightarrow> cron_service \<times> bool \<times> cron_error option" where
  "Start env w sv =
     (if sv_running sv then (sv, False, None)
      else case loadStore sv of
             (sv1, False) \<Rightarrow> (sv1, False, Some ErrLoad)
           | (sv1, True) \<Rightarrow>
               let jobs = recomputeNextRuns env (UnixMilli (cw_now2 w))
                            (clearStaleRunningStatesUnsafe (UnixMilli (cw_now w)) (cw_fresh w) (sv_jobs sv1));
                   sv2 = saveStoreUnsafe (cw_save w) (sv1\<lparr>sv_jobs := jobs\<rparr>)
               in if \<not> cw_save w then (sv2, False, Some ErrSave)
                  else (sv2\<lparr>sv_running := True\<rparr>, True, None))"

definition Stop :: "cron_service \<Rightarrow> cron_service" where
  "Stop sv = (if \<not> sv_running sv then sv else sv\<lparr>sv_running := False\<rparr>)"

definition nextLoopWait :: "gtime \<Rightarrow> cron_service \<Rightarrow> duration" where
  "nextLoopWait now sv =
     (if \<not> sv_running sv then 5 * nsSecond
      else case getNextWakeMS (sv_jobs sv) of
             None \<Rightarrow> 5 * nsSecond
           | Some t \<Rightarrow>
               let delay = TSub (time_UnixMilli t) now in
               if delay \<le> 0 then 0 else if delay > 5 * nsSecond then 5 * nsSecond else delay)"

definition due :: "int \<Rightarrow> cron_job \<Rightarrow> bool" where
  "due now j \<longleftrightarrow> cj_enabled j \<and> \<not> st_running (cj_state j) \<and>
     (case st_next_run (cj_state j) of None \<Rightarrow> False | Some t \<Rightarrow> t \<le> now)"

text \<open>The locked part of \<^verbatim>\<open>checkJobs\<close>; it returns the ids whose runs follow.\<close>

definition checkJobs :: "cron_world \<Rightarrow> cron_service \<Rightarrow> cron_service \<times> string list" where
  "checkJobs w sv =
     (if \<not> sv_running sv then (sv, [])
      else
        let now = UnixMilli (cw_now w);
            dueIDs = map cj_id (filter (due now) (sv_jobs sv));
            sv1 = sv\<lparr>sv_jobs := map (\<lambda>j. if cj_id j \<in> set dueIDs
                                        then j\<lparr>cj_state := (cj_state j)\<lparr>st_next_run := None\<rparr>\<rparr> else j) (sv_jobs sv)\<rparr>
        in (if dueIDs \<noteq> [] then saveStoreUnsafe (cw_save w) sv1 else sv1, dueIDs))"

section \<open>A run\<close>

definition begin_run :: "int \<Rightarrow> int \<Rightarrow> string \<Rightarrow> cron_job \<Rightarrow> cron_job" where
  "begin_run startedAtMS now runID j =
     j\<lparr>cj_updated := now,
       cj_state := (cj_state j)\<lparr>st_running := True, st_running_since := Some startedAtMS, st_running_id := runID\<rparr>\<rparr>"

definition beginJobRunUnsafe :: "cron_world \<Rightarrow> string \<Rightarrow> int \<Rightarrow> string \<Rightarrow> cron_service \<Rightarrow> cron_service \<times> cron_job option" where
  "beginJobRunUnsafe w jobID startedAtMS runID sv =
     (case findJobUnsafe jobID (sv_jobs sv) of
        None \<Rightarrow> (sv, None)
      | Some j \<Rightarrow>
          if st_running (cj_state j) then (sv, None)
          else
            (saveStoreUnsafe (cw_save w)
               (sv\<lparr>sv_jobs := set_job jobID (begin_run startedAtMS (UnixMilli (cw_now w)) runID) (sv_jobs sv)\<rparr>),
             Some (begin_run startedAtMS (UnixMilli (cw_now w)) runID j)))"

text \<open>A handler returns or panics, and may have set the session key of the copy it is given.\<close>

datatype handler_end = Returns string "string option" | Panics string

type_synonym job_handler = "cron_job \<Rightarrow> handler_end \<times> string"

definition executeJobHandler :: "job_handler option \<Rightarrow> cron_job \<Rightarrow> (string \<times> string option) \<times> string" where
  "executeJobHandler onJob job =
     (case onJob of
        None \<Rightarrow> (([], None), st_last_session (cj_state job))
      | Some h \<Rightarrow>
          (case h job of
             (Returns output err, sessionKey) \<Rightarrow> ((output, err), sessionKey)
           | (Panics r, sessionKey) \<Rightarrow> (([], Some (''cron job panic: '' @ r)), sessionKey)))"

definition summarizeRunError :: "string option \<Rightarrow> string \<times> string" where
  "summarizeRunError runErr =
     (case runErr of None \<Rightarrow> (''ok'', []) | Some e \<Rightarrow> (''error'', truncateRunes e defaultErrorPreviewRunes))"

definition finish_run :: "string \<Rightarrow> int \<Rightarrow> int \<Rightarrow> int \<Rightarrow> string \<Rightarrow> string option \<Rightarrow> string \<Rightarrow> cron_job \<Rightarrow> cron_job" where
  "finish_run runID startedAtMS finishedAtMS now output runErr lastSessionKey j =
     (let durationMS0 = finishedAtMS - startedAtMS;
          durationMS = (if durationMS0 < 0 then 0 else durationMS0);
          preview = truncateRunes output defaultOutputPreviewRunes;
          status = fst (summarizeRunError runErr);
          errText = snd (summarizeRunError runErr)
      in j\<lparr>cj_updated := now,
           cj_state := (cj_state j)\<lparr>st_running := False, st_running_since := None, st_running_id := [],
             st_last_run := Some startedAtMS, st_last_duration := Some durationMS, st_last_output := preview,
             st_last_session := lastSessionKey, st_last_status := status, st_last_error := errText,
             st_history := push_record
               \<lparr>rr_id = runID, rr_started = startedAtMS, rr_finished = finishedAtMS, rr_duration = durationMS,
                rr_status = status, rr_session_key = lastSessionKey, rr_error = errText, rr_output = preview\<rparr>
               (st_history (cj_state j))\<rparr>\<rparr>)"

definition updateNextRunAfterCompletionUnsafe :: "cron_env \<Rightarrow> cron_world \<Rightarrow> cron_job \<Rightarrow> int \<Rightarrow> cron_service \<Rightarrow> cron_service" where
  "updateNextRunAfterCompletionUnsafe env w job finishedAtMS sv =
     (if cs_kind (cj_schedule job) = ''at'' then
        (if cj_delete_after_run job then fst (removeJobUnsafe (cw_save w) (cj_id job) sv)
         else sv\<lparr>sv_jobs := set_job (cj_id job)
                (\<lambda>j. j\<lparr>cj_enabled := False, cj_state := (cj_state j)\<lparr>st_next_run := None\<rparr>\<rparr>) (sv_jobs sv)\<rparr>)
      else
        sv\<lparr>sv_jobs := set_job (cj_id job)
             (\<lambda>j. j\<lparr>cj_state := (cj_state j)\<lparr>st_next_run :=
                (if cj_enabled job then computeNextRun env (cj_schedule job) finishedAtMS else None)\<rparr>\<rparr>) (sv_jobs sv)\<rparr>)"

definition finishJobRunUnsafe :: "cron_env \<Rightarrow> cron_world \<Rightarrow> string \<Rightarrow> string \<Rightarrow> int \<Rightarrow> int \<Rightarrow> string \<Rightarrow> string option \<Rightarrow> string
    \<Rightarrow> cron_service \<Rightarrow> cron_service" where
  "finishJobRunUnsafe env w jobID runID startedAtMS finishedAtMS output runErr lastSessionKey sv =
     (case findJobUnsafe jobID (sv_jobs sv) of
        None \<Rightarrow> sv
      | Some j \<Rightarrow>
          let fin = finish_run runID startedAtMS finishedAtMS (UnixMilli (cw_now w)) output runErr lastSessionKey;
              sv1 = sv\<lparr>sv_jobs := set_job jobID fin (sv_jobs sv)\<rparr>
          in saveStoreUnsafe (cw_save2 w) (updateNextRunAfterCompletionUnsafe env w (fin j) finishedAtMS sv1))"

text \<open>A whole run with nothing in between: \<open>w1\<close> at its beginning, \<open>w2\<close> at its end.\<close>

definition executeJobByID :: "cron_env \<Rightarrow> job_handler option \<Rightarrow> cron_world \<Rightarrow> cron_world \<Rightarrow> string \<Rightarrow> cron_service \<Rightarrow> cron_service" where
  "executeJobByID env onJob w1 w2 jobID sv =
     (let startedAtMS = UnixMilli (cw_now w1); runID = cw_fresh w1 0 in
      case beginJobRunUnsafe w1 jobID startedAtMS runID sv of
        (sv1, None) \<Rightarrow> sv1
      | (sv1, Some jobCopy) \<Rightarrow>
          (case executeJobHandler onJob jobCopy of
             ((output, err), sessionKey) \<Rightarrow>
               finishJobRunUnsafe env w2 jobID runID startedAtMS (UnixMilli (cw_now2 w2)) output err (TrimSpace sessionKey) sv1))"

section \<open>Lemmas: one job of the list\<close>

lemma find_set_job:
  assumes "\<And>j. cj_id (f j) = cj_id j"
  shows "findJobUnsafe x (set_job y f js) = (if x = y then map_option f (findJobUnsafe y js) else findJobUnsafe x js)"
  by (induction js) (auto simp: findJobUnsafe_def assms)

lemma ids_set_job [simp]:
  "(\<And>j. cj_id (f j) = cj_id j) \<Longrightarrow> map cj_id (set_job y f js) = map cj_id js"
  by (induction js) auto

lemma set_set_job: "j \<in> set (set_job y f js) \<Longrightarrow> j \<in> set js \<or> (\<exists>k \<in> set js. j = f k)"
  by (induction js) (auto split: if_splits)

lemma find_member: "findJobUnsafe x js = Some j \<Longrightarrow> j \<in> set js \<and> cj_id j = x"
  by (auto simp: findJobUnsafe_def find_Some_iff)

lemma find_None: "findJobUnsafe x js = None \<longleftrightarrow> x \<notin> cj_id ` set js"
  by (auto simp: findJobUnsafe_def find_None_iff)

lemma find_distinct: "distinct (map cj_id js) \<Longrightarrow> j \<in> set js \<Longrightarrow> findJobUnsafe (cj_id j) js = Some j"
  by (induction js) (auto simp: findJobUnsafe_def)

lemma job_fields [simp]:
  "cj_id (begin_run s n r j) = cj_id j" "cj_id (finish_run r s fi n out e k j) = cj_id j" "cj_id (enable env w b j) = cj_id j"
  "cj_schedule (finish_run r s fi n out e k j) = cj_schedule j" "cj_enabled (finish_run r s fi n out e k j) = cj_enabled j"
  "cj_delete_after_run (finish_run r s fi n out e k j) = cj_delete_after_run j"
  by (simp_all add: begin_run_def finish_run_def enable_def Let_def)

lemma jobs_save [simp]: "sv_jobs (saveStoreUnsafe ok sv) = sv_jobs sv" "sv_running (saveStoreUnsafe ok sv) = sv_running sv"
  by (simp_all add: saveStoreUnsafe_def)

lemma length_push: "length (push_record r h) = min defaultRunHistoryLimit (Suc (length h))"
  by (simp add: push_record_def Let_def defaultRunHistoryLimit_def)

section \<open>What a run comes to\<close>

lemma find_filter: "findJobUnsafe x (filter (\<lambda>j. cj_id j \<noteq> y) js) = (if x = y then None else findJobUnsafe x js)"
  by (induction js) (auto simp: findJobUnsafe_def)

lemma find_map: "(\<And>j. cj_id (f j) = cj_id j) \<Longrightarrow> findJobUnsafe x (map f js) = map_option f (findJobUnsafe x js)"
  by (induction js) (auto simp: findJobUnsafe_def)

lemma find_snoc: "findJobUnsafe x (js @ [j]) = (case findJobUnsafe x js of Some k \<Rightarrow> Some k | None \<Rightarrow> if cj_id j = x then Some j else None)"
  by (induction js) (auto simp: findJobUnsafe_def)

lemma jobs_remove [simp]: "sv_jobs (fst (removeJobUnsafe ok y sv)) = filter (\<lambda>j. cj_id j \<noteq> y) (sv_jobs sv)"
  by (simp add: removeJobUnsafe_def Let_def)

definition completed :: "cron_env \<Rightarrow> int \<Rightarrow> cron_job \<Rightarrow> cron_job" where
  "completed env f j =
     (if cs_kind (cj_schedule j) = ''at'' then j\<lparr>cj_enabled := False, cj_state := (cj_state j)\<lparr>st_next_run := None\<rparr>\<rparr>
      else j\<lparr>cj_state := (cj_state j)\<lparr>st_next_run := (if cj_enabled j then computeNextRun env (cj_schedule j) f else None)\<rparr>\<rparr>)"

lemma finish_jobs:
  assumes "findJobUnsafe x (sv_jobs sv) = Some j"
  shows "findJobUnsafe y (sv_jobs (finishJobRunUnsafe env w x r s f outp err k sv)) =
    (if y \<noteq> x then findJobUnsafe y (sv_jobs sv)
     else if cs_kind (cj_schedule j) = ''at'' \<and> cj_delete_after_run j then None
     else Some (completed env f (finish_run r s f (UnixMilli (cw_now w)) outp err k j)))"
proof -
  have "cj_id j = x" using find_member [OF assms] by simp
  then show ?thesis
    using assms by (auto simp: finishJobRunUnsafe_def Let_def updateNextRunAfterCompletionUnsafe_def find_filter find_set_job completed_def)
qed

text \<open>
  A run leaves the other jobs alone and brings its own job to its next state, whether the handler
  returns, fails or panics: a one-shot job that is to be deleted is gone; any other one is not running, has
  exactly one more record with the outcome at the end of its (trimmed) history, and next runs when its
  schedule says, counted from the end of this run, or not at all when it is one-shot or was disabled.
\<close>

theorem run_outcome:
  assumes "findJobUnsafe x (sv_jobs sv) = Some j" and "\<not> st_running (cj_state j)"
    and "executeJobHandler onJob (begin_run (UnixMilli (cw_now w1)) (UnixMilli (cw_now w1)) (cw_fresh w1 0) j) = ((outp, err), key)"
    and "sv' = executeJobByID env onJob w1 w2 x sv" and "f = UnixMilli (cw_now2 w2)"
  shows "(\<forall>y. y \<noteq> x \<longrightarrow> findJobUnsafe y (sv_jobs sv') = findJobUnsafe y (sv_jobs sv)) \<and>
    (if cs_kind (cj_schedule j) = ''at'' \<and> cj_delete_after_run j then findJobUnsafe x (sv_jobs sv') = None
     else \<exists>j' r. findJobUnsafe x (sv_jobs sv') = Some j' \<and> \<not> st_running (cj_state j') \<and>
       st_history (cj_state j') = push_record r (st_history (cj_state j)) \<and>
       rr_id r = cw_fresh w1 0 \<and> rr_finished r = f \<and> rr_status r = (if err = None then ''ok'' else ''error'') \<and>
       rr_output r = truncateRunes outp 400 \<and>
       cj_enabled j' = (cj_enabled j \<and> cs_kind (cj_schedule j) \<noteq> ''at'') \<and>
       st_next_run (cj_state j') = (if cj_enabled j' then computeNextRun env (cj_schedule j) f else None))"
proof -
  let ?s = "UnixMilli (cw_now w1)"
  let ?b = "begin_run ?s ?s (cw_fresh w1 0)"
  let ?sv1 = "saveStoreUnsafe (cw_save w1) (sv\<lparr>sv_jobs := set_job x ?b (sv_jobs sv)\<rparr>)"
  have b: "beginJobRunUnsafe w1 x ?s (cw_fresh w1 0) sv = (?sv1, Some (?b j))"
    using assms(1,2) by (simp add: beginJobRunUnsafe_def)
  have sv': "sv' = finishJobRunUnsafe env w2 x (cw_fresh w1 0) ?s f outp err (TrimSpace key) ?sv1"
    using assms(3-5) b by (simp add: executeJobByID_def Let_def)
  have f1: "findJobUnsafe y (sv_jobs ?sv1) = (if y = x then Some (?b j) else findJobUnsafe y (sv_jobs sv))" for y
    using assms(1) by (simp add: find_set_job)
  have fx: "findJobUnsafe x (sv_jobs ?sv1) = Some (?b j)" using f1 [of x] by simp
  have fields: "cj_schedule (?b j) = cj_schedule j" "cj_delete_after_run (?b j) = cj_delete_after_run j"
    "cj_enabled (?b j) = cj_enabled j" "st_history (cj_state (?b j)) = st_history (cj_state j)"
    by (simp_all add: begin_run_def)
  show ?thesis
    unfolding sv' finish_jobs [OF fx] f1
    by (auto simp: fields completed_def finish_run_def Let_def summarizeRunError_def defaultOutputPreviewRunes_def split: option.splits)
qed

section \<open>Waking up\<close>

lemma next_wake_fold:
  "case fold (\<lambda>j wake.
        if cj_enabled j then
          (case st_next_run (cj_state j) of
             None \<Rightarrow> wake
           | Some t \<Rightarrow> (case wake of None \<Rightarrow> Some t | Some u \<Rightarrow> if t < u then Some t else wake))
        else wake) jobs wake of
     None \<Rightarrow> wake = None \<and> (\<forall>j \<in> set jobs. cj_enabled j \<longrightarrow> st_next_run (cj_state j) = None)
   | Some t \<Rightarrow> (wake = Some t \<or> (\<exists>j \<in> set jobs. cj_enabled j \<and> st_next_run (cj_state j) = Some t)) \<and>
       (\<forall>u. wake = Some u \<longrightarrow> t \<le> u) \<and> (\<forall>j \<in> set jobs. \<forall>u. cj_enabled j \<and> st_next_run (cj_state j) = Some u \<longrightarrow> t \<le> u)"
proof (induction jobs arbitrary: wake)
  case (Cons j jobs)
  let ?w = "if cj_enabled j then
          (case st_next_run (cj_state j) of
             None \<Rightarrow> wake
           | Some t \<Rightarrow> (case wake of None \<Rightarrow> Some t | Some u \<Rightarrow> if t < u then Some t else wake))
        else wake"
  show ?case using Cons.IH [of ?w]
    by (auto split: option.splits if_splits)
qed (simp split: option.splits)

lemma next_wake_None: "getNextWakeMS jobs = None \<Longrightarrow> j \<in> set jobs \<Longrightarrow> cj_enabled j \<Longrightarrow> st_next_run (cj_state j) = None"
  using next_wake_fold [of None jobs] by (simp add: getNextWakeMS_def)

lemma next_wake_Some:
  assumes "getNextWakeMS jobs = Some t"
  shows "\<exists>j \<in> set jobs. cj_enabled j \<and> st_next_run (cj_state j) = Some t"
    "j \<in> set jobs \<Longrightarrow> cj_enabled j \<Longrightarrow> st_next_run (cj_state j) = Some u \<Longrightarrow> t \<le> u"
  using next_wake_fold [of None jobs] assms by (auto simp: getNextWakeMS_def)

text \<open>
  The loop neither oversleeps nor spins.  It waits at most five seconds and never a negative time; it
  never sleeps past the next run of an enabled job that is still to come; and when it wakes earlier than after
  five seconds, the next run of some enabled job has come.
\<close>

theorem loop_wait:
  assumes "sv_running sv" and "wait = nextLoopWait now sv"
  shows "0 \<le> wait \<and> wait \<le> 5 * nsSecond \<and>
    (\<forall>j \<in> set (sv_jobs sv). \<forall>t. cj_enabled j \<and> st_next_run (cj_state j) = Some t \<longrightarrow> now + wait \<le> max now (time_UnixMilli t)) \<and>
    (wait < 5 * nsSecond \<longrightarrow>
       (\<exists>j \<in> set (sv_jobs sv). \<exists>t. cj_enabled j \<and> st_next_run (cj_state j) = Some t \<and> t \<le> UnixMilli (now + wait)))"
proof (cases "getNextWakeMS (sv_jobs sv)")
  case None
  then show ?thesis using assms next_wake_None [OF None] by (auto simp: nextLoopWait_def nsSecond_def)
next
  case (Some t)
  let ?d = "TSub (time_UnixMilli t) now"
  have w: "wait = (if ?d \<le> 0 then 0 else if ?d > 5 * nsSecond then 5 * nsSecond else ?d)"
    using assms Some by (simp add: nextLoopWait_def Let_def)
  have d: "?d \<le> 0 \<Longrightarrow> time_UnixMilli t \<le> now" "0 < ?d \<Longrightarrow> ?d \<le> 5 * nsSecond \<Longrightarrow> now + ?d = time_UnixMilli t"
    "0 < ?d \<Longrightarrow> now + min ?d (5 * nsSecond) \<le> time_UnixMilli t"
    by (auto simp: TSub_def max_int64_def min_int64_def nsSecond_def max_def min_def split: if_splits)
  have le: "now + wait \<le> max now (time_UnixMilli t)" using w d(3) by auto
  have "time_UnixMilli t \<le> time_UnixMilli u" if "j \<in> set (sv_jobs sv)" "cj_enabled j" "st_next_run (cj_state j) = Some u" for j u
    using next_wake_Some(2) [OF Some that] by (simp add: time_UnixMilli_def)
  then have all: "\<forall>j \<in> set (sv_jobs sv). \<forall>u. cj_enabled j \<and> st_next_run (cj_state j) = Some u \<longrightarrow> now + wait \<le> max now (time_UnixMilli u)"
    using le by (meson max.mono order_refl order_trans)
  have "t \<le> UnixMilli (now + wait)" if "wait < 5 * nsSecond"
  proof -
    have "time_UnixMilli t \<le> now + wait" using that w d(1,2) by (auto split: if_splits)
    then have "time_UnixMilli t div 1000000 \<le> (now + wait) div 1000000" by (rule zdiv_mono1) simp
    then show ?thesis by (simp add: UnixMilli_def time_UnixMilli_def)
  qed
  moreover have "0 \<le> wait \<and> wait \<le> 5 * nsSecond" using w by (auto simp: nsSecond_def)
  ultimately show ?thesis using all next_wake_Some(1) [OF Some] by blast
qed

definition ex_every :: "string \<Rightarrow> int \<Rightarrow> int \<Rightarrow> cron_job" where
  "ex_every i e t = \<lparr>cj_id = i, cj_name = ''n'', cj_enabled = True,
     cj_schedule = \<lparr>cs_kind = ''every'', cs_at = None, cs_every = Some e, cs_expr = [], cs_tz = []\<rparr>,
     cj_payload = \<lparr>cp_kind = ''agent_turn'', cp_message = [], cp_command = [], cp_deliver = False, cp_channel = [], cp_to = []\<rparr>,
     cj_state = empty_state\<lparr>st_next_run := Some t\<rparr>, cj_created = 0, cj_updated = 0, cj_delete_after_run = False\<rparr>"

definition no_cron :: cron_env where
  "no_cron = \<lparr>ce_valid = (\<lambda>_. False), ce_location = (\<lambda>_. False), ce_next_tick = (\<lambda>_ _ _. None)\<rparr>"

definition cron_world_at :: "int \<Rightarrow> string \<Rightarrow> cron_world" where
  "cron_world_at ms fresh = \<lparr>cw_now = time_UnixMilli ms, cw_now2 = time_UnixMilli ms, cw_save = True, cw_save2 = True,
     cw_fresh = (\<lambda>_. fresh)\<rparr>"

theorem run_outcome_witness:
  "\<exists>j' r. findJobUnsafe ''j'' (sv_jobs (executeJobByID no_cron (Some (\<lambda>_. (Panics ''x'', []))) (cron_world_at 5000 ''r1'') (cron_world_at 6000 [])
       ''j'' \<lparr>sv_jobs = [ex_every ''j'' 1000 5000], sv_running = True, sv_file = NoFile\<rparr>)) = Some j' \<and>
     st_history (cj_state j') = [r] \<and> rr_status r = ''error'' \<and> st_next_run (cj_state j') = Some 7000"
proof -
  let ?sv = "\<lparr>sv_jobs = [ex_every ''j'' 1000 5000], sv_running = True, sv_file = NoFile\<rparr>"
  let ?j = "ex_every ''j'' 1000 5000"
  have j: "findJobUnsafe ''j'' (sv_jobs ?sv) = Some ?j" "\<not> st_running (cj_state ?j)"
    by (simp_all add: findJobUnsafe_def ex_every_def empty_state_def)
  have k: "cs_kind (cj_schedule ?j) = ''every''" "cj_enabled ?j" "st_history (cj_state ?j) = []"
    by (simp_all add: ex_every_def empty_state_def)
  have n: "computeNextRun no_cron (cj_schedule ?j) (UnixMilli (cw_now2 (cron_world_at 6000 []))) = Some 7000" by code_simp
  have p: "push_record r [] = [r]" for r by (simp add: push_record_def defaultRunHistoryLimit_def)
  from run_outcome [OF j _ refl refl, of "Some (\<lambda>_. (Panics ''x'', []))" "cron_world_at 5000 ''r1''" _ _ _ no_cron "cron_world_at 6000 []"]
  obtain j' r where "findJobUnsafe ''j'' (sv_jobs (executeJobByID no_cron (Some (\<lambda>_. (Panics ''x'', []))) (cron_world_at 5000 ''r1'')
      (cron_world_at 6000 []) ''j'' ?sv)) = Some j'" "st_history (cj_state j') = [r]" "rr_status r = ''error''" "cj_enabled j'"
    "st_next_run (cj_state j') = (if cj_enabled j' then computeNextRun no_cron (cj_schedule ?j) (UnixMilli (cw_now2 (cron_world_at 6000 []))) else None)"
    by (auto simp: executeJobHandler_def k p)
  then show ?thesis using n by auto
qed

theorem loop_wait_witness:
  "nextLoopWait (time_UnixMilli 4000) \<lparr>sv_jobs = [ex_every ''j'' 1000 5000], sv_running = True, sv_file = NoFile\<rparr> = 1000 * nsMillisecond \<and>
   (\<exists>j \<in> {ex_every ''j'' 1000 5000}. \<exists>t. cj_enabled j \<and> st_next_run (cj_state j) = Some t \<and> t \<le> 5000)"
proof -
  let ?sv = "\<lparr>sv_jobs = [ex_every ''j'' 1000 5000], sv_running = True, sv_file = NoFile\<rparr>"
  have w: "nextLoopWait (time_UnixMilli 4000) ?sv = 1000 * nsMillisecond" by code_simp
  have u: "UnixMilli (time_UnixMilli 4000 + 1000 * nsMillisecond) = 5000" "1000 * nsMillisecond < 5 * nsSecond" by code_simp+
  have r: "sv_running ?sv" by simp
  from loop_wait [OF r w [symmetric]] u w show ?thesis by auto
qed

section \<open>The next run\<close>

text \<open>The documented behaviour of the cron library: the next tick is a whole second after the reference.\<close>

definition ticks_after :: "cron_env \<Rightarrow> bool" where
  "ticks_after env \<longleftrightarrow>
     (\<forall>expr tz now t. ce_next_tick env expr tz now = Some t \<longrightarrow> time_UnixMilli now < t \<and> t mod nsSecond = 0)"

text \<open>
  The next run of a schedule lies after the instant it is computed at, with one exception: an interval
  that takes it past the 64-bit range wraps around to a negative instant, which is due at once and for ever (the
  validation lets every positive interval through).
\<close>

theorem next_run_in_future:
  assumes "ticks_after env" and "0 \<le> now" and "now \<le> max_int64" and "\<And>e. cs_every s = Some e \<Longrightarrow> e \<le> max_int64"
    and "computeNextRun env s now = Some t"
  shows "t > now \<or>
    cs_kind s = ''every'' \<and> t < 0 \<and> (\<exists>e. cs_every s = Some e \<and> now + e > max_int64 \<and> validateSchedule env s now = Inr s)"
proof (cases "cs_kind s = ''every''")
  case True
  then obtain e where e: "cs_every s = Some e" "e > 0" "t = wrap64 (now + e)"
    using assms(5) by (auto simp: computeNextRun_def split: option.splits if_splits)
  have v: "validateSchedule env s now = Inr s" using True e by (simp add: validateSchedule_def)
  show ?thesis
  proof (cases "now + e \<le> max_int64")
    case True
    then have "t = now + e" using e assms(2) by (simp add: wrap64_id max_int64_def min_int64_def)
    then show ?thesis using e by simp
  next
    case False
    have "now + e \<le> 2 * max_int64" using assms(3) assms(4) [OF e(1)] by simp
    then have "wrap64 (now + e) = now + e - 2 ^ 64"
      using False minus_mod_self2 [of "now + e + 2 ^ 63" "2 ^ 64"]
        mod_pos_pos_trivial [of "now + e + 2 ^ 63 - 2 ^ 64" "2 ^ 64"] by (simp add: wrap64_def max_int64_def)
    then show ?thesis using False True e v \<open>now + e \<le> 2 * max_int64\<close> by (simp add: max_int64_def)
  qed
next
  case False
  show ?thesis
  proof (cases "cs_kind s = ''at''")
    case True
    then show ?thesis using assms(5) by (auto simp: computeNextRun_def split: option.splits if_splits)
  next
    case at: False
    then obtain u where u: "ce_next_tick env (cs_expr s) (TrimSpace (cs_tz s)) now = Some u" "t = UnixMilli u"
      using assms(5) False by (auto simp: computeNextRun_def split: option.splits if_splits)
    then have "time_UnixMilli now < u" "u mod nsSecond = 0" using assms(1) by (auto simp: ticks_after_def)
    then obtain k where k: "u = 1000000 * (1000 * k)" "now * 1000000 < u"
      by (auto simp: time_UnixMilli_def nsSecond_def dest!: mod_0_imp_dvd)
    then show ?thesis using u(2) by (simp add: UnixMilli_def)
  qed
qed

theorem next_run_in_future_witness:
  "computeNextRun no_cron (cj_schedule (ex_every ''j'' max_int64 0)) 5000 = Some (5000 + max_int64 - 2 ^ 64) \<and>
   5000 + max_int64 - 2 ^ 64 < 0 \<and> ticks_after no_cron"
proof -
  let ?s = "cj_schedule (ex_every ''j'' max_int64 0)"
  have t: "ticks_after no_cron" by (simp add: ticks_after_def no_cron_def)
  have c: "computeNextRun no_cron ?s 5000 = Some (5000 + max_int64 - 2 ^ 64)"
    by (simp add: computeNextRun_def ex_every_def wrap64_def max_int64_def)
  have e: "cs_every ?s = Some max_int64" by (simp add: ex_every_def)
  show ?thesis
    using next_run_in_future [OF t _ _ _ c] e c t by (auto simp: max_int64_def)
qed

section \<open>An unreadable store\<close>

text \<open>
  An unreadable store file is lost with the first job that is added.  The constructor ignores that the
  file could not be read and begins with no jobs; \<^verbatim>\<open>Start\<close> does refuse and leaves the file alone, but
  adding a job saves the list that holds this job only over the file.
\<close>

theorem unreadable_store_overwritten:
  assumes "sv = NewCronService Unreadable" and "validateSchedule env sch (UnixMilli (cw_now w)) = Inr sch'" and "cw_save w"
  shows "sv_jobs sv = [] \<and> Start env w sv = (sv, False, Some ErrLoad) \<and>
    (\<exists>job. AddJob env w name sch msg deliver ch to sv = (sv\<lparr>sv_jobs := [job], sv_file := Jobs [job]\<rparr>, Inr job))"
  using assms by (simp add: NewCronService_def loadStore_def Start_def AddJob_def Let_def saveStoreUnsafe_def)

theorem unreadable_store_overwritten_witness:
  "sv_file (fst (AddJob no_cron (cron_world_at 5000 ''j'') ''n'' (cj_schedule (ex_every [] 1000 0)) [] False [] [] (NewCronService Unreadable)))
     \<noteq> Unreadable"
proof -
  have "validateSchedule no_cron (cj_schedule (ex_every [] 1000 0)) (UnixMilli (cw_now (cron_world_at 5000 ''j''))) = Inr (cj_schedule (ex_every [] 1000 0))"
    by (simp add: validateSchedule_def ex_every_def)
  moreover have "cw_save (cron_world_at 5000 ''j'')" by (simp add: cron_world_at_def)
  ultimately obtain job where
    "AddJob no_cron (cron_world_at 5000 ''j'') ''n'' (cj_schedule (ex_every [] 1000 0)) [] False [] [] (NewCronService Unreadable)
       = ((NewCronService Unreadable)\<lparr>sv_jobs := [job], sv_file := Jobs [job]\<rparr>, Inr job)"
    using unreadable_store_overwritten [OF refl, of no_cron "cj_schedule (ex_every [] 1000 0)" "cron_world_at 5000 ''j''"
        "cj_schedule (ex_every [] 1000 0)" "''n''" "[]" False "[]" "[]"] by blast
  then show ?thesis by simp
qed

end
