(* ===== verification/CronRuns.thy ===== *)
theory CronRuns
  imports Cron
begin

text \<open>
  The scheduler as it runs: the loop of \<^verbatim>\<open>runLoop\<close> holds the queue of due ids and the run whose handler is
  busy; each locked section (a check, the beginning and the end of a run, a call of the API) is one step, and the
  steps interleave.  \<^verbatim>\<open>Stop\<close> does not wait for the loop, so after the next \<^verbatim>\<open>Start\<close> there can be two.
\<close>

section \<open>The step relation\<close>

record cron_loop =
  lp_queue :: "string list"
  lp_run :: "(string \<times> string \<times> int) option"  \<comment> \<open>job, run and start of the busy handler\<close>

type_synonym cron_sys = "cron_service \<times> cron_loop list"

definition idle :: cron_loop where
  "idle = \<lparr>lp_queue = [], lp_run = None\<rparr>"

datatype cron_label =
    LAdd | LRemove string | LEnable string | LUpdate cron_job | LStart int | LStop | LCheck | LBegin | LFinish | LExit

definition in_flight :: "cron_loop list \<Rightarrow> string list" where
  "in_flight ls = List.map_filter (\<lambda>l. map_option fst (lp_run l)) ls"

definition file_jobs :: "store_file \<Rightarrow> cron_job list" where
  "file_jobs f = (case f of Jobs js \<Rightarrow> js | _ \<Rightarrow> [])"

definition used_ids :: "cron_sys \<Rightarrow> string set" where
  "used_ids sys = cj_id ` set (sv_jobs (fst sys)) \<union> cj_id ` set (file_jobs (sv_file (fst sys))) \<union>
     set (concat (map lp_queue (snd sys))) \<union> set (in_flight (snd sys))"

text \<open>The ids are random; that a new one is unused is part of the step that draws it.\<close>

inductive cron_step :: "cron_env \<Rightarrow> cron_label \<Rightarrow> cron_sys \<Rightarrow> cron_sys \<Rightarrow> bool" for env where
  add: "AddJob env w name sch msg deliver ch to sv = (sv', r) \<Longrightarrow> cw_fresh w 0 \<notin> used_ids (sv, ls)
    \<Longrightarrow> cron_step env LAdd (sv, ls) (sv', ls)"
| remove: "RemoveJob w x sv = (sv', r) \<Longrightarrow> cron_step env (LRemove x) (sv, ls) (sv', ls)"
| enable: "EnableJob env w x b sv = (sv', r) \<Longrightarrow> cron_step env (LEnable x) (sv, ls) (sv', ls)"
| update: "UpdateJob w j sv = (sv', r) \<Longrightarrow> cron_step env (LUpdate j) (sv, ls) (sv', ls)"
| start: "Start env w sv = (sv', started, e)
    \<Longrightarrow> cron_step env (LStart (UnixMilli (cw_now2 w))) (sv, ls) (sv', if started then ls @ [idle] else ls)"
| stop: "cron_step env LStop (sv, ls) (Stop sv, ls)"
| check: "checkJobs w sv = (sv', ids)
    \<Longrightarrow> cron_step env LCheck (sv, ls1 @ idle # ls2) (sv', ls1 @ \<lparr>lp_queue = ids, lp_run = None\<rparr> # ls2)"
| begin_run: "beginJobRunUnsafe w x startedAt runID sv = (sv', r)
    \<Longrightarrow> cron_step env LBegin (sv, ls1 @ \<lparr>lp_queue = x # ids, lp_run = None\<rparr> # ls2)
         (sv', ls1 @ \<lparr>lp_queue = ids, lp_run = (if r = None then None else Some (x, runID, startedAt))\<rparr> # ls2)"
| finish_run: "sv' = finishJobRunUnsafe env w x runID startedAt finishedAt output err sessionKey sv
    \<Longrightarrow> cron_step env LFinish (sv, ls1 @ \<lparr>lp_queue = ids, lp_run = Some (x, runID, startedAt)\<rparr> # ls2)
         (sv', ls1 @ \<lparr>lp_queue = ids, lp_run = None\<rparr> # ls2)"
| exit: "cron_step env LExit (sv, ls1 @ idle # ls2) (sv, ls1 @ ls2)"

text \<open>Reachability by steps whose labels satisfy \<open>P\<close>.\<close>

definition cron_reach :: "cron_env \<Rightarrow> (cron_label \<Rightarrow> bool) \<Rightarrow> cron_sys \<Rightarrow> cron_sys \<Rightarrow> bool" where
  "cron_reach env P = (\<lambda>s s'. \<exists>l. P l \<and> cron_step env l s s')\<^sup>*\<^sup>*"

lemma cron_reach_invariant:
  assumes "cron_reach env P s s'" "I s" "\<And>l t t'. P l \<Longrightarrow> cron_step env l t t' \<Longrightarrow> I t \<Longrightarrow> I t'"
  shows "I s'"
  using assms(1) unfolding cron_reach_def
  by (induction rule: rtranclp_induct) (use assms(2,3) in blast)+

lemma cron_reach_step: "P l \<Longrightarrow> cron_step env l s t \<Longrightarrow> cron_reach env P t u \<Longrightarrow> cron_reach env P s u"
  unfolding cron_reach_def by (blast intro: converse_rtranclp_into_rtranclp)

lemma cron_reach_refl [simp]: "cron_reach env P s s"
  by (simp add: cron_reach_def)

lemma in_flight_simps [simp]:
  "in_flight (ls1 @ ls2) = in_flight ls1 @ in_flight ls2"
  "in_flight (l # ls) = (case lp_run l of None \<Rightarrow> in_flight ls | Some r \<Rightarrow> fst r # in_flight ls)"
  "in_flight [] = []"
  by (simp_all add: in_flight_def List.map_filter_def split: option.splits)

lemma idle_fields [simp]: "lp_queue idle = []" "lp_run idle = None"
  by (simp_all add: idle_def)

section \<open>The history of a job is bounded\<close>

definition short_history :: "cron_job \<Rightarrow> bool" where
  "short_history j \<longleftrightarrow> length (st_history (cj_state j)) \<le> defaultRunHistoryLimit"

definition bounded_histories :: "cron_sys \<Rightarrow> bool" where
  "bounded_histories sys \<longleftrightarrow> (\<forall>j \<in> set (sv_jobs (fst sys)) \<union> set (file_jobs (sv_file (fst sys))). short_history j)"

lemma file_save [simp]: "file_jobs (sv_file (saveStoreUnsafe ok sv)) = (if ok then sv_jobs sv else file_jobs (sv_file sv))"
  by (simp add: saveStoreUnsafe_def file_jobs_def)

lemma short_new [simp]:
  "short_history \<lparr>cj_id = a, cj_name = b, cj_enabled = c, cj_schedule = d, cj_payload = e,
     cj_state = empty_state\<lparr>st_next_run := t\<rparr>, cj_created = f, cj_updated = g, cj_delete_after_run = h\<rparr>"
  by (simp add: short_history_def empty_state_def)

lemma short_changes [simp]:
  "short_history (j\<lparr>cj_state := (cj_state j)\<lparr>st_next_run := t\<rparr>\<rparr>) = short_history j"
  "short_history (j\<lparr>cj_updated := u\<rparr>) = short_history j"
  "short_history (begin_run s n r j) = short_history j"
  "short_history (enable env w b j) = short_history j"
  "short_history (j\<lparr>cj_enabled := b, cj_state := (cj_state j)\<lparr>st_next_run := t\<rparr>\<rparr>) = short_history j"
  "short_history (finish_run r s f n out e k j)"
  by (simp_all add: short_history_def begin_run_def enable_def finish_run_def length_push Let_def)

lemma short_clear: "short_history j \<Longrightarrow> short_history (clear_stale n f j)"
  by (auto simp: short_history_def clear_stale_def length_push Let_def)

lemma short_set_job:
  "\<forall>j \<in> set js. short_history j \<Longrightarrow> (\<And>j. short_history j \<Longrightarrow> short_history (f j)) \<Longrightarrow> \<forall>j \<in> set (set_job x f js). short_history j"
  by (metis set_set_job)

lemma short_start_jobs:
  "\<forall>j \<in> set js. short_history j \<Longrightarrow>
     \<forall>j \<in> set (recomputeNextRuns env t (clearStaleRunningStatesUnsafe n fresh js)). short_history j"
  by (auto simp: recomputeNextRuns_def clearStaleRunningStatesUnsafe_def in_set_enumerate_eq intro!: short_clear)

lemma bounded_parts:
  "bounded_histories (sv, ls) \<longleftrightarrow> (\<forall>j \<in> set (sv_jobs sv). short_history j) \<and> (\<forall>j \<in> set (file_jobs (sv_file sv)). short_history j)"
  by (auto simp: bounded_histories_def)

lemma bounded_remove: "bounded_histories (sv, ls) \<Longrightarrow> bounded_histories (fst (removeJobUnsafe ok x sv), ls')"
  by (auto simp: removeJobUnsafe_def Let_def bounded_parts)

lemma bounded_set_job:
  assumes "bounded_histories (sv, ls)" "\<And>j. short_history j \<Longrightarrow> short_history (f j)"
  shows "bounded_histories (sv\<lparr>sv_jobs := set_job x f (sv_jobs sv)\<rparr>, ls')"
  using assms short_set_job [of "sv_jobs sv" f x] by (simp add: bounded_parts)

lemma bounded_saved: "bounded_histories (sv, ls) \<Longrightarrow> bounded_histories (saveStoreUnsafe ok sv, ls')"
  by (auto simp: bounded_parts)

lemma bounded_next:
  assumes "bounded_histories (sv, ls)"
  shows "bounded_histories (updateNextRunAfterCompletionUnsafe env w j f sv, ls')"
  unfolding updateNextRunAfterCompletionUnsafe_def
  using bounded_remove [OF assms, of "cw_save w" "cj_id j" ls'] by (auto intro!: bounded_set_job [OF assms])

lemma bounded_start:
  assumes "bounded_histories (sv, ls)"
  shows "bounded_histories (fst (Start env w sv), ls')"
proof -
  have "\<forall>j \<in> set (sv_jobs (fst (loadStore sv))). short_history j" "\<forall>j \<in> set (file_jobs (sv_file (fst (loadStore sv)))). short_history j"
    using assms by (auto simp: loadStore_def bounded_parts file_jobs_def split: store_file.splits)
  then show ?thesis
    using assms short_start_jobs by (simp add: Start_def Let_def bounded_parts case_prod_beta split: bool.splits)
qed

lemma bounded_check: "bounded_histories (sv, ls) \<Longrightarrow> bounded_histories (fst (checkJobs w sv), ls')"
  by (auto simp: checkJobs_def Let_def bounded_parts)

lemma bounded_begin:
  assumes "bounded_histories (sv, ls)"
  shows "bounded_histories (fst (beginJobRunUnsafe w x t r sv), ls')"
  using assms short_set_job [of "sv_jobs sv" "Cron.begin_run t (UnixMilli (cw_now w)) r" x]
  by (simp add: beginJobRunUnsafe_def bounded_parts split: option.splits)

lemma bounded_add: "bounded_histories (sv, ls) \<Longrightarrow> bounded_histories (fst (AddJob env w name sch msg deliver ch to sv), ls')"
  by (simp add: AddJob_def Let_def bounded_parts split: sum.splits)

lemma bounded_enable: "bounded_histories (sv, ls) \<Longrightarrow> bounded_histories (fst (EnableJob env w x b sv), ls')"
  using short_set_job [of "sv_jobs sv" "enable env w b" x] by (simp add: EnableJob_def bounded_parts split: option.splits)

lemma bounded_update: "bounded_histories (sv, ls) \<Longrightarrow> short_history j \<Longrightarrow> bounded_histories (fst (UpdateJob w j sv), ls')"
  using short_set_job [of "sv_jobs sv" "\<lambda>_. j\<lparr>cj_updated := UnixMilli (cw_now w)\<rparr>" "cj_id j"]
  by (simp add: UpdateJob_def bounded_parts)

lemma bounded_finish:
  assumes "bounded_histories (sv, ls)"
  shows "bounded_histories (finishJobRunUnsafe env w x r s f outp err k sv, ls')"
proof (cases "findJobUnsafe x (sv_jobs sv)")
  case None
  then show ?thesis using assms by (simp add: finishJobRunUnsafe_def bounded_parts)
next
  case (Some j)
  then show ?thesis using assms by (simp add: finishJobRunUnsafe_def Let_def bounded_saved bounded_next bounded_set_job)
qed

lemmas bounded_operations = bounded_add bounded_start bounded_check bounded_begin bounded_enable bounded_update bounded_finish
  bounded_remove

lemma bounded_step:
  assumes "cron_step env l s s'" "bounded_histories s" "\<And>j. l = LUpdate j \<Longrightarrow> short_history j"
  shows "bounded_histories s'"
  using assms(1)
proof cases
  case (remove w x sv sv' r ls)
  then show ?thesis using assms(2) bounded_remove by (metis RemoveJob_def fst_conv)
next
  case (stop sv ls)
  then show ?thesis using assms(2) by (simp add: Stop_def bounded_parts)
next
  case (exit sv ls1 ls2)
  then show ?thesis using assms(2) by (simp add: bounded_parts)
qed (use assms(2,3) bounded_operations in \<open>metis fst_conv\<close>)+

text \<open>
  However the operations and runs interleave, the history of every job, in memory and in the store
  file, stays within twenty records, if it was and no update brings in a longer one.
\<close>

theorem run_history_bounded:
  assumes "cron_reach env (\<lambda>l. case l of LUpdate j \<Rightarrow> length (st_history (cj_state j)) \<le> 20 | _ \<Rightarrow> True) s s'"
    and "\<forall>j \<in> set (sv_jobs (fst s)) \<union> set (file_jobs (sv_file (fst s))). length (st_history (cj_state j)) \<le> 20"
  shows "\<forall>j \<in> set (sv_jobs (fst s')) \<union> set (file_jobs (sv_file (fst s'))). length (st_history (cj_state j)) \<le> 20"
proof -
  have "bounded_histories s'"
  proof (rule cron_reach_invariant [OF assms(1)])
    show "bounded_histories s" using assms(2) by (simp add: bounded_histories_def short_history_def defaultRunHistoryLimit_def)
    show "bounded_histories t'" if "case l of LUpdate j \<Rightarrow> length (st_history (cj_state j)) \<le> 20 | _ \<Rightarrow> True"
      "cron_step env l t t'" "bounded_histories t" for l t t'
      using bounded_step [OF that(2,3)] that(1) by (cases l) (auto simp: short_history_def defaultRunHistoryLimit_def)
  qed
  then show ?thesis by (simp add: bounded_histories_def short_history_def defaultRunHistoryLimit_def)
qed

definition ex_env :: cron_env where
  "ex_env = \<lparr>ce_valid = (\<lambda>_. True), ce_location = (\<lambda>_. True), ce_next_tick = (\<lambda>_ _ _. None)\<rparr>"

definition ex_cron_world :: "int \<Rightarrow> cron_world" where
  "ex_cron_world ms = \<lparr>cw_now = time_UnixMilli ms, cw_now2 = time_UnixMilli ms, cw_save = True, cw_save2 = True, cw_fresh = (\<lambda>_. ''r'')\<rparr>"

definition ex_job :: cron_job where
  "ex_job = \<lparr>cj_id = ''j'', cj_name = ''n'', cj_enabled = True,
     cj_schedule = \<lparr>cs_kind = ''every'', cs_at = None, cs_every = Some 1000, cs_expr = [], cs_tz = []\<rparr>,
     cj_payload = \<lparr>cp_kind = ''agent_turn'', cp_message = [], cp_command = [], cp_deliver = False, cp_channel = [], cp_to = []\<rparr>,
     cj_state = empty_state\<lparr>st_next_run := Some 5000\<rparr>, cj_created = 0, cj_updated = 0, cj_delete_after_run = False\<rparr>"

definition ex_service :: cron_service where
  "ex_service = \<lparr>sv_jobs = [ex_job], sv_running = True, sv_file = Jobs [ex_job]\<rparr>"

definition ex_begun :: "cron_service \<times> cron_loop list" where
  "ex_begun = (fst (beginJobRunUnsafe (ex_cron_world 5000) ''j'' 5000 ''r1'' (fst (checkJobs (ex_cron_world 5000) ex_service))),
     [\<lparr>lp_queue = [], lp_run = Some (''j'', ''r1'', 5000)\<rparr>])"

lemma ex_begun_reach:
  assumes "P LCheck" "P LBegin"
  shows "cron_reach env P (ex_service, [idle]) ex_begun"
proof -
  let ?w = "ex_cron_world 5000"
  have c: "snd (checkJobs ?w ex_service) = [''j'']" by code_simp
  have b: "snd (beginJobRunUnsafe ?w ''j'' 5000 ''r1'' (fst (checkJobs ?w ex_service))) \<noteq> None" by code_simp
  have s1: "cron_step env LCheck (ex_service, [] @ idle # []) (fst (checkJobs ?w ex_service), [] @ \<lparr>lp_queue = [''j''], lp_run = None\<rparr> # [])"
    by (rule cron_step.check [of ?w]) (simp add: c prod_eq_iff)
  have s2: "cron_step env LBegin (fst (checkJobs ?w ex_service), [] @ \<lparr>lp_queue = [''j''], lp_run = None\<rparr> # [])
      (fst (beginJobRunUnsafe ?w ''j'' 5000 ''r1'' (fst (checkJobs ?w ex_service))),
       [] @ \<lparr>lp_queue = [], lp_run = (if snd (beginJobRunUnsafe ?w ''j'' 5000 ''r1'' (fst (checkJobs ?w ex_service))) = None then None
         else Some (''j'', ''r1'', 5000))\<rparr> # [])"
    by (rule cron_step.begin_run) (rule prod.collapse [symmetric])
  show ?thesis
    using cron_reach_step [where P = P, OF assms(1) s1 cron_reach_step [where P = P, OF assms(2) s2 cron_reach_refl]] b
    by (simp add: ex_begun_def)
qed

theorem run_history_bounded_witness:
  "list_all (\<lambda>j. length (st_history (cj_state j)) \<le> 20) (sv_jobs (fst ex_begun))"
proof -
  have h: "\<forall>j \<in> set (sv_jobs (fst (ex_service, [idle]))) \<union> set (file_jobs (sv_file (fst (ex_service, [idle])))). length (st_history (cj_state j)) \<le> 20"
    by (simp add: ex_service_def ex_job_def file_jobs_def empty_state_def)
  have r: "cron_reach ex_env (\<lambda>l. case l of LUpdate j \<Rightarrow> length (st_history (cj_state j)) \<le> 20 | _ \<Rightarrow> True) (ex_service, [idle]) ex_begun"
    by (rule ex_begun_reach) simp_all
  show ?thesis using run_history_bounded [OF r h] by (simp add: list_all_iff)
qed

section \<open>No job runs twice at a time\<close>

definition single_runs :: "cron_sys \<Rightarrow> bool" where
  "single_runs sys \<longleftrightarrow> distinct (in_flight (snd sys)) \<and>
     (\<forall>x \<in> set (in_flight (snd sys)). \<forall>j. findJobUnsafe x (sv_jobs (fst sys)) = Some j \<longrightarrow> st_running (cj_state j))"

definition running_kept :: "string set \<Rightarrow> cron_service \<Rightarrow> cron_service \<Rightarrow> bool" where
  "running_kept X sv sv' \<longleftrightarrow>
     (\<forall>x \<in> X. \<forall>j'. findJobUnsafe x (sv_jobs sv') = Some j' \<longrightarrow>
        (\<exists>j. findJobUnsafe x (sv_jobs sv) = Some j \<and> st_running (cj_state j') = st_running (cj_state j)))"

lemma single_kept:
  assumes "single_runs (sv, ls)" "running_kept (set (in_flight ls')) sv sv'" "distinct (in_flight ls')"
    "set (in_flight ls') \<subseteq> set (in_flight ls)"
  shows "single_runs (sv', ls')"
  using assms unfolding single_runs_def running_kept_def by (metis fst_conv snd_conv subsetD)

lemma kept_remove: "running_kept X sv (fst (removeJobUnsafe ok y sv))"
  by (simp add: running_kept_def find_filter)

lemma kept_check: "running_kept X sv (fst (checkJobs w sv))"
proof -
  let ?f = "\<lambda>j. if cj_id j \<in> set (map cj_id (filter (due (UnixMilli (cw_now w))) (sv_jobs sv)))
              then j\<lparr>cj_state := (cj_state j)\<lparr>st_next_run := None\<rparr>\<rparr> else j"
  have "findJobUnsafe x (map ?f (sv_jobs sv)) = map_option ?f (findJobUnsafe x (sv_jobs sv))" for x
    by (rule find_map) simp
  then show ?thesis by (auto simp: running_kept_def checkJobs_def Let_def)
qed

lemma kept_enable: "running_kept X sv (fst (EnableJob env w y b sv))"
  by (auto simp: running_kept_def EnableJob_def find_set_job enable_def split: option.splits)

lemma kept_add:
  assumes "cw_fresh w 0 \<notin> X"
  shows "running_kept X sv (fst (AddJob env w name sch msg deliver ch to sv))"
  using assms by (auto simp: running_kept_def AddJob_def Let_def find_snoc split: sum.splits option.splits if_splits)

lemma finish_find:
  assumes "y \<noteq> x" "findJobUnsafe y (sv_jobs (finishJobRunUnsafe env w x r s f outp err k sv)) = Some j"
  shows "findJobUnsafe y (sv_jobs sv) = Some j"
  using assms
  by (auto simp: finishJobRunUnsafe_def Let_def updateNextRunAfterCompletionUnsafe_def find_filter find_set_job
      split: option.splits if_splits dest!: find_member)

lemma single_step:
  assumes "cron_step env l s s'" "single_runs s" "\<forall>t j. l \<noteq> LStart t \<and> l \<noteq> LUpdate j"
  shows "single_runs s'"
  using assms(1)
proof cases
  case (add w name sch msg deliver ch to sv sv' r ls)
  then have "running_kept (set (in_flight ls)) sv sv'"
    using kept_add [of w "set (in_flight ls)" sv env name sch msg deliver ch to] by (simp add: used_ids_def)
  then show ?thesis using single_kept [of sv ls ls sv'] add assms(2) by (simp add: single_runs_def)
next
  case (remove w x sv sv' r ls)
  then have "running_kept (set (in_flight ls)) sv sv'"
    using kept_remove [of _ sv "cw_save w" x] by (metis RemoveJob_def fst_conv)
  then show ?thesis using single_kept [of sv ls ls sv'] remove assms(2) by (simp add: single_runs_def)
next
  case (enable w x b sv sv' r ls)
  then have "running_kept (set (in_flight ls)) sv sv'" using kept_enable by (metis fst_conv)
  then show ?thesis using single_kept [of sv ls ls sv'] enable assms(2) by (simp add: single_runs_def)
next
  case (check w sv sv' ids ls1 ls2)
  then have "running_kept (set (in_flight (ls1 @ idle # ls2))) sv sv'" using kept_check by (metis fst_conv)
  then show ?thesis using check assms(2) single_kept [of sv "ls1 @ idle # ls2" "ls1 @ \<lparr>lp_queue = ids, lp_run = None\<rparr> # ls2" sv']
    by (simp add: single_runs_def)
next
  case (begin_run w x startedAt runID sv sv' r ls1 ids ls2)
  show ?thesis
  proof (cases "r = None")
    case True
    then have "sv' = sv" using begin_run by (auto simp: beginJobRunUnsafe_def split: option.splits if_splits)
    then show ?thesis using True begin_run assms(2) by (simp add: single_runs_def)
  next
    case False
    then obtain j where j: "findJobUnsafe x (sv_jobs sv) = Some j" "\<not> st_running (cj_state j)"
      "sv_jobs sv' = set_job x (Cron.begin_run startedAt (UnixMilli (cw_now w)) runID) (sv_jobs sv)"
      using begin_run by (auto simp: beginJobRunUnsafe_def split: option.splits if_splits)
    then have "x \<notin> set (in_flight ls1) \<union> set (in_flight ls2)" using begin_run assms(2) by (auto simp: single_runs_def)
    then show ?thesis
      using False begin_run assms(2) j by (auto simp: single_runs_def find_set_job Cron.begin_run_def)
  qed
next
  case (finish_run sv' w x runID startedAt finishedAt outp err sessionKey sv ls1 ids ls2)
  have "x \<notin> set (in_flight (ls1 @ ls2))" using finish_run assms(2) by (auto simp: single_runs_def)
  moreover have "st_running (cj_state j)" if "y \<in> set (in_flight (ls1 @ ls2))" "findJobUnsafe y (sv_jobs sv') = Some j" for y j
  proof -
    have "y \<noteq> x" using that(1) \<open>x \<notin> set (in_flight (ls1 @ ls2))\<close> by blast
    then have "findJobUnsafe y (sv_jobs sv) = Some j" using finish_find that(2) finish_run(4) by blast
    then show ?thesis using finish_run assms(2) that(1) by (auto simp: single_runs_def)
  qed
  ultimately show ?thesis
    using finish_run assms(2) by (auto simp: single_runs_def)
next
  case (exit sv ls1 ls2)
  then show ?thesis using assms(2) by (simp add: single_runs_def)
next
  case (stop sv ls)
  then show ?thesis using assms(2) by (simp add: single_runs_def Stop_def)
qed (use assms(3) in auto)

text \<open>
  C23: No job runs twice at a time, whatever else happens to the jobs meanwhile, as long as the service is
  not started again and no job is overwritten by an update: however many loops there are, the handlers
  that are busy are busy with different jobs.
\<close>

theorem no_concurrent_runs:
  assumes "cron_reach env (\<lambda>l. \<forall>t j. l \<noteq> LStart t \<and> l \<noteq> LUpdate j) (sv, ls) (sv', ls')" and "in_flight ls = []"
  shows "distinct (in_flight ls')"
proof -
  have "single_runs (sv', ls')"
    by (rule cron_reach_invariant [OF assms(1)]) (use assms(2) single_step in \<open>auto simp: single_runs_def\<close>)
  then show ?thesis by (simp add: single_runs_def)
qed

theorem no_concurrent_runs_witness: "distinct (in_flight (snd ex_begun))"
proof -
  have "cron_reach ex_env (\<lambda>l. \<forall>t j. l \<noteq> LStart t \<and> l \<noteq> LUpdate j) (ex_service, [idle]) (fst ex_begun, snd ex_begun)"
    using ex_begun_reach by simp
  from no_concurrent_runs [OF this] show ?thesis by simp
qed

definition restarted :: "cron_service" where
  "restarted = fst (Start ex_env (ex_cron_world 6000) (Stop (fst ex_begun)))"

definition begun_again :: cron_sys where
  "begun_again = (fst (beginJobRunUnsafe (ex_cron_world 7000) ''j'' 7000 ''r2'' (fst (checkJobs (ex_cron_world 7000) restarted))),
     snd ex_begun @ [\<lparr>lp_queue = [], lp_run = Some (''j'', ''r2'', 7000)\<rparr>])"

text \<open>
  A restart of the service in the middle of a run breaks this: \<^verbatim>\<open>Stop\<close> does not wait for the busy
  handler, and \<^verbatim>\<open>Start\<close> declares its run aborted, so the new loop begins the same job again while the
  old handler is still busy.
\<close>

theorem restart_runs_job_twice:
  "cron_reach ex_env (\<lambda>l. \<forall>j. l \<noteq> LUpdate j) (ex_service, [idle]) begun_again \<and> in_flight (snd begun_again) = [''j'', ''j'']"
proof -
  let ?P = "\<lambda>l. \<forall>j. l \<noteq> LUpdate j" and ?w = "ex_cron_world 7000"
  let ?old = "\<lparr>lp_queue = [], lp_run = Some (''j'', ''r1'', 5000)\<rparr>"
  have e: "ex_begun = (fst ex_begun, [?old])" by (simp add: ex_begun_def)
  have st: "snd (Start ex_env (ex_cron_world 6000) (Stop (fst ex_begun))) = (True, None)" by code_simp
  have c: "snd (checkJobs ?w restarted) = [''j'']" by code_simp
  have b: "snd (beginJobRunUnsafe ?w ''j'' 7000 ''r2'' (fst (checkJobs ?w restarted))) \<noteq> None" by code_simp
  have s1: "cron_step ex_env LStop (fst ex_begun, [?old]) (Stop (fst ex_begun), [?old])" by (rule cron_step.stop)
  have s2: "cron_step ex_env (LStart (UnixMilli (cw_now2 (ex_cron_world 6000)))) (Stop (fst ex_begun), [?old])
      (restarted, if True then [?old] @ [idle] else [?old])"
    by (rule cron_step.start) (simp add: restarted_def st prod_eq_iff)
  have s3: "cron_step ex_env LCheck (restarted, [?old] @ idle # []) (fst (checkJobs ?w restarted), [?old] @ \<lparr>lp_queue = [''j''], lp_run = None\<rparr> # [])"
    by (rule cron_step.check [of ?w]) (simp add: c prod_eq_iff)
  have s4: "cron_step ex_env LBegin (fst (checkJobs ?w restarted), [?old] @ \<lparr>lp_queue = [''j''], lp_run = None\<rparr> # [])
      (fst (beginJobRunUnsafe ?w ''j'' 7000 ''r2'' (fst (checkJobs ?w restarted))),
       [?old] @ \<lparr>lp_queue = [], lp_run = (if snd (beginJobRunUnsafe ?w ''j'' 7000 ''r2'' (fst (checkJobs ?w restarted))) = None then None
         else Some (''j'', ''r2'', 7000))\<rparr> # [])"
    by (rule cron_step.begin_run) (rule prod.collapse [symmetric])
  have r4: "cron_reach ex_env ?P (fst (checkJobs ?w restarted), [?old, \<lparr>lp_queue = [''j''], lp_run = None\<rparr>]) begun_again"
    using cron_reach_step [where P = ?P, OF _ s4 cron_reach_refl] b by (simp add: begun_again_def ex_begun_def)
  have r3: "cron_reach ex_env ?P (restarted, [?old, idle]) begun_again"
    by (rule cron_reach_step [where P = ?P, OF _ _ r4]) (use s3 in simp_all)
  have r2: "cron_reach ex_env ?P (Stop (fst ex_begun), [?old]) begun_again"
    by (rule cron_reach_step [where P = ?P, OF _ _ r3]) (use s2 in simp_all)
  have r1: "cron_reach ex_env ?P ex_begun begun_again"
    by (subst e, rule cron_reach_step [where P = ?P, OF _ s1 r2]) simp
  have "cron_reach ex_env ?P (ex_service, [idle]) ex_begun" by (rule ex_begun_reach) simp_all
  then have "cron_reach ex_env ?P (ex_service, [idle]) begun_again"
    using r1 unfolding cron_reach_def by (rule rtranclp_trans)
  moreover have "in_flight (snd begun_again) = [''j'', ''j'']" by (simp add: begun_again_def ex_begun_def)
  ultimately show ?thesis by blast
qed

section \<open>One-shot jobs whose time has passed\<close>

definition own :: "string \<Rightarrow> cron_job list \<Rightarrow> cron_job list" where
  "own x js = filter (\<lambda>j. cj_id j = x) js"

definition passed :: "int \<Rightarrow> cron_job \<Rightarrow> bool" where
  "passed t j \<longleftrightarrow> cj_enabled j \<and> cs_kind (cj_schedule j) = ''at'' \<and> cs_at (cj_schedule j) = Some t"

definition stuck :: "int \<Rightarrow> cron_job \<Rightarrow> bool" where
  "stuck t j \<longleftrightarrow> passed t j \<and> st_next_run (cj_state j) = None"

definition stuck_sys :: "string \<Rightarrow> int \<Rightarrow> cron_sys \<Rightarrow> bool" where
  "stuck_sys x t sys \<longleftrightarrow>
     own x (sv_jobs (fst sys)) \<noteq> [] \<and> list_all (stuck t) (own x (sv_jobs (fst sys))) \<and>
     (\<exists>js. sv_file (fst sys) = Jobs js \<and> own x js \<noteq> [] \<and> list_all (passed t) (own x js)) \<and>
     x \<notin> set (in_flight (snd sys)) \<and> (\<forall>l \<in> set (snd sys). x \<notin> set (lp_queue l))"

text \<open>An operation that leaves the jobs with an id alone, in memory and in what it saves.\<close>

definition unmoved :: "string \<Rightarrow> cron_service \<Rightarrow> cron_service \<Rightarrow> bool" where
  "unmoved x sv sv' \<longleftrightarrow> own x (sv_jobs sv') = own x (sv_jobs sv) \<and>
     (sv_file sv' = sv_file sv \<or> (\<exists>js. sv_file sv' = Jobs js \<and> own x js = own x (sv_jobs sv)))"

lemma unmoved_stuck:
  assumes "stuck_sys x t (sv, ls)" "unmoved x sv sv'" "x \<notin> set (in_flight ls')" "\<forall>l \<in> set ls'. x \<notin> set (lp_queue l)"
  shows "stuck_sys x t (sv', ls')"
  using assms by (auto simp: stuck_sys_def unmoved_def stuck_def list_all_iff)

lemma own_set_job:
  "x \<noteq> y \<Longrightarrow> (\<And>j. cj_id j = y \<Longrightarrow> cj_id (f j) = y) \<Longrightarrow> own x (set_job y f js) = own x js"
  by (induction js) (auto simp: own_def)

lemma unmoved_save: "own x (sv_jobs sv1) = own x (sv_jobs sv) \<Longrightarrow> sv_file sv1 = sv_file sv \<Longrightarrow> unmoved x sv (saveStoreUnsafe ok sv1)"
  by (simp add: unmoved_def saveStoreUnsafe_def)

lemma unmoved_trans: "unmoved x sv sv1 \<Longrightarrow> unmoved x sv1 sv2 \<Longrightarrow> unmoved x sv sv2"
  by (auto simp: unmoved_def)

lemma unmoved_saved [simp]: "unmoved x sv (saveStoreUnsafe ok sv)"
  by (simp add: unmoved_def saveStoreUnsafe_def)

lemma unmoved_refl [simp]: "unmoved x sv sv"
  by (simp add: unmoved_def)

lemma unmoved_jobs: "own x js = own x (sv_jobs sv) \<Longrightarrow> unmoved x sv (sv\<lparr>sv_jobs := js\<rparr>)"
  by (simp add: unmoved_def)

lemma unmoved_saved_jobs: "own x js = own x (sv_jobs sv) \<Longrightarrow> unmoved x sv (saveStoreUnsafe ok (sv\<lparr>sv_jobs := js\<rparr>))"
  by (simp add: unmoved_def saveStoreUnsafe_def)

lemma unmoved_remove: "x \<noteq> y \<Longrightarrow> unmoved x sv (fst (removeJobUnsafe ok y sv))"
proof -
  assume "x \<noteq> y"
  then have "own x (filter (\<lambda>j. cj_id j \<noteq> y) (sv_jobs sv)) = own x (sv_jobs sv)"
    by (simp add: own_def) (metis (lifting))
  then show ?thesis by (simp add: removeJobUnsafe_def Let_def unmoved_jobs unmoved_saved_jobs)
qed

lemma unmoved_next: "x \<noteq> cj_id j \<Longrightarrow> unmoved x sv (updateNextRunAfterCompletionUnsafe env w j f sv)"
  by (auto simp: updateNextRunAfterCompletionUnsafe_def unmoved_remove intro!: unmoved_jobs own_set_job)

lemma unmoved_finish:
  assumes "x \<noteq> y"
  shows "unmoved x sv (finishJobRunUnsafe env w y r s f outp err k sv)"
proof (cases "findJobUnsafe y (sv_jobs sv)")
  case None
  then show ?thesis by (simp add: finishJobRunUnsafe_def)
next
  case (Some j)
  let ?fin = "finish_run r s f (UnixMilli (cw_now w)) outp err k"
  let ?sv1 = "sv\<lparr>sv_jobs := set_job y ?fin (sv_jobs sv)\<rparr>"
  have "unmoved x sv ?sv1" using assms by (intro unmoved_jobs own_set_job) simp_all
  moreover have "unmoved x ?sv1 (updateNextRunAfterCompletionUnsafe env w (?fin j) f ?sv1)"
    using assms find_member [OF Some] by (intro unmoved_next) simp
  ultimately show ?thesis
    using Some unmoved_trans [OF _ unmoved_trans [OF _ unmoved_saved]] by (simp add: finishJobRunUnsafe_def Let_def)
qed

lemma stuck_check:
  assumes "list_all (stuck t) (own x (sv_jobs sv))"
  shows "unmoved x sv (fst (checkJobs w sv))" "x \<notin> set (snd (checkJobs w sv))"
proof -
  have nd: "\<not> due n j" if "j \<in> set (sv_jobs sv)" "cj_id j = x" for n j
    using assms that by (auto simp: list_all_iff own_def stuck_def due_def)
  then show q: "x \<notin> set (snd (checkJobs w sv))" by (auto simp: checkJobs_def Let_def)
  let ?ids = "cj_id ` {j \<in> set (sv_jobs sv). due (UnixMilli (cw_now w)) j}"
  have "x \<notin> ?ids" using nd by auto
  then have "own x (map (\<lambda>j. if cj_id j \<in> ?ids then j\<lparr>cj_state := (cj_state j)\<lparr>st_next_run := None\<rparr>\<rparr> else j) js) = own x js" for js
    by (induction js) (auto simp: own_def)
  then show "unmoved x sv (fst (checkJobs w sv))"
    by (simp add: checkJobs_def Let_def unmoved_jobs unmoved_saved_jobs)
qed

lemma unmoved_operations:
  "cw_fresh w 0 \<noteq> x \<Longrightarrow> unmoved x sv (fst (AddJob env w name sch msg deliver ch to sv))"
  "x \<noteq> y \<Longrightarrow> unmoved x sv (fst (EnableJob env w y b sv))"
  "x \<noteq> cj_id j \<Longrightarrow> unmoved x sv (fst (UpdateJob w j sv))"
  "x \<noteq> y \<Longrightarrow> unmoved x sv (fst (beginJobRunUnsafe w y s r sv))"
proof -
  show "cw_fresh w 0 \<noteq> x \<Longrightarrow> unmoved x sv (fst (AddJob env w name sch msg deliver ch to sv))"
    by (auto simp: AddJob_def Let_def own_def split: sum.splits intro!: unmoved_saved_jobs)
  show "x \<noteq> y \<Longrightarrow> unmoved x sv (fst (EnableJob env w y b sv))"
    by (auto simp: EnableJob_def split: option.splits intro!: unmoved_saved_jobs own_set_job)
  show "x \<noteq> cj_id j \<Longrightarrow> unmoved x sv (fst (UpdateJob w j sv))"
    by (auto simp: UpdateJob_def intro!: unmoved_saved_jobs own_set_job)
  show "x \<noteq> y \<Longrightarrow> unmoved x sv (fst (beginJobRunUnsafe w y s r sv))"
    by (auto simp: beginJobRunUnsafe_def split: option.splits intro!: unmoved_saved_jobs own_set_job)
qed

definition start_job :: "cron_env \<Rightarrow> int \<Rightarrow> int \<Rightarrow> string \<Rightarrow> cron_job \<Rightarrow> cron_job" where
  "start_job env now n fresh j =
     (let k = clear_stale n fresh j in
      if cj_enabled k then k\<lparr>cj_state := (cj_state k)\<lparr>st_next_run := computeNextRun env (cj_schedule k) now\<rparr>\<rparr> else k)"

lemma start_jobs:
  "recomputeNextRuns env now (clearStaleRunningStatesUnsafe n fresh js) = map (\<lambda>(i, j). start_job env now n (fresh i) j) (enumerate 0 js)"
  by (simp add: recomputeNextRuns_def clearStaleRunningStatesUnsafe_def start_job_def comp_def case_prod_beta Let_def)

lemma clear_fields [simp]:
  "cj_id (clear_stale n f j) = cj_id j" "cj_schedule (clear_stale n f j) = cj_schedule j" "cj_enabled (clear_stale n f j) = cj_enabled j"
  by (simp_all add: clear_stale_def Let_def)

lemma start_job_stuck: "t \<le> now \<Longrightarrow> passed t j \<Longrightarrow> stuck t (start_job env now n f j)"
  by (simp add: start_job_def stuck_def passed_def computeNextRun_def Let_def)

lemma start_job_id [simp]: "cj_id (start_job env now n f j) = cj_id j"
  by (simp add: start_job_def Let_def)

lemma started_stuck:
  assumes "t \<le> now" "own x js \<noteq> []" "list_all (passed t) (own x js)"
  shows "own x (recomputeNextRuns env now (clearStaleRunningStatesUnsafe n fresh js)) \<noteq> []"
    "list_all (stuck t) (own x (recomputeNextRuns env now (clearStaleRunningStatesUnsafe n fresh js)))"
proof -
  have "own x (map (\<lambda>(i, j). start_job env now n (fresh i) j) (enumerate m js)) \<noteq> []" for m
    using assms(2) by (induction js arbitrary: m) (auto simp: own_def split: if_splits)
  then show "own x (recomputeNextRuns env now (clearStaleRunningStatesUnsafe n fresh js)) \<noteq> []"
    unfolding start_jobs by blast
  have "list_all (stuck t) (own x (map (\<lambda>(i, j). start_job env now n (fresh i) j) (enumerate m js)))" for m
    using assms(1,3) by (induction js arbitrary: m) (auto simp: own_def start_job_stuck)
  then show "list_all (stuck t) (own x (recomputeNextRuns env now (clearStaleRunningStatesUnsafe n fresh js)))"
    unfolding start_jobs by blast
qed

lemma stuck_start:
  assumes "sv_file sv = Jobs js" "own x js \<noteq> []" "list_all (passed t) (own x js)" "t \<le> UnixMilli (cw_now2 w)"
    "Start env w sv = (sv', started, e)" "\<not> sv_running sv"
    "x \<notin> set (in_flight ls) \<and> (\<forall>l \<in> set ls. x \<notin> set (lp_queue l))"
  shows "stuck_sys x t (sv', ls)"
proof -
  have "sv_jobs sv' = recomputeNextRuns env (UnixMilli (cw_now2 w)) (clearStaleRunningStatesUnsafe (UnixMilli (cw_now w)) (cw_fresh w) js)"
    "sv_file sv' = (if cw_save w then Jobs (sv_jobs sv') else Jobs js)"
    using assms(1,5,6) by (auto simp: Start_def loadStore_def saveStoreUnsafe_def Let_def split: if_splits)
  then show ?thesis
    using started_stuck [OF assms(4,2,3)] assms(2,3,7) by (auto simp: stuck_sys_def stuck_def list_all_iff)
qed

definition leaves_alone :: "string \<Rightarrow> int \<Rightarrow> cron_label \<Rightarrow> bool" where
  "leaves_alone x t l \<longleftrightarrow>
     (case l of LRemove y \<Rightarrow> y \<noteq> x | LEnable y \<Rightarrow> y \<noteq> x | LUpdate j \<Rightarrow> cj_id j \<noteq> x | LStart now \<Rightarrow> t \<le> now | _ \<Rightarrow> True)"

lemma stuck_parts:
  "stuck_sys x t (sv, ls) \<Longrightarrow> x \<notin> set (in_flight ls)" "stuck_sys x t (sv, ls) \<Longrightarrow> \<forall>l \<in> set ls. x \<notin> set (lp_queue l)"
  "stuck_sys x t (sv, ls) \<Longrightarrow> list_all (stuck t) (own x (sv_jobs sv))" "stuck_sys x t (sv, ls) \<Longrightarrow> x \<in> used_ids (sv, ls)"
  by (auto simp: stuck_sys_def used_ids_def own_def filter_empty_conv)

lemma stuck_step:
  assumes "cron_step env l s s'" "stuck_sys x t s" "leaves_alone x t l"
  shows "stuck_sys x t s'"
  using assms(1)
proof cases
  case (add w name sch msg deliver ch to sv sv' r ls)
  then have "cw_fresh w 0 \<noteq> x" using assms(2) stuck_parts(4) by blast
  then have "unmoved x sv sv'" using unmoved_operations(1) add by (metis fst_conv)
  then show ?thesis using unmoved_stuck stuck_parts add assms(2) by blast
next
  case (remove w y sv sv' r ls)
  then have "unmoved x sv sv'" 
    using unmoved_remove [of x y sv "cw_save w"] assms(3) by (simp add: RemoveJob_def leaves_alone_def)
  then show ?thesis using unmoved_stuck stuck_parts remove assms(2) by blast
next
  case (enable w y b sv sv' r ls)
  then have "x \<noteq> y" using assms(3) by (simp add: leaves_alone_def)
  then have "unmoved x sv sv'" using unmoved_operations(2) enable by (metis fst_conv)
  then show ?thesis using unmoved_stuck stuck_parts enable assms(2) by blast
next
  case (update w j sv sv' r ls)
  then have "x \<noteq> cj_id j" using assms(3) by (simp add: leaves_alone_def)
  then have "unmoved x sv sv'" using unmoved_operations(3) update by (metis fst_conv)
  then show ?thesis using unmoved_stuck stuck_parts update assms(2) by blast
next
  case (start w sv sv' started e ls)
  show ?thesis
  proof (cases "sv_running sv")
    case True
    then show ?thesis using start assms(2) by (simp add: Start_def)
  next
    case False
    obtain js where js: "sv_file sv = Jobs js" "own x js \<noteq> []" "list_all (passed t) (own x js)"
      using assms(2) start by (auto simp: stuck_sys_def)
    have "t \<le> UnixMilli (cw_now2 w)" using assms(3) start by (simp add: leaves_alone_def)
    moreover have "x \<notin> set (in_flight (if started then ls @ [idle] else ls)) \<and>
        (\<forall>l \<in> set (if started then ls @ [idle] else ls). x \<notin> set (lp_queue l))"
      using assms(2) start by (auto simp: stuck_sys_def)
    ultimately show ?thesis using stuck_start [OF js _ start(4) False] start(3) by blast
  qed
next
  case (stop sv ls)
  then have "unmoved x sv (Stop sv)" by (simp add: Stop_def unmoved_def)
  then show ?thesis using unmoved_stuck stuck_parts stop assms(2) by blast
next
  case (check w sv sv' ids ls1 ls2)
  have "unmoved x sv sv'" "x \<notin> set ids"
    using stuck_check [of t x sv w] stuck_parts(3) assms(2) check by (metis fst_conv, metis snd_conv)
  moreover have "x \<notin> set (in_flight (ls1 @ \<lparr>lp_queue = ids, lp_run = None\<rparr> # ls2))"
    using stuck_parts(1) assms(2) check by fastforce
  moreover have "\<forall>l \<in> set (ls1 @ ls2). x \<notin> set (lp_queue l)" using stuck_parts(2) assms(2) check by fastforce
  ultimately show ?thesis using unmoved_stuck assms(2) check by fastforce
next
  case (begin_run w y startedAt runID sv sv' r ls1 ids ls2)
  have q: "\<forall>l \<in> set (ls1 @ \<lparr>lp_queue = y # ids, lp_run = None\<rparr> # ls2). x \<notin> set (lp_queue l)"
    "x \<notin> set (in_flight (ls1 @ \<lparr>lp_queue = y # ids, lp_run = None\<rparr> # ls2))"
    using stuck_parts(1,2) assms(2) begin_run by blast+
  then have "x \<noteq> y" by auto
  then have "unmoved x sv sv'" using unmoved_operations(4) begin_run by (metis fst_conv)
  moreover have "\<forall>l \<in> set (ls1 @ \<lparr>lp_queue = ids, lp_run = (if r = None then None else Some (y, runID, startedAt))\<rparr> # ls2). x \<notin> set (lp_queue l)"
    "x \<notin> set (in_flight (ls1 @ \<lparr>lp_queue = ids, lp_run = (if r = None then None else Some (y, runID, startedAt))\<rparr> # ls2))"
    using q \<open>x \<noteq> y\<close> by auto
  ultimately show ?thesis using unmoved_stuck assms(2) begin_run by blast
next
  case (finish_run sv' w y runID startedAt finishedAt outp err sessionKey sv ls1 ids ls2)
  have q: "\<forall>l \<in> set (ls1 @ \<lparr>lp_queue = ids, lp_run = Some (y, runID, startedAt)\<rparr> # ls2). x \<notin> set (lp_queue l)"
    "x \<notin> set (in_flight (ls1 @ \<lparr>lp_queue = ids, lp_run = Some (y, runID, startedAt)\<rparr> # ls2))"
    using stuck_parts(1,2) assms(2) finish_run by blast+
  then have "x \<noteq> y" by auto
  then have "unmoved x sv sv'" using unmoved_finish finish_run(4) by blast
  moreover have "\<forall>l \<in> set (ls1 @ \<lparr>lp_queue = ids, lp_run = None\<rparr> # ls2). x \<notin> set (lp_queue l)"
    "x \<notin> set (in_flight (ls1 @ \<lparr>lp_queue = ids, lp_run = None\<rparr> # ls2))"
    using q by auto
  ultimately show ?thesis using unmoved_stuck assms(2) finish_run by blast
next
  case (exit sv ls1 ls2)
  then show ?thesis using assms(2) by (auto simp: stuck_sys_def)
qed

text \<open>
  A one-shot job whose time passed while the service was down never runs.  Once the service has
  started after that time, then whatever happens that does not touch the job itself (other jobs, runs,
  restarts at later times), the job stays in the list, enabled, without a next run and without a run: it
  neither fires late nor is marked as missed.
\<close>

theorem missed_job_never_runs:
  assumes "sv_file sv = Jobs js" and "\<not> sv_running sv"
    and "\<exists>j \<in> set js. cj_id j = x" and "\<forall>j \<in> set js. cj_id j = x \<longrightarrow> passed t j" and "t \<le> UnixMilli (cw_now2 w)"
    and "Start env w sv = (sv0, started, e)"
    and "cron_reach env (leaves_alone x t) (sv0, if started then [idle] else []) (sv', ls')"
  shows "(\<exists>j \<in> set (sv_jobs sv'). cj_id j = x) \<and>
    (\<forall>j \<in> set (sv_jobs sv'). cj_id j = x \<longrightarrow> cj_enabled j \<and> st_next_run (cj_state j) = None) \<and>
    x \<notin> set (in_flight ls')"
proof -
  have "own x js \<noteq> []" "list_all (passed t) (own x js)"
    using assms(3,4) by (auto simp: own_def filter_empty_conv list_all_iff)
  from stuck_start [OF assms(1) this assms(5,6,2), of "if started then [idle] else []"]
  have "stuck_sys x t (sv0, if started then [idle] else [])" by simp
  then have "stuck_sys x t (sv', ls')"
    by (rule cron_reach_invariant [OF assms(7)]) (use stuck_step in blast)
  then show ?thesis by (auto simp: stuck_sys_def own_def filter_empty_conv list_all_iff stuck_def passed_def)
qed

definition ex_missed :: cron_job where
  "ex_missed = ex_job\<lparr>cj_schedule := \<lparr>cs_kind = ''at'', cs_at = Some 5000, cs_every = None, cs_expr = [], cs_tz = []\<rparr>,
     cj_delete_after_run := True\<rparr>"

theorem missed_job_never_runs_witness:
  "\<exists>j \<in> set (sv_jobs (fst (checkJobs (ex_cron_world 7000) (fst (Start ex_env (ex_cron_world 6000)
      \<lparr>sv_jobs = [], sv_running = False, sv_file = Jobs [ex_missed]\<rparr>))))). cj_id j = ''j''"
proof -
  let ?sv = "\<lparr>sv_jobs = [], sv_running = False, sv_file = Jobs [ex_missed]\<rparr>"
  let ?s = "Start ex_env (ex_cron_world 6000) ?sv"
  have f: "sv_file ?sv = Jobs [ex_missed]" "\<not> sv_running ?sv" "\<exists>j \<in> set [ex_missed]. cj_id j = ''j''"
    "\<forall>j \<in> set [ex_missed]. cj_id j = ''j'' \<longrightarrow> passed 5000 j" "5000 \<le> UnixMilli (cw_now2 (ex_cron_world 6000))"
    by (simp_all add: ex_missed_def ex_job_def passed_def ex_cron_world_def UnixMilli_def time_UnixMilli_def)
  have st: "fst (snd ?s) = True" by code_simp
  have s: "?s = (fst ?s, True, snd (snd ?s))" using st by (simp add: prod_eq_iff)
  have "cron_step ex_env LCheck (fst ?s, [] @ idle # []) (fst (checkJobs (ex_cron_world 7000) (fst ?s)),
      [] @ \<lparr>lp_queue = snd (checkJobs (ex_cron_world 7000) (fst ?s)), lp_run = None\<rparr> # [])"
    by (rule cron_step.check [of "ex_cron_world 7000"]) simp
  then have "cron_reach ex_env (leaves_alone ''j'' 5000) (fst ?s, if True then [idle] else []) (fst (checkJobs (ex_cron_world 7000) (fst ?s)),
      [\<lparr>lp_queue = snd (checkJobs (ex_cron_world 7000) (fst ?s)), lp_run = None\<rparr>])"
    by (intro cron_reach_step [where l = LCheck, OF _ _ cron_reach_refl]) (simp_all add: leaves_alone_def)
  from missed_job_never_runs [OF f s this] show ?thesis by blast
qed

end
