(* ===== verification/Spec2Isabelle.thy ===== *)
theory Spec2Isabelle
  imports Commands InboundQueue Channels MediaStore FileTools Prelude Routing MessageSplit Cooldown Classify Fallback Session SessionManager SessionReplay SessionLimits
    SessionLoad HistoryStore JsonlStore SessionStore Cron CronRuns Transcript Compaction ToolPolicy ToolExec ToolLoop
    ModelDowngrade AgentRun RunProperties
begin

text \<open>
  A verification development for X-Claw, an assistant runtime written in Go.  A message that comes in from
  a channel is routed to an agent and a session, joins the history of that session, is shown to a language
  model as a request, and the answer is cut to the size of the channel; sessions are durable, providers
  fail and cool down, histories are compacted, and a scheduler starts runs of its own.

  The parts, in the order the theories import each other, with the code they model:

    \<^item> Prelude: Go's strings (lists of bytes), its integer quotient, slices and instants as far as the
      sources use them, and the two collections of facts (\<open>go_defs\<close>, \<open>preserve\<close>) the proofs share.
    \<^item> Routing: \<^verbatim>\<open>internal/core/routing\<close>.  \<open>NormalizeAgentID\<close>, the builders and parsers of session keys
      and \<open>ResolveRoute\<close> with its cascade of bindings, related to an abstract choice of the most
      specific binding.
    \<^item> MessageSplit, ChannelSplit: \<^verbatim>\<open>pkg/utils/message.go\<close>, \<^verbatim>\<open>pkg/utils/string.go\<close> and the splitter of
      \<^verbatim>\<open>pkg/channels/manager.go\<close>, the one in use.  The splitting loops take fuel, \<open>None\<close> being ``still
      running''; returning is proved where they return, and running for ever where they do not.
    \<^item> Cooldown, Classify, Fallback: \<^verbatim>\<open>pkg/providers/cooldown.go\<close>, \<^verbatim>\<open>error_classifier.go\<close>,
      \<^verbatim>\<open>model_ref.go\<close>, \<^verbatim>\<open>fallback.go\<close>.  The chain relies on the tracker through the locale
      \<open>cooldown_port\<close>, which is interpreted on the tracker.
    \<^item> Session, SessionManager, SessionReplay, SessionLimits, SessionLoad: \<^verbatim>\<open>pkg/session\<close>.  Sessions
      are trees of events; the manager keeps them in memory and in one log and one meta file each.
      The outcome of every file operation is an argument, so that errors are branches of the model.
    \<^item> HistoryStore, JsonlStore, SessionStore: the contract \<open>history_store\<close>, and the two stores that keep
      it, \<^verbatim>\<open>pkg/memory/jsonl.go\<close> and the session manager, as interpretations.
    \<^item> Cron, CronRuns: \<^verbatim>\<open>pkg/cron\<close>.  The state of the service, each of its operations, and the loop with
      its handlers as a step relation \<open>cron_step\<close> whose invariants are proved by rule induction.
    \<^item> Transcript: \<^verbatim>\<open>pkg/agent/context.go\<close>.  The grammar \<open>accepted\<close> of the messages a provider accepts
      (each call with exactly one result, directly after its turn, and no other result) is inductive.  The repair
      of a history is a projection onto it for histories that are \<open>tidy\<close>; on others it keeps results nobody
      asked for (\<open>surplus_results_kept\<close>), and \<open>repaired\<close> is the weaker shape it has then.
    \<^item> Compaction: \<^verbatim>\<open>pkg/agent/loop_compaction.go\<close>, over the contract \<open>compaction_store\<close> that the session
      manager keeps.

    \<^item> ToolPolicy, ToolExec: \<^verbatim>\<open>pkg/tools\<close>, the registry, the policy, the emergency stop, the error
      template, the hooks, and the executor of a batch of calls with its goroutines as a step relation
      \<open>tool_step\<close>, related to the calls made one after the other.
    \<^item> ToolLoop, ModelDowngrade, AgentRun, RunProperties: \<^verbatim>\<open>pkg/agent/loop.go\<close> from the iteration runner on,
      \<^verbatim>\<open>loop_tools.go\<close>, \<^verbatim>\<open>loop_errors.go\<close>, \<^verbatim>\<open>loop_model_downgrade.go\<close> and the pipeline around it.  A run
      composes the session manager, the request, the fallback chain, the compaction and the tools; it
      relies on the tools through the locale \<open>tool_port\<close>, which is interpreted on the executor.  Runs
      execute their batches one call after the other; \<open>schedule_independent\<close> is the bridge to the goroutines.
      \<open>st_requests\<close> has one entry for each request to a provider, those of a compaction apart.
    \<^item> Inbound, InboundQueue: what a message of the bus leads to (its peer, its agent, its session, the reply
      contexts of \<^verbatim>\<open>pkg/bus/reply_context.go\<close>) and the queue of \<^verbatim>\<open>AgentLoop.Run\<close>: the dispatcher, a worker
      for each key, the semaphore and the steering inboxes as a step relation \<open>work_step\<close> over all
      interleavings, with an invariant, an account of every message, and a bound on the steps that are left.
    \<^item> Commands: \<^verbatim>\<open>loop_commands.go\<close>, \<^verbatim>\<open>pipeline_permissions.go\<close>: the commands of a chat, plan mode, and the
      messages of the system, cron and heartbeat.
    \<^item> Channels: \<^verbatim>\<open>pkg/channels/manager*.go\<close>, \<^verbatim>\<open>pkg/identity\<close>: who may write, when the bot answers in a
      group, the indicators, retries, delivery and the binding of an answer to its session.  A round of the janitor
      is one step; \<open>eviction_race\<close> shows what a message between its visits may lose.
    \<^item> MediaStore: \<^verbatim>\<open>pkg/media/store.go\<close>, references to files, their scopes and their removal.
    \<^item> FilePaths, FileTools: \<^verbatim>\<open>pkg/tools/filesystem*.go\<close>, \<^verbatim>\<open>pkg/fileutil\<close>: paths, the check that keeps them
      inside the workspace and what dangling links do to it, the file systems of the tools and the atomic write as the
      list of the states of the disk.

  What the lemmas show.  Routing picks the most specific binding; keys parse back; chunks stay within their
  limit; the chain rests failed providers; sessions survive restarts and their bounds hold; both stores keep
  one contract; cron never runs a job twice at once and bounds its history; the repair of a tidy
  history is a projection onto the transcripts providers accept; a compaction changes the session as one step or not at all; a batch
  of tool calls ends, in order and independent of the schedule; a run sends well-formed requests, leaves a
  well-formed session and keeps its budgets; a session runs one message at a time, in order, and the queue
  drains; a command of plan mode runs what was captured; an answer without code fences arrives whole,
  and a reply to it reaches its session.  Where the code falls short of what it means to do, the theorem
  states what it does.

  Fuel and bounds.  No definition is cut off by a bound of its own: loops are structural or have a proved
  measure, and the splitting loops, which can run for ever, take fuel: with as much as the text has runes they
  return on text without code fences.  The counters of
  \<open>call_from\<close> and \<open>run_iterations\<close> are the code's own bounds (two retries, the configured iterations).

  What stands outside.  The contents of files are the values that were encoded: the JSON codec is a
  parameter or is left out, with its round trip as a named hypothesis where a proof needs it.
  Network, model answers, clocks and file-system outcomes are arguments, indexed by the moment they are asked
  for.  A \<^verbatim>\<open>float64\<close> is
  the rational number it denotes, rounded by \<open>fl64\<close> after each operation.

  Not modelled: the protocols of the chat platforms, the HTTP gateway, authentication, the configuration loader,
  the HTTP clients of the providers, skills, MCP, voice and logging, which are input and output around the parts
  above; the shell, web and session tools (a tool is an argument of the executor) and the files and the vector
  index of the agent's memory.
\<close>

end
